(* ===== verification/Prelude.thy ===== *)
theory Prelude
  imports Main "HOL-Library.AList"
begin

text \<open>
  Shared vocabulary of the development. JavaScript's \<open>Map\<close> iterates in insertion order, keeps
  the place of a key that is set again and moves a key that is deleted and set again to the end;
  the code relies on all three (eviction of the oldest key, first match over all queues). It is
  modelled by an association list with the library's \<open>AList.update\<close> and \<open>AList.delete\<close>, whose
  laws are stated once as the locale \<open>ordered_map\<close>. The theory also holds \<open>findIndex\<close> and
  \<open>splice\<close> of JavaScript arrays, with their lemmas, and the collections the component theories
  extend.
\<close>

named_theorems js_array \<open>equations of the JavaScript array operations\<close>

subsection \<open>Insertion-ordered maps\<close>

type_synonym ('k, 'v) jsmap = "('k \<times> 'v) list"

abbreviation map_get :: "('k, 'v) jsmap \<Rightarrow> 'k \<Rightarrow> 'v option" where
  "map_get m k \<equiv> map_of m k"

abbreviation map_set :: "('k, 'v) jsmap \<Rightarrow> 'k \<Rightarrow> 'v \<Rightarrow> ('k, 'v) jsmap" where
  "map_set m k v \<equiv> AList.update k v m"

abbreviation map_del :: "('k, 'v) jsmap \<Rightarrow> 'k \<Rightarrow> ('k, 'v) jsmap" where
  "map_del m k \<equiv> AList.delete k m"

abbreviation map_keys :: "('k, 'v) jsmap \<Rightarrow> 'k list" where
  "map_keys m \<equiv> map fst m"

abbreviation map_vals :: "('k, 'v) jsmap \<Rightarrow> 'v list" where
  "map_vals m \<equiv> map snd m"

definition map_has :: "('k, 'v) jsmap \<Rightarrow> 'k \<Rightarrow> bool" where
  "map_has m k \<longleftrightarrow> map_of m k \<noteq> None"

abbreviation wf_map :: "('k, 'v) jsmap \<Rightarrow> bool" where
  "wf_map m \<equiv> distinct (map fst m)"

lemma map_has_key: "map_has m k \<longleftrightarrow> k \<in> fst ` set m"
  by (simp add: map_has_def map_of_eq_None_iff)

lemma map_get_set [simp]: "map_get (map_set m k v) k' = (if k' = k then Some v else map_get m k')"
  by (simp add: update_conv')

lemma map_get_del [simp]: "map_get (map_del m k) k' = (if k' = k then None else map_get m k')"
  by (simp add: delete_conv')

lemma map_has_set [simp]: "map_has (map_set m k v) k' \<longleftrightarrow> k' = k \<or> map_has m k'"
  by (simp add: map_has_def)

lemma map_has_del [simp]: "map_has (map_del m k) k' \<longleftrightarrow> k' \<noteq> k \<and> map_has m k'"
  by (simp add: map_has_def)

lemma map_has_Nil [simp]: "\<not> map_has [] k"
  by (simp add: map_has_def)

lemma map_keys_set:
  "map_keys (map_set m k v) = (if k \<in> set (map_keys m) then map_keys m else map_keys m @ [k])"
  by (simp add: update_keys)

lemma map_keys_del: "map_keys (map_del m k) = filter (\<lambda>x. x \<noteq> k) (map_keys m)"
  by (induction m) auto

lemma wf_map_set [simp]: "wf_map m \<Longrightarrow> wf_map (map_set m k v)"
  by (rule distinct_update)

lemma wf_map_del [simp]: "wf_map m \<Longrightarrow> wf_map (map_del m k)"
  by (rule distinct_delete)

lemma length_map_set: "length (map_set m k v) = (if k \<in> set (map_keys m) then length m else Suc (length m))"
  by (metis length_append_singleton length_map map_keys_set)

lemma map_set_new: "k \<notin> set (map_keys m) \<Longrightarrow> map_set m k v = m @ [(k, v)]"
  by (induction m) auto

lemma map_vals_set_subset: "set (map_vals (map_set m k v)) \<subseteq> insert v (set (map_vals m))"
  by (induction m) auto

lemma set_map_set_subset: "set (map_set m k v) \<subseteq> insert (k, v) (set m)"
  by (induction m) auto

lemma set_map_del_subset: "set (map_del m k) \<subseteq> set m"
  by (auto simp: AList.delete_eq)

lemma map_get_map: "map_get (map (\<lambda>(k, v). (k, f v)) m) i = map_option f (map_get m i)"
  by (induction m) auto

lemma wf_map_get_in: "wf_map m \<Longrightarrow> (k, v) \<in> set m \<longleftrightarrow> map_get m k = Some v"
  by (metis map_of_eq_Some_iff)

locale ordered_map =
  fixes get :: "'m \<Rightarrow> 'k \<Rightarrow> 'v option"
    and put :: "'m \<Rightarrow> 'k \<Rightarrow> 'v \<Rightarrow> 'm"
    and del :: "'m \<Rightarrow> 'k \<Rightarrow> 'm"
    and keys :: "'m \<Rightarrow> 'k list"
    and wf :: "'m \<Rightarrow> bool"
  assumes get_put: "get (put m k v) k' = (if k' = k then Some v else get m k')"
    and get_del: "get (del m k) k' = (if k' = k then None else get m k')"
    and keys_put: "keys (put m k v) = (if k \<in> set (keys m) then keys m else keys m @ [k])"
    and keys_del: "keys (del m k) = filter (\<lambda>x. x \<noteq> k) (keys m)"
    and keys_get: "k \<in> set (keys m) \<longleftrightarrow> get m k \<noteq> None"
    and wf_distinct: "wf m \<longleftrightarrow> distinct (keys m)"
begin

lemma wf_put: "wf m \<Longrightarrow> wf (put m k v)"
  by (simp add: wf_distinct keys_put)

lemma wf_del: "wf m \<Longrightarrow> wf (del m k)"
  by (simp add: wf_distinct keys_del)

text \<open>Deleting first makes the key the newest one: the idiom of the caches that refresh order.\<close>

lemma refresh_last: "keys (put (del m k) k v) = filter (\<lambda>x. x \<noteq> k) (keys m) @ [k]"
  by (simp add: keys_put keys_del)

lemma refresh_get: "get (put (del m k) k v) k' = (if k' = k then Some v else get m k')"
  by (simp add: get_put get_del)

lemma refresh_wf: "wf m \<Longrightarrow> wf (put (del m k) k v)"
  by (simp add: wf_put wf_del)

lemma put_size: "length (keys (put m k v)) \<le> Suc (length (keys m))"
  by (simp add: keys_put)

end

interpretation jsm: ordered_map "\<lambda>m k. map_get m k" "\<lambda>m k v. map_set m k v"
  "\<lambda>m k. map_del m k" "\<lambda>m. map_keys m" "\<lambda>m. wf_map m"
  by unfold_locales
    (auto simp: map_keys_set map_keys_del map_of_eq_None_iff)

subsection \<open>Array search and splice\<close>

lemma length_filter_mono:
  "(\<And>x. x \<in> set xs \<Longrightarrow> P x \<Longrightarrow> Q x) \<Longrightarrow> length (filter P xs) \<le> length (filter Q xs)"
  by (induction xs) (auto simp: le_SucI)

fun find_index :: "('a \<Rightarrow> bool) \<Rightarrow> 'a list \<Rightarrow> nat option" where
  "find_index p [] = None"
| "find_index p (x # xs) = (if p x then Some 0 else map_option Suc (find_index p xs))"

lemma find_index_None [simp]: "find_index p xs = None \<longleftrightarrow> (\<forall>x\<in>set xs. \<not> p x)"
  by (induction xs) auto

lemma find_index_Some:
  "find_index p xs = Some i \<longleftrightarrow> i < length xs \<and> p (xs ! i) \<and> (\<forall>j<i. \<not> p (xs ! j))"
proof (induction xs arbitrary: i)
  case Nil
  then show ?case by simp
next
  case (Cons x xs)
  show ?case
  proof (cases i)
    case 0
    then show ?thesis by auto
  next
    case (Suc j)
    then show ?thesis by (auto simp: Cons.IH All_less_Suc2)
  qed
qed

lemma find_index_split:
  "find_index p xs = Some i \<Longrightarrow>
   xs = take i xs @ xs ! i # drop (Suc i) xs \<and> p (xs ! i) \<and> (\<forall>x\<in>set (take i xs). \<not> p x)"
  by (auto simp: find_index_Some id_take_nth_drop in_set_conv_nth)

definition insert_at :: "nat \<Rightarrow> 'a \<Rightarrow> 'a list \<Rightarrow> 'a list" where
  "insert_at i x xs = take i xs @ x # drop i xs"

definition remove_at :: "nat \<Rightarrow> 'a list \<Rightarrow> 'a list" where
  "remove_at i xs = take i xs @ drop (Suc i) xs"

lemma insert_at_0 [simp, js_array]: "insert_at 0 x xs = x # xs"
  by (simp add: insert_at_def)

lemma insert_at_length [simp, js_array]: "insert_at (length xs) x xs = xs @ [x]"
  by (simp add: insert_at_def)

lemma length_insert_at [simp]: "length (insert_at i x xs) = Suc (length xs)"
  by (simp add: insert_at_def)

lemma length_remove_at: "i < length xs \<Longrightarrow> length (remove_at i xs) = length xs - 1"
  by (simp add: remove_at_def)

lemma set_insert_at [simp]: "set (insert_at i x xs) = insert x (set xs)"
  unfolding insert_at_def using append_take_drop_id [of i xs]
  by (metis Un_insert_right list.simps(15) set_append)

lemma map_insert_at: "map f (insert_at i x xs) = insert_at i (f x) (map f xs)"
  by (simp add: insert_at_def take_map drop_map)

lemma map_remove_at: "map f (remove_at i xs) = remove_at i (map f xs)"
  by (simp add: remove_at_def take_map drop_map)

lemma insert_remove_at: "i < length xs \<Longrightarrow> insert_at i (xs ! i) (remove_at i xs) = xs"
  by (simp add: insert_at_def remove_at_def id_take_nth_drop [symmetric])

lemma remove_at_update [simp]: "remove_at i (xs[i := x]) = remove_at i xs"
  by (simp add: remove_at_def)

lemma set_remove_at_subset: "set (remove_at i xs) \<subseteq> set xs"
  by (auto simp: remove_at_def dest: in_set_takeD in_set_dropD)

lemma distinct_remove_at: "distinct xs \<Longrightarrow> distinct (remove_at i xs)"
proof -
  assume "distinct xs"
  then have "distinct (take i xs @ drop i xs)" by simp
  then show ?thesis
    unfolding remove_at_def
    by (metis Cons_nth_drop_Suc append_Nil2 distinct_append distinct.simps(2) drop_all
        inf_commute insert_disjoint(1) linorder_not_less list.simps(15) not_less_eq_eq nat_less_le)
qed

lemma notin_remove_at: "distinct xs \<Longrightarrow> i < length xs \<Longrightarrow> xs ! i \<notin> set (remove_at i xs)"
proof -
  assume d: "distinct xs" and i: "i < length xs"
  then have "distinct (take i xs @ xs ! i # drop (Suc i) xs)"
    by (simp add: id_take_nth_drop [symmetric])
  then show ?thesis by (simp add: remove_at_def)
qed

lemma distinct_insert_at: "distinct (insert_at i x xs) \<longleftrightarrow> x \<notin> set xs \<and> distinct xs"
proof -
  have "distinct (take i xs @ x # drop i xs) \<longleftrightarrow> distinct (x # (take i xs @ drop i xs))"
    by (simp del: append_take_drop_id) blast
  then show ?thesis by (simp add: insert_at_def)
qed

subsection \<open>Optional values\<close>

text \<open>A string that JavaScript takes as true: neither absent nor empty.\<close>

definition truthy :: "string option \<Rightarrow> string option" where
  "truthy s = (if s = Some [] then None else s)"

definition or_else :: "'a option \<Rightarrow> 'a \<Rightarrow> 'a" where
  "or_else v d = (case v of None \<Rightarrow> d | Some x \<Rightarrow> x)"

text \<open>\<open>String.trim\<close> on the characters of this model (no Unicode spaces beyond Latin-1).\<close>

definition js_space :: "char \<Rightarrow> bool" where
  "js_space c \<longleftrightarrow> (of_char c :: nat) \<in> set [9, 10, 11, 12, 13, 32, 160]"

definition js_trim :: "string \<Rightarrow> string" where
  "js_trim s = rev (dropWhile js_space (rev (dropWhile js_space s)))"

lemma find_in: "find P xs = Some x \<Longrightarrow> P x \<and> x \<in> set xs"
  by (induction xs) (auto split: if_splits)

end
