(* ===== verification/QueueAdmission.thy ===== *)
theory QueueAdmission
  imports Prelude
begin

text \<open>
  The admission of one queued turn to a backend (main/app-server/queue-admission.ts): a state
  machine that buffers the turn outcomes that arrive while the backend's answer is in flight, and
  ignores answers of an attempt that is no longer the current one. The code's \<open>symbol\<close> of an
  attempt is a number.
\<close>

record queue_terminal =
  qt_turnId :: string
  qt_status :: "string option"
  qt_errorMessage :: "string option"

datatype admission_kind = StartKind | SteerKind

type_synonym terminals = "(string, queue_terminal) jsmap"

datatype queue_admission =
    AdmIdle
  | AdmStarting (attempt: nat) (kind: admission_kind) (buffered: terminals)
  | AdmAcknowledged (attempt: nat) (kind: admission_kind) (buffered: terminals)
      (ackTurnId: string) (ackTerminal: "queue_terminal option")

datatype admission_event =
    AdmBegin nat "admission_kind option"
  | AdmTerminal queue_terminal
  | AdmAcknowledge nat string
  | AdmSettle nat

fun transitionQueueAdmission :: "queue_admission \<Rightarrow> admission_event \<Rightarrow> queue_admission" where
  "transitionQueueAdmission AdmIdle (AdmBegin a k) =
     AdmStarting a (case k of None \<Rightarrow> StartKind | Some k \<Rightarrow> k) []"
| "transitionQueueAdmission current (AdmBegin a k) = current"
| "transitionQueueAdmission AdmIdle event = AdmIdle"
| "transitionQueueAdmission (AdmStarting a k ts) (AdmTerminal t) =
     (if map_has ts (qt_turnId t) then AdmStarting a k ts
      else AdmStarting a k (map_set ts (qt_turnId t) t))"
| "transitionQueueAdmission (AdmAcknowledged a k ts turn out) (AdmTerminal t) =
     (if map_has ts (qt_turnId t) then AdmAcknowledged a k ts turn out
      else AdmAcknowledged a k (map_set ts (qt_turnId t) t) turn
             (if turn = qt_turnId t then Some t else out))"
| "transitionQueueAdmission (AdmStarting a k ts) (AdmSettle b) =
     (if a \<noteq> b then AdmStarting a k ts else AdmIdle)"
| "transitionQueueAdmission (AdmAcknowledged a k ts turn out) (AdmSettle b) =
     (if a \<noteq> b then AdmAcknowledged a k ts turn out else AdmIdle)"
| "transitionQueueAdmission (AdmStarting a k ts) (AdmAcknowledge b turn) =
     (if a \<noteq> b then AdmStarting a k ts else AdmAcknowledged a k ts turn (map_get ts turn))"
| "transitionQueueAdmission (AdmAcknowledged a k ts turn out) (AdmAcknowledge b turn') =
     AdmAcknowledged a k ts turn out"

subsection \<open>What every admission reached by events satisfies\<close>

text \<open>
  The outcome an acknowledged admission reports is the buffered outcome of the acknowledged turn,
  and the buffer holds one outcome per turn, filed under its own id.
\<close>

fun admission_ok :: "queue_admission \<Rightarrow> bool" where
  "admission_ok AdmIdle \<longleftrightarrow> True"
| "admission_ok (AdmStarting a k ts) \<longleftrightarrow> wf_map ts \<and> (\<forall>(i, t)\<in>set ts. qt_turnId t = i)"
| "admission_ok (AdmAcknowledged a k ts turn out) \<longleftrightarrow>
     wf_map ts \<and> (\<forall>(i, t)\<in>set ts. qt_turnId t = i) \<and> out = map_get ts turn"

lemma filed_set:
  assumes "\<forall>(i, t)\<in>set ts. qt_turnId t = i"
  shows "\<forall>(i, t)\<in>set (map_set ts (qt_turnId u) u). qt_turnId t = i"
proof -
  have "set (map_set ts (qt_turnId u) u) \<subseteq> insert (qt_turnId u, u) (set ts)"
    by (rule set_map_set_subset)
  then show ?thesis using assms by auto
qed

lemma admission_ok_step: "admission_ok adm \<Longrightarrow> admission_ok (transitionQueueAdmission adm ev)"
proof (induction adm ev rule: transitionQueueAdmission.induct)
  case (4 a k ts t)
  then show ?case using filed_set [of ts t] by simp
next
  case (5 a k ts turn out t)
  then show ?case using filed_set [of ts t] by (auto simp: map_has_def)
qed (auto)

definition admission_run :: "queue_admission \<Rightarrow> admission_event list \<Rightarrow> queue_admission" where
  "admission_run adm evs = foldl transitionQueueAdmission adm evs"

lemma admission_ok_run: "admission_ok adm \<Longrightarrow> admission_ok (admission_run adm evs)"
  unfolding admission_run_def by (induction evs arbitrary: adm) (auto intro: admission_ok_step)

text \<open>An attempt that is not the current one changes nothing.\<close>

definition current_attempt :: "queue_admission \<Rightarrow> nat option" where
  "current_attempt adm = (case adm of AdmIdle \<Rightarrow> None
     | AdmStarting a _ _ \<Rightarrow> Some a | AdmAcknowledged a _ _ _ _ \<Rightarrow> Some a)"

lemma stale_attempt_ignored:
  assumes "current_attempt adm \<noteq> Some b"
  shows "transitionQueueAdmission adm (AdmAcknowledge b turn) = adm"
    and "transitionQueueAdmission adm (AdmSettle b) = adm"
  using assms by (cases adm; auto simp: current_attempt_def)+

lemma settle_own: "current_attempt adm = Some a \<Longrightarrow> transitionQueueAdmission adm (AdmSettle a) = AdmIdle"
  by (cases adm) (auto simp: current_attempt_def)

lemma transition_attempt:
  "current_attempt (transitionQueueAdmission adm ev) \<noteq> current_attempt adm \<Longrightarrow>
   (adm = AdmIdle \<and> (\<exists>a k. ev = AdmBegin a k)) \<or>
   (\<exists>a. ev = AdmSettle a \<and> current_attempt adm = Some a \<and> transitionQueueAdmission adm ev = AdmIdle)"
  by (cases adm; cases ev) (auto simp: current_attempt_def split: if_splits)

text \<open>An outcome and the acknowledgement of the attempt commute.\<close>

lemma terminal_acknowledge_swap:
  assumes "admission_ok adm" and "adm = AdmStarting a k ts"
  shows "transitionQueueAdmission (transitionQueueAdmission adm (AdmTerminal t)) (AdmAcknowledge a turn)
    = transitionQueueAdmission (transitionQueueAdmission adm (AdmAcknowledge a turn)) (AdmTerminal t)"
  using assms by (auto simp: map_has_def)

definition buffer_terminal :: "terminals \<Rightarrow> queue_terminal \<Rightarrow> terminals" where
  "buffer_terminal ts t = (if map_has ts (qt_turnId t) then ts else map_set ts (qt_turnId t) t)"

lemma run_starting:
  "admission_run (AdmStarting a k ts) (map AdmTerminal xs) = AdmStarting a k (foldl buffer_terminal ts xs)"
  unfolding admission_run_def by (induction xs arbitrary: ts) (auto simp: buffer_terminal_def)

lemma run_acknowledged:
  "admission_run (AdmAcknowledged a k ts turn (map_get ts turn)) (map AdmTerminal xs) =
     AdmAcknowledged a k (foldl buffer_terminal ts xs) turn (map_get (foldl buffer_terminal ts xs) turn)"
  unfolding admission_run_def
proof (induction xs arbitrary: ts)
  case (Cons t xs)
  have "transitionQueueAdmission (AdmAcknowledged a k ts turn (map_get ts turn)) (AdmTerminal t)
    = AdmAcknowledged a k (buffer_terminal ts t) turn (map_get (buffer_terminal ts t) turn)"
    by (auto simp: buffer_terminal_def map_has_def)
  then show ?case using Cons.IH by simp
qed simp

lemma get_buffered:
  "map_get (foldl buffer_terminal ts xs) turn =
     (case map_get ts turn of Some t \<Rightarrow> Some t | None \<Rightarrow> List.find (\<lambda>t. qt_turnId t = turn) xs)"
  by (induction xs arbitrary: ts) (auto simp: buffer_terminal_def map_has_def split: option.splits)

text \<open>
  Whatever turn outcomes arrive before and after the backend's acknowledgement, in whatever
  order, the acknowledged admission reports the first outcome of its own turn and no other.
\<close>

theorem acknowledged_first_outcome:
  "\<exists>ts. admission_run AdmIdle
        ([AdmBegin a k] @ map AdmTerminal xs @ [AdmAcknowledge a turn] @ map AdmTerminal ys)
     = AdmAcknowledged a (case k of None \<Rightarrow> StartKind | Some k \<Rightarrow> k) ts turn
         (List.find (\<lambda>t. qt_turnId t = turn) (xs @ ys))"
proof -
  define kk where "kk = (case k of None \<Rightarrow> StartKind | Some k \<Rightarrow> k)"
  have split: "admission_run adm (es @ fs) = admission_run (admission_run adm es) fs" for adm es fs
    by (simp add: admission_run_def)
  have f: "List.find P (xs @ ys) = (case List.find P xs of Some t \<Rightarrow> Some t | None \<Rightarrow> List.find P ys)" for P
    by (induction xs) auto
  let ?ts = "foldl buffer_terminal [] xs"
  have "admission_run AdmIdle ([AdmBegin a k] @ map AdmTerminal xs @ [AdmAcknowledge a turn] @ map AdmTerminal ys)
    = admission_run (admission_run (admission_run (AdmStarting a kk []) (map AdmTerminal xs)) [AdmAcknowledge a turn]) (map AdmTerminal ys)"
    by (simp add: split) (simp add: admission_run_def kk_def)
  also have "\<dots> = admission_run (AdmAcknowledged a kk ?ts turn (map_get ?ts turn)) (map AdmTerminal ys)"
    by (simp add: run_starting) (simp add: admission_run_def)
  also have "\<dots> = AdmAcknowledged a kk (foldl buffer_terminal ?ts ys) turn (List.find (\<lambda>t. qt_turnId t = turn) (xs @ ys))"
    unfolding run_acknowledged by (auto simp: get_buffered f split: option.splits)
  finally show ?thesis unfolding kk_def by blast
qed

end
