(* ===== verification/TurnQueueTypes.thy ===== *)
theory TurnQueueTypes
  imports QueueAdmission
begin

text \<open>
  Data of the thread turn queue (main/app-server/thread-turn-queue.ts) and the pure helpers that
  work on one FIFO: which entry dispatch would start, where an entry that could not start goes
  back, how grouped agent messages are rendered, and how the messaging origins of a batch merge
  (shared/src/messaging-causal-context.ts). An absent optional flag is \<open>False\<close>, any other absent
  optional field is \<open>None\<close>. Fields that the queue only passes on are kept together in
  \<open>entry_settings\<close>.
\<close>

subsection \<open>Message origins\<close>

record source_thread =
  st_messageId :: "string option"
  st_turnId :: "string option"
  st_rootTurnId :: "string option"
  st_backend :: string
  st_instanceId :: "string option"
  st_instanceLabel :: "string option"
  st_celestialIcon :: "string option"
  st_threadId :: string
  st_title :: "string option"

record causal_source =
  cs_ownerId :: string
  cs_requestId :: string
  cs_surfaceSelector :: "string option"
  cs_instanceId :: "string option"

record message_origin =
  mo_kind :: string
  mo_causalSource :: "causal_source option"
  mo_ambiguous :: bool
  mo_sourceThread :: "source_thread option"
  mo_threadTodo :: "(string \<times> string option) option"
  mo_other :: "(string \<times> string) list"

text \<open>
  \<open>mergeCausalMessagingContext\<close> returns \<open>{}\<close> (nothing to override: \<open>None\<close>) or the pair of
  fields it sets on the origin it is spread into.
\<close>

definition mergeCausalMessagingContext ::
  "message_origin option list \<Rightarrow> (causal_source option \<times> bool) option" where
  "mergeCausalMessagingContext origins =
     (let sources = List.map_filter (\<lambda>o1. Option.bind o1 mo_causalSource) origins;
          flagged = list_ex (\<lambda>o1. case o1 of None \<Rightarrow> False | Some og \<Rightarrow> mo_ambiguous og) origins
      in if sources = [] \<and> \<not> flagged then None
         else let first = (case sources of [] \<Rightarrow> None | s # _ \<Rightarrow> Some s);
                  ambiguous = flagged \<or> length sources \<noteq> length origins
                    \<or> list_ex (\<lambda>s. Some (cs_ownerId s) \<noteq> map_option cs_ownerId first
                        \<or> (Some (cs_requestId s) \<noteq> map_option cs_requestId first
                           \<and> (truthy (cs_surfaceSelector s) = None
                              \<or> cs_surfaceSelector s \<noteq> Option.bind first cs_surfaceSelector))) sources
              in Some (if ambiguous then (None, True) else (Some (last sources), False)))"

definition apply_causal :: "(causal_source option \<times> bool) option \<Rightarrow> message_origin \<Rightarrow> message_origin" where
  "apply_causal m og = (case m of None \<Rightarrow> og
     | Some (src, amb) \<Rightarrow> og\<lparr>mo_causalSource := src, mo_ambiguous := amb\<rparr>)"

subsection \<open>Turn input\<close>

text \<open>The queue builds text items only; images and files are carried through unread.\<close>

datatype input_item = TextItem string | MediaItem string

record queued_agent_message =
  am_input :: "input_item list"
  am_origin :: "message_origin option"
  am_receivedAt :: int

subsection \<open>Queue entries\<close>

datatype entry_origin = Manual | Automation | Messaging | Scheduled

record entry_settings =
  set_executionMode :: "string option"
  set_approvalPolicy :: "string option"
  set_sandbox :: "string option"
  set_model :: "string option"
  set_collaborationMode :: "string option"
  set_serviceTier :: "string option"
  set_reasoningEffort :: "string option"
  set_fastMode :: "bool option"
  set_automationRunId :: "string option"
  set_automationName :: "string option"

record project_hold =
  ph_directoryKey :: string
  ph_source :: string
  ph_summary :: string

record entry =
  en_id :: string
  en_backend :: string
  en_threadId :: string
  en_origin :: entry_origin
  en_messageOrigin :: "message_origin option"
  en_queuedSteer :: bool
  en_agentMessages :: "queued_agent_message list option"
  en_agentMessageOrigins :: "message_origin list option"
  en_input :: "input_item list"
  en_settings :: entry_settings
  en_held :: bool
  en_holdReason :: "string option"
  en_paused :: bool
  en_pauseRevision :: "nat option"
  en_projectHold :: "project_hold option"
  en_restartContinuation :: bool
  en_title :: "string option"
  en_createdAt :: int

text \<open>\<open>keyFor\<close>: the FIFO of a thread is filed under \<open>backend:threadId\<close>.\<close>

definition buildThreadIdentityKey :: "string \<Rightarrow> string \<Rightarrow> string" where
  "buildThreadIdentityKey backend threadId = backend @ '':'' @ threadId"

definition keyFor :: "entry \<Rightarrow> string" where
  "keyFor e = buildThreadIdentityKey (en_backend e) (en_threadId e)"

subsection \<open>One FIFO\<close>

definition hasWaitingEntry :: "entry list \<Rightarrow> bool" where
  "hasWaitingEntry q = list_ex (\<lambda>e. \<not> en_paused e) q"

definition nextWaitingIndex :: "entry list \<Rightarrow> nat option" where
  "nextWaitingIndex q = find_index (\<lambda>e. \<not> en_paused e) q"

definition restoreAfter :: "entry list \<Rightarrow> entry \<Rightarrow> string option \<Rightarrow> entry list" where
  "restoreAfter q e previousId = (case previousId of
     None \<Rightarrow> e # q
   | Some p \<Rightarrow>
      (case find_index (\<lambda>c. en_id c = p) q of
         Some previous \<Rightarrow> insert_at (previous + 1) e q
       | None \<Rightarrow> (case nextWaitingIndex q of None \<Rightarrow> q @ [e] | Some i \<Rightarrow> insert_at i e q)))"

lemma nextWaiting_has: "hasWaitingEntry q \<longleftrightarrow> nextWaitingIndex q \<noteq> None"
  by (auto simp: hasWaitingEntry_def nextWaitingIndex_def list_ex_iff)

lemma set_restoreAfter [simp]: "set (restoreAfter q e p) = insert e (set q)"
  by (auto simp: restoreAfter_def split: option.splits)

lemma length_restoreAfter [simp]: "length (restoreAfter q e p) = Suc (length q)"
  by (auto simp: restoreAfter_def split: option.splits)

text \<open>
  Taking the next waiting entry out and putting it back restores the FIFO, provided the ids of
  the FIFO are distinct.
\<close>

lemma restoreAfter_takes_back:
  assumes "nextWaitingIndex q = Some i" and "distinct (map en_id q)"
    and p: "previousId = (if i = 0 then None else Some (en_id (q ! (i - 1))))"
  shows "restoreAfter (remove_at i q) (q ! i) previousId = q"
proof -
  have i: "i < length q" using assms(1) by (simp add: nextWaitingIndex_def find_index_Some)
  show ?thesis
  proof (cases i)
    case 0
    then show ?thesis using i p by (cases q) (simp_all add: restoreAfter_def remove_at_def)
  next
    case (Suc j)
    have len: "j < length (remove_at i q)" using i Suc by (simp add: remove_at_def)
    have nth: "remove_at i q ! k = q ! k" if "k \<le> j" for k
      using that i Suc by (simp add: remove_at_def nth_append)
    have "find_index (\<lambda>c. en_id c = en_id (q ! j)) (remove_at i q) = Some j"
      unfolding find_index_Some
    proof (intro conjI allI impI)
      fix k assume "k < j"
      then have "map en_id q ! k \<noteq> map en_id q ! j"
        using assms(2) i Suc by (subst nth_eq_iff_index_eq) auto
      then show "en_id (remove_at i q ! k) \<noteq> en_id (q ! j)"
        using \<open>k < j\<close> i Suc nth [of k] by simp
    qed (use len nth in auto)
    then show ?thesis
      using i p Suc insert_remove_at [OF i] by (simp add: restoreAfter_def)
  qed
qed

subsection \<open>ISO time stamps and grouped agent input\<close>

text \<open>
  \<open>Date.toISOString\<close>: civil date from days since 1970-01-01 in the proleptic Gregorian calendar,
  four-digit years (six digits with a sign outside 0..9999).
\<close>

fun digits_fuel :: "nat \<Rightarrow> nat \<Rightarrow> string" where
  "digits_fuel 0 n = []"
| "digits_fuel (Suc k) n = digits_fuel k (n div 10) @ [char_of (48 + n mod 10)]"

definition civil_from_days :: "int \<Rightarrow> int \<times> int \<times> int" where
  "civil_from_days days =
     (let z = days + 719468;
          era = z div 146097;
          doe = z mod 146097;
          yoe = (doe - doe div 1460 + doe div 36524 - doe div 146096) div 365;
          doy = doe - (365 * yoe + yoe div 4 - yoe div 100);
          mp = (5 * doy + 2) div 153;
          d = doy - (153 * mp + 2) div 5 + 1;
          m = (if mp < 10 then mp + 3 else mp - 9);
          y = yoe + era * 400 + (if m \<le> 2 then 1 else 0)
      in (y, m, d))"

definition toISOString :: "int \<Rightarrow> string" where
  "toISOString ms =
     (let (y, m, d) = civil_from_days (ms div 86400000);
          t = ms mod 86400000;
          year = (if 0 \<le> y \<and> y \<le> 9999 then digits_fuel 4 (nat y)
                  else (if y < 0 then ''-'' else ''+'') @ digits_fuel 6 (nat \<bar>y\<bar>))
      in year @ ''-'' @ digits_fuel 2 (nat m) @ ''-'' @ digits_fuel 2 (nat d) @ ''T''
         @ digits_fuel 2 (nat (t div 3600000)) @ '':'' @ digits_fuel 2 (nat (t div 60000 mod 60)) @ '':''
         @ digits_fuel 2 (nat (t div 1000 mod 60)) @ ''.'' @ digits_fuel 3 (nat (t mod 1000)) @ ''Z'')"

text \<open>Decimal rendering of a natural number, as a template literal prints it.\<close>

fun show_nat :: "nat \<Rightarrow> string" where
  "show_nat n = (if n < 10 then [char_of (48 + n)] else show_nat (n div 10) @ [char_of (48 + n mod 10)])"

declare show_nat.simps [simp del]

definition agent_context :: "source_thread option \<Rightarrow> string" where
  "agent_context src = (case src of
     None \<Rightarrow> ''Operator-edited guidance''
   | Some s \<Rightarrow> or_else (st_title s) (st_threadId s) @ '' ('' @ st_backend s @ '', thread '' @ st_threadId s
       @ (case truthy (st_instanceId s) of None \<Rightarrow> ''''
          | Some i \<Rightarrow> '', instance '' @ or_else (st_instanceLabel s) i) @ '')'')"

definition groupedAgentInput :: "queued_agent_message list \<Rightarrow> input_item list" where
  "groupedAgentInput messages =
     (if length messages = 1 then am_input (hd messages)
      else concat (map (\<lambda>(i, m).
             TextItem (''Message '' @ show_nat (i + 1) @ '' from ''
               @ agent_context (Option.bind (am_origin m) mo_sourceThread) @ [CHR 0x0A]
               @ ''Received: '' @ toISOString (am_receivedAt m)) # am_input m)
           (enumerate 0 messages)))"

end
