(* ===== verification/TurnQueue.thy ===== *)
theory TurnQueue
  imports TurnQueueTypes
begin

text \<open>
  The state of \<open>ThreadTurnQueue\<close> (main/app-server/thread-turn-queue.ts) and its private
  operations. A method that awaits the backend is split at that await: one definition for the part
  before it and one for each way the backend answers, so that other operations can run in between.
  \<open>emit\<close> appends to the event log. The lifecycle callback is taken to return without throwing and,
  except for the one that announces a started turn, before any other call enters the queue: an operation
  that awaits publications (\<open>holdQueue\<close>, \<open>clearQueueHold\<close>, \<open>releaseHold\<close> between two entries of the
  FIFO, the catch of \<open>startNext\<close> between its new hold reason and the held entries) is one step here, so
  what a call that enters between them would see of a hold and its entries is not claimed. The serialisation
  of edits (\<open>mutationTails\<close>) is the order in which they occur in a run. \<open>Symbol()\<close> is a fresh
  number; ids that the code draws with \<open>randomUUID\<close> are chosen by the caller.
\<close>

datatype lifecycle_event =
    EvQueued entry nat bool
  | EvStarted entry string
  | EvFailed entry string
  | EvBlocked entry string
  | EvHeld entry nat string
  | EvCancelled entry "string option"
  | EvTerminal entry "string option" "string option"

record running_entry =
  re_entry :: entry
  re_turnId :: "string option"

record hold =
  ho_reasons :: "string list"
  ho_revision :: nat

record turn_queue =
  queuedEntries :: "(string, entry list) jsmap"
  admissions :: "(string, queue_admission) jsmap"
  runningEntries :: "(string, running_entry) jsmap"
  recentlyAdmitted :: "(string, string option) jsmap"
  recentTerminals :: "(string \<times> string) list"
  releasingKeys :: "string set"
  pendingReleaseKeys :: "string set"
  heldQueues :: "(string, hold) jsmap"
  holdRevision :: nat
  dispatchSuspensions :: "(string, nat) jsmap"
  drainTimers :: "string set"
  closed :: bool
  nextAttempt :: nat
  eventLog :: "lifecycle_event list"

definition turn_queue_new :: turn_queue where
  "turn_queue_new = \<lparr>queuedEntries = [], admissions = [], runningEntries = [], recentlyAdmitted = [],
     recentTerminals = [], releasingKeys = {}, pendingReleaseKeys = {}, heldQueues = [],
     holdRevision = 0, dispatchSuspensions = [], drainTimers = {}, closed = False, nextAttempt = 0,
     eventLog = []\<rparr>"

text \<open>The options object: callbacks the queue asks, at one moment.\<close>

record queue_env =
  isThreadActive :: "string \<Rightarrow> string \<Rightarrow> bool"
  isDispatchHeld :: "string \<Rightarrow> string \<Rightarrow> string option \<Rightarrow> bool \<Rightarrow> bool"
  canSteerThread :: "entry \<Rightarrow> bool"
  hasSteerTurn :: bool
  env_now :: int

definition entry_active :: "queue_env \<Rightarrow> entry \<Rightarrow> bool" where
  "entry_active env e = isThreadActive env (en_backend e) (en_threadId e)"

definition entry_dispatch_held :: "queue_env \<Rightarrow> entry \<Rightarrow> bool" where
  "entry_dispatch_held env e =
     isDispatchHeld env (en_backend e) (en_threadId e) (Some (en_id e)) (en_restartContinuation e)"

definition emit :: "turn_queue \<Rightarrow> lifecycle_event \<Rightarrow> turn_queue" where
  "emit s ev = s\<lparr>eventLog := eventLog s @ [ev]\<rparr>"

definition RECENT_ADMITTED_ENTRY_LIMIT :: nat where "RECENT_ADMITTED_ENTRY_LIMIT = 1000"
definition RECENT_TERMINAL_TURN_LIMIT :: nat where "RECENT_TERMINAL_TURN_LIMIT = 1000"

subsection \<open>Access to FIFOs, admissions and holds\<close>

definition queue_of :: "turn_queue \<Rightarrow> string \<Rightarrow> entry list" where
  "queue_of s key = (case map_get (queuedEntries s) key of None \<Rightarrow> [] | Some q \<Rightarrow> q)"

definition put_queue :: "turn_queue \<Rightarrow> string \<Rightarrow> entry list \<Rightarrow> turn_queue" where
  "put_queue s key q = s\<lparr>queuedEntries := map_set (queuedEntries s) key q\<rparr>"

text \<open>\<open>queueFor\<close> files an empty FIFO when the thread has none; its result is \<open>queue_of\<close>.\<close>

definition queueFor :: "turn_queue \<Rightarrow> string \<Rightarrow> turn_queue" where
  "queueFor s key = (if map_has (queuedEntries s) key then s else put_queue s key [])"

text \<open>An emptied FIFO is dropped from the map.\<close>

definition set_or_drop_queue :: "turn_queue \<Rightarrow> string \<Rightarrow> entry list \<Rightarrow> turn_queue" where
  "set_or_drop_queue s key q =
     (if q = [] then s\<lparr>queuedEntries := map_del (queuedEntries s) key\<rparr> else put_queue s key q)"

fun find_in_queues :: "(string, entry list) jsmap \<Rightarrow> string \<Rightarrow> (string \<times> nat) option" where
  "find_in_queues [] i = None"
| "find_in_queues ((key, q) # rest) i =
     (case find_index (\<lambda>e. en_id e = i) q of Some n \<Rightarrow> Some (key, n) | None \<Rightarrow> find_in_queues rest i)"

definition findQueuedEntry :: "turn_queue \<Rightarrow> string \<Rightarrow> (entry \<times> string \<times> nat) option" where
  "findQueuedEntry s i = (case find_in_queues (queuedEntries s) i of
     None \<Rightarrow> None
   | Some (key, n) \<Rightarrow> Some (queue_of s key ! n, key, n + 1))"

definition admission_of :: "turn_queue \<Rightarrow> string \<Rightarrow> queue_admission" where
  "admission_of s key = (case map_get (admissions s) key of None \<Rightarrow> AdmIdle | Some a \<Rightarrow> a)"

definition applyAdmission :: "turn_queue \<Rightarrow> string \<Rightarrow> admission_event \<Rightarrow> turn_queue" where
  "applyAdmission s key ev =
     (let next = transitionQueueAdmission (admission_of s key) ev
      in if next = AdmIdle then s\<lparr>admissions := map_del (admissions s) key\<rparr>
         else s\<lparr>admissions := map_set (admissions s) key next\<rparr>)"

definition holdReasonFor :: "turn_queue \<Rightarrow> string \<Rightarrow> string option" where
  "holdReasonFor s key = (case map_get (heldQueues s) key of None \<Rightarrow> None
     | Some h \<Rightarrow> (if ho_reasons h = [] then None else Some (last (ho_reasons h))))"

definition addHoldReason :: "turn_queue \<Rightarrow> string \<Rightarrow> string \<Rightarrow> turn_queue" where
  "addHoldReason s key reason =
     (let reasons = filter (\<lambda>c. c \<noteq> reason)
            (case map_get (heldQueues s) key of None \<Rightarrow> [] | Some h \<Rightarrow> ho_reasons h);
          revision = holdRevision s + 1
      in s\<lparr>holdRevision := revision,
           heldQueues := map_set (heldQueues s) key \<lparr>ho_reasons = reasons @ [reason], ho_revision = revision\<rparr>\<rparr>)"

definition dropSpentHold :: "turn_queue \<Rightarrow> string \<Rightarrow> turn_queue" where
  "dropSpentHold s key =
     (if map_has (heldQueues s) key \<and> \<not> list_ex en_held (queue_of s key)
      then s\<lparr>heldQueues := map_del (heldQueues s) key\<rparr> else s)"

definition with_hold :: "string option \<Rightarrow> entry \<Rightarrow> entry" where
  "with_hold reason e = (case truthy reason of None \<Rightarrow> e
     | Some r \<Rightarrow> e\<lparr>en_held := True, en_holdReason := Some r\<rparr>)"

definition heldByQueue :: "turn_queue \<Rightarrow> string \<Rightarrow> entry \<Rightarrow> entry" where
  "heldByQueue s key e = (case truthy (holdReasonFor s key) of None \<Rightarrow> e
     | Some r \<Rightarrow> e\<lparr>en_held := True, en_holdReason := Some (or_else (en_holdReason e) r)\<rparr>)"

fun hold_entries :: "nat \<Rightarrow> bool \<Rightarrow> string \<Rightarrow> entry list \<Rightarrow> entry list \<times> lifecycle_event list" where
  "hold_entries i keepHeld reason [] = ([], [])"
| "hold_entries i keepHeld reason (e # es) =
     (let (es', evs) = hold_entries (i + 1) keepHeld reason es
      in if keepHeld \<and> en_held e then (e # es', evs)
         else let h = e\<lparr>en_held := True, en_holdReason := Some reason\<rparr>
              in (h # es', EvHeld h (i + 1) reason # evs))"

definition holdQueue :: "turn_queue \<Rightarrow> string \<Rightarrow> string \<Rightarrow> bool \<Rightarrow> turn_queue" where
  "holdQueue s key reason keepHeld =
     (if queue_of s key = [] then s
      else let s1 = addHoldReason s key reason;
               (q, evs) = hold_entries 0 keepHeld reason (queue_of s1 key)
           in (put_queue s1 key q)\<lparr>eventLog := eventLog s1 @ evs\<rparr>)"

definition PREVIOUS_TURN_FAILED :: string where
  "PREVIOUS_TURN_FAILED =
     ''The previous turn failed. Review the error before retrying queued messages.''"

definition holdAfterTurnFailure :: "turn_queue \<Rightarrow> string \<Rightarrow> string option \<Rightarrow> turn_queue" where
  "holdAfterTurnFailure s key errorMessage =
     (let reason = or_else errorMessage PREVIOUS_TURN_FAILED
      in if holdReasonFor s key = Some reason then
           (let s1 = queueFor s key
            in if list_all (\<lambda>e. en_held e \<and> en_holdReason e = Some reason) (queue_of s1 key)
               then s1 else holdQueue s1 key reason False)
         else holdQueue s key reason False)"

text \<open>The hold goes first, then each entry's mark with a publication that the code awaits: one step here.\<close>

definition clearQueueHold :: "turn_queue \<Rightarrow> string \<Rightarrow> turn_queue" where
  "clearQueueHold s key =
     (let s1 = s\<lparr>heldQueues := map_del (heldQueues s) key\<rparr>;
          q = map (\<lambda>e. e\<lparr>en_held := False, en_holdReason := None\<rparr>) (queue_of s1 key);
          s2 = (if q = [] then s1 else put_queue s1 key q)
      in s2\<lparr>eventLog := eventLog s2 @ map (\<lambda>(i, e). EvQueued e (i + 1) False) (enumerate 0 q)\<rparr>)"

text \<open>
  \<open>releaseHold\<close>: walks the FIFO with the reason of the nearest entry ahead that stays held. The
  third component collects the reasons that are still carried.
\<close>

definition keeps_hold :: "(string \<Rightarrow> bool) \<Rightarrow> entry \<Rightarrow> bool" where
  "keeps_hold rel e = (case en_holdReason e of None \<Rightarrow> False | Some r \<Rightarrow> \<not> rel r)"

fun release_entries ::
  "nat \<Rightarrow> (string \<Rightarrow> bool) \<Rightarrow> string option \<Rightarrow> entry list \<Rightarrow> entry list \<times> lifecycle_event list \<times> string list" where
  "release_entries i rel ahead [] = ([], [], [])"
| "release_entries i rel ahead (e # es) =
     (if \<not> en_held e then
        (let (es', evs, kept) = release_entries (i + 1) rel ahead es in (e # es', evs, kept))
      else if keeps_hold rel e then
        (let (es', evs, kept) = release_entries (i + 1) rel (en_holdReason e) es
         in (e # es', evs, the (en_holdReason e) # kept))
      else
        (let (es', evs, kept) = release_entries (i + 1) rel ahead es
         in case truthy ahead of
              Some a \<Rightarrow> (let u = e\<lparr>en_holdReason := Some a\<rparr> in (u # es', EvHeld u (i + 1) a # evs, kept))
            | None \<Rightarrow> (let u = e\<lparr>en_held := False, en_holdReason := None\<rparr>
                       in (u # es', EvQueued u (i + 1) False # evs, kept))))"

subsection \<open>Bounded memories\<close>

fun evict :: "nat \<Rightarrow> 'a list \<Rightarrow> 'a list" where
  "evict limit [] = []"
| "evict limit (x # xs) = (if limit < length (x # xs) then evict limit xs else x # xs)"

lemma evict_drop: "evict n xs = drop (length xs - n) xs"
proof (induction xs)
  case (Cons x xs)
  then show ?case by (cases "length xs - n") (auto simp: Suc_diff_le)
qed simp

lemma length_evict: "length (evict n xs) \<le> n"
  by (simp add: evict_drop)

text \<open>\<open>Set.add\<close> keeps the place of an element that is already there.\<close>

definition set_add :: "'a list \<Rightarrow> 'a \<Rightarrow> 'a list" where
  "set_add xs x = (if x \<in> set xs then xs else xs @ [x])"

definition rememberTerminal :: "turn_queue \<Rightarrow> string \<Rightarrow> string \<Rightarrow> turn_queue" where
  "rememberTerminal s key turnId =
     s\<lparr>recentTerminals := evict RECENT_TERMINAL_TURN_LIMIT (set_add (recentTerminals s) (key, turnId))\<rparr>"

definition rememberAdmittedEntry :: "turn_queue \<Rightarrow> string \<Rightarrow> string option \<Rightarrow> turn_queue" where
  "rememberAdmittedEntry s i turnId =
     s\<lparr>recentlyAdmitted := evict RECENT_ADMITTED_ENTRY_LIMIT
         (map_set (map_del (recentlyAdmitted s) i) i turnId)\<rparr>"

definition forgetAdmittedEntry :: "turn_queue \<Rightarrow> string \<Rightarrow> turn_queue" where
  "forgetAdmittedEntry s i = s\<lparr>recentlyAdmitted := map_del (recentlyAdmitted s) i\<rparr>"

end
