(* ===== verification/TurnQueueOps.thy ===== *)
theory TurnQueueOps
  imports TurnQueue
begin

text \<open>
  The operations of \<open>ThreadTurnQueue\<close>: submission in its six forms, dispatch (\<open>startNext\<close>,
  \<open>startEntry\<close>) with one definition per answer of the backend, release of a finished turn, and
  the operator's edits: cancel, move, pause, hold release and retry.
\<close>

subsection \<open>Dispatch suspension and drains\<close>

definition scheduleDrain :: "turn_queue \<Rightarrow> string \<Rightarrow> turn_queue" where
  "scheduleDrain s key =
     (if closed s \<or> key \<in> drainTimers s then s else s\<lparr>drainTimers := insert key (drainTimers s)\<rparr>)"

definition suspend :: "turn_queue \<Rightarrow> string \<Rightarrow> turn_queue" where
  "suspend s key = s\<lparr>dispatchSuspensions :=
     map_set (dispatchSuspensions s) key (or_else (map_get (dispatchSuspensions s) key) 0 + 1)\<rparr>"

definition unsuspend :: "turn_queue \<Rightarrow> string \<Rightarrow> turn_queue" where
  "unsuspend s key =
     (let remaining = or_else (map_get (dispatchSuspensions s) key) 1 - 1
      in if remaining \<noteq> 0 then s\<lparr>dispatchSuspensions := map_set (dispatchSuspensions s) key remaining\<rparr>
         else scheduleDrain (s\<lparr>dispatchSuspensions := map_del (dispatchSuspensions s) key\<rparr>) key)"

definition withDispatchSuspended ::
  "turn_queue \<Rightarrow> string \<Rightarrow> (turn_queue \<Rightarrow> turn_queue \<times> 'a) \<Rightarrow> turn_queue \<times> 'a" where
  "withDispatchSuspended s key edit =
     (let (s1, r) = edit (suspend s key) in (unsuspend s1 key, r))"

definition close_queue :: "turn_queue \<Rightarrow> turn_queue" where
  "close_queue s = s\<lparr>closed := True, drainTimers := {}\<rparr>"

definition drainAll :: "turn_queue \<Rightarrow> turn_queue" where
  "drainAll s = foldl scheduleDrain s (map_keys (queuedEntries s))"

subsection \<open>Starting one entry\<close>

definition startEntry_begin :: "turn_queue \<Rightarrow> entry \<Rightarrow> turn_queue \<times> nat" where
  "startEntry_begin s e =
     (let a = nextAttempt s;
          s1 = applyAdmission (s\<lparr>nextAttempt := a + 1\<rparr>) (keyFor e) (AdmBegin a None)
      in (rememberAdmittedEntry s1 (en_id e) None, a))"

definition startEntry_settle :: "turn_queue \<Rightarrow> string \<Rightarrow> nat \<Rightarrow> turn_queue" where
  "startEntry_settle s key a = scheduleDrain (applyAdmission s key (AdmSettle a)) key"

definition is_acknowledged_by :: "queue_admission \<Rightarrow> nat \<Rightarrow> bool" where
  "is_acknowledged_by adm a = (case adm of AdmAcknowledged b _ _ _ _ \<Rightarrow> a = b | _ \<Rightarrow> False)"

definition admission_terminal :: "queue_admission \<Rightarrow> queue_terminal option" where
  "admission_terminal adm = (case adm of AdmAcknowledged _ _ _ _ t \<Rightarrow> t | _ \<Rightarrow> None)"

text \<open>
  The backend answered with a turn. \<open>Some early\<close>: the start is published, and \<open>early\<close> says
  whether the turn's outcome came before the answer. \<open>None\<close>: a superseded attempt, already settled.
\<close>

definition startEntry_acknowledged ::
  "turn_queue \<Rightarrow> entry \<Rightarrow> nat \<Rightarrow> string \<Rightarrow> turn_queue \<times> bool option" where
  "startEntry_acknowledged s e a turnId =
     (let key = keyFor e;
          s1 = applyAdmission s key (AdmAcknowledge a turnId);
          adm = admission_of s1 key
      in if \<not> is_acknowledged_by adm a then (startEntry_settle s1 key a, None)
         else let early = (admission_terminal adm \<noteq> None);
                  s2 = (if early then s1
                        else s1\<lparr>runningEntries := map_set (runningEntries s1) key
                                  \<lparr>re_entry = e, re_turnId = Some turnId\<rparr>\<rparr>);
                  s3 = rememberAdmittedEntry s2 (en_id e) (Some turnId)
              in (emit s3 (EvStarted e turnId), Some early))"

definition TURN_FAILED :: string where "TURN_FAILED = ''turn/failed''"

definition settleRelease ::
  "turn_queue \<Rightarrow> string \<Rightarrow> string option \<Rightarrow> string option \<Rightarrow> string option \<Rightarrow> turn_queue" where
  "settleRelease s key turnId status errorMessage =
     (let s1 = (case turnId of None \<Rightarrow> s
                | Some t \<Rightarrow> if status \<noteq> Some ''idle'' then rememberTerminal s key t else s);
          s2 = (case map_get (runningEntries s1) key of None \<Rightarrow> s1
                | Some r \<Rightarrow>
                    if turnId = None \<or> re_turnId r = None \<or> re_turnId r = turnId
                    then emit (s1\<lparr>runningEntries := map_del (runningEntries s1) key\<rparr>)
                           (EvTerminal (re_entry r) turnId status)
                    else s1)
      in if status = Some TURN_FAILED then holdAfterTurnFailure s2 key errorMessage else s2)"

text \<open>After the started callback: apply an outcome that has arrived, then end the attempt.\<close>

definition startEntry_started :: "turn_queue \<Rightarrow> entry \<Rightarrow> nat \<Rightarrow> bool \<Rightarrow> turn_queue" where
  "startEntry_started s e a early =
     (let key = keyFor e; adm = admission_of s key;
          terminal = (if is_acknowledged_by adm a then admission_terminal adm else None);
          s1 = (case terminal of None \<Rightarrow> s
                | Some t \<Rightarrow>
                   if early then
                     (let s2 = emit (rememberTerminal s key (qt_turnId t))
                                 (EvTerminal e (Some (qt_turnId t)) (qt_status t))
                      in if qt_status t = Some TURN_FAILED
                         then holdAfterTurnFailure s2 key (qt_errorMessage t) else s2)
                   else settleRelease s key (Some (qt_turnId t)) (qt_status t) (qt_errorMessage t))
      in startEntry_settle s1 key a)"

definition admission_terminals :: "queue_admission \<Rightarrow> nat \<Rightarrow> queue_terminal list" where
  "admission_terminals adm a = (case adm of AdmIdle \<Rightarrow> []
     | AdmStarting b _ ts \<Rightarrow> (if a = b then map_vals ts else [])
     | AdmAcknowledged b _ ts _ _ \<Rightarrow> (if a = b then map_vals ts else []))"

definition hold_for_failed_terminal :: "string \<Rightarrow> turn_queue \<Rightarrow> queue_terminal \<Rightarrow> turn_queue" where
  "hold_for_failed_terminal key s t =
     (if qt_status t = Some TURN_FAILED
      then holdAfterTurnFailure (rememberTerminal s key (qt_turnId t)) key (qt_errorMessage t) else s)"

definition startEntry_rejected :: "turn_queue \<Rightarrow> entry \<Rightarrow> nat \<Rightarrow> string \<Rightarrow> bool \<Rightarrow> turn_queue" where
  "startEntry_rejected s e a err deferFailureEvent =
     (let key = keyFor e; s1 = forgetAdmittedEntry s (en_id e);
          s2 = (if deferFailureEvent then s1
                else emit (foldl (hold_for_failed_terminal key) s1
                             (admission_terminals (admission_of s1 key) a)) (EvFailed e err))
      in startEntry_settle s2 key a)"

subsection \<open>Starting the next entry of a FIFO\<close>

datatype next_step =
    NextNone
  | NextSteer entry "string option" "nat option" nat
  | NextStart entry "string option" "nat option" nat

definition startNext_begin :: "queue_env \<Rightarrow> turn_queue \<Rightarrow> string \<Rightarrow> turn_queue \<times> next_step" where
  "startNext_begin env s0 key =
     (if map_has (admissions s0) key \<or> map_has (dispatchSuspensions s0) key then (s0, NextNone)
      else
        (let s = queueFor s0 key; q = queue_of s key
         in case nextWaitingIndex q of
              None \<Rightarrow> (s, NextNone)
            | Some i \<Rightarrow>
               (let head = q ! i; steer = en_queuedSteer head \<and> canSteerThread env head
                in if en_held head then (s, NextNone)
                   else if entry_dispatch_held env head then (s, NextNone)
                   else if \<not> steer \<and> (map_has (runningEntries s) key \<or> entry_active env head) then (s, NextNone)
                   else
                     (let previousId = (if i = 0 then None else Some (en_id (q ! (i - 1))));
                          s1 = dropSpentHold (set_or_drop_queue s key (remove_at i q)) key;
                          holdRev = map_option ho_revision (map_get (heldQueues s1) key)
                      in if steer \<and> hasSteerTurn env then
                           (let a = nextAttempt s1;
                                s2 = applyAdmission (s1\<lparr>nextAttempt := a + 1\<rparr>) key (AdmBegin a (Some SteerKind))
                            in (rememberAdmittedEntry s2 (en_id head) None, NextSteer head previousId holdRev a))
                         else
                           (let (s2, a) = startEntry_begin s1 head
                            in (s2, NextStart head previousId holdRev a))))))"

text \<open>
  The catch branch: the entry returns to its place and holds the FIFO until a retry. The code awaits
  the publication of the refusal between the new hold reason and the held entries: one step here.
\<close>

definition startNext_failed :: "turn_queue \<Rightarrow> string \<Rightarrow> entry \<Rightarrow> string option \<Rightarrow> string \<Rightarrow> turn_queue" where
  "startNext_failed s key e previousId err =
     (let s1 = queueFor (forgetAdmittedEntry s (en_id e)) key;
          s2 = put_queue s1 key (restoreAfter (queue_of s1 key) e previousId);
          s3 = emit (addHoldReason s2 key err) (EvBlocked e err)
      in holdQueue s3 key err True)"

definition startNext_rejected ::
  "turn_queue \<Rightarrow> string \<Rightarrow> entry \<Rightarrow> string option \<Rightarrow> nat \<Rightarrow> string \<Rightarrow> turn_queue" where
  "startNext_rejected s key e previousId a err =
     startNext_failed (startEntry_rejected s e a err True) key e previousId err"

datatype steer_answer = SteerTurn string | SteerRetry | SteerUndelivered

definition steer_finally :: "queue_env \<Rightarrow> turn_queue \<Rightarrow> string \<Rightarrow> entry \<Rightarrow> nat \<Rightarrow> bool \<Rightarrow> turn_queue" where
  "steer_finally env s key e a delivered =
     (let s1 = applyAdmission s key (AdmSettle a)
      in if delivered \<or> \<not> entry_active env e then scheduleDrain s1 key else s1)"

definition is_starting_by :: "queue_admission \<Rightarrow> nat \<Rightarrow> bool" where
  "is_starting_by adm a = (case adm of AdmStarting b _ _ \<Rightarrow> a = b | _ \<Rightarrow> False)"

definition startNext_steered ::
  "queue_env \<Rightarrow> turn_queue \<Rightarrow> string \<Rightarrow> entry \<Rightarrow> string option \<Rightarrow> nat option \<Rightarrow> nat \<Rightarrow> steer_answer \<Rightarrow> turn_queue" where
  "startNext_steered env s key e previousId holdRev a answer =
     (if \<not> is_starting_by (admission_of s key) a then steer_finally env s key e a False
      else case answer of
        SteerTurn turnId \<Rightarrow>
          (let s1 = applyAdmission s key (AdmAcknowledge a turnId);
               s2 = emit (rememberAdmittedEntry s1 (en_id e) (Some turnId)) (EvStarted e turnId)
           in steer_finally env s2 key e a True)
      | _ \<Rightarrow>
          (let s1 = queueFor (forgetAdmittedEntry s (en_id e)) key;
               s2 = put_queue s1 key (restoreAfter (queue_of s1 key) e previousId);
               s3 = (case truthy (holdReasonFor s2 key) of
                       Some reason \<Rightarrow>
                         (if map_option ho_revision (map_get (heldQueues s2) key) \<noteq> holdRev
                          then holdQueue s2 key reason True else s2)
                     | None \<Rightarrow> s2);
               s4 = (if answer = SteerRetry then scheduleDrain s3 key else s3)
           in steer_finally env s4 key e a False))"

definition startNext_steer_rejected ::
  "queue_env \<Rightarrow> turn_queue \<Rightarrow> string \<Rightarrow> entry \<Rightarrow> string option \<Rightarrow> nat \<Rightarrow> string \<Rightarrow> turn_queue" where
  "startNext_steer_rejected env s key e previousId a err =
     startNext_failed (steer_finally env s key e a False) key e previousId err"

definition fire_drain :: "queue_env \<Rightarrow> turn_queue \<Rightarrow> string \<Rightarrow> turn_queue \<times> next_step" where
  "fire_drain env s key = startNext_begin env (s\<lparr>drainTimers := drainTimers s - {key}\<rparr>) key"

subsection \<open>Submission\<close>

datatype submission =
    SubStarting entry nat
  | SubQueued entry nat
  | SubBusy

definition thread_idle :: "queue_env \<Rightarrow> turn_queue \<Rightarrow> string \<Rightarrow> string \<Rightarrow> string \<Rightarrow> bool" where
  "thread_idle env s key backend threadId \<longleftrightarrow>
     \<not> map_has (admissions s) key \<and> \<not> map_has (dispatchSuspensions s) key
     \<and> \<not> map_has (runningEntries s) key \<and> \<not> map_has (heldQueues s) key
     \<and> \<not> hasWaitingEntry (queue_of s key)
     \<and> \<not> isThreadActive env backend threadId \<and> \<not> isDispatchHeld env backend threadId None False"

text \<open>The check files an empty FIFO once the four map lookups before it have passed.\<close>

definition canStartImmediately ::
  "queue_env \<Rightarrow> turn_queue \<Rightarrow> string \<Rightarrow> string \<Rightarrow> turn_queue \<times> bool" where
  "canStartImmediately env s backend threadId =
     (let key = buildThreadIdentityKey backend threadId
      in if map_has (admissions s) key \<or> map_has (dispatchSuspensions s) key
            \<or> map_has (runningEntries s) key \<or> map_has (heldQueues s) key then (s, False)
         else (queueFor s key, thread_idle env s key backend threadId))"

definition push_entry :: "turn_queue \<Rightarrow> string \<Rightarrow> entry \<Rightarrow> turn_queue \<times> nat" where
  "push_entry s key e =
     (let s1 = queueFor s key; q = queue_of s1 key @ [e]
      in (emit (put_queue s1 key q) (EvQueued e (length q) False), length q))"

definition submit :: "queue_env \<Rightarrow> turn_queue \<Rightarrow> entry \<Rightarrow> turn_queue \<times> submission" where
  "submit env s e =
     (let (s1, free) = canStartImmediately env s (en_backend e) (en_threadId e)
      in if \<not> free then
           (let key = keyFor e; h = with_hold (holdReasonFor s1 key) e; (s2, position) = push_entry s1 key h
            in (s2, SubQueued h position))
         else (let (s2, a) = startEntry_begin s1 e in (s2, SubStarting e a)))"

definition submitIfIdle :: "queue_env \<Rightarrow> turn_queue \<Rightarrow> entry \<Rightarrow> turn_queue \<times> submission" where
  "submitIfIdle env s e =
     (let (s1, free) = canStartImmediately env s (en_backend e) (en_threadId e)
      in if \<not> free then (s1, SubBusy)
         else (let (s2, a) = startEntry_begin s1 e in (s2, SubStarting e a)))"

text \<open>
  A grouped steer joins the waiting batch of its thread, or starts, or opens a new batch. The
  caller has suspended dispatch; a start keeps it suspended until the backend has answered.
\<close>

definition batch_origin :: "message_origin option \<Rightarrow> bool \<Rightarrow> message_origin" where
  "batch_origin og several = (case og of
     None \<Rightarrow> \<lparr>mo_kind = '''', mo_causalSource = None, mo_ambiguous = False, mo_sourceThread = None,
              mo_threadTodo = None, mo_other = []\<rparr>
   | Some og1 \<Rightarrow> if several then og1\<lparr>mo_threadTodo := None\<rparr> else og1)"

definition grouped_entry ::
  "entry option \<Rightarrow> entry \<Rightarrow> queued_agent_message \<Rightarrow> string option \<Rightarrow> entry" where
  "grouped_entry current input message holdReason =
     (let base = (case current of None \<Rightarrow> input | Some c \<Rightarrow> c);
          messages = or_else (Option.bind current en_agentMessages) [] @ [message];
          merged = mergeCausalMessagingContext
            (case current of None \<Rightarrow> [am_origin message]
             | Some c \<Rightarrow> [en_messageOrigin c, am_origin message])
      in with_hold holdReason
           (base\<lparr>en_title := None, en_queuedSteer := True, en_agentMessages := Some messages,
                 en_agentMessageOrigins := Some (or_else (Option.bind current en_agentMessageOrigins) []
                    @ (case am_origin message of None \<Rightarrow> [] | Some og \<Rightarrow> [og])),
                 en_input := groupedAgentInput messages,
                 en_messageOrigin := Some (apply_causal merged
                    ((batch_origin (en_messageOrigin input) (1 < length messages))\<lparr>mo_kind := ''agent''\<rparr>))\<rparr>))"

definition steer_may_start :: "queue_env \<Rightarrow> turn_queue \<Rightarrow> string \<Rightarrow> entry \<Rightarrow> bool" where
  "steer_may_start env s key e \<longleftrightarrow>
     \<not> hasWaitingEntry (queue_of s key) \<and> map_get (dispatchSuspensions s) key = Some 1
     \<and> \<not> map_has (admissions s) key \<and> \<not> map_has (runningEntries s) key
     \<and> \<not> entry_active env e \<and> \<not> entry_dispatch_held env e"

definition submitGroupedSteer_edit ::
  "queue_env \<Rightarrow> turn_queue \<Rightarrow> entry \<Rightarrow> bool \<Rightarrow> turn_queue \<times> submission" where
  "submitGroupedSteer_edit env s0 input deferStart =
     (let message = \<lparr>am_input = en_input input, am_origin = en_messageOrigin input, am_receivedAt = env_now env\<rparr>;
          key = keyFor input; s = queueFor s0 key; q = queue_of s key;
          index = find_index (\<lambda>e. en_queuedSteer e \<and> en_agentMessages e \<noteq> None \<and> \<not> en_paused e) q;
          current = map_option (\<lambda>i. q ! i) index;
          e = grouped_entry current input message (holdReasonFor s key)
      in if \<not> deferStart \<and> current = None \<and> steer_may_start env s key e \<and> \<not> map_has (heldQueues s) key
         then (let (s1, a) = startEntry_begin s e in (s1, SubStarting e a))
         else case index of
             Some i \<Rightarrow> (emit (put_queue s key (q[i := e])) (EvQueued e (i + 1) True), SubQueued e (i + 1))
           | None \<Rightarrow> (let (s1, position) = push_entry s key e in (s1, SubQueued e position)))"

definition submitSteer_edit :: "queue_env \<Rightarrow> turn_queue \<Rightarrow> entry \<Rightarrow> turn_queue \<times> submission" where
  "submitSteer_edit env s0 input =
     (let key = keyFor input; s = queueFor s0 key; holdReason = holdReasonFor s key;
          e = with_hold holdReason (input\<lparr>en_queuedSteer := True\<rparr>)
      in if steer_may_start env s key e \<and> truthy holdReason = None
         then (let (s1, a) = startEntry_begin s e in (s1, SubStarting e a))
         else (let (s1, position) = push_entry s key e in (s1, SubQueued e position)))"

definition end_unless_starting :: "string \<Rightarrow> turn_queue \<times> submission \<Rightarrow> turn_queue \<times> submission" where
  "end_unless_starting key r = (case r of
     (s, SubStarting e a) \<Rightarrow> (s, SubStarting e a)
   | (s, other) \<Rightarrow> (unsuspend s key, other))"

definition submitGroupedSteer :: "queue_env \<Rightarrow> turn_queue \<Rightarrow> entry \<Rightarrow> bool \<Rightarrow> turn_queue \<times> submission" where
  "submitGroupedSteer env s input deferStart =
     end_unless_starting (keyFor input)
       (submitGroupedSteer_edit env (suspend s (keyFor input)) input deferStart)"

definition submitSteer :: "queue_env \<Rightarrow> turn_queue \<Rightarrow> entry \<Rightarrow> turn_queue \<times> submission" where
  "submitSteer env s input =
     end_unless_starting (keyFor input) (submitSteer_edit env (suspend s (keyFor input)) input)"

text \<open>\<open>submitHeld\<close>: \<open>Inl\<close> is the error for an id that is queued with different input.\<close>

definition held_insert_index :: "turn_queue \<Rightarrow> string \<Rightarrow> nat" where
  "held_insert_index s key =
     (let q = queue_of s key
      in if map_has (heldQueues s) key then length q
         else or_else (find_index (\<lambda>e. \<not> en_restartContinuation e) q) (length q))"

definition submitHeld :: "turn_queue \<Rightarrow> entry \<Rightarrow> string \<Rightarrow> string + turn_queue \<times> entry \<times> nat" where
  "submitHeld s input reason =
     (let e = input\<lparr>en_held := True, en_holdReason := Some reason\<rparr>
      in case findQueuedEntry s (en_id e) of
           Some (existing, key, position) \<Rightarrow>
             (if en_backend existing \<noteq> en_backend e \<or> en_threadId existing \<noteq> en_threadId e
                 \<or> en_input existing \<noteq> en_input e
              then Inl (''Queued turn id '' @ en_id e @ '' was reused with different input'')
              else Inr (s, existing, position))
         | None \<Rightarrow>
             (let key = keyFor e; s1 = queueFor s key; i = held_insert_index s1 key;
                  s2 = addHoldReason s1 key reason;
                  s3 = emit (put_queue s2 key (insert_at i e (queue_of s2 key))) (EvQueued e (i + 1) False);
                  s4 = holdQueue s3 key reason True
              in case findQueuedEntry s4 (en_id e) of
                   None \<Rightarrow> Inr (s4, e, i + 1)
                 | Some (h, _, position) \<Rightarrow> Inr (s4, h, position)))"

definition submitProjectHeld ::
  "turn_queue \<Rightarrow> entry \<Rightarrow> string \<Rightarrow> project_hold \<Rightarrow> turn_queue \<times> entry \<times> nat" where
  "submitProjectHeld s input reason ph =
     (let e = input\<lparr>en_paused := True, en_pauseRevision := Some 1, en_holdReason := Some reason,
                    en_projectHold := Some ph\<rparr>
      in case findQueuedEntry s (en_id e) of
           Some (existing, _, position) \<Rightarrow> (s, existing, position)
         | None \<Rightarrow> (let (s1, position) = push_entry s (keyFor e) e in (s1, e, position)))"

subsection \<open>Restoring after a restart\<close>

definition restore_one :: "bool \<Rightarrow> turn_queue \<times> entry list \<Rightarrow> entry \<Rightarrow> turn_queue \<times> entry list" where
  "restore_one front acc e =
     (let (s, restored) = acc
      in if findQueuedEntry s (en_id e) \<noteq> None then acc
         else let key = keyFor e; s1 = queueFor s key; q = queue_of s1 key
              in (put_queue s1 key (if front then e # q else q @ [e]),
                  if front then e # restored else restored @ [e]))"

definition restoreProjectHeld :: "turn_queue \<Rightarrow> entry list \<Rightarrow> turn_queue \<times> entry list" where
  "restoreProjectHeld s entries =
     foldl (restore_one False) (s, [])
       (map (\<lambda>e. e\<lparr>en_paused := True, en_pauseRevision := Some 1\<rparr>) (sort_key en_createdAt entries))"

definition restoreRestartContinuations :: "turn_queue \<Rightarrow> entry list \<Rightarrow> turn_queue \<times> entry list" where
  "restoreRestartContinuations s entries =
     foldl (restore_one True) (s, [])
       (map (\<lambda>e. e\<lparr>en_restartContinuation := True\<rparr>) (sort_key (\<lambda>e. - en_createdAt e) entries))"

definition restoreQueued :: "turn_queue \<Rightarrow> entry list \<Rightarrow> turn_queue \<times> entry list" where
  "restoreQueued s entries =
     foldl (restore_one False) (s, [])
       (map (\<lambda>e. if en_paused e then e\<lparr>en_pauseRevision := Some 1\<rparr> else e) entries)"

end
