(* ===== verification/TurnQueueEdits.thy ===== *)
theory TurnQueueEdits
  imports TurnQueueOps
begin

text \<open>
  The operator's edits of \<open>ThreadTurnQueue\<close> (cancel, move, pause, new input, new title, hold
  release, retry) and the release of a finished turn. An edit that suspends dispatch runs between
  \<open>suspend\<close> and \<open>unsuspend\<close>; the state it edits is looked up again inside the suspension, as the
  code does. A result that depends on the backend's answer is split at the answer.
\<close>

subsection \<open>Reading and cancelling\<close>

definition getQueuedEntries :: "turn_queue \<Rightarrow> string \<Rightarrow> string \<Rightarrow> turn_queue \<times> entry list" where
  "getQueuedEntries s backend threadId =
     (let key = buildThreadIdentityKey backend threadId; s1 = queueFor s key in (s1, queue_of s1 key))"

definition getAllQueuedEntries :: "turn_queue \<Rightarrow> entry list" where
  "getAllQueuedEntries s = concat (map_vals (queuedEntries s))"

definition cancelEntry :: "turn_queue \<Rightarrow> string \<Rightarrow> string option \<Rightarrow> turn_queue \<times> entry option" where
  "cancelEntry s i reason =
     (case find_in_queues (queuedEntries s) i of
        None \<Rightarrow> (s, None)
      | Some (key, n) \<Rightarrow>
         (let q = queue_of s key; e = q ! n; rest = remove_at n q;
              s1 = dropSpentHold (set_or_drop_queue s key rest) key;
              s2 = emit s1 (EvCancelled e reason)
          in (if n = 0 \<and> rest \<noteq> [] then scheduleDrain s2 key else s2, Some e)))"

datatype cancel_result =
    Cancelled entry
  | AlreadyAdmitted string "string option"
  | CancelNotFound

definition cancelEntryWithDisposition ::
  "turn_queue \<Rightarrow> string \<Rightarrow> string option \<Rightarrow> turn_queue \<times> cancel_result" where
  "cancelEntryWithDisposition s i reason =
     (case cancelEntry s i reason of
        (s1, Some e) \<Rightarrow> (s1, Cancelled e)
      | (s1, None) \<Rightarrow> (case map_get (recentlyAdmitted s1) i of
            Some turnId \<Rightarrow> (s1, AlreadyAdmitted i (truthy turnId))
          | None \<Rightarrow> (s1, CancelNotFound)))"

subsection \<open>Moving an entry\<close>

datatype move_disposition = Moved | MoveUnchanged | MoveNotFound | AnchorNotFound | MoveHeld

definition blocks_passing :: "entry \<Rightarrow> bool" where
  "blocks_passing e \<longleftrightarrow> en_held e \<or> en_restartContinuation e"

text \<open>The half-open slice \<open>xs.slice(m, n)\<close> with both bounds inside the array.\<close>

definition slice :: "nat \<Rightarrow> nat \<Rightarrow> 'a list \<Rightarrow> 'a list" where
  "slice m n xs = take (n - m) (drop m xs)"

definition move_within :: "entry list \<Rightarrow> string \<Rightarrow> string option \<Rightarrow> entry list \<times> move_disposition" where
  "move_within q i beforeId =
     (case find_index (\<lambda>e. en_id e = i) q of
        None \<Rightarrow> (q, MoveNotFound)
      | Some src \<Rightarrow>
         (let e = q ! src in
          if blocks_passing e then (q, MoveHeld)
          else if beforeId = Some i then (q, MoveUnchanged)
          else case (case beforeId of None \<Rightarrow> Some (length q)
                     | Some b \<Rightarrow> find_index (\<lambda>c. en_id c = b) q) of
              None \<Rightarrow> (q, AnchorNotFound)
            | Some anchor \<Rightarrow>
               (let passed = (if src < anchor then slice (src + 1) anchor q else slice anchor src q);
                    dest = (if src < anchor then anchor - 1 else anchor)
                in if list_ex blocks_passing passed then (q, MoveHeld)
                   else if dest = src then (q, MoveUnchanged)
                   else (insert_at dest e (remove_at src q), Moved))))"

definition moveEntry_edit ::
  "turn_queue \<Rightarrow> string \<Rightarrow> string \<Rightarrow> string option \<Rightarrow> turn_queue \<times> move_disposition" where
  "moveEntry_edit s key i beforeId =
     (let (q, d) = move_within (queue_of s key) i beforeId
      in (if d = Moved then put_queue s key q else s, d))"

definition moveEntry :: "turn_queue \<Rightarrow> string \<Rightarrow> string option \<Rightarrow> turn_queue \<times> move_disposition" where
  "moveEntry s i beforeId =
     (case findQueuedEntry s i of
        None \<Rightarrow> (s, MoveNotFound)
      | Some (e, key, _) \<Rightarrow>
          withDispatchSuspended s (keyFor e) (\<lambda>s1. moveEntry_edit s1 key i beforeId))"

subsection \<open>Pausing and resuming\<close>

datatype pause_disposition = PauseUpdated | PauseUnchanged | PauseNotFound | PauseHeld

definition pause_entry :: "turn_queue \<Rightarrow> string \<Rightarrow> entry \<Rightarrow> bool \<Rightarrow> entry" where
  "pause_entry s key e paused =
     (let revision = Some (or_else (en_pauseRevision e) 0 + 1)
      in if paused then e\<lparr>en_paused := True, en_pauseRevision := revision\<rparr>
         else if en_projectHold e \<noteq> None then
           heldByQueue s key (e\<lparr>en_paused := False, en_projectHold := None, en_holdReason := None,
                               en_pauseRevision := revision\<rparr>)
         else e\<lparr>en_paused := False, en_pauseRevision := revision\<rparr>)"

definition setEntryPaused_edit ::
  "turn_queue \<Rightarrow> string \<Rightarrow> string \<Rightarrow> bool \<Rightarrow> turn_queue \<times> pause_disposition \<times> entry option" where
  "setEntryPaused_edit s key i paused =
     (let q = queue_of s key in
      case find_index (\<lambda>e. en_id e = i) q of
        None \<Rightarrow> (s, PauseNotFound, None)
      | Some n \<Rightarrow>
         (let e = q ! n in
          if en_paused e = paused then (s, PauseUnchanged, Some e)
          else if paused \<and> en_held e then (s, PauseHeld, Some e)
          else let u = pause_entry s key e paused
               in (put_queue s key (q[n := u]), PauseUpdated, Some u)))"

definition setEntryPaused ::
  "turn_queue \<Rightarrow> string \<Rightarrow> bool \<Rightarrow> turn_queue \<times> pause_disposition \<times> entry option" where
  "setEntryPaused s i paused =
     (case findQueuedEntry s i of
        None \<Rightarrow> (s, PauseNotFound, None)
      | Some (e, key, _) \<Rightarrow>
          withDispatchSuspended s (keyFor e) (\<lambda>s1. setEntryPaused_edit s1 key i paused))"

subsection \<open>New input and title for a queued entry\<close>

definition update_queued :: "turn_queue \<Rightarrow> string \<Rightarrow> (entry \<Rightarrow> entry) \<Rightarrow> turn_queue \<times> entry option" where
  "update_queued s i f =
     (case find_in_queues (queuedEntries s) i of
        None \<Rightarrow> (s, None)
      | Some (key, n) \<Rightarrow>
         (let q = queue_of s key; u = f (q ! n) in (put_queue s key (q[n := u]), Some u)))"

definition with_source_turn ::
  "(string option \<times> string option) option \<Rightarrow> message_origin option \<Rightarrow> message_origin option" where
  "with_source_turn sourceTurn origin = (case (sourceTurn, origin) of
     (Some (turnId, rootTurnId), Some og) \<Rightarrow>
       (case mo_sourceThread og of
          None \<Rightarrow> origin
        | Some st \<Rightarrow> Some (og\<lparr>mo_sourceThread :=
            Some (st\<lparr>st_turnId := turnId, st_rootTurnId := rootTurnId\<rparr>)\<rparr>))
   | _ \<Rightarrow> origin)"

definition updateQueuedEntryInput ::
  "turn_queue \<Rightarrow> string \<Rightarrow> input_item list \<Rightarrow> (string option \<times> string option) option \<Rightarrow>
   turn_queue \<times> entry option" where
  "updateQueuedEntryInput s i input sourceTurn =
     update_queued s i (\<lambda>e. e\<lparr>en_title := None, en_input := input, en_agentMessages := None,
       en_messageOrigin := with_source_turn sourceTurn (en_messageOrigin e)\<rparr>)"

definition setQueuedEntryTitle :: "turn_queue \<Rightarrow> string \<Rightarrow> string \<Rightarrow> turn_queue \<times> entry option" where
  "setQueuedEntryTitle s i title = update_queued s i (\<lambda>e. e\<lparr>en_title := Some title\<rparr>)"

definition from_sender :: "source_thread \<Rightarrow> queued_agent_message \<Rightarrow> bool" where
  "from_sender sender m = (case Option.bind (am_origin m) mo_sourceThread of
     None \<Rightarrow> False
   | Some src \<Rightarrow> st_backend src = st_backend sender \<and> st_threadId src = st_threadId sender
       \<and> st_instanceId src = st_instanceId sender)"

text \<open>The sender's first message takes the new input; its other messages are dropped.\<close>

definition replace_first_message ::
  "source_thread \<Rightarrow> input_item list \<Rightarrow> message_origin option \<Rightarrow> queued_agent_message list \<Rightarrow>
   queued_agent_message list option" where
  "replace_first_message sender input origin ms =
     (case find_index (from_sender sender) ms of
        None \<Rightarrow> None
      | Some n \<Rightarrow> Some (take n ms
          @ (ms ! n)\<lparr>am_input := input,
                am_origin := (case origin of None \<Rightarrow> am_origin (ms ! n) | Some og \<Rightarrow> Some og)\<rparr>
          # filter (\<lambda>m. \<not> from_sender sender m) (drop (Suc n) ms)))"

definition replaceQueuedAgentInput ::
  "turn_queue \<Rightarrow> string \<Rightarrow> input_item list \<Rightarrow> source_thread \<Rightarrow> message_origin option \<Rightarrow>
   turn_queue \<times> entry option" where
  "replaceQueuedAgentInput s i input sender origin =
     (case findQueuedEntry s i of
        None \<Rightarrow> (s, None)
      | Some (e, key, position) \<Rightarrow>
         (case Option.bind (en_agentMessages e) (replace_first_message sender input origin) of
            None \<Rightarrow> (s, None)
          | Some ms \<Rightarrow>
             (let base = (batch_origin (en_messageOrigin e) False)
                    \<lparr>mo_kind := ''agent'', mo_causalSource := None, mo_ambiguous := False\<rparr>;
                  u = e\<lparr>en_title := None, en_agentMessages := Some ms, en_input := groupedAgentInput ms,
                        en_messageOrigin := Some (apply_causal
                          (mergeCausalMessagingContext (map am_origin ms)) base)\<rparr>;
                  s1 = queueFor s key
              in (put_queue s1 key ((queue_of s1 key)[position - 1 := u]), Some u))))"

subsection \<open>Releasing holds\<close>

text \<open>
  Releasing the hold reasons that pass \<open>rel\<close>. The code reads the hold, walks the FIFO with a publication
  awaited after each changed entry, and writes the hold last: one step here.
\<close>

definition releaseHold ::
  "turn_queue \<Rightarrow> string \<Rightarrow> string \<Rightarrow> (string \<Rightarrow> bool) \<Rightarrow> turn_queue \<times> bool" where
  "releaseHold s backend threadId rel =
     (let key = buildThreadIdentityKey backend threadId in
      case map_get (heldQueues s) key of
        None \<Rightarrow> (s, False)
      | Some h \<Rightarrow>
         (if \<not> list_ex rel (ho_reasons h) then (s, False)
          else
            (let (q, evs, kept) = release_entries 0 rel None (queue_of s key);
                 s1 = (if queue_of s key = [] then s else put_queue s key q);
                 s2 = s1\<lparr>eventLog := eventLog s1 @ evs\<rparr>;
                 reasons = filter (\<lambda>r. r \<in> set kept) (ho_reasons h);
                 s3 = (if reasons \<noteq> []
                       then s2\<lparr>heldQueues := map_set (heldQueues s2) key (h\<lparr>ho_reasons := reasons\<rparr>)\<rparr>
                       else s2\<lparr>heldQueues := map_del (heldQueues s2) key\<rparr>)
             in (scheduleDrain s3 key, True))))"

text \<open>Retry. \<open>Inl\<close>: refused at once; \<open>Inr\<close>: the hold is cleared and the head is being started.\<close>

datatype retry_result =
    RetryStarted string string
  | RetryBlocked string string
  | RetryBusy string
  | RetryNotFound string
  | RetryNotHead string
  | RetryNotHeld string

definition releaseEntry_begin ::
  "queue_env \<Rightarrow> turn_queue \<Rightarrow> string \<Rightarrow> turn_queue \<times> (retry_result + string \<times> next_step)" where
  "releaseEntry_begin env s0 i =
     (case findQueuedEntry s0 i of
        None \<Rightarrow> (s0, Inl (RetryNotFound i))
      | Some (e, key, _) \<Rightarrow>
         (let s = queueFor s0 key; q = queue_of s key
          in if map_option (\<lambda>n. en_id (q ! n)) (nextWaitingIndex q) \<noteq> Some i
             then (s, Inl (RetryNotHead i))
             else if \<not> map_has (heldQueues s) key \<or> \<not> en_held e then (s, Inl (RetryNotHeld i))
             else if map_has (admissions s) key \<or> map_has (dispatchSuspensions s) key
                     \<or> map_has (runningEntries s) key \<or> entry_active env e
             then (s, Inl (RetryBusy i))
             else
               (let (s1, _) = withDispatchSuspended s (keyFor e) (\<lambda>t. (clearQueueHold t key, ()));
                    (s2, step) = startNext_begin env s1 key
                in (s2, Inr (key, step)))))"

datatype start_next_result = StartNone | StartDone | StartBlocked

definition releaseEntry_finish :: "turn_queue \<Rightarrow> string \<Rightarrow> string \<Rightarrow> start_next_result \<Rightarrow> retry_result" where
  "releaseEntry_finish s key i result =
     (if result = StartDone then
        (case truthy (Option.bind (map_get (recentlyAdmitted s) i) id) of
           Some turnId \<Rightarrow> RetryStarted i turnId
         | None \<Rightarrow> RetryBusy i)
      else if result = StartBlocked then
        RetryBlocked i (or_else (truthy (holdReasonFor s key)) ''The queued turn could not be started.'')
      else RetryBusy i)"

subsection \<open>Release of a thread when its turn ends\<close>

definition scheduleThreadDrain :: "turn_queue \<Rightarrow> string \<Rightarrow> string \<Rightarrow> turn_queue" where
  "scheduleThreadDrain s backend threadId = scheduleDrain s (buildThreadIdentityKey backend threadId)"

datatype release_step = ReleaseIgnored | ReleaseBuffered | ReleaseCoalesced | Releasing next_step

definition admission_starts_turn :: "queue_admission \<Rightarrow> bool" where
  "admission_starts_turn adm = (case adm of AdmIdle \<Rightarrow> False
     | AdmStarting _ k _ \<Rightarrow> k = StartKind | AdmAcknowledged _ k _ _ _ \<Rightarrow> k = StartKind)"

definition releaseThread_begin ::
  "queue_env \<Rightarrow> turn_queue \<Rightarrow> string \<Rightarrow> string \<Rightarrow> string option \<Rightarrow> string option \<Rightarrow> string option \<Rightarrow>
   turn_queue \<times> release_step" where
  "releaseThread_begin env s backend threadId turnId status errorMessage =
     (let key = buildThreadIdentityKey backend threadId in
      if (case turnId of None \<Rightarrow> False | Some t \<Rightarrow> (key, t) \<in> set (recentTerminals s))
      then (s, ReleaseIgnored)
      else if turnId \<noteq> None \<and> admission_starts_turn (admission_of s key) then
        (applyAdmission s key (AdmTerminal
            \<lparr>qt_turnId = the turnId, qt_status = status, qt_errorMessage = errorMessage\<rparr>), ReleaseBuffered)
      else if turnId \<noteq> None
              \<and> (case map_get (runningEntries s) key of None \<Rightarrow> False
                 | Some r \<Rightarrow> re_turnId r \<noteq> None \<and> re_turnId r \<noteq> turnId)
      then (s, ReleaseIgnored)
      else if key \<in> releasingKeys s then
        (if turnId = None then s\<lparr>pendingReleaseKeys := insert key (pendingReleaseKeys s)\<rparr> else s,
         ReleaseCoalesced)
      else
        (let s1 = settleRelease (s\<lparr>releasingKeys := insert key (releasingKeys s)\<rparr>) key turnId status errorMessage;
             (s2, step) = startNext_begin env s1 key
         in (s2, Releasing step)))"

definition releaseThread_finish ::
  "queue_env \<Rightarrow> turn_queue \<Rightarrow> string \<Rightarrow> string \<Rightarrow> start_next_result \<Rightarrow> turn_queue \<times> release_step" where
  "releaseThread_finish env s backend threadId result =
     (let key = buildThreadIdentityKey backend threadId;
          pending = (key \<in> pendingReleaseKeys s);
          s1 = s\<lparr>releasingKeys := releasingKeys s - {key}, pendingReleaseKeys := pendingReleaseKeys s - {key}\<rparr>
      in if pending \<and> result = StartBlocked then releaseThread_begin env s1 backend threadId None None None
         else (s1, ReleaseIgnored))"

end
