(* ===== verification/TurnQueueRuns.thy ===== *)
theory TurnQueueRuns
  imports TurnQueueEdits
begin

text \<open>
  Runs of \<open>ThreadTurnQueue\<close>: the queue together with the backend calls it is waiting for. A flight
  is one call of \<open>startTurn\<close> or \<open>steerTurn\<close> with the locals of the method that awaits it, and
  what that method does afterwards (\<open>fl_then\<close>). One action is one piece of the code that runs
  without interruption: a call into the queue, a drain timer, or an answer of the backend.
\<close>

datatype flight_phase = FlStarting | FlSteering | FlAnnounced bool

datatype follow_up = ThenNothing | ThenUnsuspend | ThenRelease string string

record flight =
  fl_entry :: entry
  fl_key :: string
  fl_queued :: bool
  fl_previous :: "string option"
  fl_holdRevision :: "nat option"
  fl_attempt :: nat
  fl_phase :: flight_phase
  fl_then :: follow_up

record world =
  w_queue :: turn_queue
  w_flights :: "flight list"
  w_accepted :: "entry list"

definition world_new :: world where
  "world_new = \<lparr>w_queue = turn_queue_new, w_flights = [], w_accepted = []\<rparr>"

definition direct_flight :: "entry \<Rightarrow> nat \<Rightarrow> follow_up \<Rightarrow> flight" where
  "direct_flight e a th = \<lparr>fl_entry = e, fl_key = keyFor e, fl_queued = False, fl_previous = None,
     fl_holdRevision = None, fl_attempt = a, fl_phase = FlStarting, fl_then = th\<rparr>"

definition queued_flight ::
  "string \<Rightarrow> flight_phase \<Rightarrow> entry \<Rightarrow> string option \<Rightarrow> nat option \<Rightarrow> nat \<Rightarrow> follow_up \<Rightarrow> flight" where
  "queued_flight key phase e p h a th = \<lparr>fl_entry = e, fl_key = key, fl_queued = True, fl_previous = p,
     fl_holdRevision = h, fl_attempt = a, fl_phase = phase, fl_then = th\<rparr>"

definition with_queue :: "world \<Rightarrow> turn_queue \<Rightarrow> world" where
  "with_queue w s = w\<lparr>w_queue := s\<rparr>"

definition add_flight :: "world \<Rightarrow> flight \<Rightarrow> world" where
  "add_flight w f = w\<lparr>w_flights := w_flights w @ [f]\<rparr>"

definition accept :: "world \<Rightarrow> entry list \<Rightarrow> world" where
  "accept w es = w\<lparr>w_accepted := w_accepted w @ es\<rparr>"

text \<open>A submission that starts becomes a flight; one that is refused as busy is not accepted.\<close>

definition submitted :: "world \<Rightarrow> follow_up \<Rightarrow> turn_queue \<times> submission \<Rightarrow> world" where
  "submitted w th r = (case r of
     (s, SubStarting e a) \<Rightarrow> add_flight (accept (with_queue w s) [e]) (direct_flight e a th)
   | (s, SubQueued e _) \<Rightarrow> accept (with_queue w s) [e]
   | (s, SubBusy) \<Rightarrow> with_queue w s)"

text \<open>A grouped steer that joins a waiting batch is accepted as part of the batch's entry.\<close>

definition submitted_grouped :: "world \<Rightarrow> turn_queue \<times> submission \<Rightarrow> world" where
  "submitted_grouped w r = (case r of
     (s, SubQueued e n) \<Rightarrow> (if length (queue_of s (keyFor e)) = length (queue_of (w_queue w) (keyFor e))
                            then with_queue w s else submitted w ThenNothing r)
   | _ \<Rightarrow> submitted w ThenUnsuspend r)"

text \<open>
  What follows an awaited \<open>startNext\<close>. A release that coalesced another one while a queued start
  was rejected replays it, which may start the next entry.
\<close>

definition launch_none :: "queue_env \<Rightarrow> world \<Rightarrow> follow_up \<Rightarrow> world" where
  "launch_none env w th = (case th of
     ThenRelease b t \<Rightarrow> with_queue w (fst (releaseThread_finish env (w_queue w) b t StartNone))
   | _ \<Rightarrow> w)"

definition launch :: "queue_env \<Rightarrow> world \<Rightarrow> string \<Rightarrow> follow_up \<Rightarrow> turn_queue \<times> next_step \<Rightarrow> world" where
  "launch env w key th r = (case r of
     (s, NextNone) \<Rightarrow> launch_none env (with_queue w s) th
   | (s, NextSteer e p h a) \<Rightarrow> add_flight (with_queue w s) (queued_flight key FlSteering e p h a th)
   | (s, NextStart e p h a) \<Rightarrow> add_flight (with_queue w s) (queued_flight key FlStarting e p h a th))"

definition launch_release :: "queue_env \<Rightarrow> world \<Rightarrow> string \<Rightarrow> string \<Rightarrow> turn_queue \<times> release_step \<Rightarrow> world" where
  "launch_release env w b t r = (case r of
     (s, Releasing step) \<Rightarrow> launch env w (buildThreadIdentityKey b t) (ThenRelease b t) (s, step)
   | (s, _) \<Rightarrow> with_queue w s)"

definition follow :: "queue_env \<Rightarrow> world \<Rightarrow> flight \<Rightarrow> start_next_result \<Rightarrow> world" where
  "follow env w f result = (case fl_then f of
     ThenNothing \<Rightarrow> w
   | ThenUnsuspend \<Rightarrow> with_queue w (unsuspend (w_queue w) (fl_key f))
   | ThenRelease b t \<Rightarrow> launch_release env w b t (releaseThread_finish env (w_queue w) b t result))"

definition drop_flight :: "world \<Rightarrow> nat \<Rightarrow> world" where
  "drop_flight w n = w\<lparr>w_flights := remove_at n (w_flights w)\<rparr>"

subsection \<open>Answers of the backend\<close>

datatype backend_answer =
    AnsTurn string
  | AnsRetry
  | AnsUndelivered
  | AnsError string
  | AnsPublished

text \<open>
  \<open>AnsPublished\<close> is the return of the started callback, \<open>AnsRetry\<close> and \<open>AnsUndelivered\<close> are
  answers of \<open>steerTurn\<close> only; an answer that does not fit the flight's phase does not occur.
\<close>

definition answer_start :: "queue_env \<Rightarrow> world \<Rightarrow> nat \<Rightarrow> flight \<Rightarrow> string \<Rightarrow> world" where
  "answer_start env w n f turnId =
     (case startEntry_acknowledged (w_queue w) (fl_entry f) (fl_attempt f) turnId of
        (s, Some early) \<Rightarrow> w\<lparr>w_queue := s, w_flights := (w_flights w)[n := f\<lparr>fl_phase := FlAnnounced early\<rparr>]\<rparr>
      | (s, None) \<Rightarrow> follow env (drop_flight (with_queue w s) n) f StartDone)"

definition answer_reject :: "queue_env \<Rightarrow> world \<Rightarrow> nat \<Rightarrow> flight \<Rightarrow> string \<Rightarrow> world" where
  "answer_reject env w n f err =
     (if fl_queued f then
        follow env (drop_flight (with_queue w
          (startNext_rejected (w_queue w) (fl_key f) (fl_entry f) (fl_previous f) (fl_attempt f) err)) n)
          f StartBlocked
      else follow env (drop_flight (with_queue w
          (startEntry_rejected (w_queue w) (fl_entry f) (fl_attempt f) err False)) n) f StartNone)"

definition answer_steer :: "queue_env \<Rightarrow> world \<Rightarrow> nat \<Rightarrow> flight \<Rightarrow> steer_answer \<Rightarrow> world" where
  "answer_steer env w n f a =
     follow env (drop_flight (with_queue w
       (startNext_steered env (w_queue w) (fl_key f) (fl_entry f) (fl_previous f) (fl_holdRevision f)
          (fl_attempt f) a)) n) f
       (case a of SteerTurn _ \<Rightarrow> StartDone | _ \<Rightarrow> StartNone)"

definition answer :: "queue_env \<Rightarrow> world \<Rightarrow> nat \<Rightarrow> backend_answer \<Rightarrow> world" where
  "answer env w n ans =
     (if length (w_flights w) \<le> n then w
      else let f = w_flights w ! n in
        case (fl_phase f, ans) of
          (FlStarting, AnsTurn t) \<Rightarrow> answer_start env w n f t
        | (FlStarting, AnsError err) \<Rightarrow> answer_reject env w n f err
        | (FlSteering, AnsTurn t) \<Rightarrow> answer_steer env w n f (SteerTurn t)
        | (FlSteering, AnsRetry) \<Rightarrow> answer_steer env w n f SteerRetry
        | (FlSteering, AnsUndelivered) \<Rightarrow> answer_steer env w n f SteerUndelivered
        | (FlSteering, AnsError err) \<Rightarrow>
            follow env (drop_flight (with_queue w
              (startNext_steer_rejected env (w_queue w) (fl_key f) (fl_entry f) (fl_previous f)
                 (fl_attempt f) err)) n) f StartBlocked
        | (FlAnnounced early, AnsPublished) \<Rightarrow>
            follow env (drop_flight (with_queue w
              (startEntry_started (w_queue w) (fl_entry f) (fl_attempt f) early)) n) f StartDone
        | _ \<Rightarrow> w)"

subsection \<open>Actions\<close>

datatype queue_action =
    ASubmit entry | ASubmitIfIdle entry | AGroupedSteer entry bool | ASteer entry
  | AHeld entry string | AProjectHeld entry string project_hold
  | ARestoreProjectHeld "entry list" | ARestoreContinuations "entry list" | ARestoreQueued "entry list"
  | AGetQueued string string | ADrainAll | AClose | AThreadDrain string string | ADrain string
  | ACancel string "string option" | AMove string "string option" | APause string bool
  | AUpdateInput string "input_item list" "(string option \<times> string option) option"
  | AReplaceAgentInput string "input_item list" source_thread "message_origin option"
  | ATitle string string
  | AReleaseHold string string "string \<Rightarrow> bool" | ARetry string
  | ARelease string string "string option" "string option" "string option"
  | AAnswer nat backend_answer

definition submitted_held :: "world \<Rightarrow> entry \<Rightarrow> string + turn_queue \<times> entry \<times> nat \<Rightarrow> world" where
  "submitted_held w e r = (case r of
     Inl _ \<Rightarrow> w
   | Inr (s, _, _) \<Rightarrow> (if findQueuedEntry (w_queue w) (en_id e) = None then accept (with_queue w s) [e]
                       else with_queue w s))"

definition restored :: "world \<Rightarrow> turn_queue \<times> entry list \<Rightarrow> world" where
  "restored w r = accept (with_queue w (fst r)) (snd r)"

definition retried :: "queue_env \<Rightarrow> world \<Rightarrow> turn_queue \<times> (retry_result + string \<times> next_step) \<Rightarrow> world" where
  "retried env w r = (case r of
     (s, Inl _) \<Rightarrow> with_queue w s
   | (s, Inr (key, step)) \<Rightarrow> launch env w key ThenNothing (s, step))"

fun queue_do :: "queue_env \<Rightarrow> world \<Rightarrow> queue_action \<Rightarrow> world" where
  "queue_do env w (ASubmit e) = submitted w ThenNothing (submit env (w_queue w) e)"
| "queue_do env w (ASubmitIfIdle e) = submitted w ThenNothing (submitIfIdle env (w_queue w) e)"
| "queue_do env w (AGroupedSteer e d) = submitted_grouped w (submitGroupedSteer env (w_queue w) e d)"
| "queue_do env w (ASteer e) = submitted w ThenUnsuspend (submitSteer env (w_queue w) e)"
| "queue_do env w (AHeld e reason) = submitted_held w e (submitHeld (w_queue w) e reason)"
| "queue_do env w (AProjectHeld e reason ph) =
     submitted_held w e (Inr (submitProjectHeld (w_queue w) e reason ph))"
| "queue_do env w (ARestoreProjectHeld es) = restored w (restoreProjectHeld (w_queue w) es)"
| "queue_do env w (ARestoreContinuations es) = restored w (restoreRestartContinuations (w_queue w) es)"
| "queue_do env w (ARestoreQueued es) = restored w (restoreQueued (w_queue w) es)"
| "queue_do env w (AGetQueued b t) = with_queue w (fst (getQueuedEntries (w_queue w) b t))"
| "queue_do env w ADrainAll = with_queue w (drainAll (w_queue w))"
| "queue_do env w AClose = with_queue w (close_queue (w_queue w))"
| "queue_do env w (AThreadDrain b t) = with_queue w (scheduleThreadDrain (w_queue w) b t)"
| "queue_do env w (ADrain key) =
     (if key \<in> drainTimers (w_queue w) then launch env w key ThenNothing (fire_drain env (w_queue w) key) else w)"
| "queue_do env w (ACancel i reason) = with_queue w (fst (cancelEntryWithDisposition (w_queue w) i reason))"
| "queue_do env w (AMove i beforeId) = with_queue w (fst (moveEntry (w_queue w) i beforeId))"
| "queue_do env w (APause i p) = with_queue w (fst (setEntryPaused (w_queue w) i p))"
| "queue_do env w (AUpdateInput i inp st) = with_queue w (fst (updateQueuedEntryInput (w_queue w) i inp st))"
| "queue_do env w (AReplaceAgentInput i inp snd_thread og) =
     with_queue w (fst (replaceQueuedAgentInput (w_queue w) i inp snd_thread og))"
| "queue_do env w (ATitle i title) = with_queue w (fst (setQueuedEntryTitle (w_queue w) i title))"
| "queue_do env w (AReleaseHold b t rel) = with_queue w (fst (releaseHold (w_queue w) b t rel))"
| "queue_do env w (ARetry i) = retried env w (releaseEntry_begin env (w_queue w) i)"
| "queue_do env w (ARelease b t turnId status err) =
     launch_release env w b t (releaseThread_begin env (w_queue w) b t turnId status err)"
| "queue_do env w (AAnswer n ans) = answer env w n ans"

text \<open>
  Callers submit entries that are not held (a hold is the queue's own mark; the restart snapshot
  saves a held message as a paused one).
\<close>

fun fresh_input :: "queue_action \<Rightarrow> bool" where
  "fresh_input (ASubmit e) = (\<not> en_held e)"
| "fresh_input (ASubmitIfIdle e) = (\<not> en_held e)"
| "fresh_input (AGroupedSteer e d) = (\<not> en_held e)"
| "fresh_input (ASteer e) = (\<not> en_held e)"
| "fresh_input (AProjectHeld e reason ph) = (\<not> en_held e)"
| "fresh_input (ARestoreProjectHeld es) = list_all (\<lambda>e. \<not> en_held e) es"
| "fresh_input (ARestoreContinuations es) = list_all (\<lambda>e. \<not> en_held e) es"
| "fresh_input (ARestoreQueued es) = list_all (\<lambda>e. \<not> en_held e) es"
| "fresh_input _ = True"

text \<open>The environment may answer differently at every step.\<close>

inductive queue_reachable :: "world \<Rightarrow> bool" where
  reach_new: "queue_reachable world_new"
| reach_step: "queue_reachable w \<Longrightarrow> fresh_input a \<Longrightarrow> queue_reachable (queue_do env w a)"

end
