(* ===== verification/TurnQueueViews.thy ===== *)
theory TurnQueueViews
  imports TurnQueueRuns "HOL-Library.Multiset"
begin

text \<open>
  How each operation of \<open>ThreadTurnQueue\<close> changes what a thread observes: its FIFO, its hold, its
  admission, and the tags (id and continuation mark) of its entries that have
  left the queue for good. The views are stated as
  equations of the primitive steps (collection \<open>tq_view\<close>); the lemmas of the operations follow
  from them.
\<close>

named_theorems tq_view \<open>views of the queue state after a primitive step\<close>

subsection \<open>The views\<close>

fun resolved_entry :: "lifecycle_event \<Rightarrow> entry option" where
  "resolved_entry (EvStarted e t) = Some e"
| "resolved_entry (EvFailed e err) = Some e"
| "resolved_entry (EvCancelled e r) = Some e"
| "resolved_entry _ = None"

type_synonym entry_tag = "string \<times> bool"

definition en_tag :: "entry \<Rightarrow> entry_tag" where
  [simp]: "en_tag e = (en_id e, en_restartContinuation e)"

definition ids_at :: "string \<Rightarrow> entry list \<Rightarrow> entry_tag multiset" where
  "ids_at key es = mset (map en_tag (filter (\<lambda>e. keyFor e = key) es))"

definition resolved_of :: "lifecycle_event list \<Rightarrow> string \<Rightarrow> entry_tag multiset" where
  "resolved_of evs key = ids_at key (List.map_filter resolved_entry evs)"

definition balance :: "turn_queue \<Rightarrow> string \<Rightarrow> entry_tag multiset" where
  "balance s key = ids_at key (queue_of s key) + resolved_of (eventLog s) key"

definition hold_of :: "turn_queue \<Rightarrow> string \<Rightarrow> hold option" where
  "hold_of s key = map_get (heldQueues s) key"

text \<open>
  A FIFO and its hold agree: the entries belong to the thread, a held entry waits for a reason the
  hold still has, and a hold has an entry to hold.
\<close>

definition fifo_ok :: "string \<Rightarrow> entry list \<Rightarrow> hold option \<Rightarrow> bool" where
  "fifo_ok key q h \<longleftrightarrow>
     (\<forall>e\<in>set q. keyFor e = key \<and> (en_held e \<longrightarrow>
        (\<exists>x. h = Some x \<and> (\<forall>r. en_holdReason e = Some r \<longrightarrow> r \<in> set (ho_reasons x)))))
     \<and> (h \<noteq> None \<longrightarrow> (\<exists>e\<in>set q. en_held e))"

definition tq_ok :: "turn_queue \<Rightarrow> bool" where
  "tq_ok s \<longleftrightarrow> wf_map (queuedEntries s) \<and> (\<forall>key. fifo_ok key (queue_of s key) (hold_of s key))"

lemma ids_at_simps [simp]:
  "ids_at key [] = {#}"
  "ids_at key (e # es) = (if keyFor e = key then {#en_tag e#} else {#}) + ids_at key es"
  "ids_at key (es @ fs) = ids_at key es + ids_at key fs"
  by (auto simp: ids_at_def)

lemma resolved_of_simps [simp]:
  "resolved_of [] key = {#}"
  "resolved_of (ev # evs) key =
     (case resolved_entry ev of None \<Rightarrow> {#} | Some e \<Rightarrow> ids_at key [e]) + resolved_of evs key"
  "resolved_of (evs @ evs') key = resolved_of evs key + resolved_of evs' key"
  by (auto simp: resolved_of_def List.map_filter_def ids_at_def split: option.splits)

lemma ids_at_insert_at [simp]: "ids_at key (insert_at i e q) = ids_at key [e] + ids_at key q"
proof -
  have "ids_at key q = ids_at key (take i q) + ids_at key (drop i q)"
    by (metis append_take_drop_id ids_at_simps(3))
  then show ?thesis by (simp add: insert_at_def)
qed

lemma ids_at_remove_at:
  "i < length q \<Longrightarrow> ids_at key q = ids_at key [q ! i] + ids_at key (remove_at i q)"
  by (metis ids_at_insert_at insert_remove_at)

lemma ids_at_restoreAfter [simp]: "ids_at key (restoreAfter q e p) = ids_at key [e] + ids_at key q"
  by (auto simp: restoreAfter_def split: option.splits)

definition same_tags :: "entry list \<Rightarrow> entry list \<Rightarrow> bool" where
  "same_tags es fs \<longleftrightarrow> map (\<lambda>e. (keyFor e, en_tag e)) es = map (\<lambda>e. (keyFor e, en_tag e)) fs"

lemma same_tags_ids: "same_tags es fs \<Longrightarrow> ids_at key es = ids_at key fs"
proof -
  have "map en_tag (filter (\<lambda>e. keyFor e = key) xs) =
        map snd (filter (\<lambda>t. fst t = key) (map (\<lambda>e. (keyFor e, en_tag e)) xs))" for xs
    by (induction xs) auto
  then show "same_tags es fs \<Longrightarrow> ?thesis" by (simp add: ids_at_def same_tags_def)
qed

lemma same_tags_keys:
  assumes "same_tags es fs" "\<forall>e\<in>set fs. keyFor e = key"
  shows "\<forall>e\<in>set es. keyFor e = key"
proof
  fix e assume "e \<in> set es"
  then have "(keyFor e, en_tag e) \<in> set (map (\<lambda>e. (keyFor e, en_tag e)) es)" by auto
  then have "(keyFor e, en_tag e) \<in> set (map (\<lambda>e. (keyFor e, en_tag e)) fs)"
    using assms(1) unfolding same_tags_def by metis
  then show "keyFor e = key" using assms(2) by auto
qed

lemma same_tags_map_ids: "same_tags es fs \<Longrightarrow> map en_id es = map en_id fs"
  unfolding same_tags_def by (induction es fs rule: list_induct2') auto

lemma same_tags_refl [simp]: "same_tags q q"
  by (simp add: same_tags_def)

lemma same_tags_length: "same_tags es fs \<Longrightarrow> length es = length fs"
  unfolding same_tags_def using map_eq_imp_length_eq by blast

lemma same_tags_update: "keyFor u = keyFor (q ! n) \<Longrightarrow> en_id u = en_id (q ! n) \<Longrightarrow>
  en_restartContinuation u = en_restartContinuation (q ! n) \<Longrightarrow> same_tags (q[n := u]) q"
  by (cases "n < length q")
    (simp_all add: same_tags_def map_update list_update_same_conv list_update_beyond)

subsection \<open>Primitive steps\<close>

lemma queue_of_fields [tq_view]:
  "queue_of (s\<lparr>admissions := a\<rparr>) k = queue_of s k"
  "queue_of (s\<lparr>runningEntries := r\<rparr>) k = queue_of s k"
  "queue_of (s\<lparr>recentlyAdmitted := ra\<rparr>) k = queue_of s k"
  "queue_of (s\<lparr>recentTerminals := rt\<rparr>) k = queue_of s k"
  "queue_of (s\<lparr>releasingKeys := rk\<rparr>) k = queue_of s k"
  "queue_of (s\<lparr>pendingReleaseKeys := pk\<rparr>) k = queue_of s k"
  "queue_of (s\<lparr>heldQueues := hq\<rparr>) k = queue_of s k"
  "queue_of (s\<lparr>holdRevision := hr\<rparr>) k = queue_of s k"
  "queue_of (s\<lparr>dispatchSuspensions := ds\<rparr>) k = queue_of s k"
  "queue_of (s\<lparr>drainTimers := dt\<rparr>) k = queue_of s k"
  "queue_of (s\<lparr>closed := c\<rparr>) k = queue_of s k"
  "queue_of (s\<lparr>nextAttempt := n\<rparr>) k = queue_of s k"
  "queue_of (s\<lparr>eventLog := l\<rparr>) k = queue_of s k"
  by (simp_all add: queue_of_def)

lemma queue_of_put [tq_view]: "queue_of (put_queue s key q) k = (if k = key then q else queue_of s k)"
  by (simp add: queue_of_def put_queue_def)

lemma queue_of_queueFor [tq_view]: "queue_of (queueFor s key) k = queue_of s k"
  by (auto simp: queueFor_def put_queue_def queue_of_def map_has_def)

lemma queue_of_set_or_drop [tq_view]:
  "queue_of (set_or_drop_queue s key q) k = (if k = key then q else queue_of s k)"
  by (simp add: set_or_drop_queue_def queue_of_put) (simp add: queue_of_def)

text \<open>\<open>untouched f\<close>: \<open>f\<close> leaves FIFOs, holds and the event log alone.\<close>

definition untouched :: "turn_queue \<Rightarrow> turn_queue \<Rightarrow> bool" where
  "untouched s s' \<longleftrightarrow> queuedEntries s' = queuedEntries s \<and> heldQueues s' = heldQueues s \<and> eventLog s' = eventLog s"

lemma untouchedD:
  assumes "untouched s s'"
  shows "queue_of s' k = queue_of s k" "hold_of s' k = hold_of s k" "balance s' k = balance s k"
    "tq_ok s' \<longleftrightarrow> tq_ok s"
  using assms by (simp_all add: untouched_def queue_of_def hold_of_def balance_def tq_ok_def)

lemma untouched_refl [simp]: "untouched s s"
  by (simp add: untouched_def)

lemma untouched_trans: "untouched s t \<Longrightarrow> untouched t u \<Longrightarrow> untouched s u"
  by (simp add: untouched_def)

lemma untouched_prims:
  "untouched s (applyAdmission s key ev)"
  "untouched s (scheduleDrain s key)"
  "untouched s (suspend s key)"
  "untouched s (unsuspend s key)"
  "untouched s (rememberTerminal s key t)"
  "untouched s (rememberAdmittedEntry s i tt)"
  "untouched s (forgetAdmittedEntry s i)"
  "untouched s (close_queue s)"
  by (simp_all add: untouched_def applyAdmission_def scheduleDrain_def suspend_def unsuspend_def
      rememberTerminal_def rememberAdmittedEntry_def forgetAdmittedEntry_def close_queue_def Let_def)

lemmas untouched_view [tq_view] = untouched_prims [THEN untouchedD(1)] untouched_prims [THEN untouchedD(2)]
  untouched_prims [THEN untouchedD(3)]

lemma untouched_fields [tq_view]:
  "eventLog (applyAdmission s key ev) = eventLog s"
  "eventLog (scheduleDrain s key) = eventLog s"
  "eventLog (suspend s key) = eventLog s"
  "eventLog (unsuspend s key) = eventLog s"
  "eventLog (rememberTerminal s key t) = eventLog s"
  "eventLog (rememberAdmittedEntry s i tt) = eventLog s"
  "eventLog (forgetAdmittedEntry s i) = eventLog s"
  "queuedEntries (applyAdmission s key ev) = queuedEntries s"
  "queuedEntries (scheduleDrain s key) = queuedEntries s"
  "queuedEntries (suspend s key) = queuedEntries s"
  "queuedEntries (unsuspend s key) = queuedEntries s"
  "queuedEntries (rememberTerminal s key t) = queuedEntries s"
  "queuedEntries (rememberAdmittedEntry s i tt) = queuedEntries s"
  "queuedEntries (forgetAdmittedEntry s i) = queuedEntries s"
  by (simp_all add: untouched_prims [unfolded untouched_def])

lemma hold_of_set_fields [tq_view]:
  "hold_of (s\<lparr>heldQueues := map_set (heldQueues s) key h\<rparr>) k = (if k = key then Some h else hold_of s k)"
  "hold_of (s\<lparr>heldQueues := map_del (heldQueues s) key\<rparr>) k = (if k = key then None else hold_of s k)"
  "hold_of (s\<lparr>eventLog := l\<rparr>) k = hold_of s k"
  by (simp_all add: hold_of_def)

lemma hold_of_fields [tq_view]:
  "hold_of (put_queue s key q) k = hold_of s k"
  "hold_of (queueFor s key) k = hold_of s k"
  "hold_of (set_or_drop_queue s key q) k = hold_of s k"
  "hold_of (emit s ev) k = hold_of s k"
  by (simp_all add: hold_of_def put_queue_def queueFor_def set_or_drop_queue_def emit_def)

lemma log_fields [tq_view]:
  "eventLog (put_queue s key q) = eventLog s"
  "eventLog (queueFor s key) = eventLog s"
  "eventLog (set_or_drop_queue s key q) = eventLog s"
  "eventLog (emit s ev) = eventLog s @ [ev]"
  "eventLog (addHoldReason s key r) = eventLog s"
  "eventLog (dropSpentHold s key) = eventLog s"
  by (simp_all add: put_queue_def queueFor_def set_or_drop_queue_def emit_def addHoldReason_def
      dropSpentHold_def Let_def)

lemma queue_of_hold_ops [tq_view]:
  "queue_of (emit s ev) k = queue_of s k"
  "queue_of (addHoldReason s key r) k = queue_of s k"
  "queue_of (dropSpentHold s key) k = queue_of s k"
  by (simp_all add: queue_of_def emit_def addHoldReason_def dropSpentHold_def Let_def)

lemma wf_queues [tq_view]:
  "wf_map (queuedEntries s) \<Longrightarrow> wf_map (queuedEntries (put_queue s key q))"
  "wf_map (queuedEntries s) \<Longrightarrow> wf_map (queuedEntries (queueFor s key))"
  "wf_map (queuedEntries s) \<Longrightarrow> wf_map (queuedEntries (set_or_drop_queue s key q))"
  "queuedEntries (emit s ev) = queuedEntries s"
  "queuedEntries (addHoldReason s key r) = queuedEntries s"
  "queuedEntries (dropSpentHold s key) = queuedEntries s"
  by (simp_all add: put_queue_def queueFor_def set_or_drop_queue_def emit_def addHoldReason_def
      dropSpentHold_def Let_def)

lemma hold_of_add [tq_view]:
  "hold_of (addHoldReason s key r) k =
     (if k = key then Some \<lparr>ho_reasons = filter (\<lambda>c. c \<noteq> r)
            (case hold_of s key of None \<Rightarrow> [] | Some h \<Rightarrow> ho_reasons h) @ [r], ho_revision = holdRevision s + 1\<rparr>
      else hold_of s k)"
  by (simp add: addHoldReason_def hold_of_def Let_def)

lemma hold_of_drop [tq_view]:
  "hold_of (dropSpentHold s key) k =
     (if k = key \<and> \<not> list_ex en_held (queue_of s key) then None else hold_of s k)"
  by (auto simp: dropSpentHold_def hold_of_def map_has_def)

end
