(* ===== verification/TurnQueueInv.thy ===== *)
theory TurnQueueInv
  imports TurnQueueViews
begin

text \<open>
  Every operation of \<open>ThreadTurnQueue\<close> keeps FIFO and hold in agreement (\<open>tq_ok\<close>) and accounts for
  every entry (\<open>balance\<close>): an entry id is in exactly one place, its thread's FIFO, a flight, or the
  events that settle it.
\<close>

lemma tq_ok_fifo: "tq_ok s \<Longrightarrow> fifo_ok key (queue_of s key) (hold_of s key)"
  by (simp add: tq_ok_def)

lemma tq_ok_wf: "tq_ok s \<Longrightarrow> wf_map (queuedEntries s)"
  by (simp add: tq_ok_def)

text \<open>An operation on one thread: the other threads' views are unchanged.\<close>

definition elsewhere :: "string \<Rightarrow> turn_queue \<Rightarrow> turn_queue \<Rightarrow> bool" where
  "elsewhere key s s' \<longleftrightarrow>
     (wf_map (queuedEntries s) \<longrightarrow> wf_map (queuedEntries s'))
     \<and> (\<forall>k. k \<noteq> key \<longrightarrow> queue_of s' k = queue_of s k \<and> hold_of s' k = hold_of s k)"

lemma tq_ok_elsewhere:
  assumes "tq_ok s" "elsewhere key s s'" "fifo_ok key (queue_of s' key) (hold_of s' key)"
  shows "tq_ok s'"
  using assms unfolding tq_ok_def elsewhere_def by metis

lemma elsewhere_trans: "elsewhere key s t \<Longrightarrow> elsewhere key t u \<Longrightarrow> elsewhere key s u"
  by (simp add: elsewhere_def)

lemma elsewhere_untouched: "untouched s s' \<Longrightarrow> elsewhere key s s'"
  by (simp add: elsewhere_def untouchedD) (simp add: untouched_def)

lemma elsewhere_refl [simp]: "elsewhere key s s"
  by (simp add: elsewhere_def)

lemma elsewhere_prims:
  "elsewhere key s (put_queue s key q)"
  "elsewhere key s (queueFor s key)"
  "elsewhere key s (set_or_drop_queue s key q)"
  "elsewhere key s (emit s ev)"
  "elsewhere key s (addHoldReason s key r)"
  "elsewhere key s (dropSpentHold s key)"
  by (simp_all add: elsewhere_def tq_view)

lemma elsewhere_log [simp]: "elsewhere key s (s'\<lparr>eventLog := l\<rparr>) \<longleftrightarrow> elsewhere key s s'"
  by (simp add: elsewhere_def queue_of_def hold_of_def)

lemma holdReasonFor_hold: "holdReasonFor s key = Some r \<Longrightarrow> \<exists>h. hold_of s key = Some h \<and> r \<in> set (ho_reasons h)"
  by (auto simp: holdReasonFor_def hold_of_def split: option.splits if_splits)

lemma truthy_Some: "truthy v = Some r \<Longrightarrow> v = Some r"
  by (simp add: truthy_def split: if_splits)

lemma with_hold_simps [simp]:
  "en_id (with_hold r e) = en_id e" "keyFor (with_hold r e) = keyFor e"
  "en_restartContinuation (with_hold r e) = en_restartContinuation e"
  by (simp_all add: with_hold_def keyFor_def split: option.splits)

lemma heldByQueue_simps [simp]:
  "en_id (heldByQueue s k e) = en_id e" "keyFor (heldByQueue s k e) = keyFor e"
  "en_restartContinuation (heldByQueue s k e) = en_restartContinuation e"
  by (simp_all add: heldByQueue_def keyFor_def split: option.splits)

subsection \<open>Holding and releasing a whole FIFO\<close>

lemma hold_entries_spec:
  "hold_entries i keep reason q = (q', evs) \<Longrightarrow>
     same_tags q' q \<and> resolved_of evs key = {#}
     \<and> (\<forall>e\<in>set q'. en_held e \<and> (keep \<and> e \<in> set q \<or> en_holdReason e = Some reason))"
proof (induction q arbitrary: i q' evs)
  case Nil
  then show ?case by (simp add: same_tags_def)
next
  case (Cons e q)
  obtain q1 evs1 where r: "hold_entries (i + 1) keep reason q = (q1, evs1)" by fastforce
  show ?case
    using Cons.prems Cons.IH [OF r] r
    by (auto simp: Let_def same_tags_def keyFor_def split: if_splits)
qed

lemma holdQueue_empty: "queue_of s key = [] \<Longrightarrow> holdQueue s key reason keep = s"
  by (simp add: holdQueue_def)

lemma holdQueue_elsewhere: "elsewhere key s (holdQueue s key reason keep)"
proof -
  obtain q' evs where h: "hold_entries 0 keep reason (queue_of (addHoldReason s key reason) key) = (q', evs)"
    by fastforce
  show ?thesis
    by (simp add: holdQueue_def Let_def h)
      (metis elsewhere_prims(1,5) elsewhere_trans)
qed

lemma holdQueue_spec:
  assumes "queue_of s key \<noteq> []"
  obtains q' where
    "queue_of (holdQueue s key reason keep) key = q'"
    "hold_of (holdQueue s key reason keep) key = hold_of (addHoldReason s key reason) key"
    "same_tags q' (queue_of s key)"
    "\<forall>e\<in>set q'. en_held e \<and> (keep \<and> e \<in> set (queue_of s key) \<or> en_holdReason e = Some reason)"
    "\<And>k. resolved_of (eventLog (holdQueue s key reason keep)) k = resolved_of (eventLog s) k"
proof -
  obtain q' evs where h: "hold_entries 0 keep reason (queue_of s key) = (q', evs)" by fastforce
  have q: "queue_of (holdQueue s key reason keep) key = q'"
    using assms h by (simp add: holdQueue_def Let_def tq_view)
  have hd: "hold_of (holdQueue s key reason keep) key = hold_of (addHoldReason s key reason) key"
    using assms h by (simp add: holdQueue_def Let_def tq_view)
  have l: "resolved_of (eventLog (holdQueue s key reason keep)) k = resolved_of (eventLog s) k" for k
    using assms h hold_entries_spec [OF h, of k] by (simp add: holdQueue_def Let_def tq_view)
  show ?thesis
    using that [OF q hd _ _ l] hold_entries_spec [OF h] by blast
qed

lemma holdQueue_balance [simp]: "balance (holdQueue s key reason keep) k = balance s k"
proof (cases "queue_of s key = []")
  case True
  then show ?thesis by (simp add: holdQueue_empty)
next
  case False
  obtain q' where "queue_of (holdQueue s key reason keep) key = q'" "same_tags q' (queue_of s key)"
    "resolved_of (eventLog (holdQueue s key reason keep)) k = resolved_of (eventLog s) k"
    by (rule holdQueue_spec [OF False, of reason keep]) blast
  then show ?thesis
    using holdQueue_elsewhere [of key s reason keep]
    by (cases "k = key") (auto simp: balance_def elsewhere_def same_tags_ids)
qed

text \<open>
  Holding a FIFO makes it agree with its hold whatever held it before, provided the entries that
  keep their reason had one of the hold.
\<close>

definition reasons_known :: "entry list \<Rightarrow> hold option \<Rightarrow> bool" where
  "reasons_known q h \<longleftrightarrow> (\<forall>e\<in>set q. en_held e \<longrightarrow>
     (\<exists>x. h = Some x \<and> (\<forall>r. en_holdReason e = Some r \<longrightarrow> r \<in> set (ho_reasons x))))"

lemma reasons_known_add:
  "reasons_known q (hold_of s key) \<Longrightarrow> reasons_known q (hold_of (addHoldReason s key r) key)"
  by (auto simp: reasons_known_def tq_view)

lemma fifo_ok_reasons: "fifo_ok key q h \<Longrightarrow> reasons_known q h"
  by (auto simp: fifo_ok_def reasons_known_def)

lemma holdQueue_fifo:
  assumes "queue_of s key \<noteq> []" "\<forall>e\<in>set (queue_of s key). keyFor e = key"
    "keep \<Longrightarrow> reasons_known (queue_of s key) (hold_of s key)"
  shows "fifo_ok key (queue_of (holdQueue s key reason keep) key) (hold_of (holdQueue s key reason keep) key)"
proof -
  obtain q' where q: "queue_of (holdQueue s key reason keep) key = q'"
    "hold_of (holdQueue s key reason keep) key = hold_of (addHoldReason s key reason) key"
    "same_tags q' (queue_of s key)"
    "\<forall>e\<in>set q'. en_held e \<and> (keep \<and> e \<in> set (queue_of s key) \<or> en_holdReason e = Some reason)"
    by (rule holdQueue_spec [OF assms(1), of reason keep]) blast
  have keys: "\<forall>e\<in>set q'. keyFor e = key" by (rule same_tags_keys [OF q(3) assms(2)])
  have ne: "q' \<noteq> []" using q(3) assms(1) by (auto simp: same_tags_def)
  obtain x where x: "hold_of (addHoldReason s key reason) key = Some x" "reason \<in> set (ho_reasons x)"
    by (simp add: tq_view)
  have "r \<in> set (ho_reasons x)" if "e \<in> set q'" "en_holdReason e = Some r" for e r
  proof (cases "en_holdReason e = Some reason")
    case True
    then show ?thesis using that x by simp
  next
    case False
    then have "keep" "e \<in> set (queue_of s key)" "en_held e" using q(4) that(1) by auto
    then show ?thesis
      using reasons_known_add [OF assms(3), of reason] that(2) x(1) by (auto simp: reasons_known_def)
  qed
  then show ?thesis using keys ne q x(1) by (cases q') (auto simp: fifo_ok_def)
qed

lemma holdQueue_ok:
  assumes "tq_ok s" shows "tq_ok (holdQueue s key reason keep)"
proof (cases "queue_of s key = []")
  case True
  then show ?thesis using assms by (simp add: holdQueue_empty)
next
  case False
  have f: "fifo_ok key (queue_of s key) (hold_of s key)" using assms by (rule tq_ok_fifo)
  then have "\<forall>e\<in>set (queue_of s key). keyFor e = key" by (simp add: fifo_ok_def)
  then show ?thesis
    using tq_ok_elsewhere [OF assms holdQueue_elsewhere] holdQueue_fifo [OF False _ fifo_ok_reasons [OF f]]
    by blast
qed

lemma holdAfterTurnFailure_cases:
  "holdAfterTurnFailure s key err = queueFor s key
   \<or> holdAfterTurnFailure s key err = holdQueue (queueFor s key) key (or_else err PREVIOUS_TURN_FAILED) False
   \<or> holdAfterTurnFailure s key err = holdQueue s key (or_else err PREVIOUS_TURN_FAILED) False"
  by (simp add: holdAfterTurnFailure_def Let_def)

lemma queueFor_ok: "tq_ok s \<Longrightarrow> tq_ok (queueFor s key)"
  by (simp add: tq_ok_def tq_view)

lemma queueFor_balance [simp]: "balance (queueFor s key) k = balance s k"
  by (simp add: balance_def tq_view)

lemma holdAfterTurnFailure_ok: "tq_ok s \<Longrightarrow> tq_ok (holdAfterTurnFailure s key err)"
  using holdAfterTurnFailure_cases [of s key err] holdQueue_ok queueFor_ok by metis

lemma holdAfterTurnFailure_balance [simp]: "balance (holdAfterTurnFailure s key err) k = balance s k"
  using holdAfterTurnFailure_cases [of s key err] by (metis holdQueue_balance queueFor_balance)

subsection \<open>Releases of holds\<close>

lemma release_entries_spec:
  "release_entries i rel ahead q = (q', evs, kept) \<Longrightarrow>
     same_tags q' q \<and> resolved_of evs key = {#}
     \<and> (\<forall>e\<in>set q'. en_held e \<longrightarrow> (\<exists>r. en_holdReason e = Some r \<and> (r \<in> set kept \<or> ahead = Some r)))
     \<and> (\<forall>r\<in>set kept. \<exists>e\<in>set q'. e \<in> set q \<and> en_held e \<and> en_holdReason e = Some r)"
proof (induction q arbitrary: i ahead q' evs kept)
  case Nil
  then show ?case by (simp add: same_tags_def)
next
  case (Cons e q)
  show ?case
  proof (cases "en_held e \<and> keeps_hold rel e")
    case True
    then obtain r where r: "en_holdReason e = Some r" by (auto simp: keeps_hold_def split: option.splits)
    obtain q1 evs1 kept1 where h: "release_entries (i + 1) rel (Some r) q = (q1, evs1, kept1)"
      by (metis prod_cases3)
    show ?thesis
      using Cons.prems True r h Cons.IH [OF h] by (fastforce simp: same_tags_def)
  next
    case False
    obtain q1 evs1 kept1 where h: "release_entries (i + 1) rel ahead q = (q1, evs1, kept1)"
      by (metis prod_cases3)
    show ?thesis
      using Cons.prems False h Cons.IH [OF h]
      by (fastforce simp: same_tags_def keyFor_def truthy_def Let_def split: if_splits option.splits)
  qed
qed

text \<open>The state after \<open>releaseHold\<close> has walked the FIFO, before the final drain.\<close>

lemma releaseHold_form:
  assumes "hold_of s key = Some h" "list_ex rel (ho_reasons h)" "key = buildThreadIdentityKey b t"
    and r: "release_entries 0 rel None (queue_of s key) = (q, evs, kept)"
  obtains s' where "fst (releaseHold s b t rel) = scheduleDrain s' key"
    "queue_of s' key = q" "eventLog s' = eventLog s @ evs" "elsewhere key s s'"
    "hold_of s' key = (let rs = filter (\<lambda>r. r \<in> set kept) (ho_reasons h) in
       if rs \<noteq> [] then Some (h\<lparr>ho_reasons := rs\<rparr>) else None)"
proof -
  define s1 where "s1 = (if queue_of s key = [] then s else put_queue s key q)"
  define s2 where "s2 = s1\<lparr>eventLog := eventLog s1 @ evs\<rparr>"
  define rs where "rs = filter (\<lambda>r. r \<in> set kept) (ho_reasons h)"
  define s3 where "s3 = (if rs \<noteq> []
    then s2\<lparr>heldQueues := map_set (heldQueues s2) key (h\<lparr>ho_reasons := rs\<rparr>)\<rparr>
    else s2\<lparr>heldQueues := map_del (heldQueues s2) key\<rparr>)"
  have e: "queue_of s key = [] \<Longrightarrow> q = []" using r by auto
  have "fst (releaseHold s b t rel) = scheduleDrain s3 key"
    using assms by (simp add: releaseHold_def hold_of_def s1_def s2_def s3_def rs_def Let_def)
  moreover have "queue_of s3 key = q" using e by (simp add: s3_def s2_def s1_def tq_view)
  moreover have "eventLog s3 = eventLog s @ evs" by (simp add: s3_def s2_def s1_def tq_view)
  moreover have "elsewhere key s s3"
    by (simp add: s3_def s2_def s1_def elsewhere_def tq_view) (simp add: put_queue_def hold_of_def)
  moreover have "hold_of s3 key = (if rs \<noteq> [] then Some (h\<lparr>ho_reasons := rs\<rparr>) else None)"
    by (simp add: s3_def tq_view)
  ultimately show ?thesis using that by (simp add: rs_def Let_def)
qed

lemma releaseHold_idle:
  "(\<And>h. hold_of s (buildThreadIdentityKey b t) = Some h \<Longrightarrow> \<not> list_ex rel (ho_reasons h)) \<Longrightarrow>
   releaseHold s b t rel = (s, False)"
  by (auto simp: releaseHold_def hold_of_def Let_def split: option.splits)

lemma releaseHold_balance [simp]: "balance (fst (releaseHold s b t rel)) k = balance s k"
proof (cases "\<exists>h. hold_of s (buildThreadIdentityKey b t) = Some h \<and> list_ex rel (ho_reasons h)")
  case True
  define key where "key = buildThreadIdentityKey b t"
  obtain q evs kept where r: "release_entries 0 rel None (queue_of s key) = (q, evs, kept)"
    by (metis prod_cases3)
  note sp = release_entries_spec [OF r, of k]
  from True obtain h where "hold_of s key = Some h" "list_ex rel (ho_reasons h)" by (auto simp: key_def)
  then obtain s' where s': "fst (releaseHold s b t rel) = scheduleDrain s' key"
    "queue_of s' key = q" "eventLog s' = eventLog s @ evs" "elsewhere key s s'"
    by (rule releaseHold_form [OF _ _ key_def r])
  have "ids_at k q = ids_at k (queue_of s key)" using sp same_tags_ids by blast
  then show ?thesis using s' sp by (cases "k = key") (auto simp: balance_def tq_view elsewhere_def)
qed (auto simp: releaseHold_idle)

lemma releaseHold_ok: assumes "tq_ok s" shows "tq_ok (fst (releaseHold s b t rel))"
proof (cases "\<exists>h. hold_of s (buildThreadIdentityKey b t) = Some h \<and> list_ex rel (ho_reasons h)")
  case True
  define key where "key = buildThreadIdentityKey b t"
  obtain q evs kept where r: "release_entries 0 rel None (queue_of s key) = (q, evs, kept)"
    by (metis prod_cases3)
  note sp = release_entries_spec [OF r]
  have f: "fifo_ok key (queue_of s key) (hold_of s key)" using assms by (rule tq_ok_fifo)
  have keys: "\<forall>e\<in>set q. keyFor e = key" using f sp same_tags_keys unfolding fifo_ok_def by metis
  from True obtain x where x: "hold_of s key = Some x" "list_ex rel (ho_reasons x)" by (auto simp: key_def)
  then obtain s' where s': "fst (releaseHold s b t rel) = scheduleDrain s' key"
    "queue_of s' key = q" "elsewhere key s s'"
    "hold_of s' key = (let rs = filter (\<lambda>r. r \<in> set kept) (ho_reasons x) in
       if rs \<noteq> [] then Some (x\<lparr>ho_reasons := rs\<rparr>) else None)"
    by (rule releaseHold_form [OF _ _ key_def r])
  have kept: "set kept \<subseteq> set (ho_reasons x)"
  proof
    fix r assume "r \<in> set kept"
    then obtain e where "e \<in> set (queue_of s key)" "en_held e" "en_holdReason e = Some r" using sp by blast
    then show "r \<in> set (ho_reasons x)" using f x(1) by (auto simp: fifo_ok_def)
  qed
  have held: "\<forall>e\<in>set q. en_held e \<longrightarrow> (\<exists>r. en_holdReason e = Some r \<and> r \<in> set kept)"
    "\<forall>r\<in>set kept. \<exists>e\<in>set q. en_held e" using sp by blast+
  have "fifo_ok key q (hold_of s' key)"
  proof (cases kept)
    case Nil
    then show ?thesis using held keys s'(4) by (auto simp: fifo_ok_def)
  next
    case (Cons r rs)
    then have "filter (\<lambda>r. r \<in> set kept) (ho_reasons x) \<noteq> []"
      using kept by (auto simp: filter_empty_conv)
    then show ?thesis using held keys kept s'(4) Cons by (fastforce simp: fifo_ok_def Let_def)
  qed
  then have "tq_ok s'" using tq_ok_elsewhere [OF assms s'(3)] s'(2) by simp
  then show ?thesis by (simp add: s'(1) untouchedD(4) [OF untouched_prims(2)])
qed (use assms in \<open>auto simp: releaseHold_idle\<close>)

lemma resolved_queued_events: "resolved_of (map (\<lambda>(i, e). EvQueued e (Suc i) b) l) k = {#}"
  by (induction l) auto

lemma clearQueueHold_spec:
  assumes "tq_ok s" shows "tq_ok (clearQueueHold s key)" "balance (clearQueueHold s key) k = balance s k"
proof -
  let ?f = "\<lambda>e. e\<lparr>en_held := False, en_holdReason := None\<rparr>"
  let ?q = "map ?f (queue_of s key)"
  have q: "queue_of (clearQueueHold s key) j = (if j = key then ?q else queue_of s j)"
    "hold_of (clearQueueHold s key) j = (if j = key then None else hold_of s j)" for j
    by (simp_all add: clearQueueHold_def Let_def tq_view)
  have "wf_map (queuedEntries (clearQueueHold s key))"
    using tq_ok_wf [OF assms] by (simp add: clearQueueHold_def Let_def put_queue_def)
  moreover have "fifo_ok key ?q None"
    using tq_ok_fifo [OF assms, of key] by (auto simp: fifo_ok_def keyFor_def)
  ultimately show "tq_ok (clearQueueHold s key)"
    using assms q by (auto intro: tq_ok_elsewhere simp: elsewhere_def)
  have "same_tags ?q (queue_of s key)" by (simp add: same_tags_def keyFor_def)
  moreover have "resolved_of (eventLog (clearQueueHold s key)) k = resolved_of (eventLog s) k"
    by (simp add: clearQueueHold_def Let_def resolved_queued_events tq_view)
  ultimately show "balance (clearQueueHold s key) k = balance s k"
    using q by (simp add: balance_def same_tags_ids)
qed

end
