(* ===== verification/TurnQueueStarts.thy ===== *)
theory TurnQueueStarts
  imports TurnQueueInv
begin

text \<open>
  The invariant and the account of entries across dispatch: taking the head of a FIFO, the
  backend's acknowledgement or refusal, and the release of a finished turn.
\<close>

subsection \<open>Starting and settling\<close>

lemma startEntry_begin_untouched: "untouched s (fst (startEntry_begin s e))"
  by (simp add: startEntry_begin_def Let_def untouched_def tq_view)
    (simp add: rememberAdmittedEntry_def applyAdmission_def Let_def)

lemma startEntry_settle_untouched: "untouched s (startEntry_settle s key a)"
  unfolding startEntry_settle_def by (rule untouched_trans [OF untouched_prims(1) untouched_prims(2)])

lemma emit_other:
  assumes "resolved_entry ev = None"
  shows "tq_ok (emit s ev) \<longleftrightarrow> tq_ok s" "balance (emit s ev) k = balance s k"
  using assms by (simp_all add: tq_ok_def balance_def tq_view)

lemma emit_resolved:
  assumes "resolved_entry ev = Some e"
  shows "tq_ok (emit s ev) \<longleftrightarrow> tq_ok s" "balance (emit s ev) k = balance s k + ids_at k [e]"
  using assms by (simp_all add: tq_ok_def balance_def tq_view)

lemma untouched_running: "untouched s (s\<lparr>runningEntries := r\<rparr>)"
  by (simp add: untouched_def)

lemma untouched_releasing: "untouched s (s\<lparr>releasingKeys := r\<rparr>)"
  "untouched s (s\<lparr>pendingReleaseKeys := p\<rparr>)" "untouched s (s\<lparr>releasingKeys := r, pendingReleaseKeys := p\<rparr>)"
  "untouched s (s\<lparr>drainTimers := d\<rparr>)" "untouched s (s\<lparr>nextAttempt := n\<rparr>)"
  by (simp_all add: untouched_def)

lemmas untouched_ok = untouched_prims [THEN untouchedD(4)] untouched_running [THEN untouchedD(4)]
  untouched_releasing [THEN untouchedD(4)] startEntry_settle_untouched [THEN untouchedD(4)]

lemmas untouched_balance = untouched_prims [THEN untouchedD(3)] untouched_running [THEN untouchedD(3)]
  untouched_releasing [THEN untouchedD(3)] startEntry_settle_untouched [THEN untouchedD(3)]

lemma settleRelease_ok: "tq_ok s \<Longrightarrow> tq_ok (settleRelease s key t st err)"
  by (auto simp: settleRelease_def Let_def untouched_ok emit_other intro!: holdAfterTurnFailure_ok
      split: option.splits)

lemma settleRelease_balance [simp]: "balance (settleRelease s key t st err) k = balance s k"
  by (auto simp: settleRelease_def Let_def untouched_balance emit_other split: option.splits)

lemma startEntry_acknowledged_spec:
  assumes "startEntry_acknowledged s e a t = (s', Some early)"
  shows "tq_ok s' \<longleftrightarrow> tq_ok s" "balance s' k = balance s k + ids_at k [e]"
  using assms
  by (auto simp: startEntry_acknowledged_def Let_def untouched_ok untouched_balance emit_resolved
      split: if_splits)

lemma startEntry_started_ok: "tq_ok s \<Longrightarrow> tq_ok (startEntry_started s e a early)"
  by (auto simp: startEntry_started_def Let_def untouched_ok emit_other
      intro!: holdAfterTurnFailure_ok settleRelease_ok split: option.splits)

lemma startEntry_started_balance [simp]: "balance (startEntry_started s e a early) k = balance s k"
  by (auto simp: startEntry_started_def Let_def untouched_balance emit_other split: option.splits)

lemma hold_for_failed_ok: "tq_ok s \<Longrightarrow> tq_ok (foldl (hold_for_failed_terminal key) s ts)"
proof (induction ts arbitrary: s)
  case (Cons t ts)
  have "tq_ok (hold_for_failed_terminal key s t)"
    using Cons.prems by (simp add: hold_for_failed_terminal_def untouched_ok holdAfterTurnFailure_ok)
  then show ?case using Cons.IH by simp
qed simp

lemma hold_for_failed_balance [simp]:
  "balance (foldl (hold_for_failed_terminal key) s ts) k = balance s k"
  by (induction ts arbitrary: s) (auto simp: hold_for_failed_terminal_def untouched_balance)

lemma startEntry_rejected_ok: "tq_ok s \<Longrightarrow> tq_ok (startEntry_rejected s e a err df)"
  by (auto simp: startEntry_rejected_def Let_def untouched_ok emit_resolved intro!: hold_for_failed_ok)

lemma startEntry_rejected_balance:
  "balance (startEntry_rejected s e a err df) k = balance s k + (if df then {#} else ids_at k [e])"
  by (auto simp: startEntry_rejected_def Let_def untouched_balance emit_resolved)

subsection \<open>Taking the next entry of a FIFO\<close>

lemma dropSpentHold_fifo:
  assumes "\<forall>e\<in>set (queue_of s key). keyFor e = key" "reasons_known (queue_of s key) (hold_of s key)"
  shows "fifo_ok key (queue_of (dropSpentHold s key) key) (hold_of (dropSpentHold s key) key)"
proof (cases "list_ex en_held (queue_of s key)")
  case True
  then show ?thesis using assms by (auto simp: fifo_ok_def reasons_known_def tq_view list_ex_iff)
next
  case False
  then show ?thesis using assms by (auto simp: fifo_ok_def tq_view list_ex_iff)
qed

lemma take_entry:
  assumes "tq_ok s" "i < length (queue_of s key)"
  defines "s' \<equiv> dropSpentHold (set_or_drop_queue s key (remove_at i (queue_of s key))) key"
  shows "tq_ok s'" "balance s k = balance s' k + ids_at k [queue_of s key ! i]"
    "queue_of s' key = remove_at i (queue_of s key)"
proof -
  let ?t = "set_or_drop_queue s key (remove_at i (queue_of s key))"
  have f: "fifo_ok key (queue_of s key) (hold_of s key)" using assms(1) by (rule tq_ok_fifo)
  have sub: "set (queue_of ?t key) \<subseteq> set (queue_of s key)"
    by (simp add: tq_view set_remove_at_subset)
  have "elsewhere key s s'"
    unfolding s'_def by (rule elsewhere_trans [OF elsewhere_prims(3) elsewhere_prims(6)])
  moreover have "fifo_ok key (queue_of s' key) (hold_of s' key)"
    unfolding s'_def
    by (rule dropSpentHold_fifo) (use f sub in \<open>auto simp: fifo_ok_def reasons_known_def tq_view\<close>)
  ultimately show "tq_ok s'" using tq_ok_elsewhere assms(1) by blast
  show "queue_of s' key = remove_at i (queue_of s key)" by (simp add: s'_def tq_view)
  show "balance s k = balance s' k + ids_at k [queue_of s key ! i]"
    using ids_at_remove_at [OF assms(2), of k] f assms(2) by (auto simp: balance_def s'_def tq_view fifo_ok_def)
qed

text \<open>What \<open>startNext\<close> does before its await: it takes a waiting entry that is not held, or nothing.\<close>

fun step_entry :: "next_step \<Rightarrow> entry option" where
  "step_entry NextNone = None"
| "step_entry (NextSteer e p h a) = Some e"
| "step_entry (NextStart e p h a) = Some e"

lemma startNext_begin_cases:
  obtains (none) "startNext_begin env s key = (s, NextNone) \<or> startNext_begin env s key = (queueFor s key, NextNone)"
  | (steer) i e p h a s1 where
      "nextWaitingIndex (queue_of s key) = Some i" "e = queue_of s key ! i"
      "p = (if i = 0 then None else Some (en_id (queue_of s key ! (i - 1))))"
      "\<not> map_has (admissions s) key" "\<not> map_has (dispatchSuspensions s) key"
      "\<not> en_held e" "\<not> entry_dispatch_held env e" "en_queuedSteer e" "canSteerThread env e"
      "s1 = dropSpentHold (set_or_drop_queue (queueFor s key) key (remove_at i (queue_of s key))) key"
      "a = nextAttempt s1"
      "startNext_begin env s key = (rememberAdmittedEntry
         (applyAdmission (s1\<lparr>nextAttempt := a + 1\<rparr>) key (AdmBegin a (Some SteerKind))) (en_id e) None,
         NextSteer e p h a)"
  | (start) i e p h a s1 s2 where
      "nextWaitingIndex (queue_of s key) = Some i" "e = queue_of s key ! i"
      "p = (if i = 0 then None else Some (en_id (queue_of s key ! (i - 1))))"
      "\<not> map_has (admissions s) key" "\<not> map_has (dispatchSuspensions s) key"
      "\<not> en_held e" "\<not> entry_dispatch_held env e"
      "en_queuedSteer e \<and> canSteerThread env e \<and> \<not> hasSteerTurn env
       \<or> \<not> map_has (runningEntries s) key \<and> \<not> entry_active env e"
      "s1 = dropSpentHold (set_or_drop_queue (queueFor s key) key (remove_at i (queue_of s key))) key"
      "startEntry_begin s1 e = (s2, a)"
      "startNext_begin env s key = (s2, NextStart e p h a)"
proof -
  have q: "queue_of (queueFor s key) key = queue_of s key" by (simp add: tq_view)
  have r: "runningEntries (queueFor s key) = runningEntries s"
    by (simp add: queueFor_def put_queue_def)
  note d = startNext_begin_def [of env s key] Let_def q r
  show ?thesis
  proof (cases "map_has (admissions s) key \<or> map_has (dispatchSuspensions s) key")
    case True
    then show ?thesis using none by (simp add: d)
  next
    case free: False
    show ?thesis
    proof (cases "nextWaitingIndex (queue_of s key)")
      case None
      then show ?thesis using none free by (simp add: d)
    next
      case (Some i)
      let ?e = "queue_of s key ! i"
      let ?s1 = "dropSpentHold (set_or_drop_queue (queueFor s key) key (remove_at i (queue_of s key))) key"
      let ?steer = "en_queuedSteer ?e \<and> canSteerThread env ?e"
      show ?thesis
      proof (cases "en_held ?e \<or> entry_dispatch_held env ?e
          \<or> \<not> ?steer \<and> (map_has (runningEntries s) key \<or> entry_active env ?e)")
        case True
        then show ?thesis using none free Some by (auto simp: d)
      next
        case go: False
        show ?thesis
        proof (cases "?steer \<and> hasSteerTurn env")
          case True
          show ?thesis
            by (rule steer [OF Some refl refl, of ?s1 "nextAttempt ?s1"
                  "map_option ho_revision (map_get (heldQueues ?s1) key)"])
              (use free go True Some in \<open>auto simp: d\<close>)
        next
          case False
          obtain s2 a where b: "startEntry_begin ?s1 ?e = (s2, a)" by fastforce
          show ?thesis
            by (rule start [OF Some refl refl, of ?s1 s2 a
                  "map_option ho_revision (map_get (heldQueues ?s1) key)"])
              (use free go False Some b in \<open>auto simp: d\<close>)
        qed
      qed
    qed
  qed
qed

definition entry_ids :: "entry option \<Rightarrow> string \<Rightarrow> entry_tag multiset" where
  "entry_ids eo k = (case eo of None \<Rightarrow> {#} | Some e \<Rightarrow> ids_at k [e])"

lemma startNext_begin_spec:
  assumes "tq_ok s" "startNext_begin env s key = (s', step)"
  shows "tq_ok s'" "balance s k = balance s' k + entry_ids (step_entry step) k"
    "step_entry step = Some e \<Longrightarrow> keyFor e = key \<and> \<not> en_held e"
proof -
  have q: "queue_of (queueFor s key) key = queue_of s key" by (simp add: tq_view)
  have taken: "tq_ok s1" "balance s k = balance s1 k + ids_at k [e']" "keyFor e' = key"
    if "nextWaitingIndex (queue_of s key) = Some i" "e' = queue_of s key ! i"
      "s1 = dropSpentHold (set_or_drop_queue (queueFor s key) key (remove_at i (queue_of s key))) key"
    for i e' s1
  proof -
    have i: "i < length (queue_of s key)" using that(1) by (simp add: nextWaitingIndex_def find_index_Some)
    show "tq_ok s1" "balance s k = balance s1 k + ids_at k [e']"
      using take_entry [of "queueFor s key" i key] i that queueFor_ok [OF assms(1)] q by simp_all
    show "keyFor e' = key"
      using tq_ok_fifo [OF assms(1), of key] i that(2) by (simp add: fifo_ok_def)
  qed
  have "tq_ok s' \<and> balance s k = balance s' k + entry_ids (step_entry step) k
    \<and> (step_entry step = Some e \<longrightarrow> keyFor e = key \<and> \<not> en_held e)"
  proof (cases rule: startNext_begin_cases [of env s key])
    case none
    then show ?thesis using assms queueFor_ok by (auto simp: entry_ids_def)
  next
    case (steer i e' p h a s1)
    then show ?thesis
      using taken [OF steer(1,2,10)] assms(2)
      by (auto simp: entry_ids_def untouched_ok untouched_balance)
  next
    case (start i e' p h a s1 s2)
    have "untouched s1 s2" using startEntry_begin_untouched [of s1 e'] start by simp
    then show ?thesis
      using taken [OF start(1,2,9)] start assms(2)
      by (auto simp: entry_ids_def untouchedD)
  qed
  then show "tq_ok s'" "balance s k = balance s' k + entry_ids (step_entry step) k"
    "step_entry step = Some e \<Longrightarrow> keyFor e = key \<and> \<not> en_held e" by blast+
qed

subsection \<open>Putting an entry back\<close>

lemma queue_restored:
  fixes p :: "string option"
  assumes "tq_ok s" "keyFor e = key" "\<not> en_held e"
  defines "s2 \<equiv> put_queue (queueFor s key) key (restoreAfter (queue_of (queueFor s key) key) e p)"
  shows "tq_ok s2" "balance s2 k = balance s k + ids_at k [e]" "queue_of s2 key \<noteq> []" "elsewhere key s s2"
proof -
  have f: "fifo_ok key (queue_of s key) (hold_of s key)" using assms(1) by (rule tq_ok_fifo)
  have q: "queue_of s2 key = restoreAfter (queue_of s key) e p" "hold_of s2 key = hold_of s key"
    by (simp_all add: s2_def tq_view)
  have "length (queue_of s2 key) = Suc (length (queue_of s key))" by (simp add: q)
  then show "queue_of s2 key \<noteq> []" by auto
  show el: "elsewhere key s s2"
    unfolding s2_def by (rule elsewhere_trans [OF elsewhere_prims(2) elsewhere_prims(1)])
  have "fifo_ok key (queue_of s2 key) (hold_of s2 key)"
    using f assms(2,3) by (auto simp: q fifo_ok_def)
  then show "tq_ok s2" using tq_ok_elsewhere assms(1) el by blast
  show "balance s2 k = balance s k + ids_at k [e]"
    using assms(2) by (auto simp: balance_def s2_def tq_view)
qed

lemma startNext_failed_spec:
  assumes "tq_ok s" "keyFor e = key" "\<not> en_held e"
  shows "tq_ok (startNext_failed s key e p err)"
    "balance (startNext_failed s key e p err) k = balance s k + ids_at k [e]"
proof -
  let ?s0 = "forgetAdmittedEntry s (en_id e)"
  let ?s2 = "put_queue (queueFor ?s0 key) key (restoreAfter (queue_of (queueFor ?s0 key) key) e p)"
  let ?s3 = "emit (addHoldReason ?s2 key err) (EvBlocked e err)"
  have ok0: "tq_ok ?s0" using assms(1) by (simp add: untouched_ok)
  note r = queue_restored [OF ok0 assms(2,3), of p]
  have f: "startNext_failed s key e p err = holdQueue ?s3 key err True"
    by (simp add: startNext_failed_def Let_def)
  have q3: "queue_of ?s3 key = queue_of ?s2 key" by (simp add: tq_view)
  have el: "elsewhere key s (holdQueue ?s3 key err True)"
    using r(4) elsewhere_untouched [OF untouched_prims(7)] elsewhere_prims(4,5) holdQueue_elsewhere
      elsewhere_trans by meson
  have fifo2: "fifo_ok key (queue_of ?s2 key) (hold_of ?s2 key)" using r(1) by (rule tq_ok_fifo)
  have "fifo_ok key (queue_of (holdQueue ?s3 key err True) key) (hold_of (holdQueue ?s3 key err True) key)"
  proof (rule holdQueue_fifo)
    show "queue_of ?s3 key \<noteq> []" using r(3) q3 by simp
    show "\<forall>e\<in>set (queue_of ?s3 key). keyFor e = key" using fifo2 q3 by (simp add: fifo_ok_def)
    have "hold_of ?s3 key = hold_of (addHoldReason ?s2 key err) key" by (simp add: tq_view)
    then show "reasons_known (queue_of ?s3 key) (hold_of ?s3 key)"
      using reasons_known_add [OF fifo_ok_reasons [OF fifo2]] q3 by simp
  qed
  then show "tq_ok (startNext_failed s key e p err)"
    using tq_ok_elsewhere [OF assms(1) el] f by simp
  have "balance ?s3 k = balance ?s2 k" by (simp add: balance_def tq_view)
  then show "balance (startNext_failed s key e p err) k = balance s k + ids_at k [e]"
    using r(2) [of k] f by (simp add: untouched_balance)
qed

lemma startNext_rejected_spec:
  assumes "tq_ok s" "keyFor e = key" "\<not> en_held e"
  shows "tq_ok (startNext_rejected s key e p a err)"
    "balance (startNext_rejected s key e p a err) k = balance s k + ids_at k [e]"
  unfolding startNext_rejected_def
  using startNext_failed_spec [OF startEntry_rejected_ok [OF assms(1)] assms(2,3)]
  by (simp_all add: startEntry_rejected_balance)

lemma steer_finally_untouched: "untouched s (steer_finally env s key e a d)"
  by (auto simp: steer_finally_def Let_def intro: untouched_prims untouched_trans)

lemma startNext_steer_rejected_spec:
  assumes "tq_ok s" "keyFor e = key" "\<not> en_held e"
  shows "tq_ok (startNext_steer_rejected env s key e p a err)"
    "balance (startNext_steer_rejected env s key e p a err) k = balance s k + ids_at k [e]"
  unfolding startNext_steer_rejected_def
  using startNext_failed_spec [OF iffD2 [OF untouchedD(4) [OF steer_finally_untouched] assms(1)] assms(2,3)]
  by (simp_all add: untouchedD [OF steer_finally_untouched])

lemma startNext_steered_spec:
  assumes "tq_ok s" "keyFor e = key" "\<not> en_held e" "is_starting_by (admission_of s key) a"
  shows "tq_ok (startNext_steered env s key e p h a ans)"
    "balance (startNext_steered env s key e p h a ans) k = balance s k + ids_at k [e]"
proof -
  let ?s0 = "forgetAdmittedEntry s (en_id e)"
  let ?s2 = "put_queue (queueFor ?s0 key) key (restoreAfter (queue_of (queueFor ?s0 key) key) e p)"
  have ok0: "tq_ok ?s0" using assms(1) by (simp add: untouched_ok)
  note r = queue_restored [OF ok0 assms(2,3), of p]
  note fin = untouchedD [OF steer_finally_untouched]
  show "tq_ok (startNext_steered env s key e p h a ans)"
    using assms r(1)
    by (auto simp: startNext_steered_def Let_def fin emit_resolved untouched_ok
        intro!: holdQueue_ok split: steer_answer.splits option.splits)
  show "balance (startNext_steered env s key e p h a ans) k = balance s k + ids_at k [e]"
    using assms r(2) [of k]
    by (auto simp: startNext_steered_def Let_def fin emit_resolved untouched_balance
        split: steer_answer.splits option.splits)
qed

lemma releaseThread_begin_spec:
  assumes "tq_ok s" "releaseThread_begin env s b t turn st err = (s', r)"
  defines "step \<equiv> (case r of Releasing step \<Rightarrow> step | _ \<Rightarrow> NextNone)"
  shows "tq_ok s'" "balance s k = balance s' k + entry_ids (step_entry step) k"
    "step_entry step = Some e \<Longrightarrow> keyFor e = buildThreadIdentityKey b t \<and> \<not> en_held e"
proof -
  let ?key = "buildThreadIdentityKey b t"
  let ?s1 = "settleRelease (s\<lparr>releasingKeys := insert ?key (releasingKeys s)\<rparr>) ?key turn st err"
  have ok: "tq_ok ?s1" using assms(1) by (simp add: settleRelease_ok untouched_ok)
  have bal: "balance ?s1 k = balance s k" by (simp add: untouched_balance)
  have "(untouched s s' \<and> step = NextNone) \<or> startNext_begin env ?s1 ?key = (s', step)"
    using assms(2) unfolding step_def releaseThread_begin_def Let_def
    by (auto simp: untouched_prims untouched_releasing split: if_splits prod.splits)
  then show "tq_ok s'" "balance s k = balance s' k + entry_ids (step_entry step) k"
    "step_entry step = Some e \<Longrightarrow> keyFor e = ?key \<and> \<not> en_held e"
    using startNext_begin_spec [OF ok] bal assms(1) untouchedD
    by (auto simp: entry_ids_def untouchedD)
qed

end
