(* ===== verification/TurnQueueSubmits.thy ===== *)
theory TurnQueueSubmits
  imports TurnQueueStarts
begin

text \<open>
  The invariant and the account of entries for submissions, restores and the operator's edits,
  and which operations leave the admissions alone.
\<close>

named_theorems adm_view \<open>operations that leave the admissions alone\<close>

lemma admissions_prims [adm_view]:
  "admissions (put_queue s key q) = admissions s"
  "admissions (queueFor s key) = admissions s"
  "admissions (set_or_drop_queue s key q) = admissions s"
  "admissions (emit s ev) = admissions s"
  "admissions (addHoldReason s key r) = admissions s"
  "admissions (dropSpentHold s key) = admissions s"
  "admissions (rememberTerminal s key t) = admissions s"
  "admissions (rememberAdmittedEntry s i tt) = admissions s"
  "admissions (forgetAdmittedEntry s i) = admissions s"
  "admissions (scheduleDrain s key) = admissions s"
  "admissions (suspend s key) = admissions s"
  "admissions (unsuspend s key) = admissions s"
  by (simp_all add: put_queue_def queueFor_def set_or_drop_queue_def emit_def addHoldReason_def
      dropSpentHold_def rememberTerminal_def rememberAdmittedEntry_def forgetAdmittedEntry_def
      scheduleDrain_def suspend_def unsuspend_def Let_def)

lemma admissions_holds [adm_view]:
  "admissions (holdQueue s key r keep) = admissions s"
  "admissions (clearQueueHold s key) = admissions s"
  by (simp_all add: holdQueue_def clearQueueHold_def Let_def adm_view split: prod.splits)

lemma admissions_failure [adm_view]: "admissions (holdAfterTurnFailure s key err) = admissions s"
  by (simp add: holdAfterTurnFailure_def Let_def adm_view)

lemma admissions_release [adm_view]:
  "admissions (settleRelease s key t st err) = admissions s"
  "admissions (foldl (hold_for_failed_terminal key) s ts) = admissions s"
  "admissions (startNext_failed s key e p msg) = admissions s"
  by (auto simp: settleRelease_def startNext_failed_def Let_def adm_view split: option.splits)
    (induction ts arbitrary: s, auto simp: hold_for_failed_terminal_def adm_view)

lemma keyFor_updates [simp]:
  "keyFor (e\<lparr>en_messageOrigin := mo\<rparr>) = keyFor e"
  "keyFor (e\<lparr>en_queuedSteer := b\<rparr>) = keyFor e"
  "keyFor (e\<lparr>en_agentMessages := ms\<rparr>) = keyFor e"
  "keyFor (e\<lparr>en_agentMessageOrigins := os\<rparr>) = keyFor e"
  "keyFor (e\<lparr>en_input := inp\<rparr>) = keyFor e"
  "keyFor (e\<lparr>en_held := b\<rparr>) = keyFor e"
  "keyFor (e\<lparr>en_holdReason := r\<rparr>) = keyFor e"
  "keyFor (e\<lparr>en_paused := b\<rparr>) = keyFor e"
  "keyFor (e\<lparr>en_pauseRevision := pr\<rparr>) = keyFor e"
  "keyFor (e\<lparr>en_projectHold := ph\<rparr>) = keyFor e"
  "keyFor (e\<lparr>en_restartContinuation := b\<rparr>) = keyFor e"
  "keyFor (e\<lparr>en_title := t\<rparr>) = keyFor e"
  by (simp_all add: keyFor_def)

subsection \<open>Joining a FIFO\<close>

lemma push_entry_spec:
  assumes "tq_ok s" "key = keyFor e"
    "en_held e \<Longrightarrow> \<exists>x. hold_of s key = Some x \<and> (\<forall>r. en_holdReason e = Some r \<longrightarrow> r \<in> set (ho_reasons x))"
    "push_entry s key e = (s', n)"
  shows "tq_ok s'" "balance s' k = balance s k + ids_at k [e]" "admissions s' = admissions s"
proof -
  have s': "s' = emit (put_queue (queueFor s key) key (queue_of s key @ [e])) (EvQueued e n False)"
    using assms(4) by (auto simp: push_entry_def Let_def tq_view)
  have "elsewhere key s s'"
    unfolding s' using elsewhere_prims(1,2,4) elsewhere_trans by meson
  moreover have "fifo_ok key (queue_of s' key) (hold_of s' key)"
    using tq_ok_fifo [OF assms(1), of key] assms(2,3) by (auto simp: s' tq_view fifo_ok_def)
  ultimately show "tq_ok s'" using tq_ok_elsewhere assms(1) by blast
  show "balance s' k = balance s k + ids_at k [e]"
    using assms(2) by (auto simp: s' balance_def tq_view)
  show "admissions s' = admissions s" by (simp add: s' adm_view)
qed

lemma with_hold_known:
  assumes "\<not> en_held e" "en_held (with_hold (holdReasonFor s key) e)"
  shows "\<exists>x. hold_of s key = Some x
    \<and> (\<forall>r. en_holdReason (with_hold (holdReasonFor s key) e) = Some r \<longrightarrow> r \<in> set (ho_reasons x))"
proof -
  from assms obtain r where "truthy (holdReasonFor s key) = Some r"
    by (auto simp: with_hold_def split: option.splits)
  then show ?thesis using holdReasonFor_hold [OF truthy_Some] by (auto simp: with_hold_def)
qed

text \<open>The result of a submission: started under an admission of its own, queued, or refused.\<close>

definition sub_ok :: "turn_queue \<Rightarrow> turn_queue \<times> submission \<Rightarrow> bool" where
  "sub_ok s r \<longleftrightarrow> (case r of
     (s', SubStarting e a) \<Rightarrow> tq_ok s' \<and> (\<forall>k. balance s' k = balance s k) \<and> \<not> en_held e
        \<and> \<not> map_has (admissions s) (keyFor e)
        \<and> admissions s' = map_set (admissions s) (keyFor e) (AdmStarting a StartKind [])
   | (s', SubQueued e n) \<Rightarrow> tq_ok s' \<and> (\<forall>k. balance s' k = balance s k + ids_at k [e])
        \<and> admissions s' = admissions s
   | (s', SubBusy) \<Rightarrow> tq_ok s' \<and> (\<forall>k. balance s' k = balance s k) \<and> admissions s' = admissions s)"

lemma admission_of_free: "\<not> map_has (admissions s) key \<Longrightarrow> admission_of s key = AdmIdle"
  by (simp add: admission_of_def map_has_def)

lemma startEntry_begin_admission:
  assumes "\<not> map_has (admissions s) (keyFor e)" "startEntry_begin s e = (s', a)"
  shows "admissions s' = map_set (admissions s) (keyFor e) (AdmStarting a StartKind [])"
  using assms admission_of_free [of s "keyFor e"]
  by (auto simp: startEntry_begin_def Let_def adm_view applyAdmission_def admission_of_def)

lemma sub_ok_start:
  assumes "tq_ok s" "\<not> en_held e" "\<not> map_has (admissions s) (keyFor e)"
    "startEntry_begin (queueFor s key) e = (s', a)"
  shows "sub_ok s (s', SubStarting e a)"
proof -
  have u: "untouched (queueFor s key) s'"
    using startEntry_begin_untouched [of "queueFor s key" e] assms(4) by simp
  have "admissions s' = map_set (admissions (queueFor s key)) (keyFor e) (AdmStarting a StartKind [])"
    by (rule startEntry_begin_admission) (use assms in \<open>simp_all add: adm_view\<close>)
  then show ?thesis
    using assms queueFor_ok untouchedD [OF u] by (simp add: sub_ok_def adm_view)
qed

lemma canStart_cases:
  "canStartImmediately env s b t = (s1, free) \<Longrightarrow>
     (s1 = s \<or> s1 = queueFor s (buildThreadIdentityKey b t))
     \<and> (free \<longrightarrow> s1 = queueFor s (buildThreadIdentityKey b t)
          \<and> \<not> map_has (admissions s) (buildThreadIdentityKey b t))"
  by (auto simp: canStartImmediately_def Let_def split: if_splits)

lemma submit_ok:
  assumes "tq_ok s" "\<not> en_held e" shows "sub_ok s (submit env s e)"
proof -
  obtain s1 free where c: "canStartImmediately env s (en_backend e) (en_threadId e) = (s1, free)"
    by fastforce
  note cs = canStart_cases [OF c, folded keyFor_def]
  have ok: "tq_ok s1" "\<And>k. balance s1 k = balance s k" "admissions s1 = admissions s"
    using cs queueFor_ok assms(1) by (auto simp: adm_view)
  show ?thesis
  proof (cases free)
    case True
    obtain s2 a where b: "startEntry_begin s1 e = (s2, a)" by fastforce
    then have "sub_ok s (s2, SubStarting e a)"
      using sub_ok_start [OF assms] cs True by auto
    then show ?thesis using c True b by (simp add: submit_def)
  next
    case False
    obtain s2 n where p: "push_entry s1 (keyFor e) (with_hold (holdReasonFor s1 (keyFor e)) e) = (s2, n)"
      by fastforce
    have "tq_ok s2" "\<And>k. balance s2 k = balance s1 k + ids_at k [with_hold (holdReasonFor s1 (keyFor e)) e]"
      "admissions s2 = admissions s1"
      by (rule push_entry_spec [OF ok(1) _ _ p]; simp add: with_hold_known assms(2))+
    then show ?thesis using c False p ok by (simp add: submit_def sub_ok_def Let_def)
  qed
qed

lemma submitIfIdle_ok:
  assumes "tq_ok s" "\<not> en_held e" shows "sub_ok s (submitIfIdle env s e)"
proof -
  obtain s1 free where c: "canStartImmediately env s (en_backend e) (en_threadId e) = (s1, free)"
    by fastforce
  note cs = canStart_cases [OF c, folded keyFor_def]
  show ?thesis
  proof (cases free)
    case True
    obtain s2 a where b: "startEntry_begin s1 e = (s2, a)" by fastforce
    then have "sub_ok s (s2, SubStarting e a)" using sub_ok_start [OF assms] cs True by auto
    then show ?thesis using c True b by (simp add: submitIfIdle_def)
  next
    case False
    then show ?thesis
      using c cs assms queueFor_ok by (auto simp: submitIfIdle_def sub_ok_def adm_view)
  qed
qed

lemma sub_ok_untouched:
  assumes "untouched s s0" "admissions s0 = admissions s" "sub_ok s0 r"
  shows "sub_ok s r"
  using assms untouchedD [OF assms(1)] by (auto simp: sub_ok_def split: prod.splits submission.splits)

lemma sub_ok_end:
  assumes "sub_ok s r" shows "sub_ok s (end_unless_starting key r)"
  using assms untouchedD [OF untouched_prims(4)]
  by (auto simp: sub_ok_def end_unless_starting_def adm_view split: prod.splits submission.splits)

lemma submitSteer_ok:
  assumes "tq_ok s" "\<not> en_held e" shows "sub_ok s (submitSteer env s e)"
proof -
  let ?sus = "suspend s (keyFor e)"
  let ?s = "queueFor ?sus (keyFor e)"
  let ?e = "with_hold (holdReasonFor ?s (keyFor e)) (e\<lparr>en_queuedSteer := True\<rparr>)"
  have ok0: "tq_ok ?sus" using assms(1) by (simp add: untouched_ok)
  have okf: "tq_ok ?s" by (rule queueFor_ok) (rule ok0)
  have k: "keyFor ?e = keyFor e" "\<not> en_held (e\<lparr>en_queuedSteer := True\<rparr>)"
    using assms(2) by simp_all
  have "sub_ok ?sus (submitSteer_edit env ?sus e)"
  proof (cases "steer_may_start env ?s (keyFor e) ?e \<and> truthy (holdReasonFor ?s (keyFor e)) = None")
    case True
    obtain s1 a where b: "startEntry_begin ?s ?e = (s1, a)" by fastforce
    have "sub_ok ?sus (s1, SubStarting ?e a)"
      by (rule sub_ok_start [OF ok0 _ _ b])
        (use True assms(2) k(1) in \<open>auto simp: steer_may_start_def adm_view with_hold_def split: option.splits\<close>)
    then show ?thesis
      by (simp only: submitSteer_edit_def Let_def if_P [OF True] b prod.case)
  next
    case False
    obtain s2 n where p: "push_entry ?s (keyFor e) ?e = (s2, n)" by fastforce
    note ps = push_entry_spec [OF okf _ _ p, OF k(1) [symmetric] with_hold_known [OF k(2)]]
    have "tq_ok s2" "\<And>k. balance s2 k = balance ?s k + ids_at k [?e]" "admissions s2 = admissions ?s"
      by (rule ps, assumption)+
    moreover have "submitSteer_edit env ?sus e = (s2, SubQueued ?e n)"
      by (simp only: submitSteer_edit_def Let_def if_not_P [OF False] p prod.case)
    ultimately show ?thesis by (simp add: sub_ok_def adm_view)
  qed
  then have "sub_ok s (submitSteer_edit env ?sus e)"
    by (rule sub_ok_untouched [OF untouched_prims(3) admissions_prims(11)])
  then show ?thesis unfolding submitSteer_def by (rule sub_ok_end)
qed

subsection \<open>Replacing an entry in place\<close>

definition reason_known :: "entry \<Rightarrow> hold option \<Rightarrow> bool" where
  "reason_known e h \<longleftrightarrow>
     (en_held e \<longrightarrow> (\<exists>x. h = Some x \<and> (\<forall>r. en_holdReason e = Some r \<longrightarrow> r \<in> set (ho_reasons x))))"

lemma fifo_reason_known: "tq_ok s \<Longrightarrow> e \<in> set (queue_of s key) \<Longrightarrow> reason_known e (hold_of s key) \<and> keyFor e = key"
  using tq_ok_fifo [of s key] by (auto simp: fifo_ok_def reason_known_def)

lemma replace_entry_spec:
  assumes "tq_ok s" "i < length (queue_of s key)"
    "keyFor u = keyFor (queue_of s key ! i)" "en_tag u = en_tag (queue_of s key ! i)"
    "en_held (queue_of s key ! i) \<Longrightarrow> en_held u" "reason_known u (hold_of s key)"
  defines "s' \<equiv> put_queue s key ((queue_of s key)[i := u])"
  shows "tq_ok s'" "balance s' k = balance s k" "admissions s' = admissions s"
proof -
  let ?q = "queue_of s key"
  have f: "fifo_ok key ?q (hold_of s key)" using assms(1) by (rule tq_ok_fifo)
  have keys: "\<forall>e\<in>set (?q[i := u]). keyFor e = key \<and> reason_known e (hold_of s key)"
    using f assms(2,3,6) fifo_reason_known [OF assms(1)]
    by (auto dest!: set_update_subset_insert [THEN subsetD])
  have "\<exists>e\<in>set (?q[i := u]). en_held e" if h: "e \<in> set ?q" "en_held e" for e
  proof (cases "en_held (?q ! i)")
    case True
    then show ?thesis using assms(2,5) set_update_memI by fast
  next
    case False
    then obtain j where "j < length ?q" "?q ! j = e" "j \<noteq> i" using h by (metis in_set_conv_nth)
    then have "?q[i := u] ! j = e" "j < length (?q[i := u])" by simp_all
    then show ?thesis using h(2) nth_mem by metis
  qed
  then have "fifo_ok key (queue_of s' key) (hold_of s' key)"
    using f keys by (auto simp: fifo_ok_def s'_def tq_view reason_known_def)
  then show "tq_ok s'" using tq_ok_elsewhere assms(1) elsewhere_prims(1) by (metis s'_def)
  have "same_tags (?q[i := u]) ?q" by (rule same_tags_update) (use assms in auto)
  then show "balance s' k = balance s k" by (simp add: balance_def s'_def tq_view same_tags_ids)
  show "admissions s' = admissions s" by (simp add: s'_def adm_view)
qed

lemma grouped_entry_simps:
  "en_tag (grouped_entry c input m r) = en_tag (case c of None \<Rightarrow> input | Some c \<Rightarrow> c)"
  "keyFor (grouped_entry c input m r) = keyFor (case c of None \<Rightarrow> input | Some c \<Rightarrow> c)"
  by (simp_all add: grouped_entry_def Let_def)

lemma grouped_entry_held:
  "en_held (grouped_entry c input m r) \<longleftrightarrow> truthy r \<noteq> None \<or> en_held (case c of None \<Rightarrow> input | Some c \<Rightarrow> c)"
  "en_holdReason (grouped_entry c input m r) =
     (case truthy r of None \<Rightarrow> en_holdReason (case c of None \<Rightarrow> input | Some c \<Rightarrow> c) | Some x \<Rightarrow> Some x)"
  by (auto simp: grouped_entry_def Let_def with_hold_def split: option.splits)

definition merge_ok :: "turn_queue \<Rightarrow> turn_queue \<times> submission \<Rightarrow> bool" where
  "merge_ok s r \<longleftrightarrow> (\<exists>s' e n. r = (s', SubQueued e n) \<and> tq_ok s' \<and> (\<forall>k. balance s' k = balance s k)
     \<and> admissions s' = admissions s
     \<and> length (queue_of s' (keyFor e)) = length (queue_of s (keyFor e)))"

definition longer_ok :: "turn_queue \<Rightarrow> turn_queue \<times> submission \<Rightarrow> bool" where
  "longer_ok s r \<longleftrightarrow> sub_ok s r
     \<and> (\<forall>s' e n. r = (s', SubQueued e n) \<longrightarrow>
           length (queue_of s' (keyFor e)) = Suc (length (queue_of s (keyFor e))))"

lemma grouped_edit_ok:
  assumes "tq_ok s" "\<not> en_held input"
  shows "longer_ok s (submitGroupedSteer_edit env s input d) \<or> merge_ok s (submitGroupedSteer_edit env s input d)"
proof -
  define key where "key = keyFor input"
  define sq where "sq = queueFor s key"
  define m where "m = \<lparr>am_input = en_input input, am_origin = en_messageOrigin input, am_receivedAt = env_now env\<rparr>"
  define index where "index = find_index (\<lambda>e. en_queuedSteer e \<and> en_agentMessages e \<noteq> None \<and> \<not> en_paused e) (queue_of sq key)"
  define e where "e = grouped_entry (map_option (\<lambda>i. queue_of sq key ! i) index) input m (holdReasonFor sq key)"
  have ok: "tq_ok sq" "admissions sq = admissions s" "\<And>k. balance sq k = balance s k"
    "\<And>k. queue_of sq k = queue_of s k"
    using queueFor_ok [OF assms(1)] by (simp_all add: sq_def adm_view tq_view)
  let ?r = "submitGroupedSteer_edit env s input d"
  let ?start = "\<not> d \<and> index = None \<and> steer_may_start env sq key e \<and> \<not> map_has (heldQueues sq) key"
  have r: "?r = (if ?start then (let (s1, a) = startEntry_begin sq e in (s1, SubStarting e a))
     else case index of
       Some i \<Rightarrow> (emit (put_queue sq key ((queue_of sq key)[i := e])) (EvQueued e (i + 1) True), SubQueued e (i + 1))
     | None \<Rightarrow> (let (s1, position) = push_entry sq key e in (s1, SubQueued e position)))"
    by (simp only: submitGroupedSteer_edit_def Let_def key_def sq_def m_def index_def e_def
        map_option_is_None)
  have hold: "en_holdReason e = Some r \<Longrightarrow> truthy (holdReasonFor sq key) \<noteq> None \<Longrightarrow>
      \<exists>x. hold_of sq key = Some x \<and> r \<in> set (ho_reasons x)" for r
    using holdReasonFor_hold [OF truthy_Some] by (auto simp: e_def grouped_entry_held)
  have known: "reason_known e (hold_of sq key)" if "index = None"
    using that assms(2) hold holdReasonFor_hold [OF truthy_Some, of sq key]
    by (auto simp: reason_known_def e_def grouped_entry_held)
  show ?thesis
  proof (cases ?start)
    case True
    obtain s1 a where b: "startEntry_begin sq e = (s1, a)" by fastforce
    have "truthy (holdReasonFor sq key) = None"
      using True by (simp add: holdReasonFor_def map_has_def truthy_def)
    then have "\<not> en_held e" using True assms(2) by (simp add: e_def grouped_entry_held)
    moreover have "\<not> map_has (admissions s) (keyFor e)"
      using True ok(2) by (simp add: steer_may_start_def e_def grouped_entry_simps key_def)
    ultimately have "sub_ok s (s1, SubStarting e a)"
      using sub_ok_start [OF assms(1) _ _ b [unfolded sq_def]] by blast
    then show ?thesis using True b r by (simp add: longer_ok_def)
  next
    case no: False
    show ?thesis
    proof (cases index)
      case None
      obtain s1 n where p: "push_entry sq key e = (s1, n)" by fastforce
      have k: "key = keyFor e" by (simp add: None e_def grouped_entry_simps key_def)
      note ps = push_entry_spec [OF ok(1) k known [OF None, unfolded reason_known_def, rule_format] p]
      have "length (queue_of s1 key) = Suc (length (queue_of s key))"
        using p ok(4) by (auto simp: push_entry_def Let_def tq_view)
      then have "longer_ok s (s1, SubQueued e n)"
        using ps ok k by (simp add: longer_ok_def sub_ok_def)
      moreover have "?r = (s1, SubQueued e n)" by (simp only: r if_not_P [OF no]) (simp add: None p)
      ultimately show ?thesis by simp
    next
      case (Some i)
      let ?c = "queue_of sq key ! i"
      have i: "i < length (queue_of sq key)" using Some by (simp add: index_def find_index_Some)
      then have c: "reason_known ?c (hold_of sq key)" "keyFor ?c = key"
        using fifo_reason_known [OF ok(1)] nth_mem by blast+
      have u: "keyFor e = keyFor ?c" "en_tag e = en_tag ?c" "en_held ?c \<Longrightarrow> en_held e"
        by (simp_all add: e_def grouped_entry_simps [unfolded en_tag_def] grouped_entry_held Some)
      have "reason_known e (hold_of sq key)"
      proof (cases "truthy (holdReasonFor sq key)")
        case None
        then show ?thesis using c(1) by (simp add: reason_known_def e_def grouped_entry_held Some)
      next
        case (Some x)
        then show ?thesis using holdReasonFor_hold [OF truthy_Some] by (fastforce simp: reason_known_def e_def grouped_entry_held)
      qed
      note rp = replace_entry_spec [OF ok(1) i u this]
      have "merge_ok s (emit (put_queue sq key ((queue_of sq key)[i := e])) (EvQueued e (i + 1) True), SubQueued e (i + 1))"
        using rp ok u(1) c(2) unfolding merge_ok_def
        by (auto simp: emit_other adm_view tq_view)
      moreover have "?r = (emit (put_queue sq key ((queue_of sq key)[i := e])) (EvQueued e (i + 1) True), SubQueued e (i + 1))"
        by (simp only: r if_not_P [OF no]) (simp add: Some)
      ultimately show ?thesis by simp
    qed
  qed
qed

lemma submitGroupedSteer_ok:
  assumes "tq_ok s" "\<not> en_held input"
  shows "longer_ok s (submitGroupedSteer env s input d) \<or> merge_ok s (submitGroupedSteer env s input d)"
proof -
  let ?sus = "suspend s (keyFor input)"
  obtain s1 r where e: "submitGroupedSteer_edit env ?sus input d = (s1, r)" by fastforce
  have ok: "tq_ok ?sus" using assms(1) by (simp add: untouched_ok)
  have g: "submitGroupedSteer env s input d = end_unless_starting (keyFor input) (s1, r)"
    by (simp add: submitGroupedSteer_def e)
  from grouped_edit_ok [OF ok assms(2), of env d] e
  consider "longer_ok ?sus (s1, r)" | "merge_ok ?sus (s1, r)" by auto
  then show ?thesis
  proof cases
    case 1
    then have "sub_ok s (s1, r)"
      using sub_ok_untouched [OF untouched_prims(3) admissions_prims(11)] by (auto simp: longer_ok_def)
    then have "longer_ok s (end_unless_starting (keyFor input) (s1, r))"
      using 1 sub_ok_end [of s "(s1, r)" "keyFor input"]
      by (auto simp: longer_ok_def end_unless_starting_def tq_view split: submission.splits)
    then show ?thesis by (simp add: g)
  next
    case 2
    then have "merge_ok s (end_unless_starting (keyFor input) (s1, r))"
      by (auto simp: merge_ok_def end_unless_starting_def untouched_ok untouched_balance tq_view adm_view)
    then show ?thesis by (simp add: g)
  qed
qed

end
