(* ===== verification/TurnQueueEditsInv.thy ===== *)
theory TurnQueueEditsInv
  imports TurnQueueSubmits
begin

text \<open>
  The invariant and the account of entries for held submissions, restores and the operator's edits.
\<close>

lemma find_in_queues_Some:
  "wf_map m \<Longrightarrow> find_in_queues m i = Some (key, n) \<Longrightarrow>
     \<exists>q. map_get m key = Some q \<and> find_index (\<lambda>e. en_id e = i) q = Some n"
  by (induction m i rule: find_in_queues.induct)
    (auto split: option.splits if_splits simp: rev_image_eqI dest!: map_of_SomeD)

lemma find_in_queues_queue:
  assumes "tq_ok s" "find_in_queues (queuedEntries s) i = Some (key, n)"
  shows "n < length (queue_of s key)" "en_id (queue_of s key ! n) = i" "keyFor (queue_of s key ! n) = key"
proof -
  obtain q where q: "map_get (queuedEntries s) key = Some q" "find_index (\<lambda>e. en_id e = i) q = Some n"
    using find_in_queues_Some [OF tq_ok_wf [OF assms(1)] assms(2)] by blast
  then show n: "n < length (queue_of s key)" "en_id (queue_of s key ! n) = i"
    by (simp_all add: queue_of_def find_index_Some)
  show "keyFor (queue_of s key ! n) = key"
    using fifo_reason_known [OF assms(1)] n(1) nth_mem by blast
qed

lemma findQueued_queue:
  assumes "tq_ok s" "findQueuedEntry s i = Some (e, key, p)"
  shows "p - 1 < length (queue_of s key)" "queue_of s key ! (p - 1) = e" "en_id e = i" "keyFor e = key"
  using assms find_in_queues_queue [OF assms(1)]
  by (auto simp: findQueuedEntry_def split: option.splits)

subsection \<open>Held and project-held submissions\<close>

lemma submitHeld_ok:
  assumes "tq_ok s" "submitHeld s input reason = Inr (s', h, n)"
  shows "tq_ok s'" "admissions s' = admissions s"
    "balance s' k = balance s k + (if findQueuedEntry s (en_id input) = None then ids_at k [input] else {#})"
proof -
  let ?e = "input\<lparr>en_held := True, en_holdReason := Some reason\<rparr>"
  define key where "key = keyFor ?e"
  define sq where "sq = addHoldReason (queueFor s key) key reason"
  define i where "i = held_insert_index (queueFor s key) key"
  define sp where "sp = emit (put_queue sq key (insert_at i ?e (queue_of sq key))) (EvQueued ?e (i + 1) False)"
  have "tq_ok s' \<and> admissions s' = admissions s \<and> balance s' k = balance s k
    + (if findQueuedEntry s (en_id input) = None then ids_at k [input] else {#})"
  proof (cases "findQueuedEntry s (en_id input)")
    case (Some x)
    then show ?thesis using assms by (auto simp: submitHeld_def split: if_splits prod.splits)
  next
    case None
    have s': "s' = holdQueue sp key reason True"
      using assms(2) None
      by (auto simp: submitHeld_def Let_def key_def sq_def i_def sp_def split: option.splits prod.splits)
    have k: "key = keyFor input" by (simp add: key_def)
    have f: "fifo_ok key (queue_of s key) (hold_of s key)" using assms(1) by (rule tq_ok_fifo)
    have q: "queue_of sp key = insert_at i ?e (queue_of s key)"
      by (simp add: sp_def sq_def tq_view)
    have hd: "hold_of sp key = hold_of (addHoldReason (queueFor s key) key reason) key"
      by (simp add: sp_def sq_def tq_view)
    have el: "elsewhere key s s'"
      unfolding s' sp_def sq_def
      using elsewhere_prims(1,2,4,5) holdQueue_elsewhere elsewhere_trans by meson
    have "fifo_ok key (queue_of s' key) (hold_of s' key)"
      unfolding s'
    proof (rule holdQueue_fifo)
      show "queue_of sp key \<noteq> []" by (simp add: q insert_at_def)
      have "keyFor ?e = key" by (simp add: key_def)
      then show "\<forall>e\<in>set (queue_of sp key). keyFor e = key"
        using f by (auto simp: q fifo_ok_def simp del: keyFor_updates)
      have "reasons_known (queue_of s key) (hold_of (queueFor s key) key)"
        using fifo_ok_reasons [OF f] by (simp add: tq_view)
      then have "reasons_known (queue_of s key) (hold_of sp key)"
        unfolding hd by (rule reasons_known_add)
      moreover have "\<exists>x. hold_of sp key = Some x \<and> reason \<in> set (ho_reasons x)"
        by (simp add: hd tq_view)
      ultimately show "reasons_known (queue_of sp key) (hold_of sp key)"
        by (auto simp: q reasons_known_def)
    qed
    then have "tq_ok s'" using tq_ok_elsewhere [OF assms(1) el] by blast
    moreover have "balance sp k = balance s k + ids_at k [input]"
      by (auto simp: sp_def sq_def balance_def tq_view key_def)
    ultimately show ?thesis
      using None by (simp add: s' adm_view sp_def sq_def)
  qed
  then show "tq_ok s'" "admissions s' = admissions s"
    "balance s' k = balance s k + (if findQueuedEntry s (en_id input) = None then ids_at k [input] else {#})"
    by blast+
qed

lemma submitProjectHeld_ok:
  assumes "tq_ok s" "\<not> en_held input" "submitProjectHeld s input reason ph = (s', h, n)"
  shows "tq_ok s'" "admissions s' = admissions s"
    "balance s' k = balance s k + (if findQueuedEntry s (en_id input) = None then ids_at k [input] else {#})"
proof -
  let ?e = "input\<lparr>en_paused := True, en_pauseRevision := Some 1, en_holdReason := Some reason,
    en_projectHold := Some ph\<rparr>"
  obtain s1 p where push: "push_entry s (keyFor ?e) ?e = (s1, p)" by fastforce
  have "\<not> en_held ?e" using assms(2) by simp
  then have ps: "tq_ok s1" "balance s1 k = balance s k + ids_at k [?e]" "admissions s1 = admissions s"
    using push_entry_spec [OF assms(1) refl _ push] by blast+
  then show "tq_ok s'" "admissions s' = admissions s"
    "balance s' k = balance s k + (if findQueuedEntry s (en_id input) = None then ids_at k [input] else {#})"
    using assms(1,3) push by (auto simp: submitProjectHeld_def Let_def split: option.splits prod.splits)
qed

subsection \<open>Restores\<close>

definition restore_ok :: "turn_queue \<Rightarrow> turn_queue \<times> entry list \<Rightarrow> bool" where
  "restore_ok s acc \<longleftrightarrow> tq_ok (fst acc) \<and> admissions (fst acc) = admissions s
     \<and> (\<forall>k. balance (fst acc) k = balance s k + ids_at k (snd acc))"

lemma restore_one_ok:
  assumes "restore_ok s acc" "\<not> en_held e" shows "restore_ok s (restore_one front acc e)"
proof -
  obtain t rs where acc: "acc = (t, rs)" by fastforce
  have ok: "tq_ok t" and b: "\<And>k. balance t k = balance s k + ids_at k rs"
    and a: "admissions t = admissions s" using assms(1) by (simp_all add: restore_ok_def acc)
  let ?key = "keyFor e"
  let ?t' = "put_queue (queueFor t ?key) ?key (if front then e # queue_of t ?key else queue_of t ?key @ [e])"
  have el: "elsewhere ?key t ?t'" using elsewhere_prims(1,2) elsewhere_trans by meson
  have "fifo_ok ?key (queue_of ?t' ?key) (hold_of ?t' ?key)"
    using tq_ok_fifo [OF ok, of ?key] assms(2) by (auto simp: fifo_ok_def tq_view)
  then have "tq_ok ?t'" using tq_ok_elsewhere [OF ok el] by blast
  moreover have "balance ?t' k = balance t k + ids_at k [e]" for k by (auto simp: balance_def tq_view)
  ultimately show ?thesis
    using assms(1) b a by (auto simp: acc restore_one_def restore_ok_def Let_def adm_view tq_view)
qed

lemma restore_fold_ok:
  "restore_ok s acc \<Longrightarrow> \<forall>e\<in>set es. \<not> en_held e \<Longrightarrow> restore_ok s (foldl (restore_one front) acc es)"
proof (induction es arbitrary: acc)
  case (Cons e es)
  then have "restore_ok s (restore_one front acc e)" by (intro restore_one_ok) simp_all
  then show ?case using Cons.IH Cons.prems(2) by simp
qed simp

lemma restores_ok:
  assumes "tq_ok s" "list_all (\<lambda>e. \<not> en_held e) es"
  shows "restore_ok s (restoreProjectHeld s es)" "restore_ok s (restoreRestartContinuations s es)"
    "restore_ok s (restoreQueued s es)"
proof -
  have "restore_ok s (s, [])" using assms(1) by (simp add: restore_ok_def)
  note fold = restore_fold_ok [OF this]
  have free: "\<forall>e\<in>set es. \<not> en_held e" using assms(2) by (simp only: list_all_iff)
  show "restore_ok s (restoreProjectHeld s es)"
    unfolding restoreProjectHeld_def by (rule fold) (simp add: free ball_Un)
  show "restore_ok s (restoreRestartContinuations s es)"
    unfolding restoreRestartContinuations_def by (rule fold) (simp add: free ball_Un)
  show "restore_ok s (restoreQueued s es)"
    unfolding restoreQueued_def by (rule fold) (simp add: free ball_Un)
qed

subsection \<open>Edits of a queued entry\<close>

definition edit_ok :: "turn_queue \<Rightarrow> turn_queue \<Rightarrow> bool" where
  "edit_ok s s' \<longleftrightarrow> tq_ok s' \<and> (\<forall>k. balance s' k = balance s k) \<and> admissions s' = admissions s"

lemma edit_ok_untouched: "tq_ok s \<Longrightarrow> untouched s s' \<Longrightarrow> admissions s' = admissions s \<Longrightarrow> edit_ok s s'"
  by (simp add: edit_ok_def untouchedD)

lemma edit_ok_trans: "edit_ok s t \<Longrightarrow> edit_ok t u \<Longrightarrow> edit_ok s u"
  by (simp add: edit_ok_def)

lemma edit_ok_refl: "tq_ok s \<Longrightarrow> edit_ok s s"
  by (simp add: edit_ok_def)

lemma suspended_edit_ok:
  assumes "tq_ok s" "\<And>t. tq_ok t \<Longrightarrow> edit_ok t (fst (edit t))"
  shows "edit_ok s (fst (withDispatchSuspended s key edit))"
proof -
  obtain t r where e: "edit (suspend s key) = (t, r)" by fastforce
  have suspended: "edit_ok s (suspend s key)"
    by (rule edit_ok_untouched [OF assms(1) untouched_prims(3) admissions_prims(11)])
  then have edited: "edit_ok (suspend s key) t" using assms(2) [of "suspend s key"] e by (simp add: edit_ok_def)
  then have "edit_ok t (unsuspend t key)"
    by (intro edit_ok_untouched [OF _ untouched_prims(4) admissions_prims(12)]) (simp add: edit_ok_def)
  then have "edit_ok s (unsuspend t key)" by (rule edit_ok_trans [OF edit_ok_trans [OF suspended edited]])
  then show ?thesis by (simp add: withDispatchSuspended_def e)
qed

lemma replace_edit_ok:
  assumes "tq_ok s" "i < length (queue_of s key)"
    "keyFor u = keyFor (queue_of s key ! i)" "en_tag u = en_tag (queue_of s key ! i)"
    "en_held (queue_of s key ! i) \<Longrightarrow> en_held u" "reason_known u (hold_of s key)"
  shows "edit_ok s (put_queue s key ((queue_of s key)[i := u]))"
  using replace_entry_spec [OF assms] by (simp add: edit_ok_def)

lemma update_queued_ok:
  assumes "tq_ok s"
    "\<And>e. keyFor (f e) = keyFor e \<and> en_tag (f e) = en_tag e \<and> en_held (f e) = en_held e
       \<and> en_holdReason (f e) = en_holdReason e"
  shows "edit_ok s (fst (update_queued s i f))"
proof (cases "find_in_queues (queuedEntries s) i")
  case None
  then show ?thesis using assms(1) by (simp add: update_queued_def edit_ok_refl)
next
  case (Some p)
  obtain key n where p: "p = (key, n)" by fastforce
  note q = find_in_queues_queue [OF assms(1) Some [unfolded p]]
  have "reason_known (queue_of s key ! n) (hold_of s key)"
    using fifo_reason_known [OF assms(1)] q(1) nth_mem by blast
  then have "reason_known (f (queue_of s key ! n)) (hold_of s key)" by (simp add: reason_known_def assms(2))
  then have "edit_ok s (put_queue s key ((queue_of s key)[n := f (queue_of s key ! n)]))"
    using replace_edit_ok [OF assms(1) q(1)] assms(2) by simp
  then show ?thesis by (simp add: update_queued_def Some p Let_def)
qed

lemma input_title_ok:
  assumes "tq_ok s"
  shows "edit_ok s (fst (updateQueuedEntryInput s i input st))" "edit_ok s (fst (setQueuedEntryTitle s i title))"
  unfolding updateQueuedEntryInput_def setQueuedEntryTitle_def
  by (rule update_queued_ok [OF assms], simp)+

lemma replaceQueuedAgentInput_ok:
  assumes "tq_ok s" shows "edit_ok s (fst (replaceQueuedAgentInput s i input sender og))"
proof (cases "findQueuedEntry s i")
  case None
  then show ?thesis using assms by (simp add: replaceQueuedAgentInput_def edit_ok_refl)
next
  case (Some r)
  obtain e key p where r: "r = (e, key, p)" by (metis prod_cases3)
  note q = findQueued_queue [OF assms Some [unfolded r]]
  show ?thesis
  proof (cases "Option.bind (en_agentMessages e) (replace_first_message sender input og)")
    case None
    then show ?thesis using assms Some r by (simp add: replaceQueuedAgentInput_def edit_ok_refl)
  next
    case (Some ms)
    have "reason_known e (hold_of s key)"
      using fifo_reason_known [OF assms] q(1,2) nth_mem by blast
    moreover have "edit_ok (queueFor s key) (put_queue (queueFor s key) key ((queue_of (queueFor s key) key)[p - 1 := u]))"
      if "keyFor u = keyFor e" "en_tag u = en_tag e" "en_held u = en_held e" "en_holdReason u = en_holdReason e" for u
      by (rule replace_edit_ok [OF queueFor_ok [OF assms]])
        (use q that calculation in \<open>auto simp: tq_view reason_known_def\<close>)
    moreover have "edit_ok s (queueFor s key)" using queueFor_ok [OF assms] by (simp add: edit_ok_def adm_view)
    ultimately show ?thesis
      using Some \<open>findQueuedEntry s i = Some r\<close> r
      by (auto simp: replaceQueuedAgentInput_def Let_def intro!: edit_ok_trans [of s "queueFor s key"])
  qed
qed

text \<open>Two FIFOs with the same entries in another order.\<close>

lemma fifo_ok_mset: "mset q = mset q' \<Longrightarrow> fifo_ok key q h \<longleftrightarrow> fifo_ok key q' h"
  by (auto simp: fifo_ok_def dest: mset_eq_setD)

lemma ids_at_mset: "mset q = mset q' \<Longrightarrow> ids_at key q = ids_at key q'"
  by (simp add: ids_at_def mset_filter)

lemma mset_move: "i < length q \<Longrightarrow> mset (insert_at j (q ! i) (remove_at i q)) = mset q"
proof -
  assume i: "i < length q"
  have m: "mset (insert_at n x xs) = add_mset x (mset xs)" for n x and xs :: "'a list"
    by (metis insert_at_def append_take_drop_id mset.simps(2) mset_append union_mset_add_mset_right)
  show ?thesis using m [of i "q ! i" "remove_at i q"] m insert_remove_at [OF i] by metis
qed

lemma move_within_mset: "move_within q i beforeId = (q', d) \<Longrightarrow> mset q' = mset q"
  using mset_move [of _ q]
  by (auto simp: move_within_def Let_def find_index_Some split: option.splits if_splits)

lemma moveEntry_ok: assumes "tq_ok s" shows "edit_ok s (fst (moveEntry s i beforeId))"
proof -
  have edit: "edit_ok t (fst (moveEntry_edit t key i beforeId))" if "tq_ok t" for t key
  proof -
    obtain q d where m: "move_within (queue_of t key) i beforeId = (q, d)" by fastforce
    note mm = move_within_mset [OF m]
    have "fifo_ok key q (hold_of t key)"
      using tq_ok_fifo [OF that, of key] fifo_ok_mset [OF mm] by blast
    then have "tq_ok (put_queue t key q)"
      by (intro tq_ok_elsewhere [OF that elsewhere_prims(1)]) (simp add: tq_view)
    moreover have "balance (put_queue t key q) k = balance t k" for k
      using ids_at_mset [OF mm] by (simp add: balance_def tq_view)
    ultimately show ?thesis
      using that m by (simp add: moveEntry_edit_def edit_ok_def adm_view)
  qed
  show ?thesis
  proof (cases "findQueuedEntry s i")
    case None
    then show ?thesis using assms by (simp add: moveEntry_def edit_ok_refl)
  next
    case (Some r)
    then show ?thesis
      using suspended_edit_ok [OF assms edit] by (cases r) (simp add: moveEntry_def)
  qed
qed

lemma pause_entry_simps:
  "keyFor (pause_entry s key e p) = keyFor e" "en_tag (pause_entry s key e p) = en_tag e"
  "en_held e \<Longrightarrow> en_held (pause_entry s key e p)"
  by (auto simp: pause_entry_def Let_def heldByQueue_def split: option.splits)

lemma pause_entry_known:
  assumes "reason_known e (hold_of s key)" shows "reason_known (pause_entry s key e p) (hold_of s key)"
proof (cases "truthy (holdReasonFor s key)")
  case None
  then show ?thesis using assms by (auto simp: pause_entry_def Let_def heldByQueue_def reason_known_def)
next
  case (Some r)
  from holdReasonFor_hold [OF truthy_Some [OF this]] assms Some show ?thesis
    by (auto simp: pause_entry_def Let_def heldByQueue_def reason_known_def or_else_def)
qed

lemma setEntryPaused_ok: assumes "tq_ok s" shows "edit_ok s (fst (setEntryPaused s i p))"
proof -
  have edit: "edit_ok t (fst (setEntryPaused_edit t key i p))" if ok: "tq_ok t" for t key
  proof (cases "find_index (\<lambda>e. en_id e = i) (queue_of t key)")
    case None
    then show ?thesis using ok by (simp add: setEntryPaused_edit_def Let_def edit_ok_refl del: find_index_None)
  next
    case (Some n)
    let ?e = "queue_of t key ! n"
    have n: "n < length (queue_of t key)" using Some by (simp add: find_index_Some)
    then have "reason_known ?e (hold_of t key)" using fifo_reason_known [OF ok] nth_mem by blast
    then have "edit_ok t (put_queue t key ((queue_of t key)[n := pause_entry t key ?e p]))"
      by (intro replace_edit_ok [OF ok n] pause_entry_simps pause_entry_known)
    then show ?thesis using Some ok by (simp add: setEntryPaused_edit_def Let_def edit_ok_refl)
  qed
  show ?thesis
  proof (cases "findQueuedEntry s i")
    case None
    then show ?thesis using assms by (simp add: setEntryPaused_def edit_ok_refl)
  next
    case (Some r)
    then show ?thesis
      using suspended_edit_ok [OF assms edit] by (cases r) (simp add: setEntryPaused_def)
  qed
qed

lemma cancelEntry_ok:
  assumes "tq_ok s" shows "edit_ok s (fst (cancelEntryWithDisposition s i reason))"
proof -
  have "edit_ok s (fst (cancelEntry s i reason))"
  proof (cases "find_in_queues (queuedEntries s) i")
    case None
    then show ?thesis using assms by (simp add: cancelEntry_def edit_ok_refl)
  next
    case (Some r)
    obtain key n where r: "r = (key, n)" by fastforce
    note q = find_in_queues_queue [OF assms Some [unfolded r]]
    note t = take_entry [OF assms q(1)]
    have "edit_ok s (emit (dropSpentHold (set_or_drop_queue s key (remove_at n (queue_of s key))) key)
        (EvCancelled (queue_of s key ! n) reason))"
      using t by (auto simp: edit_ok_def emit_resolved adm_view)
    then show ?thesis
      by (auto simp: cancelEntry_def Some r Let_def edit_ok_def untouched_ok untouched_balance adm_view)
  qed
  then show ?thesis
    by (auto simp: cancelEntryWithDisposition_def split: prod.splits option.splits)
qed

lemma releaseHold_admissions: "admissions (fst (releaseHold s b t rel)) = admissions s"
  by (auto simp: releaseHold_def Let_def adm_view split: option.splits prod.splits)

lemma releaseHold_edit_ok: "tq_ok s \<Longrightarrow> edit_ok s (fst (releaseHold s b t rel))"
  by (simp add: edit_ok_def releaseHold_ok releaseHold_admissions)

end
