(* ===== verification/TurnQueueSafety.thy ===== *)
theory TurnQueueSafety
  imports TurnQueueEditsInv
begin

text \<open>
  The invariant of a run: FIFO and hold agree, no thread has two starts in flight, every flight
  is the one its thread's admission is for, and every accepted entry is queued, in flight or
  settled, once. It is preserved by every action, whatever the environment answers.
\<close>

subsection \<open>Flights and admissions\<close>

definition flight_fits :: "queue_admission \<Rightarrow> flight \<Rightarrow> bool" where
  "flight_fits adm f \<longleftrightarrow> (case fl_phase f of
     FlStarting \<Rightarrow> (\<exists>ts. adm = AdmStarting (fl_attempt f) StartKind ts)
   | FlSteering \<Rightarrow> (\<exists>ts. adm = AdmStarting (fl_attempt f) SteerKind ts)
   | FlAnnounced _ \<Rightarrow> (\<exists>k ts t out. adm = AdmAcknowledged (fl_attempt f) k ts t out))"

definition flights_ok :: "turn_queue \<Rightarrow> flight list \<Rightarrow> bool" where
  "flights_ok s fs \<longleftrightarrow> distinct (map fl_key fs)
     \<and> (\<forall>f\<in>set fs. fl_key f = keyFor (fl_entry f) \<and> \<not> en_held (fl_entry f)
          \<and> flight_fits (admission_of s (fl_key f)) f)"

definition out_entries :: "flight list \<Rightarrow> entry list" where
  "out_entries fs = map fl_entry (filter (\<lambda>f. \<not> (\<exists>b. fl_phase f = FlAnnounced b)) fs)"

definition world_ok :: "world \<Rightarrow> bool" where
  "world_ok w \<longleftrightarrow> tq_ok (w_queue w) \<and> flights_ok (w_queue w) (w_flights w)
     \<and> (\<forall>k. ids_at k (w_accepted w) = balance (w_queue w) k + ids_at k (out_entries (w_flights w)))"

lemma flight_has_admission: "flight_fits (admission_of s key) f \<Longrightarrow> map_has (admissions s) key"
  by (auto simp: flight_fits_def admission_of_def map_has_def split: flight_phase.splits option.splits)

lemma flights_ok_same: "admissions s' = admissions s \<Longrightarrow> flights_ok s' fs \<longleftrightarrow> flights_ok s fs"
  by (simp add: flights_ok_def admission_of_def)

lemma flights_ok_mono:
  assumes "flights_ok s fs" "\<And>f. f \<in> set fs \<Longrightarrow> flight_fits (admission_of s' (fl_key f)) f"
  shows "flights_ok s' fs"
  using assms by (simp add: flights_ok_def)

lemma flights_ok_add:
  assumes "flights_ok s fs" "\<not> map_has (admissions s) (fl_key f)"
    "admissions s' = map_set (admissions s) (fl_key f) adm" "flight_fits adm f"
    "fl_key f = keyFor (fl_entry f)" "\<not> en_held (fl_entry f)"
  shows "flights_ok s' (fs @ [f])"
proof -
  have other: "fl_key g \<noteq> fl_key f" if "g \<in> set fs" for g
    using that assms(1,2) flight_has_admission unfolding flights_ok_def by metis
  have "admission_of s' k = (if k = fl_key f then adm else admission_of s k)" for k
    by (simp add: admission_of_def assms(3))
  then show ?thesis using assms other by (fastforce simp: flights_ok_def)
qed

lemma flights_ok_drop:
  assumes "flights_ok s fs" "n < length fs"
    "\<And>k. k \<noteq> fl_key (fs ! n) \<Longrightarrow> admission_of s' k = admission_of s k"
  shows "flights_ok s' (remove_at n fs)"
proof -
  have d: "distinct (map fl_key fs)" using assms(1) by (simp add: flights_ok_def)
  have ne: "fl_key g \<noteq> fl_key (fs ! n)" if "g \<in> set (remove_at n fs)" for g
  proof -
    have "fl_key (fs ! n) \<notin> set (remove_at n (map fl_key fs))"
      using notin_remove_at [OF d] assms(2) by simp
    then show ?thesis using that by (metis imageI list.set_map map_remove_at)
  qed
  have "distinct (map fl_key (remove_at n fs))" by (simp add: map_remove_at distinct_remove_at d)
  then show ?thesis
    using assms(1) ne assms(3) set_remove_at_subset [of n fs] by (auto simp: flights_ok_def)
qed

lemma flights_ok_update:
  assumes "flights_ok s fs" "n < length fs" "fl_key f = fl_key (fs ! n)" "fl_entry f = fl_entry (fs ! n)"
    "\<And>k. k \<noteq> fl_key f \<Longrightarrow> admission_of s' k = admission_of s k"
    "flight_fits (admission_of s' (fl_key f)) f"
  shows "flights_ok s' (fs[n := f])"
proof -
  have d: "distinct (map fl_key fs)" using assms(1) by (simp add: flights_ok_def)
  have m: "map fl_key (fs[n := f]) = map fl_key fs"
    using assms(2,3) by (simp add: map_update list_update_same_conv)
  show ?thesis
    unfolding flights_ok_def m
  proof (intro conjI d ballI)
    fix g assume "g \<in> set (fs[n := f])"
    then obtain j where j: "j < length fs" "g = fs[n := f] ! j" by (metis in_set_conv_nth length_list_update)
    show "fl_key g = keyFor (fl_entry g)" "\<not> en_held (fl_entry g)"
      using assms j by (cases "j = n"; simp add: flights_ok_def)+
    show "flight_fits (admission_of s' (fl_key g)) g"
    proof (cases "j = n")
      case True
      then show ?thesis using j assms(2,6) by simp
    next
      case False
      then have "fl_key (fs ! j) \<noteq> fl_key (fs ! n)"
        using d j(1) assms(2) by (metis length_map nth_eq_iff_index_eq nth_map)
      moreover have "flight_fits (admission_of s (fl_key (fs ! j))) (fs ! j)"
        using assms(1) nth_mem [OF j(1)] unfolding flights_ok_def by blast
      ultimately show ?thesis using False j assms(3,5) by simp
    qed
  qed
qed

lemma out_entries_remove:
  assumes "n < length fs"
  shows "ids_at k (out_entries fs) = ids_at k (out_entries (remove_at n fs))
     + (if \<exists>b. fl_phase (fs ! n) = FlAnnounced b then {#} else ids_at k [fl_entry (fs ! n)])"
proof -
  let ?P = "\<lambda>f. \<not> (\<exists>b. fl_phase f = FlAnnounced b)"
  have "filter ?P fs = filter ?P (take n fs) @ filter ?P [fs ! n] @ filter ?P (drop (Suc n) fs)"
    by (metis assms append_Cons append_Nil filter_append id_take_nth_drop)
  then show ?thesis by (simp add: out_entries_def remove_at_def)
qed

lemma out_entries_announce:
  assumes "n < length fs" "\<exists>b. fl_phase f = FlAnnounced b"
  shows "ids_at k (out_entries fs) = ids_at k (out_entries (fs[n := f]))
     + (if \<exists>b. fl_phase (fs ! n) = FlAnnounced b then {#} else ids_at k [fl_entry (fs ! n)])"
  using out_entries_remove [OF assms(1), of k] out_entries_remove [of n "fs[n := f]" k] assms by simp

subsection \<open>Steps that change the queue only\<close>

lemma world_ok_edit:
  assumes "world_ok w" "edit_ok (w_queue w) s" shows "world_ok (with_queue w s)"
  using assms flights_ok_same [of s "w_queue w"] by (simp add: world_ok_def with_queue_def edit_ok_def)

lemma with_queue_simps [simp]:
  "w_queue (with_queue w s) = s" "w_flights (with_queue w s) = w_flights w"
  "w_accepted (with_queue w s) = w_accepted w" "with_queue (with_queue w s) t = with_queue w t"
  "with_queue w (w_queue w) = w"
  by (simp_all add: with_queue_def)

lemma world_ok_with: "world_ok (with_queue w s) \<longleftrightarrow> tq_ok s \<and> flights_ok s (w_flights w)
     \<and> (\<forall>k. ids_at k (w_accepted w) = balance s k + ids_at k (out_entries (w_flights w)))"
  by (simp add: world_ok_def)

lemma world_ok_submitted:
  assumes "world_ok w" "sub_ok (w_queue w) r" shows "world_ok (submitted w th r)"
proof -
  obtain s sub where r: "r = (s, sub)" by fastforce
  show ?thesis
  proof (cases sub)
    case (SubStarting e a)
    have "flights_ok s (w_flights w @ [direct_flight e a th])"
      by (rule flights_ok_add [where s = "w_queue w" and adm = "AdmStarting a StartKind []"])
        (use assms r SubStarting in \<open>auto simp: sub_ok_def world_ok_def direct_flight_def flight_fits_def\<close>)
    then show ?thesis using assms r SubStarting
      by (simp add: submitted_def sub_ok_def world_ok_def add_flight_def accept_def with_queue_def
          out_entries_def direct_flight_def)
  next
    case (SubQueued e n)
    then show ?thesis using assms r flights_ok_same [of s "w_queue w"]
      by (simp add: submitted_def sub_ok_def world_ok_def accept_def with_queue_def)
  next
    case SubBusy
    then show ?thesis using assms r flights_ok_same [of s "w_queue w"]
      by (simp add: submitted_def sub_ok_def world_ok_def with_queue_def)
  qed
qed

lemma world_ok_grouped:
  assumes "world_ok w" "longer_ok (w_queue w) r \<or> merge_ok (w_queue w) r"
  shows "world_ok (submitted_grouped w r)"
proof -
  obtain s sub where r: "r = (s, sub)" by fastforce
  from assms(2) show ?thesis
  proof
    assume l: "longer_ok (w_queue w) r"
    then have sub: "sub_ok (w_queue w) r" by (simp add: longer_ok_def)
    have "submitted_grouped w r = submitted w ThenNothing r \<or> submitted_grouped w r = submitted w ThenUnsuspend r"
      using l r by (cases sub) (auto simp: submitted_grouped_def longer_ok_def)
    then show ?thesis using world_ok_submitted [OF assms(1) sub] by metis
  next
    assume m: "merge_ok (w_queue w) r"
    then obtain e n where "sub = SubQueued e n" "edit_ok (w_queue w) s"
      "length (queue_of s (keyFor e)) = length (queue_of (w_queue w) (keyFor e))"
      using r by (auto simp: merge_ok_def edit_ok_def)
    then show ?thesis using world_ok_edit [OF assms(1)] r by (simp add: submitted_grouped_def)
  qed
qed

lemma world_ok_accept:
  assumes "world_ok w" "tq_ok s" "admissions s = admissions (w_queue w)"
    "\<And>k. balance s k = balance (w_queue w) k + ids_at k es"
  shows "world_ok (accept (with_queue w s) es)"
  using assms flights_ok_same [of s "w_queue w"] by (simp add: world_ok_def accept_def with_queue_def)

lemma world_ok_held:
  assumes "world_ok w"
    "\<And>s h n. r = Inr (s, h, n) \<Longrightarrow> tq_ok s \<and> admissions s = admissions (w_queue w) \<and> (\<forall>k. balance s k =
       balance (w_queue w) k + (if findQueuedEntry (w_queue w) (en_id e) = None then ids_at k [e] else {#}))"
  shows "world_ok (submitted_held w e r)"
proof (cases r)
  case (Inl x)
  then show ?thesis using assms(1) by (simp add: submitted_held_def)
next
  case (Inr p)
  obtain s h n where p: "p = (s, h, n)" by (metis prod_cases3)
  note a = assms(2) [OF Inr [unfolded p]]
  show ?thesis
  proof (cases "findQueuedEntry (w_queue w) (en_id e) = None")
    case True
    then have "world_ok (accept (with_queue w s) [e])" using a by (intro world_ok_accept [OF assms(1)]) simp_all
    then show ?thesis using True Inr p by (simp add: submitted_held_def)
  next
    case False
    then have "world_ok (with_queue w s)" using a by (intro world_ok_edit [OF assms(1)]) (simp add: edit_ok_def)
    then show ?thesis using False Inr p by (auto simp: submitted_held_def)
  qed
qed

lemma world_ok_restored:
  "world_ok w \<Longrightarrow> restore_ok (w_queue w) r \<Longrightarrow> world_ok (restored w r)"
  unfolding restored_def restore_ok_def by (rule world_ok_accept) auto

subsection \<open>Dispatch\<close>

definition launch_kind :: "next_step \<Rightarrow> admission_kind" where
  "launch_kind step = (case step of NextSteer _ _ _ _ \<Rightarrow> SteerKind | _ \<Rightarrow> StartKind)"

fun step_attempt :: "next_step \<Rightarrow> nat" where
  "step_attempt NextNone = 0"
| "step_attempt (NextSteer e p h a) = a"
| "step_attempt (NextStart e p h a) = a"

lemma startNext_begin_admissions:
  assumes "tq_ok s" "startNext_begin env s key = (s', step)"
  shows "step = NextNone \<Longrightarrow> admissions s' = admissions s"
    "step \<noteq> NextNone \<Longrightarrow> \<not> map_has (admissions s) key
       \<and> admissions s' = map_set (admissions s) key (AdmStarting (step_attempt step) (launch_kind step) [])"
proof -
  have "(step = NextNone \<longrightarrow> admissions s' = admissions s) \<and> (step \<noteq> NextNone \<longrightarrow> \<not> map_has (admissions s) key
       \<and> admissions s' = map_set (admissions s) key (AdmStarting (step_attempt step) (launch_kind step) []))"
  proof (cases rule: startNext_begin_cases [of env s key])
    case none
    then show ?thesis using assms(2) by (auto simp: adm_view)
  next
    case (steer i e p h a s1)
    have "admissions s1 = admissions s" by (simp add: steer(10) adm_view)
    then show ?thesis
      using assms(2) steer(4,12) admission_of_free [of s key]
      by (auto simp: adm_view applyAdmission_def admission_of_def launch_kind_def)
  next
    case (start i e p h a s1 s2)
    have adm: "admissions s1 = admissions s" by (simp add: start(9) adm_view)
    have "keyFor e = key"
      using startNext_begin_spec(3) [OF assms(1) start(11), of e] by simp
    then have "admissions s2 = map_set (admissions s) key (AdmStarting a StartKind [])"
      using startEntry_begin_admission [of s1 e s2 a] start(4,10) adm by simp
    then show ?thesis using assms(2) start(4,11) by (auto simp: launch_kind_def)
  qed
  then show "step = NextNone \<Longrightarrow> admissions s' = admissions s"
    "step \<noteq> NextNone \<Longrightarrow> \<not> map_has (admissions s) key
       \<and> admissions s' = map_set (admissions s) key (AdmStarting (step_attempt step) (launch_kind step) [])"
    by blast+
qed

lemma world_ok_none:
  assumes "world_ok w" shows "world_ok (launch_none env w th)"
proof (cases th)
  case (ThenRelease b t)
  have "untouched (w_queue w) (fst (releaseThread_finish env (w_queue w) b t StartNone))"
    "admissions (fst (releaseThread_finish env (w_queue w) b t StartNone)) = admissions (w_queue w)"
    by (simp_all add: releaseThread_finish_def Let_def untouched_def)
  then have "edit_ok (w_queue w) (fst (releaseThread_finish env (w_queue w) b t StartNone))"
    using assms by (intro edit_ok_untouched) (simp_all add: world_ok_def)
  then show ?thesis using world_ok_edit [OF assms] by (simp add: launch_none_def ThenRelease)
qed (simp_all add: launch_none_def assms)

lemma world_ok_launch:
  assumes "world_ok w" "startNext_begin env (w_queue w) key = (s', step)"
  shows "world_ok (launch env w key th (s', step))"
proof -
  have ok: "tq_ok (w_queue w)" and fl: "flights_ok (w_queue w) (w_flights w)"
    using assms(1) by (simp_all add: world_ok_def)
  note sp = startNext_begin_spec [OF ok assms(2)]
  note ad = startNext_begin_admissions [OF ok assms(2)]
  have flight: "world_ok (add_flight (with_queue w s') f)"
    if "step_entry step = Some (fl_entry f)" "step \<noteq> NextNone" "fl_key f = key"
      "fl_attempt f = step_attempt step" "launch_kind step = SteerKind \<and> fl_phase f = FlSteering
        \<or> launch_kind step = StartKind \<and> fl_phase f = FlStarting" for f
  proof -
    have "flights_ok s' (w_flights w @ [f])"
      by (rule flights_ok_add [OF fl])
        (use that sp(3) ad(2) in \<open>auto simp: flight_fits_def\<close>)
    moreover have "ids_at k (out_entries (w_flights w @ [f])) = ids_at k (out_entries (w_flights w)) + ids_at k [fl_entry f]" for k
      using that(5) by (auto simp: out_entries_def)
    ultimately show ?thesis
      using sp(1,2) that(1) assms(1) by (simp add: world_ok_def add_flight_def with_queue_def entry_ids_def ac_simps)
  qed
  show ?thesis
  proof (cases step)
    case NextNone
    then have "edit_ok (w_queue w) s'" using sp ad(1) by (simp add: edit_ok_def entry_ids_def)
    then show ?thesis using world_ok_none [OF world_ok_edit [OF assms(1)]] NextNone by (simp add: launch_def)
  next
    case (NextSteer e p h a)
    then show ?thesis
      using flight [of "queued_flight key FlSteering e p h a th"]
      by (simp add: launch_def queued_flight_def launch_kind_def)
  next
    case (NextStart e p h a)
    then show ?thesis
      using flight [of "queued_flight key FlStarting e p h a th"]
      by (simp add: launch_def queued_flight_def launch_kind_def)
  qed
qed

lemma launch_with [simp]: "launch env (with_queue w s) key th r = launch env w key th r"
  by (simp add: launch_def add_flight_def with_queue_def split: prod.splits next_step.splits)

text \<open>An outcome that is buffered leaves the phase of the admission alone.\<close>

lemma terminal_keeps_fit:
  "flight_fits adm f \<Longrightarrow> flight_fits (transitionQueueAdmission adm (AdmTerminal t)) f"
  by (cases "fl_phase f") (auto simp: flight_fits_def)

lemma applyAdmission_of:
  "admission_of (applyAdmission s key ev) k =
     (if k = key then transitionQueueAdmission (admission_of s key) ev else admission_of s k)"
  by (auto simp: applyAdmission_def admission_of_def Let_def)

lemma world_ok_releasing:
  assumes "world_ok w" "tq_ok s0" "untouched (w_queue w) s0" "admissions s0 = admissions (w_queue w)"
  shows "world_ok (launch_release env w b t (releaseThread_begin env s0 b t turn st err))"
proof -
  let ?key = "buildThreadIdentityKey b t"
  let ?s1 = "settleRelease (s0\<lparr>releasingKeys := insert ?key (releasingKeys s0)\<rparr>) ?key turn st err"
  obtain s' r where rel: "releaseThread_begin env s0 b t turn st err = (s', r)" by fastforce
  have w0: "world_ok (with_queue w s0)"
    by (rule world_ok_edit [OF assms(1)]) (use assms in \<open>simp add: edit_ok_def untouchedD\<close>)
  show ?thesis
  proof (cases "\<exists>step. r = Releasing step")
    case True
    then obtain step where step: "r = Releasing step" by blast
    have starts: "startNext_begin env ?s1 ?key = (s', step)"
      using rel step by (auto simp: releaseThread_begin_def Let_def split: if_splits prod.splits)
    have "edit_ok s0 ?s1"
      using assms(2) by (simp add: edit_ok_def settleRelease_ok untouched_ok untouched_balance adm_view)
    then have "world_ok (with_queue w ?s1)" using world_ok_edit [OF w0, of ?s1] by simp
    then have "world_ok (launch env (with_queue w ?s1) ?key (ThenRelease b t) (s', step))"
      using starts by (intro world_ok_launch) simp_all
    then show ?thesis using rel step by (simp add: launch_release_def)
  next
    case False
    have "s' = s0 \<or> (\<exists>ev. s' = applyAdmission s0 ?key (AdmTerminal ev))
        \<or> s' = s0\<lparr>pendingReleaseKeys := insert ?key (pendingReleaseKeys s0)\<rparr>"
      using rel False by (auto simp: releaseThread_begin_def Let_def split: if_splits prod.splits)
    moreover have "world_ok (with_queue w (s0\<lparr>pendingReleaseKeys := p\<rparr>))" for p
      using w0 world_ok_edit [OF w0, of "s0\<lparr>pendingReleaseKeys := p\<rparr>"] assms(2)
      by (simp add: edit_ok_untouched untouched_releasing)
    moreover have "world_ok (with_queue w (applyAdmission s0 ?key (AdmTerminal ev)))" for ev
    proof -
      have fl: "flights_ok s0 (w_flights w)" using w0 by (simp add: world_ok_with)
      have "flight_fits (admission_of (applyAdmission s0 ?key (AdmTerminal ev)) (fl_key f)) f"
        if "f \<in> set (w_flights w)" for f
      proof -
        have "flight_fits (admission_of s0 (fl_key f)) f" using fl that unfolding flights_ok_def by blast
        then show ?thesis using terminal_keeps_fit by (auto simp: applyAdmission_of)
      qed
      then have "flights_ok (applyAdmission s0 ?key (AdmTerminal ev)) (w_flights w)"
        by (rule flights_ok_mono [OF fl])
      then show ?thesis using w0 by (simp add: world_ok_with untouched_ok untouched_balance)
    qed
    ultimately have "world_ok (with_queue w s')" using w0 by blast
    then show ?thesis using rel False by (auto simp: launch_release_def split: release_step.splits)
  qed
qed

lemma world_ok_follow:
  assumes "world_ok w" shows "world_ok (follow env w f result)"
proof (cases "fl_then f")
  case ThenNothing
  then show ?thesis using assms by (simp add: follow_def)
next
  case ThenUnsuspend
  have "edit_ok (w_queue w) (unsuspend (w_queue w) (fl_key f))"
    using assms by (intro edit_ok_untouched untouched_prims adm_view) (simp add: world_ok_def)
  then show ?thesis using world_ok_edit [OF assms] ThenUnsuspend by (simp add: follow_def)
next
  case (ThenRelease b t)
  let ?key = "buildThreadIdentityKey b t"
  let ?u = "(w_queue w)\<lparr>releasingKeys := releasingKeys (w_queue w) - {?key},
     pendingReleaseKeys := pendingReleaseKeys (w_queue w) - {?key}\<rparr>"
  have ok: "tq_ok (w_queue w)" using assms by (simp add: world_ok_def)
  have "edit_ok (w_queue w) ?u" by (rule edit_ok_untouched [OF ok untouched_releasing(3)]) simp
  then have plain: "world_ok (with_queue w ?u)" by (rule world_ok_edit [OF assms])
  have again: "world_ok (launch_release env w b t (releaseThread_begin env ?u b t None None None))"
    by (rule world_ok_releasing [OF assms]) (use ok in \<open>simp_all add: untouched_ok untouched_releasing\<close>)
  have "launch_release env w b t (releaseThread_finish env (w_queue w) b t result) =
      (if ?key \<in> pendingReleaseKeys (w_queue w) \<and> result = StartBlocked
       then launch_release env w b t (releaseThread_begin env ?u b t None None None) else with_queue w ?u)"
    by (simp add: releaseThread_finish_def Let_def) (simp add: launch_release_def)
  then show ?thesis using plain again by (simp add: follow_def ThenRelease)
qed

subsection \<open>Answers\<close>

text \<open>An attempt that ends: its flight goes, and only its thread's admission may have changed.\<close>

lemma world_ok_ended:
  assumes "world_ok w" "n < length (w_flights w)" "tq_ok s"
    "\<And>k. k \<noteq> fl_key (w_flights w ! n) \<Longrightarrow> admission_of s k = admission_of (w_queue w) k"
    "\<And>k. balance s k = balance (w_queue w) k
       + (if \<exists>b. fl_phase (w_flights w ! n) = FlAnnounced b then {#} else ids_at k [fl_entry (w_flights w ! n)])"
  shows "world_ok (drop_flight (with_queue w s) n)"
proof -
  have "flights_ok s (remove_at n (w_flights w))"
    by (rule flights_ok_drop [where s = "w_queue w"]) (use assms in \<open>simp_all add: world_ok_def\<close>)
  moreover have "ids_at k (w_accepted w) = balance s k + ids_at k (out_entries (remove_at n (w_flights w)))" for k
    using assms(1,5) out_entries_remove [OF assms(2), of k] by (simp add: world_ok_def ac_simps)
  ultimately show ?thesis using assms(3) by (simp add: world_ok_def drop_flight_def with_queue_def)
qed

lemma settle_admission:
  "admission_of (startEntry_settle s key a) k =
     (if k = key then transitionQueueAdmission (admission_of s key) (AdmSettle a) else admission_of s k)"
  by (simp add: startEntry_settle_def scheduleDrain_def applyAdmission_of)
    (simp add: admission_of_def applyAdmission_def Let_def)

lemma admission_of_same: "admissions s' = admissions s \<Longrightarrow> admission_of s' k = admission_of s k"
  by (simp add: admission_of_def)

lemma rejected_admission:
  "k \<noteq> keyFor e \<Longrightarrow> admission_of (startEntry_rejected s e a err d) k = admission_of s k"
  by (auto simp: startEntry_rejected_def Let_def settle_admission adm_view intro!: admission_of_same)

lemma started_admission:
  "k \<noteq> keyFor e \<Longrightarrow> admission_of (startEntry_started s e a early) k = admission_of s k"
  by (auto simp: startEntry_started_def Let_def settle_admission adm_view split: option.splits
      intro!: admission_of_same)

lemma acknowledged_admission:
  assumes "startEntry_acknowledged s e a t = (s', r)"
  shows "k \<noteq> keyFor e \<Longrightarrow> admission_of s' k = admission_of s k"
    "r = Some early \<Longrightarrow> admission_of s' (keyFor e) = transitionQueueAdmission (admission_of s (keyFor e)) (AdmAcknowledge a t)"
proof -
  have same: "admission_of (u\<lparr>runningEntries := x\<rparr>) j = admission_of u j"
    "admission_of (emit (rememberAdmittedEntry u i tt) ev) j = admission_of u j" for u x i tt ev j
    by (auto intro!: admission_of_same simp: adm_view)
  show "k \<noteq> keyFor e \<Longrightarrow> admission_of s' k = admission_of s k"
    using assms by (auto simp: startEntry_acknowledged_def Let_def same settle_admission applyAdmission_of
        split: if_splits)
  show "r = Some early \<Longrightarrow> admission_of s' (keyFor e) = transitionQueueAdmission (admission_of s (keyFor e)) (AdmAcknowledge a t)"
    using assms by (auto simp: startEntry_acknowledged_def Let_def same applyAdmission_of split: if_splits)
qed

lemma steer_finally_admission:
  "admission_of (steer_finally env s key e a d) k =
     (if k = key then transitionQueueAdmission (admission_of s key) (AdmSettle a) else admission_of s k)"
  by (auto simp: steer_finally_def Let_def scheduleDrain_def applyAdmission_of)
    (simp_all add: admission_of_def applyAdmission_def Let_def)

lemma steered_admission:
  "k \<noteq> key \<Longrightarrow> admission_of (startNext_steered env s key e p h a ans) k = admission_of s k"
proof -
  assume k: "k \<noteq> key"
  have same: "admission_of (emit (rememberAdmittedEntry u i tt) ev) k = admission_of u k"
    "admission_of (forgetAdmittedEntry u i) k = admission_of u k"
    "admission_of (put_queue u key q) k = admission_of u k" "admission_of (queueFor u key) k = admission_of u k"
    "admission_of (holdQueue u key r True) k = admission_of u k"
    "admission_of (scheduleDrain u key) k = admission_of u k" for u i tt ev q r
    by (auto intro!: admission_of_same simp: adm_view)
  show ?thesis
    using k by (auto simp: startNext_steered_def Let_def steer_finally_admission applyAdmission_of same
        split: steer_answer.splits option.splits)
qed

lemma flight_at:
  assumes "world_ok w" "n < length (w_flights w)" "f = w_flights w ! n"
  shows "fl_key f = keyFor (fl_entry f)" "\<not> en_held (fl_entry f)"
    "flight_fits (admission_of (w_queue w) (fl_key f)) f" "tq_ok (w_queue w)"
  using assms nth_mem [OF assms(2)] unfolding world_ok_def flights_ok_def by blast+

text \<open>An acknowledgement that reaches its own attempt is never taken for a superseded one.\<close>

lemma world_ok_answer_start:
  assumes w: "world_ok w" "n < length (w_flights w)" and f: "f = w_flights w ! n" "fl_phase f = FlStarting"
  shows "world_ok (answer_start env w n f t)"
proof -
  note at_f = flight_at [OF w f(1)]
  obtain ts where ts: "admission_of (w_queue w) (keyFor (fl_entry f)) = AdmStarting (fl_attempt f) StartKind ts"
    using at_f(1,3) f(2) by (auto simp: flight_fits_def)
  obtain s r where ack: "startEntry_acknowledged (w_queue w) (fl_entry f) (fl_attempt f) t = (s, r)" by fastforce
  have "r \<noteq> None"
    using ack ts by (auto simp: startEntry_acknowledged_def Let_def applyAdmission_of is_acknowledged_by_def
        split: if_splits)
  then obtain early where r: "r = Some early" by auto
  let ?f = "f\<lparr>fl_phase := FlAnnounced early\<rparr>"
  note sp = startEntry_acknowledged_spec [OF ack [unfolded r]]
  have "flights_ok s ((w_flights w)[n := ?f])"
  proof (rule flights_ok_update [where s = "w_queue w"])
    show "flights_ok (w_queue w) (w_flights w)" using w(1) by (simp add: world_ok_def)
    show "n < length (w_flights w)" by (rule w(2))
    show "fl_key ?f = fl_key (w_flights w ! n)" "fl_entry ?f = fl_entry (w_flights w ! n)" using f by simp_all
    show "admission_of s k = admission_of (w_queue w) k" if "k \<noteq> fl_key ?f" for k
      using acknowledged_admission(1) [OF ack] that at_f(1) by simp
    show "flight_fits (admission_of s (fl_key ?f)) ?f"
      using acknowledged_admission(2) [OF ack r] at_f(1) ts by (simp add: flight_fits_def)
  qed
  moreover have "ids_at k (w_accepted w) = balance s k + ids_at k (out_entries ((w_flights w)[n := ?f]))" for k
    using w(1) sp(2) [of k] out_entries_announce [OF w(2), of ?f k] f by (simp add: world_ok_def ac_simps)
  ultimately show ?thesis
    using sp(1) at_f(4) ack r by (simp add: answer_start_def world_ok_def)
qed

lemma world_ok_answer_reject:
  assumes w: "world_ok w" "n < length (w_flights w)" and f: "f = w_flights w ! n" "fl_phase f = FlStarting"
  shows "world_ok (answer_reject env w n f err)"
proof -
  note at_f = flight_at [OF w f(1)]
  have "world_ok (drop_flight (with_queue w
      (startNext_rejected (w_queue w) (fl_key f) (fl_entry f) (fl_previous f) (fl_attempt f) err)) n)"
    by (rule world_ok_ended [OF w])
      (use startNext_rejected_spec [OF at_f(4) at_f(1) [symmetric] at_f(2)] f at_f(1) in
        \<open>auto simp: startNext_rejected_def admission_of_same [OF admissions_release(3)] rejected_admission\<close>)
  moreover have "world_ok (drop_flight (with_queue w
      (startEntry_rejected (w_queue w) (fl_entry f) (fl_attempt f) err False)) n)"
    by (rule world_ok_ended [OF w])
      (use startEntry_rejected_ok [OF at_f(4)] startEntry_rejected_balance f at_f(1) in
        \<open>auto simp: rejected_admission\<close>)
  ultimately show ?thesis by (simp add: answer_reject_def world_ok_follow)
qed

lemma world_ok_answer_steer:
  assumes w: "world_ok w" "n < length (w_flights w)" and f: "f = w_flights w ! n" "fl_phase f = FlSteering"
  shows "world_ok (answer_steer env w n f ans)"
proof -
  note at_f = flight_at [OF w f(1)]
  have "is_starting_by (admission_of (w_queue w) (fl_key f)) (fl_attempt f)"
    using at_f(3) f(2) by (auto simp: flight_fits_def is_starting_by_def)
  note sp = startNext_steered_spec [OF at_f(4) at_f(1) [symmetric] at_f(2) this]
  have "world_ok (drop_flight (with_queue w
      (startNext_steered env (w_queue w) (fl_key f) (fl_entry f) (fl_previous f) (fl_holdRevision f) (fl_attempt f) ans)) n)"
    by (rule world_ok_ended [OF w]) (use sp f in \<open>auto simp: steered_admission\<close>)
  then show ?thesis by (simp add: answer_steer_def world_ok_follow)
qed

lemma world_ok_answer_steer_error:
  assumes w: "world_ok w" "n < length (w_flights w)" and f: "f = w_flights w ! n" "fl_phase f = FlSteering"
  shows "world_ok (drop_flight (with_queue w
    (startNext_steer_rejected env (w_queue w) (fl_key f) (fl_entry f) (fl_previous f) (fl_attempt f) err)) n)"
proof -
  note at_f = flight_at [OF w f(1)]
  show ?thesis
    by (rule world_ok_ended [OF w])
      (use startNext_steer_rejected_spec [OF at_f(4) at_f(1) [symmetric] at_f(2)] f in
        \<open>auto simp: startNext_steer_rejected_def admission_of_same [OF admissions_release(3)] steer_finally_admission\<close>)
qed

lemma world_ok_answer_published:
  assumes w: "world_ok w" "n < length (w_flights w)" and f: "f = w_flights w ! n" "fl_phase f = FlAnnounced early"
  shows "world_ok (drop_flight (with_queue w
    (startEntry_started (w_queue w) (fl_entry f) (fl_attempt f) early)) n)"
proof -
  note at_f = flight_at [OF w f(1)]
  show ?thesis
    by (rule world_ok_ended [OF w])
      (use startEntry_started_ok [OF at_f(4)] f at_f(1) in \<open>auto simp: started_admission\<close>)
qed

lemma world_ok_answer:
  assumes "world_ok w" shows "world_ok (answer env w n ans)"
proof (cases "n < length (w_flights w)")
  case True
  note lem = world_ok_answer_start [OF assms True refl] world_ok_answer_reject [OF assms True refl]
    world_ok_answer_steer [OF assms True refl]
    world_ok_follow [OF world_ok_answer_steer_error [OF assms True refl]]
    world_ok_follow [OF world_ok_answer_published [OF assms True refl]]
  show ?thesis
    using True assms lem
    by (cases "fl_phase (w_flights w ! n)"; cases ans) (simp_all add: answer_def Let_def)
next
  case False
  then show ?thesis using assms by (simp add: answer_def)
qed

lemma drainAll_ok: "tq_ok s \<Longrightarrow> edit_ok s (drainAll s)"
proof -
  have "tq_ok s \<Longrightarrow> edit_ok s (foldl scheduleDrain s ks)" for ks
  proof (induction ks arbitrary: s)
    case (Cons k ks)
    then have d: "edit_ok s (scheduleDrain s k)"
      by (simp add: edit_ok_untouched untouched_prims adm_view)
    then have "edit_ok (scheduleDrain s k) (foldl scheduleDrain (scheduleDrain s k) ks)"
      by (intro Cons.IH) (simp add: edit_ok_def)
    then show ?case using edit_ok_trans [OF d] by simp
  qed (simp add: edit_ok_refl)
  then show "tq_ok s \<Longrightarrow> edit_ok s (drainAll s)" by (simp add: drainAll_def)
qed

lemma world_ok_retry:
  assumes "world_ok w" shows "world_ok (retried env w (releaseEntry_begin env (w_queue w) i))"
proof -
  have ok: "tq_ok (w_queue w)" using assms by (simp add: world_ok_def)
  obtain s r where rel: "releaseEntry_begin env (w_queue w) i = (s, r)" by fastforce
  have qf: "edit_ok (w_queue w) (queueFor (w_queue w) key)" for key
    using queueFor_ok [OF ok] by (simp add: edit_ok_def adm_view)
  show ?thesis
  proof (cases r)
    case (Inl x)
    then have "edit_ok (w_queue w) s"
      using rel qf edit_ok_refl [OF ok]
      by (auto simp: releaseEntry_begin_def Let_def split: option.splits if_splits prod.splits)
    then show ?thesis using world_ok_edit [OF assms] rel Inl by (simp add: retried_def)
  next
    case (Inr p)
    obtain key step where p: "p = (key, step)" by fastforce
    obtain e pos where fq: "findQueuedEntry (w_queue w) i = Some (e, key, pos)"
      using rel Inr p
      by (auto simp: releaseEntry_begin_def Let_def split: option.splits if_splits prod.splits)
    define k where "k = keyFor e"
    have starts: "startNext_begin env
        (fst (withDispatchSuspended (queueFor (w_queue w) key) k (\<lambda>t. (clearQueueHold t key, ())))) key = (s, step)"
      using rel Inr p fq
      by (auto simp: releaseEntry_begin_def Let_def k_def split: if_splits prod.splits)
    have clear: "edit_ok t (fst (clearQueueHold t key, ()))" if "tq_ok t" for t
      using clearQueueHold_spec [OF that] by (simp add: edit_ok_def adm_view)
    have "edit_ok (w_queue w) (fst (withDispatchSuspended (queueFor (w_queue w) key) k (\<lambda>t. (clearQueueHold t key, ()))))"
      using edit_ok_trans [OF qf suspended_edit_ok [OF queueFor_ok [OF ok] clear]] by blast
    from world_ok_launch [OF world_ok_edit [OF assms this]] starts
    show ?thesis using rel Inr p by (simp add: retried_def)
  qed
qed

theorem queue_do_ok:
  assumes "world_ok w" "fresh_input a" shows "world_ok (queue_do env w a)"
proof -
  have ok: "tq_ok (w_queue w)" using assms(1) by (simp add: world_ok_def)
  note ed = world_ok_edit [OF assms(1)]
  show ?thesis
  proof (cases a)
    case (ASubmit e)
    then show ?thesis using assms by (simp add: world_ok_submitted submit_ok [OF ok])
  next
    case (ASubmitIfIdle e)
    then show ?thesis using assms by (simp add: world_ok_submitted submitIfIdle_ok [OF ok])
  next
    case (AGroupedSteer e d)
    then show ?thesis using assms by (simp add: world_ok_grouped submitGroupedSteer_ok [OF ok])
  next
    case (ASteer e)
    then show ?thesis using assms by (simp add: world_ok_submitted submitSteer_ok [OF ok])
  next
    case (AHeld e reason)
    then show ?thesis using submitHeld_ok [OF ok] by (auto intro!: world_ok_held [OF assms(1)])
  next
    case (AProjectHeld e reason ph)
    then show ?thesis using submitProjectHeld_ok [OF ok] assms(2) by (auto intro!: world_ok_held [OF assms(1)])
  next
    case (ARestoreProjectHeld es)
    then show ?thesis using assms by (simp add: world_ok_restored restores_ok [OF ok])
  next
    case (ARestoreContinuations es)
    then show ?thesis using assms by (simp add: world_ok_restored restores_ok [OF ok])
  next
    case (ARestoreQueued es)
    then show ?thesis using assms by (simp add: world_ok_restored restores_ok [OF ok])
  next
    case (AGetQueued b t)
    then show ?thesis
      using queueFor_ok [OF ok] by (simp add: getQueuedEntries_def Let_def ed edit_ok_def adm_view)
  next
    case ADrainAll
    then show ?thesis by (simp add: ed drainAll_ok [OF ok])
  next
    case AClose
    then show ?thesis by (simp add: ed edit_ok_untouched [OF ok] untouched_prims) (simp add: close_queue_def ed edit_ok_untouched [OF ok] untouched_def)
  next
    case (AThreadDrain b t)
    then show ?thesis
      by (simp add: scheduleThreadDrain_def ed edit_ok_untouched [OF ok] untouched_prims adm_view)
  next
    case (ADrain key)
    let ?t = "(w_queue w)\<lparr>drainTimers := drainTimers (w_queue w) - {key}\<rparr>"
    obtain s step where st: "startNext_begin env ?t key = (s, step)" by fastforce
    have "edit_ok (w_queue w) ?t" by (rule edit_ok_untouched [OF ok untouched_releasing(4)]) simp
    then have "world_ok (launch env w key ThenNothing (s, step))"
      using world_ok_launch [OF ed, of ?t env key s step] st by simp
    then show ?thesis using ADrain assms(1) st by (simp add: fire_drain_def)
  next
    case (AReleaseHold b t rel)
    then show ?thesis by (simp add: ed releaseHold_edit_ok [OF ok])
  next
    case (ARelease b t turnId status err)
    then show ?thesis by (simp add: world_ok_releasing [OF assms(1) ok])
  qed (simp_all add: ed cancelEntry_ok [OF ok] moveEntry_ok [OF ok] setEntryPaused_ok [OF ok]
      input_title_ok [OF ok] replaceQueuedAgentInput_ok [OF ok] world_ok_retry [OF assms(1)]
      world_ok_answer [OF assms(1)])
qed

lemma world_ok_new: "world_ok world_new"
  by (simp add: world_ok_def world_new_def turn_queue_new_def tq_ok_def fifo_ok_def queue_of_def
      hold_of_def flights_ok_def balance_def out_entries_def)

lemma reachable_world_ok: "queue_reachable w \<Longrightarrow> world_ok w"
  by (induction rule: queue_reachable.induct) (auto intro: world_ok_new queue_do_ok)

end
