(* ===== verification/TurnQueueProps.thy ===== *)
theory TurnQueueProps
  imports TurnQueueSafety
begin

text \<open>
  What \<open>ThreadTurnQueue\<close> promises: no accepted message is lost or delivered twice, a thread has at
  most one start in flight, dispatch takes the first waiting
  entry, a refused start goes back to its place, a move passes no held entry, and a turn that ends
  before it is acknowledged leaves nothing running.
\<close>

subsection \<open>A run for the witnesses\<close>

definition demo_settings :: entry_settings where
  "demo_settings = \<lparr>set_executionMode = None, set_approvalPolicy = None, set_sandbox = None,
     set_model = None, set_collaborationMode = None, set_serviceTier = None, set_reasoningEffort = None,
     set_fastMode = None, set_automationRunId = None, set_automationName = None\<rparr>"

definition demo_entry :: "string \<Rightarrow> entry" where
  "demo_entry i = \<lparr>en_id = i, en_backend = ''codex'', en_threadId = ''t1'', en_origin = Manual,
     en_messageOrigin = None, en_queuedSteer = False, en_agentMessages = None,
     en_agentMessageOrigins = None, en_input = [TextItem ''hello''], en_settings = demo_settings,
     en_held = False, en_holdReason = None, en_paused = False, en_pauseRevision = None,
     en_projectHold = None, en_restartContinuation = False, en_title = None, en_createdAt = 0\<rparr>"

definition demo_env :: queue_env where
  "demo_env = \<lparr>isThreadActive = (\<lambda>_ _. False), isDispatchHeld = (\<lambda>_ _ _ _. False),
     canSteerThread = (\<lambda>_. False), hasSteerTurn = False, env_now = 0\<rparr>"

text \<open>Three messages; the first turn runs and ends, the second is started and refused.\<close>

definition demo_actions :: "queue_action list" where
  "demo_actions = [ASubmit (demo_entry ''a''), ASubmit (demo_entry ''b''), ASubmit (demo_entry ''c''),
      AAnswer 0 (AnsTurn ''turn-1''), AAnswer 0 AnsPublished,
      ARelease ''codex'' ''t1'' (Some ''turn-1'') (Some ''turn/completed'') None]"

definition demo_world :: world where
  "demo_world = foldl (queue_do demo_env) world_new demo_actions"

lemma reachable_run: "queue_reachable w \<Longrightarrow> list_all fresh_input as \<Longrightarrow> queue_reachable (foldl (queue_do env) w as)"
proof (induction as arbitrary: w)
  case (Cons a as)
  then have "queue_reachable (queue_do env w a)" by (intro reach_step) simp_all
  then show ?case using Cons by simp
qed simp

lemma demo_world_reachable: "queue_reachable demo_world"
  unfolding demo_world_def by (rule reachable_run [OF reach_new]) (simp add: demo_actions_def demo_entry_def)

subsection \<open>Entries\<close>

text \<open>
  C1: Conservation. At every moment of every run, each entry a thread's queue has accepted is in
  exactly one place, under the id and continuation mark it was accepted with: waiting in the FIFO,
  in flight to the backend, or settled by one started, failed or cancelled event. So no message is lost and none is delivered twice, whatever the order
  of submissions, edits, holds, releases, backend answers and drains.
\<close>

theorem entries_accounted:
  assumes "queue_reachable w"
  shows "ids_at key (w_accepted w)
    = ids_at key (queue_of (w_queue w) key) + ids_at key (out_entries (w_flights w))
      + resolved_of (eventLog (w_queue w)) key"
  using reachable_world_ok [OF assms] by (simp add: world_ok_def balance_def ac_simps)

theorem entries_accounted_witness:
  "ids_at ''codex:t1'' (w_accepted demo_world) = {#(''a'', False), (''b'', False), (''c'', False)#}
   \<and> ids_at ''codex:t1'' (queue_of (w_queue demo_world) ''codex:t1'')
      + ids_at ''codex:t1'' (out_entries (w_flights demo_world))
      + resolved_of (eventLog (w_queue demo_world)) ''codex:t1'' = {#(''a'', False), (''b'', False), (''c'', False)#}"
proof -
  have "map en_tag (filter (\<lambda>e. keyFor e = ''codex:t1'') (w_accepted demo_world))
      = [(''a'', False), (''b'', False), (''c'', False)]"
    by code_simp
  then have "ids_at ''codex:t1'' (w_accepted demo_world)
      = {#(''a'', False), (''b'', False), (''c'', False)#}" by (simp add: ids_at_def)
  then show ?thesis using entries_accounted [OF demo_world_reachable, of "''codex:t1''"] by simp
qed

text \<open>
  C2: One start per thread. No two backend calls of the same thread are in flight at once, and each
  is the attempt that its thread's admission is waiting for, so the answer to it is never ignored.
\<close>

theorem one_flight_per_thread:
  assumes "queue_reachable w"
  shows "distinct (map fl_key (w_flights w))
    \<and> (\<forall>f\<in>set (w_flights w). fl_key f = keyFor (fl_entry f)
         \<and> flight_fits (admission_of (w_queue w) (fl_key f)) f)"
  using reachable_world_ok [OF assms] unfolding world_ok_def flights_ok_def by blast

theorem one_flight_per_thread_witness:
  "map fl_key (w_flights demo_world) = [''codex:t1'']
   \<and> flight_fits (admission_of (w_queue demo_world) ''codex:t1'') (hd (w_flights demo_world))"
proof -
  have f: "map fl_key (w_flights demo_world) = [''codex:t1'']" by code_simp
  then obtain g where "w_flights demo_world = [g]" "fl_key g = ''codex:t1''" by auto
  then show ?thesis using one_flight_per_thread [OF demo_world_reachable] f by auto
qed

subsection \<open>Dispatch\<close>

text \<open>
  C3: What dispatch may start. When \<open>startNext\<close> hands an entry to the backend, every entry ahead
  of it is paused, the entry itself is neither paused nor held, no gate holds its dispatch, nothing
  of the thread is in flight or being edited, and, unless it is a steer the backend can take now,
  no turn of the thread is running.
\<close>

theorem dispatch_guards:
  assumes "startNext_begin env s key = (s', step)" "step_entry step = Some e"
  shows "\<exists>i < length (queue_of s key). e = queue_of s key ! i \<and> \<not> en_paused e \<and> \<not> en_held e
    \<and> (\<forall>j<i. en_paused (queue_of s key ! j)) \<and> queue_of s' key = remove_at i (queue_of s key)
    \<and> \<not> map_has (admissions s) key \<and> \<not> map_has (dispatchSuspensions s) key
    \<and> \<not> entry_dispatch_held env e
    \<and> (en_queuedSteer e \<and> canSteerThread env e \<or> \<not> map_has (runningEntries s) key \<and> \<not> entry_active env e)"
proof -
  have wait: "i < length (queue_of s key) \<and> \<not> en_paused (queue_of s key ! i) \<and> (\<forall>j<i. en_paused (queue_of s key ! j))"
    if "nextWaitingIndex (queue_of s key) = Some i" for i
    using that by (auto simp: nextWaitingIndex_def find_index_Some)
  show ?thesis
  proof (cases rule: startNext_begin_cases [of env s key])
    case none
    then show ?thesis using assms by auto
  next
    case (steer i e' p h a s1)
    have q: "queue_of s' key = remove_at i (queue_of s key)"
      using steer(10,12) assms(1) by (auto simp: tq_view)
    show ?thesis
      by (rule exI [of _ i]) (use wait [OF steer(1)] steer assms q in auto)
  next
    case (start i e' p h a s1 s2)
    have "queue_of s2 key = queue_of s1 key"
      using untouchedD(1) [OF startEntry_begin_untouched [of s1 e'], of key] start(10) by simp
    then have q: "queue_of s' key = remove_at i (queue_of s key)"
      using start(9,11) assms(1) by (auto simp: tq_view)
    show ?thesis
      by (rule exI [of _ i]) (use wait [OF start(1)] start assms q in auto)
  qed
qed

definition demo_paused :: world where
  "demo_paused = foldl (queue_do demo_env) world_new
     [ARestoreQueued [(demo_entry ''p'')\<lparr>en_paused := True\<rparr>, demo_entry ''q'']]"

theorem dispatch_guards_witness:
  "\<exists>i < length (queue_of (w_queue demo_paused) ''codex:t1'').
     en_id (queue_of (w_queue demo_paused) ''codex:t1'' ! i) = ''q''
     \<and> (\<forall>j<i. en_paused (queue_of (w_queue demo_paused) ''codex:t1'' ! j))"
proof -
  have c: "map_option en_id (step_entry (snd (startNext_begin demo_env (w_queue demo_paused) ''codex:t1''))) = Some ''q''"
    by code_simp
  then obtain e where e: "step_entry (snd (startNext_begin demo_env (w_queue demo_paused) ''codex:t1'')) = Some e"
    "en_id e = ''q''" by auto
  from dispatch_guards [OF surjective_pairing e(1)] e(2) show ?thesis by blast
qed

text \<open>
  A refused start loses nothing and reorders nothing. When the backend rejects the entry that
  \<open>startNext\<close> took, the FIFO holds the same entry ids in the same order as before it was taken,
  every entry of it is held, and the newest reason is the backend's error.
\<close>

theorem refused_start_restores_order:
  fixes err :: string
  assumes "tq_ok s" "distinct (map en_id (queue_of s key))"
    and "startNext_begin env s key = (s', NextStart e p h a)"
  defines "t \<equiv> startNext_rejected s' key e p a err"
  shows "map en_id (queue_of t key) = map en_id (queue_of s key)
    \<and> (\<forall>c\<in>set (queue_of t key). en_held c) \<and> holdReasonFor t key = Some err
    \<and> admission_of t key = AdmIdle"
proof (cases rule: startNext_begin_cases [of env s key])
  case (start i e' p' h' a' s1 s2)
  have eq: "e' = e" "p' = p" "a' = a" "s2 = s'" using start(11) assms(3) by simp_all
  have key: "keyFor e = key" using startNext_begin_spec(3) [OF assms(1,3), of e] by simp
  have q': "queue_of s' key = remove_at i (queue_of s key)"
    using untouchedD(1) [OF startEntry_begin_untouched [of s1 e'], of key] start(9,10) eq(4) by (simp add: tq_view)
  let ?r = "startEntry_rejected s' e a err True"
  let ?f = "forgetAdmittedEntry ?r (en_id e)"
  let ?b = "put_queue (queueFor ?f key) key (restoreAfter (queue_of (queueFor ?f key) key) e p)"
  let ?c = "emit (addHoldReason ?b key err) (EvBlocked e err)"
  have r: "queue_of ?r key = queue_of s' key"
    by (simp add: startEntry_rejected_def Let_def untouchedD [OF startEntry_settle_untouched] tq_view)
  have "queue_of ?c key = restoreAfter (remove_at i (queue_of s key)) e p" by (simp add: tq_view r q')
  also have "\<dots> = queue_of s key"
    using restoreAfter_takes_back [OF start(1) assms(2) start(3)] start(2) eq by simp
  finally have qc: "queue_of ?c key = queue_of s key" .
  have t: "t = holdQueue ?c key err True"
    by (simp add: t_def startNext_rejected_def startNext_failed_def Let_def)
  have ne: "queue_of ?c key \<noteq> []" using start(1) qc by (auto simp: nextWaitingIndex_def)
  obtain q where q: "queue_of t key = q" "hold_of t key = hold_of (addHoldReason ?c key err) key"
    "same_tags q (queue_of ?c key)" "\<forall>c\<in>set q. en_held c"
    unfolding t by (rule holdQueue_spec [OF ne, of err True]) blast
  have ids: "map en_id q = map en_id (queue_of s key)"
    using same_tags_map_ids [OF q(3)] qc by simp
  have "holdReasonFor t key = Some err"
    using q(2) by (simp add: holdReasonFor_def hold_of_def [symmetric] tq_view)
  moreover have "admission_of t key = AdmIdle"
  proof -
    have "admissions s1 = admissions s" by (simp add: start(9) adm_view)
    then have "admission_of s' key = AdmStarting a StartKind []"
      using startEntry_begin_admission [of s1 e' s2 a'] start(4,10) eq key by (simp add: admission_of_def)
    then have "admission_of ?r key = AdmIdle"
      by (simp add: startEntry_rejected_def Let_def settle_admission key admission_of_same [OF admissions_prims(9)])
    moreover have "admissions t = admissions ?r" unfolding t_def startNext_rejected_def by (rule admissions_release(3))
    ultimately show ?thesis by (simp add: admission_of_def)
  qed
  ultimately show ?thesis using q(1,4) ids by simp
qed (use assms(3) in auto)

definition demo_waiting :: world where
  "demo_waiting = foldl (queue_do demo_env) world_new
     [ARestoreQueued [(demo_entry ''p'')\<lparr>en_paused := True\<rparr>, demo_entry ''q'', demo_entry ''r'']]"

theorem refused_start_restores_order_witness:
  "\<exists>s' e p h a. startNext_begin demo_env (w_queue demo_waiting) ''codex:t1'' = (s', NextStart e p h a)
     \<and> map en_id (queue_of (startNext_rejected s' ''codex:t1'' e p a ''boom'') ''codex:t1'') = [''p'', ''q'', ''r'']"
proof -
  have "queue_reachable demo_waiting"
    unfolding demo_waiting_def by (rule reachable_run [OF reach_new]) (simp add: demo_entry_def)
  then have ok: "tq_ok (w_queue demo_waiting)" using reachable_world_ok by (simp add: world_ok_def)
  have ids: "map en_id (queue_of (w_queue demo_waiting) ''codex:t1'') = [''p'', ''q'', ''r'']" by code_simp
  have "case snd (startNext_begin demo_env (w_queue demo_waiting) ''codex:t1'') of NextStart _ _ _ _ \<Rightarrow> True | _ \<Rightarrow> False"
    by code_simp
  then obtain s' e p h a where st: "startNext_begin demo_env (w_queue demo_waiting) ''codex:t1'' = (s', NextStart e p h a)"
    by (cases "startNext_begin demo_env (w_queue demo_waiting) ''codex:t1''") (auto split: next_step.splits)
  from refused_start_restores_order [OF ok _ st, of "''boom''"] ids st show ?thesis by auto
qed

subsection \<open>Operator edits\<close>

lemma insert_at_append: "insert_at (length xs) x (xs @ ys) = xs @ x # ys"
  by (simp add: insert_at_def)

lemma find_index_prefix:
  assumes "\<forall>x\<in>set xs. \<not> p x" "ys = [] \<or> p (hd ys)"
  shows "or_else (find_index p (xs @ ys)) (length (xs @ ys)) = length xs"
proof (cases ys)
  case Nil
  then have "find_index p (xs @ ys) = None" using assms(1) by simp
  then show ?thesis using Nil by (simp add: or_else_def del: find_index_None)
next
  case (Cons y zs)
  then have "find_index p (xs @ ys) = Some (length xs)"
    using assms by (auto simp: find_index_Some nth_append)
  then show ?thesis by (simp add: or_else_def)
qed

text \<open>
  A move is the move the operator asked for, and passes nothing that must stay put. When
  \<open>moveEntry\<close> moves an entry, it lands directly in front of the named entry (or at the end of the
  FIFO), the entries it passes are neither held nor restart continuations, the entry itself is
  neither, and every other entry keeps its order.
\<close>

theorem move_passes_no_hold:
  assumes "move_within q i anchorId = (q', Moved)"
  shows "\<exists>xs e ys zs. en_id e = i \<and> \<not> blocks_passing e \<and> ys \<noteq> [] \<and> \<not> list_ex blocks_passing ys
    \<and> ((q = xs @ e # ys @ zs \<and> q' = xs @ ys @ e # zs
          \<and> (case anchorId of None \<Rightarrow> zs = [] | Some b \<Rightarrow> zs \<noteq> [] \<and> en_id (hd zs) = b))
      \<or> (q = xs @ ys @ e # zs \<and> q' = xs @ e # ys @ zs \<and> anchorId = Some (en_id (hd ys))))"
proof -
  obtain src where src: "find_index (\<lambda>e. en_id e = i) q = Some src"
    using assms by (auto simp: move_within_def split: option.splits)
  let ?e = "q ! src"
  have i: "src < length q" "en_id ?e = i" using src by (simp_all add: find_index_Some)
  obtain anchor where anchor: "(case anchorId of None \<Rightarrow> Some (length q)
      | Some b \<Rightarrow> find_index (\<lambda>c. en_id c = b) q) = Some anchor"
    and nb: "\<not> blocks_passing ?e"
    using assms src by (auto simp: move_within_def Let_def split: option.splits if_splits)
  have al: "anchor \<le> length q" "anchorId = None \<Longrightarrow> anchor = length q"
    "\<And>b. anchorId = Some b \<Longrightarrow> anchor < length q \<and> en_id (q ! anchor) = b"
    using anchor by (auto simp: find_index_Some split: option.splits)
  have q0: "q = take src q @ ?e # drop (Suc src) q" using i(1) by (rule id_take_nth_drop)
  show ?thesis
  proof (cases "src < anchor")
    case True
    let ?ys = "slice (src + 1) anchor q"
    have free: "\<not> list_ex blocks_passing ?ys" and d: "anchor - 1 \<noteq> src"
      and q': "q' = insert_at (anchor - 1) ?e (remove_at src q)"
      using assms src anchor True by (auto simp: move_within_def Let_def split: if_splits)
    have dr: "drop (Suc src) q = ?ys @ drop anchor q"
      using True al(1) append_take_drop_id [of "anchor - Suc src" "drop (Suc src) q"] by (simp add: slice_def)
    have "length ?ys = anchor - Suc src" using True al(1) by (simp add: slice_def)
    then have ne: "?ys \<noteq> []" using d True by auto
    have "remove_at src q = (take src q @ ?ys) @ drop anchor q" by (simp add: remove_at_def dr)
    moreover have "length (take src q @ ?ys) = anchor - 1"
      using True i(1) \<open>length ?ys = _\<close> by simp
    ultimately have q'': "q' = take src q @ ?ys @ ?e # drop anchor q"
      using insert_at_append [of "take src q @ ?ys" ?e "drop anchor q"] q' by simp
    have "case anchorId of None \<Rightarrow> drop anchor q = []
        | Some b \<Rightarrow> drop anchor q \<noteq> [] \<and> en_id (hd (drop anchor q)) = b"
      using al by (auto simp: hd_drop_conv_nth split: option.splits)
    moreover have "q = take src q @ ?e # ?ys @ drop anchor q" using q0 dr by simp
    ultimately show ?thesis using i(2) nb ne free q'' by blast
  next
    case False
    let ?ys = "slice anchor src q"
    have free: "\<not> list_ex blocks_passing ?ys" and d: "anchor \<noteq> src"
      and q': "q' = insert_at anchor ?e (remove_at src q)"
      using assms src anchor False by (auto simp: move_within_def Let_def split: if_splits)
    have lt: "anchor < src" using False d by simp
    have tk: "take src q = take anchor q @ ?ys"
      using lt take_add [of anchor "src - anchor" q] by (simp add: slice_def)
    have ne: "?ys \<noteq> []" using lt i(1) by (simp add: slice_def)
    have "hd ?ys = q ! anchor" using lt i(1) by (simp add: slice_def hd_drop_conv_nth)
    then have "anchorId = Some (en_id (hd ?ys))" using al lt i(1) by (cases anchorId) auto
    moreover have "q' = take anchor q @ ?e # ?ys @ drop (Suc src) q"
      using lt i(1) by (simp add: q' insert_at_def remove_at_def tk)
    moreover have "q = take anchor q @ ?ys @ ?e # drop (Suc src) q" using q0 tk by simp
    ultimately show ?thesis using i(2) nb ne free by blast
  qed
qed

theorem move_passes_no_hold_witness:
  "\<exists>xs e ys zs. en_id e = ''c'' \<and> ys \<noteq> []
     \<and> snd (move_within [demo_entry ''a'', demo_entry ''b'', demo_entry ''c''] ''c'' (Some ''b'')) = Moved
     \<and> (\<not> list_ex blocks_passing ys)
     \<and> (map demo_entry [''a'', ''b'', ''c''] = xs @ e # ys @ zs \<or> map demo_entry [''a'', ''b'', ''c''] = xs @ ys @ e # zs)"
proof -
  let ?m = "move_within [demo_entry ''a'', demo_entry ''b'', demo_entry ''c''] ''c'' (Some ''b'')"
  have m: "snd ?m = Moved" by code_simp
  then have "?m = (fst ?m, Moved)" by (metis prod.collapse)
  from move_passes_no_hold [OF this] m show ?thesis by auto
qed

text \<open>
  A held submission never passes a restart continuation. The entry \<open>submitHeld\<close> adds to a
  FIFO that is not held goes in front of the first entry that is no restart continuation, so the
  continuations that stood on top of the FIFO stay on top; afterwards every entry of the FIFO is
  held, and the given reason is the newest.
\<close>

theorem held_submission_behind_continuations:
  assumes "\<not> map_has (heldQueues s) (keyFor e)" "queue_of s (keyFor e) = cs @ rest"
    and "\<forall>c\<in>set cs. en_restartContinuation c" "rest = [] \<or> \<not> en_restartContinuation (hd rest)"
    and "submitHeld s e reason = Inr (s', h, n)" "findQueuedEntry s (en_id e) = None"
  shows "map en_id (queue_of s' (keyFor e)) = map en_id cs @ en_id e # map en_id rest
    \<and> (\<forall>c\<in>set (queue_of s' (keyFor e)). en_held c) \<and> holdReasonFor s' (keyFor e) = Some reason"
proof -
  define key where "key = keyFor e"
  let ?e = "e\<lparr>en_held := True, en_holdReason := Some reason\<rparr>"
  have k: "keyFor ?e = key" by (simp add: key_def)
  have idx: "held_insert_index (queueFor s key) key = length cs"
  proof -
    note f = find_index_prefix [of cs "\<lambda>e. \<not> en_restartContinuation e" rest]
    have "heldQueues (queueFor s key) = heldQueues s" by (simp add: queueFor_def put_queue_def)
    then show ?thesis
      using assms(1-4) f by (simp add: held_insert_index_def Let_def key_def [symmetric] tq_view)
  qed
  define sq where "sq = addHoldReason (queueFor s key) key reason"
  define sp where "sp = emit (put_queue sq key (insert_at (length cs) ?e (queue_of sq key)))
    (EvQueued ?e (length cs + 1) False)"
  have s': "s' = holdQueue sp key reason True"
    using assms(5,6) idx [unfolded key_def]
    by (auto simp: submitHeld_def Let_def key_def sq_def sp_def split: option.splits prod.splits)
  have q: "queue_of sp key = cs @ ?e # rest"
    using assms(2) by (simp add: sp_def sq_def tq_view key_def insert_at_def)
  then have ne: "queue_of sp key \<noteq> []" by simp
  obtain q' where q': "queue_of s' key = q'" "hold_of s' key = hold_of (addHoldReason sp key reason) key"
    "same_tags q' (queue_of sp key)" "\<forall>c\<in>set q'. en_held c"
    unfolding s' by (rule holdQueue_spec [OF ne, of reason True]) blast
  have "map en_id q' = map en_id (cs @ ?e # rest)"
    using same_tags_map_ids [OF q'(3)] q by simp
  moreover have "holdReasonFor s' key = Some reason"
    using q'(2) by (simp add: holdReasonFor_def hold_of_def [symmetric] tq_view)
  ultimately show ?thesis using q'(1,4) by (simp add: key_def)
qed

definition demo_continued :: turn_queue where
  "demo_continued = fst (restoreQueued (fst (restoreRestartContinuations turn_queue_new [demo_entry ''k'']))
     [demo_entry ''m''])"

theorem held_submission_behind_continuations_witness:
  "\<exists>s' h n. submitHeld demo_continued (demo_entry ''x'') ''offline'' = Inr (s', h, n)
     \<and> map en_id (queue_of s' ''codex:t1'') = [''k'', ''x'', ''m'']"
proof -
  let ?e = "demo_entry ''x''"
  let ?q = "queue_of demo_continued ''codex:t1''"
  have k: "keyFor ?e = ''codex:t1''" by code_simp
  have held: "\<not> map_has (heldQueues demo_continued) ''codex:t1''" by code_simp
  have fresh: "findQueuedEntry demo_continued (en_id ?e) = None" by code_simp
  have q: "map (\<lambda>c. (en_id c, en_restartContinuation c)) ?q = [(''k'', True), (''m'', False)]" by code_simp
  then obtain c r where cr: "?q = [c] @ [r]" "en_id c = ''k''" "en_id r = ''m''"
    "en_restartContinuation c" "\<not> en_restartContinuation r" by auto
  have "case submitHeld demo_continued ?e ''offline'' of Inr _ \<Rightarrow> True | Inl _ \<Rightarrow> False" by code_simp
  then obtain s' h n where sub: "submitHeld demo_continued ?e ''offline'' = Inr (s', h, n)"
    by (cases "submitHeld demo_continued ?e ''offline''") auto
  have "en_id ?e = ''x''" by (simp add: demo_entry_def)
  with held_submission_behind_continuations [OF held [folded k] cr(1) [folded k] _ _ sub fresh] cr sub k
  show ?thesis by auto
qed

subsection \<open>Outcomes that overtake the acknowledgement\<close>

lemma running_prims:
  "runningEntries (emit s ev) = runningEntries s"
  "runningEntries (put_queue s key q) = runningEntries s"
  "runningEntries (queueFor s key) = runningEntries s"
  "runningEntries (addHoldReason s key r) = runningEntries s"
  "runningEntries (rememberTerminal s key t) = runningEntries s"
  "runningEntries (rememberAdmittedEntry s i tt) = runningEntries s"
  "runningEntries (applyAdmission s key aev) = runningEntries s"
  by (simp_all add: emit_def put_queue_def queueFor_def addHoldReason_def rememberTerminal_def
      rememberAdmittedEntry_def applyAdmission_def Let_def)

lemma running_failure: "runningEntries (holdAfterTurnFailure s key err) = runningEntries s"
  using holdAfterTurnFailure_cases [of s key err]
  by (auto simp: holdQueue_def Let_def running_prims split: prod.splits)

text \<open>
  A turn that ends before its start is acknowledged does not block the thread. The buffered
  outcome is published after the start, no running entry is left for the finished turn, the
  admission is over, and a failed outcome holds what waits in the FIFO for review with the turn's
  own error.
\<close>

theorem early_outcome_leaves_nothing_running:
  assumes "admission_of s (keyFor e) = AdmStarting a StartKind ts"
    and "map_get ts t = Some out" "qt_turnId out = t" "startEntry_acknowledged s e a t = (s1, r)"
  shows "r = Some True \<and> runningEntries (startEntry_started s1 e a True) = runningEntries s
    \<and> \<not> map_has (admissions (startEntry_started s1 e a True)) (keyFor e)
    \<and> take (length (eventLog s) + 2) (eventLog (startEntry_started s1 e a True))
        = eventLog s @ [EvStarted e t, EvTerminal e (Some t) (qt_status out)]
    \<and> (qt_status out = Some TURN_FAILED \<and> queue_of s (keyFor e) \<noteq> [] \<longrightarrow>
         holdReasonFor (startEntry_started s1 e a True) (keyFor e)
           = Some (or_else (qt_errorMessage out) PREVIOUS_TURN_FAILED))"
proof -
  let ?key = "keyFor e"
  let ?ack = "applyAdmission s ?key (AdmAcknowledge a t)"
  have adm: "admission_of ?ack ?key = AdmAcknowledged a StartKind ts t (Some out)"
    using assms(1,2) by (simp add: applyAdmission_of)
  have s1: "s1 = emit (rememberAdmittedEntry ?ack (en_id e) (Some t)) (EvStarted e t)" and r: "r = Some True"
    using assms(4) adm by (simp_all add: startEntry_acknowledged_def Let_def is_acknowledged_by_def admission_terminal_def)
  have adm1: "admission_of s1 ?key = AdmAcknowledged a StartKind ts t (Some out)"
    using adm by (simp add: s1 admission_of_def adm_view)
  let ?pub = "emit (rememberTerminal s1 ?key t) (EvTerminal e (Some t) (qt_status out))"
  let ?held = "if qt_status out = Some TURN_FAILED then holdAfterTurnFailure ?pub ?key (qt_errorMessage out) else ?pub"
  have started: "startEntry_started s1 e a True = startEntry_settle ?held ?key a"
    using adm1 assms(3) by (simp add: startEntry_started_def Let_def is_acknowledged_by_def admission_terminal_def)
  have log1: "eventLog ?pub = eventLog s @ [EvStarted e t, EvTerminal e (Some t) (qt_status out)]"
    by (simp add: s1 tq_view)
  have held_log: "\<exists>evs. eventLog ?held = eventLog ?pub @ evs"
    by (auto simp: holdAfterTurnFailure_def holdQueue_def Let_def tq_view split: prod.splits)
  have run: "runningEntries ?held = runningEntries s"
    by (simp add: s1 running_prims running_failure)
  have settle: "runningEntries (startEntry_settle u ?key a) = runningEntries u"
    "eventLog (startEntry_settle u ?key a) = eventLog u"
    "holdReasonFor (startEntry_settle u ?key a) = holdReasonFor u" for u
    by (simp_all add: startEntry_settle_def scheduleDrain_def applyAdmission_def Let_def holdReasonFor_def fun_eq_iff)
  have over: "\<not> map_has (admissions (startEntry_settle ?held ?key a)) ?key"
  proof -
    have "admission_of ?held ?key = AdmAcknowledged a StartKind ts t (Some out)"
      using adm1 by (simp add: admission_of_def adm_view)
    then show ?thesis by (simp add: startEntry_settle_def scheduleDrain_def applyAdmission_def Let_def)
  qed
  have reason: "holdReasonFor (holdAfterTurnFailure u ?key err) ?key = Some (or_else err PREVIOUS_TURN_FAILED)"
    if q: "queue_of u ?key \<noteq> []" for u err
  proof -
    have hq: "holdReasonFor (holdQueue v ?key rs False) ?key = Some rs" if "queue_of v ?key \<noteq> []" for v rs
    proof -
      have "hold_of (holdQueue v ?key rs False) ?key = hold_of (addHoldReason v ?key rs) ?key"
        by (rule holdQueue_spec [OF that, of rs False]) blast
      then show ?thesis by (simp add: holdReasonFor_def hold_of_def [symmetric] tq_view)
    qed
    have "holdReasonFor (queueFor u ?key) ?key = holdReasonFor u ?key"
      by (simp add: holdReasonFor_def queueFor_def put_queue_def)
    then show ?thesis
      using hq [of u] hq [of "queueFor u ?key"] q by (simp add: holdAfterTurnFailure_def Let_def tq_view)
  qed
  have q: "queue_of ?pub ?key = queue_of s ?key" by (simp add: s1 tq_view)
  show ?thesis
    using r started run over log1 held_log reason [of ?pub "qt_errorMessage out"] q by (auto simp: settle)
qed

definition demo_overtaken :: turn_queue where
  "demo_overtaken = w_queue (foldl (queue_do demo_env) world_new
     [ASubmit (demo_entry ''a''), ASubmit (demo_entry ''b''),
      ARelease ''codex'' ''t1'' (Some ''turn-1'') (Some ''turn/failed'') (Some ''quota'')])"

theorem early_outcome_leaves_nothing_running_witness:
  "\<exists>s1 r. startEntry_acknowledged demo_overtaken (demo_entry ''a'') 0 ''turn-1'' = (s1, r)
     \<and> r = Some True
     \<and> holdReasonFor (startEntry_started s1 (demo_entry ''a'') 0 True) ''codex:t1'' = Some ''quota''"
proof -
  let ?e = "demo_entry ''a''"
  let ?out = "\<lparr>qt_turnId = ''turn-1'', qt_status = Some ''turn/failed'', qt_errorMessage = Some ''quota''\<rparr>"
  obtain s1 r where ack: "startEntry_acknowledged demo_overtaken ?e 0 ''turn-1'' = (s1, r)" by fastforce
  have k: "keyFor ?e = ''codex:t1''" by code_simp
  have adm: "admission_of demo_overtaken ''codex:t1'' = AdmStarting 0 StartKind [(''turn-1'', ?out)]" by code_simp
  have q: "queue_of demo_overtaken ''codex:t1'' \<noteq> []" by code_simp
  have get: "map_get [(''turn-1'', ?out)] ''turn-1'' = Some ?out" "qt_turnId ?out = ''turn-1''" by simp_all
  from early_outcome_leaves_nothing_running [OF adm [folded k] get ack] q k ack
  show ?thesis by (simp add: TURN_FAILED_def or_else_def)
qed

end
