(* ===== verification/RestartGate.thy ===== *)
theory RestartGate
  imports Complex_Main Prelude
begin

text \<open>
  The quiet-restart gate (main/app-server/restart-continuation-gate.ts): the phases between a quiet
  restart and the last continuation, the question whether the gate holds a queue entry, and the
  staggered dispatch plan. Clock readings are integer milliseconds, the deadline may carry a fraction; \<open>random i\<close> is the value that the
  \<open>i\<close>-th call of the random source returns.
\<close>

record continuation_schedule =
  rc_entryId :: string
  rc_threadKey :: string
  rc_dispatchAt :: int

datatype restart_gate =
    GateOpen
  | GateQuieting int
  | GateResuming "(string, continuation_schedule) jsmap" "(string, continuation_schedule) jsmap" rat

datatype restart_gate_event =
    GateQuiet int
  | GateRestore "continuation_schedule list" rat
  | GateSettled string
  | GateDeadline rat
  | GateRelease

definition restartContinuationSettles :: "string \<Rightarrow> bool" where
  "restartContinuationSettles eventType \<longleftrightarrow> eventType = ''started'' \<or> eventType = ''failed''
     \<or> eventType = ''cancelled'' \<or> eventType = ''blocked'' \<or> eventType = ''held''"

definition gate_file :: "(string, continuation_schedule) jsmap \<Rightarrow> continuation_schedule list \<Rightarrow>
    (string, continuation_schedule) jsmap" where
  "gate_file m items = foldl (\<lambda>m item. map_set m (rc_entryId item) item) m items"

fun transitionRestartGate :: "restart_gate \<Rightarrow> restart_gate_event \<Rightarrow> restart_gate" where
  "transitionRestartGate (GateQuieting t) (GateQuiet now) = GateQuieting t"
| "transitionRestartGate current (GateQuiet now) = GateQuieting now"
| "transitionRestartGate (GateQuieting t) (GateRestore items by_time) = GateQuieting t"
| "transitionRestartGate GateOpen (GateRestore items by_time) =
     (if gate_file [] items = [] then GateOpen
      else GateResuming (gate_file [] items) (gate_file [] items) by_time)"
| "transitionRestartGate (GateResuming pending scheduled releaseBy) (GateRestore items by_time) =
     (if gate_file pending items = [] then GateOpen
      else GateResuming (gate_file pending items) (gate_file scheduled items) (max releaseBy by_time))"
| "transitionRestartGate (GateResuming pending scheduled releaseBy) (GateSettled i) =
     (if \<not> map_has pending i then GateResuming pending scheduled releaseBy
      else if map_del pending i = [] then GateOpen
      else GateResuming (map_del pending i) scheduled releaseBy)"
| "transitionRestartGate (GateResuming pending scheduled releaseBy) (GateDeadline now) =
     (if releaseBy \<le> now then GateOpen else GateResuming pending scheduled releaseBy)"
| "transitionRestartGate (GateResuming pending scheduled releaseBy) GateRelease = GateOpen"
| "transitionRestartGate current event = current"

text \<open>\<open>restartEntryId\<close> is set only for a restart continuation's own entry.\<close>

definition restartGateHolds :: "restart_gate \<Rightarrow> string option \<Rightarrow> int \<Rightarrow> bool" where
  "restartGateHolds state restartEntryId now = (case state of
     GateOpen \<Rightarrow> False
   | GateQuieting _ \<Rightarrow> True
   | GateResuming _ scheduled _ \<Rightarrow>
       (case restartEntryId of None \<Rightarrow> True
        | Some i \<Rightarrow> (case map_get scheduled i of None \<Rightarrow> False | Some item \<Rightarrow> now < rc_dispatchAt item)))"

record dispatch_plan_options =
  dp_now :: int
  dp_batchSize :: "rat option"
  dp_firstDelayMs :: "rat option"
  dp_intervalMs :: "rat option"
  dp_jitterMs :: "rat option"
  dp_releaseGraceMs :: "rat option"

definition option_or :: "rat option \<Rightarrow> rat \<Rightarrow> rat" where
  "option_or v d = (case v of None \<Rightarrow> d | Some x \<Rightarrow> x)"

definition plan_batch :: "dispatch_plan_options \<Rightarrow> nat" where
  "plan_batch opts = nat (max 1 \<lfloor>option_or (dp_batchSize opts) 4\<rfloor>)"

definition plan_time :: "dispatch_plan_options \<Rightarrow> nat \<Rightarrow> rat \<Rightarrow> int" where
  "plan_time opts index r =
     round (of_int (dp_now opts)
       + max 0 (option_or (dp_firstDelayMs opts) 20000)
       + of_nat (index div plan_batch opts) * max 0 (option_or (dp_intervalMs opts) 45000)
       + min 1 (max 0 r) * max 0 (option_or (dp_jitterMs opts) 15000))"

definition planRestartDispatch ::
  "(nat \<Rightarrow> rat) \<Rightarrow> (string \<times> string) list \<Rightarrow> dispatch_plan_options \<Rightarrow> continuation_schedule list \<times> rat" where
  "planRestartDispatch random entries opts =
     (let schedule = map (\<lambda>(index, entryId, threadKey).
            \<lparr>rc_entryId = entryId, rc_threadKey = threadKey, rc_dispatchAt = plan_time opts index (random index)\<rparr>)
            (enumerate 0 entries);
          latest = foldl (\<lambda>latest item. max latest (rc_dispatchAt item)) (dp_now opts) schedule
      in (schedule, of_int latest + max 0 (option_or (dp_releaseGraceMs opts) 180000)))"

subsection \<open>What the phases guarantee\<close>

text \<open>While resuming, someone is pending, and every pending continuation has its scheduled time.\<close>

fun gate_ok :: "restart_gate \<Rightarrow> bool" where
  "gate_ok (GateResuming pending scheduled releaseBy) \<longleftrightarrow>
     pending \<noteq> [] \<and> (\<forall>i. map_has pending i \<longrightarrow> map_has scheduled i)"
| "gate_ok _ \<longleftrightarrow> True"

lemma map_set_not_Nil [simp]: "map_set m k v \<noteq> []"
  by (cases m) (auto split: if_splits)

lemma gate_file_has: "map_has (gate_file m items) i \<longleftrightarrow> map_has m i \<or> i \<in> rc_entryId ` set items"
  unfolding gate_file_def by (induction items arbitrary: m) auto

lemma gate_ok_step: "gate_ok g \<Longrightarrow> gate_ok (transitionRestartGate g ev)"
  by (induction g ev rule: transitionRestartGate.induct) (auto simp: gate_file_has)

definition gate_run :: "restart_gate \<Rightarrow> restart_gate_event list \<Rightarrow> restart_gate" where
  "gate_run g evs = foldl transitionRestartGate g evs"

lemma gate_ok_run: "gate_ok g \<Longrightarrow> gate_ok (gate_run g evs)"
  unfolding gate_run_def by (induction evs arbitrary: g) (auto intro: gate_ok_step)

lemma gate_run_Cons [simp]: "gate_run g (ev # evs) = gate_run (transitionRestartGate g ev) evs"
  by (simp add: gate_run_def)

lemma gate_open_settled: "gate_run GateOpen (map GateSettled is) = GateOpen"
  by (induction "is") (simp_all add: gate_run_def)

lemma gate_settle_all:
  "set (map_keys pending) \<subseteq> set is \<Longrightarrow> pending \<noteq> [] \<Longrightarrow>
   gate_run (GateResuming pending scheduled releaseBy) (map GateSettled is) = GateOpen"
proof (induction "is" arbitrary: pending)
  case Nil
  then show ?case by (cases pending) auto
next
  case (Cons i "is")
  show ?case
  proof (cases "map_has pending i")
    case False
    then have "set (map_keys pending) \<subseteq> set is" using Cons.prems(1) by (auto simp: map_has_key)
    then show ?thesis using Cons.IH Cons.prems(2) False by simp
  next
    case True
    have "set (map_keys (map_del pending i)) \<subseteq> set is"
      using Cons.prems(1) by (auto simp: map_keys_del)
    then show ?thesis using True Cons.IH gate_open_settled by simp
  qed
qed

text \<open>
  C4: The gate always opens. Whatever happened since it was open, a gate that is resuming opens as
  soon as each pending continuation has settled, in any order and with any other settlements in
  between, and it opens at its deadline even if none settles.
\<close>

theorem resuming_gate_opens:
  assumes "gate_run GateOpen evs = GateResuming pending scheduled releaseBy"
    and "set (map_keys pending) \<subseteq> set is" "releaseBy \<le> now"
  shows "gate_run GateOpen (evs @ map GateSettled is) = GateOpen
    \<and> transitionRestartGate (gate_run GateOpen evs) (GateDeadline now) = GateOpen"
proof -
  have "gate_ok (gate_run GateOpen evs)" by (rule gate_ok_run) simp
  then have "pending \<noteq> []" using assms(1) by simp
  moreover have "gate_run GateOpen (evs @ map GateSettled is) = gate_run (gate_run GateOpen evs) (map GateSettled is)"
    by (simp add: gate_run_def)
  ultimately show ?thesis using assms gate_settle_all by simp
qed

theorem resuming_gate_opens_witness:
  "\<exists>pending scheduled. gate_run GateOpen
       [GateRestore [\<lparr>rc_entryId = ''a'', rc_threadKey = ''x'', rc_dispatchAt = 5\<rparr>,
                     \<lparr>rc_entryId = ''b'', rc_threadKey = ''y'', rc_dispatchAt = 9\<rparr>] 20]
       = GateResuming pending scheduled 20
     \<and> gate_run GateOpen ([GateRestore [\<lparr>rc_entryId = ''a'', rc_threadKey = ''x'', rc_dispatchAt = 5\<rparr>,
                     \<lparr>rc_entryId = ''b'', rc_threadKey = ''y'', rc_dispatchAt = 9\<rparr>] 20]
         @ map GateSettled [''b'', ''c'', ''a'']) = GateOpen"
proof -
  let ?a = "\<lparr>rc_entryId = ''a'', rc_threadKey = ''x'', rc_dispatchAt = 5\<rparr>"
  let ?b = "\<lparr>rc_entryId = ''b'', rc_threadKey = ''y'', rc_dispatchAt = 9\<rparr>"
  have g: "gate_run GateOpen [GateRestore [?a, ?b] 20]
      = GateResuming [(''a'', ?a), (''b'', ?b)] [(''a'', ?a), (''b'', ?b)] 20"
    by (simp add: gate_file_def gate_run_def)
  have "set (map_keys [(''a'', ?a), (''b'', ?b)]) \<subseteq> set [''b'', ''c'', ''a'']" by simp
  from resuming_gate_opens [OF g this, of 20] g show ?thesis by blast
qed

subsection \<open>The dispatch plan\<close>

lemma plan_nth:
  assumes "index < length entries"
  shows "fst (planRestartDispatch random entries opts) ! index =
    \<lparr>rc_entryId = fst (entries ! index), rc_threadKey = snd (entries ! index),
     rc_dispatchAt = plan_time opts index (random index)\<rparr>"
  using assms by (simp add: planRestartDispatch_def Let_def nth_enumerate_eq split: prod.splits)

lemma plan_length: "length (fst (planRestartDispatch random entries opts)) = length entries"
  by (simp add: planRestartDispatch_def Let_def)

lemma foldl_max_ge:
  "x \<le> foldl (\<lambda>l item. max l (f item)) x xs \<and> (\<forall>i\<in>set xs. f i \<le> foldl (\<lambda>l item. max l (f item)) x xs)"
  for x :: int
  by (induction xs arbitrary: x) (auto, (meson max.bounded_iff order_trans)+)

lemma plan_release: "item \<in> set (fst (planRestartDispatch random entries opts)) \<Longrightarrow>
    of_int (rc_dispatchAt item) \<le> snd (planRestartDispatch random entries opts)"
proof -
  assume "item \<in> set (fst (planRestartDispatch random entries opts))"
  moreover define sch where "sch = fst (planRestartDispatch random entries opts)"
  moreover define latest where "latest = foldl (\<lambda>l item. max l (rc_dispatchAt item)) (dp_now opts) sch"
  ultimately have "rc_dispatchAt item \<le> latest"
    using foldl_max_ge [of "dp_now opts" rc_dispatchAt sch] by simp
  moreover have "snd (planRestartDispatch random entries opts) = of_int latest + max 0 (option_or (dp_releaseGraceMs opts) 180000)"
    by (simp add: planRestartDispatch_def Let_def latest_def sch_def)
  moreover have "(0::rat) \<le> max 0 (option_or (dp_releaseGraceMs opts) 180000)" by simp
  ultimately show ?thesis by (metis add_increasing2 of_int_le_iff)
qed

lemma plan_time_mono:
  assumes "i div plan_batch opts \<le> j div plan_batch opts" "r \<le> r'"
  shows "plan_time opts i r \<le> plan_time opts j r'"
  unfolding plan_time_def
  by (intro round_mono add_mono mult_right_mono order_refl) (use assms in \<open>auto simp: min_def max_def\<close>)

text \<open>
  The dispatch plan is fair. Each continuation is scheduled, in the order given; none starts
  before the first delay; when the jitter is no longer than the interval, no continuation of a
  later batch is scheduled before one of an earlier batch; and no scheduled time is after the
  deadline at which the gate opens regardless.
\<close>

theorem restart_plan_fair:
  assumes "max 0 (option_or (dp_jitterMs opts) 15000) \<le> max 0 (option_or (dp_intervalMs opts) 45000)"
    and "i < j" "j < length entries" "i div plan_batch opts < j div plan_batch opts"
    and "plan = planRestartDispatch random entries opts"
  shows "map rc_entryId (fst plan) = map fst entries
    \<and> round (of_int (dp_now opts) + max 0 (option_or (dp_firstDelayMs opts) 20000)) \<le> rc_dispatchAt (fst plan ! i)
    \<and> rc_dispatchAt (fst plan ! i) \<le> rc_dispatchAt (fst plan ! j)
    \<and> (\<forall>item\<in>set (fst plan). of_int (rc_dispatchAt item) \<le> snd plan)"
proof (intro conjI)
  note plan_def = assms(5)
  have "map rc_entryId (fst plan) ! n = map fst entries ! n" if "n < length entries" for n
    using that by (simp add: plan_def plan_nth plan_length)
  then show "map rc_entryId (fst plan) = map fst entries"
    by (intro nth_equalityI) (simp_all add: plan_def plan_length)
  let ?J = "max 0 (option_or (dp_jitterMs opts) 15000)" and ?I = "max 0 (option_or (dp_intervalMs opts) 45000)"
  let ?b = "plan_batch opts" and ?F = "max 0 (option_or (dp_firstDelayMs opts) 20000)"
  have t: "rc_dispatchAt (fst plan ! n) = plan_time opts n (random n)" if "n < length entries" for n
    using that by (simp add: plan_def plan_nth)
  have jit: "0 \<le> min 1 (max 0 r) * ?J" "min 1 (max 0 r) * ?J \<le> ?J" for r :: rat
    by (simp_all add: mult_left_le_one_le min_def)
  show "round (of_int (dp_now opts) + ?F) \<le> rc_dispatchAt (fst plan ! i)"
  proof -
    have "of_int (dp_now opts) + ?F \<le> of_int (dp_now opts) + ?F + of_nat (i div ?b) * ?I + min 1 (max 0 (random i)) * ?J"
      using jit(1) [of "random i"] by (simp add: add_nonneg_nonneg)
    then show ?thesis using t assms(2,3) by (simp add: plan_time_def round_mono)
  qed
  show "rc_dispatchAt (fst plan ! i) \<le> rc_dispatchAt (fst plan ! j)"
  proof -
    have "of_nat (i div ?b) + (1::rat) \<le> of_nat (j div ?b)"
      using assms(4) by (metis Suc_leI add.commute of_nat_Suc of_nat_le_iff)
    then have "(of_nat (i div ?b) + 1) * ?I \<le> of_nat (j div ?b) * ?I"
      by (rule mult_right_mono) simp
    then have "of_nat (i div ?b) * ?I + ?I \<le> of_nat (j div ?b) * ?I" by (simp add: algebra_simps)
    then have "of_nat (i div ?b) * ?I + min 1 (max 0 (random i)) * ?J \<le> of_nat (j div ?b) * ?I + min 1 (max 0 (random j)) * ?J"
      using jit(2) [of "random i"] jit(1) [of "random j"] assms(1) by linarith
    then show ?thesis using t assms(2,3) unfolding plan_time_def by (simp add: round_mono)
  qed
  show "\<forall>item\<in>set (fst plan). of_int (rc_dispatchAt item) \<le> snd plan"
    using plan_release by (auto simp: plan_def)
qed

definition demo_plan_options :: dispatch_plan_options where
  "demo_plan_options = \<lparr>dp_now = 0, dp_batchSize = Some 1, dp_firstDelayMs = None, dp_intervalMs = None,
     dp_jitterMs = None, dp_releaseGraceMs = None\<rparr>"

theorem restart_plan_fair_witness:
  "rc_dispatchAt (fst (planRestartDispatch (\<lambda>i. 1 / 2) [(''a'', ''x''), (''b'', ''y'')] demo_plan_options) ! 0)
     \<le> rc_dispatchAt (fst (planRestartDispatch (\<lambda>i. 1 / 2) [(''a'', ''x''), (''b'', ''y'')] demo_plan_options) ! 1)"
proof -
  have b: "plan_batch demo_plan_options = 1" by (simp add: plan_batch_def demo_plan_options_def option_or_def)
  show ?thesis
    using restart_plan_fair [where opts = demo_plan_options and i = 0 and j = 1
        and entries = "[(''a'', ''x''), (''b'', ''y'')]" and random = "\<lambda>i. 1 / 2", OF _ _ _ _ refl] b
    by (simp add: demo_plan_options_def option_or_def)
qed

text \<open>
  What the gate lets through while it resumes. An ordinary entry waits; a restored continuation
  waits for its own dispatch time and no longer, so at the plan's deadline no planned continuation
  is held.
\<close>

theorem planned_continuation_released:
  assumes "distinct (map fst entries)" "i < length entries"
    and "plan = planRestartDispatch random entries opts" "snd plan \<le> of_int now"
    and "gate_run GateOpen [GateRestore (fst plan) releaseBy] = g"
  shows "\<not> restartGateHolds g (Some (fst (entries ! i))) now
    \<and> restartGateHolds g None now
    \<and> (\<forall>t. restartGateHolds g (Some (fst (entries ! i))) t \<longleftrightarrow> t < rc_dispatchAt (fst plan ! i))"
proof -
  let ?s = "fst plan"
  have ids: "map rc_entryId ?s = map fst entries"
    using assms(3) by (intro nth_equalityI) (simp_all add: plan_nth plan_length)
  have len: "length ?s = length entries" using assms(3) by (simp add: plan_length)
  have filed: "distinct (map rc_entryId xs) \<Longrightarrow> n < length xs \<Longrightarrow>
      map_get (gate_file m xs) (rc_entryId (xs ! n)) = Some (xs ! n)" for xs n and m
  proof (induction xs arbitrary: m n)
    case (Cons x xs)
    have skip: "rc_entryId x \<notin> rc_entryId ` set ys \<Longrightarrow> map_get (gate_file m ys) (rc_entryId x) = map_get m (rc_entryId x)"
      for ys m unfolding gate_file_def by (induction ys arbitrary: m) auto
    have step: "gate_file m (x # xs) = gate_file (map_set m (rc_entryId x) x) xs" by (simp add: gate_file_def)
    show ?case
    proof (cases n)
      case 0
      then show ?thesis using Cons.prems(1) skip [of xs] by (simp add: step)
    next
      case (Suc k)
      then show ?thesis using Cons.IH [of k] Cons.prems by (simp add: step)
    qed
  qed simp
  have ne: "gate_file [] ?s \<noteq> []"
    using assms(2) len gate_file_has [of "[]" ?s "rc_entryId (?s ! i)"] by auto
  have g: "g = GateResuming (gate_file [] ?s) (gate_file [] ?s) releaseBy"
    using assms(5) ne by (simp add: gate_run_def)
  have get: "map_get (gate_file [] ?s) (fst (entries ! i)) = Some (?s ! i)"
    using filed [of ?s i "[]"] assms(1,2) ids len
    by (metis length_map nth_map)
  have "of_int (rc_dispatchAt (?s ! i)) \<le> snd plan"
    using plan_release [of "?s ! i"] assms(2,3) len by (simp add: plan_length)
  then have "rc_dispatchAt (?s ! i) \<le> now" using assms(4) by (metis of_int_le_iff order_trans)
  then show ?thesis using get by (simp add: g restartGateHolds_def)
qed

theorem planned_continuation_released_witness:
  "restartGateHolds (gate_run GateOpen [GateRestore (fst (planRestartDispatch (\<lambda>i. 0) [(''a'', ''x'')] demo_plan_options)) 300000]) None 200000
   \<and> \<not> restartGateHolds (gate_run GateOpen [GateRestore (fst (planRestartDispatch (\<lambda>i. 0) [(''a'', ''x'')] demo_plan_options)) 300000]) (Some ''a'') 200000"
proof -
  have rel: "snd (planRestartDispatch (\<lambda>i. 0) [(''a'', ''x'')] demo_plan_options) \<le> of_int 200000"
    by (simp add: planRestartDispatch_def plan_time_def plan_batch_def demo_plan_options_def option_or_def)
  show ?thesis
    using planned_continuation_released [of "[(''a'', ''x'')]" 0, OF _ _ refl rel refl, of 300000]
    by auto
qed

end
