(* ===== verification/CodexSupervision.thy ===== *)
theory CodexSupervision
  imports Complex_Main Prelude
begin

text \<open>
  Supervision of the Codex app server: when it may be started again after it exits on its own
  (owner-core/src/codex-app-server/app-server-restart-policy.ts) and when an idle one is replaced
  (app-server-recycle-policy.ts). Clock readings are integers, delays are rationals; the value the
  random source returns is an argument of the operation that draws it.
\<close>

subsection \<open>Restart policy\<close>

record restart_options =
  ro_initialDelayMs :: rat
  ro_maxDelayMs :: rat
  ro_jitterRatio :: rat
  ro_breakerExitCount :: nat
  ro_breakerWindowMs :: int
  ro_stableUptimeMs :: int

definition default_restart_options :: restart_options where
  "default_restart_options = \<lparr>ro_initialDelayMs = 1000, ro_maxDelayMs = 30000, ro_jitterRatio = 1 / 5,
     ro_breakerExitCount = 5, ro_breakerWindowMs = 10 * 60000, ro_stableUptimeMs = 2 * 60000\<rparr>"

datatype restart_decision = RestartAfter nat int | RestartsStopped nat int

record restart_policy =
  rp_options :: restart_options
  rp_exitTimes :: "int list"
  rp_consecutiveExits :: nat
  rp_startedAt :: "int option"
  rp_restartAt :: int
  rp_stopped :: bool

definition restart_policy_new :: "restart_options \<Rightarrow> restart_policy" where
  "restart_policy_new opts = \<lparr>rp_options = opts, rp_exitTimes = [], rp_consecutiveExits = 0,
     rp_startedAt = None, rp_restartAt = 0, rp_stopped = False\<rparr>"

definition recordStarted :: "restart_policy \<Rightarrow> int \<Rightarrow> restart_policy" where
  "recordStarted p now = p\<lparr>rp_startedAt := Some now\<rparr>"

definition recordExit :: "restart_policy \<Rightarrow> int \<Rightarrow> rat \<Rightarrow> restart_policy \<times> restart_decision" where
  "recordExit p now random =
     (let opts = rp_options p;
          consecutive = (case rp_startedAt p of None \<Rightarrow> rp_consecutiveExits p
            | Some started \<Rightarrow> if ro_stableUptimeMs opts \<le> now - started then 0 else rp_consecutiveExits p);
          exits = filter (\<lambda>t. now - t < ro_breakerWindowMs opts) (rp_exitTimes p) @ [now];
          p1 = p\<lparr>rp_consecutiveExits := consecutive, rp_startedAt := None, rp_exitTimes := exits\<rparr>
      in if ro_breakerExitCount opts \<le> length exits then
           (p1\<lparr>rp_stopped := True\<rparr>, RestartsStopped (length exits) (ro_breakerWindowMs opts))
         else
           (let ceiling = min (ro_maxDelayMs opts) (ro_initialDelayMs opts * 2 ^ consecutive);
                delayMs = round (ceiling * (1 - ro_jitterRatio opts * random))
            in (p1\<lparr>rp_consecutiveExits := consecutive + 1, rp_restartAt := now + delayMs\<rparr>,
                RestartAfter (consecutive + 1) delayMs)))"

definition remainingDelayMs :: "restart_policy \<Rightarrow> int \<Rightarrow> int" where
  "remainingDelayMs p now = max 0 (rp_restartAt p - now)"

definition restart_policy_reset :: "restart_policy \<Rightarrow> restart_policy" where
  "restart_policy_reset p = p\<lparr>rp_exitTimes := [], rp_consecutiveExits := 0, rp_startedAt := None,
     rp_restartAt := 0, rp_stopped := False\<rparr>"

datatype supervision_event = SupStarted int | SupExit int rat | SupReset

fun supervise :: "restart_policy \<Rightarrow> supervision_event \<Rightarrow> restart_policy" where
  "supervise p (SupStarted now) = recordStarted p now"
| "supervise p (SupExit now random) = fst (recordExit p now random)"
| "supervise p SupReset = restart_policy_reset p"

text \<open>The exits of a run since the operator last asked for a restart.\<close>

fun exits_since_reset :: "supervision_event list \<Rightarrow> int list \<Rightarrow> int list" where
  "exits_since_reset [] acc = acc"
| "exits_since_reset (SupExit now r # evs) acc = exits_since_reset evs (acc @ [now])"
| "exits_since_reset (SupStarted now # evs) acc = exits_since_reset evs acc"
| "exits_since_reset (SupReset # evs) acc = exits_since_reset evs []"

fun event_time :: "supervision_event \<Rightarrow> int option" where
  "event_time (SupStarted now) = Some now"
| "event_time (SupExit now r) = Some now"
| "event_time SupReset = None"

lemma recordExit_options: "rp_options (fst (recordExit p now r)) = rp_options p"
  by (simp add: recordExit_def Let_def)

lemma supervise_options: "rp_options (supervise p ev) = rp_options p"
  by (cases ev) (simp_all add: recordStarted_def recordExit_options restart_policy_reset_def)

text \<open>\<open>exitTimes\<close> forgets only what is outside the window of a later exit.\<close>

definition remembers :: "restart_policy \<Rightarrow> int list \<Rightarrow> bool" where
  "remembers p hist \<longleftrightarrow> (\<forall>now. (\<forall>t\<in>set hist. t \<le> now) \<longrightarrow>
     filter (\<lambda>t. now - t < ro_breakerWindowMs (rp_options p)) (rp_exitTimes p)
       = filter (\<lambda>t. now - t < ro_breakerWindowMs (rp_options p)) hist)"

lemma remembers_exit:
  assumes "remembers p hist" "\<forall>t\<in>set hist. t \<le> now"
  shows "remembers (fst (recordExit p now r)) (hist @ [now])"
proof -
  let ?W = "ro_breakerWindowMs (rp_options p)"
  have e: "rp_exitTimes (fst (recordExit p now r)) = filter (\<lambda>t. now - t < ?W) hist @ [now]"
    using assms by (simp add: recordExit_def Let_def remembers_def)
  have "filter (\<lambda>t. later - t < ?W) (filter (\<lambda>t. now - t < ?W) hist) = filter (\<lambda>t. later - t < ?W) hist"
    if "now \<le> later" for later
    using that by (auto intro!: filter_cong)
  then show ?thesis by (simp add: remembers_def recordExit_options e)
qed

lemma remembers_run:
  assumes "remembers p hist" "\<forall>t\<in>set hist. t \<le> start"
    and "sorted (start # List.map_filter event_time evs)"
  shows "remembers (foldl supervise p evs) (exits_since_reset evs hist)
    \<and> (\<forall>t\<in>set (exits_since_reset evs hist). \<forall>now\<ge>last (start # List.map_filter event_time evs). t \<le> now)"
  using assms
proof (induction evs arbitrary: p hist start)
  case Nil
  then show ?case by (auto simp: List.map_filter_def)
next
  case (Cons ev evs)
  show ?case
  proof (cases ev)
    case (SupStarted now)
    have "remembers (recordStarted p now) hist" using Cons.prems(1) by (simp add: remembers_def recordStarted_def)
    then show ?thesis
      using Cons.IH [of "recordStarted p now" hist now] Cons.prems SupStarted
      by (fastforce simp: List.map_filter_simps)
  next
    case (SupExit now r)
    have le: "\<forall>t\<in>set hist. t \<le> now" using Cons.prems SupExit by (force simp: List.map_filter_simps)
    note rem = remembers_exit [OF Cons.prems(1) le, of r]
    show ?thesis
      using Cons.IH [OF rem, of now] le Cons.prems(3) SupExit by (simp add: List.map_filter_simps)
  next
    case SupReset
    have "remembers (restart_policy_reset p) []" by (simp add: remembers_def restart_policy_reset_def)
    then show ?thesis
      using Cons.IH [of "restart_policy_reset p" "[]" start] Cons.prems SupReset
      by (simp add: List.map_filter_simps)
  qed
qed

lemma supervise_run_options: "rp_options (foldl supervise p evs) = rp_options p"
  by (induction evs arbitrary: p) (simp_all add: supervise_options)

text \<open>
  C16: The circuit breaker counts every exit of its window. After any run of starts, exits and
  operator resets with a clock that does not go back, an exit stops restarts exactly when it is the
  \<open>breakerExitCount\<close>-th within the window since the last reset, and reports that number. So a
  crash loop never gets more than \<open>breakerExitCount - 1\<close> restarts in a window, however long each
  server stayed up in between.
\<close>

theorem breaker_counts_window_exits:
  fixes opts :: restart_options
  assumes "sorted (List.map_filter event_time evs @ [now])"
  defines "p \<equiv> foldl supervise (restart_policy_new opts) evs"
  defines "recent \<equiv> filter (\<lambda>t. now - t < ro_breakerWindowMs opts) (exits_since_reset evs [])"
  shows "(snd (recordExit p now random) = RestartsStopped (length recent + 1) (ro_breakerWindowMs opts)
      \<longleftrightarrow> ro_breakerExitCount opts \<le> length recent + 1)
    \<and> ((\<exists>attempt delay. snd (recordExit p now random) = RestartAfter attempt delay)
      \<longleftrightarrow> length recent + 1 < ro_breakerExitCount opts)"
proof -
  define start where "start = hd (List.map_filter event_time evs @ [now])"
  have s: "sorted (start # List.map_filter event_time evs)" "last (start # List.map_filter event_time evs) \<le> now"
    using assms(1) by (auto simp: start_def sorted_append last_ConsR split: list.splits intro!: hd_in_set)
      (cases "List.map_filter event_time evs"; auto simp: sorted_append)+
  have "remembers (restart_policy_new opts) []" by (simp add: remembers_def restart_policy_new_def)
  from remembers_run [OF this _ s(1)] have
    r: "remembers p (exits_since_reset evs [])" "\<forall>t\<in>set (exits_since_reset evs []). t \<le> now"
    using s(2) by (auto simp: p_def)
  have o: "rp_options p = opts" by (simp add: p_def supervise_run_options restart_policy_new_def)
  have "filter (\<lambda>t. now - t < ro_breakerWindowMs opts) (rp_exitTimes p) = recent"
    using r o by (simp add: remembers_def recent_def)
  then show ?thesis by (auto simp: recordExit_def Let_def o)
qed

theorem breaker_counts_window_exits_witness:
  "snd (recordExit (foldl supervise (restart_policy_new default_restart_options)
      [SupExit 0 0, SupStarted 1, SupExit 200000 0, SupExit 210000 0, SupExit 220000 0]) 230000 0)
   = RestartsStopped 5 600000"
  using breaker_counts_window_exits [of "[SupExit 0 0, SupStarted 1, SupExit 200000 0, SupExit 210000 0, SupExit 220000 0]"
      230000 default_restart_options 0]
  by (simp add: List.map_filter_simps default_restart_options_def)

text \<open>
  The restart delay backs off and stays in bounds. With a jitter ratio between 0 and 1, the
  delay of the \<open>n\<close>-th consecutive restart is between the jittered and the full value of
  \<open>min maxDelayMs (initialDelayMs * 2 ^ (n - 1))\<close> (rounded), so it never exceeds the maximum, and
  a caller that asks again waits exactly the rest of it.
\<close>

theorem restart_delay_bounds:
  assumes "recordExit p now random = (p', RestartAfter attempt delayMs)"
    and "0 \<le> ro_jitterRatio (rp_options p)" "ro_jitterRatio (rp_options p) \<le> 1" "0 \<le> random" "random \<le> 1"
    and "0 \<le> ro_initialDelayMs (rp_options p)" "0 \<le> ro_maxDelayMs (rp_options p)"
  defines "full \<equiv> min (ro_maxDelayMs (rp_options p)) (ro_initialDelayMs (rp_options p) * 2 ^ (attempt - 1))"
  shows "round (full * (1 - ro_jitterRatio (rp_options p))) \<le> delayMs \<and> delayMs \<le> round full
    \<and> 0 \<le> delayMs \<and> delayMs \<le> round (ro_maxDelayMs (rp_options p))
    \<and> (\<forall>t. remainingDelayMs p' t = max 0 (delayMs - (t - now)))"
proof -
  let ?j = "ro_jitterRatio (rp_options p)"
  have d: "delayMs = round (full * (1 - ?j * random))" and at: "rp_restartAt p' = now + delayMs"
    using assms(1) by (auto simp: recordExit_def Let_def full_def split: if_splits)
  have full: "0 \<le> full" "full \<le> ro_maxDelayMs (rp_options p)" using assms(6,7) by (simp_all add: full_def)
  have jr: "?j * random \<le> ?j" "0 \<le> ?j * random" "?j * random \<le> 1"
    using assms(2-5) by (simp_all add: mult_left_le mult_le_one)
  have b: "full * (1 - ?j) \<le> full * (1 - ?j * random)" "full * (1 - ?j * random) \<le> full" "0 \<le> full * (1 - ?j * random)"
    using full(1) jr by (auto intro!: mult_left_mono mult_left_le simp: algebra_simps mult_left_le)
  have "round (full * (1 - ?j)) \<le> delayMs" "delayMs \<le> round full" "round (0::rat) \<le> delayMs"
    unfolding d by (rule round_mono, rule b)+
  moreover have "round full \<le> round (ro_maxDelayMs (rp_options p))" using full(2) by (rule round_mono)
  ultimately show ?thesis by (simp add: remainingDelayMs_def at algebra_simps)
qed

theorem restart_delay_bounds_witness:
  "\<exists>p'. recordExit (restart_policy_new default_restart_options) 0 (1 / 2) = (p', RestartAfter 1 900)
     \<and> remainingDelayMs p' 100 = 800"
proof -
  let ?p = "restart_policy_new default_restart_options"
  have r: "snd (recordExit ?p 0 (1 / 2)) = RestartAfter 1 900"
    by (simp add: recordExit_def restart_policy_new_def default_restart_options_def)
  then obtain p' where e: "recordExit ?p 0 (1 / 2) = (p', RestartAfter 1 900)" by (metis prod.collapse)
  from restart_delay_bounds [OF e] show ?thesis
    using e by (simp add: restart_policy_new_def default_restart_options_def)
qed

subsection \<open>Recycle policy\<close>

record recycle_settings =
  rs_enabled :: bool
  rs_idleMs :: rat
  rs_maxUptimeMs :: int
  rs_maxChildProcesses :: nat
  rs_maxOpenFds :: nat
  rs_minUptimeMs :: int

definition DEFAULT_CODEX_APP_SERVER_RECYCLE_SETTINGS :: recycle_settings where
  "DEFAULT_CODEX_APP_SERVER_RECYCLE_SETTINGS = \<lparr>rs_enabled = True, rs_idleMs = 20 * 60000,
     rs_maxUptimeMs = 8 * 60 * 60000, rs_maxChildProcesses = 64, rs_maxOpenFds = 1024,
     rs_minUptimeMs = 30 * 60000\<rparr>"

record process_sample =
  sa_pid :: nat
  sa_startedAt :: int
  sa_sampledAt :: int
  sa_uptimeMs :: int
  sa_childProcessCount :: "nat option"
  sa_openFdCount :: "nat option"

datatype recycle_reason = RecycleUptime | RecycleChildProcesses | RecycleOpenFds

definition at_least :: "nat option \<Rightarrow> nat \<Rightarrow> bool" where
  "at_least v n = (case v of None \<Rightarrow> False | Some k \<Rightarrow> n \<le> k)"

definition decideCodexAppServerRecycle :: "recycle_settings \<Rightarrow> process_sample \<Rightarrow> recycle_reason list" where
  "decideCodexAppServerRecycle settings sample =
     (if \<not> rs_enabled settings \<or> sa_uptimeMs sample < rs_minUptimeMs settings then []
      else (if rs_maxUptimeMs settings \<le> sa_uptimeMs sample then [RecycleUptime] else [])
        @ (if at_least (sa_childProcessCount sample) (rs_maxChildProcesses settings)
           then [RecycleChildProcesses] else [])
        @ (if at_least (sa_openFdCount sample) (rs_maxOpenFds settings) then [RecycleOpenFds] else []))"

definition codexAppServerRecycleCheckIntervalMs :: "recycle_settings \<Rightarrow> int" where
  "codexAppServerRecycleCheckIntervalMs settings =
     min (5 * 60000) (max 30000 (round (rs_idleMs settings / 4)))"

lemma recycle_never_early:
  "decideCodexAppServerRecycle settings sample \<noteq> [] \<Longrightarrow>
   rs_enabled settings \<and> rs_minUptimeMs settings \<le> sa_uptimeMs sample"
  by (auto simp: decideCodexAppServerRecycle_def split: if_splits)

lemma recycle_reasons_distinct: "distinct (decideCodexAppServerRecycle settings sample)"
  by (simp add: decideCodexAppServerRecycle_def)

lemma recycle_check_interval:
  "30000 \<le> codexAppServerRecycleCheckIntervalMs s \<and> codexAppServerRecycleCheckIntervalMs s \<le> 300000"
  by (simp add: codexAppServerRecycleCheckIntervalMs_def)

end
