(* ===== verification/FederationRouter.thy ===== *)
theory FederationRouter
  imports Prelude "HOL-Library.Sublist"
begin

text \<open>
  The federation router (federation/src/federation-router.ts): authentication of an envelope's
  origin against the transport peer, deadline, draining and capability checks, relaying with a hop
  limit, the ordered bulk queue of a transfer, and the dispatch to local handlers. A call that the
  router awaits (a request handler, the blob handler, a send with backpressure) ends the first part
  of the operation; its answer is a second one. Sends append to \<open>ro_sent\<close>. Payload bytes and
  request parameters are opaque text but for the transfer id that a checkpoint names.
\<close>

datatype envelope_body =
    EnvRequest string string "string option"
  | EnvResponse string string
  | EnvError "string option" string string
  | EnvNotification string string
  | EnvBlobChunk bool string nat nat nat string string
  | EnvServiceData string nat bool string

record envelope =
  ev_id :: string
  ev_protocolVersion :: nat
  ev_source :: string
  ev_target :: "string option"
  ev_createdAt :: int
  ev_deadlineAt :: "int option"
  ev_hopCount :: "nat option"
  ev_body :: envelope_body

definition FEDERATION_PROTOCOL_VERSION :: nat where "FEDERATION_PROTOCOL_VERSION = 1"

record connection =
  cn_peerId :: string
  cn_capabilities :: "string list"
  cn_backpressure :: bool

type_synonym blob_key = "string \<times> string \<times> string option"

record router =
  ro_connections :: "(string, connection) jsmap"
  ro_handlers :: "string list"
  ro_notificationHandlers :: "string list"
  ro_blobChunkHandler :: bool
  ro_serviceDataHandler :: bool
  ro_relayBlobTails :: "(blob_key, (envelope \<times> envelope list) list) jsmap"
  ro_sent :: "(string \<times> envelope) list"

text \<open>
  The options of the router at one moment; \<open>re_notify\<close> and \<open>re_service\<close> are the synchronous
  handlers, \<open>Some\<close> when they throw.
\<close>

record router_env =
  re_localInstanceId :: string
  re_isDraining :: bool
  re_methodCapabilities :: "string \<Rightarrow> string option"
  re_additionalRequiredCapabilities :: "envelope \<Rightarrow> string list"
  re_trustedRelayPeerId :: "string option"
  re_maxHopCount :: "nat option"
  re_now :: int
  re_notify :: "envelope \<Rightarrow> string option \<Rightarrow> string option"
  re_service :: "envelope \<Rightarrow> string option \<Rightarrow> string option"

datatype route_result =
    RouteHandled "envelope option"
  | RouteRelayed string
  | RouteRejected string string

definition router_new :: router where
  "router_new = \<lparr>ro_connections = [], ro_handlers = [], ro_notificationHandlers = [],
     ro_blobChunkHandler = False, ro_serviceDataHandler = False, ro_relayBlobTails = [], ro_sent = []\<rparr>"

definition registerConnection :: "router \<Rightarrow> connection \<Rightarrow> router" where
  "registerConnection r c = r\<lparr>ro_connections := map_set (ro_connections r) (cn_peerId c) c\<rparr>"

definition unregisterConnection :: "router \<Rightarrow> string \<Rightarrow> router" where
  "unregisterConnection r p = r\<lparr>ro_connections := map_del (ro_connections r) p\<rparr>"

definition send_to :: "router \<Rightarrow> string \<Rightarrow> envelope \<Rightarrow> router" where
  "send_to r p env = r\<lparr>ro_sent := ro_sent r @ [(p, env)]\<rparr>"

definition sendToPeer :: "router \<Rightarrow> string \<Rightarrow> envelope \<Rightarrow> router \<times> bool" where
  "sendToPeer r p env = (if map_has (ro_connections r) p then (send_to r p env, True) else (r, False))"

definition replyToSource :: "router \<Rightarrow> string option \<Rightarrow> envelope \<Rightarrow> router" where
  "replyToSource r src env = (case truthy src of None \<Rightarrow> r | Some p \<Rightarrow> fst (sendToPeer r p env))"

definition body_is_request :: "envelope_body \<Rightarrow> bool" where
  "body_is_request b = (case b of EnvRequest _ _ _ \<Rightarrow> True | _ \<Rightarrow> False)"

definition errorEnvelope :: "router_env \<Rightarrow> envelope \<Rightarrow> string \<Rightarrow> string \<Rightarrow> envelope" where
  "errorEnvelope re env code message =
     \<lparr>ev_id = ev_id env @ '':error'', ev_protocolVersion = FEDERATION_PROTOCOL_VERSION,
      ev_source = re_localInstanceId re, ev_target = Some (ev_source env), ev_createdAt = re_now re,
      ev_deadlineAt = None, ev_hopCount = None,
      ev_body = EnvError (if body_is_request (ev_body env) then Some (ev_id env) else None) code message\<rparr>"

definition reject_with ::
  "router_env \<Rightarrow> router \<Rightarrow> envelope \<Rightarrow> string option \<Rightarrow> string \<times> string \<Rightarrow> router \<times> route_result" where
  "reject_with re r env src failure =
     (replyToSource r src (errorEnvelope re env (fst failure) (snd failure)),
      RouteRejected (fst failure) (snd failure))"

subsection \<open>Checks\<close>

definition authenticatesOrigin :: "router_env \<Rightarrow> envelope \<Rightarrow> string option \<Rightarrow> bool" where
  "authenticatesOrigin re env src = (case truthy src of
     None \<Rightarrow> True
   | Some p \<Rightarrow> ev_source env \<noteq> [] \<and> (ev_source env = p
       \<or> 1 \<le> or_else (ev_hopCount env) 0 \<and> re_trustedRelayPeerId re = Some p))"

definition checkDeadline :: "router_env \<Rightarrow> envelope \<Rightarrow> (string \<times> string) option" where
  "checkDeadline re env = (case ev_deadlineAt env of None \<Rightarrow> None
     | Some d \<Rightarrow> if re_now re < d then None
                 else Some (''deadline_expired'', ''Federation request deadline expired.''))"

definition has_capability :: "router \<Rightarrow> string \<Rightarrow> string \<Rightarrow> bool" where
  "has_capability r p cap = (case map_get (ro_connections r) p of None \<Rightarrow> False
     | Some c \<Rightarrow> cap \<in> set (cn_capabilities c))"

definition denied_message :: "string \<Rightarrow> string \<Rightarrow> string \<times> string" where
  "denied_message m cap = (''capability_denied'', ''Method '' @ m @ '' requires '' @ cap @ ''.'')"

definition checkCapability :: "router_env \<Rightarrow> router \<Rightarrow> string \<Rightarrow> string option \<Rightarrow> (string \<times> string) option" where
  "checkCapability re r m src = (case truthy src of None \<Rightarrow> None
     | Some p \<Rightarrow> (case truthy (re_methodCapabilities re m) of None \<Rightarrow> None
         | Some cap \<Rightarrow> if has_capability r p cap then None else Some (denied_message m cap)))"

definition checkAdditionalCapabilities ::
  "router_env \<Rightarrow> router \<Rightarrow> envelope \<Rightarrow> string \<Rightarrow> string option \<Rightarrow> (string \<times> string) option" where
  "checkAdditionalCapabilities re r env m src = (case truthy src of None \<Rightarrow> None
     | Some p \<Rightarrow> (case List.find (\<lambda>cap. \<not> has_capability r p cap) (re_additionalRequiredCapabilities re env) of
           None \<Rightarrow> None
         | Some cap \<Rightarrow> if cap = [] then None else Some (denied_message m cap)))"

definition binary_denied :: "string \<Rightarrow> string \<times> string" where
  "binary_denied message = (''capability_denied'', message)"

definition checkBinaryEnvelopeCapability ::
  "router \<Rightarrow> envelope_body \<Rightarrow> string option \<Rightarrow> (string \<times> string) option" where
  "checkBinaryEnvelopeCapability r body src = (case truthy src of None \<Rightarrow> None
     | Some p \<Rightarrow> (case body of
           EnvBlobChunk file_push _ _ _ _ _ _ \<Rightarrow>
             (let required = (if file_push then ''resumable_blobs'' else ''turn_input_blobs'')
              in if has_capability r p required \<and> (\<not> file_push \<or> has_capability r p ''file_push'') then None
                 else Some (binary_denied (''Federation blob transfer requires '' @ required @ ''.'')))
         | EnvServiceData _ _ _ _ \<Rightarrow>
             (if has_capability r p ''service_forward_v2'' then None
              else Some (binary_denied ''Federation service streams require service_forward_v2.''))
         | _ \<Rightarrow> None))"

subsection \<open>Relaying\<close>

definition blob_key_of :: "envelope \<Rightarrow> string \<Rightarrow> blob_key option" where
  "blob_key_of env target = (case ev_body env of
     EnvBlobChunk _ transferId _ _ _ _ _ \<Rightarrow> Some (ev_source env, target, Some transferId)
   | EnvRequest m _ transferId \<Rightarrow>
       (if m = ''file.push.checkpoint'' then Some (ev_source env, target, transferId) else None)
   | _ \<Rightarrow> None)"

definition body_is_blob :: "envelope_body \<Rightarrow> bool" where
  "body_is_blob b = (case b of EnvBlobChunk _ _ _ _ _ _ _ \<Rightarrow> True | _ \<Rightarrow> False)"

definition tail_of :: "router \<Rightarrow> blob_key \<Rightarrow> (envelope \<times> envelope list) list" where
  "tail_of r k = or_else (map_get (ro_relayBlobTails r) k) []"

definition set_tail :: "router \<Rightarrow> blob_key \<Rightarrow> (envelope \<times> envelope list) list \<Rightarrow> router" where
  "set_tail r k jobs = (if jobs = [] then r\<lparr>ro_relayBlobTails := map_del (ro_relayBlobTails r) k\<rparr>
     else r\<lparr>ro_relayBlobTails := map_set (ro_relayBlobTails r) k jobs\<rparr>)"

text \<open>A bulk send joins its transfer's tail; it is on the wire at once when the tail is empty.\<close>

definition relay_bulk :: "router \<Rightarrow> blob_key \<Rightarrow> string \<Rightarrow> envelope \<Rightarrow> router" where
  "relay_bulk r k target env =
     (let r1 = (if tail_of r k = [] then send_to r target env else r)
      in set_tail r1 k (tail_of r k @ [(env, [])]))"

text \<open>A checkpoint waits for the send that is last in its transfer's tail.\<close>

definition relay_barrier :: "router \<Rightarrow> blob_key \<Rightarrow> string \<Rightarrow> envelope \<Rightarrow> router" where
  "relay_barrier r k target env = (case rev (tail_of r k) of
     [] \<Rightarrow> send_to r target env
   | (e, waiting) # before_it \<Rightarrow> set_tail r k (rev before_it @ [(e, waiting @ [env])]))"

definition send_all :: "router \<Rightarrow> string \<Rightarrow> envelope list \<Rightarrow> router" where
  "send_all r target envs = r\<lparr>ro_sent := ro_sent r @ map (Pair target) envs\<rparr>"

text \<open>The transport took the first send of a tail: its checkpoints go out, then the next send.\<close>

definition bulk_sent :: "router \<Rightarrow> blob_key \<Rightarrow> router" where
  "bulk_sent r k = (case tail_of r k of
     [] \<Rightarrow> r
   | (e, waiting) # jobs \<Rightarrow>
      set_tail (send_all r (fst (snd k)) (waiting @ (case jobs of [] \<Rightarrow> [] | (e', _) # _ \<Rightarrow> [e']))) k jobs)"

text \<open>A send that fails rejects everything chained behind it.\<close>

definition bulk_failed :: "router \<Rightarrow> blob_key \<Rightarrow> router" where
  "bulk_failed r k = set_tail r k []"

definition relayEnvelope ::
  "router_env \<Rightarrow> router \<Rightarrow> envelope \<Rightarrow> string option \<Rightarrow> router \<times> route_result" where
  "relayEnvelope re r env src = (case truthy (ev_target env) of
     None \<Rightarrow> (r, RouteRejected ''missing_target'' ''Remote relay target is missing.'')
   | Some target \<Rightarrow>
      (let hopCount = or_else (ev_hopCount env) 0 in
       if or_else (re_maxHopCount re) 4 \<le> hopCount then
         reject_with re r env src (''relay_hop_limit'', ''Federation relay hop limit exceeded.'')
       else if (case truthy src of None \<Rightarrow> False | Some p \<Rightarrow> \<not> has_capability r p ''gateway_relay'') then
         reject_with re r env src
           (''relay_not_authorized'', ''Source peer is not authorized to relay through this gateway.'')
       else (case map_get (ro_connections r) target of
           None \<Rightarrow> reject_with re r env src (''target_unavailable'', ''Target federation peer is not connected.'')
         | Some conn \<Rightarrow>
             (let relayed = env\<lparr>ev_hopCount := Some (hopCount + 1)\<rparr>;
                  r1 = (case blob_key_of env target of
                          None \<Rightarrow> send_to r target relayed
                        | Some k \<Rightarrow> if body_is_blob (ev_body env)
                            then (if cn_backpressure conn then relay_bulk r k target relayed
                                  else send_to r target relayed)
                            else relay_barrier r k target relayed)
              in (r1, RouteRelayed target)))))"

subsection \<open>Routing\<close>

datatype route_step =
    RouteDone route_result
  | RouteAwaitHandler
  | RouteAwaitBlobHandler

definition done_with :: "router \<times> route_result \<Rightarrow> router \<times> route_step" where
  "done_with x = (fst x, RouteDone (snd x))"

definition handled_unless :: "router \<Rightarrow> string option \<Rightarrow> router \<times> route_step" where
  "handled_unless r thrown = (r, RouteDone (case thrown of
     None \<Rightarrow> RouteHandled None | Some message \<Rightarrow> RouteRejected ''handler_failed'' message))"

definition request_failure ::
  "router_env \<Rightarrow> router \<Rightarrow> envelope \<Rightarrow> string option \<Rightarrow> (string \<times> string) option" where
  "request_failure re r env src = (case ev_body env of
     EnvRequest m _ _ \<Rightarrow>
       (if re_isDraining re then Some (''instance_shutting_down'', ''This instance is preparing to shut down.'')
        else (case checkCapability re r m src of
            Some failure \<Rightarrow> Some failure
          | None \<Rightarrow> checkAdditionalCapabilities re r env m src))
   | body \<Rightarrow> checkBinaryEnvelopeCapability r body src)"

definition dispatch_local ::
  "router_env \<Rightarrow> router \<Rightarrow> envelope \<Rightarrow> string option \<Rightarrow> router \<times> route_step" where
  "dispatch_local re r env src = (case ev_body env of
     EnvBlobChunk _ _ _ _ _ _ _ \<Rightarrow>
       (if ro_blobChunkHandler r then (r, RouteAwaitBlobHandler)
        else (r, RouteDone (RouteRejected ''blob_handler_unavailable'' ''Federation blob transfer is unavailable.'')))
   | EnvServiceData _ _ _ _ \<Rightarrow>
       handled_unless r (if ro_serviceDataHandler r then re_service re env src else None)
   | EnvNotification m _ \<Rightarrow>
       handled_unless r (if m \<in> set (ro_notificationHandlers r) then re_notify re env src else None)
   | EnvRequest m _ _ \<Rightarrow>
       (if m \<in> set (ro_handlers r) then (r, RouteAwaitHandler)
        else done_with (reject_with re r env src
               (''method_not_found'', ''No federation handler registered for '' @ m)))
   | _ \<Rightarrow> (r, RouteDone (RouteHandled None)))"

definition is_remote_target :: "router_env \<Rightarrow> envelope \<Rightarrow> bool" where
  "is_remote_target re env = (case truthy (ev_target env) of None \<Rightarrow> False
     | Some target \<Rightarrow> target \<noteq> re_localInstanceId re)"

definition routeEnvelope_begin ::
  "router_env \<Rightarrow> router \<Rightarrow> envelope \<Rightarrow> string option \<Rightarrow> router \<times> route_step" where
  "routeEnvelope_begin re r env src =
     (if \<not> authenticatesOrigin re env src then
        done_with (reject_with re r env src (''relay_origin_mismatch'',
          ''Federation relay origin is not authenticated by this connection.''))
      else case checkDeadline re env of
        Some failure \<Rightarrow> done_with (reject_with re r env src failure)
      | None \<Rightarrow> (case request_failure re r env src of
            Some failure \<Rightarrow> done_with (reject_with re r env src failure)
          | None \<Rightarrow> if is_remote_target re env then done_with (relayEnvelope re r env src)
                    else dispatch_local re r env src))"

datatype handler_outcome =
    HandlerResult string
  | HandlerDurableError string
  | HandlerThrew string

definition routeEnvelope_answered ::
  "router_env \<Rightarrow> router \<Rightarrow> envelope \<Rightarrow> string option \<Rightarrow> handler_outcome \<Rightarrow> router \<times> route_result" where
  "routeEnvelope_answered re r env src outcome = (case outcome of
     HandlerResult payload \<Rightarrow>
       (let response = \<lparr>ev_id = ev_id env @ '':response'', ev_protocolVersion = FEDERATION_PROTOCOL_VERSION,
              ev_source = re_localInstanceId re, ev_target = Some (ev_source env), ev_createdAt = re_now re,
              ev_deadlineAt = None, ev_hopCount = None, ev_body = EnvResponse (ev_id env) payload\<rparr>
        in (replyToSource r src response, RouteHandled (Some response)))
   | HandlerDurableError code \<Rightarrow> reject_with re r env src (code, code)
   | HandlerThrew message \<Rightarrow> reject_with re r env src (''handler_failed'', message))"

definition routeEnvelope_blob_answered :: "string option \<Rightarrow> route_result" where
  "routeEnvelope_blob_answered thrown = (case thrown of None \<Rightarrow> RouteHandled None
     | Some message \<Rightarrow> RouteRejected ''blob_transfer_failed'' message)"

end
