(* ===== verification/FederationRouterProps.thy ===== *)
theory FederationRouterProps
  imports FederationRouter
begin

text \<open>
  What the federation router guarantees: an envelope whose origin the transport peer may not claim
  reaches nothing, a handler runs only under the capability its method needs, a relay chain ends at
  the hop limit, every request that is refused is answered exactly once, and the bulk data of a
  transfer and its checkpoints leave in the order they arrived.
\<close>

lemma reply_sent:
  "ro_sent (replyToSource r src env) = ro_sent r @
     (case truthy src of None \<Rightarrow> [] | Some p \<Rightarrow> if map_has (ro_connections r) p then [(p, env)] else [])"
  by (auto simp: replyToSource_def sendToPeer_def send_to_def split: option.splits)

lemma reply_rest [simp]:
  "ro_relayBlobTails (replyToSource r src env) = ro_relayBlobTails r"
  "ro_connections (replyToSource r src env) = ro_connections r"
  by (auto simp: replyToSource_def sendToPeer_def send_to_def split: option.splits)

subsection \<open>Origin\<close>

text \<open>
  C5: A peer cannot speak for another. An envelope from a connected peer that names a different
  source, unless it is a relayed envelope from the one trusted gateway, is rejected: nothing is
  relayed, no handler is asked, no queue changes, and the only send is the error to that peer.
\<close>

theorem spoofed_origin_rejected:
  assumes "truthy src = Some p" "map_has (ro_connections r) p" "ev_source env \<noteq> p"
    and "ev_hopCount env = None \<or> ev_hopCount env = Some 0 \<or> re_trustedRelayPeerId re \<noteq> Some p"
    and "routeEnvelope_begin re r env src = (r', step)"
  shows "(\<exists>message. step = RouteDone (RouteRejected ''relay_origin_mismatch'' message))
    \<and> (\<exists>failure. ro_sent r' = ro_sent r @ [(p, failure)] \<and> ev_target failure = Some (ev_source env))
    \<and> ro_relayBlobTails r' = ro_relayBlobTails r \<and> ro_connections r' = ro_connections r"
proof -
  have "\<not> authenticatesOrigin re env src"
    using assms(1,3,4) by (auto simp: authenticatesOrigin_def or_else_def)
  then show ?thesis
    using assms(1,2,5)
    by (auto simp: routeEnvelope_begin_def done_with_def reject_with_def reply_sent errorEnvelope_def)
qed

definition demo_connection :: "string \<Rightarrow> string list \<Rightarrow> connection" where
  "demo_connection p caps = \<lparr>cn_peerId = p, cn_capabilities = caps, cn_backpressure = True\<rparr>"

definition demo_router_env :: router_env where
  "demo_router_env = \<lparr>re_localInstanceId = ''me'', re_isDraining = False,
     re_methodCapabilities = (\<lambda>m. if m = ''turn.start'' then Some ''turns'' else None),
     re_additionalRequiredCapabilities = (\<lambda>_. []), re_trustedRelayPeerId = Some ''hub'',
     re_maxHopCount = None, re_now = 100, re_notify = (\<lambda>_ _. None), re_service = (\<lambda>_ _. None)\<rparr>"

definition demo_router :: router where
  "demo_router = foldl registerConnection (router_new\<lparr>ro_handlers := [''turn.start'']\<rparr>)
     [demo_connection ''a'' [''turns'', ''gateway_relay'', ''resumable_blobs'', ''file_push''],
      demo_connection ''b'' []]"

definition demo_request :: "string \<Rightarrow> string option \<Rightarrow> envelope" where
  "demo_request src target = \<lparr>ev_id = ''q1'', ev_protocolVersion = 1, ev_source = src, ev_target = target,
     ev_createdAt = 50, ev_deadlineAt = Some 200, ev_hopCount = None,
     ev_body = EnvRequest ''turn.start'' ''{}'' None\<rparr>"

theorem spoofed_origin_rejected_witness:
  "\<exists>failure. ro_sent (fst (routeEnvelope_begin demo_router_env demo_router (demo_request ''a'' None) (Some ''b'')))
     = [(''b'', failure)]"
proof -
  let ?e = "demo_request ''a'' None"
  have t: "truthy (Some ''b'') = Some ''b''" "map_has (ro_connections demo_router) ''b''"
    "ev_source ?e \<noteq> ''b''" "ev_hopCount ?e = None" "ro_sent demo_router = []" by code_simp+
  have "\<exists>failure. ro_sent (fst (routeEnvelope_begin demo_router_env demo_router ?e (Some ''b'')))
      = ro_sent demo_router @ [(''b'', failure)]"
    using spoofed_origin_rejected [OF t(1-3) _ surjective_pairing, of demo_router_env] t(4) by blast
  then show ?thesis by (simp add: t(5))
qed

subsection \<open>Authorization of requests\<close>

text \<open>
  C6: No handler without its capability. When the router hands a peer's request to a handler, the
  peer may claim its source, the deadline has not passed, the instance is not draining, the request
  is for this instance, and the connection was granted the method's capability and every additional
  one; nothing has been sent.
\<close>

theorem handled_request_authorized:
  assumes "routeEnvelope_begin re r env src = (r', RouteAwaitHandler)" "truthy src = Some p"
    and "ev_body env = EnvRequest m payload tid" "[] \<notin> set (re_additionalRequiredCapabilities re env)"
  shows "authenticatesOrigin re env src \<and> (\<forall>d. ev_deadlineAt env = Some d \<longrightarrow> re_now re < d)
    \<and> \<not> re_isDraining re \<and> (\<forall>t. truthy (ev_target env) = Some t \<longrightarrow> t = re_localInstanceId re)
    \<and> m \<in> set (ro_handlers r)
    \<and> (\<forall>cap. truthy (re_methodCapabilities re m) = Some cap \<longrightarrow> has_capability r p cap)
    \<and> (\<forall>cap\<in>set (re_additionalRequiredCapabilities re env). has_capability r p cap)
    \<and> r' = r"
proof -
  have auth: "authenticatesOrigin re env src"
    and dl: "checkDeadline re env = None" and ok: "request_failure re r env src = None"
    and here: "\<not> is_remote_target re env" and disp: "dispatch_local re r env src = (r', RouteAwaitHandler)"
    using assms(1) unfolding routeEnvelope_begin_def done_with_def by (auto split: if_splits option.splits)
  have nd: "\<not> re_isDraining re" "checkCapability re r m src = None"
    "checkAdditionalCapabilities re r env m src = None"
    using ok assms(3) by (auto simp: request_failure_def split: if_splits option.splits)
  have add: "has_capability r p cap" if "cap \<in> set (re_additionalRequiredCapabilities re env)" for cap
  proof (cases "List.find (\<lambda>cap. \<not> has_capability r p cap) (re_additionalRequiredCapabilities re env)")
    case None
    then show ?thesis using that by (auto simp: find_None_iff)
  next
    case (Some c)
    then have "c \<in> set (re_additionalRequiredCapabilities re env)" by (auto simp: find_Some_iff)
    then show ?thesis
      using nd(3) assms(2,4) Some by (auto simp: checkAdditionalCapabilities_def split: if_splits)
  qed
  show ?thesis
    using auth dl nd(1,2) here disp add assms(2,3)
    by (auto simp: checkDeadline_def checkCapability_def dispatch_local_def is_remote_target_def done_with_def
        split: option.splits if_splits)
qed

theorem handled_request_authorized_witness:
  "snd (routeEnvelope_begin demo_router_env demo_router (demo_request ''a'' None) (Some ''a'')) = RouteAwaitHandler
   \<and> has_capability demo_router ''a'' ''turns''"
proof -
  let ?e = "demo_request ''a'' None"
  have s: "snd (routeEnvelope_begin demo_router_env demo_router ?e (Some ''a'')) = RouteAwaitHandler" by code_simp
  then have b: "routeEnvelope_begin demo_router_env demo_router ?e (Some ''a'')
      = (fst (routeEnvelope_begin demo_router_env demo_router ?e (Some ''a'')), RouteAwaitHandler)"
    by (metis prod.collapse)
  have t: "truthy (Some ''a'') = Some ''a''" "truthy (re_methodCapabilities demo_router_env ''turn.start'') = Some ''turns''"
    by code_simp+
  have e: "ev_body ?e = EnvRequest ''turn.start'' ''{}'' None" by code_simp
  have n: "[] \<notin> set (re_additionalRequiredCapabilities demo_router_env ?e)" by (simp add: demo_router_env_def)
  from handled_request_authorized [OF b t(1) e n] s t(2) show ?thesis by blast
qed

text \<open>
  C7: Every refused request is answered exactly once. When the router rejects a request of a
  connected peer, at once or after its handler failed, it sends that peer one error envelope that
  names the request, and nothing else.
\<close>

theorem rejected_request_answered_once:
  assumes "ev_body env = EnvRequest m payload tid" "truthy src = Some p" "map_has (ro_connections r) p"
    and "routeEnvelope_begin re r env src = (r', RouteDone (RouteRejected code message))
       \<or> routeEnvelope_answered re r env src outcome = (r', RouteRejected code message)"
  shows "ro_sent r' = ro_sent r @ [(p, errorEnvelope re env code message)]
    \<and> ev_body (errorEnvelope re env code message) = EnvError (Some (ev_id env)) code message"
proof -
  have rej: "fst (reject_with re r env src f) = r' \<and> snd (reject_with re r env src f) = RouteRejected code message \<longrightarrow>
      ro_sent r' = ro_sent r @ [(p, errorEnvelope re env code message)]" for f
    using assms(2,3) by (auto simp: reject_with_def reply_sent)
  have target: "relayEnvelope re r env src = (r', RouteRejected code message) \<Longrightarrow> is_remote_target re env \<Longrightarrow>
      \<exists>f. reject_with re r env src f = (r', RouteRejected code message)"
    by (auto simp: relayEnvelope_def is_remote_target_def Let_def split: option.splits if_splits)
  have "\<exists>f. reject_with re r env src f = (r', RouteRejected code message)"
    using assms(4)
  proof
    assume "routeEnvelope_begin re r env src = (r', RouteDone (RouteRejected code message))"
    then show ?thesis
      using target assms(1)
      by (auto simp: routeEnvelope_begin_def done_with_def dispatch_local_def split: if_splits option.splits)
        (metis prod.collapse)+
  next
    assume "routeEnvelope_answered re r env src outcome = (r', RouteRejected code message)"
    then show ?thesis by (auto simp: routeEnvelope_answered_def Let_def split: handler_outcome.splits)
  qed
  then have "ro_sent r' = ro_sent r @ [(p, errorEnvelope re env code message)]"
    using rej by (metis fst_conv snd_conv)
  then show ?thesis using assms(1) by (simp add: errorEnvelope_def body_is_request_def)
qed

theorem rejected_request_answered_once_witness:
  "ro_sent (fst (routeEnvelope_answered demo_router_env demo_router (demo_request ''a'' None) (Some ''a'') (HandlerThrew ''boom'')))
   = [(''a'', errorEnvelope demo_router_env (demo_request ''a'' None) ''handler_failed'' ''boom'')]"
proof -
  let ?e = "demo_request ''a'' None"
  have t: "truthy (Some ''a'') = Some ''a''" "map_has (ro_connections demo_router) ''a''"
    "ev_body ?e = EnvRequest ''turn.start'' ''{}'' None" "ro_sent demo_router = []" by code_simp+
  have a: "routeEnvelope_answered demo_router_env demo_router ?e (Some ''a'') (HandlerThrew ''boom'')
      = (fst (routeEnvelope_answered demo_router_env demo_router ?e (Some ''a'') (HandlerThrew ''boom'')),
         RouteRejected ''handler_failed'' ''boom'')"
    by (simp add: routeEnvelope_answered_def reject_with_def)
  from rejected_request_answered_once [OF t(3,1,2), of demo_router_env] a t(4) show ?thesis by fastforce
qed

subsection \<open>Relay chains\<close>

text \<open>What a transfer's tail still has to send: its first chunk is on the wire already.\<close>

fun waiting_in :: "(envelope \<times> envelope list) list \<Rightarrow> envelope list" where
  "waiting_in [] = []"
| "waiting_in ((e, w) # jobs) = w @ concat (map (\<lambda>(e, w). e # w) jobs)"

lemma waiting_snoc: "waiting_in (jobs @ [(e, w)]) = waiting_in jobs @ (if jobs = [] then w else e # w)"
  by (cases jobs) auto

lemma tail_of_set [simp]: "tail_of (set_tail r k jobs) k' = (if k' = k then jobs else tail_of r k')"
  by (simp add: set_tail_def tail_of_def or_else_def)

lemma tail_of_send [simp]: "tail_of (send_to r p env) k = tail_of r k" "tail_of (send_all r p envs) k = tail_of r k"
  by (simp_all add: tail_of_def send_to_def send_all_def)

text \<open>
  What one call has a router send or queue for \<open>target\<close>: the sends it added, and what it added to
  the tail of the transfer that the envelope belongs to.
\<close>

definition passed_on :: "router \<Rightarrow> router \<Rightarrow> blob_key option \<Rightarrow> string \<Rightarrow> (string \<times> envelope) list" where
  "passed_on r r' key target = drop (length (ro_sent r)) (ro_sent r')
     @ (case key of None \<Rightarrow> [] | Some k \<Rightarrow>
          map (Pair target) (drop (length (waiting_in (tail_of r k))) (waiting_in (tail_of r' k))))"

text \<open>
  A chain of routers: each node, with its options, state and transport peer, routes the envelope
  that the node before it passed on.
\<close>

fun relay_chain :: "(router_env \<times> router \<times> string option) list \<Rightarrow> envelope \<Rightarrow> envelope option" where
  "relay_chain [] env = Some env"
| "relay_chain ((re, r, src) # nodes) env =
     (case routeEnvelope_begin re r env src of
        (r', RouteDone (RouteRelayed t)) \<Rightarrow>
          (case passed_on r r' (blob_key_of env t) t of
             [(to, env')] \<Rightarrow> if to = t then relay_chain nodes env' else None
           | _ \<Rightarrow> None)
      | _ \<Rightarrow> None)"

lemma relayed_is_relay:
  assumes "routeEnvelope_begin re r env src = (r', RouteDone (RouteRelayed t))"
  shows "relayEnvelope re r env src = (r', RouteRelayed t)"
  using assms by (cases "relayEnvelope re r env src")
    (auto simp: routeEnvelope_begin_def done_with_def reject_with_def dispatch_local_def handled_unless_def
      split: if_splits option.splits envelope_body.splits)

lemma relayed_below_limit:
  "relayEnvelope re r env src = (r', RouteRelayed t) \<Longrightarrow> or_else (ev_hopCount env) 0 < or_else (re_maxHopCount re) 4"
  by (auto simp: relayEnvelope_def Let_def reject_with_def split: option.splits if_splits)

lemma sent_of_tail [simp]: "ro_sent (set_tail r k jobs) = ro_sent r" "ro_sent (send_to r p env) = ro_sent r @ [(p, env)]"
  by (simp_all add: set_tail_def send_to_def)

lemma passed_on_bulk: "passed_on r (relay_bulk r k t env) (Some k) t = [(t, env)]"
  by (simp add: passed_on_def relay_bulk_def Let_def waiting_snoc)

lemma passed_on_barrier: "passed_on r (relay_barrier r k t env) (Some k) t = [(t, env)]"
proof (cases "tail_of r k" rule: rev_cases)
  case Nil
  then show ?thesis by (simp add: passed_on_def relay_barrier_def)
next
  case (snoc jobs job)
  obtain e w where "job = (e, w)" by fastforce
  then show ?thesis using snoc by (simp add: passed_on_def relay_barrier_def waiting_snoc)
qed

lemma passed_on_send: "passed_on r (send_to r t env) key t = [(t, env)]"
  by (simp add: passed_on_def split: option.split)

text \<open>A router that relays passes on one envelope, to the target, with one hop more.\<close>

lemma relay_passes_on:
  assumes "relayEnvelope re r env src = (r', RouteRelayed t)"
  shows "passed_on r r' (blob_key_of env t) t = [(t, env\<lparr>ev_hopCount := Some (or_else (ev_hopCount env) 0 + 1)\<rparr>)]"
proof -
  let ?e = "env\<lparr>ev_hopCount := Some (or_else (ev_hopCount env) 0 + 1)\<rparr>"
  have "r' = send_to r t ?e \<or> (\<exists>k. blob_key_of env t = Some k \<and> (r' = relay_bulk r k t ?e \<or> r' = relay_barrier r k t ?e))"
    using assms by (auto simp: relayEnvelope_def Let_def reject_with_def split: option.splits if_splits)
  then show ?thesis by (auto simp: passed_on_send passed_on_bulk passed_on_barrier)
qed

text \<open>
  C8: Relay loops end. Whatever the topology, in a chain of routers in which each routes the
  envelope that the router before it put on the wire or in its transfer's queue, at most as many
  relay as the smallest hop limit of them allows, the hop count of what the last one passes on says
  how many did, and nothing else about the envelope changed. With the default limit of every router
  no envelope is relayed a fifth time.
\<close>

theorem relay_chain_bounded:
  assumes "relay_chain nodes env = Some env'" "nodes \<noteq> []"
    and "\<forall>(re, r, src)\<in>set nodes. or_else (re_maxHopCount re) 4 \<le> limit"
  shows "or_else (ev_hopCount env) 0 + length nodes \<le> limit
    \<and> env' = env\<lparr>ev_hopCount := Some (or_else (ev_hopCount env) 0 + length nodes)\<rparr>"
  using assms
proof (induction nodes arbitrary: env)
  case (Cons node nodes)
  obtain re r src where node: "node = (re, r, src)" by (metis prod_cases3)
  obtain r' t where begin_: "routeEnvelope_begin re r env src = (r', RouteDone (RouteRelayed t))"
    using Cons.prems(1) node by (auto split: prod.splits route_result.splits route_step.splits)
  note rel = relayed_is_relay [OF begin_]
  let ?e = "env\<lparr>ev_hopCount := Some (or_else (ev_hopCount env) 0 + 1)\<rparr>"
  have rest: "relay_chain nodes ?e = Some env'"
    using Cons.prems(1) node begin_ relay_passes_on [OF rel] by simp
  have lt: "or_else (ev_hopCount env) 0 < limit"
    using relayed_below_limit [OF rel] Cons.prems(3) node by auto
  show ?case
  proof (cases "nodes = []")
    case True
    then show ?thesis using rest lt by auto
  next
    case False
    then show ?thesis using Cons.IH [OF rest False] Cons.prems(3) by (simp add: or_else_def)
  qed
qed simp

text \<open>A router that has the gateway's connections under a name of its own forwards once more.\<close>

theorem relay_chain_bounded_witness:
  "\<exists>env'. relay_chain [(demo_router_env, demo_router, Some ''a''), (demo_router_env, demo_router, None)]
        (demo_request ''a'' (Some ''b'')) = Some env' \<and> ev_hopCount env' = Some 2"
proof -
  let ?e = "demo_request ''a'' (Some ''b'')"
  let ?n = "[(demo_router_env, demo_router, Some ''a''), (demo_router_env, demo_router, None)]"
  have "relay_chain ?n ?e \<noteq> None" by code_simp
  then obtain env' where c: "relay_chain ?n ?e = Some env'" by blast
  have h: "ev_hopCount ?e = None" "re_maxHopCount demo_router_env = None" by code_simp+
  have "env' = ?e\<lparr>ev_hopCount := Some (or_else (ev_hopCount ?e) 0 + 2)\<rparr>"
    using relay_chain_bounded [OF c, of 4] h by (simp add: or_else_def)
  then show ?thesis using c h by (simp add: or_else_def)
qed

subsection \<open>Bulk data and checkpoints\<close>

text \<open>
  What a relaying router does with the bulk traffic of its transfers, between other sends: a chunk
  or checkpoint arrives for a target with backpressure, the transport takes the first send of a
  tail, or refuses it.
\<close>

datatype bulk_event =
    BulkArrive string envelope
  | BulkTaken blob_key
  | BulkBroken blob_key
  | BulkOther string envelope

definition bulk_arrive :: "router \<Rightarrow> string \<Rightarrow> envelope \<Rightarrow> router" where
  "bulk_arrive r t env = (case blob_key_of env t of
     None \<Rightarrow> send_to r t env
   | Some k \<Rightarrow> if body_is_blob (ev_body env) then relay_bulk r k t env else relay_barrier r k t env)"

lemma relay_is_bulk_arrive:
  assumes "relayEnvelope re r env src = (r', RouteRelayed t)" "map_get (ro_connections r) t = Some conn" "cn_backpressure conn"
  shows "r' = bulk_arrive r t (env\<lparr>ev_hopCount := Some (or_else (ev_hopCount env) 0 + 1)\<rparr>)"
  using assms by (auto simp: relayEnvelope_def Let_def reject_with_def bulk_arrive_def blob_key_of_def
      split: option.splits if_splits envelope_body.splits)

fun bulk_step :: "router \<Rightarrow> bulk_event \<Rightarrow> router" where
  "bulk_step r (BulkArrive t env) = bulk_arrive r t env"
| "bulk_step r (BulkTaken k) = bulk_sent r k"
| "bulk_step r (BulkBroken k) = bulk_failed r k"
| "bulk_step r (BulkOther p env) = (if blob_key_of env p = None then send_to r p env else r)"

definition bulk_arrivals :: "blob_key \<Rightarrow> bulk_event list \<Rightarrow> envelope list" where
  "bulk_arrivals k evs = List.map_filter (\<lambda>ev. case ev of
     BulkArrive t env \<Rightarrow> if blob_key_of env t = Some k then Some env else None | _ \<Rightarrow> None) evs"

definition on_wire :: "router \<Rightarrow> blob_key \<Rightarrow> envelope list" where
  "on_wire r k = map snd (filter (\<lambda>(p, env). blob_key_of env p = Some k) (ro_sent r))"

definition tails_ok :: "router \<Rightarrow> bool" where
  "tails_ok r \<longleftrightarrow> (\<forall>k. \<forall>(e, w)\<in>set (tail_of r k). \<forall>x\<in>set (e # w). blob_key_of x (fst (snd k)) = Some k)"

lemma on_wire_simps [simp]:
  "on_wire (set_tail r k' jobs) k = on_wire r k"
  "on_wire (send_to r p env) k = on_wire r k @ (if blob_key_of env p = Some k then [env] else [])"
  "on_wire (send_all r p envs) k = on_wire r k @ filter (\<lambda>env. blob_key_of env p = Some k) envs"
  by (auto simp: on_wire_def set_tail_def send_to_def send_all_def filter_map comp_def)

lemma blob_key_target: "blob_key_of env t = Some k \<Longrightarrow> fst (snd k) = t"
  by (auto simp: blob_key_of_def split: envelope_body.splits if_splits)

lemma tails_ok_set:
  "tails_ok r \<Longrightarrow> (\<And>e w x. (e, w) \<in> set jobs \<Longrightarrow> x \<in> set (e # w) \<Longrightarrow> blob_key_of x (fst (snd k)) = Some k) \<Longrightarrow>
   tails_ok (set_tail r k jobs)"
  unfolding tails_ok_def by (auto split: if_splits)

lemma tails_ok_send [simp]: "tails_ok (send_to r p env) = tails_ok r" "tails_ok (send_all r p envs) = tails_ok r"
  by (simp_all add: tails_ok_def)

lemma bulk_arrive_order:
  assumes "tails_ok r"
  shows "tails_ok (bulk_arrive r t env)
    \<and> on_wire (bulk_arrive r t env) k @ waiting_in (tail_of (bulk_arrive r t env) k)
      = on_wire r k @ waiting_in (tail_of r k) @ (if blob_key_of env t = Some k then [env] else [])"
proof (cases "blob_key_of env t")
  case None
  then show ?thesis using assms by (simp add: bulk_arrive_def)
next
  case (Some k')
  have tgt: "fst (snd k') = t" by (rule blob_key_target [OF Some])
  have old: "\<And>e w x. (e, w) \<in> set (tail_of r k') \<Longrightarrow> x \<in> set (e # w) \<Longrightarrow> blob_key_of x t = Some k'"
    using assms tgt unfolding tails_ok_def by fastforce
  show ?thesis
  proof (cases "body_is_blob (ev_body env)")
    case True
    then show ?thesis
      using assms Some old tgt
      by (auto simp: bulk_arrive_def relay_bulk_def Let_def waiting_snoc intro!: tails_ok_set)
  next
    case False
    show ?thesis
    proof (cases "tail_of r k'" rule: rev_cases)
      case Nil
      have "bulk_arrive r t env = send_to r t env"
        using False Some Nil by (simp add: bulk_arrive_def relay_barrier_def)
      then show ?thesis using Some Nil assms by (cases "k = k'") simp_all
    next
      case (snoc jobs job)
      obtain e w where job: "job = (e, w)" by fastforce
      have arr: "bulk_arrive r t env = set_tail r k' (jobs @ [(e, w @ [env])])"
        using False Some snoc job by (simp add: bulk_arrive_def relay_barrier_def)
      have "tails_ok (set_tail r k' (jobs @ [(e, w @ [env])]))"
        using assms old [of e w] old Some snoc job tgt by (intro tails_ok_set) auto
      then show ?thesis using arr snoc job Some by (auto simp: waiting_snoc)
    qed
  qed
qed

lemma bulk_sent_order:
  assumes "tails_ok r"
  shows "tails_ok (bulk_sent r k')
    \<and> on_wire (bulk_sent r k') k @ waiting_in (tail_of (bulk_sent r k') k) = on_wire r k @ waiting_in (tail_of r k)"
proof (cases "tail_of r k'")
  case Nil
  then show ?thesis using assms by (simp add: bulk_sent_def)
next
  case (Cons job jobs)
  obtain e w where job: "job = (e, w)" by fastforce
  have old: "\<And>e w x. (e, w) \<in> set (tail_of r k') \<Longrightarrow> x \<in> set (e # w) \<Longrightarrow> blob_key_of x (fst (snd k')) = Some k'"
    using assms unfolding tails_ok_def by fastforce
  let ?next = "case jobs of [] \<Rightarrow> [] | (e', _) # _ \<Rightarrow> [e']"
  have keys: "\<forall>x\<in>set (w @ ?next). blob_key_of x (fst (snd k')) = Some k'"
  proof -
    have "\<forall>j\<in>set (tail_of r k'). \<forall>x\<in>set (fst j # snd j). blob_key_of x (fst (snd k')) = Some k'"
      using old by (metis prod.collapse)
    then show ?thesis unfolding Cons job by (auto split: list.splits)
  qed
  have st: "bulk_sent r k' = set_tail (send_all r (fst (snd k')) (w @ ?next)) k' jobs"
    using Cons job by (simp add: bulk_sent_def)
  have ok: "tails_ok (bulk_sent r k')"
    unfolding st using assms old Cons by (intro tails_ok_set) auto
  show ?thesis
  proof (cases "k = k'")
    case True
    have "filter (\<lambda>env. blob_key_of env (fst (snd k')) = Some k') (w @ ?next) = w @ ?next"
      using keys by (simp only: filter_True)
    then show ?thesis using ok True Cons job st by (cases jobs) auto
  next
    case False
    have "filter (\<lambda>env. blob_key_of env (fst (snd k')) = Some k) (w @ ?next) = []"
      using keys False by (auto simp: filter_empty_conv)
    then show ?thesis using ok False st by simp
  qed
qed

lemma bulk_run_order:
  "tails_ok r \<Longrightarrow> subseq (on_wire r k @ waiting_in (tail_of r k)) hist \<Longrightarrow>
   tails_ok (foldl bulk_step r evs)
   \<and> subseq (on_wire (foldl bulk_step r evs) k @ waiting_in (tail_of (foldl bulk_step r evs) k)) (hist @ bulk_arrivals k evs)
   \<and> (BulkBroken k \<notin> set evs \<and> on_wire r k @ waiting_in (tail_of r k) = hist \<longrightarrow>
        on_wire (foldl bulk_step r evs) k @ waiting_in (tail_of (foldl bulk_step r evs) k) = hist @ bulk_arrivals k evs)"
proof (induction evs arbitrary: r hist)
  case Nil
  then show ?case by (simp add: bulk_arrivals_def List.map_filter_simps)
next
  case (Cons ev evs)
  let ?a = "bulk_arrivals k [ev]"
  have split: "bulk_arrivals k (ev # evs) = ?a @ bulk_arrivals k evs"
    by (simp add: bulk_arrivals_def List.map_filter_def)
  have step: "tails_ok (bulk_step r ev)
    \<and> subseq (on_wire (bulk_step r ev) k @ waiting_in (tail_of (bulk_step r ev) k)) (hist @ ?a)
    \<and> (ev \<noteq> BulkBroken k \<and> on_wire r k @ waiting_in (tail_of r k) = hist \<longrightarrow>
        on_wire (bulk_step r ev) k @ waiting_in (tail_of (bulk_step r ev) k) = hist @ ?a)"
  proof (cases ev)
    case (BulkArrive t env)
    have "?a = (if blob_key_of env t = Some k then [env] else [])"
      by (simp add: bulk_arrivals_def BulkArrive List.map_filter_simps)
    then show ?thesis
      using bulk_arrive_order [OF Cons.prems(1), of t env k] Cons.prems(2) BulkArrive
      by (auto simp flip: append_assoc intro: list_emb_append_mono)
  next
    case (BulkTaken k')
    then show ?thesis using bulk_sent_order [OF Cons.prems(1), of k' k] Cons.prems(2)
      by (simp add: bulk_arrivals_def List.map_filter_simps)
  next
    case (BulkBroken k')
    have "subseq (on_wire r k) hist" using Cons.prems(2) subseq_order.order_trans list_emb_append2 by (metis list_emb_prefix subseq_order.order_refl append.right_neutral list_emb_append_mono list_emb_Nil)
    then show ?thesis using Cons.prems BulkBroken
      by (auto simp: bulk_arrivals_def List.map_filter_simps bulk_failed_def intro!: tails_ok_set)
  next
    case (BulkOther p env)
    then show ?thesis using Cons.prems by (auto simp: bulk_arrivals_def List.map_filter_simps)
  qed
  have s1: "tails_ok (bulk_step r ev)" "subseq (on_wire (bulk_step r ev) k @ waiting_in (tail_of (bulk_step r ev) k)) (hist @ ?a)"
    using step by blast+
  show ?case using Cons.IH [OF s1] step by (auto simp: split)
qed

text \<open>
  C9: Bulk order. In every run of chunk and checkpoint arrivals, transport completions and failures
  of any number of transfers, what a transfer has on the wire is a subsequence of what arrived for
  it, in order: no chunk overtakes another and no checkpoint overtakes the data before it. Without
  a failed send of that transfer nothing is lost: what is on the wire followed by what still waits
  is exactly what arrived.
\<close>

theorem bulk_order_preserved:
  "subseq (on_wire (foldl bulk_step router_new evs) k) (bulk_arrivals k evs)
   \<and> (BulkBroken k \<in> set evs
      \<or> on_wire (foldl bulk_step router_new evs) k @ waiting_in (tail_of (foldl bulk_step router_new evs) k)
          = bulk_arrivals k evs)"
proof -
  have e: "tail_of router_new k' = []" "on_wire router_new k' = []" for k'
    by (simp_all add: tail_of_def router_new_def on_wire_def or_else_def)
  have "tails_ok router_new" by (simp add: tails_ok_def e)
  from bulk_run_order [OF this, of k "[]" evs] e
  have r: "subseq (on_wire (foldl bulk_step router_new evs) k @ waiting_in (tail_of (foldl bulk_step router_new evs) k)) (bulk_arrivals k evs)"
    "BulkBroken k \<notin> set evs \<longrightarrow> on_wire (foldl bulk_step router_new evs) k @ waiting_in (tail_of (foldl bulk_step router_new evs) k) = bulk_arrivals k evs"
    by simp_all
  have "subseq xs (xs @ ys)" for xs ys :: "envelope list" by (simp add: list_emb_prefix)
  then show ?thesis using r subseq_order.order_trans by blast
qed

end
