(* ===== verification/FederationSessions.thy ===== *)
theory FederationSessions
  imports Prelude "HOL-Library.Multiset"
begin

text \<open>
  The session side of federation: which session a peer gets (federation/src/federation-policy.ts,
  federation-redaction.ts), the registry of active sessions (federation-session-state.ts), and the
  pending requests of an RPC endpoint (federation-rpc.ts). A promise of the endpoint is an entry of
  \<open>pending\<close>; its settlement is appended to \<open>settled\<close>. Request ids, which the code draws with
  \<open>randomUUID\<close>, are chosen by the caller.
\<close>

subsection \<open>Session policy\<close>

datatype auth_failure_code =
    InvalidProtocolVersion | InvalidPeerId | UnknownPeer | RevokedPeer | MissingInvite | ExpiredInvite
  | WrongGateway | ReusedInvite | BadSignature | CapabilityDenied | PolicyDenied

fun FAILURE_MESSAGES :: "auth_failure_code \<Rightarrow> string" where
  "FAILURE_MESSAGES InvalidProtocolVersion = ''Protocol version is not supported.''"
| "FAILURE_MESSAGES InvalidPeerId = ''Peer id is invalid.''"
| "FAILURE_MESSAGES UnknownPeer = ''Peer is not enrolled.''"
| "FAILURE_MESSAGES RevokedPeer = ''Peer has been revoked.''"
| "FAILURE_MESSAGES MissingInvite = ''Enrollment invite is missing.''"
| "FAILURE_MESSAGES ExpiredInvite = ''Enrollment invite is expired.''"
| "FAILURE_MESSAGES WrongGateway = ''Enrollment invite belongs to a different gateway.''"
| "FAILURE_MESSAGES ReusedInvite = ''Enrollment invite has already been used.''"
| "FAILURE_MESSAGES BadSignature = ''Peer proof signature is invalid.''"
| "FAILURE_MESSAGES CapabilityDenied = ''Requested capability is not authorized.''"
| "FAILURE_MESSAGES PolicyDenied = ''Federation policy denied the session.''"

record redacted_failure =
  rf_code :: auth_failure_code
  rf_message :: string

definition federationFailure :: "auth_failure_code \<Rightarrow> redacted_failure" where
  "federationFailure code = \<lparr>rf_code = code, rf_message = FAILURE_MESSAGES code\<rparr>"

record peer_summary =
  pe_id :: string
  pe_status :: string
  pe_revokedAt :: "int option"

definition PROTOCOL_VERSION :: int where "PROTOCOL_VERSION = 1"

definition evaluateFederationSessionPolicy ::
  "peer_summary option \<Rightarrow> int \<Rightarrow> string list \<Rightarrow> redacted_failure + string list" where
  "evaluateFederationSessionPolicy peer protocolVersion requested =
     (if protocolVersion \<noteq> PROTOCOL_VERSION then Inl (federationFailure InvalidProtocolVersion)
      else case peer of
        None \<Rightarrow> Inl (federationFailure UnknownPeer)
      | Some p \<Rightarrow>
          (if pe_status p = ''revoked'' \<or> pe_revokedAt p \<noteq> None then Inl (federationFailure RevokedPeer)
           else if requested = [] then Inl (federationFailure CapabilityDenied)
           else Inr requested))"

subsection \<open>Session registry\<close>

datatype close_reason = CloseReplaced | CloseRevoked | CloseTimeout | CloseTransportClosed

record session =
  se_sessionId :: string
  se_peerId :: string
  se_connectedAt :: int
  se_lastHeartbeatAt :: int
  se_capabilities :: "string list"
  se_active :: bool
  se_closedAt :: "int option"
  se_closeReason :: "close_reason option"

type_synonym session_registry = "(string, session) jsmap"

definition close_session :: "int \<Rightarrow> close_reason \<Rightarrow> session \<Rightarrow> session" where
  "close_session now reason s = s\<lparr>se_active := False, se_closedAt := Some now, se_closeReason := Some reason\<rparr>"

definition closeSession ::
  "session_registry \<Rightarrow> string \<Rightarrow> int \<Rightarrow> close_reason \<Rightarrow> session_registry \<times> session option" where
  "closeSession m i now reason = (case map_get m i of
     None \<Rightarrow> (m, None)
   | Some s \<Rightarrow> if \<not> se_active s then (m, Some s)
       else (map_set m i (close_session now reason s), Some (close_session now reason s)))"

text \<open>Closes, in registry order, the active sessions that satisfy \<open>p\<close>; the iteration reads each
  session when it comes to it.\<close>

fun close_visit ::
  "(session \<Rightarrow> bool) \<Rightarrow> int \<Rightarrow> close_reason \<Rightarrow> session_registry \<times> session list \<Rightarrow> string \<times> session \<Rightarrow>
   session_registry \<times> session list" where
  "close_visit p now reason (m, closed) (i, s) =
     (if p s \<and> se_active s
      then (case closeSession m (se_sessionId s) now reason of
              (m', None) \<Rightarrow> (m', closed) | (m', Some s') \<Rightarrow> (m', closed @ [s']))
      else (m, closed))"

definition close_where ::
  "(session \<Rightarrow> bool) \<Rightarrow> int \<Rightarrow> close_reason \<Rightarrow> session_registry \<Rightarrow> session_registry \<times> session list" where
  "close_where p now reason m = foldl (close_visit p now reason) (m, []) m"

definition openSession ::
  "session_registry \<Rightarrow> string \<Rightarrow> string \<Rightarrow> int \<Rightarrow> string list \<Rightarrow> session_registry \<times> session" where
  "openSession m i p now caps =
     (let m1 = fst (close_where (\<lambda>s. se_peerId s = p) now CloseReplaced m);
          s = \<lparr>se_sessionId = i, se_peerId = p, se_connectedAt = now, se_lastHeartbeatAt = now,
               se_capabilities = caps, se_active = True, se_closedAt = None, se_closeReason = None\<rparr>
      in (map_set m1 i s, s))"

definition session_heartbeat :: "session_registry \<Rightarrow> string \<Rightarrow> int \<Rightarrow> session_registry" where
  "session_heartbeat m i now = (case map_get m i of
     None \<Rightarrow> m | Some s \<Rightarrow> if se_active s then map_set m i (s\<lparr>se_lastHeartbeatAt := now\<rparr>) else m)"

definition closePeerSessions ::
  "session_registry \<Rightarrow> string \<Rightarrow> int \<Rightarrow> close_reason \<Rightarrow> session_registry \<times> session list" where
  "closePeerSessions m p now reason = close_where (\<lambda>s. se_peerId s = p) now reason m"

definition expireStaleSessions :: "session_registry \<Rightarrow> int \<Rightarrow> int \<Rightarrow> session_registry \<times> session list" where
  "expireStaleSessions m now timeout = close_where (\<lambda>s. se_lastHeartbeatAt s + timeout \<le> now) now CloseTimeout m"

definition listActiveSessions :: "session_registry \<Rightarrow> session list" where
  "listActiveSessions m = filter se_active (map_vals m)"

datatype session_event =
    SessOpen string string int "string list"
  | SessHeartbeat string int
  | SessClose string int close_reason
  | SessClosePeer string int close_reason
  | SessExpire int int

fun session_step :: "session_registry \<Rightarrow> session_event \<Rightarrow> session_registry" where
  "session_step m (SessOpen i p now caps) = fst (openSession m i p now caps)"
| "session_step m (SessHeartbeat i now) = session_heartbeat m i now"
| "session_step m (SessClose i now reason) = fst (closeSession m i now reason)"
| "session_step m (SessClosePeer p now reason) = fst (closePeerSessions m p now reason)"
| "session_step m (SessExpire now timeout) = fst (expireStaleSessions m now timeout)"

declare map_of_eq_Some_iff [simp del]

text \<open>Sessions are filed under their own id, and a peer has at most one active session.\<close>

definition registry_filed :: "session_registry \<Rightarrow> bool" where
  "registry_filed m \<longleftrightarrow> wf_map m \<and> (\<forall>i s. map_get m i = Some s \<longrightarrow> se_sessionId s = i)"

definition one_active :: "session_registry \<Rightarrow> bool" where
  "one_active m \<longleftrightarrow> (\<forall>i j s t. map_get m i = Some s \<and> map_get m j = Some t \<and> se_active s \<and> se_active t
     \<and> se_peerId s = se_peerId t \<longrightarrow> i = j)"

lemma closeSession_get:
  assumes "registry_filed m"
  shows "registry_filed (fst (closeSession m i now reason))"
    "map_get (fst (closeSession m i now reason)) j =
       (if j = i then map_option (\<lambda>s. if se_active s then close_session now reason s else s) (map_get m i)
        else map_get m j)"
  using assms by (auto simp: closeSession_def registry_filed_def close_session_def split: option.splits)

definition closed_if :: "(session \<Rightarrow> bool) \<Rightarrow> int \<Rightarrow> close_reason \<Rightarrow> session \<Rightarrow> session" where
  "closed_if p now reason s = (if p s \<and> se_active s then close_session now reason s else s)"

lemma close_where_fold:
  fixes acc :: "session list"
  assumes "wf_map (done @ rest)" "registry_filed m"
    and "\<And>j. map_get m j = (case map_get (done @ rest) j of None \<Rightarrow> None
        | Some s \<Rightarrow> Some (if j \<in> set (map_keys done) then closed_if p now reason s else s))"
    and "\<forall>(i, s)\<in>set rest. se_sessionId s = i"
  defines "m' \<equiv> fst (foldl (close_visit p now reason) (m, acc) rest)"
  shows "registry_filed m' \<and> (\<forall>j. map_get m' j = map_option (closed_if p now reason) (map_get (done @ rest) j))"
  using assms(1-4) unfolding m'_def
proof (induction rest arbitrary: "done" m acc)
  case Nil
  then show ?case by (auto simp: map_of_eq_None_iff split: option.splits) (metis (no_types) fst_conv image_eqI map_of_SomeD)+
next
  case (Cons x rest)
  obtain i s where x: "x = (i, s)" by fastforce
  have id: "se_sessionId s = i" using Cons.prems(4) x by auto
  have notin: "i \<notin> fst ` set done" using Cons.prems(1) x by auto
  have get: "map_get (done @ x # rest) i = Some s" using notin x by (simp add: map_add_Some_iff map_of_eq_None_iff)
  define m1 where "m1 = (if p s \<and> se_active s then fst (closeSession m i now reason) else m)"
  obtain acc1 where step: "foldl (close_visit p now reason) (m, acc) (x # rest)
    = foldl (close_visit p now reason) (m1, acc1) rest"
  proof -
    have v: "fst (close_visit p now reason (m, acc) (i, s)) = m1"
      by (simp add: id m1_def split: prod.splits option.splits)
    show ?thesis by (rule that [of "snd (close_visit p now reason (m, acc) (i, s))"]) (simp add: x v [symmetric])
  qed
  have f1: "registry_filed m1" using Cons.prems(2) closeSession_get(1) by (simp add: m1_def)
  have g1: "map_get m1 j = (case map_get ((done @ [x]) @ rest) j of None \<Rightarrow> None
      | Some s \<Rightarrow> Some (if j \<in> set (map_keys (done @ [x])) then closed_if p now reason s else s))" for j
  proof (cases "j = i")
    case True
    have "map_get m i = Some s" using Cons.prems(3) [of i] get notin by simp
    then show ?thesis using True get x closeSession_get(2) [OF Cons.prems(2)]
      by (auto simp: m1_def closed_if_def)
  next
    case False
    then show ?thesis using Cons.prems(3) [of j] x closeSession_get(2) [OF Cons.prems(2)]
      by (auto simp: m1_def split: option.splits)
  qed
  show ?case
    unfolding step using Cons.IH [OF _ f1 g1] Cons.prems(1,4) by simp
qed

lemma close_where_get:
  assumes "registry_filed m"
  shows "registry_filed (fst (close_where p now reason m))"
    "map_get (fst (close_where p now reason m)) j = map_option (closed_if p now reason) (map_get m j)"
proof -
  have filed: "\<forall>(i, s)\<in>set m. se_sessionId s = i"
    using assms wf_map_get_in [of m] unfolding registry_filed_def by blast
  have "registry_filed (fst (close_where p now reason m))
    \<and> (\<forall>j. map_get (fst (close_where p now reason m)) j = map_option (closed_if p now reason) (map_get ([] @ m) j))"
    unfolding close_where_def
    by (rule close_where_fold) (use assms filed in \<open>auto simp: registry_filed_def split: option.splits\<close>)
  then show "registry_filed (fst (close_where p now reason m))"
    "map_get (fst (close_where p now reason m)) j = map_option (closed_if p now reason) (map_get m j)" by auto
qed

lemma closed_if_keeps: "se_sessionId (closed_if p now r s) = se_sessionId s" "se_peerId (closed_if p now r s) = se_peerId s"
  "se_active (closed_if p now r s) \<longleftrightarrow> se_active s \<and> \<not> p s"
  by (auto simp: closed_if_def close_session_def)

lemma one_active_shrink:
  assumes "one_active m"
    and "\<And>j t. map_get m' j = Some t \<Longrightarrow>
      \<exists>s. map_get m j = Some s \<and> se_peerId s = se_peerId t \<and> (se_active t \<longrightarrow> se_active s)"
  shows "one_active m'"
  unfolding one_active_def
proof (intro allI impI)
  fix i j s t
  assume a: "map_get m' i = Some s \<and> map_get m' j = Some t \<and> se_active s \<and> se_active t \<and> se_peerId s = se_peerId t"
  obtain s0 t0 where "map_get m i = Some s0" "se_peerId s0 = se_peerId s" "se_active s0"
    "map_get m j = Some t0" "se_peerId t0 = se_peerId t" "se_active t0"
    using a assms(2) by metis
  then show "i = j" using assms(1) a unfolding one_active_def by metis
qed

lemma session_step_ok:
  assumes "registry_filed m" "one_active m"
  shows "registry_filed (session_step m ev) \<and> one_active (session_step m ev)"
proof -
  have cw: "registry_filed (fst (close_where p now reason m)) \<and> one_active (fst (close_where p now reason m))" for p now reason
  proof -
    have "one_active (fst (close_where p now reason m))"
      by (rule one_active_shrink [OF assms(2)])
        (auto simp: close_where_get(2) [OF assms(1)] closed_if_keeps)
    then show ?thesis using close_where_get(1) [OF assms(1)] by blast
  qed
  show ?thesis
  proof (cases ev)
    case (SessOpen i p now caps)
    let ?m1 = "fst (close_where (\<lambda>s. se_peerId s = p) now CloseReplaced m)"
    have none: "\<not> se_active s" if s: "map_get ?m1 j = Some s" "se_peerId s = p" for j s
    proof -
      obtain z where "s = closed_if (\<lambda>s. se_peerId s = p) now CloseReplaced z"
        using s(1) close_where_get(2) [OF assms(1)] by auto
      then show ?thesis using s(2) by (simp add: closed_if_keeps)
    qed
    obtain new where o: "fst (openSession m i p now caps) = map_set ?m1 i new" "se_sessionId new = i" "se_peerId new = p"
      by (simp add: openSession_def Let_def)
    note m1 = cw [of "\<lambda>s. se_peerId s = p" now CloseReplaced]
    have "registry_filed (map_set ?m1 i new)" using m1 o(2) by (simp add: registry_filed_def)
    moreover have "one_active (map_set ?m1 i new)"
      unfolding one_active_def
    proof (intro allI impI)
      fix j k s t
      assume a: "map_get (map_set ?m1 i new) j = Some s \<and> map_get (map_set ?m1 i new) k = Some t
        \<and> se_active s \<and> se_active t \<and> se_peerId s = se_peerId t"
      show "j = k"
      proof (cases "j = i \<or> k = i")
        case True
        then show ?thesis using a none o(3) by (metis map_get_set option.inject)
      next
        case False
        then show ?thesis using a m1 unfolding one_active_def by (metis map_get_set)
      qed
    qed
    ultimately show ?thesis using SessOpen o(1) by simp
  next
    case (SessHeartbeat i now)
    have "one_active (session_heartbeat m i now)"
      by (rule one_active_shrink [OF assms(2)])
        (auto simp: session_heartbeat_def split: option.splits if_splits)
    moreover have "registry_filed (session_heartbeat m i now)"
      using assms(1) by (simp add: session_heartbeat_def registry_filed_def split: option.split)
    ultimately show ?thesis using SessHeartbeat by simp
  next
    case (SessClose i now reason)
    have "one_active (fst (closeSession m i now reason))"
      by (rule one_active_shrink [OF assms(2)])
        (auto simp: closeSession_get(2) [OF assms(1)] close_session_def split: if_splits)
    then show ?thesis using closeSession_get(1) [OF assms(1)] SessClose by simp
  qed (simp_all add: closePeerSessions_def expireStaleSessions_def cw)
qed

text \<open>
  C14: A peer has at most one active session. Whatever sessions were opened, kept alive, closed or
  expired, two active sessions of the registry never belong to the same peer; and after
  \<open>expireStaleSessions\<close> every active session had a heartbeat within the timeout.
\<close>

theorem one_active_session_per_peer:
  "distinct (map se_peerId (listActiveSessions (foldl session_step [] evs)))
    \<and> (\<forall>s\<in>set (listActiveSessions (fst (expireStaleSessions (foldl session_step [] evs) now timeout))).
         now < se_lastHeartbeatAt s + timeout)"
proof -
  define m where "m = foldl session_step []"
  have run: "registry_filed r \<Longrightarrow> one_active r \<Longrightarrow> registry_filed (foldl session_step r evs) \<and> one_active (foldl session_step r evs)" for r
  proof (induction evs arbitrary: r)
    case (Cons ev evs)
    then show ?case using session_step_ok [OF Cons.prems, of ev] by simp
  qed simp
  have ok: "registry_filed (m evs)" "one_active (m evs)"
    using run [of "[]"] by (simp_all add: m_def registry_filed_def one_active_def)
  have dist: "distinct (map se_peerId (filter se_active (map_vals r)))"
    if "registry_filed r" "one_active r" for r
    using that
  proof (induction r)
    case (Cons x r)
    obtain i s where x: "x = (i, s)" by fastforce
    have wf: "wf_map r" "i \<notin> fst ` set r" using Cons.prems(1) x by (auto simp: registry_filed_def)
    have sub: "map_get r j = Some t \<Longrightarrow> j \<noteq> i \<and> map_get (x # r) j = Some t" for j t
      using wf(2) x by (force dest: map_of_SomeD)
    have "registry_filed r" "one_active r"
      using Cons.prems wf(1) sub unfolding registry_filed_def one_active_def by blast+
    moreover have neq: "se_peerId t \<noteq> se_peerId s" if "(j, t) \<in> set r" "se_active t" "se_active s" for j t
    proof -
      have "map_get r j = Some t" using that(1) wf_map_get_in [OF wf(1)] by blast
      then have "j \<noteq> i" "map_get (x # r) j = Some t" using sub by blast+
      moreover have "map_get (x # r) i = Some s" by (simp add: x)
      ultimately show ?thesis using Cons.prems(2) that(2,3) unfolding one_active_def by metis
    qed
    ultimately have "distinct (map se_peerId (filter se_active (map_vals r)))"
      using Cons.IH by blast
    moreover have "se_peerId s \<notin> se_peerId ` set (filter se_active (map_vals r))" if "se_active s"
    proof
      assume "se_peerId s \<in> se_peerId ` set (filter se_active (map_vals r))"
      then obtain j t where "(j, t) \<in> set r" "se_active t" "se_peerId s = se_peerId t" by auto
      then show False using neq that by metis
    qed
    ultimately have "distinct (map se_peerId (filter se_active (map_vals r)))"
      "se_active s \<Longrightarrow> se_peerId s \<notin> se_peerId ` set (filter se_active (map_vals r))" by blast+
    then show ?case by (simp add: x)
  qed simp
  have "now < se_lastHeartbeatAt s + timeout"
    if s: "s \<in> set (listActiveSessions (fst (expireStaleSessions (m evs) now timeout)))" for s
  proof -
    let ?r = "fst (expireStaleSessions (m evs) now timeout)"
    have f: "registry_filed ?r"
      and g: "\<And>j. map_get ?r j = map_option (closed_if (\<lambda>s. se_lastHeartbeatAt s + timeout \<le> now) now CloseTimeout) (map_get (m evs) j)"
      using close_where_get [OF ok(1)] by (simp_all add: expireStaleSessions_def)
    obtain i where "(i, s) \<in> set ?r" and act: "se_active s" using s by (auto simp: listActiveSessions_def)
    then have "map_get ?r i = Some s" using f wf_map_get_in unfolding registry_filed_def by metis
    then obtain t where "s = closed_if (\<lambda>s. se_lastHeartbeatAt s + timeout \<le> now) now CloseTimeout t"
      using g by auto
    then show ?thesis using act by (auto simp: closed_if_def close_session_def split: if_splits)
  qed
  then show ?thesis using dist [OF ok] by (simp add: listActiveSessions_def m_def)
qed

theorem one_active_session_per_peer_witness:
  "distinct (map se_peerId (listActiveSessions (foldl session_step []
     [SessOpen ''s1'' ''p'' 0 [], SessOpen ''s2'' ''q'' 2 [], SessOpen ''s3'' ''p'' 5 []])))
   \<and> map se_sessionId (listActiveSessions (fst (expireStaleSessions (foldl session_step []
     [SessOpen ''s1'' ''p'' 0 [], SessOpen ''s2'' ''q'' 2 [], SessOpen ''s3'' ''p'' 5 []]) 12 10))) = [''s3'']"
  using one_active_session_per_peer [of "[SessOpen ''s1'' ''p'' 0 [], SessOpen ''s2'' ''q'' 2 [], SessOpen ''s3'' ''p'' 5 []]"]
  by (rule conjI [OF conjunct1]) code_simp

subsection \<open>Pending requests of an endpoint\<close>

datatype rpc_outcome =
    RpcResult string
  | RpcFailed string string
  | RpcTimedOut string
  | RpcAborted
  | RpcRejected string

record rpc_endpoint =
  rpc_pending :: "(string, string) jsmap"
  rpc_settled :: "(string \<times> rpc_outcome) list"

definition rpc_settle :: "rpc_endpoint \<Rightarrow> string \<Rightarrow> rpc_outcome \<Rightarrow> rpc_endpoint \<times> bool" where
  "rpc_settle r i outcome =
     (if \<not> map_has (rpc_pending r) i then (r, False)
      else (r\<lparr>rpc_pending := map_del (rpc_pending r) i, rpc_settled := rpc_settled r @ [(i, outcome)]\<rparr>, True))"

text \<open>
  \<open>request\<close>: \<open>remaining\<close> is the time to the deadline (\<open>None\<close>: no timeout), \<open>aborted\<close> the state of
  the signal at the call, \<open>thrown\<close> an error of the send.
\<close>

definition timed_out_message :: "string \<Rightarrow> string" where
  "timed_out_message m = ''Federation request timed out: '' @ m"

definition rpc_request ::
  "rpc_endpoint \<Rightarrow> string \<Rightarrow> string \<Rightarrow> bool \<Rightarrow> int option \<Rightarrow> string option \<Rightarrow> rpc_endpoint" where
  "rpc_request r i m aborted remaining thrown =
     (if aborted then r\<lparr>rpc_settled := rpc_settled r @ [(i, RpcAborted)]\<rparr>
      else if (case remaining of None \<Rightarrow> False | Some ms \<Rightarrow> ms \<le> 0)
      then r\<lparr>rpc_settled := rpc_settled r @ [(i, RpcTimedOut (timed_out_message m))]\<rparr>
      else (let r1 = r\<lparr>rpc_pending := map_set (rpc_pending r) i m\<rparr>
            in case thrown of None \<Rightarrow> r1 | Some message \<Rightarrow> fst (rpc_settle r1 i (RpcRejected message))))"

definition rpc_error_text :: "string \<Rightarrow> string \<Rightarrow> string" where
  "rpc_error_text code message = (if message \<noteq> [] \<and> message \<noteq> code then code @ '': '' @ message else code)"

definition resolveResponse :: "rpc_endpoint \<Rightarrow> string \<Rightarrow> string \<Rightarrow> rpc_endpoint \<times> bool" where
  "resolveResponse r i result = rpc_settle r i (RpcResult result)"

definition rejectError :: "rpc_endpoint \<Rightarrow> string option \<Rightarrow> string \<Rightarrow> string \<Rightarrow> rpc_endpoint \<times> bool" where
  "rejectError r i code message = (case truthy i of None \<Rightarrow> (r, False)
     | Some i \<Rightarrow> rpc_settle r i (RpcFailed code (rpc_error_text code message)))"

definition rejectAll :: "rpc_endpoint \<Rightarrow> string \<Rightarrow> rpc_endpoint" where
  "rejectAll r message = \<lparr>rpc_pending = [],
     rpc_settled = rpc_settled r @ map (\<lambda>i. (i, RpcRejected message)) (map_keys (rpc_pending r))\<rparr>"

datatype rpc_event =
    RpcRequest string string bool "int option" "string option"
  | RpcResponse string string
  | RpcErrorEnvelope "string option" string string
  | RpcTimer string
  | RpcAbortSignal string
  | RpcRejectAll string

text \<open>A timer fires only while its request is pending: settling clears it.\<close>

fun rpc_step :: "rpc_endpoint \<Rightarrow> rpc_event \<Rightarrow> rpc_endpoint" where
  "rpc_step r (RpcRequest i m aborted remaining thrown) = rpc_request r i m aborted remaining thrown"
| "rpc_step r (RpcResponse i result) = fst (resolveResponse r i result)"
| "rpc_step r (RpcErrorEnvelope i code message) = fst (rejectError r i code message)"
| "rpc_step r (RpcTimer i) = fst (rpc_settle r i
     (RpcTimedOut (timed_out_message (or_else (map_get (rpc_pending r) i) ''''))))"
| "rpc_step r (RpcAbortSignal i) = fst (rpc_settle r i RpcAborted)"
| "rpc_step r (RpcRejectAll message) = rejectAll r message"

fun requested_ids :: "rpc_event list \<Rightarrow> string list" where
  "requested_ids [] = []"
| "requested_ids (RpcRequest i m a rm th # evs) = i # requested_ids evs"
| "requested_ids (_ # evs) = requested_ids evs"

definition rpc_ids :: "rpc_endpoint \<Rightarrow> string multiset" where
  "rpc_ids r = mset (map_keys (rpc_pending r)) + mset (map fst (rpc_settled r))"

lemma mset_del: "wf_map m \<Longrightarrow> map_has m k \<Longrightarrow> mset (map_keys m) = add_mset k (mset (map_keys (map_del m k)))"
proof (induction m)
  case (Cons x m)
  have "k \<notin> fst ` set m \<Longrightarrow> map_del m k = m" by (simp add: delete_id)
  then show ?case using Cons by (cases x) (auto simp: map_has_key)
qed simp

lemma rpc_settle_ids:
  assumes "wf_map (rpc_pending r)"
  shows "rpc_ids (fst (rpc_settle r i out)) = rpc_ids r \<and> wf_map (rpc_pending (fst (rpc_settle r i out)))"
  using assms mset_del [OF assms, of i] by (auto simp: rpc_settle_def rpc_ids_def)

lemma rpc_step_ids:
  assumes "wf_map (rpc_pending r)" "distinct (requested_ids [ev])" "\<forall>i\<in>set (requested_ids [ev]). i \<notin># rpc_ids r"
  shows "rpc_ids (rpc_step r ev) = rpc_ids r + mset (requested_ids [ev]) \<and> wf_map (rpc_pending (rpc_step r ev))"
proof (cases ev)
  case (RpcRequest i m aborted remaining thrown)
  let ?r1 = "r\<lparr>rpc_pending := map_set (rpc_pending r) i m\<rparr>"
  have new: "i \<notin> set (map_keys (rpc_pending r))" using assms(3) RpcRequest by (auto simp: rpc_ids_def)
  have r1: "rpc_ids ?r1 = add_mset i (rpc_ids r)" "wf_map (rpc_pending ?r1)"
    using new assms(1) by (simp_all add: rpc_ids_def map_set_new)
  then have s1: "rpc_ids (fst (rpc_settle ?r1 i out)) = add_mset i (rpc_ids r)
      \<and> wf_map (rpc_pending (fst (rpc_settle ?r1 i out)))" for out
    using rpc_settle_ids [OF r1(2)] by simp
  have early: "rpc_ids (r\<lparr>rpc_settled := rpc_settled r @ [(i, out)]\<rparr>) = add_mset i (rpc_ids r)" for out
    by (simp add: rpc_ids_def)
  show ?thesis using RpcRequest r1 s1 early assms(1)
    by (auto simp: rpc_request_def Let_def split: option.splits)
next
  case (RpcRejectAll message)
  then show ?thesis by (simp add: rejectAll_def rpc_ids_def comp_def)
qed (use rpc_settle_ids [OF assms(1)] assms(1) in
    \<open>auto simp: resolveResponse_def rejectError_def split: option.splits\<close>)

text \<open>
  C15: Every request settles at most once and none is forgotten. With fresh request ids, after any
  sequence of requests, responses, errors, timeouts, aborts and disconnects, each request that was
  made is either still pending or was settled, and exactly once; after \<open>rejectAll\<close> nothing is pending.
\<close>

theorem rpc_settles_exactly_once:
  assumes "distinct (requested_ids evs)"
  defines "r \<equiv> foldl rpc_step \<lparr>rpc_pending = [], rpc_settled = []\<rparr> evs"
  shows "distinct (map_keys (rpc_pending r) @ map fst (rpc_settled r))
    \<and> set (map_keys (rpc_pending r) @ map fst (rpc_settled r)) = set (requested_ids evs)
    \<and> rpc_pending (rejectAll r message) = []
    \<and> set (map fst (rpc_settled (rejectAll r message))) = set (requested_ids evs)"
proof -
  have cons: "requested_ids (ev # evs) = requested_ids [ev] @ requested_ids evs" for ev evs by (cases ev) auto
  have run: "wf_map (rpc_pending t) \<Longrightarrow> distinct (requested_ids evs) \<Longrightarrow> \<forall>i\<in>set (requested_ids evs). i \<notin># rpc_ids t \<Longrightarrow>
      rpc_ids (foldl rpc_step t evs) = rpc_ids t + mset (requested_ids evs)" for t
  proof (induction evs arbitrary: t)
    case (Cons ev evs)
    have d: "distinct (requested_ids [ev])" "\<forall>i\<in>set (requested_ids [ev]). i \<notin># rpc_ids t"
      using Cons.prems(2,3) cons [of ev evs] by simp_all
    note step = rpc_step_ids [OF Cons.prems(1) d]
    have "\<forall>i\<in>set (requested_ids evs). i \<notin># rpc_ids (rpc_step t ev)"
      using step Cons.prems(2,3) cons [of ev evs] by auto
    then show ?case using Cons.IH [of "rpc_step t ev"] step Cons.prems(2) cons [of ev evs] by (simp add: ac_simps)
  qed simp
  have ids: "mset (map_keys (rpc_pending r) @ map fst (rpc_settled r)) = mset (requested_ids evs)"
    using run [of "\<lparr>rpc_pending = [], rpc_settled = []\<rparr>"] assms(1) by (simp add: r_def rpc_ids_def)
  then show ?thesis
    using assms(1) mset_eq_imp_distinct_iff [OF ids] mset_eq_setD [OF ids]
    by (auto simp: rejectAll_def image_Un)
qed

theorem rpc_settles_exactly_once_witness:
  "set (map fst (rpc_settled (rejectAll (foldl rpc_step \<lparr>rpc_pending = [], rpc_settled = []\<rparr>
      [RpcRequest ''a'' ''m'' False None None, RpcRequest ''b'' ''m'' False (Some 5) None,
       RpcTimer ''b'', RpcResponse ''b'' ''late'']) ''gone''))) = {''a'', ''b''}"
  using rpc_settles_exactly_once [of "[RpcRequest ''a'' ''m'' False None None, RpcRequest ''b'' ''m'' False (Some 5) None,
       RpcTimer ''b'', RpcResponse ''b'' ''late'']" "''gone''"] by simp

end
