(* ===== verification/RateLimits.thy ===== *)
theory RateLimits
  imports Complex_Main Prelude
begin

text \<open>
  Sliding-window rate accounting of the messaging layer: \<open>MessagingRateLimitGate\<close>
  (messaging/interface/src/rate-limit-gate.ts), which paces calls to a provider's API per bucket,
  \<open>MessagingDeliveryBudget\<close> (main/messaging/core/messaging-delivery-budget.ts), which admits,
  defers or drops outbound messages per delivery scope, and the streaming edit backoff
  (messaging-coalesce-backoff.ts). The two windows share the contract of the locale
  \<open>sliding_window\<close>. The clock is read once per call. Times are integer milliseconds.
\<close>

subsection \<open>MessagingRateLimitGate\<close>

record gate_bucket =
  gk_id :: string
  gk_intervalMs :: int
  gk_limit :: nat
  gk_minIntervalMs :: "int option"

datatype gate_admission = GateAdmitted | GateRefused int

record gate_state =
  gs_blockedUntil :: int
  gs_timestamps :: "int list"

type_synonym gate = "(string, gate_state) jsmap"

definition gate_stateFor :: "gate \<Rightarrow> string \<Rightarrow> gate_state" where
  "gate_stateFor g i = (case map_get g i of Some s \<Rightarrow> s
     | None \<Rightarrow> \<lparr>gs_blockedUntil = 0, gs_timestamps = []\<rparr>)"

definition gate_prune :: "gate_state \<Rightarrow> gate_bucket \<Rightarrow> int \<Rightarrow> gate_state" where
  "gate_prune s b now =
     s\<lparr>gs_timestamps := dropWhile (\<lambda>t. t \<le> now - gk_intervalMs b) (gs_timestamps s)\<rparr>"

definition gate_admit :: "gate \<Rightarrow> int \<Rightarrow> gate_bucket \<Rightarrow> gate \<times> gate_admission" where
  "gate_admit g now b =
     (let s = gate_prune (gate_stateFor g (gk_id b)) b now;
          ts = gs_timestamps s;
          intervalReadyAt = (if ts = [] then now
             else last ts + max 0 (case gk_minIntervalMs b of None \<Rightarrow> 0 | Some m \<Rightarrow> m));
          windowReadyAt = (if length ts < gk_limit b then now
             else (case ts of [] \<Rightarrow> now | t # _ \<Rightarrow> t) + gk_intervalMs b);
          retryAt = max (gs_blockedUntil s) (max intervalReadyAt windowReadyAt)
      in if now < retryAt then (map_set g (gk_id b) s, GateRefused retryAt)
         else (map_set g (gk_id b) (s\<lparr>gs_timestamps := ts @ [now]\<rparr>), GateAdmitted))"

definition gate_recordRateLimit :: "gate \<Rightarrow> int \<Rightarrow> string \<Rightarrow> int \<Rightarrow> gate" where
  "gate_recordRateLimit g now i retryAfterMs =
     (let s = gate_stateFor g i
      in map_set g i (s\<lparr>gs_blockedUntil := max (gs_blockedUntil s) (now + max 0 retryAfterMs)\<rparr>))"

definition gate_clear :: "gate \<Rightarrow> string option \<Rightarrow> gate" where
  "gate_clear g i = (case i of None \<Rightarrow> [] | Some k \<Rightarrow> map_del g k)"

subsection \<open>MessagingDeliveryBudget\<close>

datatype delivery_priority =
  CriticalInteractive | FinalTurn | UserCommand | RoutineStatus | ToolProgress | StreamPartial

record scope_budget =
  sb_limit :: "rat option"
  sb_intervalMs :: "rat option"
  sb_reserved :: "rat option"

record delivery_scope =
  ds_id :: string
  ds_budget :: "scope_budget option"

datatype defer_reason = DeferCoolOff | DeferBudgetExhausted
datatype drop_reason = DropCoolOff | DropSlowMode | DropBudgetExhausted | DropMissingScope

datatype delivery_admission =
    Admitted (slowMode: bool)
  | Deferred (deferReason: defer_reason) (retryAt: int) (slowMode: bool)
  | Dropped (dropReason: drop_reason) (slowMode: bool)

record scope_state =
  ss_coolOffUntil :: "int option"
  ss_slowModeUntil :: "int option"
  ss_timestamps :: "int list"

type_synonym delivery_budget = "(string, scope_state) jsmap"

definition RATE_LIMIT_SAFETY_BUFFER_MS :: int where "RATE_LIMIT_SAFETY_BUFFER_MS = 2000"
definition SLOW_MODE_RECOVERY_MS :: int where "SLOW_MODE_RECOVERY_MS = 5 * 60000"
definition SLOW_MODE_MINIMUM_MS :: int where "SLOW_MODE_MINIMUM_MS = 5000"

definition SLOW_MODE_DROP_PRIORITIES :: "delivery_priority list" where
  "SLOW_MODE_DROP_PRIORITIES = [RoutineStatus, ToolProgress, StreamPartial]"

definition DEFERABLE_PRIORITIES :: "delivery_priority list" where
  "DEFERABLE_PRIORITIES = [CriticalInteractive, FinalTurn, UserCommand]"

definition budget_field :: "(scope_budget \<Rightarrow> rat option) \<Rightarrow> rat \<Rightarrow> delivery_scope \<Rightarrow> rat" where
  "budget_field f d s = (case ds_budget s of None \<Rightarrow> d | Some b \<Rightarrow> (case f b of None \<Rightarrow> d | Some v \<Rightarrow> v))"

definition budgetLimit :: "delivery_scope \<Rightarrow> int" where
  "budgetLimit s = max 1 \<lfloor>budget_field sb_limit 60 s\<rfloor>"

definition budgetIntervalMs :: "delivery_scope \<Rightarrow> int" where
  "budgetIntervalMs s = max 1 \<lfloor>budget_field sb_intervalMs 60000 s\<rfloor>"

definition budgetReserved :: "delivery_scope \<Rightarrow> int" where
  "budgetReserved s = max 0 \<lfloor>budget_field sb_reserved 1 s\<rfloor>"

definition scope_stateFor :: "delivery_budget \<Rightarrow> delivery_scope \<Rightarrow> scope_state" where
  "scope_stateFor b s = (case map_get b (ds_id s) of Some st \<Rightarrow> st
     | None \<Rightarrow> \<lparr>ss_coolOffUntil = None, ss_slowModeUntil = None, ss_timestamps = []\<rparr>)"

definition expired :: "int option \<Rightarrow> int \<Rightarrow> bool" where
  "expired u now \<longleftrightarrow> (case u of None \<Rightarrow> False | Some t \<Rightarrow> t \<le> now)"

definition scope_pruneState :: "scope_state \<Rightarrow> delivery_scope \<Rightarrow> int \<Rightarrow> scope_state" where
  "scope_pruneState st s now =
     (let cutoff = now - budgetIntervalMs s;
          st1 = st\<lparr>ss_timestamps := filter (\<lambda>t. cutoff < t) (ss_timestamps st)\<rparr>;
          st2 = (if expired (ss_coolOffUntil st1) now then st1\<lparr>ss_coolOffUntil := None\<rparr> else st1)
      in if expired (ss_slowModeUntil st2) now then st2\<lparr>ss_slowModeUntil := None\<rparr> else st2)"

definition scope_hasCapacity :: "delivery_scope \<Rightarrow> scope_state \<Rightarrow> delivery_priority \<Rightarrow> bool" where
  "scope_hasCapacity s st p =
     (let limit = budgetLimit s; used = int (length (ss_timestamps st))
      in if limit \<le> used then False
         else if p \<in> set DEFERABLE_PRIORITIES then True
         else used < max 0 (limit - budgetReserved s))"

definition nextWindowAt :: "delivery_scope \<Rightarrow> scope_state \<Rightarrow> int \<Rightarrow> int" where
  "nextWindowAt s st now = (case ss_timestamps st of [] \<Rightarrow> now | t # _ \<Rightarrow> t + budgetIntervalMs s)"

definition later :: "int option \<Rightarrow> int \<Rightarrow> bool" where
  "later u now \<longleftrightarrow> (case u of None \<Rightarrow> False | Some t \<Rightarrow> now < t)"

definition budget_admit ::
  "delivery_budget \<Rightarrow> int \<Rightarrow> bool \<Rightarrow> delivery_priority \<Rightarrow> delivery_scope option
   \<Rightarrow> delivery_budget \<times> delivery_admission" where
  "budget_admit b now consumeCapacity p scope = (case scope of
     None \<Rightarrow> (b, Admitted False)
   | Some s \<Rightarrow>
      (let st = scope_pruneState (scope_stateFor b s) s now;
           b1 = map_set b (ds_id s) st;
           slow = later (ss_slowModeUntil st) now
       in if later (ss_coolOffUntil st) now then
            (b1, if p \<in> set DEFERABLE_PRIORITIES
                 then Deferred DeferCoolOff (the (ss_coolOffUntil st)) slow
                 else Dropped DropCoolOff slow)
          else if slow \<and> p \<in> set SLOW_MODE_DROP_PRIORITIES then (b1, Dropped DropSlowMode slow)
          else if \<not> consumeCapacity then (b1, Admitted slow)
          else if \<not> scope_hasCapacity s st p then
            (let nextWindow = nextWindowAt s st now;
                 slowUntil = max nextWindow (now + SLOW_MODE_MINIMUM_MS);
                 st1 = st\<lparr>ss_slowModeUntil :=
                   Some (max (case ss_slowModeUntil st of None \<Rightarrow> 0 | Some t \<Rightarrow> t) slowUntil)\<rparr>
             in (map_set b1 (ds_id s) st1,
                 if p \<in> set DEFERABLE_PRIORITIES then Deferred DeferBudgetExhausted nextWindow True
                 else Dropped DropBudgetExhausted True))
          else (map_set b1 (ds_id s) (st\<lparr>ss_timestamps := ss_timestamps st @ [now]\<rparr>), Admitted slow)))"

definition budget_recordRateLimit ::
  "delivery_budget \<Rightarrow> int \<Rightarrow> rat option \<Rightarrow> delivery_scope \<Rightarrow> delivery_budget" where
  "budget_recordRateLimit b now retryAfter s =
     (let retryAfterMs = max 0 \<lfloor>case retryAfter of None \<Rightarrow> 0 | Some r \<Rightarrow> r\<rfloor>;
          st = scope_stateFor b s;
          cool = max (case ss_coolOffUntil st of None \<Rightarrow> 0 | Some t \<Rightarrow> t)
                   (now + retryAfterMs + RATE_LIMIT_SAFETY_BUFFER_MS)
      in map_set b (ds_id s) (st\<lparr>ss_coolOffUntil := Some cool,
           ss_slowModeUntil := Some (max (case ss_slowModeUntil st of None \<Rightarrow> 0 | Some t \<Rightarrow> t)
             (cool + SLOW_MODE_RECOVERY_MS))\<rparr>))"

definition budget_isScopeInSlowMode ::
  "delivery_budget \<Rightarrow> int \<Rightarrow> delivery_scope option \<Rightarrow> delivery_budget \<times> bool" where
  "budget_isScopeInSlowMode b now scope = (case scope of
     None \<Rightarrow> (b, False)
   | Some s \<Rightarrow> (case map_get b (ds_id s) of
        None \<Rightarrow> (b, False)
      | Some st \<Rightarrow> (let st1 = scope_pruneState st s now
                    in (map_set b (ds_id s) st1, later (ss_slowModeUntil st1) now))))"

subsection \<open>Streaming edit backoff\<close>

definition coalesceBackoffMs :: "int \<Rightarrow> int" where
  "coalesceBackoffMs releaseCount =
     (if releaseCount \<le> 0 then 400 else min (1000 * 2 ^ nat (releaseCount - 1)) 16000)"

subsection \<open>The sliding-window contract\<close>

definition in_window :: "int \<Rightarrow> int \<Rightarrow> int list \<Rightarrow> int list" where
  "in_window lo hi ts = filter (\<lambda>t. lo < t \<and> t \<le> hi) ts"

fun window_run :: "('s \<Rightarrow> 'e \<Rightarrow> 's \<times> bool) \<Rightarrow> ('e \<Rightarrow> int) \<Rightarrow> 's \<Rightarrow> 'e list \<Rightarrow> int list" where
  "window_run step clock s [] = []"
| "window_run step clock s (e # es) =
     (let (s', ok) = step s e
      in (if ok then [clock e] else []) @ window_run step clock s' es)"

locale sliding_window =
  fixes step :: "'s \<Rightarrow> 'e \<Rightarrow> 's \<times> bool"
    and clock :: "'e \<Rightarrow> int"
    and stamps :: "'s \<Rightarrow> int list"
    and interval :: int
    and limit :: int
  assumes counted: "sorted (stamps s) \<Longrightarrow> \<forall>t\<in>set (stamps s). t \<le> clock e \<Longrightarrow> step s e = (s', True) \<Longrightarrow>
      stamps s' = filter (\<lambda>t. clock e - interval < t) (stamps s) @ [clock e]
      \<and> (0 < interval \<longrightarrow> int (length (filter (\<lambda>t. clock e - interval < t) (stamps s))) < limit)"
    and uncounted: "sorted (stamps s) \<Longrightarrow> \<forall>t\<in>set (stamps s). t \<le> clock e \<Longrightarrow> step s e = (s', False) \<Longrightarrow>
      stamps s' = filter (\<lambda>t. clock e - interval < t) (stamps s)"
begin

definition windowed :: "int list \<Rightarrow> bool" where
  "windowed ts \<longleftrightarrow> (\<forall>hi. int (length (in_window (hi - interval) hi ts)) \<le> max 0 limit)"

definition tracks :: "'s \<Rightarrow> int \<Rightarrow> int list \<Rightarrow> bool" where
  "tracks s now hist \<longleftrightarrow> sorted (stamps s) \<and> (\<forall>t\<in>set (stamps s). t \<le> now)
     \<and> filter (\<lambda>t. now - interval < t) (stamps s) = filter (\<lambda>t. now - interval < t) hist"

lemma windowed_snoc:
  assumes "windowed hist" and "\<forall>t\<in>set hist. t \<le> now"
    and few: "0 < interval \<longrightarrow> int (length (filter (\<lambda>t. now - interval < t) hist)) < limit"
  shows "windowed (hist @ [now])"
  unfolding windowed_def
proof
  fix hi
  show "int (length (in_window (hi - interval) hi (hist @ [now]))) \<le> max 0 limit"
  proof (cases "hi - interval < now \<and> now \<le> hi")
    case True
    then have pos: "0 < interval" by simp
    have "length (in_window (hi - interval) hi hist)
        \<le> length (filter (\<lambda>t. now - interval < t) hist)"
      unfolding in_window_def
      by (rule length_filter_mono) (use True in auto)
    then show ?thesis using few pos True by (simp add: in_window_def)
  next
    case False
    then show ?thesis using assms(1) by (auto simp: windowed_def in_window_def)
  qed
qed

lemma refilter:
  assumes "earlier \<le> now"
    and "filter (\<lambda>t. earlier - interval < t) xs = filter (\<lambda>t. earlier - interval < t) ys"
  shows "filter (\<lambda>t. now - interval < t) xs = filter (\<lambda>t. now - interval < t) ys"
proof -
  have f: "filter (\<lambda>t. now - interval < t) zs
      = filter (\<lambda>t. now - interval < t) (filter (\<lambda>t. earlier - interval < t) zs)" for zs
    using assms(1) by (auto intro: filter_cong)
  show ?thesis by (subst (1 2) f) (simp add: assms(2))
qed

lemma run_windowed:
  assumes "windowed hist" "sorted hist" "\<forall>t\<in>set hist. t \<le> start" "tracks s start hist"
    and "sorted (start # map clock es)"
  shows "windowed (hist @ window_run step clock s es)"
  using assms
proof (induction es arbitrary: hist start s)
  case Nil
  then show ?case by simp
next
  case (Cons e es)
  let ?now = "clock e"
  obtain s' ok where one: "step s e = (s', ok)" by fastforce
  have le: "start \<le> ?now" using Cons.prems(5) by simp
  have st: "sorted (stamps s)" "\<forall>t\<in>set (stamps s). t \<le> ?now"
    using Cons.prems(4) le by (auto simp: tracks_def)
  have re: "filter (\<lambda>t. ?now - interval < t) (stamps s) = filter (\<lambda>t. ?now - interval < t) hist"
    by (rule refilter [OF le]) (use Cons.prems(4) in \<open>simp add: tracks_def\<close>)
  have hist: "\<forall>t\<in>set hist. t \<le> ?now" using Cons.prems(3) le by auto
  show ?case
  proof (cases ok)
    case True
    have one': "step s e = (s', True)" using one True by simp
    note c = counted [OF st one', unfolded re]
    have "tracks s' ?now (hist @ [?now])"
      using c st by (auto simp: tracks_def sorted_append sorted_wrt_filter re [symmetric])
    moreover have "windowed (hist @ [?now])"
      using windowed_snoc [OF Cons.prems(1) hist] c by blast
    ultimately have "windowed ((hist @ [?now]) @ window_run step clock s' es)"
      using Cons.IH [of "hist @ [clock e]" "clock e" s'] Cons.prems(2,5) hist
      by (auto simp: sorted_append)
    then show ?thesis using one True by simp
  next
    case False
    have u: "stamps s' = filter (\<lambda>t. ?now - interval < t) (stamps s)"
      using uncounted [OF st, of s'] False one by simp
    have "tracks s' ?now hist"
      unfolding tracks_def u
      by (intro conjI) (simp add: sorted_wrt_filter st(1), use st(2) in simp, simp add: re)
    then have "windowed (hist @ window_run step clock s' es)"
      using Cons.IH [of hist "clock e" s'] Cons.prems hist by auto
    then show ?thesis using one False by simp
  qed
qed

lemma run_within_limit:
  assumes "stamps s = []" and "sorted (map clock es)"
  shows "int (length (in_window (hi - interval) hi (window_run step clock s es))) \<le> max 0 limit"
proof (cases es)
  case Nil
  then show ?thesis by (simp add: in_window_def)
next
  case (Cons e es')
  have "windowed ([] @ window_run step clock s es)"
    by (rule run_windowed [where start = "clock e"])
      (use assms Cons in \<open>auto simp: windowed_def in_window_def tracks_def\<close>)
  then show ?thesis by (simp add: windowed_def)
qed

end

subsection \<open>The gate and the delivery budget keep the contract\<close>

definition gate_stamps :: "string \<Rightarrow> gate \<Rightarrow> int list" where
  "gate_stamps i g = gs_timestamps (gate_stateFor g i)"

definition gate_step :: "gate_bucket \<Rightarrow> gate \<Rightarrow> int \<Rightarrow> gate \<times> bool" where
  "gate_step b g now = (let (g', a) = gate_admit g now b in (g', a = GateAdmitted))"

lemma dropWhile_old: "sorted ts \<Longrightarrow> dropWhile (\<lambda>t. t \<le> c) ts = filter (\<lambda>t. c < t) (ts :: int list)"
  by (induction ts) (auto intro!: filter_True [symmetric])

lemma gate_stateFor_set [simp]:
  "gate_stateFor (map_set g i s) j = (if j = i then s else gate_stateFor g j)"
  by (simp add: gate_stateFor_def)

definition gate_retryAt :: "gate_state \<Rightarrow> int \<Rightarrow> gate_bucket \<Rightarrow> int" where
  "gate_retryAt s now b =
     (let ts = gs_timestamps s
      in max (gs_blockedUntil s)
           (max (if ts = [] then now else last ts + max 0 (case gk_minIntervalMs b of None \<Rightarrow> 0 | Some m \<Rightarrow> m))
                (if length ts < gk_limit b then now
                 else (case ts of [] \<Rightarrow> now | t # _ \<Rightarrow> t) + gk_intervalMs b)))"

lemma gate_admit_form:
  "gate_admit g now b =
     (let s = gate_prune (gate_stateFor g (gk_id b)) b now
      in if now < gate_retryAt s now b then (map_set g (gk_id b) s, GateRefused (gate_retryAt s now b))
         else (map_set g (gk_id b) (s\<lparr>gs_timestamps := gs_timestamps s @ [now]\<rparr>), GateAdmitted))"
  unfolding gate_admit_def gate_retryAt_def Let_def ..

lemma gate_stamps_prune:
  "sorted (gate_stamps (gk_id b) g) \<Longrightarrow>
   gs_timestamps (gate_prune (gate_stateFor g (gk_id b)) b now) =
     filter (\<lambda>t. now - gk_intervalMs b < t) (gate_stamps (gk_id b) g)"
  by (simp add: gate_prune_def gate_stamps_def dropWhile_old)

lemma gate_stamps_admit:
  assumes "gate_admit g now b = (g', a)" and "sorted (gate_stamps (gk_id b) g)"
  shows "gate_stamps (gk_id b) g' =
    filter (\<lambda>t. now - gk_intervalMs b < t) (gate_stamps (gk_id b) g) @ (if a = GateAdmitted then [now] else [])"
  using assms(1) gate_stamps_prune [OF assms(2)]
  unfolding gate_admit_form by (auto simp: gate_stamps_def Let_def split: if_splits)

lemma gate_admitted_room:
  assumes "gate_admit g now b = (g', GateAdmitted)" and "sorted (gate_stamps (gk_id b) g)"
    and "0 < gk_intervalMs b"
  shows "length (filter (\<lambda>t. now - gk_intervalMs b < t) (gate_stamps (gk_id b) g)) < gk_limit b"
proof (rule ccontr)
  let ?ts = "filter (\<lambda>t. now - gk_intervalMs b < t) (gate_stamps (gk_id b) g)"
  let ?s = "gate_prune (gate_stateFor g (gk_id b)) b now"
  assume full: "\<not> length ?ts < gk_limit b"
  have ts: "gs_timestamps ?s = ?ts" by (rule gate_stamps_prune [OF assms(2)])
  have "now < (case ?ts of [] \<Rightarrow> now | t # _ \<Rightarrow> t) + gk_intervalMs b"
    using assms(3) by (auto dest: filter_eq_ConsD split: list.split)
  then have "now < gate_retryAt ?s now b"
    using full unfolding gate_retryAt_def ts Let_def by simp
  then show False using assms(1) by (simp add: gate_admit_form Let_def)
qed

interpretation gw: sliding_window "gate_step b" "\<lambda>t. t" "gate_stamps (gk_id b)" "gk_intervalMs b" "int (gk_limit b)"
  for b
  by unfold_locales
    (auto simp: gate_step_def gate_stamps_admit gate_admitted_room split: prod.splits)

text \<open>A refusal names a time strictly later than now, and admits nothing before the block ends.\<close>

lemma gate_refused_later: "gate_admit g now b = (g', GateRefused r) \<Longrightarrow> now < r"
  by (auto simp: gate_admit_form Let_def split: if_splits)

lemma gate_blocked_refuses:
  assumes "now < gs_blockedUntil (gate_stateFor g (gk_id b))"
  shows "\<exists>r g'. gate_admit g now b = (g', GateRefused r) \<and> gs_blockedUntil (gate_stateFor g (gk_id b)) \<le> r"
proof -
  let ?s = "gate_prune (gate_stateFor g (gk_id b)) b now"
  have "gs_blockedUntil ?s \<le> gate_retryAt ?s now b"
    unfolding gate_retryAt_def Let_def by (rule max.cobounded1)
  moreover have "gs_blockedUntil ?s = gs_blockedUntil (gate_stateFor g (gk_id b))"
    by (simp add: gate_prune_def)
  ultimately show ?thesis using assms by (simp add: gate_admit_form Let_def)
qed

text \<open>Deliveries of one scope; the count is of admissions that consume capacity.\<close>

type_synonym delivery_event = "int \<times> bool \<times> delivery_priority"

definition scope_stamps :: "delivery_scope \<Rightarrow> delivery_budget \<Rightarrow> int list" where
  "scope_stamps s b = ss_timestamps (scope_stateFor b s)"

fun delivery_step :: "delivery_scope \<Rightarrow> delivery_budget \<Rightarrow> delivery_event \<Rightarrow> delivery_budget \<times> bool" where
  "delivery_step s b (now, consume, p) =
     (let (b', a) = budget_admit b now consume p (Some s)
      in (b', consume \<and> (case a of Admitted _ \<Rightarrow> True | _ \<Rightarrow> False)))"

lemma scope_stateFor_set [simp]:
  "scope_stateFor (map_set b (ds_id s) st) s' = (if ds_id s' = ds_id s then st else scope_stateFor b s')"
  by (simp add: scope_stateFor_def)

lemma ss_timestamps_prune [simp]:
  "ss_timestamps (scope_pruneState st s now) = filter (\<lambda>t. now - budgetIntervalMs s < t) (ss_timestamps st)"
  by (simp add: scope_pruneState_def Let_def)

lemma ss_coolOff_prune [simp]:
  "ss_coolOffUntil (scope_pruneState st s now) =
     (if expired (ss_coolOffUntil st) now then None else ss_coolOffUntil st)"
  by (simp add: scope_pruneState_def Let_def)

lemma scope_capacity_room: "scope_hasCapacity s st p \<Longrightarrow> int (length (ss_timestamps st)) < budgetLimit s"
  by (simp add: scope_hasCapacity_def Let_def split: if_splits)

lemma scope_capacity_reserved:
  "scope_hasCapacity s st p \<Longrightarrow> p \<notin> set DEFERABLE_PRIORITIES \<Longrightarrow>
   int (length (ss_timestamps st)) < budgetLimit s - budgetReserved s"
  by (simp add: scope_hasCapacity_def Let_def split: if_splits)

lemma delivery_window:
  "sliding_window (delivery_step s) fst (scope_stamps s) (budgetIntervalMs s) (budgetLimit s)"
proof
  fix b b' and e :: delivery_event
  assume step: "delivery_step s b e = (b', True)"
  obtain now c p where e: "e = (now, c, p)" by (cases e)
  show "scope_stamps s b' = filter (\<lambda>t. fst e - budgetIntervalMs s < t) (scope_stamps s b) @ [fst e]
      \<and> (0 < budgetIntervalMs s \<longrightarrow> int (length (filter (\<lambda>t. fst e - budgetIntervalMs s < t) (scope_stamps s b))) < budgetLimit s)"
    using step scope_capacity_room [of s "scope_pruneState (scope_stateFor b s) s now" p]
    by (auto simp: e scope_stamps_def budget_admit_def Let_def split: if_splits)
next
  fix b b' and e :: delivery_event
  assume step: "delivery_step s b e = (b', False)"
  obtain now c p where e: "e = (now, c, p)" by (cases e)
  show "scope_stamps s b' = filter (\<lambda>t. fst e - budgetIntervalMs s < t) (scope_stamps s b)"
    using step by (auto simp: e scope_stamps_def budget_admit_def Let_def split: if_splits)
qed

interpretation dw: sliding_window "delivery_step s" fst "scope_stamps s" "budgetIntervalMs s" "budgetLimit s"
  for s
  by (rule delivery_window)

text \<open>What each branch of an admission says, for the scope's state after pruning.\<close>

lemma deferable_or_droppable:
  "p \<in> set DEFERABLE_PRIORITIES \<longleftrightarrow> p \<notin> set SLOW_MODE_DROP_PRIORITIES"
  by (cases p) (simp_all add: DEFERABLE_PRIORITIES_def SLOW_MODE_DROP_PRIORITIES_def)

lemma deferable_not_dropped:
  "p \<in> set DEFERABLE_PRIORITIES \<Longrightarrow> budget_admit b now c p scope = (b', Dropped r m) \<Longrightarrow> False"
  by (simp add: budget_admit_def Let_def deferable_or_droppable split: option.splits if_splits)

lemma pruned_stamps_recent:
  "ss_timestamps (scope_pruneState st s now) = t # ts \<Longrightarrow> now < t + budgetIntervalMs s"
  by (auto dest: filter_eq_ConsD)

lemma full_scope_retry_later:
  assumes "\<not> scope_hasCapacity s (scope_pruneState st s now) p" and "p \<in> set DEFERABLE_PRIORITIES"
  shows "now < nextWindowAt s (scope_pruneState st s now) now"
proof (cases "ss_timestamps (scope_pruneState st s now)")
  case Nil
  then show ?thesis using assms by (simp add: scope_hasCapacity_def budgetLimit_def Let_def split: if_splits)
next
  case (Cons t ts)
  then show ?thesis using pruned_stamps_recent [OF Cons] by (simp add: nextWindowAt_def)
qed

lemma deferred_retry_later:
  assumes "budget_admit b now c p (Some s) = (b', Deferred r t m)"
  shows "now < t"
proof -
  let ?st = "scope_pruneState (scope_stateFor b s) s now"
  consider "later (ss_coolOffUntil ?st) now" "t = the (ss_coolOffUntil ?st)"
    | "\<not> scope_hasCapacity s ?st p" "p \<in> set DEFERABLE_PRIORITIES" "t = nextWindowAt s ?st now"
    using assms by (simp add: budget_admit_def Let_def split: if_splits)
  then show ?thesis
  proof cases
    case 1
    then show ?thesis by (auto simp: later_def split: option.splits)
  next
    case 2
    then show ?thesis using full_scope_retry_later by simp
  qed
qed

lemma cool_off_not_admitted:
  assumes "ss_coolOffUntil (scope_stateFor b s) = Some u" and "now < u"
  shows "snd (budget_admit b now c p (Some s)) \<noteq> Admitted m"
proof -
  have "later (ss_coolOffUntil (scope_pruneState (scope_stateFor b s) s now)) now"
    using assms by (simp add: expired_def later_def)
  then show ?thesis by (simp add: budget_admit_def Let_def)
qed

lemma cool_off_answer:
  assumes "ss_coolOffUntil (scope_stateFor b s) = Some u" and "now < u"
  shows "\<exists>m. snd (budget_admit b now c p (Some s)) =
    (if p \<in> set DEFERABLE_PRIORITIES then Deferred DeferCoolOff u m else Dropped DropCoolOff m)"
proof -
  have "later (ss_coolOffUntil (scope_pruneState (scope_stateFor b s) s now)) now"
    "ss_coolOffUntil (scope_pruneState (scope_stateFor b s) s now) = Some u"
    using assms by (simp_all add: expired_def later_def)
  then show ?thesis by (simp add: budget_admit_def Let_def)
qed

lemma recordRateLimit_coolOff:
  "\<exists>u. ss_coolOffUntil (scope_stateFor (budget_recordRateLimit b now r s) s) = Some u \<and> now + 2000 \<le> u"
proof -
  define ms where "ms = max 0 \<lfloor>case r of None \<Rightarrow> 0 | Some r \<Rightarrow> r\<rfloor>"
  have "0 \<le> ms" by (simp add: ms_def)
  then show ?thesis
    unfolding budget_recordRateLimit_def ms_def [symmetric]
    by (simp add: Let_def RATE_LIMIT_SAFETY_BUFFER_MS_def le_max_iff_disj)
qed

lemma coalesceBackoff_bounds: "400 \<le> coalesceBackoffMs n \<and> coalesceBackoffMs n \<le> 16000"
proof (cases "n \<le> 0")
  case False
  define k where "k = (2::int) ^ nat (n - 1)"
  have "1 \<le> k" by (simp add: k_def)
  then show ?thesis using False by (simp add: coalesceBackoffMs_def k_def [symmetric] min_def)
qed (simp add: coalesceBackoffMs_def)

text \<open>
  A provider's rate limit is never exceeded. However requests of a bucket arrive, the gate admits
  at most \<open>limit\<close> of them in any window of \<open>intervalMs\<close>, wherever the window lies.
\<close>

theorem gate_within_limit:
  assumes "sorted ts"
  shows "length (in_window (hi - gk_intervalMs b) hi (window_run (gate_step b) (\<lambda>t. t) [] ts)) \<le> gk_limit b"
  using gw.run_within_limit [of b "[]" ts hi] assms by (simp add: gate_stamps_def gate_stateFor_def)

theorem gate_within_limit_witness:
  "length (in_window (0 - 10) 0 (window_run (gate_step \<lparr>gk_id = ''a'', gk_intervalMs = 10, gk_limit = 2,
     gk_minIntervalMs = None\<rparr>) (\<lambda>t. t) [] [- 4, - 3, 0])) \<le> 2"
  using gate_within_limit [of "[- 4, - 3, 0]" 0 "\<lparr>gk_id = ''a'', gk_intervalMs = 10, gk_limit = 2,
     gk_minIntervalMs = None\<rparr>"] by simp

text \<open>
  C17: A scope's delivery budget is never exceeded. Whatever priorities ask, in any window of the
  scope's interval at most its limit of capacity-consuming messages is admitted.
\<close>

theorem delivery_within_budget:
  assumes "sorted (map fst es)"
  shows "int (length (in_window (hi - budgetIntervalMs s) hi (window_run (delivery_step s) fst [] es)))
    \<le> budgetLimit s"
  using dw.run_within_limit [of s "[]" es hi] assms
  by (simp add: scope_stamps_def scope_stateFor_def budgetLimit_def)

theorem delivery_within_budget_witness:
  "int (length (in_window 0 60000 (window_run (delivery_step \<lparr>ds_id = ''s'', ds_budget = None\<rparr>) fst []
     [(1, True, FinalTurn), (2, True, ToolProgress)]))) \<le> 60"
  using delivery_within_budget [of "[(1, True, FinalTurn), (2, True, ToolProgress)]" 60000
      "\<lparr>ds_id = ''s'', ds_budget = None\<rparr>"]
  by (simp add: budgetIntervalMs_def budgetLimit_def budget_field_def)

text \<open>
  What a provider's rate limit does to delivery. For the time the provider asked for and two
  seconds more, nothing of the scope is admitted: an interactive message is deferred to a time
  when that is over, any other message is dropped.
\<close>

theorem rate_limit_respected:
  assumes "now < observed + max 0 \<lfloor>r\<rfloor> + 2000"
    and "budget_admit (budget_recordRateLimit b observed (Some r) s) now c p (Some s) = (b', a)"
  shows "if p \<in> set DEFERABLE_PRIORITIES
    then \<exists>t m. a = Deferred DeferCoolOff t m \<and> observed + max 0 \<lfloor>r\<rfloor> + 2000 \<le> t
    else \<exists>m. a = Dropped DropCoolOff m"
proof -
  let ?b = "budget_recordRateLimit b observed (Some r) s"
  obtain u where u: "ss_coolOffUntil (scope_stateFor ?b s) = Some u" "observed + max 0 \<lfloor>r\<rfloor> + 2000 \<le> u"
    by (simp add: budget_recordRateLimit_def Let_def RATE_LIMIT_SAFETY_BUFFER_MS_def le_max_iff_disj)
  have "now < u" using u(2) assms(1) by simp
  from cool_off_answer [OF u(1) this, of c p] obtain m where
    "a = (if p \<in> set DEFERABLE_PRIORITIES then Deferred DeferCoolOff u m else Dropped DropCoolOff m)"
    using assms(2) by auto
  then show ?thesis using u(2) by auto
qed

theorem rate_limit_respected_witness:
  "\<exists>t m. snd (budget_admit (budget_recordRateLimit [] 0 (Some 5) \<lparr>ds_id = ''s'', ds_budget = None\<rparr>) 100 True
      FinalTurn (Some \<lparr>ds_id = ''s'', ds_budget = None\<rparr>)) = Deferred DeferCoolOff t m \<and> 2005 \<le> t"
proof -
  let ?s = "\<lparr>ds_id = ''s'', ds_budget = None\<rparr>"
  have "FinalTurn \<in> set DEFERABLE_PRIORITIES" "100 < 0 + max 0 \<lfloor>5 :: rat\<rfloor> + 2000"
    by (simp_all add: DEFERABLE_PRIORITIES_def)
  with rate_limit_respected [OF this(2) surjective_pairing, where b = "[]" and s = ?s and c = True and p = FinalTurn]
  show ?thesis by simp
qed

text \<open>
  Interactive messages are never lost. A critical, final or user-command message is admitted or
  deferred to a strictly later time, in every state of its scope.
\<close>

theorem interactive_never_dropped:
  assumes "p \<in> set DEFERABLE_PRIORITIES" and "budget_admit b now c p (Some s) = (b', a)"
  shows "(\<exists>m. a = Admitted m) \<or> (\<exists>r t m. a = Deferred r t m \<and> now < t)"
proof (cases a)
  case (Deferred r t m)
  then have "now < t" using assms(2) by (intro deferred_retry_later) simp
  then show ?thesis using Deferred by simp
next
  case (Dropped r m)
  then have False using assms(2) by (intro deferable_not_dropped [OF assms(1)]) simp
  then show ?thesis by (rule FalseE)
qed simp

theorem interactive_never_dropped_witness:
  "\<exists>a. snd (budget_admit [] 7 True UserCommand (Some \<lparr>ds_id = ''s'', ds_budget = None\<rparr>)) = a
     \<and> ((\<exists>m. a = Admitted m) \<or> (\<exists>r t m. a = Deferred r t m \<and> 7 < t))"
proof -
  have "UserCommand \<in> set DEFERABLE_PRIORITIES" by (simp add: DEFERABLE_PRIORITIES_def)
  from interactive_never_dropped [OF this surjective_pairing,
      where b = "[]" and now = 7 and c = True and s = "\<lparr>ds_id = ''s'', ds_budget = None\<rparr>"]
  show ?thesis by blast
qed

end
