(* ===== verification/TokenBuckets.thy ===== *)
theory TokenBuckets
  imports Complex_Main Prelude
begin

text \<open>
  The two continuously refilled budgets of the desktop main process:
  \<open>PrStatusTokenBucket\<close> (main/pr-status/pr-status-token-bucket.ts), which every PR status
  lookup draws on, and \<open>GitUserRefreshBudget\<close> (main/git-info/read-cache.ts), the process-wide
  allowance of forced Git refreshes. Both share the contract of the locale
  \<open>continuous_bucket\<close>, which gives the admission bound of a token bucket once for both. Times and
  balances are rationals: the code's doubles without their rounding.
\<close>

subsection \<open>PrStatusTokenBucket\<close>

definition PR_STATUS_TOKEN_BUCKET_CAPACITY :: rat where
  "PR_STATUS_TOKEN_BUCKET_CAPACITY = 20"

definition PR_STATUS_TOKEN_BUCKET_REFILL_PER_MINUTE :: rat where
  "PR_STATUS_TOKEN_BUCKET_REFILL_PER_MINUTE = 20"

record pr_bucket =
  pb_tokens :: rat
  pb_updatedAt :: rat

definition pr_bucket_new :: "rat \<Rightarrow> pr_bucket" where
  "pr_bucket_new now = \<lparr>pb_tokens = PR_STATUS_TOKEN_BUCKET_CAPACITY, pb_updatedAt = now\<rparr>"

definition pr_refilled :: "pr_bucket \<Rightarrow> rat \<Rightarrow> rat" where
  "pr_refilled b now =
     (let elapsedMs = max 0 (now - pb_updatedAt b)
      in min PR_STATUS_TOKEN_BUCKET_CAPACITY
           (pb_tokens b + elapsedMs * PR_STATUS_TOKEN_BUCKET_REFILL_PER_MINUTE / 60000))"

definition pr_availableTokens :: "pr_bucket \<Rightarrow> int" where
  "pr_availableTokens b = \<lfloor>pb_tokens b\<rfloor>"

definition pr_peek :: "pr_bucket \<Rightarrow> rat \<Rightarrow> int" where
  "pr_peek b now = \<lfloor>pr_refilled b now\<rfloor>"

definition pr_tryTake :: "pr_bucket \<Rightarrow> rat \<Rightarrow> pr_bucket \<times> bool" where
  "pr_tryTake b now =
     (let b1 = b\<lparr>pb_tokens := pr_refilled b now, pb_updatedAt := now\<rparr>
      in if pb_tokens b1 < 1 then (b1, False)
         else (b1\<lparr>pb_tokens := pb_tokens b1 - 1\<rparr>, True))"

subsection \<open>GitUserRefreshBudget\<close>

record git_budget_report =
  gr_directory :: string
  gr_caller :: "string option"
  gr_denied :: nat

text \<open>\<open>lastErrorAt\<close> starts at \<open>-Infinity\<close>: \<open>None\<close> here.\<close>

record git_budget =
  gb_tokens :: rat
  gb_updatedAt :: rat
  gb_lastErrorAt :: "rat option"
  gb_denied :: nat

definition git_budget_new :: "rat \<Rightarrow> git_budget" where
  "git_budget_new now =
     \<lparr>gb_tokens = 10, gb_updatedAt = now, gb_lastErrorAt = None, gb_denied = 0\<rparr>"

definition git_tryTake ::
  "git_budget \<Rightarrow> rat \<Rightarrow> string \<Rightarrow> string option \<Rightarrow> git_budget \<times> bool \<times> git_budget_report option" where
  "git_tryTake b clock key caller =
     (let now = max (gb_updatedAt b) clock;
          b1 = b\<lparr>gb_tokens := min 10 (gb_tokens b + (now - gb_updatedAt b) / 1000), gb_updatedAt := now\<rparr>
      in if 1 \<le> gb_tokens b1 then (b1\<lparr>gb_tokens := gb_tokens b1 - 1\<rparr>, True, None)
         else let b2 = b1\<lparr>gb_denied := gb_denied b1 + 1\<rparr>
              in if (case gb_lastErrorAt b2 of None \<Rightarrow> True | Some lastAt \<Rightarrow> 10000 \<le> now - lastAt)
                 then (b2\<lparr>gb_lastErrorAt := Some now, gb_denied := 0\<rparr>, False,
                       Some \<lparr>gr_directory = key, gr_caller = caller, gr_denied = gb_denied b2\<rparr>)
                 else (b2, False, None))"

subsection \<open>The contract of a continuously refilled bucket\<close>

text \<open>
  A run is a list of clock readings at which a token is asked for; it yields the bucket after the
  run and the number of tokens granted.
\<close>

fun bucket_run :: "('s \<Rightarrow> rat \<Rightarrow> 's \<times> bool) \<Rightarrow> 's \<Rightarrow> rat list \<Rightarrow> 's \<times> nat" where
  "bucket_run take_one s [] = (s, 0)"
| "bucket_run take_one s (t # ts) =
     (let (s1, ok) = take_one s t; (s2, n) = bucket_run take_one s1 ts
      in (s2, if ok then Suc n else n))"

locale continuous_bucket =
  fixes take_one :: "'s \<Rightarrow> rat \<Rightarrow> 's \<times> bool"
    and level :: "'s \<Rightarrow> rat"
    and stamp :: "'s \<Rightarrow> rat"
    and cap :: rat
    and rate :: rat
  assumes rate_pos: "0 < rate"
    and cap_ge_1: "1 \<le> cap"
    and take_time: "stamp s \<le> t \<Longrightarrow> take_one s t = (s', ok) \<Longrightarrow> stamp s' = t"
    and take_level: "stamp s \<le> t \<Longrightarrow> take_one s t = (s', ok) \<Longrightarrow>
      level s' + (if ok then 1 else 0) = min cap (level s + (t - stamp s) * rate)"
    and take_grants: "stamp s \<le> t \<Longrightarrow> take_one s t = (s', ok) \<Longrightarrow>
      ok \<longleftrightarrow> 1 \<le> min cap (level s + (t - stamp s) * rate)"
begin

definition healthy :: "'s \<Rightarrow> bool" where
  "healthy s \<longleftrightarrow> 0 \<le> level s \<and> level s \<le> cap"

lemma take_healthy:
  assumes "healthy s" "stamp s \<le> t" "take_one s t = (s', ok)"
  shows "healthy s'"
proof -
  have nonneg: "0 \<le> (t - stamp s) * rate" using assms(2) rate_pos by simp
  note lvl = take_level [OF assms(2,3)] and grant = take_grants [OF assms(2,3)]
  show ?thesis
    using nonneg lvl grant assms(1) cap_ge_1 unfolding healthy_def by (auto split: if_splits)
qed

text \<open>
  The admission bound: over any run with a clock that does not go back, the number of grants is at
  most the starting balance plus what the elapsed time refills.
\<close>

lemma run_budget:
  assumes "sorted (stamp s # ts)" and "bucket_run take_one s ts = (s', n)"
  shows "level s' + of_nat n \<le> level s + (stamp s' - stamp s) * rate \<and> stamp s' = last (stamp s # ts)"
  using assms
proof (induction ts arbitrary: s s' n)
  case Nil
  then show ?case by simp
next
  case (Cons t ts)
  obtain s1 ok where one: "take_one s t = (s1, ok)" by fastforce
  obtain m where rest: "bucket_run take_one s1 ts = (s', m)" and n: "n = (if ok then Suc m else m)"
    using Cons.prems(2) one by (auto simp: Let_def split: prod.splits if_splits)
  have le: "stamp s \<le> t" using Cons.prems(1) by simp
  have st1: "stamp s1 = t" by (rule take_time [OF le one])
  have "level s1 + (if ok then 1 else 0) \<le> level s + (t - stamp s) * rate"
    using take_level [OF le one] by simp
  moreover have "level s' + of_nat m \<le> level s1 + (stamp s' - stamp s1) * rate \<and> stamp s' = last (stamp s1 # ts)"
    by (rule Cons.IH [OF _ rest]) (use Cons.prems(1) st1 in simp)
  ultimately show ?case
    using n st1 by (auto simp: algebra_simps split: if_splits)
qed

lemma run_healthy:
  "healthy s \<Longrightarrow> sorted (stamp s # ts) \<Longrightarrow> bucket_run take_one s ts = (s', n) \<Longrightarrow> healthy s'"
proof (induction ts arbitrary: s n)
  case Nil
  then show ?case by simp
next
  case (Cons t ts)
  obtain s1 ok where one: "take_one s t = (s1, ok)" by fastforce
  obtain m where rest: "bucket_run take_one s1 ts = (s', m)"
    using Cons.prems(3) one by (auto simp: Let_def split: prod.splits)
  have le: "stamp s \<le> t" using Cons.prems(2) by simp
  have "healthy s1" by (rule take_healthy [OF Cons.prems(1) le one])
  then show ?case
    using Cons.IH [OF _ _ rest] Cons.prems(2) take_time [OF le one] by simp
qed

lemma run_grants_bound:
  assumes "healthy s" and "sorted (stamp s # ts)" and "bucket_run take_one s ts = (s', n)"
  shows "of_nat n \<le> cap + (last (stamp s # ts) - stamp s) * rate"
proof -
  have "healthy s'" by (rule run_healthy [OF assms])
  then show ?thesis
    using run_budget [OF assms(2,3)] assms(1) unfolding healthy_def by auto
qed

text \<open>A refused caller that waits for one token's worth of refill is granted.\<close>

lemma grant_after_wait:
  assumes "healthy s" and "stamp s + 1 / rate \<le> t" and "take_one s t = (s', ok)"
  shows "ok"
proof -
  have pos: "0 < 1 / rate" using rate_pos by simp
  then have le: "stamp s \<le> t" using assms(2) by linarith
  have "1 / rate \<le> t - stamp s" using assms(2) by linarith
  then have "1 \<le> (t - stamp s) * rate" using rate_pos by (simp add: field_simps)
  then show ?thesis
    using take_grants [OF le assms(3)] assms(1) cap_ge_1 unfolding healthy_def by simp
qed

end

interpretation prb: continuous_bucket pr_tryTake pb_tokens pb_updatedAt
  PR_STATUS_TOKEN_BUCKET_CAPACITY "PR_STATUS_TOKEN_BUCKET_REFILL_PER_MINUTE / 60000"
  by unfold_locales
    (auto simp: pr_tryTake_def pr_refilled_def Let_def PR_STATUS_TOKEN_BUCKET_CAPACITY_def
      PR_STATUS_TOKEN_BUCKET_REFILL_PER_MINUTE_def min_def max_def split: if_splits)

definition git_take_one :: "git_budget \<Rightarrow> rat \<Rightarrow> git_budget \<times> bool" where
  "git_take_one b t = (let (b', ok, _) = git_tryTake b t [] None in (b', ok))"

interpretation gitb: continuous_bucket git_take_one gb_tokens gb_updatedAt 10 "1 / 1000"
  by unfold_locales
    (auto simp: git_take_one_def git_tryTake_def Let_def min_def max_def
      split: if_splits option.splits)

text \<open>
  The PR request budget. With a clock that does not go back, the number of PR requests a fresh
  bucket has granted by any time is at most its capacity of 20 plus one for every 3 seconds that
  have passed, and a caller that has waited 3 seconds is granted.
\<close>

theorem pr_requests_bounded:
  assumes "sorted (start # ts)" and "bucket_run pr_tryTake (pr_bucket_new start) ts = (b, n)"
  shows "of_nat n \<le> 20 + (last (start # ts) - start) / 3000
    \<and> snd (pr_tryTake b (last (start # ts) + 3000))"
proof -
  let ?s = "pr_bucket_new start"
  have ok: "prb.healthy ?s" "pb_updatedAt ?s = start"
    unfolding prb.healthy_def by (simp_all add: pr_bucket_new_def PR_STATUS_TOKEN_BUCKET_CAPACITY_def)
  have run: "sorted (pb_updatedAt ?s # ts)" using assms(1) ok(2) by simp
  note bound = prb.run_grants_bound [OF ok(1) run assms(2)]
  have b: "prb.healthy b" "pb_updatedAt b = last (start # ts)"
    using prb.run_healthy [OF ok(1) run assms(2)] prb.run_budget [OF run assms(2)] ok(2) by simp_all
  have "snd (pr_tryTake b (last (start # ts) + 3000))"
    by (rule prb.grant_after_wait [OF b(1) _ prod.collapse [symmetric]])
      (simp add: b(2) PR_STATUS_TOKEN_BUCKET_REFILL_PER_MINUTE_def)
  moreover have "of_nat n \<le> 20 + (last (start # ts) - start) / 3000"
    using bound unfolding ok(2) PR_STATUS_TOKEN_BUCKET_CAPACITY_def PR_STATUS_TOKEN_BUCKET_REFILL_PER_MINUTE_def
    by (simp add: field_simps)
  ultimately show ?thesis by blast
qed

theorem pr_requests_bounded_witness:
  "of_nat (snd (bucket_run pr_tryTake (pr_bucket_new 0) [0, 10, 20])) \<le> 20 + (20 :: rat) / 3000"
  using pr_requests_bounded [of 0 "[0, 10, 20]" "fst (bucket_run pr_tryTake (pr_bucket_new 0) [0, 10, 20])"
      "snd (bucket_run pr_tryTake (pr_bucket_new 0) [0, 10, 20])"] by simp

text \<open>The Git budget reads a clock that went back as one that stood still.\<close>

fun running_max :: "rat \<Rightarrow> rat list \<Rightarrow> rat list" where
  "running_max m [] = []"
| "running_max m (t # ts) = max m t # running_max (max m t) ts"

lemma running_max_sorted: "sorted (m # running_max m ts)"
proof (induction ts arbitrary: m)
  case (Cons t ts)
  have "m \<le> max m t" by simp
  then show ?case unfolding running_max.simps sorted2 using Cons.IH [of "max m t"] by (rule conjI)
qed simp

lemma last_running_max: "last (m # running_max m ts) = foldl max m ts"
  by (induction ts arbitrary: m) simp_all

lemma git_take_clamped:
  "git_take_one b (max (gb_updatedAt b) t) = git_take_one b t"
  "gb_updatedAt (fst (git_take_one b t)) = max (gb_updatedAt b) t"
  by (simp_all add: git_take_one_def git_tryTake_def Let_def)

lemma git_run_clamped:
  "bucket_run git_take_one b ts = bucket_run git_take_one b (running_max (gb_updatedAt b) ts)"
proof (induction ts arbitrary: b)
  case (Cons t ts)
  obtain b' ok where one: "git_take_one b t = (b', ok)" by fastforce
  then show ?case using Cons.IH [of b'] git_take_clamped [of b t] by simp
qed simp

text \<open>
  The Git refresh budget holds whatever the clock does. For any sequence of clock readings,
  also one that jumps back and forth, a fresh budget grants at most 10 refreshes plus one for each
  second by which the furthest reading is past its start.
\<close>

theorem git_refreshes_bounded:
  assumes "bucket_run git_take_one (git_budget_new start) ts = (b, n)"
  shows "of_nat n \<le> 10 + (foldl max start ts - start) / 1000"
proof -
  have s: "gitb.healthy (git_budget_new start)" "gb_updatedAt (git_budget_new start) = start"
    unfolding gitb.healthy_def by (simp_all add: git_budget_new_def)
  have "bucket_run git_take_one (git_budget_new start) (running_max start ts) = (b, n)"
    using assms git_run_clamped [of "git_budget_new start" ts] s(2) by simp
  from gitb.run_grants_bound [OF s(1) _ this] running_max_sorted [of start ts]
  show ?thesis unfolding s(2) last_running_max by simp
qed

theorem git_refreshes_bounded_witness:
  "of_nat (snd (bucket_run git_take_one (git_budget_new 0) [5, 2000, 3])) \<le> 10 + (2000 :: rat) / 1000"
  using git_refreshes_bounded [of 0 "[5, 2000, 3]" "fst (bucket_run git_take_one (git_budget_new 0) [5, 2000, 3])"
      "snd (bucket_run git_take_one (git_budget_new 0) [5, 2000, 3])"] by (simp add: max_def)

end
