(* ===== verification/ThreadDependencies.thy ===== *)
theory ThreadDependencies
  imports Prelude
begin

text \<open>
  Thread dependencies: what one prerequisite says about a thread or pull request, how the evidence
  of a registration is collected and how its prerequisites combine
  (main/app-server/thread-dependency-coordinator.ts, shared/src/contracts/thread-dependencies.ts).
  What the coordinator asks of others is in \<open>dep_env\<close>: reading a thread, which may throw, the
  forge's name for a PR URL, and the parser that compares two PR URLs.
\<close>

subsection \<open>Data\<close>

datatype dep_when = TurnCompleted | PrAttached | CiPassed | PrMerged

record dep_condition =
  dc_backend :: string
  dc_threadId :: string
  dc_when :: dep_when
  dc_turnId :: "string option"
  dc_prUrl :: "string option"
  dc_headSha :: "string option"
  dc_title :: "string option"

datatype dep_state = DepWaiting | DepSatisfied | DepFailed

record dep_evidence =
  de_condition :: dep_condition
  de_state :: dep_state
  de_reason :: string
  de_prUrl :: "string option"
  de_headSha :: "string option"
  de_observedAt :: int

datatype dep_mode = ModeAll | ModeAny
datatype dep_on_failure = FailNotify | FailWait
datatype dep_deliver = DeliverAgent | DeliverOperator
datatype dep_status = StWaiting | StReady | StDispatching | StDelivered | StCancelled | StDismissed
datatype dep_outcome = OutSuccess | OutFailure

record dependency =
  dd_id :: string
  dd_backend :: string
  dd_threadId :: string
  dd_conditions :: "dep_condition list"
  dd_mode :: dep_mode
  dd_onFailure :: dep_on_failure
  dd_continuation :: "string option"
  dd_deliver :: "dep_deliver option"
  dd_handoff :: bool
  dd_status :: dep_status
  dd_outcome :: "dep_outcome option"
  dd_evidence :: "dep_evidence list"
  dd_createdAt :: int
  dd_updatedAt :: int
  dd_turnId :: "string option"
  dd_todoId :: "string option"
  dd_error :: "string option"
  dd_dispatchOwnerPid :: "nat option"

definition threadDependencyDeliveryTarget :: "dependency \<Rightarrow> dep_deliver" where
  "threadDependencyDeliveryTarget d = or_else (dd_deliver d) DeliverAgent"

definition isRepairableDependencyFailure :: "dependency \<Rightarrow> bool" where
  "isRepairableDependencyFailure d \<longleftrightarrow> dd_onFailure d = FailWait
     \<and> list_all (\<lambda>e. de_reason e \<in> set [''CI failed'', ''Merge conflict''])
         (filter (\<lambda>e. de_state e = DepFailed) (dd_evidence d))"

subsection \<open>One prerequisite\<close>

record turn_metadata =
  tm_id :: string
  tm_status :: "string option"

record pr_summary =
  ps_url :: string
  ps_state :: "string option"
  ps_lifecycleState :: "string option"
  ps_reviewState :: "string option"
  ps_mergeState :: "string option"
  ps_checkState :: "string option"
  ps_checksStillRunning :: bool
  ps_headSha :: "string option"

record dep_snapshot =
  sn_activeTurnId :: "string option"
  sn_turns :: "turn_metadata list"
  sn_prs :: "(pr_summary \<times> int) list"

definition CURRENT_STATUS_MAX_AGE_MS :: int where "CURRENT_STATUS_MAX_AGE_MS = 60000"

definition pr_is_merged :: "pr_summary \<Rightarrow> bool" where
  "pr_is_merged pr \<longleftrightarrow> ps_lifecycleState pr = Some ''merged'' \<or> ps_state pr = Some ''merged''"

definition pr_is_draft :: "pr_summary \<Rightarrow> bool" where
  "pr_is_draft pr \<longleftrightarrow> ps_reviewState pr = Some ''draft'' \<or> ps_state pr = Some ''draft''"

definition pr_is_closed :: "pr_summary \<Rightarrow> bool" where
  "pr_is_closed pr \<longleftrightarrow> ps_lifecycleState pr = Some ''closed'' \<or> ps_state pr = Some ''closed''"

definition pr_checks :: "pr_summary \<Rightarrow> string option" where
  "pr_checks pr = (case ps_checkState pr of None \<Rightarrow> ps_state pr | Some s \<Rightarrow> Some s)"

definition FRESH_CI :: string where "FRESH_CI = ''Waiting for fresh CI status for the current head''"

definition evaluate_turn :: "dep_condition \<Rightarrow> turn_metadata option \<Rightarrow> dep_state \<times> string" where
  "evaluate_turn c turn =
     (case turn of
        Some t \<Rightarrow>
          (if tm_status t = Some ''completed'' then (DepSatisfied, ''Turn '' @ tm_id t @ '' completed'')
           else if tm_status t \<in> set [Some ''failed'', Some ''cancelled'', Some ''interrupted'']
           then (DepFailed, ''Turn '' @ tm_id t @ '' '' @ or_else (tm_status t) '''')
           else (DepWaiting, ''Waiting for turn '' @ or_else (dc_turnId c) ''undefined''))
      | None \<Rightarrow> (DepWaiting, ''Waiting for turn '' @ or_else (dc_turnId c) ''undefined''))"

definition evaluate_pr :: "dep_condition \<Rightarrow> pr_summary \<Rightarrow> int \<Rightarrow> int \<Rightarrow> dep_state \<times> string" where
  "evaluate_pr c pr fetchedAt now =
     (if dc_when c = CiPassed \<and> \<not> pr_is_merged pr
         \<and> (truthy (ps_headSha pr) = None \<or> CURRENT_STATUS_MAX_AGE_MS < now - fetchedAt \<or> now < fetchedAt)
      then (DepWaiting, FRESH_CI)
      else if truthy (dc_headSha c) \<noteq> None \<and> ps_headSha pr \<noteq> dc_headSha c
      then (DepFailed, ''The pinned PR head was superseded'')
      else if pr_is_closed pr then (DepFailed, ''PR closed without merging'')
      else if dc_when c = PrAttached then
        (if pr_is_draft pr then (DepWaiting, ''PR is still a draft'')
         else (DepSatisfied, ''Reviewable PR attached''))
      else if dc_when c = PrMerged then
        (if pr_is_merged pr then (DepSatisfied, ''PR merged'') else (DepWaiting, ''Waiting for PR merge''))
      else if pr_is_draft pr then (DepWaiting, ''PR is still a draft'')
      else if ps_mergeState pr = Some ''conflicting'' then (DepFailed, ''Merge conflict'')
      else if pr_checks pr = Some ''failing'' then (DepFailed, ''CI failed'')
      else if pr_checks pr = Some ''passing'' \<and> \<not> ps_checksStillRunning pr
      then (DepSatisfied, ''CI passed for the current head'')
      else if pr_is_merged pr then (DepFailed, ''PR merged without known passing CI'')
      else (DepWaiting, ''Waiting for CI to pass''))"

definition matching_prs ::
  "(string \<Rightarrow> string) \<Rightarrow> dep_condition \<Rightarrow> (pr_summary \<times> int) list \<Rightarrow> (pr_summary \<times> int) list" where
  "matching_prs canonical c prs =
     (case Option.bind (truthy (dc_prUrl c)) (\<lambda>u. truthy (Some (canonical u))) of
        None \<Rightarrow> prs
      | Some wanted \<Rightarrow> filter (\<lambda>(pr, _). canonical (ps_url pr) = wanted) prs)"

definition evaluateCondition ::
  "(string \<Rightarrow> string) \<Rightarrow> dep_condition \<Rightarrow> dep_snapshot \<Rightarrow> int \<Rightarrow> turn_metadata option \<Rightarrow> dep_evidence" where
  "evaluateCondition canonical c snapshot now turn =
     (let result = (\<lambda>(st, reason) pr. \<lparr>de_condition = c, de_state = st, de_reason = reason,
            de_prUrl = map_option ps_url pr, de_headSha = Option.bind pr ps_headSha, de_observedAt = now\<rparr>)
      in if dc_when c = TurnCompleted then result (evaluate_turn c turn) None
         else case matching_prs canonical c (sn_prs snapshot) of
             [] \<Rightarrow> result (DepWaiting, ''Waiting for a primary-workspace PR'') None
           | [(pr, fetchedAt)] \<Rightarrow> result (evaluate_pr c pr fetchedAt now) (Some pr)
           | _ \<Rightarrow> result (DepWaiting, ''Choose a PR URL; the prerequisite has multiple PRs'') None)"

subsection \<open>Collecting the evidence\<close>

text \<open>
  \<open>readThread\<close> is asked once per thread and watched turn (\<open>None\<close> for a PR prerequisite); \<open>Inl\<close> is
  the error it throws. \<open>resolvePrUrl\<close> answers \<open>None\<close> when the forge does not know the URL or fails.
\<close>

record dep_env =
  denv_readThread :: "string \<times> string \<Rightarrow> string option option \<Rightarrow> string + dep_snapshot"
  denv_canonicalizePrUrl :: "string \<Rightarrow> string"
  denv_resolvePrUrl :: "(string \<Rightarrow> string option) option"
  denv_isSameNumberInAnotherRepository :: "string \<Rightarrow> string \<Rightarrow> bool"

record dep_signal =
  sg_backend :: string
  sg_threadId :: string
  sg_turn :: turn_metadata

definition canonicalPrCondition :: "dep_env \<Rightarrow> dep_condition \<Rightarrow> dep_condition" where
  "canonicalPrCondition de c = (if dc_when c = TurnCompleted then c
     else case truthy (dc_prUrl c) of None \<Rightarrow> c
       | Some u \<Rightarrow> c\<lparr>dc_prUrl := Some (denv_canonicalizePrUrl de u)\<rparr>)"

text \<open>\<open>None\<close>: the forge need not be asked. It is asked for a URL that matches no attached PR while a
  PR with its number is attached under another repository.\<close>

definition currentPrCondition :: "dep_env \<Rightarrow> dep_condition \<Rightarrow> dep_snapshot \<Rightarrow> dep_condition option" where
  "currentPrCondition de c snapshot =
     (case (denv_resolvePrUrl de, truthy (dc_prUrl (canonicalPrCondition de c)), truthy (dc_prUrl c)) of
        (Some resolvePrUrl, Some prUrl, Some asked) \<Rightarrow>
          (if list_ex (\<lambda>(pr, _). denv_canonicalizePrUrl de (ps_url pr) = prUrl) (sn_prs snapshot)
              \<or> \<not> list_ex (\<lambda>(pr, _). denv_isSameNumberInAnotherRepository de (ps_url pr) prUrl) (sn_prs snapshot)
           then None
           else Some (c\<lparr>dc_prUrl := Some (case truthy (resolvePrUrl asked) of
               None \<Rightarrow> prUrl | Some resolved \<Rightarrow> denv_canonicalizePrUrl de resolved)\<rparr>))
      | _ \<Rightarrow> None)"

definition namedPrCondition :: "dep_env \<Rightarrow> dep_snapshot \<Rightarrow> dep_condition \<Rightarrow> dep_condition" where
  "namedPrCondition de snapshot c = or_else (currentPrCondition de c snapshot) (canonicalPrCondition de c)"

definition signalled_turn :: "dep_signal option \<Rightarrow> dep_condition \<Rightarrow> turn_metadata option" where
  "signalled_turn signal c = (case signal of None \<Rightarrow> None
     | Some sg \<Rightarrow> if sg_backend sg = dc_backend c \<and> sg_threadId sg = dc_threadId c
           \<and> Some (tm_id (sg_turn sg)) = dc_turnId c then Some (sg_turn sg) else None)"

definition keep_pr :: "dep_evidence option \<Rightarrow> dep_evidence \<Rightarrow> dep_evidence" where
  "keep_pr previous e = (case Option.bind previous (\<lambda>p. truthy (de_prUrl p)) of None \<Rightarrow> e
     | Some u \<Rightarrow> if truthy (de_prUrl e) = None
         then e\<lparr>de_prUrl := Some u, de_headSha := Option.bind previous de_headSha\<rparr> else e)"

definition observe ::
  "dep_env \<Rightarrow> dep_evidence option \<Rightarrow> dep_signal option \<Rightarrow> int \<Rightarrow> dep_condition \<Rightarrow> dep_snapshot \<Rightarrow>
   dep_condition \<times> dep_evidence" where
  "observe de previous signal now c0 snapshot =
     (let c = namedPrCondition de snapshot c0;
          turn = (case signalled_turn signal c of Some t \<Rightarrow> Some t
                  | None \<Rightarrow> List.find (\<lambda>t. Some (tm_id t) = dc_turnId c) (sn_turns snapshot));
          selector = (case (truthy (dc_prUrl c), Option.bind previous (\<lambda>p. truthy (de_prUrl p))) of
                        (None, Some u) \<Rightarrow> namedPrCondition de snapshot (c\<lparr>dc_prUrl := Some u\<rparr>)
                      | _ \<Rightarrow> c);
          e = (evaluateCondition (denv_canonicalizePrUrl de) selector snapshot now turn)\<lparr>de_condition := c\<rparr>
      in (c, keep_pr previous e))"

definition collect_one ::
  "dep_env \<Rightarrow> dependency \<Rightarrow> dep_signal option \<Rightarrow> int \<Rightarrow> dep_condition \<Rightarrow> dep_condition \<times> dep_evidence" where
  "collect_one de d signal now c =
     (let previous = List.find (\<lambda>e. de_condition e = c) (dd_evidence d);
          settled = (case previous of None \<Rightarrow> None
                     | Some p \<Rightarrow> if dc_when c = TurnCompleted \<and> de_state p \<noteq> DepWaiting then Some p else None)
      in case settled of
        Some p \<Rightarrow> (c, p)
      | None \<Rightarrow>
        (case (dc_when c, signalled_turn signal c) of
           (TurnCompleted, Some turn) \<Rightarrow>
             (c, evaluateCondition id c \<lparr>sn_activeTurnId = None, sn_turns = [turn], sn_prs = []\<rparr> now (Some turn))
         | _ \<Rightarrow>
           (case denv_readThread de (dc_backend c, dc_threadId c)
                   (if dc_when c = TurnCompleted then Some (dc_turnId c) else None) of
              Inr snapshot \<Rightarrow> observe de previous signal now c snapshot
            | Inl message \<Rightarrow>
                (c, keep_pr previous \<lparr>de_condition = c, de_state = DepWaiting,
                      de_reason = ''Prerequisite unavailable: '' @ message, de_prUrl = None,
                      de_headSha = None, de_observedAt = now\<rparr>))))"

definition collect_evidence ::
  "dep_env \<Rightarrow> dependency \<Rightarrow> dep_signal option \<Rightarrow> int \<Rightarrow> dep_condition list \<times> dep_evidence list" where
  "collect_evidence de d signal now =
     (let items = map (collect_one de d signal now) (dd_conditions d) in (map fst items, map snd items))"

subsection \<open>All prerequisites of a registration\<close>

text \<open>The part of \<open>evaluate\<close> after the evidence is collected: \<open>next\<close> and the admission decision.\<close>

definition dep_success :: "dep_mode \<Rightarrow> dep_evidence list \<Rightarrow> bool" where
  "dep_success mode evidence =
     (let successes = length (filter (\<lambda>e. de_state e = DepSatisfied) evidence)
      in if mode = ModeAll then successes = length evidence else 0 < successes)"

definition dep_failure :: "dep_mode \<Rightarrow> dep_evidence list \<Rightarrow> bool" where
  "dep_failure mode evidence =
     (let failures = length (filter (\<lambda>e. de_state e = DepFailed) evidence)
      in if mode = ModeAll then 0 < failures else failures = length evidence)"

definition stale_only :: "dep_mode \<Rightarrow> dep_evidence list \<Rightarrow> bool" where
  "stale_only mode evidence \<longleftrightarrow> \<not> dep_success mode evidence \<and> \<not> dep_failure mode evidence
     \<and> list_all (\<lambda>e. de_state e = DepSatisfied \<or> de_reason e = FRESH_CI) evidence"

definition persisted_evidence :: "dep_evidence list \<Rightarrow> dep_evidence list \<Rightarrow> dep_evidence list" where
  "persisted_evidence old evidence = map (\<lambda>(i, e).
     if i < length old \<and> de_reason e = FRESH_CI \<and> de_state (old ! i) = DepSatisfied
        \<and> de_prUrl (old ! i) = de_prUrl e \<and> de_headSha (old ! i) = de_headSha e
     then old ! i else e) (enumerate 0 evidence)"

definition evaluated :: "dependency \<Rightarrow> dep_condition list \<Rightarrow> dep_evidence list \<Rightarrow> dependency" where
  "evaluated d conditions evidence =
     (let success = dep_success (dd_mode d) evidence; failure = dep_failure (dd_mode d) evidence;
          stale_ready = (stale_only (dd_mode d) evidence \<and> dd_status d = StReady)
      in d\<lparr>dd_conditions := conditions, dd_evidence := persisted_evidence (dd_evidence d) evidence,
           dd_status := (if success \<or> failure \<or> stale_ready then StReady else StWaiting),
           dd_outcome := (if success then Some OutSuccess else if failure then Some OutFailure
                          else if stale_ready then dd_outcome d else None),
           dd_error := None\<rparr>)"

datatype dep_admission = AdmitNothing | AdmitReminder | AdmitTurn

definition dep_admission_of ::
  "dependency \<Rightarrow> dep_evidence list \<Rightarrow> bool \<Rightarrow> bool \<Rightarrow> dep_admission" where
  "dep_admission_of d evidence canDispatch consumerBusy =
     (if \<not> dep_success (dd_mode d) evidence \<and> \<not> dep_failure (dd_mode d) evidence then AdmitNothing
      else if dd_status d \<noteq> StReady \<or> \<not> canDispatch then AdmitNothing
      else if dd_outcome d = Some OutFailure \<and> isRepairableDependencyFailure d then AdmitNothing
      else if threadDependencyDeliveryTarget d = DeliverOperator then AdmitReminder
      else if consumerBusy then AdmitNothing
      else AdmitTurn)"

end
