(* ===== verification/DependencyStore.thy ===== *)
theory DependencyStore
  imports ThreadDependencies
begin

text \<open>
  The store of thread dependencies (main/state/thread-dependency-store.ts). The SQLite table is a
  map from ids to records in insertion order, whose status column always equals the payload's
  status; the comparison of JSON payloads in a compare-and-swap is equality of records; a
  transaction is one step. The set of archived threads is part of the state.
\<close>

record dep_store =
  dst_rows :: "(string, dependency) jsmap"
  dst_archived :: "(string \<times> string) set"

definition dep_active :: "dependency \<Rightarrow> bool" where
  "dep_active d \<longleftrightarrow> dd_status d \<in> {StWaiting, StReady, StDispatching}"

definition store_active :: "dep_store \<Rightarrow> dependency list" where
  "store_active st = filter dep_active (map_vals (dst_rows st))"

type_synonym dep_node = "string \<times> string"

definition consumer_of :: "dependency \<Rightarrow> dep_node" where
  "consumer_of d = (dd_backend d, dd_threadId d)"

definition dep_targets :: "dependency \<Rightarrow> dep_node list" where
  "dep_targets d = map (\<lambda>c. (dc_backend c, dc_threadId c)) (dd_conditions d)"

definition store_dependents :: "dep_store \<Rightarrow> dep_node \<Rightarrow> dependency list" where
  "store_dependents st target =
     sort_key (\<lambda>d. - dd_createdAt d) (filter (\<lambda>d. target \<in> set (dep_targets d)) (store_active st))"

definition store_get :: "dep_store \<Rightarrow> dep_node \<Rightarrow> string \<Rightarrow> dependency option" where
  "store_get st node i = (case map_get (dst_rows st) i of None \<Rightarrow> None
     | Some d \<Rightarrow> if consumer_of d = node then Some d else None)"

definition condition_signature :: "dep_condition \<Rightarrow> string list" where
  "condition_signature c = [dc_backend c, dc_threadId c,
     (case dc_when c of TurnCompleted \<Rightarrow> ''turn_completed'' | PrAttached \<Rightarrow> ''pr_attached''
        | CiPassed \<Rightarrow> ''ci_passed'' | PrMerged \<Rightarrow> ''pr_merged''),
     or_else (dc_turnId c) '''', or_else (dc_prUrl c) '''', or_else (dc_headSha c) '''']"

text \<open>Two registrations are duplicates when all signature fields agree and the conditions are the
  same up to order (the code sorts their JSON texts).\<close>

fun same_up_to_order :: "'a list \<Rightarrow> 'a list \<Rightarrow> bool" where
  "same_up_to_order [] ys \<longleftrightarrow> ys = []"
| "same_up_to_order (x # xs) ys \<longleftrightarrow> x \<in> set ys \<and> same_up_to_order xs (remove1 x ys)"

definition same_signature :: "dependency \<Rightarrow> dependency \<Rightarrow> bool" where
  "same_signature a b \<longleftrightarrow> consumer_of a = consumer_of b \<and> dd_mode a = dd_mode b
     \<and> dd_onFailure a = dd_onFailure b \<and> or_else (dd_continuation a) '''' = or_else (dd_continuation b) ''''
     \<and> threadDependencyDeliveryTarget a = threadDependencyDeliveryTarget b \<and> dd_handoff a = dd_handoff b
     \<and> same_up_to_order (map condition_signature (dd_conditions a)) (map condition_signature (dd_conditions b))"

definition edges_of :: "dependency list \<Rightarrow> dep_node \<Rightarrow> dep_node list" where
  "edges_of items node = concat (map dep_targets (filter (\<lambda>d. consumer_of d = node) items))"

text \<open>
  \<open>reachesConsumer\<close> with its shared \<open>seen\<close> set. The fuel bounds the depth of the recursion; a
  search deeper than the number of nodes does not occur.
\<close>

fun reaches :: "nat \<Rightarrow> (dep_node \<Rightarrow> dep_node list) \<Rightarrow> dep_node \<Rightarrow> dep_node list \<Rightarrow> dep_node list \<Rightarrow>
    (bool \<times> dep_node list) option" where
  "reaches fuel edges consumer [] seen = Some (False, seen)"
| "reaches 0 edges consumer (n # ns) seen = None"
| "reaches (Suc fuel) edges consumer (n # ns) seen =
     (if n = consumer then Some (True, seen)
      else if n \<in> set seen then reaches (Suc fuel) edges consumer ns seen
      else case reaches fuel edges consumer (edges n) (n # seen) of
          None \<Rightarrow> None
        | Some (True, seen') \<Rightarrow> Some (True, seen')
        | Some (False, seen') \<Rightarrow> reaches (Suc fuel) edges consumer ns seen')"

definition dep_nodes :: "dependency list \<Rightarrow> dep_node list" where
  "dep_nodes items = remdups (concat (map (\<lambda>d. consumer_of d # dep_targets d) items))"

definition creates_cycle :: "dependency list \<Rightarrow> dependency \<Rightarrow> bool" where
  "creates_cycle active candidate =
     list_ex (\<lambda>t. case reaches (Suc (length (dep_nodes (active @ [candidate])))) (edges_of (active @ [candidate]))
                    (consumer_of candidate) [t] [] of
                 None \<Rightarrow> True | Some (found, _) \<Rightarrow> found) (dep_targets candidate)"

text \<open>\<open>RegIdTaken\<close> is the violation of the table's primary key.\<close>

datatype register_error = RegArchived | RegTooManyActive | RegTooManyForThread | RegCycle | RegIdTaken

definition store_register :: "dep_store \<Rightarrow> dependency \<Rightarrow> register_error + dep_store \<times> dependency" where
  "store_register st candidate =
     (if consumer_of candidate \<in> dst_archived st then Inl RegArchived
      else let active = store_active st in
        case List.find (\<lambda>d. same_signature d candidate) active of
          Some duplicate \<Rightarrow> Inr (st, duplicate)
        | None \<Rightarrow>
            (if 512 \<le> length active then Inl RegTooManyActive
             else if 32 \<le> length (filter (\<lambda>d. consumer_of d = consumer_of candidate) active)
             then Inl RegTooManyForThread
             else if creates_cycle active candidate then Inl RegCycle
             else if map_has (dst_rows st) (dd_id candidate) then Inl RegIdTaken
             else Inr (st\<lparr>dst_rows := map_set (dst_rows st) (dd_id candidate) candidate\<rparr>, candidate)))"

definition store_replace :: "dep_store \<Rightarrow> dependency \<Rightarrow> dependency \<Rightarrow> dep_store \<times> bool" where
  "store_replace st previous next =
     (if previous = next then (st, True)
      else if map_get (dst_rows st) (dd_id previous) = Some previous
      then (st\<lparr>dst_rows := map_set (dst_rows st) (dd_id previous) next\<rparr>, True)
      else (st, False))"

definition retireForArchivedThread :: "dep_store \<Rightarrow> dep_node \<Rightarrow> int \<Rightarrow> dep_store" where
  "retireForArchivedThread st node now =
     st\<lparr>dst_rows := map (\<lambda>(i, d). (i, if consumer_of d = node \<and> dep_active d
          then d\<lparr>dd_status := StCancelled, dd_updatedAt := now\<rparr> else d)) (dst_rows st)\<rparr>"

datatype cancel_error = DepNotFound | DepAdmitted | DepDismissed | DepChanged | DepNotUncertain

definition store_cancel :: "dep_store \<Rightarrow> dep_node \<Rightarrow> string \<Rightarrow> int \<Rightarrow> cancel_error + dep_store \<times> dependency" where
  "store_cancel st node i now = (case store_get st node i of
     None \<Rightarrow> Inl DepNotFound
   | Some d \<Rightarrow>
      (if dd_status d = StCancelled then Inr (st, d)
       else if dd_status d \<in> {StDispatching, StDelivered} then Inl DepAdmitted
       else if dd_status d = StDismissed then Inl DepDismissed
       else let next = d\<lparr>dd_status := StCancelled, dd_updatedAt := now\<rparr>;
                (st', swapped) = store_replace st d next
            in if swapped then Inr (st', next) else Inl DepChanged))"

definition store_dismiss :: "dep_store \<Rightarrow> dep_node \<Rightarrow> string \<Rightarrow> int \<Rightarrow> cancel_error + dep_store \<times> dependency" where
  "store_dismiss st node i now = (case store_get st node i of
     None \<Rightarrow> Inl DepNotUncertain
   | Some d \<Rightarrow>
      (if dd_status d \<noteq> StDispatching \<or> truthy (dd_error d) = None then Inl DepNotUncertain
       else let next = d\<lparr>dd_status := StDismissed, dd_updatedAt := now\<rparr>;
                (st', swapped) = store_replace st d next
            in if swapped then Inr (st', next) else Inl DepChanged))"

subsection \<open>The search for a cycle\<close>

definition dep_graph :: "dependency list \<Rightarrow> (dep_node \<times> dep_node) set" where
  "dep_graph items = {(n, t). t \<in> set (edges_of items n)}"

lemma dep_graph_iff: "(n, t) \<in> dep_graph items \<longleftrightarrow> (\<exists>d\<in>set items. consumer_of d = n \<and> t \<in> set (dep_targets d))"
  by (auto simp: dep_graph_def edges_of_def)

lemma reaches_False:
  "reaches fuel edges c ns seen = Some (False, seen') \<Longrightarrow>
   set seen \<subseteq> set seen' \<and> set ns \<subseteq> set seen'
   \<and> (\<forall>x\<in>set seen' - set seen. x \<noteq> c \<and> set (edges x) \<subseteq> set seen')"
proof (induction fuel edges c ns seen arbitrary: seen' rule: reaches.induct)
  case (3 fuel edges c n ns seen)
  have neq: "n \<noteq> c" using "3.prems" by (auto split: if_splits)
  show ?case
  proof (cases "n \<in> set seen")
    case True
    then show ?thesis using "3.IH"(1) [OF neq True, of seen'] "3.prems" neq by auto
  next
    case False
    then obtain s1 where s1: "reaches fuel edges c (edges n) (n # seen) = Some (False, s1)"
      and rest: "reaches (Suc fuel) edges c ns s1 = Some (False, seen')"
      using "3.prems" neq by (auto split: option.splits bool.splits)
    note sub = "3.IH"(2) [OF neq False s1]
    note tl = "3.IH"(3) [OF neq False s1 refl, OF refl, OF rest]
    have "x \<noteq> c \<and> set (edges x) \<subseteq> set seen'" if x: "x \<in> set seen'" "x \<notin> set seen" for x
    proof (cases "x \<in> set s1 \<and> x \<noteq> n")
      case True
      then have "x \<in> set s1 - set (n # seen)" using x(2) by simp
      then have "x \<noteq> c \<and> set (edges x) \<subseteq> set s1" using sub by blast
      then show ?thesis using tl by blast
    next
      case F: False
      show ?thesis
      proof (cases "x = n")
        case True
        then show ?thesis using sub tl neq by blast
      next
        case False
        then show ?thesis using tl x(1) F by blast
      qed
    qed
    then show ?thesis using sub tl by auto
  qed
qed simp_all

lemma reaches_True:
  "reaches fuel edges c ns seen = Some (True, seen') \<Longrightarrow> \<exists>n\<in>set ns. (n, c) \<in> {(x, y). y \<in> set (edges x)}\<^sup>*"
proof (induction fuel edges c ns seen arbitrary: seen' rule: reaches.induct)
  case (3 fuel edges c n ns seen)
  let ?E = "{(x, y). y \<in> set (edges x)}"
  consider "n = c" | "n \<noteq> c" "n \<in> set seen" "reaches (Suc fuel) edges c ns seen = Some (True, seen')"
    | s1 where "n \<noteq> c" "n \<notin> set seen" "reaches fuel edges c (edges n) (n # seen) = Some (True, s1)"
    | s1 where "n \<noteq> c" "n \<notin> set seen" "reaches fuel edges c (edges n) (n # seen) = Some (False, s1)"
        "reaches (Suc fuel) edges c ns s1 = Some (True, seen')"
    using "3.prems" by (auto split: if_splits option.splits bool.splits)
  then show ?case
  proof cases
    case 3
    then obtain m where "m \<in> set (edges n)" "(m, c) \<in> ?E\<^sup>*" using "3.IH"(2) by blast
    then have "(n, c) \<in> ?E\<^sup>*" by (auto intro: converse_rtrancl_into_rtrancl)
    then show ?thesis by auto
  next
    case 4
    then show ?thesis using "3.IH"(3) by fastforce
  qed (use "3.IH"(1) in auto)
qed simp_all

lemma reaches_enough_fuel:
  assumes "finite V" "\<And>x. set (edges x) \<subseteq> V"
  shows "set ns \<subseteq> V \<Longrightarrow> card (V - set seen) < fuel \<Longrightarrow> reaches fuel edges c ns seen \<noteq> None"
  using assms(2)
proof (induction fuel edges c ns seen rule: reaches.induct)
  case (3 fuel edges c n ns seen)
  show ?case
  proof (cases "n = c \<or> n \<in> set seen")
    case True
    then show ?thesis using "3.IH"(1) "3.prems" by auto
  next
    case False
    have "V - set (n # seen) \<subset> V - set seen" using False "3.prems"(1) by auto
    then have "card (V - set (n # seen)) < card (V - set seen)"
      using assms(1) by (simp add: psubset_card_mono)
    then have less: "card (V - set (n # seen)) < fuel" using "3.prems"(2) by simp
    have "reaches fuel edges c (edges n) (n # seen) \<noteq> None"
      using "3.IH"(2) False "3.prems"(3) less by blast
    then obtain r s1 where s1: "reaches fuel edges c (edges n) (n # seen) = Some (r, s1)" by auto
    show ?thesis
    proof (cases r)
      case True
      then show ?thesis using s1 False by simp
    next
      case F: False
      have "reaches fuel edges c (edges n) (n # seen) = Some (False, s1)" using s1 F by simp
      then have "set (n # seen) \<subseteq> set s1" using reaches_False by blast
      then have "card (V - set s1) \<le> card (V - set (n # seen))"
        using assms(1) by (intro card_mono) auto
      then have "card (V - set s1) < Suc fuel" using less by simp
      then have "reaches (Suc fuel) edges c ns s1 \<noteq> None"
        using "3.IH"(3) False s1 F "3.prems" by auto
      then show ?thesis using s1 F False by simp
    qed
  qed
qed simp_all

lemma edges_of_nodes: "set (edges_of items n) \<subseteq> set (dep_nodes items)"
  by (auto simp: edges_of_def dep_nodes_def)

lemma closed_rtrancl:
  "(t, c) \<in> {(x, y). y \<in> set (edges x)}\<^sup>* \<Longrightarrow> t \<in> S \<Longrightarrow> \<forall>x\<in>S. set (edges x) \<subseteq> S \<Longrightarrow> c \<in> S"
  by (induction rule: rtrancl_induct) auto

text \<open>The search answers yes exactly when the consumer is reachable from a target.\<close>

lemma creates_cycle_iff:
  "creates_cycle active d \<longleftrightarrow>
     (\<exists>t\<in>set (dep_targets d). (t, consumer_of d) \<in> (dep_graph (active @ [d]))\<^sup>*)"
proof -
  let ?items = "active @ [d]"
  let ?fuel = "Suc (length (dep_nodes ?items))"
  have one: "(case reaches ?fuel (edges_of ?items) (consumer_of d) [t] [] of None \<Rightarrow> True | Some (found, _) \<Rightarrow> found)
      \<longleftrightarrow> (t, consumer_of d) \<in> (dep_graph ?items)\<^sup>*" if t: "t \<in> set (dep_targets d)" for t
  proof -
    have "set [t] \<subseteq> set (dep_nodes ?items)" using t by (auto simp: dep_nodes_def)
    moreover have "card (set (dep_nodes ?items) - set []) < ?fuel" using card_length [of "dep_nodes ?items"] by simp
    ultimately have "reaches ?fuel (edges_of ?items) (consumer_of d) [t] [] \<noteq> None"
      using reaches_enough_fuel [of "set (dep_nodes ?items)" "edges_of ?items" "[t]" "[]" ?fuel]
        edges_of_nodes [of ?items] by blast
    then obtain r S where r: "reaches ?fuel (edges_of ?items) (consumer_of d) [t] [] = Some (r, S)" by auto
    have "r \<longleftrightarrow> (t, consumer_of d) \<in> (dep_graph ?items)\<^sup>*"
    proof (cases r)
      case True
      then show ?thesis using reaches_True [of ?fuel "edges_of ?items" "consumer_of d" "[t]" "[]" S] r
        by (simp add: dep_graph_def)
    next
      case False
      with r have "reaches ?fuel (edges_of ?items) (consumer_of d) [t] [] = Some (False, S)" by simp
      then have "set [t] \<subseteq> set S" "\<forall>x\<in>set S - set []. x \<noteq> consumer_of d \<and> set (edges_of ?items x) \<subseteq> set S"
        using reaches_False by blast+
      then have "(t, consumer_of d) \<notin> (dep_graph ?items)\<^sup>*"
        using closed_rtrancl [of t "consumer_of d" "edges_of ?items" "set S"] by (auto simp: dep_graph_def)
      then show ?thesis using False by simp
    qed
    then show ?thesis using r by simp
  qed
  then show ?thesis unfolding creates_cycle_def list_ex_iff by blast
qed

lemma dep_graph_snoc: "dep_graph (active @ [d]) = dep_graph active \<union> {consumer_of d} \<times> set (dep_targets d)"
  by (auto simp: dep_graph_iff)

lemma acyclic_fan:
  assumes "finite T" "acyclic r" "\<forall>t\<in>T. (t, c) \<notin> (r \<union> {c} \<times> T)\<^sup>*"
  shows "acyclic (r \<union> {c} \<times> T)"
proof -
  have "acyclic (r \<union> {c} \<times> U)" if "finite U" "U \<subseteq> T" for U
    using that
  proof (induction U)
    case (insert t U)
    have sub: "(r \<union> {c} \<times> U)\<^sup>* \<subseteq> (r \<union> {c} \<times> T)\<^sup>*" using insert.prems by (intro rtrancl_mono) auto
    have eq: "r \<union> {c} \<times> insert t U = insert (c, t) (r \<union> {c} \<times> U)" by auto
    have "acyclic (r \<union> {c} \<times> U)" using insert.IH insert.prems by simp
    moreover have "(t, c) \<notin> (r \<union> {c} \<times> U)\<^sup>*" using sub assms(3) insert.prems by blast
    ultimately show ?case unfolding eq by (simp add: acyclic_insert)
  qed (simp add: assms(2))
  then show ?thesis using assms(1) by blast
qed

lemma register_acyclic:
  assumes "acyclic (dep_graph active)" "\<not> creates_cycle active d"
  shows "acyclic (dep_graph (active @ [d]))"
  unfolding dep_graph_snoc
  by (rule acyclic_fan [OF _ assms(1)]) (use assms(2) in \<open>simp_all add: creates_cycle_iff dep_graph_snoc\<close>)

lemma dep_graph_mono: "set xs \<subseteq> set ys \<Longrightarrow> dep_graph xs \<subseteq> dep_graph ys"
  unfolding dep_graph_def edges_of_def by fastforce

end
