(* ===== verification/DependencyRuns.thy ===== *)
theory DependencyRuns
  imports DependencyStore "HOL-Library.Multiset"
begin

text \<open>
  What the coordinator writes (main/app-server/thread-dependency-coordinator.ts) and the runs of the
  store under any number of processes. Every write is a compare-and-swap from a record the writer
  read earlier, so an event carries that record; it may be stale. A flight is a claim whose prompt
  is about to be, or has been, handed to \<open>submit\<close>; a process that dies leaves its flight behind.
\<close>

subsection \<open>Writes\<close>

text \<open>Saving keeps an evidence record that differs from the stored one in its time only.\<close>

definition settled_evidence :: "dep_evidence list \<Rightarrow> dep_evidence list \<Rightarrow> dep_evidence list" where
  "settled_evidence old evidence = map (\<lambda>(i, e).
     if i < length old \<and> (old ! i)\<lparr>de_observedAt := 0\<rparr> = e\<lparr>de_observedAt := 0\<rparr> then old ! i else e)
     (enumerate 0 evidence)"

definition store_save :: "dep_store \<Rightarrow> dependency \<Rightarrow> dependency \<Rightarrow> int \<Rightarrow> dep_store \<times> dependency option" where
  "store_save st previous next now =
     (let next1 = next\<lparr>dd_evidence := settled_evidence (dd_evidence previous) (dd_evidence next)\<rparr>
      in if previous = next1 then (st, Some previous)
         else let next2 = next1\<lparr>dd_updatedAt := now\<rparr>;
                  (st', swapped) = store_replace st previous next2
              in (st', if swapped then Some next2 else None))"

definition dep_claim :: "dependency \<Rightarrow> nat \<Rightarrow> int \<Rightarrow> dependency" where
  "dep_claim d pid now = d\<lparr>dd_status := StDispatching, dd_dispatchOwnerPid := Some pid, dd_updatedAt := now\<rparr>"

definition dep_reminded :: "dependency \<Rightarrow> string \<Rightarrow> int \<Rightarrow> dependency" where
  "dep_reminded d todo now = d\<lparr>dd_status := StDelivered, dd_todoId := Some todo, dd_updatedAt := now\<rparr>"

definition dep_reminder_failed :: "dependency \<Rightarrow> string \<Rightarrow> dependency" where
  "dep_reminder_failed d message = d\<lparr>dd_error := Some (''Could not raise the reminder: '' @ message)\<rparr>"

definition DISPATCH_CLAIM_MAX_AGE_MS :: int where "DISPATCH_CLAIM_MAX_AGE_MS = 5 * 60000"

text \<open>What \<open>reconcile\<close> does with a claim: deliver it, leave it alone, or mark it for review.\<close>

definition reconcile_claim :: "dependency \<Rightarrow> bool \<Rightarrow> nat \<Rightarrow> bool \<Rightarrow> int \<Rightarrow> dependency option" where
  "reconcile_claim d hasReceipt pid ownerAlive now =
     (if hasReceipt then Some (d\<lparr>dd_status := StDelivered, dd_error := None\<rparr>)
      else if (case dd_dispatchOwnerPid d of None \<Rightarrow> False | Some owner \<Rightarrow> owner \<noteq> 0 \<and> owner \<noteq> pid
                 \<and> now - dd_updatedAt d < DISPATCH_CLAIM_MAX_AGE_MS \<and> ownerAlive) then None
      else if truthy (dd_error d) = None
      then Some (d\<lparr>dd_error := Some ''Continuation delivery was interrupted. Inspect this thread before scheduling another dependency.''\<rparr>)
      else None)"

datatype submit_answer = SubmitBusy | SubmitAccepted "string option" | SubmitThrew string

definition submit_settled :: "dependency \<Rightarrow> submit_answer \<Rightarrow> dependency" where
  "submit_settled claim ans = (case ans of
     SubmitBusy \<Rightarrow> claim\<lparr>dd_status := StReady\<rparr>
   | SubmitAccepted turnId \<Rightarrow> claim\<lparr>dd_status := StDelivered, dd_turnId := turnId\<rparr>
   | SubmitThrew message \<Rightarrow> claim\<lparr>dd_error := Some (''Continuation delivery needs review: '' @ message)\<rparr>)"

text \<open>The first half of \<open>evaluate\<close>, up to the saved record.\<close>

definition dep_evaluate ::
  "dep_env \<Rightarrow> dep_store \<Rightarrow> dependency \<Rightarrow> dep_signal option \<Rightarrow> int \<Rightarrow> dep_store \<times> dependency option" where
  "dep_evaluate de st item signal now =
     (if consumer_of item \<in> dst_archived st then (retireForArchivedThread st (consumer_of item) now, None)
      else if dd_status item = StDispatching then (st, None)
      else let (conditions, evidence) = collect_evidence de item signal now
           in store_save st item (evaluated item conditions evidence) now)"

subsection \<open>Registration\<close>

text \<open>The record that \<open>manage\<close> registers for a create request.\<close>

definition new_dependency ::
  "string \<Rightarrow> dep_node \<Rightarrow> dep_condition list \<Rightarrow> dep_mode option \<Rightarrow> dep_on_failure option \<Rightarrow> string option \<Rightarrow>
   dep_deliver option \<Rightarrow> bool \<Rightarrow> int \<Rightarrow> dependency" where
  "new_dependency i consumer conditions mode onFailure continuation deliver handoff now =
     \<lparr>dd_id = i, dd_backend = fst consumer, dd_threadId = snd consumer, dd_conditions = conditions,
      dd_mode = or_else mode ModeAll, dd_onFailure = or_else onFailure FailNotify,
      dd_continuation = truthy (map_option js_trim continuation),
      dd_deliver = Some (or_else deliver DeliverAgent), dd_handoff = handoff, dd_status = StWaiting,
      dd_outcome = None, dd_evidence = [], dd_createdAt = now, dd_updatedAt = now, dd_turnId = None,
      dd_todoId = None, dd_error = None, dd_dispatchOwnerPid = None\<rparr>"

text \<open>A watched turn is pinned: the one named, or the active one, or the last.\<close>

definition pin_watched_turn :: "dep_condition \<Rightarrow> dep_snapshot \<Rightarrow> string + dep_condition" where
  "pin_watched_turn c snapshot =
     (if dc_when c \<noteq> TurnCompleted then Inr c
      else let turnId = (case truthy (dc_turnId c) of Some t \<Rightarrow> Some t
             | None \<Rightarrow> (case sn_activeTurnId snapshot of Some t \<Rightarrow> Some t
                 | None \<Rightarrow> if sn_turns snapshot = [] then None else Some (tm_id (last (sn_turns snapshot)))))
        in if truthy turnId = None
           then Inl ''There is no turn to watch. Start the prerequisite turn or supply turnId.''
           else if turnId \<noteq> sn_activeTurnId snapshot \<and> the turnId \<notin> set (map tm_id (sn_turns snapshot))
           then Inl ''The watched turn was not found in this prerequisite thread.''
           else Inr (c\<lparr>dc_turnId := turnId\<rparr>))"

subsection \<open>Runs\<close>

record dep_flight =
  df_claim :: dependency
  df_submitted :: bool

record dep_world =
  dw_store :: dep_store
  dw_flights :: "dep_flight list"
  dw_claimed :: "string list"
  dw_submitted :: "string list"
  dw_returned :: "string list"

definition dep_world_new :: dep_world where
  "dep_world_new = \<lparr>dw_store = \<lparr>dst_rows = [], dst_archived = {}\<rparr>, dw_flights = [], dw_claimed = [],
     dw_submitted = [], dw_returned = []\<rparr>"

datatype dep_event =
    DepRegister dependency
  | DepEvaluate dep_env "dep_signal option" dependency int
  | DepClaim dependency "dep_evidence list" bool bool nat int
  | DepSubmit nat
  | DepAnswer nat submit_answer int
  | DepRemind dependency "dep_evidence list" bool string int
  | DepRemindFailed dependency string int
  | DepReconcile dependency bool nat bool int
  | DepCancel dep_node string int
  | DepDismiss dep_node string int
  | DepArchive dep_node int
  | DepUnarchive dep_node

definition on_store :: "dep_world \<Rightarrow> dep_store \<Rightarrow> dep_world" where
  "on_store w st = w\<lparr>dw_store := st\<rparr>"

definition dep_do_claim :: "dep_world \<Rightarrow> dependency \<Rightarrow> dependency \<Rightarrow> dep_world" where
  "dep_do_claim w current claim =
     (let (st, swapped) = store_replace (dw_store w) current claim
      in if \<not> swapped then w
         else w\<lparr>dw_store := st, dw_flights := dw_flights w @ [\<lparr>df_claim = claim, df_submitted = False\<rparr>],
                dw_claimed := dw_claimed w @ [dd_id current]\<rparr>)"

text \<open>After the claim is published it is read again; one that archiving revoked is not submitted.\<close>

definition dep_do_submit :: "dep_world \<Rightarrow> nat \<Rightarrow> dep_world" where
  "dep_do_submit w n =
     (if n < length (dw_flights w) \<and> \<not> df_submitted (dw_flights w ! n) then
        (let f = dw_flights w ! n; claim = df_claim f in
         if store_get (dw_store w) (consumer_of claim) (dd_id claim) = Some claim
         then w\<lparr>dw_flights := (dw_flights w)[n := f\<lparr>df_submitted := True\<rparr>],
                dw_submitted := dw_submitted w @ [dd_id claim]\<rparr>
         else w\<lparr>dw_flights := remove_at n (dw_flights w)\<rparr>)
      else w)"

definition dep_do_answer :: "dep_world \<Rightarrow> nat \<Rightarrow> submit_answer \<Rightarrow> int \<Rightarrow> dep_world" where
  "dep_do_answer w n ans now =
     (if n < length (dw_flights w) \<and> df_submitted (dw_flights w ! n) then
        (let claim = df_claim (dw_flights w ! n)
         in w\<lparr>dw_flights := remove_at n (dw_flights w),
              dw_store := fst (store_save (dw_store w) claim (submit_settled claim ans) now),
              dw_returned := dw_returned w @ (if ans = SubmitBusy then [dd_id claim] else [])\<rparr>)
      else w)"

fun dep_step :: "dep_world \<Rightarrow> dep_event \<Rightarrow> dep_world" where
  "dep_step w (DepRegister d) =
     (if dd_status d \<noteq> StWaiting then w
      else case store_register (dw_store w) d of Inl _ \<Rightarrow> w | Inr (st, _) \<Rightarrow> on_store w st)"
| "dep_step w (DepEvaluate de signal item now) =
     (if dep_active item then on_store w (fst (dep_evaluate de (dw_store w) item signal now)) else w)"
| "dep_step w (DepClaim current evidence canDispatch busy pid now) =
     (if dep_admission_of current evidence canDispatch busy = AdmitTurn
      then dep_do_claim w current (dep_claim current pid now) else w)"
| "dep_step w (DepSubmit n) = dep_do_submit w n"
| "dep_step w (DepAnswer n ans now) = dep_do_answer w n ans now"
| "dep_step w (DepRemind current evidence canDispatch todo now) =
     (if dep_admission_of current evidence canDispatch False = AdmitReminder
      then on_store w (fst (store_replace (dw_store w) current (dep_reminded current todo now))) else w)"
| "dep_step w (DepRemindFailed current message now) =
     (if dd_status current = StReady
      then on_store w (fst (store_save (dw_store w) current (dep_reminder_failed current message) now)) else w)"
| "dep_step w (DepReconcile item hasReceipt pid ownerAlive now) =
     (if dd_status item \<noteq> StDispatching then w
      else case reconcile_claim item hasReceipt pid ownerAlive now of None \<Rightarrow> w
        | Some next \<Rightarrow> on_store w (fst (store_save (dw_store w) item next now)))"
| "dep_step w (DepCancel node i now) =
     (case store_cancel (dw_store w) node i now of Inl _ \<Rightarrow> w | Inr (st, _) \<Rightarrow> on_store w st)"
| "dep_step w (DepDismiss node i now) =
     (case store_dismiss (dw_store w) node i now of Inl _ \<Rightarrow> w | Inr (st, _) \<Rightarrow> on_store w st)"
| "dep_step w (DepArchive node now) =
     on_store w (let st = retireForArchivedThread (dw_store w) node now
                 in st\<lparr>dst_archived := insert node (dst_archived st)\<rparr>)"
| "dep_step w (DepUnarchive node) =
     on_store w ((dw_store w)\<lparr>dst_archived := dst_archived (dw_store w) - {node}\<rparr>)"

declare map_of_eq_Some_iff [simp del]

subsection \<open>What a write may change\<close>

definition same_ends :: "dependency \<Rightarrow> dependency \<Rightarrow> bool" where
  "same_ends d d' \<longleftrightarrow> dd_id d' = dd_id d \<and> consumer_of d' = consumer_of d \<and> dep_targets d' = dep_targets d"

definition admitted :: "dependency \<Rightarrow> bool" where
  "admitted d \<longleftrightarrow> dd_status d \<noteq> StWaiting \<and> dd_status d \<noteq> StReady"

definition rows_ok :: "dep_store \<Rightarrow> bool" where
  "rows_ok st \<longleftrightarrow> wf_map (dst_rows st) \<and> (\<forall>i d. map_get (dst_rows st) i = Some d \<longrightarrow> dd_id d = i)"

text \<open>\<open>written R st st'\<close>: no row is lost or new, and a changed row was active and is related by \<open>R\<close>.\<close>

definition written :: "(dependency \<Rightarrow> dependency \<Rightarrow> bool) \<Rightarrow> dep_store \<Rightarrow> dep_store \<Rightarrow> bool" where
  "written R st st' \<longleftrightarrow> rows_ok st' \<and> (\<forall>i. (map_get (dst_rows st') i = None) = (map_get (dst_rows st) i = None))
     \<and> (\<forall>i d d'. map_get (dst_rows st) i = Some d \<longrightarrow> map_get (dst_rows st') i = Some d' \<longrightarrow>
          d' = d \<or> (dep_active d \<and> same_ends d d' \<and> R d d'))"

definition keeps_admitted :: "dependency \<Rightarrow> dependency \<Rightarrow> bool" where
  "keeps_admitted d d' \<longleftrightarrow> (admitted d \<longrightarrow> admitted d')"

lemma written_refl: "rows_ok st \<Longrightarrow> written R st st"
  by (simp add: written_def)

lemma written_archived: "written R st st' \<Longrightarrow> written R st (st'\<lparr>dst_archived := a\<rparr>)"
  by (simp add: written_def rows_ok_def)

lemma written_replace:
  assumes "rows_ok st" "dep_active prev" "same_ends prev next" "R prev next"
  shows "written R st (fst (store_replace st prev next))"
proof (cases "prev \<noteq> next \<and> map_get (dst_rows st) (dd_id prev) = Some prev")
  case True
  let ?st = "st\<lparr>dst_rows := map_set (dst_rows st) (dd_id prev) next\<rparr>"
  have "rows_ok ?st" using assms(1,3) by (simp add: rows_ok_def same_ends_def)
  moreover have "d' = d \<or> dep_active d \<and> same_ends d d' \<and> R d d'"
    if "map_get (dst_rows st) i = Some d" "map_get (dst_rows ?st) i = Some d'" for i d d'
    using that assms(2-4) True by (cases "i = dd_id prev") simp_all
  ultimately have "written R st ?st" using True unfolding written_def by simp
  then show ?thesis using True by (simp add: store_replace_def)
next
  case False
  then have "fst (store_replace st prev next) = st" by (auto simp: store_replace_def)
  then show ?thesis using written_refl [OF assms(1)] by simp
qed

lemma fst_store_save:
  "fst (store_save st prev next now) =
     (if prev = next\<lparr>dd_evidence := settled_evidence (dd_evidence prev) (dd_evidence next)\<rparr> then st
      else fst (store_replace st prev
        (next\<lparr>dd_evidence := settled_evidence (dd_evidence prev) (dd_evidence next), dd_updatedAt := now\<rparr>)))"
  by (simp add: store_save_def Let_def case_prod_beta)

lemma written_save:
  assumes "rows_ok st" "dep_active prev" "same_ends prev next"
    and "\<And>e t. R prev (next\<lparr>dd_evidence := e, dd_updatedAt := t\<rparr>)"
  shows "written R st (fst (store_save st prev next now))"
proof -
  let ?n = "next\<lparr>dd_evidence := settled_evidence (dd_evidence prev) (dd_evidence next), dd_updatedAt := now\<rparr>"
  have "same_ends prev ?n" using assms(3) by (simp add: same_ends_def consumer_of_def dep_targets_def)
  then have "written R st (fst (store_replace st prev ?n))"
    using assms by (intro written_replace) simp_all
  then show ?thesis using written_refl [OF assms(1)] by (simp add: fst_store_save)
qed

lemma map_get_map_vals: "map_get (map (\<lambda>(i, d). (i, f d)) m) i = map_option f (map_get m i)"
  by (induction m) auto

lemma map_keys_map_vals: "map fst (map (\<lambda>(i, d). (i, f d)) m) = map fst m"
  by (induction m) auto

lemma written_retire:
  assumes "rows_ok st" "\<And>d t. dep_active d \<Longrightarrow> R d (d\<lparr>dd_status := StCancelled, dd_updatedAt := t\<rparr>)"
  shows "written R st (retireForArchivedThread st node now)"
proof -
  define f where "f d = (if consumer_of d = node \<and> dep_active d
      then d\<lparr>dd_status := StCancelled, dd_updatedAt := now\<rparr> else d)" for d
  have r: "retireForArchivedThread st node now = st\<lparr>dst_rows := map (\<lambda>(i, d). (i, f d)) (dst_rows st)\<rparr>"
    by (simp add: retireForArchivedThread_def f_def)
  have f: "f d = d \<or> (dep_active d \<and> same_ends d (f d) \<and> R d (f d))" for d
    using assms(2) [of d now] by (simp add: f_def same_ends_def consumer_of_def dep_targets_def)
  then have "dd_id (f d) = dd_id d" for d by (metis same_ends_def)
  then have "rows_ok (st\<lparr>dst_rows := map (\<lambda>(i, d). (i, f d)) (dst_rows st)\<rparr>)"
    using assms(1) unfolding rows_ok_def by (auto simp: map_get_map_vals map_keys_map_vals simp del: map_map)
  then show ?thesis unfolding r written_def using f by (simp add: map_get_map_vals)
qed

text \<open>An evaluation may move a prerequisite's PR to its current URL, never to another thread.\<close>

lemma collect_one_ends:
  "dc_backend (fst (collect_one de d signal now c)) = dc_backend c
   \<and> dc_threadId (fst (collect_one de d signal now c)) = dc_threadId c"
proof -
  have n: "dc_backend (namedPrCondition de sn x) = dc_backend x \<and> dc_threadId (namedPrCondition de sn x) = dc_threadId x" for sn x
    by (auto simp: namedPrCondition_def currentPrCondition_def canonicalPrCondition_def or_else_def
        split: option.splits)
  have o: "fst (observe de p signal now x sn) = namedPrCondition de sn x" for p x sn
    by (simp add: observe_def Let_def)
  show ?thesis
    by (auto simp: collect_one_def Let_def o n split: option.split sum.split dep_when.split)
qed

lemma evaluated_ends:
  "same_ends item (evaluated item (fst (collect_evidence de item signal now)) ev)"
  by (simp add: same_ends_def evaluated_def Let_def consumer_of_def dep_targets_def collect_evidence_def
      collect_one_ends comp_def)

lemma evaluated_not_admitted:
  "\<not> admitted (evaluated item cs ev\<lparr>dd_evidence := e, dd_updatedAt := t\<rparr>)"
  by (simp add: admitted_def evaluated_def Let_def)

subsection \<open>Every step of a run\<close>

lemma active_status:
  "dep_active d \<longleftrightarrow> dd_status d = StWaiting \<or> dd_status d = StReady \<or> dd_status d = StDispatching"
  by (auto simp: dep_active_def)

lemma not_admitted_active: "\<not> admitted d \<Longrightarrow> dep_active d"
  by (auto simp: admitted_def active_status)

lemma written_evaluate:
  assumes "rows_ok st" "dep_active item"
  shows "written keeps_admitted st (fst (dep_evaluate de st item signal now))"
proof -
  obtain conds ev where c: "collect_evidence de item signal now = (conds, ev)" by fastforce
  have ends: "same_ends item (evaluated item conds ev)"
    using evaluated_ends [of item de signal now ev] c by simp
  have retire: "written keeps_admitted st (retireForArchivedThread st node t)" for node t
    by (rule written_retire [OF assms(1)]) (simp add: keeps_admitted_def admitted_def)
  have "written keeps_admitted st (fst (store_save st item (evaluated item conds ev) now))"
    if "dd_status item \<noteq> StDispatching"
    by (rule written_save [OF assms ends])
      (use that assms(2) in \<open>auto simp: keeps_admitted_def admitted_def active_status\<close>)
  then show ?thesis using retire written_refl [OF assms(1)] by (simp add: dep_evaluate_def c)
qed

lemma store_get_row: "store_get st node i = Some d \<Longrightarrow> map_get (dst_rows st) i = Some d"
  by (simp add: store_get_def split: option.splits if_splits)

lemma written_cancel:
  "rows_ok st \<Longrightarrow> store_cancel st node i now = Inr (st', d) \<Longrightarrow> written keeps_admitted st st'"
proof -
  assume ok: "rows_ok st" and c: "store_cancel st node i now = Inr (st', d)"
  from c obtain e where e: "store_get st node i = Some e"
    by (auto simp: store_cancel_def split: option.splits)
  let ?n = "e\<lparr>dd_status := StCancelled, dd_updatedAt := now\<rparr>"
  consider "st' = st" | "dep_active e" "st' = fst (store_replace st e ?n)"
    using c e by (cases "dd_status e")
      (auto simp: store_cancel_def active_status Let_def split: if_splits prod.splits)
  then show ?thesis
  proof cases
    case 2
    show ?thesis unfolding 2(2)
      by (rule written_replace [OF ok 2(1)])
        (simp_all add: same_ends_def consumer_of_def dep_targets_def keeps_admitted_def admitted_def)
  qed (simp add: written_refl ok)
qed

lemma written_dismiss:
  "rows_ok st \<Longrightarrow> store_dismiss st node i now = Inr (st', d) \<Longrightarrow> written keeps_admitted st st'"
proof -
  assume ok: "rows_ok st" and c: "store_dismiss st node i now = Inr (st', d)"
  from c obtain e where e: "store_get st node i = Some e"
    by (auto simp: store_dismiss_def split: option.splits)
  let ?n = "e\<lparr>dd_status := StDismissed, dd_updatedAt := now\<rparr>"
  have "dep_active e" "st' = fst (store_replace st e ?n)"
    using c e by (auto simp: store_dismiss_def active_status Let_def split: if_splits prod.splits)
  then show ?thesis
    using written_replace [OF ok, of e ?n keeps_admitted]
    by (simp add: same_ends_def consumer_of_def dep_targets_def keeps_admitted_def admitted_def)
qed

lemma admission_ready:
  "dep_admission_of d evidence can busy \<noteq> AdmitNothing \<Longrightarrow> dd_status d = StReady"
  by (auto simp: dep_admission_of_def split: if_splits)

lemma ends_simps [simp]:
  "same_ends d (d\<lparr>dd_status := a, dd_dispatchOwnerPid := b, dd_updatedAt := c\<rparr>)"
  "same_ends d (d\<lparr>dd_status := a, dd_todoId := e, dd_updatedAt := c\<rparr>)"
  "same_ends d (d\<lparr>dd_status := a, dd_turnId := e\<rparr>)" "same_ends d (d\<lparr>dd_status := a, dd_error := e\<rparr>)"
  "same_ends d (d\<lparr>dd_error := e\<rparr>)" "same_ends d (d\<lparr>dd_status := a\<rparr>)"
  by (simp_all add: same_ends_def consumer_of_def dep_targets_def)

text \<open>The steps other than a registration, a claim and the answer to a submission.\<close>

fun plain_event :: "dep_event \<Rightarrow> bool" where
  "plain_event (DepRegister d) = False"
| "plain_event (DepClaim a b c d e f) = False"
| "plain_event (DepAnswer a b c) = False"
| "plain_event (DepSubmit a) = False"
| "plain_event _ = True"

lemma written_plain:
  assumes "rows_ok (dw_store w)" "plain_event ev"
  shows "written keeps_admitted (dw_store w) (dw_store (dep_step w ev))"
proof (cases ev)
  case (DepEvaluate de signal item now)
  then show ?thesis using written_evaluate [OF assms(1)] written_refl [OF assms(1)]
    by (simp add: on_store_def)
next
  case (DepRemind current evidence can todo now)
  have "written keeps_admitted (dw_store w) (fst (store_replace (dw_store w) current (dep_reminded current todo now)))"
    if "dep_admission_of current evidence can False = AdmitReminder"
    by (rule written_replace [OF assms(1)])
      (use admission_ready [of current evidence can False] that
        in \<open>simp_all add: dep_reminded_def active_status keeps_admitted_def admitted_def\<close>)
  then show ?thesis using DepRemind written_refl [OF assms(1)] by (simp add: on_store_def)
next
  case (DepRemindFailed current message now)
  have "written keeps_admitted (dw_store w) (fst (store_save (dw_store w) current (dep_reminder_failed current message) now))"
    if "dd_status current = StReady"
    by (rule written_save [OF assms(1)])
      (use that in \<open>simp_all add: dep_reminder_failed_def active_status keeps_admitted_def admitted_def\<close>)
  then show ?thesis using DepRemindFailed written_refl [OF assms(1)] by (simp add: on_store_def)
next
  case (DepReconcile item receipt pid alive now)
  have "written keeps_admitted (dw_store w) (fst (store_save (dw_store w) item next now))"
    if "dd_status item = StDispatching" "reconcile_claim item receipt pid alive now = Some next" for "next"
    by (rule written_save [OF assms(1)])
      (use that in \<open>auto simp: reconcile_claim_def active_status keeps_admitted_def admitted_def split: if_splits\<close>)
  then show ?thesis using DepReconcile written_refl [OF assms(1)]
    by (simp add: on_store_def split: option.split)
next
  case (DepCancel node i now)
  then show ?thesis using written_cancel [OF assms(1)] written_refl [OF assms(1)]
    by (simp add: on_store_def split: sum.split prod.split)
next
  case (DepDismiss node i now)
  then show ?thesis using written_dismiss [OF assms(1)] written_refl [OF assms(1)]
    by (simp add: on_store_def split: sum.split prod.split)
next
  case (DepArchive node now)
  have "written keeps_admitted (dw_store w) (retireForArchivedThread (dw_store w) node now)"
    by (rule written_retire [OF assms(1)]) (simp add: keeps_admitted_def admitted_def)
  then show ?thesis using DepArchive written_archived by (simp add: on_store_def Let_def)
next
  case (DepUnarchive node)
  then show ?thesis using written_archived [OF written_refl [OF assms(1)]] by (simp add: on_store_def)
qed (use assms(2) in simp_all)

lemma written_weaken: "written R st st' \<Longrightarrow> written (\<lambda>_ _. True) st st'"
  unfolding written_def by blast

lemma claim_store:
  "rows_ok (dw_store w) \<Longrightarrow> dep_active current \<Longrightarrow> same_ends current claim \<Longrightarrow>
   written (\<lambda>_ _. True) (dw_store w) (dw_store (dep_do_claim w current claim))"
  using written_replace [of "dw_store w" current claim "\<lambda>_ _. True"] written_refl
  by (auto simp: dep_do_claim_def Let_def split: prod.split)

definition flights_dispatching :: "dep_world \<Rightarrow> bool" where
  "flights_dispatching w \<longleftrightarrow> (\<forall>f\<in>set (dw_flights w). dd_status (df_claim f) = StDispatching)"

lemma submit_settled_ends: "same_ends claim (submit_settled claim ans)"
  by (cases ans) (simp_all add: submit_settled_def)

lemma written_answer:
  assumes "rows_ok (dw_store w)" "flights_dispatching w"
  shows "written (\<lambda>_ _. True) (dw_store w) (dw_store (dep_do_answer w n ans now))"
proof (cases "n < length (dw_flights w) \<and> df_submitted (dw_flights w ! n)")
  case True
  then have "dep_active (df_claim (dw_flights w ! n))"
    using assms(2) by (simp add: flights_dispatching_def active_status)
  from written_save [OF assms(1) this submit_settled_ends, where R = "\<lambda>_ _. True"]
  show ?thesis using True by (simp add: dep_do_answer_def Let_def)
next
  case False
  then have "dep_do_answer w n ans now = w" by (auto simp: dep_do_answer_def)
  then show ?thesis using written_refl [OF assms(1)] by simp
qed

lemma submit_same_store [simp]: "dw_store (dep_do_submit w n) = dw_store w"
  by (simp add: dep_do_submit_def Let_def)

text \<open>A registration adds one row under a new id, or changes nothing.\<close>

lemma register_result:
  "store_register st d = Inr (st', d') \<Longrightarrow>
   st' = st \<or> \<not> map_has (dst_rows st) (dd_id d) \<and> \<not> creates_cycle (store_active st) d
     \<and> st' = st\<lparr>dst_rows := map_set (dst_rows st) (dd_id d) d\<rparr>"
  unfolding store_register_def Let_def by (simp split: if_split_asm option.split_asm) (metis | simp)+

lemma step_written:
  assumes "rows_ok (dw_store w)" "flights_dispatching w" "\<And>d. ev \<noteq> DepRegister d"
  shows "written (\<lambda>_ _. True) (dw_store w) (dw_store (dep_step w ev))"
proof (cases "plain_event ev")
  case True
  then show ?thesis using written_plain [OF assms(1)] written_weaken by blast
next
  case False
  then show ?thesis
  proof (cases ev)
    case (DepClaim current evidence can busy pid now)
    have "written (\<lambda>_ _. True) (dw_store w) (dw_store (dep_do_claim w current (dep_claim current pid now)))"
      if "dep_admission_of current evidence can busy = AdmitTurn"
      by (rule claim_store [OF assms(1)])
        (use admission_ready [of current evidence can busy] that in \<open>simp_all add: dep_claim_def active_status\<close>)
    then show ?thesis using DepClaim written_refl [OF assms(1)] by simp
  next
    case (DepAnswer n ans now)
    then show ?thesis using written_answer [OF assms(1,2)] by simp
  next
    case (DepSubmit n)
    then show ?thesis using written_refl [OF assms(1)] by simp
  qed (use assms(3) in simp_all)
qed

lemma step_flights:
  assumes "flights_dispatching w"
  shows "flights_dispatching (dep_step w ev)"
proof -
  have c: "flights_dispatching (dep_do_claim w cur (dep_claim cur pid now))" for cur pid now
    using assms by (auto simp: dep_do_claim_def flights_dispatching_def dep_claim_def split: prod.split)
  have up: "f \<in> set ((dw_flights w)[n := x]) \<Longrightarrow> f = x \<or> f \<in> set (dw_flights w)" for f n x
    using set_update_subset_insert [of "dw_flights w" n x] by blast
  have rm: "f \<in> set (remove_at n (dw_flights w)) \<Longrightarrow> f \<in> set (dw_flights w)" for f n
    using set_remove_at_subset [of n "dw_flights w"] by blast
  have s: "flights_dispatching (dep_do_submit w n)" for n
    using assms unfolding dep_do_submit_def flights_dispatching_def Let_def
    by (auto dest!: up rm)
  have a: "flights_dispatching (dep_do_answer w n ans now)" for n ans now
    using assms unfolding dep_do_answer_def flights_dispatching_def Let_def by (auto dest!: rm)
  show ?thesis
    by (cases ev) (use assms c s a in \<open>auto simp: on_store_def flights_dispatching_def
        split: sum.split option.split prod.split\<close>)
qed

lemma rows_ok_register:
  "rows_ok st \<Longrightarrow> rows_ok (st\<lparr>dst_rows := map_set (dst_rows st) (dd_id d) d\<rparr>)"
  by (simp add: rows_ok_def)

lemma step_rows_ok:
  assumes "rows_ok (dw_store w)" "flights_dispatching w"
  shows "rows_ok (dw_store (dep_step w ev))"
proof (cases "\<exists>d. ev = DepRegister d")
  case True
  then obtain d where ev: "ev = DepRegister d" by blast
  have "rows_ok st'" if "store_register (dw_store w) d = Inr (st', d')" for st' d'
    using register_result [OF that] assms(1) rows_ok_register by metis
  then show ?thesis using ev assms(1) by (auto simp: on_store_def split: sum.split)
next
  case False
  then show ?thesis using step_written [OF assms, of ev] by (auto simp: written_def)
qed

text \<open>A settled registration never changes again.\<close>

lemma step_settled:
  assumes "rows_ok (dw_store w)" "flights_dispatching w"
    and "map_get (dst_rows (dw_store w)) i = Some d" "\<not> dep_active d"
  shows "map_get (dst_rows (dw_store (dep_step w ev))) i = Some d"
proof (cases "\<exists>d. ev = DepRegister d")
  case True
  then obtain n where ev: "ev = DepRegister n" by blast
  have "map_get (dst_rows st') i = Some d" if "store_register (dw_store w) n = Inr (st', d')" for st' d'
    using register_result [OF that] assms(3) by (auto simp: map_has_def)
  then show ?thesis using ev assms(3) by (auto simp: on_store_def split: sum.split)
next
  case False
  then show ?thesis using step_written [OF assms(1,2), of ev] assms(3,4)
    unfolding written_def by (metis not_None_eq)
qed

subsection \<open>Acyclicity\<close>

lemma store_active_iff:
  "rows_ok st \<Longrightarrow> d \<in> set (store_active st) \<longleftrightarrow> dep_active d \<and> map_get (dst_rows st) (dd_id d) = Some d"
proof -
  assume ok: "rows_ok st"
  have "d \<in> set (map_vals (dst_rows st)) \<longleftrightarrow> map_get (dst_rows st) (dd_id d) = Some d"
  proof
    assume "d \<in> set (map_vals (dst_rows st))"
    then obtain i where "(i, d) \<in> set (dst_rows st)" by auto
    then have "map_get (dst_rows st) i = Some d" using ok wf_map_get_in unfolding rows_ok_def by metis
    then show "map_get (dst_rows st) (dd_id d) = Some d" using ok unfolding rows_ok_def by metis
  qed (force dest: map_of_SomeD)
  then show ?thesis by (auto simp: store_active_def)
qed

lemma written_graph:
  assumes "rows_ok st" "written R st st'"
  shows "dep_graph (store_active st') \<subseteq> dep_graph (store_active st)"
proof
  fix e assume "e \<in> dep_graph (store_active st')"
  then obtain n t d' where e: "e = (n, t)" and d': "d' \<in> set (store_active st')" "consumer_of d' = n" "t \<in> set (dep_targets d')"
    by (cases e) (auto simp: dep_graph_iff)
  have ok': "rows_ok st'" using assms(2) by (simp add: written_def)
  have get': "dep_active d'" "map_get (dst_rows st') (dd_id d') = Some d'"
    using d'(1) store_active_iff [OF ok'] by blast+
  then obtain d where d: "map_get (dst_rows st) (dd_id d') = Some d"
    using assms(2) unfolding written_def by (metis not_None_eq)
  then have "d' = d \<or> dep_active d \<and> same_ends d d'" using get'(2) assms(2) unfolding written_def by blast
  moreover have "dd_id d = dd_id d'" using d assms(1) unfolding rows_ok_def by metis
  ultimately have "d \<in> set (store_active st) \<and> consumer_of d = n \<and> t \<in> set (dep_targets d)"
    using d get'(1) d'(2,3) store_active_iff [OF assms(1)] unfolding same_ends_def by metis
  then show "e \<in> dep_graph (store_active st)" using e by (auto simp: dep_graph_iff)
qed

lemma register_graph:
  assumes "rows_ok st" "\<not> map_has (dst_rows st) (dd_id d)"
  shows "dep_graph (store_active (st\<lparr>dst_rows := map_set (dst_rows st) (dd_id d) d\<rparr>))
    \<subseteq> dep_graph (store_active st @ [d])"
proof -
  let ?st = "st\<lparr>dst_rows := map_set (dst_rows st) (dd_id d) d\<rparr>"
  have "set (store_active ?st) \<subseteq> insert d (set (store_active st))"
    using map_vals_set_subset [of "dd_id d" d "dst_rows st"] by (auto simp: store_active_def)
  then have "set (store_active ?st) \<subseteq> set (store_active st @ [d])" by simp
  then show ?thesis by (rule dep_graph_mono)
qed

definition world_acyclic :: "dep_world \<Rightarrow> bool" where
  "world_acyclic w \<longleftrightarrow> rows_ok (dw_store w) \<and> flights_dispatching w
     \<and> acyclic (dep_graph (store_active (dw_store w)))"

lemma step_acyclic:
  assumes "world_acyclic w"
  shows "world_acyclic (dep_step w ev)"
proof -
  have ok: "rows_ok (dw_store w)" "flights_dispatching w" "acyclic (dep_graph (store_active (dw_store w)))"
    using assms by (simp_all add: world_acyclic_def)
  have "acyclic (dep_graph (store_active (dw_store (dep_step w ev))))"
  proof (cases "\<exists>d. ev = DepRegister d")
    case True
    then obtain d where ev: "ev = DepRegister d" by blast
    have "acyclic (dep_graph (store_active st'))" if "store_register (dw_store w) d = Inr (st', d')" for st' d'
      using register_result [OF that] ok(3) register_acyclic [OF ok(3)] register_graph [OF ok(1)] acyclic_subset
      by metis
    then show ?thesis using ev ok(3) by (auto simp: on_store_def split: sum.split)
  next
    case False
    then have "written (\<lambda>_ _. True) (dw_store w) (dw_store (dep_step w ev))"
      using step_written [OF ok(1,2)] by blast
    from written_graph [OF ok(1) this] show ?thesis using ok(3) acyclic_subset by blast
  qed
  then show ?thesis using step_rows_ok [OF ok(1,2)] step_flights [OF ok(2)] by (simp add: world_acyclic_def)
qed

lemma new_world_acyclic: "world_acyclic dep_world_new"
  by (simp add: world_acyclic_def dep_world_new_def rows_ok_def flights_dispatching_def store_active_def
      dep_graph_def edges_of_def acyclic_def)

lemma run_acyclic: "world_acyclic w \<Longrightarrow> world_acyclic (foldl dep_step w evs)"
  by (induction evs arbitrary: w) (simp_all add: step_acyclic)

text \<open>
  C18: No deadlock of waiting threads. Whatever is registered, evaluated, claimed, answered, cancelled,
  dismissed, archived and restored, by however many processes and from however stale reads, the
  active dependencies never wait on each other in a cycle.
\<close>

theorem dependencies_never_cyclic:
  "acyclic (dep_graph (store_active (dw_store (foldl dep_step dep_world_new evs))))"
  using run_acyclic [OF new_world_acyclic, of evs] by (simp add: world_acyclic_def)

text \<open>
  A settled dependency is final. Once a registration is delivered, cancelled or dismissed, no
  later event changes its record.
\<close>

theorem settled_dependency_final:
  assumes "map_get (dst_rows (dw_store (foldl dep_step dep_world_new evs))) i = Some d"
    and "dd_status d \<in> {StDelivered, StCancelled, StDismissed}"
  shows "map_get (dst_rows (dw_store (foldl dep_step dep_world_new (evs @ later_evs)))) i = Some d"
proof -
  have inactive: "\<not> dep_active d" using assms(2) by (auto simp: dep_active_def)
  have "map_get (dst_rows (dw_store w)) i = Some d \<Longrightarrow> world_acyclic w \<Longrightarrow>
      map_get (dst_rows (dw_store (foldl dep_step w later_evs))) i = Some d" for w
  proof (induction later_evs arbitrary: w)
    case (Cons ev later_evs)
    have "map_get (dst_rows (dw_store (dep_step w ev))) i = Some d"
      by (rule step_settled [OF _ _ Cons.prems(1) inactive])
        (use Cons.prems(2) in \<open>simp_all add: world_acyclic_def\<close>)
    then show ?case using Cons.IH step_acyclic [OF Cons.prems(2)] by simp
  qed simp
  then show ?thesis using assms(1) run_acyclic [OF new_world_acyclic] by simp
qed

definition sample_dep :: "string \<Rightarrow> string \<Rightarrow> string \<Rightarrow> dependency" where
  "sample_dep i thread target = new_dependency i (''codex'', thread)
     [\<lparr>dc_backend = ''codex'', dc_threadId = target, dc_when = CiPassed, dc_turnId = None,
       dc_prUrl = None, dc_headSha = Some ''abc'', dc_title = None\<rparr>] None None None None False 0"

text \<open>A registration that is cancelled and archived afterwards.\<close>

theorem settled_dependency_final_witness:
  "map_option dd_status (map_get (dst_rows (dw_store (foldl dep_step dep_world_new
     ([DepRegister (sample_dep ''1'' ''a'' ''b''), DepCancel (''codex'', ''a'') ''1'' 5] @ [DepArchive (''codex'', ''a'') 9]))))
     ''1'') = Some StCancelled"
proof -
  let ?evs = "[DepRegister (sample_dep ''1'' ''a'' ''b''), DepCancel (''codex'', ''a'') ''1'' 5]"
  let ?d = "sample_dep ''1'' ''a'' ''b''\<lparr>dd_status := StCancelled, dd_updatedAt := 5\<rparr>"
  have 1: "map_get (dst_rows (dw_store (foldl dep_step dep_world_new ?evs))) ''1'' = Some ?d" by code_simp
  have 2: "dd_status ?d \<in> {StDelivered, StCancelled, StDismissed}" by simp
  show ?thesis using settled_dependency_final [OF 1 2, of "[DepArchive (''codex'', ''a'') 9]"] by simp
qed

subsection \<open>At most one prompt\<close>

definition row_admitted :: "dep_store \<Rightarrow> string \<Rightarrow> nat" where
  "row_admitted st i = (case map_get (dst_rows st) i of None \<Rightarrow> 0 | Some d \<Rightarrow> if admitted d then 1 else 0)"

definition unsubmitted :: "dep_world \<Rightarrow> string \<Rightarrow> nat" where
  "unsubmitted w i = length (filter (\<lambda>f. \<not> df_submitted f \<and> dd_id (df_claim f) = i) (dw_flights w))"

definition claims_ok :: "dep_world \<Rightarrow> bool" where
  "claims_ok w \<longleftrightarrow> world_acyclic w \<and> (\<forall>i.
     count_list (dw_submitted w) i + unsubmitted w i \<le> count_list (dw_claimed w) i
     \<and> count_list (dw_claimed w) i \<le> count_list (dw_returned w) i + row_admitted (dw_store w) i)"

lemma row_admitted_le: "row_admitted st i \<le> 1"
  by (simp add: row_admitted_def split: option.split)

lemma row_admitted_mono: "written keeps_admitted st st' \<Longrightarrow> row_admitted st i \<le> row_admitted st' i"
  unfolding written_def row_admitted_def keeps_admitted_def by (auto split: option.split)

lemma row_admitted_at:
  assumes rows: "rows_ok st" and w: "written (\<lambda>d d'. i = dd_id d \<longrightarrow> keeps_admitted d d') st st'"
  shows "row_admitted st i \<le> row_admitted st' i"
proof (cases "map_get (dst_rows st) i")
  case None
  then show ?thesis by (simp add: row_admitted_def)
next
  case (Some d)
  have id: "dd_id d = i" using rows Some by (simp add: rows_ok_def)
  have n: "map_get (dst_rows st') i \<noteq> None" using w Some unfolding written_def by (metis option.distinct(1))
  then obtain d' where d': "map_get (dst_rows st') i = Some d'" by blast
  have "d' = d \<or> (dep_active d \<and> same_ends d d' \<and> (i = dd_id d \<longrightarrow> keeps_admitted d d'))"
    using w Some d' unfolding written_def by blast
  then have k: "i = dd_id d \<longrightarrow> keeps_admitted d d'" by (auto simp: keeps_admitted_def)
  have "keeps_admitted d d'" using k id by simp
  then show ?thesis using Some d' by (simp add: row_admitted_def keeps_admitted_def)
qed

lemma step_claimed_same:
  assumes "plain_event ev \<or> (\<exists>d. ev = DepRegister d)"
  shows "dw_claimed (dep_step w ev) = dw_claimed w \<and> dw_submitted (dep_step w ev) = dw_submitted w
    \<and> dw_returned (dep_step w ev) = dw_returned w \<and> dw_flights (dep_step w ev) = dw_flights w"
  using assms by (cases ev) (simp_all add: on_store_def split: sum.split option.split)

lemma filter_split_nth:
  assumes "n < length xs"
  shows "filter P xs = filter P (take n xs) @ (if P (xs ! n) then [xs ! n] else []) @ filter P (drop (Suc n) xs)"
proof -
  have "filter P xs = filter P (take n xs @ xs ! n # drop (Suc n) xs)"
    by (rule arg_cong [OF id_take_nth_drop [OF assms]])
  then show ?thesis by (simp only: filter_append filter.simps append.simps split: if_split) simp
qed

lemma filter_remove_at:
  "n < length xs \<Longrightarrow> length (filter P xs) = length (filter P (remove_at n xs)) + (if P (xs ! n) then 1 else 0)"
  by (simp add: filter_split_nth [of n xs P] remove_at_def)

lemma filter_update:
  assumes "n < length xs" "P (xs ! n)" "\<not> P x"
  shows "length (filter P xs) = Suc (length (filter P (xs[n := x])))"
  using assms by (simp add: filter_split_nth [of n xs P] upd_conv_take_nth_drop)

lemma claimed_differs: "dd_status current = StReady \<Longrightarrow> current \<noteq> dep_claim current pid now"
proof
  assume "dd_status current = StReady" "current = dep_claim current pid now"
  then have "StReady = dd_status (dep_claim current pid now)" by simp
  then show False by (simp add: dep_claim_def)
qed

lemma claims_ok_claim:
  assumes ok: "claims_ok w" and ready: "dd_status current = StReady"
  shows "claims_ok (dep_do_claim w current (dep_claim current pid now))"
proof (cases "map_get (dst_rows (dw_store w)) (dd_id current) = Some current")
  case False
  then have "dep_do_claim w current (dep_claim current pid now) = w"
    using claimed_differs [OF ready] by (simp add: dep_do_claim_def store_replace_def)
  then show ?thesis using ok by simp
next
  case True
  let ?c = "dep_claim current pid now" and ?i = "dd_id current"
  let ?w = "dep_do_claim w current ?c"
  have w: "?w = w\<lparr>dw_store := (dw_store w)\<lparr>dst_rows := map_set (dst_rows (dw_store w)) ?i ?c\<rparr>,
      dw_flights := dw_flights w @ [\<lparr>df_claim = ?c, df_submitted = False\<rparr>],
      dw_claimed := dw_claimed w @ [?i]\<rparr>"
    using True claimed_differs [OF ready] by (simp add: dep_do_claim_def store_replace_def)
  have ac: "world_acyclic ?w"
  proof -
    have W: "rows_ok (dw_store w)" "flights_dispatching w" using ok by (simp_all add: claims_ok_def world_acyclic_def)
    have wr: "written (\<lambda>_ _. True) (dw_store w) (dw_store ?w)"
      by (rule claim_store [OF W(1)]) (use ready in \<open>simp_all add: active_status dep_claim_def\<close>)
    have "acyclic (dep_graph (store_active (dw_store w)))" using ok by (simp add: claims_ok_def world_acyclic_def)
    then have "acyclic (dep_graph (store_active (dw_store ?w)))"
      by (rule acyclic_subset) (rule written_graph [OF W(1) wr])
    moreover have "rows_ok (dw_store ?w)" using wr by (simp add: written_def)
    moreover have "flights_dispatching ?w" using W(2) unfolding w by (simp add: flights_dispatching_def dep_claim_def)
    ultimately show ?thesis by (simp add: world_acyclic_def)
  qed
  have old: "row_admitted (dw_store w) ?i = 0" using True ready by (simp add: row_admitted_def admitted_def)
  have new: "row_admitted (dw_store ?w) j = (if j = ?i then 1 else row_admitted (dw_store w) j)" for j
    unfolding w by (simp add: row_admitted_def admitted_def dep_claim_def)
  have uns: "unsubmitted ?w j = unsubmitted w j + (if j = ?i then 1 else 0)" for j
    unfolding w unsubmitted_def by (simp add: dep_claim_def)
  have cl: "count_list (dw_claimed ?w) j = count_list (dw_claimed w) j + (if j = ?i then 1 else 0)"
    "count_list (dw_submitted ?w) j = count_list (dw_submitted w) j"
    "count_list (dw_returned ?w) j = count_list (dw_returned w) j" for j
    unfolding w by simp_all
  have b: "count_list (dw_submitted w) j + unsubmitted w j \<le> count_list (dw_claimed w) j
      \<and> count_list (dw_claimed w) j \<le> count_list (dw_returned w) j + row_admitted (dw_store w) j" for j
    using ok by (simp add: claims_ok_def)
  have "count_list (dw_submitted ?w) j + unsubmitted ?w j \<le> count_list (dw_claimed ?w) j
      \<and> count_list (dw_claimed ?w) j \<le> count_list (dw_returned ?w) j + row_admitted (dw_store ?w) j" for j
    unfolding cl uns new using old b [of j] by (cases "j = ?i") simp_all
  then show ?thesis using ac unfolding claims_ok_def by blast
qed

lemma claims_ok_submit:
  assumes "claims_ok w"
  shows "claims_ok (dep_do_submit w n)"
proof (cases "n < length (dw_flights w) \<and> \<not> df_submitted (dw_flights w ! n)")
  case True
  let ?f = "dw_flights w ! n"
  let ?P = "\<lambda>i f. \<not> df_submitted f \<and> dd_id (df_claim f) = i"
  have ac: "world_acyclic (dep_do_submit w n)"
    using assms step_flights [of w "DepSubmit n"] by (simp add: claims_ok_def world_acyclic_def)
  have up: "length (filter (?P i) (dw_flights w))
      = length (filter (?P i) ((dw_flights w)[n := ?f\<lparr>df_submitted := True\<rparr>])) + (if dd_id (df_claim ?f) = i then 1 else 0)" for i
    using True by (simp add: filter_split_nth [of n "dw_flights w" "?P i"] upd_conv_take_nth_drop)
  have rm: "length (filter (?P i) (remove_at n (dw_flights w))) \<le> length (filter (?P i) (dw_flights w))" for i
    using True filter_remove_at [of n "dw_flights w" "?P i"] by simp
  have b: "count_list (dw_submitted w) i + unsubmitted w i \<le> count_list (dw_claimed w) i
      \<and> count_list (dw_claimed w) i \<le> count_list (dw_returned w) i + row_admitted (dw_store w) i" for i
    using assms by (simp add: claims_ok_def)
  have "count_list (dw_submitted (dep_do_submit w n)) i + unsubmitted (dep_do_submit w n) i \<le> count_list (dw_claimed w) i" for i
    using b [of i] up [of i] rm [of i] True
    by (auto simp: dep_do_submit_def Let_def unsubmitted_def split: if_splits)
  moreover have "dw_claimed (dep_do_submit w n) = dw_claimed w" "dw_returned (dep_do_submit w n) = dw_returned w"
    by (simp_all add: dep_do_submit_def Let_def)
  ultimately show ?thesis using ac b by (simp add: claims_ok_def)
next
  case False
  then have "dep_do_submit w n = w" by (auto simp: dep_do_submit_def)
  then show ?thesis using assms by simp
qed

lemma claims_ok_answer:
  assumes "claims_ok w"
  shows "claims_ok (dep_do_answer w n ans now)"
proof (cases "n < length (dw_flights w) \<and> df_submitted (dw_flights w ! n)")
  case True
  let ?w = "dep_do_answer w n ans now"
  let ?c = "df_claim (dw_flights w ! n)"
  have W: "rows_ok (dw_store w)" "flights_dispatching w" "world_acyclic w"
    using assms by (simp_all add: claims_ok_def world_acyclic_def)
  have ac: "world_acyclic ?w" using step_acyclic [OF W(3), of "DepAnswer n ans now"] by simp
  have disp: "dd_status ?c = StDispatching" using W(2) True by (simp add: flights_dispatching_def)
  have uns: "unsubmitted ?w i = unsubmitted w i" for i
    using True by (simp add: dep_do_answer_def Let_def unsubmitted_def
        filter_remove_at [of n "dw_flights w" "\<lambda>f. \<not> df_submitted f \<and> dd_id (df_claim f) = i"])
  have same: "dw_claimed ?w = dw_claimed w" "dw_submitted ?w = dw_submitted w"
    using True by (simp_all add: dep_do_answer_def Let_def)
  have ret: "dw_returned ?w = dw_returned w @ (if ans = SubmitBusy then [dd_id ?c] else [])"
    using True by (simp add: dep_do_answer_def Let_def)
  have row: "row_admitted (dw_store w) i + count_list (dw_returned w) i
      \<le> row_admitted (dw_store ?w) i + count_list (dw_returned ?w) i" for i
  proof (cases "ans = SubmitBusy \<and> i = dd_id ?c")
    case True
    then show ?thesis using ret row_admitted_le [of "dw_store w" i] by simp
  next
    case False
    let ?R = "\<lambda>d d'. i = dd_id d \<longrightarrow> keeps_admitted d d'"
    have "written ?R (dw_store w) (fst (store_save (dw_store w) ?c (submit_settled ?c ans) now))"
      by (rule written_save [OF W(1) _ submit_settled_ends])
        (use disp False in \<open>auto simp: active_status keeps_admitted_def admitted_def submit_settled_def
            split: submit_answer.splits\<close>)
    then have "written ?R (dw_store w) (dw_store ?w)" using True by (simp add: dep_do_answer_def Let_def)
    then have "row_admitted (dw_store w) i \<le> row_admitted (dw_store ?w) i"
      by (rule row_admitted_at [OF W(1)])
    then show ?thesis using ret by simp
  qed
  have b: "count_list (dw_submitted w) i + unsubmitted w i \<le> count_list (dw_claimed w) i
      \<and> count_list (dw_claimed w) i \<le> count_list (dw_returned w) i + row_admitted (dw_store w) i" for i
    using assms by (simp add: claims_ok_def)
  have "count_list (dw_submitted ?w) i + unsubmitted ?w i \<le> count_list (dw_claimed ?w) i
      \<and> count_list (dw_claimed ?w) i \<le> count_list (dw_returned ?w) i + row_admitted (dw_store ?w) i" for i
    using b [of i] row [of i] unfolding uns same by linarith
  then show ?thesis using ac unfolding claims_ok_def by blast
next
  case False
  then have "dep_do_answer w n ans now = w" by (auto simp: dep_do_answer_def)
  then show ?thesis using assms by simp
qed

lemma row_admitted_register:
  "store_register st d = Inr (st', d') \<Longrightarrow> dd_status d = StWaiting \<Longrightarrow> row_admitted st' i = row_admitted st i"
  using register_result [of st d st' d'] by (auto simp: row_admitted_def admitted_def map_has_def)

lemma claims_ok_other:
  assumes "claims_ok w" "plain_event ev \<or> (\<exists>d. ev = DepRegister d)"
  shows "claims_ok (dep_step w ev)"
proof -
  have W: "rows_ok (dw_store w)" "world_acyclic w" using assms(1) by (simp_all add: claims_ok_def world_acyclic_def)
  note same = step_claimed_same [OF assms(2), of w]
  have "row_admitted (dw_store w) i \<le> row_admitted (dw_store (dep_step w ev)) i" for i
  proof (cases "plain_event ev")
    case True
    then show ?thesis using row_admitted_mono written_plain [OF W(1)] by blast
  next
    case False
    then obtain d where ev: "ev = DepRegister d" using assms(2) by blast
    show ?thesis unfolding ev using row_admitted_register [of "dw_store w" d]
      by (simp add: on_store_def split: sum.split)
  qed
  moreover have "count_list (dw_submitted w) i + unsubmitted w i \<le> count_list (dw_claimed w) i
      \<and> count_list (dw_claimed w) i \<le> count_list (dw_returned w) i + row_admitted (dw_store w) i" for i
    using assms(1) by (simp add: claims_ok_def)
  ultimately have "count_list (dw_submitted w) i + unsubmitted w i \<le> count_list (dw_claimed w) i
      \<and> count_list (dw_claimed w) i \<le> count_list (dw_returned w) i + row_admitted (dw_store (dep_step w ev)) i" for i
    by (meson add_left_mono le_trans)
  moreover have "unsubmitted (dep_step w ev) i = unsubmitted w i" for i
    using same by (simp add: unsubmitted_def)
  ultimately show ?thesis using same step_acyclic [OF W(2)] by (simp add: claims_ok_def)
qed

lemma claims_ok_step: "claims_ok w \<Longrightarrow> claims_ok (dep_step w ev)"
proof -
  assume ok: "claims_ok w"
  show ?thesis
  proof (cases "plain_event ev \<or> (\<exists>d. ev = DepRegister d)")
    case True
    then show ?thesis by (rule claims_ok_other [OF ok])
  next
    case False
    then show ?thesis
    proof (cases ev)
      case (DepClaim current evidence can busy pid now)
      then show ?thesis using ok claims_ok_claim [OF ok] admission_ready [of current evidence can busy] by simp
    qed (use ok claims_ok_submit claims_ok_answer in simp_all)
  qed
qed

lemma claims_ok_run: "claims_ok w \<Longrightarrow> claims_ok (foldl dep_step w evs)"
  by (induction evs arbitrary: w) (simp_all add: claims_ok_step)

lemma claims_ok_new: "claims_ok dep_world_new"
  using new_world_acyclic
  by (simp add: claims_ok_def unsubmitted_def dep_world_new_def row_admitted_def)

text \<open>
  C20: A dependency wakes its thread at most once. In every run, with any number of processes, stale
  reads and crashes between the steps, the number of prompts submitted for a registration exceeds
  the number of times the backend answered that the thread was busy by at most one.
\<close>

theorem prompt_at_most_once:
  "count_list (dw_submitted (foldl dep_step dep_world_new evs)) i
    \<le> Suc (count_list (dw_returned (foldl dep_step dep_world_new evs)) i)"
proof -
  let ?w = "foldl dep_step dep_world_new evs"
  have "claims_ok ?w" by (rule claims_ok_run [OF claims_ok_new])
  then have "count_list (dw_submitted ?w) i + unsubmitted ?w i \<le> count_list (dw_claimed ?w) i"
    "count_list (dw_claimed ?w) i \<le> count_list (dw_returned ?w) i + row_admitted (dw_store ?w) i"
    unfolding claims_ok_def by blast+
  then show ?thesis using row_admitted_le [of "dw_store ?w" i] by linarith
qed

end
