(* ===== verification/DependencyProps.thy ===== *)
theory DependencyProps
  imports DependencyRuns
begin

text \<open>
  Properties of thread dependencies that span the evaluation of prerequisites, the store and its
  runs: when a registration is refused, what a waking turn rests on, and who wins a claim.
\<close>

subsection \<open>Registration\<close>

text \<open>
  C19: A registration is refused as a cycle exactly when one would arise. With room in the store and
  no equal registration, create fails with the cycle error if and only if some prerequisite thread
  already waits, directly or through others, for the registering thread.
\<close>

theorem registration_refuses_exactly_cycles:
  assumes "consumer_of d \<notin> dst_archived st"
    and "List.find (\<lambda>x. same_signature x d) (store_active st) = None"
    and "length (store_active st) < 512"
    and "length (filter (\<lambda>x. consumer_of x = consumer_of d) (store_active st)) < 32"
  shows "store_register st d = Inl RegCycle \<longleftrightarrow>
    (\<exists>t\<in>set (dep_targets d). (t, consumer_of d) \<in> (dep_graph (store_active st @ [d]))\<^sup>*)"
  using assms by (simp add: store_register_def creates_cycle_iff [symmetric])

theorem registration_refuses_exactly_cycles_witness:
  "(store_register \<lparr>dst_rows = [(''1'', sample_dep ''1'' ''a'' ''b'')], dst_archived = {}\<rparr> (sample_dep ''2'' ''b'' ''a'')
     = Inl RegCycle) = (\<exists>t\<in>set (dep_targets (sample_dep ''2'' ''b'' ''a'')).
       (t, consumer_of (sample_dep ''2'' ''b'' ''a''))
         \<in> (dep_graph (store_active \<lparr>dst_rows = [(''1'', sample_dep ''1'' ''a'' ''b'')], dst_archived = {}\<rparr>
              @ [sample_dep ''2'' ''b'' ''a'']))\<^sup>*)"
  by (rule registration_refuses_exactly_cycles) code_simp+

subsection \<open>What a wake-up rests on\<close>

definition ci_is_green :: "dep_condition \<Rightarrow> pr_summary \<Rightarrow> int \<Rightarrow> int \<Rightarrow> bool" where
  "ci_is_green c pr fetchedAt now \<longleftrightarrow>
     pr_checks pr = Some ''passing'' \<and> \<not> ps_checksStillRunning pr
     \<and> \<not> pr_is_draft pr \<and> \<not> pr_is_closed pr \<and> ps_mergeState pr \<noteq> Some ''conflicting''
     \<and> (truthy (dc_headSha c) \<noteq> None \<longrightarrow> ps_headSha pr = dc_headSha c)
     \<and> (pr_is_merged pr \<or> (fetchedAt \<le> now \<and> now \<le> fetchedAt + CURRENT_STATUS_MAX_AGE_MS \<and> truthy (ps_headSha pr) \<noteq> None))"

lemma evaluate_pr_ci:
  "dc_when c = CiPassed \<Longrightarrow> fst (evaluate_pr c pr f now) = DepSatisfied \<longleftrightarrow> ci_is_green c pr f now"
  unfolding evaluate_pr_def ci_is_green_def by (auto split: if_split)

lemma matching_prs_subset: "set (matching_prs canonical c prs) \<subseteq> set prs"
  by (auto simp: matching_prs_def split: option.split)

lemma evaluateCondition_ci:
  assumes "dc_when c = CiPassed" "de_state (evaluateCondition canonical c sn now t) = DepSatisfied"
  shows "\<exists>pr f. (pr, f) \<in> set (sn_prs sn) \<and> ci_is_green c pr f now"
proof (cases "matching_prs canonical c (sn_prs sn)")
  case Nil
  then show ?thesis using assms by (simp add: evaluateCondition_def Let_def)
next
  case (Cons p rest)
  obtain pr f where p: "p = (pr, f)" by (cases p)
  show ?thesis
  proof (cases rest)
    case Nil
    then have "fst (evaluate_pr c pr f now) = DepSatisfied"
      using assms Cons p by (simp add: evaluateCondition_def Let_def split_def)
    then have "ci_is_green c pr f now" using evaluate_pr_ci [OF assms(1)] by blast
    moreover have "(pr, f) \<in> set (sn_prs sn)" using matching_prs_subset [of canonical c "sn_prs sn"] Cons p by auto
    ultimately show ?thesis by blast
  next
    case (Cons q rest')
    then show ?thesis using assms \<open>matching_prs canonical c (sn_prs sn) = p # rest\<close>
      by (simp add: evaluateCondition_def Let_def)
  qed
qed

lemma named_keeps [simp]:
  "dc_when (namedPrCondition de sn c) = dc_when c" "dc_headSha (namedPrCondition de sn c) = dc_headSha c"
  by (simp_all add: namedPrCondition_def currentPrCondition_def canonicalPrCondition_def or_else_def
      split: option.split)

lemma keep_pr_state [simp]: "de_state (keep_pr p e) = de_state e"
  by (simp add: keep_pr_def split: option.split)

lemma ci_is_green_cong: "dc_headSha c = dc_headSha c' \<Longrightarrow> ci_is_green c = ci_is_green c'"
  by (simp add: ci_is_green_def fun_eq_iff)

lemma observe_ci:
  assumes "dc_when c = CiPassed" "de_state (snd (observe de previous signal now c sn)) = DepSatisfied"
  shows "\<exists>pr f. (pr, f) \<in> set (sn_prs sn) \<and> ci_is_green c pr f now"
proof -
  have key: "\<exists>pr f. (pr, f) \<in> set (sn_prs sn) \<and> ci_is_green c pr f now"
    if "de_state (evaluateCondition (denv_canonicalizePrUrl de) sel sn now t) = DepSatisfied"
      "dc_when sel = CiPassed" "dc_headSha sel = dc_headSha c" for sel t
    using evaluateCondition_ci [OF that(2,1)] ci_is_green_cong [OF that(3)] by simp
  show ?thesis using assms
    by (simp add: observe_def Let_def split: option.split_asm) (erule key; simp)+
qed

lemma collect_one_ci:
  assumes "dc_when c = CiPassed" "de_state (snd (collect_one de d signal now c)) = DepSatisfied"
  shows "\<exists>sn pr f. denv_readThread de (dc_backend c, dc_threadId c) None = Inr sn
           \<and> (pr, f) \<in> set (sn_prs sn) \<and> ci_is_green c pr f now"
proof (cases "denv_readThread de (dc_backend c, dc_threadId c) None")
  case (Inl message)
  then show ?thesis using assms by (simp add: collect_one_def Let_def split: option.split_asm)
next
  case (Inr sn)
  then have "de_state (snd (observe de (List.find (\<lambda>e. de_condition e = c) (dd_evidence d)) signal now c sn)) = DepSatisfied"
    using assms by (simp add: collect_one_def Let_def split: option.split_asm)
  then show ?thesis using observe_ci [OF assms(1)] Inr by blast
qed

lemma success_all:
  "dep_success ModeAll evidence \<longleftrightarrow> list_all (\<lambda>e. de_state e = DepSatisfied) evidence"
  using sum_length_filter_compl [of "\<lambda>e. de_state e = DepSatisfied" evidence]
  by (auto simp: dep_success_def list_all_iff filter_empty_conv)

text \<open>
  C21: No thread is woken on stale or partial CI. When a registration that waits for all of its
  prerequisites is handed to the backend as a success, each prerequisite that CI passed was
  established by this very evaluation: the thread was read, and one of its pull requests has passing
  checks with none still running, is neither a draft, closed nor conflicting, is at the pinned head
  if one was pinned, and unless it is merged its status is at most a minute old.
\<close>

theorem wake_needs_fresh_ci:
  assumes "collect_evidence de d signal now = (conditions, evidence)"
    and "dep_admission_of (evaluated d conditions evidence) evidence canDispatch busy = AdmitTurn"
    and "dd_outcome (evaluated d conditions evidence) = Some OutSuccess"
    and "dd_mode d = ModeAll" "c \<in> set (dd_conditions d)" "dc_when c = CiPassed"
  shows "\<exists>sn pr fetchedAt. denv_readThread de (dc_backend c, dc_threadId c) None = Inr sn
    \<and> (pr, fetchedAt) \<in> set (sn_prs sn) \<and> ci_is_green c pr fetchedAt now"
proof -
  have mode: "dd_mode (evaluated d conditions evidence) = ModeAll" using assms(4) by (simp add: evaluated_def Let_def)
  have "dep_success ModeAll evidence \<or> dep_failure ModeAll evidence"
    using assms(2) mode by (simp add: dep_admission_of_def split: if_split_asm)
  then have "dep_success ModeAll evidence"
    using assms(3,4) by (simp add: evaluated_def Let_def split: if_split_asm)
  moreover have "snd (collect_one de d signal now c) \<in> set evidence"
    using assms(1,5) by (auto simp: collect_evidence_def Let_def)
  ultimately have "de_state (snd (collect_one de d signal now c)) = DepSatisfied"
    by (simp add: success_all list_all_iff)
  then show ?thesis by (rule collect_one_ci [OF assms(6)])
qed

definition green_env :: dep_env where
  "green_env = \<lparr>denv_readThread = (\<lambda>_ _. Inr \<lparr>sn_activeTurnId = None, sn_turns = [],
       sn_prs = [(\<lparr>ps_url = ''u'', ps_state = Some ''open'', ps_lifecycleState = None, ps_reviewState = None,
         ps_mergeState = None, ps_checkState = Some ''passing'', ps_checksStillRunning = False,
         ps_headSha = Some ''abc''\<rparr>, 1000)]\<rparr>),
     denv_canonicalizePrUrl = (\<lambda>u. u), denv_resolvePrUrl = None,
     denv_isSameNumberInAnotherRepository = (\<lambda>_ _. False)\<rparr>"

theorem wake_needs_fresh_ci_witness:
  "\<exists>sn pr fetchedAt. denv_readThread green_env (''codex'', ''b'') None = Inr sn
    \<and> (pr, fetchedAt) \<in> set (sn_prs sn)
    \<and> ci_is_green (hd (dd_conditions (sample_dep ''1'' ''a'' ''b''))) pr fetchedAt 60000"
proof -
  let ?d = "sample_dep ''1'' ''a'' ''b''"
  let ?e = "collect_evidence green_env ?d None 60000"
  have 1: "dep_admission_of (evaluated ?d (fst ?e) (snd ?e)) (snd ?e) True False = AdmitTurn"
    and 2: "dd_outcome (evaluated ?d (fst ?e) (snd ?e)) = Some OutSuccess" by code_simp+
  have 3: "dd_mode ?d = ModeAll" "hd (dd_conditions ?d) \<in> set (dd_conditions ?d)"
    "dc_when (hd (dd_conditions ?d)) = CiPassed" by code_simp+
  have 4: "(dc_backend (hd (dd_conditions ?d)), dc_threadId (hd (dd_conditions ?d))) = (''codex'', ''b'')" by code_simp
  show ?thesis using wake_needs_fresh_ci [OF surjective_pairing 1 2 3] unfolding 4 .
qed

end
