(* ===== verification/TurnQueueLog.thy ===== *)
theory TurnQueueLog
  imports TurnQueueSafety "HOL-Library.Sublist"
begin

text \<open>
  The event log is append-only: no operation of the queue takes an event back, and no action takes
  back an acceptance. What a listener of \<open>onLifecycle\<close> has seen stays true.
\<close>

named_theorems log_grows \<open>the event log of the result extends the one before\<close>

definition grows :: "turn_queue \<Rightarrow> turn_queue \<Rightarrow> bool" where
  "grows s s' \<longleftrightarrow> prefix (eventLog s) (eventLog s')"

lemma grows_refl [simp]: "grows s s"
  by (simp add: grows_def)

lemma grows_trans: "grows s t \<Longrightarrow> grows t u \<Longrightarrow> grows s u"
  unfolding grows_def by (rule prefix_order.trans)

lemma grows_untouched: "untouched s s' \<Longrightarrow> grows s s'"
  by (simp add: grows_def untouched_def)

lemma grows_log [simp]:
  "grows s (t\<lparr>eventLog := eventLog t @ evs\<rparr>) \<longleftrightarrow> prefix (eventLog s) (eventLog t @ evs)"
  "eventLog t = eventLog s \<Longrightarrow> grows s t"
  by (simp_all add: grows_def)

lemma grows_holdQueue: "grows s (holdQueue s key r keep)"
  by (simp add: holdQueue_def grows_def Let_def tq_view split: prod.split)

lemma grows_emit: "grows s (emit s ev)"
  by (simp add: grows_def tq_view)

lemma grows_queueFor: "grows s (queueFor s key)"
  by (simp add: grows_def tq_view)

lemma grows_holdAfterTurnFailure: "grows s (holdAfterTurnFailure s key err)"
  using grows_holdQueue grows_trans [OF grows_queueFor grows_holdQueue] grows_queueFor
  by (simp add: holdAfterTurnFailure_def Let_def)

lemma grows_clearQueueHold: "grows s (clearQueueHold s key)"
  by (simp add: clearQueueHold_def grows_def Let_def tq_view)

subsection \<open>Dispatch\<close>

lemma grows_startEntry_begin: "grows s (fst (startEntry_begin s e))"
  by (simp add: startEntry_begin_def grows_def Let_def tq_view)

lemma grows_settle: "grows s (startEntry_settle t key a) \<longleftrightarrow> grows s t"
  by (simp add: startEntry_settle_def grows_def tq_view)

lemma grows_acknowledged: "grows s (fst (startEntry_acknowledged s e a t))"
  by (simp add: startEntry_acknowledged_def grows_settle Let_def) (simp add: grows_def tq_view)

lemma grows_settleRelease: "grows s (settleRelease s key t st err)"
proof -
  define s1 where "s1 = (case t of None \<Rightarrow> s | Some t' \<Rightarrow> if st \<noteq> Some ''idle'' then rememberTerminal s key t' else s)"
  define s2 where "s2 = (case map_get (runningEntries s1) key of None \<Rightarrow> s1
      | Some r \<Rightarrow> if t = None \<or> re_turnId r = None \<or> re_turnId r = t
          then emit (s1\<lparr>runningEntries := map_del (runningEntries s1) key\<rparr>) (EvTerminal (re_entry r) t st) else s1)"
  have "grows s s1" by (simp add: s1_def grows_def tq_view split: option.split)
  moreover have "grows s1 s2" by (simp add: s2_def grows_def tq_view split: option.split)
  ultimately have "grows s s2" by (rule grows_trans)
  moreover have "settleRelease s key t st err = (if st = Some TURN_FAILED then holdAfterTurnFailure s2 key err else s2)"
    by (simp only: settleRelease_def Let_def s1_def s2_def)
  ultimately show ?thesis using grows_trans [OF _ grows_holdAfterTurnFailure] by simp
qed

lemma grows_started: "grows s (startEntry_started s e a early)"
proof -
  have "grows s (emit (rememberTerminal s k t) ev)" for k t ev by (simp add: grows_def tq_view)
  then show ?thesis
    using grows_settleRelease grows_trans [OF _ grows_holdAfterTurnFailure]
    by (simp add: startEntry_started_def grows_settle Let_def split: option.split)
qed

lemma grows_hold_terminals: "grows s (foldl (hold_for_failed_terminal key) s ts)"
proof (induction ts arbitrary: s)
  case (Cons t ts)
  have "grows s (rememberTerminal s key (qt_turnId t))" by (simp add: grows_def tq_view)
  then have "grows s (hold_for_failed_terminal key s t)"
    using grows_trans [OF _ grows_holdAfterTurnFailure] by (simp add: hold_for_failed_terminal_def)
  then show ?case using grows_trans [OF _ Cons.IH] by simp
qed simp

lemma grows_rejected: "grows s (startEntry_rejected s e a err df)"
proof -
  have f: "grows s (forgetAdmittedEntry s i)" for i by (simp add: grows_def tq_view)
  show ?thesis
    using f grows_trans [OF grows_trans [OF f grows_hold_terminals] grows_emit]
    by (simp add: startEntry_rejected_def grows_settle Let_def)
qed

lemma grows_startNext_begin: "grows s (fst (startNext_begin env s key))"
proof (cases rule: startNext_begin_cases [of env s key])
  case none
  then show ?thesis
    by (simp add: startNext_begin_def grows_def startEntry_begin_def Let_def tq_view split: option.split)
qed (simp_all add: startNext_begin_def grows_def startEntry_begin_def Let_def tq_view split: option.split)

lemma grows_failed: "grows s (startNext_failed s key e p err)"
proof -
  have "grows s (emit (addHoldReason (put_queue (queueFor (forgetAdmittedEntry s i) key) key q) key err) ev)" for i q ev
    by (simp add: grows_def tq_view)
  then show ?thesis using grows_trans [OF _ grows_holdQueue] by (simp add: startNext_failed_def Let_def)
qed

lemma grows_steer_finally: "grows s (steer_finally env t key e a d) \<longleftrightarrow> grows s t"
  by (simp add: steer_finally_def grows_def Let_def tq_view)

lemma grows_steered: "grows s (startNext_steered env s key e p h a ans)"
proof -
  have put: "grows s (put_queue (queueFor (forgetAdmittedEntry s i) key) key q)" for i q by (simp add: grows_def tq_view)
  have drain: "grows s (scheduleDrain t k) \<longleftrightarrow> grows s t" for t k by (simp add: grows_def tq_view)
  have acc: "grows s (emit (rememberAdmittedEntry (applyAdmission s key ev) i x) ev')" for ev i x ev'
    by (simp add: grows_def tq_view)
  show ?thesis
    by (simp add: startNext_steered_def Let_def grows_steer_finally drain put acc
        grows_trans [OF put grows_holdQueue] split: steer_answer.split option.split)
qed

lemma grows_steer_rejected: "grows s (startNext_steer_rejected env s key e p a err)"
  unfolding startNext_steer_rejected_def
  by (rule grows_trans [OF _ grows_failed]) (simp add: grows_steer_finally)

lemma grows_startNext_rejected: "grows s (startNext_rejected s key e p a err)"
  unfolding startNext_rejected_def by (rule grows_trans [OF grows_rejected grows_failed])

subsection \<open>Submissions, restores and edits\<close>

lemma grows_push: "grows s (fst (push_entry s key e))"
  by (simp add: push_entry_def grows_def Let_def tq_view)

lemma grows_push': "push_entry t key e = (s', n) \<Longrightarrow> grows s t \<Longrightarrow> grows s s'"
  using grows_trans [OF _ grows_push [of t key e]] by simp

lemma grows_begin': "startEntry_begin t e = (s', a) \<Longrightarrow> grows s t \<Longrightarrow> grows s s'"
  using grows_trans [OF _ grows_startEntry_begin [of t e]] by simp

lemma grows_canStart: "canStartImmediately env s b t = (s', r) \<Longrightarrow> grows s s'"
  using grows_queueFor by (auto simp: canStartImmediately_def Let_def split: if_split_asm)

lemma grows_suspend:
  "grows s (suspend s key)" "grows s (unsuspend t key) \<longleftrightarrow> grows s t" "grows s (scheduleDrain t key) \<longleftrightarrow> grows s t"
  by (simp_all add: grows_def tq_view)

lemma grows_submit: "grows s (fst (submit env s e))" "grows s (fst (submitIfIdle env s e))"
  by (auto simp: submit_def submitIfIdle_def Let_def split: prod.split
      dest!: grows_canStart intro: grows_push' grows_begin')

lemma grows_end: "grows s (fst r) \<Longrightarrow> grows s (fst (end_unless_starting key r))"
  by (cases r) (simp add: end_unless_starting_def grows_suspend split: submission.split)

lemma grows_steer_edits:
  "grows s (fst (submitGroupedSteer_edit env s e d))" "grows s (fst (submitSteer_edit env s e))"
  by (auto simp: submitGroupedSteer_edit_def submitSteer_edit_def Let_def grows_queueFor
      split: prod.split option.split intro: grows_push' grows_begin' grows_trans [OF grows_queueFor])
    (simp_all add: grows_def tq_view)

lemma grows_submitSteer:
  "grows s (fst (submitGroupedSteer env s e d))" "grows s (fst (submitSteer env s e))"
  unfolding submitGroupedSteer_def submitSteer_def
  by (rule grows_end, rule grows_trans [OF grows_suspend(1) grows_steer_edits(1)])
    (rule grows_end, rule grows_trans [OF grows_suspend(1) grows_steer_edits(2)])

lemma grows_submitHeld: "submitHeld s e reason = Inr (s', h, n) \<Longrightarrow> grows s s'"
proof -
  have "grows s (holdQueue (emit (put_queue (addHoldReason (queueFor s k) k reason) k q) ev) k reason True)" for k q ev
    by (rule grows_trans [OF _ grows_holdQueue]) (simp add: grows_def tq_view)
  then show "submitHeld s e reason = Inr (s', h, n) \<Longrightarrow> ?thesis"
    by (auto simp: submitHeld_def Let_def split: option.split_asm if_split_asm)
qed

lemma grows_submitProjectHeld: "grows s (fst (submitProjectHeld s e reason ph))"
  using grows_push by (auto simp: submitProjectHeld_def Let_def split: option.split prod.split intro: grows_push')

lemma grows_restore: "grows s (fst (foldl (restore_one front) (t, rs) es)) \<longleftrightarrow> grows s t"
proof (induction es arbitrary: t rs)
  case (Cons e es)
  have "grows s (put_queue (queueFor t k) k q) \<longleftrightarrow> grows s t" for k q by (simp add: grows_def tq_view)
  then have "grows s (fst (restore_one front (t, rs) e)) \<longleftrightarrow> grows s t" by (simp add: restore_one_def Let_def)
  then show ?case using Cons.IH by (cases "restore_one front (t, rs) e") simp
qed simp

lemma grows_restores:
  "grows s (fst (restoreProjectHeld s es))" "grows s (fst (restoreRestartContinuations s es))"
  "grows s (fst (restoreQueued s es))"
  by (simp_all add: restoreProjectHeld_def restoreRestartContinuations_def restoreQueued_def grows_restore)

lemma grows_suspended: "(\<And>t. grows t (fst (edit t))) \<Longrightarrow> grows s (fst (withDispatchSuspended s key edit))"
  using grows_trans [OF grows_suspend(1)]
  by (simp add: withDispatchSuspended_def grows_suspend split: prod.split) (metis fst_conv)

lemma grows_moveEntry: "grows s (fst (moveEntry s i b))"
  by (auto simp: moveEntry_def moveEntry_edit_def split: option.split prod.split intro!: grows_suspended)
    (simp add: grows_def tq_view)

lemma grows_setEntryPaused: "grows s (fst (setEntryPaused s i p))"
proof -
  have "grows t (fst (setEntryPaused_edit t key i p))" for t key
    by (simp add: setEntryPaused_edit_def Let_def split: option.split) (simp add: grows_def tq_view)
  then show ?thesis by (auto simp: setEntryPaused_def split: option.split intro!: grows_suspended)
qed

lemma grows_update_queued: "grows s (fst (update_queued s i f))"
  by (simp add: update_queued_def Let_def grows_def tq_view split: option.split prod.split)

lemma grows_input_edits:
  "grows s (fst (updateQueuedEntryInput s i inp st))" "grows s (fst (setQueuedEntryTitle s i title))"
  "grows s (fst (replaceQueuedAgentInput s i inp sender og))"
  by (simp_all add: updateQueuedEntryInput_def setQueuedEntryTitle_def grows_update_queued)
    (simp add: replaceQueuedAgentInput_def Let_def grows_def tq_view split: option.split prod.split)

lemma grows_cancel: "grows s (fst (cancelEntryWithDisposition s i reason))"
proof -
  have "grows s (fst (cancelEntry s i reason))"
    by (simp add: cancelEntry_def Let_def grows_def tq_view split: option.split prod.split)
  then show ?thesis
    by (auto simp: cancelEntryWithDisposition_def split: prod.split option.split)
qed

lemma grows_releaseHold: "grows s (fst (releaseHold s b t rel))"
  by (simp add: releaseHold_def Let_def grows_suspend split: option.split prod.split)
    (simp add: grows_def tq_view)

lemma grows_getQueued: "grows s (fst (getQueuedEntries s b t))"
  by (simp add: getQueuedEntries_def Let_def grows_queueFor)

lemma grows_drainAll: "grows s (drainAll s)"
proof -
  have "grows s (foldl scheduleDrain t ks) \<longleftrightarrow> grows s t" for ks t
    by (induction ks arbitrary: t) (simp_all add: grows_suspend)
  then show ?thesis by (simp add: drainAll_def)
qed

lemma grows_fields:
  "grows s (t\<lparr>drainTimers := d\<rparr>) \<longleftrightarrow> grows s t" "grows s (t\<lparr>releasingKeys := r\<rparr>) \<longleftrightarrow> grows s t"
  "grows s (t\<lparr>releasingKeys := r, pendingReleaseKeys := p\<rparr>) \<longleftrightarrow> grows s t"
  "grows s (t\<lparr>pendingReleaseKeys := p\<rparr>) \<longleftrightarrow> grows s t" "grows s (close_queue t) \<longleftrightarrow> grows s t"
  by (simp_all add: grows_def close_queue_def)

subsection \<open>Actions\<close>

lemma grows_release_begin: "grows s (fst (releaseThread_begin env s b t turn st err))"
proof -
  have "grows s (settleRelease (s\<lparr>releasingKeys := r\<rparr>) key turn st err)" for r key
    by (rule grows_trans [OF _ grows_settleRelease]) (simp add: grows_fields)
  then have "grows s (fst (startNext_begin env (settleRelease (s\<lparr>releasingKeys := r\<rparr>) key turn st err) key'))" for r key key'
    by (rule grows_trans [OF _ grows_startNext_begin])
  then have "startNext_begin env (settleRelease (s\<lparr>releasingKeys := r\<rparr>) key turn st err) key' = (s', x) \<Longrightarrow> grows s s'" for r key key' s' x
    by (metis fst_conv)
  then show ?thesis
    by (simp add: releaseThread_begin_def Let_def grows_fields split: prod.split option.split)
      (simp add: grows_def tq_view)
qed

lemma grows_release_finish: "grows s (fst (releaseThread_finish env s b t result))"
  by (simp add: releaseThread_finish_def Let_def grows_fields grows_trans [OF _ grows_release_begin])

definition wgrows :: "world \<Rightarrow> world \<Rightarrow> bool" where
  "wgrows w w' \<longleftrightarrow> grows (w_queue w) (w_queue w') \<and> prefix (w_accepted w) (w_accepted w')"

lemma wgrows_refl [simp]: "wgrows w w"
  by (simp add: wgrows_def)

lemma wgrows_trans: "wgrows w v \<Longrightarrow> wgrows v u \<Longrightarrow> wgrows w u"
  unfolding wgrows_def using grows_trans prefix_order.trans by blast

lemma wgrows_simps [simp]:
  "wgrows w (with_queue w s) \<longleftrightarrow> grows (w_queue w) s"
  "wgrows w (add_flight v f) \<longleftrightarrow> wgrows w v"
  "wgrows w (drop_flight v n) \<longleftrightarrow> wgrows w v"
  "wgrows w (v\<lparr>w_flights := fs\<rparr>) \<longleftrightarrow> wgrows w v"
  "wgrows w v \<Longrightarrow> wgrows w (accept v es)"
  by (auto simp: wgrows_def with_queue_def add_flight_def drop_flight_def accept_def prefix_def)

lemma wgrows_submitted: "grows (w_queue w) (fst r) \<Longrightarrow> wgrows w (submitted w th r)"
  by (cases r) (simp add: submitted_def split: submission.split)

lemma wgrows_submitted_grouped: "grows (w_queue w) (fst r) \<Longrightarrow> wgrows w (submitted_grouped w r)"
  using wgrows_submitted by (cases r) (simp add: submitted_grouped_def split: submission.split)

lemma wgrows_with: "wgrows v (with_queue v s) \<Longrightarrow> wgrows w v \<Longrightarrow> wgrows w (with_queue v s)"
  using wgrows_trans by blast

lemma wgrows_launch: "grows (w_queue w) (fst r) \<Longrightarrow> wgrows w (launch env w key th r)"
proof -
  assume g: "grows (w_queue w) (fst r)"
  have "wgrows v (launch_none env v th)" for v
    using grows_release_finish by (simp add: launch_none_def split: follow_up.split)
  moreover have "wgrows w (with_queue w (fst r))" using g by simp
  ultimately have "wgrows w (launch_none env (with_queue w (fst r)) th)" using wgrows_trans by blast
  then show ?thesis using g by (cases r) (simp add: launch_def split: next_step.split)
qed

lemma wgrows_launch_release: "grows (w_queue w) (fst r) \<Longrightarrow> wgrows w (launch_release env w b t r)"
  using wgrows_launch by (cases r) (simp add: launch_release_def split: release_step.split)

lemma wgrows_follow: "wgrows w (follow env w f result)"
  by (simp add: follow_def grows_suspend wgrows_launch_release grows_release_finish split: follow_up.split)

lemma wgrows_follow': "wgrows w v \<Longrightarrow> wgrows w (follow env v f result)"
  by (rule wgrows_trans [OF _ wgrows_follow])

lemma wgrows_answer: "wgrows w (answer env w n ans)"
proof -
  have ack: "startEntry_acknowledged s e a t = (s', x) \<Longrightarrow> grows s s'" for s e a t s' x
    using grows_acknowledged [of s e a t] by simp
  have "wgrows w (w\<lparr>w_queue := s, w_flights := fs\<rparr>) \<longleftrightarrow> grows (w_queue w) s" for s fs by (simp add: wgrows_def)
  then show ?thesis
    using grows_startNext_rejected grows_rejected grows_steered grows_steer_rejected grows_started
    by (auto simp: answer_def Let_def answer_start_def answer_reject_def answer_steer_def
        split: flight_phase.split backend_answer.split prod.split option.split intro!: wgrows_follow' dest: ack)
qed

lemma queue_do_grows: "wgrows w (queue_do env w a)"
proof (cases a)
  case (AHeld e reason)
  then show ?thesis using grows_submitHeld
    by (auto simp: submitted_held_def split: sum.split prod.split)
next
  case (AProjectHeld e reason ph)
  then show ?thesis using grows_submitProjectHeld [of "w_queue w" e reason ph]
    by (auto simp: submitted_held_def split: prod.split)
next
  case (ARetry i)
  have "grows s (fst (releaseEntry_begin env s i))" for s
  proof -
    have c: "withDispatchSuspended t k (\<lambda>t. (clearQueueHold t key, ())) = (s1, x) \<Longrightarrow> grows s t \<Longrightarrow> grows s s1" for t k key s1 x
      using grows_trans [OF _ grows_suspended [of "\<lambda>t. (clearQueueHold t key, ())" t k]] grows_clearQueueHold by simp
    have n: "startNext_begin env s1 key = (s2, x) \<Longrightarrow> grows s s1 \<Longrightarrow> grows s s2" for s1 key s2 x
      using grows_trans [OF _ grows_startNext_begin [of s1 env key]] by simp
    have cn: "grows s s2" if "startNext_begin env s1 key = (s2, x)"
      "withDispatchSuspended (queueFor s key) k (\<lambda>t. (clearQueueHold t key, ())) = (s1, y)" for key k s1 s2 x y
      by (rule n [OF that(1) c [OF that(2) grows_queueFor]])
    show ?thesis
      by (auto simp: releaseEntry_begin_def Let_def grows_queueFor split: option.split prod.split intro: cn)
  qed
  then have "grows (w_queue w) (fst (releaseEntry_begin env (w_queue w) i))" by blast
  then show ?thesis using ARetry wgrows_launch
    by (cases "releaseEntry_begin env (w_queue w) i") (auto simp: retried_def split: sum.split)
next
  case (ADrain key)
  have "grows (w_queue w) (fst (fire_drain env (w_queue w) key))"
    unfolding fire_drain_def by (rule grows_trans [OF _ grows_startNext_begin]) (simp add: grows_fields)
  then show ?thesis using ADrain wgrows_launch by simp
qed (simp_all add: wgrows_submitted wgrows_submitted_grouped grows_submit grows_submitSteer restored_def
      grows_restores grows_getQueued grows_drainAll grows_fields scheduleThreadDrain_def grows_suspend
      grows_cancel grows_moveEntry grows_setEntryPaused grows_input_edits grows_releaseHold
      wgrows_launch_release grows_release_begin wgrows_answer)

end
