(* ===== verification/ThreadIdentity.thy ===== *)
theory ThreadIdentity
  imports TurnQueueTypes
begin

text \<open>
  Thread identity keys (shared/src/contracts/navigation.ts): the backend kinds, the key
  \<open>backend:threadId\<close> under which the queue, the registry and the stores file a thread, its older
  percent-encoded form, and the parser that reads both. \<open>encodeURIComponent\<close> and
  \<open>decodeURIComponent\<close> are written out for the Latin-1 characters of this model; a percent sequence
  that is malformed or decodes outside them gives \<open>None\<close>, and no backend has such a name.
\<close>

subsection \<open>Percent encoding\<close>

definition char_in :: "string \<Rightarrow> char \<Rightarrow> bool" where
  "char_in s c \<longleftrightarrow> c \<in> set s"

definition code :: "char \<Rightarrow> nat" where
  "code c = of_char c"

definition js_alnum :: "char \<Rightarrow> bool" where
  "js_alnum c \<longleftrightarrow> (48 \<le> code c \<and> code c \<le> 57) \<or> (65 \<le> code c \<and> code c \<le> 90) \<or> (97 \<le> code c \<and> code c \<le> 122)"

definition uri_unreserved :: "char \<Rightarrow> bool" where
  "uri_unreserved c \<longleftrightarrow> js_alnum c \<or> char_in ''-_.!~*()'' c \<or> code c = 39"

definition hex_digit :: "nat \<Rightarrow> char" where
  "hex_digit n = char_of (if n < 10 then 48 + n else 55 + n)"

definition hex_value :: "char \<Rightarrow> nat option" where
  "hex_value c = (let n = code c in
     if 48 \<le> n \<and> n \<le> 57 then Some (n - 48)
     else if 65 \<le> n \<and> n \<le> 70 then Some (n - 55)
     else if 97 \<le> n \<and> n \<le> 102 then Some (n - 87) else None)"

definition pct_byte :: "nat \<Rightarrow> string" where
  "pct_byte b = ''%'' @ [hex_digit (b div 16), hex_digit (b mod 16)]"

definition encode_char :: "char \<Rightarrow> string" where
  "encode_char c = (if uri_unreserved c then [c]
     else if code c < 128 then pct_byte (code c)
     else pct_byte (192 + code c div 64) @ pct_byte (128 + code c mod 64))"

definition encodeURIComponent :: "string \<Rightarrow> string" where
  "encodeURIComponent s = concat (map encode_char s)"

definition hex_byte :: "char \<Rightarrow> char \<Rightarrow> nat option" where
  "hex_byte h l = (case (hex_value h, hex_value l) of (Some x, Some y) \<Rightarrow> Some (16 * x + y) | _ \<Rightarrow> None)"

text \<open>One percent sequence after its first two hex digits.\<close>

definition decode_tail :: "nat \<Rightarrow> string \<Rightarrow> (char \<times> string) option" where
  "decode_tail b rest =
     (if b < 128 then Some (char_of b, rest)
      else if b \<noteq> 194 \<and> b \<noteq> 195 then None
      else case rest of
        p # h # l # rest' \<Rightarrow>
          (if p \<noteq> CHR ''%'' then None
           else case hex_byte h l of
             None \<Rightarrow> None
           | Some b2 \<Rightarrow> if 128 \<le> b2 \<and> b2 < 192 then Some (char_of (64 * (b - 192) + (b2 - 128)), rest') else None)
      | _ \<Rightarrow> None)"

lemma decode_tail_shorter: "decode_tail b rest = Some (c, rest') \<Longrightarrow> length rest' \<le> length rest"
  by (auto simp: decode_tail_def split: if_splits list.splits option.splits)

function decodeURIComponent :: "string \<Rightarrow> string option" where
  "decodeURIComponent [] = Some []"
| "decodeURIComponent (c # cs) =
     (if c \<noteq> CHR ''%'' then map_option ((#) c) (decodeURIComponent cs)
      else case cs of
        h # l # rest \<Rightarrow>
          (case hex_byte h l of
             None \<Rightarrow> None
           | Some b \<Rightarrow> (case decode_tail b rest of
               None \<Rightarrow> None
             | Some (x, rest') \<Rightarrow> map_option ((#) x) (decodeURIComponent rest')))
      | _ \<Rightarrow> None)"
  by pat_completeness auto
termination
  by (relation "measure length") (auto dest: decode_tail_shorter)

subsection \<open>Backends and keys\<close>

definition ACP_BACKEND_ID_PREFIX :: string where "ACP_BACKEND_ID_PREFIX = ''acp:''"

definition acp_registry_id :: "string \<Rightarrow> bool" where
  "acp_registry_id s \<longleftrightarrow> s \<noteq> [] \<and> list_all (\<lambda>c. js_alnum c \<or> char_in ''._-'' c) s"

definition starts_with :: "string \<Rightarrow> string \<Rightarrow> bool" where
  "starts_with p s \<longleftrightarrow> take (length p) s = p"

definition isAppServerBuiltinBackendKind :: "string \<Rightarrow> bool" where
  "isAppServerBuiltinBackendKind v \<longleftrightarrow> v = ''codex'' \<or> v = ''claude''"

definition buildAcpBackendId :: "string \<Rightarrow> string option" where
  "buildAcpBackendId registryId =
     (let i = js_trim registryId
      in if acp_registry_id i then Some (ACP_BACKEND_ID_PREFIX @ i) else None)"

definition isAcpBackendId :: "string \<Rightarrow> bool" where
  "isAcpBackendId v \<longleftrightarrow> starts_with ACP_BACKEND_ID_PREFIX v
     \<and> acp_registry_id (drop (length ACP_BACKEND_ID_PREFIX) v)"

definition isAppServerBackendKind :: "string \<Rightarrow> bool" where
  "isAppServerBackendKind v \<longleftrightarrow> isAppServerBuiltinBackendKind v \<or> isAcpBackendId v"

definition buildLegacyEncodedThreadIdentityKey :: "string \<Rightarrow> string \<Rightarrow> string" where
  "buildLegacyEncodedThreadIdentityKey backend threadId = encodeURIComponent backend @ '':'' @ threadId"

text \<open>\<open>s.indexOf(":", from)\<close>.\<close>

definition index_of_from :: "char \<Rightarrow> nat \<Rightarrow> string \<Rightarrow> nat option" where
  "index_of_from c start s = map_option ((+) start) (find_index ((=) c) (drop start s))"

definition parseThreadIdentityKey :: "string \<Rightarrow> (string \<times> string) option" where
  "parseThreadIdentityKey threadKey =
     (case index_of_from (CHR '':'')
             (if starts_with ACP_BACKEND_ID_PREFIX threadKey then length ACP_BACKEND_ID_PREFIX else 0) threadKey of
        None \<Rightarrow> None
      | Some i \<Rightarrow>
         (if i = 0 then None
          else case decodeURIComponent (take i threadKey) of
              None \<Rightarrow> None
            | Some backend \<Rightarrow>
                if isAppServerBackendKind backend then Some (backend, drop (i + 1) threadKey) else None))"

definition normalizeThreadIdentityKey :: "string \<Rightarrow> string option" where
  "normalizeThreadIdentityKey k = map_option (\<lambda>(b, t). buildThreadIdentityKey b t) (parseThreadIdentityKey k)"

definition encodeLegacyThreadIdentityKey :: "string \<Rightarrow> string option" where
  "encodeLegacyThreadIdentityKey k =
     map_option (\<lambda>(b, t). buildLegacyEncodedThreadIdentityKey b t) (parseThreadIdentityKey k)"

subsection \<open>Both forms of a key parse back\<close>

declare decodeURIComponent.simps(2) [simp del]

lemma decode_plain: "\<forall>c\<in>set s. c \<noteq> CHR ''%'' \<Longrightarrow> decodeURIComponent s = Some s"
  by (induction s) (simp_all add: decodeURIComponent.simps(2))

definition registry_char :: "char \<Rightarrow> bool" where
  "registry_char c \<longleftrightarrow> js_alnum c \<or> char_in ''._-'' c"

lemma registry_char_ok:
  assumes "registry_char c"
  shows "c \<noteq> CHR ''%''" "c \<noteq> CHR '':''" "encode_char c = [c]"
  using assms by (auto simp: registry_char_def char_in_def js_alnum_def code_def encode_char_def uri_unreserved_def)

lemma registry_encode: "list_all registry_char r \<Longrightarrow> encodeURIComponent r = r"
  by (induction r) (simp_all add: encodeURIComponent_def registry_char_ok)

lemma find_index_first: "\<forall>x\<in>set xs. \<not> p x \<Longrightarrow> p y \<Longrightarrow> find_index p (xs @ y # ys) = Some (length xs)"
  by (induction xs) simp_all

lemma parse_split:
  assumes "\<not> starts_with ACP_BACKEND_ID_PREFIX (b @ '':'' @ t)" "\<forall>c\<in>set b. c \<noteq> CHR '':''" "b \<noteq> []"
    "decodeURIComponent b = Some k" "isAppServerBackendKind k"
  shows "parseThreadIdentityKey (b @ '':'' @ t) = Some (k, t)"
proof -
  have "find_index ((=) (CHR '':'')) (b @ '':'' @ t) = Some (length b)"
    using find_index_first [of b "(=) (CHR '':'')" "CHR '':''" t] assms(2) by auto
  then show ?thesis using assms by (simp add: parseThreadIdentityKey_def index_of_from_def)
qed

lemma acp_split: "isAcpBackendId b \<longleftrightarrow> (\<exists>r. b = ''acp:'' @ r \<and> r \<noteq> [] \<and> list_all registry_char r)"
proof -
  have "starts_with ''acp:'' b \<longleftrightarrow> (\<exists>r. b = ''acp:'' @ r)"
    unfolding starts_with_def by (metis append_eq_conv_conj append_take_drop_id)
  then show ?thesis
    by (auto simp: isAcpBackendId_def ACP_BACKEND_ID_PREFIX_def acp_registry_id_def registry_char_def [abs_def])
qed

lemma parse_acp:
  assumes "r \<noteq> []" "list_all registry_char r"
  shows "parseThreadIdentityKey (''acp:'' @ r @ '':'' @ t) = Some (''acp:'' @ r, t)"
    "parseThreadIdentityKey (''acp%3A'' @ r @ '':'' @ t) = Some (''acp:'' @ r, t)"
proof -
  have kind: "isAppServerBackendKind (''acp:'' @ r)"
    using assms acp_split by (auto simp: isAppServerBackendKind_def)
  have plain: "\<forall>c\<in>set r. c \<noteq> CHR ''%'' \<and> c \<noteq> CHR '':''" using assms(2) registry_char_ok by (auto simp: list_all_iff)
  have "find_index ((=) (CHR '':'')) (r @ '':'' @ t) = Some (length r)"
    using find_index_first [of r "(=) (CHR '':'')" "CHR '':''" t] plain by auto
  moreover have "decodeURIComponent (''acp:'' @ r) = Some (''acp:'' @ r)" by (rule decode_plain) (use plain in auto)
  ultimately show "parseThreadIdentityKey (''acp:'' @ r @ '':'' @ t) = Some (''acp:'' @ r, t)"
    using kind by (simp add: parseThreadIdentityKey_def index_of_from_def ACP_BACKEND_ID_PREFIX_def starts_with_def)
  have colon: "(char_of (58 :: nat) :: char) = CHR '':''" by code_simp
  have "decodeURIComponent (''acp'' @ ''%3A'' @ r) = Some (''acp:'' @ r)"
    using decode_plain [of r] plain colon
    by (simp add: decodeURIComponent.simps(2) hex_byte_def hex_value_def code_def decode_tail_def)
  then show "parseThreadIdentityKey (''acp%3A'' @ r @ '':'' @ t) = Some (''acp:'' @ r, t)"
    using parse_split [of "''acp%3A'' @ r" t "''acp:'' @ r"] kind plain
    by (simp add: starts_with_def ACP_BACKEND_ID_PREFIX_def)
qed

lemma backend_cases:
  assumes "isAppServerBackendKind b"
  obtains "b = ''codex''" | "b = ''claude''" | r where "b = ''acp:'' @ r" "r \<noteq> []" "list_all registry_char r"
  using assms acp_split by (auto simp: isAppServerBackendKind_def isAppServerBuiltinBackendKind_def)

lemma parse_build:
  assumes "isAppServerBackendKind b"
  shows "parseThreadIdentityKey (buildThreadIdentityKey b t) = Some (b, t)"
proof (cases rule: backend_cases [OF assms])
  case (3 r)
  then show ?thesis using parse_acp(1) by (simp add: buildThreadIdentityKey_def)
qed (simp_all add: buildThreadIdentityKey_def parseThreadIdentityKey_def index_of_from_def starts_with_def
    ACP_BACKEND_ID_PREFIX_def decode_plain isAppServerBackendKind_def isAppServerBuiltinBackendKind_def)

lemma parse_legacy:
  assumes "isAppServerBackendKind b"
  shows "parseThreadIdentityKey (buildLegacyEncodedThreadIdentityKey b t) = Some (b, t)"
proof (cases rule: backend_cases [OF assms])
  case (3 r)
  have "encodeURIComponent ''acp:'' = ''acp%3A''" by code_simp
  then have "encodeURIComponent (''acp:'' @ r) = ''acp%3A'' @ r"
    using registry_encode [OF 3(3)] by (simp add: encodeURIComponent_def)
  then show ?thesis using parse_acp(2) [OF 3(2,3)] 3(1) by (simp add: buildLegacyEncodedThreadIdentityKey_def)
next
  case 1
  have "encodeURIComponent ''codex'' = ''codex''" by code_simp
  then show ?thesis using parse_build [of "''codex''" t] 1
    by (simp add: buildLegacyEncodedThreadIdentityKey_def buildThreadIdentityKey_def isAppServerBackendKind_def
        isAppServerBuiltinBackendKind_def)
next
  case 2
  have "encodeURIComponent ''claude'' = ''claude''" by code_simp
  then show ?thesis using parse_build [of "''claude''" t] 2
    by (simp add: buildLegacyEncodedThreadIdentityKey_def buildThreadIdentityKey_def isAppServerBackendKind_def
        isAppServerBuiltinBackendKind_def)
qed

lemma parse_backend: "parseThreadIdentityKey k = Some (b, t) \<Longrightarrow> isAppServerBackendKind b"
  by (auto simp: parseThreadIdentityKey_def split: option.split_asm if_split_asm)

text \<open>
  C22: Thread keys are unambiguous, in both forms. For a known backend the key and its older
  percent-encoded form parse back to the backend and thread they were built from, whatever the
  thread id contains, so two threads never share a queue or a row. Normalizing any key that parses,
  old or new, gives the current form, which normalizes to itself and re-encodes to the older form.
\<close>

theorem thread_key_roundtrip:
  assumes "isAppServerBackendKind b" "normalizeThreadIdentityKey k = Some k'"
  shows "parseThreadIdentityKey (buildThreadIdentityKey b t) = Some (b, t)
    \<and> parseThreadIdentityKey (buildLegacyEncodedThreadIdentityKey b t) = Some (b, t)
    \<and> normalizeThreadIdentityKey k' = Some k'
    \<and> encodeLegacyThreadIdentityKey k' = encodeLegacyThreadIdentityKey k"
  using parse_build [OF assms(1)] parse_legacy [OF assms(1)] assms(2) parse_backend parse_build
  by (auto simp: normalizeThreadIdentityKey_def encodeLegacyThreadIdentityKey_def)

theorem thread_key_roundtrip_witness:
  "parseThreadIdentityKey (buildThreadIdentityKey ''acp:gemini'' ''t:1'') = Some (''acp:gemini'', ''t:1'')
   \<and> parseThreadIdentityKey (buildLegacyEncodedThreadIdentityKey ''acp:gemini'' ''t:1'') = Some (''acp:gemini'', ''t:1'')
   \<and> normalizeThreadIdentityKey ''acp:gemini:x'' = Some ''acp:gemini:x''
   \<and> encodeLegacyThreadIdentityKey ''acp:gemini:x'' = encodeLegacyThreadIdentityKey ''acp%3Agemini:x''"
proof -
  have 1: "isAppServerBackendKind ''acp:gemini''" by code_simp
  have 2: "normalizeThreadIdentityKey ''acp%3Agemini:x'' = Some ''acp:gemini:x''" by code_simp
  show ?thesis by (rule thread_key_roundtrip [OF 1 2])
qed

end
