(* ===== verification/RestartStore.thy ===== *)
theory RestartStore
  imports TurnQueueSafety ThreadIdentity "HOL-Library.Product_Lexorder" "HOL-Library.List_Lexorder"
    "HOL-Library.Char_ord"
begin

text \<open>
  What a quiet restart saves and the next launch brings back (main/state/restart-continuation-store.ts
  and the conversions and the restore in main/app-server/backend-registry.ts): one continuation per
  stopped thread and every message that waited in a queue. The SQLite table is a map from entry ids
  to rows in insertion order; a payload is the record that was saved (reading back JSON gives an equal
  one), so a row fails to parse only for the checks that depend on its values. An origin that the
  queue does not know reads as none.
\<close>

subsection \<open>Data\<close>

record queued_fields =
  qf_origin :: "entry_origin option"
  qf_delivery :: bool
  qf_agentMessages :: "queued_agent_message list option"
  qf_agentMessageOrigins :: "message_origin list option"
  qf_settings :: entry_settings
  qf_title :: "string option"
  qf_paused :: bool
  qf_position :: "nat option"

record stored_continuation =
  sc_id :: string
  sc_backend :: string
  sc_threadId :: string
  sc_messageOrigin :: "message_origin option"
  sc_input :: "input_item list"
  sc_createdAt :: int
  sc_isQueued :: bool
  sc_queued :: "queued_fields option"

record restart_row =
  rr_owner :: string
  rr_pid :: nat
  rr_createdAt :: int
  rr_payload :: stored_continuation

type_synonym restart_table = "(string, restart_row) jsmap"

subsection \<open>A queued message as it is saved\<close>

text \<open>An empty setting is not saved.\<close>

definition saved_settings :: "entry_settings \<Rightarrow> entry_settings" where
  "saved_settings s = \<lparr>set_executionMode = truthy (set_executionMode s),
     set_approvalPolicy = truthy (set_approvalPolicy s), set_sandbox = truthy (set_sandbox s),
     set_model = truthy (set_model s), set_collaborationMode = truthy (set_collaborationMode s),
     set_serviceTier = truthy (set_serviceTier s), set_reasoningEffort = truthy (set_reasoningEffort s),
     set_fastMode = set_fastMode s, set_automationRunId = truthy (set_automationRunId s),
     set_automationName = truthy (set_automationName s)\<rparr>"

definition storedRestartQueuedEntry :: "entry \<Rightarrow> nat \<Rightarrow> stored_continuation" where
  "storedRestartQueuedEntry e position = \<lparr>sc_id = en_id e, sc_backend = en_backend e,
     sc_threadId = en_threadId e, sc_messageOrigin = en_messageOrigin e, sc_input = en_input e,
     sc_createdAt = en_createdAt e, sc_isQueued = True,
     sc_queued = Some \<lparr>qf_origin = Some (en_origin e), qf_delivery = en_queuedSteer e,
       qf_agentMessages = en_agentMessages e, qf_agentMessageOrigins = en_agentMessageOrigins e,
       qf_settings = saved_settings (en_settings e), qf_title = truthy (en_title e),
       qf_paused = (en_paused e \<or> en_held e), qf_position = Some position\<rparr>\<rparr>"

definition no_settings :: entry_settings where
  "no_settings = \<lparr>set_executionMode = None, set_approvalPolicy = None, set_sandbox = None,
     set_model = None, set_collaborationMode = None, set_serviceTier = None, set_reasoningEffort = None,
     set_fastMode = None, set_automationRunId = None, set_automationName = None\<rparr>"

definition plain_entry :: "stored_continuation \<Rightarrow> entry_origin \<Rightarrow> entry" where
  "plain_entry c og = \<lparr>en_id = sc_id c, en_backend = sc_backend c, en_threadId = sc_threadId c,
     en_origin = og, en_messageOrigin = sc_messageOrigin c, en_queuedSteer = False,
     en_agentMessages = None, en_agentMessageOrigins = None, en_input = sc_input c,
     en_settings = no_settings, en_held = False, en_holdReason = None, en_paused = False,
     en_pauseRevision = None, en_projectHold = None, en_restartContinuation = False, en_title = None,
     en_createdAt = sc_createdAt c\<rparr>"

definition restartQueuedEntry :: "stored_continuation \<Rightarrow> entry" where
  "restartQueuedEntry c = (case sc_queued c of
     None \<Rightarrow> plain_entry c Manual
   | Some q \<Rightarrow> (plain_entry c (or_else (qf_origin q) Manual))\<lparr>en_queuedSteer := qf_delivery q,
       en_agentMessages := qf_agentMessages q, en_agentMessageOrigins := qf_agentMessageOrigins q,
       en_settings := qf_settings q, en_title := qf_title q, en_paused := qf_paused q\<rparr>)"

text \<open>A continuation becomes a scheduled entry; the queue marks it as a restart continuation.\<close>

definition restartContinuationEntry :: "stored_continuation \<Rightarrow> entry" where
  "restartContinuationEntry c = plain_entry c Scheduled"

definition restartQueuedSnapshot :: "turn_queue \<Rightarrow> stored_continuation list" where
  "restartQueuedSnapshot s = map (\<lambda>(position, e). storedRestartQueuedEntry e position)
     (enumerate 0 (filter (\<lambda>e. \<not> en_restartContinuation e \<and> en_projectHold e = None) (getAllQueuedEntries s)))"

subsection \<open>The store\<close>

definition continued_thread :: "stored_continuation \<Rightarrow> string" where
  "continued_thread c = sc_backend c @ '':'' @ sc_threadId c"

definition new_row :: "string \<Rightarrow> nat \<Rightarrow> stored_continuation \<Rightarrow> restart_row" where
  "new_row inst pid c = \<lparr>rr_owner = inst, rr_pid = pid, rr_createdAt = sc_createdAt c, rr_payload = c\<rparr>"

definition save_one ::
  "string \<Rightarrow> nat \<Rightarrow> (string, stored_continuation) jsmap \<Rightarrow>
   restart_table \<times> string list \<times> stored_continuation list \<Rightarrow> stored_continuation \<Rightarrow>
   restart_table \<times> string list \<times> stored_continuation list" where
  "save_one inst pid payloads acc c = (case acc of (st, continued, saved) \<Rightarrow>
     if sc_isQueued c then
       (if map_get payloads (sc_id c) = Some c then acc
        else (map_set st (sc_id c) (case map_get st (sc_id c) of
                Some row \<Rightarrow> row\<lparr>rr_payload := c\<rparr> | None \<Rightarrow> new_row inst pid c), continued, saved))
     else if continued_thread c \<in> set continued then acc
     else (if map_has st (sc_id c) then st else map_set st (sc_id c) (new_row inst pid c),
           continued @ [continued_thread c], saved @ [c]))"

definition continued_threads :: "restart_table \<Rightarrow> string list" where
  "continued_threads st =
     map continued_thread (filter (\<lambda>c. \<not> sc_isQueued c) (map rr_payload (map_vals st)))"

definition saveAll ::
  "string \<Rightarrow> nat \<Rightarrow> restart_table \<Rightarrow> stored_continuation list \<Rightarrow> restart_table \<times> stored_continuation list" where
  "saveAll inst pid st cs =
     (let (st', _, saved) = foldl (save_one inst pid (map (\<lambda>(i, r). (i, rr_payload r)) st))
            (st, continued_threads st, []) cs
      in (st', saved))"

definition removeContinuation :: "restart_table \<Rightarrow> string \<Rightarrow> restart_table" where
  "removeContinuation st i = map_del st i"

definition parses :: "string \<Rightarrow> stored_continuation \<Rightarrow> bool" where
  "parses i c \<longleftrightarrow> sc_id c = i \<and> isAppServerBackendKind (sc_backend c) \<and> sc_threadId c \<noteq> []"

text \<open>The rows of exited instances, oldest first. \<open>live\<close> answers for instances, \<open>alive\<close> for processes.\<close>

definition orphaned :: "string \<Rightarrow> string set \<Rightarrow> (nat \<Rightarrow> bool) \<Rightarrow> restart_row \<Rightarrow> bool" where
  "orphaned inst live alive r \<longleftrightarrow> rr_owner r \<notin> insert inst live \<and> \<not> alive (rr_pid r)"

definition claim_candidates ::
  "string \<Rightarrow> string set \<Rightarrow> (nat \<Rightarrow> bool) \<Rightarrow> restart_table \<Rightarrow> restart_table" where
  "claim_candidates inst live alive st =
     filter (\<lambda>(i, r). orphaned inst live alive r) (sort_key (\<lambda>(i, r). (rr_createdAt r, i)) st)"

definition claim_one ::
  "string \<Rightarrow> nat \<Rightarrow> restart_table \<times> stored_continuation list \<Rightarrow> string \<times> restart_row \<Rightarrow>
   restart_table \<times> stored_continuation list" where
  "claim_one inst pid acc p = (case (acc, p) of ((st, claimed), (i, r)) \<Rightarrow>
     if \<not> parses i (rr_payload r) then (map_del st i, claimed)
     else (map_set st i (r\<lparr>rr_owner := inst, rr_pid := pid\<rparr>), claimed @ [rr_payload r]))"

definition claimOrphaned ::
  "string \<Rightarrow> nat \<Rightarrow> string set \<Rightarrow> (nat \<Rightarrow> bool) \<Rightarrow> restart_table \<Rightarrow> restart_table \<times> stored_continuation list" where
  "claimOrphaned inst pid live alive st =
     foldl (claim_one inst pid) (st, []) (claim_candidates inst live alive st)"

subsection \<open>The restore\<close>

definition MAX_SAFE_INTEGER :: nat where "MAX_SAFE_INTEGER = 9007199254740991"

definition saved_position :: "stored_continuation \<Rightarrow> nat" where
  "saved_position c = (case Option.bind (sc_queued c) qf_position of Some p \<Rightarrow> p | None \<Rightarrow> MAX_SAFE_INTEGER)"

text \<open>
  The constructor's two restores, in its order: the wake-ups that the wake-up store claimed, then what
  the restart claimed.
\<close>

definition restore_saved :: "entry list \<Rightarrow> stored_continuation list \<Rightarrow> turn_queue \<times> entry list \<times> entry list" where
  "restore_saved wakeups claimed =
     (let (s0, woken) = restoreProjectHeld turn_queue_new wakeups;
          (s1, queued) = restoreQueued s0 (map restartQueuedEntry
            (sort_key (\<lambda>c. (saved_position c, sc_createdAt c)) (filter sc_isQueued claimed)));
          (s2, restored) = restoreRestartContinuations s1
            (map restartContinuationEntry (filter (\<lambda>c. \<not> sc_isQueued c) claimed))
      in (s2, queued, restored))"

end
