(* ===== verification/RestartWiring.thy ===== *)
theory RestartWiring
  imports TurnQueueLog RestartGate RestartStore
begin

text \<open>
  How the backend registry joins the turn queue, the quiet-restart gate and the restart store
  (main/app-server/backend-registry.ts): the queue asks the gate before every dispatch, every
  lifecycle event of the queue may settle a continuation and drop its saved row, and an opening gate
  drains every queue. \<open>never\<close> stands for \<open>Number.POSITIVE_INFINITY\<close>: a clock reading that is never
  reached. The events of one uninterrupted piece of the queue are handled after the piece.
\<close>

subsection \<open>State\<close>

datatype gate_timer =
    FallbackTimer
  | DrainTimer string string int
  | DeadlineTimer rat

record registry =
  rg_world :: world
  rg_gate :: restart_gate
  rg_dispatchStarted :: bool
  rg_timers :: "gate_timer list"
  rg_store :: restart_table
  rg_durable :: "(string, stored_continuation) jsmap"

definition isRestartGateClosed :: "restart_gate \<Rightarrow> bool" where
  "isRestartGateClosed g \<longleftrightarrow> g \<noteq> GateOpen"

text \<open>The queue's \<open>isDispatchHeld\<close>: a continuation names itself, everything else does not.\<close>

definition wired_env :: "queue_env \<Rightarrow> restart_gate \<Rightarrow> int \<Rightarrow> queue_env" where
  "wired_env base g now = base\<lparr>isDispatchHeld := (\<lambda>_ _ i rc. restartGateHolds g (if rc then truthy i else None) now)\<rparr>"

datatype gate_status =
    StatusOpen
  | StatusQuieting
  | StatusResuming nat "int option" "rat option"

definition getRestartGateStatus :: "int \<Rightarrow> restart_gate \<Rightarrow> gate_status" where
  "getRestartGateStatus never g = (case g of
     GateOpen \<Rightarrow> StatusOpen
   | GateQuieting _ \<Rightarrow> StatusQuieting
   | GateResuming pending _ releaseBy \<Rightarrow>
      (let times = filter (\<lambda>t. t < never) (map rc_dispatchAt (map_vals pending))
       in StatusResuming (length pending) (case times of [] \<Rightarrow> None | t # ts \<Rightarrow> Some (foldl min t ts))
            (if releaseBy < of_int never then Some releaseBy else None)))"

subsection \<open>Events of the gate\<close>

definition applyRestartGate :: "registry \<Rightarrow> restart_gate_event \<Rightarrow> registry" where
  "applyRestartGate r ev =
     (let r1 = r\<lparr>rg_gate := transitionRestartGate (rg_gate r) ev\<rparr>
      in if isRestartGateClosed (rg_gate r) \<and> \<not> isRestartGateClosed (rg_gate r1)
         then r1\<lparr>rg_timers := [], rg_world := with_queue (rg_world r1) (drainAll (w_queue (rg_world r1)))\<rparr>
         else r1)"

definition forgetRestartContinuation :: "registry \<Rightarrow> string \<Rightarrow> registry" where
  "forgetRestartContinuation r i =
     (if \<not> map_has (rg_durable r) i then r
      else r\<lparr>rg_store := removeContinuation (rg_store r) i, rg_durable := map_del (rg_durable r) i\<rparr>)"

fun event_entry :: "lifecycle_event \<Rightarrow> entry" where
  "event_entry (EvQueued e _ _) = e"
| "event_entry (EvStarted e _) = e"
| "event_entry (EvFailed e _) = e"
| "event_entry (EvBlocked e _) = e"
| "event_entry (EvHeld e _ _) = e"
| "event_entry (EvCancelled e _) = e"
| "event_entry (EvTerminal e _ _) = e"

fun event_type :: "lifecycle_event \<Rightarrow> string" where
  "event_type (EvQueued _ _ _) = ''queued''"
| "event_type (EvStarted _ _) = ''started''"
| "event_type (EvFailed _ _) = ''failed''"
| "event_type (EvBlocked _ _) = ''blocked''"
| "event_type (EvHeld _ _ _) = ''held''"
| "event_type (EvCancelled _ _) = ''cancelled''"
| "event_type (EvTerminal _ _ _) = ''terminal''"

definition trackRestartContinuation :: "registry \<Rightarrow> lifecycle_event \<Rightarrow> registry" where
  "trackRestartContinuation r ev =
     (let e = event_entry ev;
          r1 = (if event_type ev \<in> {''started'', ''failed'', ''cancelled''}
                then forgetRestartContinuation r (en_id e) else r)
      in if en_restartContinuation e \<and> restartContinuationSettles (event_type ev)
         then applyRestartGate r1 (GateSettled (en_id e)) else r1)"

text \<open>After the operator edits, pauses, resumes or reorders a saved message, its copy is rewritten.\<close>

definition refreshRestartQueuedEntries :: "string \<Rightarrow> nat \<Rightarrow> registry \<Rightarrow> registry" where
  "refreshRestartQueuedEntries inst pid r =
     (let saved = filter (\<lambda>c. map_option sc_isQueued (map_get (rg_durable r) (sc_id c)) = Some True)
            (restartQueuedSnapshot (w_queue (rg_world r)))
      in if saved = [] then r
         else r\<lparr>rg_store := fst (saveAll inst pid (rg_store r) saved),
                rg_durable := foldl (\<lambda>m c. map_set m (sc_id c) c) (rg_durable r) saved\<rparr>)"

text \<open>
  The running turns a quiet restart stops, given \<open>activeTurnKeys\<close> parsed, the threads of headless
  automation runs and which threads are sub-agents'; \<open>uuid\<close> draws the random part of an id and
  \<open>text\<close> is the continuation's text.
\<close>

record restart_target =
  rt_backend :: string
  rt_threadId :: string
  rt_turnId :: string

definition target_key :: "restart_target \<Rightarrow> string" where
  "target_key t = buildThreadIdentityKey (rt_backend t) (rt_threadId t)"

definition listQuietRestartTargets ::
  "string set \<Rightarrow> (restart_target \<Rightarrow> bool) \<Rightarrow> restart_target list \<Rightarrow> restart_target list" where
  "listQuietRestartTargets automation isSubAgent running = map_vals (foldl (\<lambda>targets t.
     if target_key t \<in> automation \<or> map_has targets (target_key t) \<or> isSubAgent t then targets
     else map_set targets (target_key t) t) [] running)"

definition beginQuietRestart ::
  "string set \<Rightarrow> (restart_target \<Rightarrow> bool) \<Rightarrow> restart_target list \<Rightarrow> registry \<Rightarrow> int \<Rightarrow>
   registry \<times> restart_target list" where
  "beginQuietRestart automation isSubAgent running r now =
     (applyRestartGate r (GateQuiet now), listQuietRestartTargets automation isSubAgent running)"

definition quiet_continuations ::
  "(nat \<Rightarrow> string) \<Rightarrow> string \<Rightarrow> int \<Rightarrow> restart_target list \<Rightarrow> stored_continuation list" where
  "quiet_continuations uuid body stoppedAt targets = map (\<lambda>(index, t).
     \<lparr>sc_id = ''restart-continuation:'' @ uuid index, sc_backend = rt_backend t, sc_threadId = rt_threadId t,
      sc_messageOrigin = Some \<lparr>mo_kind = ''pwragent'', mo_causalSource = None, mo_ambiguous = False,
        mo_sourceThread = None, mo_threadTodo = None, mo_other = [(''systemReason'', ''app-restart'')]\<rparr>,
      sc_input = [TextItem body], sc_createdAt = stoppedAt + int index, sc_isQueued = False, sc_queued = None\<rparr>)
     (enumerate 0 (map_vals (foldl (\<lambda>threads t. map_set threads (target_key t) t) [] targets)))"

definition saveRestartContinuations ::
  "string \<Rightarrow> nat \<Rightarrow> registry \<Rightarrow> stored_continuation list \<Rightarrow> registry \<times> nat" where
  "saveRestartContinuations inst pid r continuations =
     (let queued = restartQueuedSnapshot (w_queue (rg_world r));
          (st, saved) = saveAll inst pid (rg_store r) (continuations @ queued)
      in (r\<lparr>rg_store := st, rg_durable := foldl (\<lambda>m c. map_set m (sc_id c) c) (rg_durable r) queued\<rparr>, length saved))"

subsection \<open>Start and dispatch\<close>

definition continuation_item :: "int \<Rightarrow> entry \<Rightarrow> continuation_schedule" where
  "continuation_item tm e = \<lparr>rc_entryId = en_id e, rc_threadKey = keyFor e, rc_dispatchAt = tm\<rparr>"

text \<open>The constructor: wake-ups of paused projects first, then what exited instances left.\<close>

definition registry_start ::
  "int \<Rightarrow> string \<Rightarrow> nat \<Rightarrow> string set \<Rightarrow> (nat \<Rightarrow> bool) \<Rightarrow> restart_table \<Rightarrow> entry list \<Rightarrow> registry" where
  "registry_start never inst pid live alive st wakeups =
     (let (st', claimed) = claimOrphaned inst pid live alive st;
          w0 = restored world_new (restoreProjectHeld turn_queue_new wakeups);
          w1 = restored w0 (restoreQueued (w_queue w0) (map restartQueuedEntry
                 (sort_key (\<lambda>c. (saved_position c, sc_createdAt c)) (filter sc_isQueued claimed))));
          back = restoreRestartContinuations (w_queue w1)
                 (map restartContinuationEntry (filter (\<lambda>c. \<not> sc_isQueued c) claimed));
          r = \<lparr>rg_world = restored w1 back, rg_gate = GateOpen, rg_dispatchStarted = False, rg_timers = [],
               rg_store = st', rg_durable = foldl (\<lambda>m c. map_set m (sc_id c) c) [] claimed\<rparr>
      in if snd back = [] then r
         else (applyRestartGate r (GateRestore (map (continuation_item never) (snd back)) (of_int never)))
                \<lparr>rg_timers := [FallbackTimer]\<rparr>)"

definition drain_timers :: "continuation_schedule list \<Rightarrow> gate_timer list" where
  "drain_timers schedule = List.map_filter (\<lambda>item. map_option (\<lambda>(b, t). DrainTimer b t (rc_dispatchAt item))
     (parseThreadIdentityKey (rc_threadKey item))) schedule"

definition beginRestartContinuationDispatch ::
  "(nat \<Rightarrow> rat) \<Rightarrow> dispatch_plan_options \<Rightarrow> registry \<Rightarrow> registry" where
  "beginRestartContinuationDispatch random opts r = (case rg_gate r of
     GateResuming pending scheduled releaseBy \<Rightarrow>
       (if rg_dispatchStarted r then r
        else (let queued = map en_id (getAllQueuedEntries (w_queue (rg_world r)));
                  (schedule, by_time) = planRestartDispatch random
                    (map (\<lambda>item. (rc_entryId item, rc_threadKey item))
                      (filter (\<lambda>item. map_has pending (rc_entryId item) \<or> rc_entryId item \<in> set queued)
                        (map_vals scheduled))) opts
              in r\<lparr>rg_dispatchStarted := True,
                   rg_gate := GateResuming (gate_file [] (filter (\<lambda>item. map_has pending (rc_entryId item)) schedule))
                     (gate_file [] schedule) by_time,
                   rg_timers := rg_timers r @ drain_timers schedule @ [DeadlineTimer by_time]\<rparr>))
   | _ \<Rightarrow> r)"

subsection \<open>Steps\<close>

fun timer_due :: "gate_timer \<Rightarrow> int \<Rightarrow> bool" where
  "timer_due FallbackTimer now = True"
| "timer_due (DrainTimer b t tm) now \<longleftrightarrow> tm \<le> now"
| "timer_due (DeadlineTimer tm) now \<longleftrightarrow> tm \<le> of_int now"

fun fire_timer :: "(nat \<Rightarrow> rat) \<Rightarrow> dispatch_plan_options \<Rightarrow> registry \<Rightarrow> gate_timer \<Rightarrow> int \<Rightarrow> registry" where
  "fire_timer random opts r FallbackTimer now = beginRestartContinuationDispatch random opts r"
| "fire_timer random opts r (DrainTimer b t tm) now =
     r\<lparr>rg_world := with_queue (rg_world r) (scheduleThreadDrain (w_queue (rg_world r)) b t)\<rparr>"
| "fire_timer random opts r (DeadlineTimer tm) now = applyRestartGate r (GateDeadline (of_int now))"

datatype registry_event =
    RgQueue queue_env queue_action int
  | RgBegin "nat \<Rightarrow> rat" dispatch_plan_options
  | RgTimer "nat \<Rightarrow> rat" dispatch_plan_options nat int
  | RgRelease
  | RgQuiet int
  | RgSave string nat "nat \<Rightarrow> string" string int "restart_target list"
  | RgRefresh string nat

definition queue_step :: "registry \<Rightarrow> queue_env \<Rightarrow> queue_action \<Rightarrow> int \<Rightarrow> registry" where
  "queue_step r base a now =
     (let w = queue_do (wired_env base (rg_gate r) now) (rg_world r) a
      in foldl trackRestartContinuation (r\<lparr>rg_world := w\<rparr>)
           (drop (length (eventLog (w_queue (rg_world r)))) (eventLog (w_queue w))))"

fun registry_step :: "registry \<Rightarrow> registry_event \<Rightarrow> registry" where
  "registry_step r (RgQueue base a now) = queue_step r base a now"
| "registry_step r (RgBegin random opts) = beginRestartContinuationDispatch random opts r"
| "registry_step r (RgTimer random opts n now) =
     (if n < length (rg_timers r) \<and> timer_due (rg_timers r ! n) now
      then fire_timer random opts (r\<lparr>rg_timers := remove_at n (rg_timers r)\<rparr>) (rg_timers r ! n) now else r)"
| "registry_step r RgRelease = applyRestartGate r GateRelease"
| "registry_step r (RgQuiet now) = applyRestartGate r (GateQuiet now)"
| "registry_step r (RgSave inst pid uuid body stoppedAt targets) =
     fst (saveRestartContinuations inst pid r (quiet_continuations uuid body stoppedAt targets))"
| "registry_step r (RgRefresh inst pid) = refreshRestartQueuedEntries inst pid r"

inductive registry_reachable :: "int \<Rightarrow> registry \<Rightarrow> bool" for never where
  rg_start: "list_all (\<lambda>e. \<not> en_held e) wakeups \<Longrightarrow>
     registry_reachable never (registry_start never inst pid live alive st wakeups)"
| rg_step: "registry_reachable never r \<Longrightarrow> (\<And>base a now. ev = RgQueue base a now \<Longrightarrow> fresh_input a) \<Longrightarrow>
     registry_reachable never (registry_step r ev)"

end
