(* ===== verification/RestartStoreProps.thy ===== *)
theory RestartStoreProps
  imports RestartStore TurnQueueProps
begin

text \<open>
  Messages that wait in a queue when the app restarts quietly come back in the next launch as they
  were, in the order they waited: the snapshot, the store, the claim by another instance and the
  restore compose to the identity up to what the restore changes on purpose. And a thread is never
  continued twice.
\<close>

subsection \<open>Restoring into FIFOs\<close>

definition ids_of :: "turn_queue \<Rightarrow> string set" where
  "ids_of s = (\<Union>q\<in>snd ` set (queuedEntries s). en_id ` set q)"

lemma find_index_id: "find_index (\<lambda>e. en_id e = i) q = Some n \<Longrightarrow> i \<in> en_id ` set q"
  by (auto simp: find_index_Some)

lemma find_in_queues_None: "find_in_queues m i = None \<longleftrightarrow> (\<forall>p\<in>set m. i \<notin> en_id ` set (snd p))"
proof (induction m i rule: find_in_queues.induct)
  case (2 key q rest i)
  show ?case
  proof (cases "find_index (\<lambda>e. en_id e = i) q")
    case None
    have "find_in_queues ((key, q) # rest) i = find_in_queues rest i" by (simp add: None del: find_index_None)
    moreover have "i \<notin> en_id ` set q" using None by auto
    ultimately show ?thesis using "2.IH" [OF None] by simp
  next
    case (Some n)
    then show ?thesis using find_index_id [OF Some] by simp
  qed
qed simp

lemma findQueued_None: "findQueuedEntry s i = None \<longleftrightarrow> i \<notin> ids_of s"
proof -
  have "findQueuedEntry s i = None \<longleftrightarrow> find_in_queues (queuedEntries s) i = None"
    by (simp add: findQueuedEntry_def split: option.split)
  then show ?thesis unfolding find_in_queues_None ids_of_def by blast
qed

lemma queue_of_ids: "en_id ` set (queue_of s key) \<subseteq> ids_of s"
proof (cases "map_get (queuedEntries s) key")
  case (Some q)
  then have "(key, q) \<in> set (queuedEntries s)" by (rule map_of_SomeD)
  then show ?thesis unfolding ids_of_def queue_of_def using Some by force
qed (simp add: queue_of_def)

lemma ids_of_get: "wf_map (queuedEntries s) \<Longrightarrow> i \<in> ids_of s \<longleftrightarrow> (\<exists>k. i \<in> en_id ` set (queue_of s k))"
proof
  assume wf: "wf_map (queuedEntries s)" and "i \<in> ids_of s"
  then obtain k q where q: "(k, q) \<in> set (queuedEntries s)" "i \<in> en_id ` set q" by (auto simp: ids_of_def)
  then have "map_get (queuedEntries s) k = Some q" using wf by simp
  then have "queue_of s k = q" by (simp add: queue_of_def)
  then show "\<exists>k. i \<in> en_id ` set (queue_of s k)" using q(2) by blast
qed (use queue_of_ids in blast)

lemma restore_one_shape:
  assumes "wf_map (queuedEntries s)" "restore_one front (s, rs) e = (s', rs')"
  shows "wf_map (queuedEntries s')" "ids_of s' = insert (en_id e) (ids_of s)"
    "queue_of s' key = (if en_id e \<in> ids_of s \<or> keyFor e \<noteq> key then queue_of s key
       else if front then e # queue_of s key else queue_of s key @ [e])"
proof -
  let ?q = "\<lambda>k. if en_id e \<in> ids_of s \<or> keyFor e \<noteq> k then queue_of s k
       else if front then e # queue_of s k else queue_of s k @ [e]"
  have at: "findQueuedEntry s (en_id e) = None \<longleftrightarrow> en_id e \<notin> ids_of s" by (rule findQueued_None)
  show wf: "wf_map (queuedEntries s')"
    using assms by (auto simp: restore_one_def Let_def put_queue_def queueFor_def split: if_split_asm)
  have q: "queue_of s' k = ?q k" for k
    using assms(2) at by (auto simp: restore_one_def Let_def tq_view split: if_split_asm)
  show "queue_of s' key = ?q key" by (rule q)
  show "ids_of s' = insert (en_id e) (ids_of s)"
    by (rule set_eqI) (auto simp: ids_of_get [OF wf] ids_of_get [OF assms(1)] q)
qed

text \<open>Messages join the back of their FIFOs, but for ids that are queued already.\<close>

lemma restore_back:
  assumes "wf_map (queuedEntries s)" "distinct (map en_id es)"
  shows "queue_of (fst (foldl (restore_one False) (s, rs) es)) key
      = queue_of s key @ filter (\<lambda>e. keyFor e = key \<and> en_id e \<notin> ids_of s) es"
  using assms
proof (induction es arbitrary: s rs)
  case (Cons e es)
  obtain s1 rs1 where one: "restore_one False (s, rs) e = (s1, rs1)" by fastforce
  note s1 = restore_one_shape [OF Cons.prems(1) one]
  have "en_id x \<noteq> en_id e" if "x \<in> set es" for x using Cons.prems(2) that by (metis distinct.simps(2) image_eqI list.simps(9) set_map)
  then have "filter (\<lambda>x. keyFor x = key \<and> en_id x \<notin> ids_of s1) es = filter (\<lambda>x. keyFor x = key \<and> en_id x \<notin> ids_of s) es"
    by (intro filter_cong) (auto simp: s1(2))
  then show ?case using Cons.IH [OF s1(1), of rs1] Cons.prems(2) one s1(3) by simp
qed simp

lemma restore_wf: "wf_map (queuedEntries s) \<Longrightarrow> wf_map (queuedEntries (fst (foldl (restore_one front) (s, rs) es)))"
proof (induction es arbitrary: s rs)
  case (Cons e es)
  obtain s1 rs1 where "restore_one front (s, rs) e = (s1, rs1)" by fastforce
  then show ?case using Cons.IH [of s1 rs1] restore_one_shape(1) [OF Cons.prems] by simp
qed simp

lemma restore_front_filter:
  assumes "\<forall>e\<in>set es. en_restartContinuation e"
  shows "filter (\<lambda>e. \<not> en_restartContinuation e) (queue_of (fst (foldl (restore_one True) (s, rs) es)) key)
      = filter (\<lambda>e. \<not> en_restartContinuation e) (queue_of s key)"
  using assms
proof (induction es arbitrary: s rs)
  case (Cons e es)
  obtain s1 rs1 where one: "restore_one True (s, rs) e = (s1, rs1)" by fastforce
  then have "filter (\<lambda>e. \<not> en_restartContinuation e) (queue_of s1 key)
      = filter (\<lambda>e. \<not> en_restartContinuation e) (queue_of s key)"
    using Cons.prems by (auto simp: restore_one_def Let_def tq_view split: if_split_asm)
  then show ?case using Cons.IH [of s1 rs1] Cons.prems one by simp
qed simp

text \<open>
  A message after the restart: its hold has become a pause, a pause counts from one again, and a
  hold of its project is gone. Empty settings are absent; all else is as it was.
\<close>

definition carried :: "entry \<Rightarrow> entry" where
  "carried e = e\<lparr>en_settings := saved_settings (en_settings e), en_title := truthy (en_title e),
     en_paused := (en_paused e \<or> en_held e), en_held := False, en_holdReason := None,
     en_pauseRevision := (if en_paused e \<or> en_held e then Some 1 else None),
     en_projectHold := None, en_restartContinuation := False\<rparr>"

lemma carried_stored:
  "(if en_paused (restartQueuedEntry (storedRestartQueuedEntry e p))
    then restartQueuedEntry (storedRestartQueuedEntry e p)\<lparr>en_pauseRevision := Some 1\<rparr>
    else restartQueuedEntry (storedRestartQueuedEntry e p)) = carried e"
  by (cases e) (simp add: carried_def restartQueuedEntry_def storedRestartQueuedEntry_def plain_entry_def or_else_def)

lemma stored_fields [simp]:
  "sc_id (storedRestartQueuedEntry e p) = en_id e" "sc_isQueued (storedRestartQueuedEntry e p)"
  "saved_position (storedRestartQueuedEntry e p) = p"
  "sc_backend (storedRestartQueuedEntry e p) = en_backend e"
  "sc_threadId (storedRestartQueuedEntry e p) = en_threadId e"
  by (simp_all add: storedRestartQueuedEntry_def saved_position_def)

lemma carried_fields [simp]:
  "en_id (carried e) = en_id e" "keyFor (carried e) = keyFor e" "\<not> en_restartContinuation (carried e)"
  by (simp_all add: carried_def keyFor_def)

lemma map_snd_fun: "map (\<lambda>x. f (snd x)) (enumerate n es) = map f es"
  by (induction es arbitrary: n) simp_all

lemma snapshot_entries:
  "map (\<lambda>e. if en_paused e then e\<lparr>en_pauseRevision := Some 1\<rparr> else e) (map restartQueuedEntry (restartQueuedSnapshot s))
    = map carried (filter (\<lambda>e. \<not> en_restartContinuation e \<and> en_projectHold e = None) (getAllQueuedEntries s))"
  (is "_ = map carried ?es")
  by (simp add: restartQueuedSnapshot_def comp_def split_def carried_stored map_snd_fun del: if_split)

text \<open>Per thread, the list of all queued entries is the thread's FIFO.\<close>

lemma filter_all_queued:
  assumes "tq_ok s"
  shows "filter (\<lambda>e. keyFor e = key) (getAllQueuedEntries s) = queue_of s key"
proof -
  have keyed: "keyFor e = k" if "(k, q) \<in> set (queuedEntries s)" "e \<in> set q" for k q e
  proof -
    have "map_get (queuedEntries s) k = Some q"
      using that(1) assms unfolding tq_ok_def by (intro map_of_is_SomeI) simp_all
    then have "queue_of s k = q" by (simp only: queue_of_def option.case)
    then show ?thesis using tq_ok_fifo [OF assms, of k] that(2) by (simp add: fifo_ok_def)
  qed
  have "filter (\<lambda>e. keyFor e = key) (concat (map snd m)) = (case map_get m key of None \<Rightarrow> [] | Some q \<Rightarrow> q)"
    if "distinct (map fst m)" "\<forall>(k, q)\<in>set m. \<forall>e\<in>set q. keyFor e = k" for m :: "(string, entry list) jsmap"
    using that
  proof (induction m)
    case (Cons p m)
    obtain k q where p: "p = (k, q)" by (cases p)
    have q: "\<forall>e\<in>set q. keyFor e = k" using Cons.prems(2) p by simp
    have rest: "map_get m k = None" if "k = key" using Cons.prems(1) p by (simp add: map_of_eq_None_iff)
    have fq: "filter (\<lambda>e. keyFor e = key) q = (if k = key then q else [])"
    proof (cases "k = key")
      case True
      then have "filter (\<lambda>e. keyFor e = key) q = q" using q by simp
      then show ?thesis using True by simp
    next
      case False
      then have "filter (\<lambda>e. keyFor e = key) q = []" using q by (simp add: filter_empty_conv)
      then show ?thesis using False by simp
    qed
    have "filter (\<lambda>e. keyFor e = key) (concat (map snd m)) = (case map_get m key of None \<Rightarrow> [] | Some q \<Rightarrow> q)"
      by (rule Cons.IH) (use Cons.prems in simp_all)
    then show ?case using fq rest by (cases "k = key") (simp_all add: p)
  qed simp
  moreover have "\<forall>(k, q)\<in>set (queuedEntries s). \<forall>e\<in>set q. keyFor e = k" using keyed by blast
  moreover have "distinct (map fst (queuedEntries s))" using assms by (simp add: tq_ok_def)
  ultimately show ?thesis unfolding getAllQueuedEntries_def queue_of_def by blast
qed

subsection \<open>Saving and claiming\<close>

lemma save_one_rows:
  assumes "save_one inst pid payloads (st, k, s) c = (st', k', s')"
  shows "wf_map st \<Longrightarrow> wf_map st'" "i \<noteq> sc_id c \<Longrightarrow> map_get st' i = map_get st i"
    "sc_isQueued c \<Longrightarrow> map_get payloads (sc_id c) = map_option rr_payload (map_get st (sc_id c)) \<Longrightarrow>
      map_get st' (sc_id c) = Some (case map_get st (sc_id c) of
        Some row \<Rightarrow> row\<lparr>rr_payload := c\<rparr> | None \<Rightarrow> new_row inst pid c)"
  using assms by (auto simp: save_one_def split: if_split_asm option.splits)

lemma save_rows:
  assumes "foldl (save_one inst pid payloads) (st, k, s) cs = (st', k', s')"
  shows "wf_map st \<Longrightarrow> wf_map st'" "i \<notin> sc_id ` set cs \<Longrightarrow> map_get st' i = map_get st i"
proof -
  have "(wf_map st \<longrightarrow> wf_map st') \<and> (i \<notin> sc_id ` set cs \<longrightarrow> map_get st' i = map_get st i)"
    using assms
  proof (induction cs arbitrary: st k s)
    case (Cons c cs)
    obtain st1 k1 s1 where one: "save_one inst pid payloads (st, k, s) c = (st1, k1, s1)" by (metis prod_cases3)
    show ?case using Cons.IH [of st1 k1 s1] Cons.prems one save_one_rows(1,2) [OF one] by auto
  qed simp
  then show "wf_map st \<Longrightarrow> wf_map st'" "i \<notin> sc_id ` set cs \<Longrightarrow> map_get st' i = map_get st i" by blast+
qed

text \<open>
  The row of a queued message after a save: new, or an earlier one with the payload of now. Nothing
  else in the call touches it.
\<close>

lemma saved_row:
  assumes "saveAll inst pid st (as @ c # bs) = (st', saved)" "sc_isQueued c"
    and "sc_id c \<notin> sc_id ` set as" "sc_id c \<notin> sc_id ` set bs"
  shows "map_get st' (sc_id c) = Some (case map_get st (sc_id c) of
      Some row \<Rightarrow> row\<lparr>rr_payload := c\<rparr> | None \<Rightarrow> new_row inst pid c)"
proof -
  define payloads where "payloads = map (\<lambda>(i, r). (i, rr_payload r)) st"
  obtain st1 k1 s1 where 1: "foldl (save_one inst pid payloads) (st, continued_threads st, []) as = (st1, k1, s1)"
    by (metis prod_cases3)
  obtain st2 k2 s2 where 2: "save_one inst pid payloads (st1, k1, s1) c = (st2, k2, s2)" by (metis prod_cases3)
  obtain st3 k3 s3 where 3: "foldl (save_one inst pid payloads) (st2, k2, s2) bs = (st3, k3, s3)" by (metis prod_cases3)
  have "st' = st3" using assms(1) 1 2 3 by (simp add: saveAll_def payloads_def)
  then have "map_get st' (sc_id c) = map_get st2 (sc_id c)" using save_rows(2) [OF 3 assms(4)] by simp
  moreover have same: "map_get st1 (sc_id c) = map_get st (sc_id c)" by (rule save_rows(2) [OF 1 assms(3)])
  moreover have "map_get payloads i = map_option rr_payload (map_get st i)" for i
    unfolding payloads_def by (rule map_get_map)
  ultimately show ?thesis using save_one_rows(3) [OF 2 assms(2)] by simp
qed

lemma saveAll_wf: "wf_map st \<Longrightarrow> saveAll inst pid st cs = (st', saved) \<Longrightarrow> wf_map st'"
  using save_rows(1) by (auto simp: saveAll_def split: prod.split_asm)

text \<open>A queued message of this instance is on record for it, whatever was on record before.\<close>

lemma saved_message:
  assumes save: "saveAll inst pid st (continuations @ cs) = (st', saved)" and c: "c \<in> set cs" "sc_isQueued c"
    and ids: "distinct (map sc_id cs)" "sc_id c \<notin> sc_id ` set continuations"
    and own: "\<forall>(i, r)\<in>set st. i = sc_id c \<longrightarrow> rr_owner r = inst \<and> rr_pid r = pid"
  shows "\<exists>row. map_get st' (sc_id c) = Some row \<and> rr_payload row = c \<and> rr_owner row = inst \<and> rr_pid row = pid"
proof -
  obtain xs ys where split: "cs = xs @ c # ys" by (metis c(1) split_list)
  have "map_get st' (sc_id c) = Some (case map_get st (sc_id c) of
      Some row \<Rightarrow> row\<lparr>rr_payload := c\<rparr> | None \<Rightarrow> new_row inst pid c)"
    by (rule saved_row [of inst pid st "continuations @ xs" c ys st' saved]) (use save c ids split in auto)
  moreover have "rr_owner row = inst \<and> rr_pid row = pid" if "map_get st (sc_id c) = Some row" for row
    using own map_of_SomeD [OF that] by blast
  ultimately show ?thesis by (cases "map_get st (sc_id c)") (simp_all add: new_row_def)
qed

lemma claimed_payloads:
  "snd (claimOrphaned inst pid live alive st)
    = map (\<lambda>(i, r). rr_payload r) (filter (\<lambda>(i, r). parses i (rr_payload r)) (claim_candidates inst live alive st))"
proof -
  have "snd (foldl (claim_one inst pid) (st', cl) ps)
      = cl @ map (\<lambda>(i, r). rr_payload r) (filter (\<lambda>(i, r). parses i (rr_payload r)) ps)" for st' cl ps
    by (induction ps arbitrary: st' cl) (auto simp: claim_one_def)
  then show ?thesis by (simp add: claimOrphaned_def)
qed

text \<open>What is claimed: every row of an exited instance that parses, once.\<close>

lemma claimed_rows:
  assumes "wf_map st" "claimOrphaned inst pid live alive st = (st', claimed)"
  shows "distinct (map sc_id claimed)"
    "c \<in> set claimed \<longleftrightarrow> (\<exists>r. map_get st (sc_id c) = Some r \<and> rr_payload r = c \<and> orphaned inst live alive r \<and> parses (sc_id c) c)"
proof -
  let ?ps = "filter (\<lambda>(i, r). parses i (rr_payload r)) (claim_candidates inst live alive st)"
  have claimed: "claimed = map (\<lambda>(i, r). rr_payload r) ?ps"
    using claimed_payloads [of inst pid live alive st] assms(2) by simp
  have ids: "map sc_id claimed = map fst ?ps"
    unfolding claimed map_map by (rule map_cong [OF refl]) (auto simp: parses_def)
  have "distinct (map fst (sort_key (\<lambda>(i, r). (rr_createdAt r, i)) st))" using assms(1) by (simp add: distinct_map)
  then show "distinct (map sc_id claimed)"
    unfolding ids claim_candidates_def by (intro distinct_map_filter)
  show "c \<in> set claimed \<longleftrightarrow> (\<exists>r. map_get st (sc_id c) = Some r \<and> rr_payload r = c \<and> orphaned inst live alive r \<and> parses (sc_id c) c)"
    using wf_map_get_in [OF assms(1)] unfolding claimed claim_candidates_def by (auto simp: parses_def image_iff)
qed

lemma filter_single: "distinct ys \<Longrightarrow> k \<in> set ys \<Longrightarrow> filter (\<lambda>x. x = k) ys = [k]"
  by (induction ys) (auto simp: filter_empty_conv)

lemma sort_positions:
  assumes "mset xs = mset cs" "map saved_position cs = [0..<length cs]"
  shows "sort_key (\<lambda>c. (saved_position c, sc_createdAt c)) xs = cs"
proof (rule properties_for_sort_key)
  let ?f = "\<lambda>c. (saved_position c, sc_createdAt c)"
  have d: "distinct cs" using assms(2) by (metis distinct_map distinct_upt)
  have inj: "a = b" if "a \<in> set cs" "b \<in> set cs" "saved_position a = saved_position b" for a b
    using that assms(2) by (metis distinct_map distinct_upt inj_on_contraD)
  have eq: "set xs = set cs" using assms(1) by (rule mset_eq_setD)
  have dx: "distinct xs" using d mset_eq_imp_distinct_iff [OF assms(1)] by blast
  show "mset cs = mset xs" using assms(1) by simp
  show "sorted (map ?f cs)"
  proof -
    have "sorted_wrt (<) (map saved_position cs)" by (simp add: assms(2))
    then have "sorted_wrt (\<lambda>x y. saved_position x < saved_position y) cs" by (simp add: sorted_wrt_map)
    then have "sorted_wrt (\<lambda>x y. ?f x \<le> ?f y) cs"
      by (rule sorted_wrt_mono_rel [rotated]) (simp add: less_eq_prod_def)
    then show ?thesis by (simp add: sorted_wrt_map)
  qed
  fix k assume k: "k \<in> set cs"
  have one: "filter (\<lambda>x. ?f k = ?f x) ys = [k]" if "set ys = set cs" "distinct ys" for ys
  proof -
    have "filter (\<lambda>x. ?f k = ?f x) ys = filter (\<lambda>x. x = k) ys"
      by (rule filter_cong) (use inj k that in auto)
    also have "\<dots> = [k]" by (rule filter_single) (use that k in auto)
    finally show ?thesis .
  qed
  show "filter (\<lambda>x. ?f k = ?f x) cs = filter (\<lambda>x. ?f k = ?f x) xs"
    using one [OF refl d] one [OF eq dx] by simp
qed

subsection \<open>Across the restart\<close>

lemma snapshot_ids:
  "map sc_id (restartQueuedSnapshot s)
    = map en_id (filter (\<lambda>e. \<not> en_restartContinuation e \<and> en_projectHold e = None) (getAllQueuedEntries s))"
  "map saved_position (restartQueuedSnapshot s) = [0..<length (restartQueuedSnapshot s)]"
  by (simp_all add: restartQueuedSnapshot_def split_def comp_def map_snd_fun)

lemma snapshot_in:
  "c \<in> set (restartQueuedSnapshot s) \<Longrightarrow> \<exists>e p. e \<in> set (getAllQueuedEntries s) \<and> c = storedRestartQueuedEntry e p"
  by (auto simp: restartQueuedSnapshot_def dest!: set_zip_rightD simp: enumerate_eq_zip)

lemma snapshot_parses:
  assumes "\<forall>e\<in>set (getAllQueuedEntries s). isAppServerBackendKind (en_backend e) \<and> en_threadId e \<noteq> []"
    "c \<in> set (restartQueuedSnapshot s)"
  shows "sc_isQueued c \<and> parses (sc_id c) c"
proof -
  obtain e p where "e \<in> set (getAllQueuedEntries s)" "c = storedRestartQueuedEntry e p"
    using snapshot_in [OF assms(2)] by blast
  then show ?thesis using assms(1) by (simp add: parses_def)
qed

text \<open>Among all that the next instance claims, the snapshot's messages stand in the snapshot's order.\<close>

lemma claimed_in_order:
  assumes wf: "wf_map st" and save: "saveAll inst pid st (continuations @ cs) = (st', saved)"
    and cs: "\<forall>c\<in>set cs. sc_isQueued c \<and> parses (sc_id c) c" "distinct (map sc_id cs)"
      "map saved_position cs = [0..<length cs]" "sc_id ` set cs \<inter> sc_id ` set continuations = {}"
    and own: "\<forall>(i, r)\<in>set st. i \<in> sc_id ` set cs \<longrightarrow> rr_owner r = inst \<and> rr_pid r = pid"
    and gone: "inst \<notin> insert inst2 live" "\<not> alive pid"
    and claim: "claimOrphaned inst2 pid2 live alive st' = (st'', claimed)"
  shows "filter (\<lambda>c. sc_id c \<in> sc_id ` set cs)
      (sort_key (\<lambda>c. (saved_position c, sc_createdAt c)) (filter sc_isQueued claimed)) = cs"
proof -
  let ?ours = "\<lambda>c. sc_id c \<in> sc_id ` set cs"
  note rows = claimed_rows [OF saveAll_wf [OF wf save] claim]
  have row: "\<exists>r. map_get st' (sc_id c) = Some r \<and> rr_payload r = c \<and> orphaned inst2 live alive r" if c: "c \<in> set cs" for c
  proof -
    have o: "\<forall>(i, r)\<in>set st. i = sc_id c \<longrightarrow> rr_owner r = inst \<and> rr_pid r = pid" using own c by blast
    have q: "sc_isQueued c" "sc_id c \<notin> sc_id ` set continuations" using cs(1,4) c by blast+
    obtain r where "map_get st' (sc_id c) = Some r" "rr_payload r = c" "rr_owner r = inst" "rr_pid r = pid"
      using saved_message [OF save c q(1) cs(2) q(2) o] by blast
    then show ?thesis using gone by (auto simp: orphaned_def)
  qed
  have "set (filter (\<lambda>c. sc_isQueued c \<and> ?ours c) claimed) = set cs"
  proof (rule set_eqI, rule iffI)
    fix c assume "c \<in> set (filter (\<lambda>c. sc_isQueued c \<and> ?ours c) claimed)"
    then obtain c' where c: "c \<in> set claimed" "c' \<in> set cs" "sc_id c = sc_id c'" by auto
    have "map_option rr_payload (map_get st' (sc_id c)) = Some c" using c(1) rows(2) by auto
    moreover have "map_option rr_payload (map_get st' (sc_id c)) = Some c'" using row [OF c(2)] c(3) by auto
    ultimately show "c \<in> set cs" using c(2) by simp
  next
    fix c assume c: "c \<in> set cs"
    then have "c \<in> set claimed" using row [OF c] cs(1) by (subst rows(2)) blast
    then show "c \<in> set (filter (\<lambda>c. sc_isQueued c \<and> ?ours c) claimed)" using c cs(1) by simp
  qed
  moreover have "distinct (filter (\<lambda>c. sc_isQueued c \<and> ?ours c) claimed)" "distinct cs"
    using rows(1) cs(2) by (simp_all add: distinct_map)
  ultimately have "mset (filter (\<lambda>c. sc_isQueued c \<and> ?ours c) claimed) = mset cs"
    using set_eq_iff_mset_eq_distinct by blast
  then have "sort_key (\<lambda>c. (saved_position c, sc_createdAt c)) (filter (\<lambda>c. sc_isQueued c \<and> ?ours c) claimed) = cs"
    by (rule sort_positions) (rule cs(3))
  then show ?thesis by (simp add: filter_sort conj_commute)
qed

text \<open>The FIFO of a thread after the restores, without the continuations.\<close>

lemma restore_saved_queue:
  assumes "restore_saved wakeups claimed = (s', qs, rs)" "distinct (map sc_id claimed)"
  shows "filter (\<lambda>e. \<not> en_restartContinuation e) (queue_of s' key)
    = filter (\<lambda>e. \<not> en_restartContinuation e) (queue_of (fst (restoreProjectHeld turn_queue_new wakeups)) key)
      @ filter (\<lambda>e. keyFor e = key \<and> en_id e \<notin> ids_of (fst (restoreProjectHeld turn_queue_new wakeups)))
          (map (\<lambda>e. if en_paused e then e\<lparr>en_pauseRevision := Some 1\<rparr> else e) (map restartQueuedEntry
             (sort_key (\<lambda>c. (saved_position c, sc_createdAt c)) (filter sc_isQueued claimed))))"
proof -
  let ?cs = "sort_key (\<lambda>c. (saved_position c, sc_createdAt c)) (filter sc_isQueued claimed)"
  let ?es = "map (\<lambda>e. if en_paused e then e\<lparr>en_pauseRevision := Some 1\<rparr> else e) (map restartQueuedEntry ?cs)"
  define s0 where "s0 = fst (restoreProjectHeld turn_queue_new wakeups)"
  obtain s1 q1 where s1: "restoreQueued s0 (map restartQueuedEntry ?cs) = (s1, q1)" by fastforce
  have fields: "en_id (restartQueuedEntry c) = sc_id c" "\<not> en_restartContinuation (restartQueuedEntry c)" for c
    by (simp_all add: restartQueuedEntry_def plain_entry_def split: option.split)
  have wf: "wf_map (queuedEntries s0)"
    unfolding s0_def restoreProjectHeld_def by (rule restore_wf) (simp add: turn_queue_new_def)
  have "map en_id ?es = map sc_id ?cs" by (simp add: fields comp_def if_distrib cong: if_cong)
  then have "distinct (map en_id ?es)" using assms(2) by (simp add: distinct_map inj_on_def)
  from restore_back [OF wf this, of "[]" key]
  have q1: "queue_of s1 key = queue_of s0 key @ filter (\<lambda>e. keyFor e = key \<and> en_id e \<notin> ids_of s0) ?es"
    using s1 by (simp add: restoreQueued_def)
  have "s' = fst (restoreRestartContinuations s1 (map restartContinuationEntry (filter (\<lambda>c. \<not> sc_isQueued c) claimed)))"
    using assms(1) s1 by (simp add: restore_saved_def s0_def split: prod.split_asm)
  then have "filter (\<lambda>e. \<not> en_restartContinuation e) (queue_of s' key) = filter (\<lambda>e. \<not> en_restartContinuation e) (queue_of s1 key)"
    by (simp add: restoreRestartContinuations_def restore_front_filter)
  moreover have "\<not> en_restartContinuation e" if "e \<in> set ?es" for e using that by (auto simp: fields)
  then have "filter (\<lambda>e. \<not> en_restartContinuation e) (filter P ?es) = filter P ?es" for P
    unfolding filter_filter by (intro filter_cong [OF refl]) blast
  ultimately show ?thesis unfolding s0_def [symmetric] q1 filter_append by metis
qed

lemma filter_ids_of_map:
  assumes "\<And>c. en_id (f c) = sc_id c"
  shows "filter (\<lambda>e. en_id e \<in> A \<and> R e) (filter (\<lambda>e. K e \<and> R e) (map f L)) = filter (\<lambda>e. K e \<and> R e) (map f (filter (\<lambda>c. sc_id c \<in> A) L))"
  by (induction L) (auto simp: assms)

text \<open>
  C23: Waiting messages survive a restart. Let an instance save its waiting messages beside the
  continuations of its stopped turns - for the first time, or again over the rows that it holds from an
  earlier save or claim - and exit, and another instance restore its wake-ups and what it claims from
  all exited instances. Then every thread's queue holds the messages that waited in it, each once, in
  the order they waited, as they were at the last save and with their settings; a held message comes
  back paused, so it does not send itself. Messages of other exited instances may stand between them.
  Wake-ups held by their project have a store of their own, and a message that this store brings back
  is left as it brings it. The messages' ids are distinct, and their backends and threads named.
\<close>

theorem queued_messages_survive_restart:
  assumes "queue_reachable w"
    and "distinct (map en_id (getAllQueuedEntries (w_queue w)))"
    and "\<forall>e\<in>set (getAllQueuedEntries (w_queue w)). isAppServerBackendKind (en_backend e) \<and> en_threadId e \<noteq> []"
    and "\<forall>c\<in>set continuations. \<not> sc_isQueued c \<and> sc_id c \<notin> en_id ` set (getAllQueuedEntries (w_queue w))"
    and "wf_map st"
    and "\<forall>(i, r)\<in>set st. i \<in> en_id ` set (getAllQueuedEntries (w_queue w)) \<longrightarrow> rr_owner r = inst \<and> rr_pid r = pid"
    and "inst \<notin> insert inst2 live" "\<not> alive pid"
    and "saveAll inst pid st (continuations @ restartQueuedSnapshot (w_queue w)) = (st', saved)"
    and "claimOrphaned inst2 pid2 live alive st' = (st'', claimed)"
    and "restore_saved wakeups claimed = (s', qs, rs)"
  shows "filter (\<lambda>e. \<not> en_restartContinuation e \<and> en_id e \<in> sc_id ` set (restartQueuedSnapshot (w_queue w))
        \<and> findQueuedEntry (fst (restoreProjectHeld turn_queue_new wakeups)) (en_id e) = None) (queue_of s' key)
    = map carried (filter (\<lambda>e. \<not> en_restartContinuation e \<and> en_projectHold e = None
        \<and> findQueuedEntry (fst (restoreProjectHeld turn_queue_new wakeups)) (en_id e) = None) (queue_of (w_queue w) key))"
proof -
  let ?s = "w_queue w" and ?woken = "fst (restoreProjectHeld turn_queue_new wakeups)"
  let ?keep = "\<lambda>e. \<not> en_restartContinuation e \<and> en_projectHold e = None"
  let ?cs = "restartQueuedSnapshot ?s" and ?all = "getAllQueuedEntries ?s"
  let ?L = "sort_key (\<lambda>c. (saved_position c, sc_createdAt c)) (filter sc_isQueued claimed)"
  let ?f = "\<lambda>c. (\<lambda>e. if en_paused e then e\<lparr>en_pauseRevision := Some 1\<rparr> else e) (restartQueuedEntry c)"
  have ids: "distinct (map sc_id ?cs)" unfolding snapshot_ids(1) by (rule distinct_map_filter [OF assms(2)])
  have sub: "sc_id ` set ?cs \<subseteq> en_id ` set ?all" using snapshot_in [of _ ?s] by fastforce
  have ours: "filter (\<lambda>c. sc_id c \<in> sc_id ` set ?cs) ?L = ?cs"
  proof (rule claimed_in_order [OF assms(5,9) _ ids snapshot_ids(2) _ _ assms(7,8,10)])
    show "\<forall>c\<in>set ?cs. sc_isQueued c \<and> parses (sc_id c) c" using snapshot_parses [OF assms(3)] by blast
    have "c \<in> set continuations \<Longrightarrow> sc_id c \<notin> en_id ` set ?all" for c using bspec [OF assms(4)] by blast
    then have "x \<notin> sc_id ` set continuations" if "x \<in> en_id ` set ?all" for x using that by (metis imageE)
    then show "sc_id ` set ?cs \<inter> sc_id ` set continuations = {}" using subsetD [OF sub] by (metis disjoint_iff)
    show "\<forall>(i, r)\<in>set st. i \<in> sc_id ` set ?cs \<longrightarrow> rr_owner r = inst \<and> rr_pid r = pid"
    proof (intro ballI, clarify)
      fix i r c
      assume r: "(sc_id c, r) \<in> set st" and c: "c \<in> set ?cs"
      have "sc_id c \<in> en_id ` set ?all" using subsetD [OF sub] c by blast
      then show "rr_owner r = inst \<and> rr_pid r = pid" using bspec [OF assms(6) r] by simp
    qed
  qed
  have f: "en_id (?f c) = sc_id c" for c
    by (simp add: restartQueuedEntry_def plain_entry_def split: option.split)
  have dist: "distinct (map sc_id claimed)" by (rule claimed_rows(1) [OF saveAll_wf [OF assms(5,9)] assms(10)])
  have "filter (\<lambda>e. \<not> en_restartContinuation e \<and> en_id e \<in> sc_id ` set ?cs \<and> en_id e \<notin> ids_of ?woken) (queue_of s' key)
      = filter (\<lambda>e. en_id e \<in> sc_id ` set ?cs \<and> en_id e \<notin> ids_of ?woken) (filter (\<lambda>e. \<not> en_restartContinuation e) (queue_of s' key))"
    unfolding filter_filter by (rule filter_cong [OF refl]) blast
  also have "\<dots> = filter (\<lambda>e. keyFor e = key \<and> en_id e \<notin> ids_of ?woken) (map ?f (filter (\<lambda>c. sc_id c \<in> sc_id ` set ?cs) ?L))"
  proof -
    have "filter (\<lambda>e. en_id e \<in> sc_id ` set ?cs \<and> en_id e \<notin> ids_of ?woken) (filter P (queue_of ?woken key)) = []" for P
      using queue_of_ids [of ?woken key] by (auto simp: filter_empty_conv)
    moreover have "map (\<lambda>e. if en_paused e then e\<lparr>en_pauseRevision := Some 1\<rparr> else e) (map restartQueuedEntry ?L) = map ?f ?L"
      by (simp only: map_map comp_def)
    ultimately show ?thesis
      using filter_ids_of_map [of ?f "sc_id ` set ?cs" "\<lambda>e. en_id e \<notin> ids_of ?woken" "\<lambda>e. keyFor e = key" ?L, OF f]
      unfolding restore_saved_queue [OF assms(11) dist] filter_append by (simp only: append_Nil)
  qed
  also have "\<dots> = filter (\<lambda>e. keyFor e = key \<and> en_id e \<notin> ids_of ?woken) (map carried (filter ?keep ?all))"
    using snapshot_entries [of ?s] by (simp only: ours map_map comp_def)
  also have "\<dots> = map carried (filter (\<lambda>e. ?keep e \<and> en_id e \<notin> ids_of ?woken) (filter (\<lambda>e. keyFor e = key) ?all))"
    by (simp add: filter_map comp_def conj_ac)
  also have "filter (\<lambda>e. keyFor e = key) ?all = queue_of ?s key"
    using filter_all_queued [of ?s key] reachable_world_ok [OF assms(1)] by (simp add: world_ok_def)
  finally show ?thesis by (simp add: findQueued_None)
qed

text \<open>A second save, over the row of an earlier one in which the message waited elsewhere.\<close>

definition demo_saved :: restart_table where
  "demo_saved = map (\<lambda>e. (en_id e, new_row ''i1'' 1 (storedRestartQueuedEntry e 7))) (getAllQueuedEntries (w_queue demo_world))"

theorem queued_messages_survive_restart_witness:
  "map en_id (filter (\<lambda>e. \<not> en_restartContinuation e \<and> en_id e = ''c'') (queue_of (fst (restore_saved []
     (snd (claimOrphaned ''i2'' 2 {} (\<lambda>_. False)
       (fst (saveAll ''i1'' 1 demo_saved ([] @ restartQueuedSnapshot (w_queue demo_world)))))))) ''codex:t1''))
   = [''c'']"
proof -
  let ?s = "w_queue demo_world"
  let ?save = "saveAll ''i1'' 1 demo_saved ([] @ restartQueuedSnapshot ?s)"
  let ?claim = "claimOrphaned ''i2'' 2 {} (\<lambda>_. False) (fst ?save)"
  let ?r = "restore_saved [] (snd ?claim)"
  have all: "map en_id (getAllQueuedEntries ?s) = [''c'']" by code_simp
  then have 1: "distinct (map en_id (getAllQueuedEntries ?s))" by simp
  have 2: "\<forall>e\<in>set (getAllQueuedEntries ?s). isAppServerBackendKind (en_backend e) \<and> en_threadId e \<noteq> []"
    by code_simp
  have 3: "\<forall>c\<in>set []. \<not> sc_isQueued c \<and> sc_id c \<notin> en_id ` set (getAllQueuedEntries ?s)" by simp
  have "map fst demo_saved = map en_id (getAllQueuedEntries ?s)" by (simp add: demo_saved_def comp_def)
  then have 4: "wf_map demo_saved" by (simp only: 1)
  have 5: "\<forall>(i, r)\<in>set demo_saved. i \<in> en_id ` set (getAllQueuedEntries ?s) \<longrightarrow> rr_owner r = ''i1'' \<and> rr_pid r = 1"
    by (auto simp: demo_saved_def new_row_def)
  have 6: "''i1'' \<notin> insert ''i2'' {}" "\<not> (\<lambda>_ :: nat. False) (1 :: nat)" by simp_all
  have r: "?r = (fst ?r, fst (snd ?r), snd (snd ?r))" by simp
  have q: "map en_id (filter (\<lambda>e. \<not> en_restartContinuation e \<and> en_projectHold e = None) (queue_of ?s ''codex:t1'')) = [''c'']"
    by code_simp
  have i: "sc_id ` set (restartQueuedSnapshot ?s) = {''c''}" by code_simp
  have "findQueuedEntry (fst (restoreProjectHeld turn_queue_new [])) x = None" for x
    by (simp add: restoreProjectHeld_def turn_queue_new_def findQueuedEntry_def)
  with queued_messages_survive_restart [OF demo_world_reachable 1 2 3 4 5 6 surjective_pairing surjective_pairing r, of "''codex:t1''"]
  show ?thesis using q i by (simp add: comp_def)
qed

subsection \<open>One continuation per thread\<close>

definition one_per_thread :: "restart_table \<Rightarrow> bool" where
  "one_per_thread st \<longleftrightarrow> (\<forall>i j r r'. map_get st i = Some r \<longrightarrow> map_get st j = Some r' \<longrightarrow>
     \<not> sc_isQueued (rr_payload r) \<longrightarrow> \<not> sc_isQueued (rr_payload r') \<longrightarrow>
     continued_thread (rr_payload r) = continued_thread (rr_payload r') \<longrightarrow> i = j)"

definition listed :: "restart_table \<Rightarrow> string list \<Rightarrow> bool" where
  "listed st continued \<longleftrightarrow> (\<forall>i r. map_get st i = Some r \<longrightarrow> \<not> sc_isQueued (rr_payload r) \<longrightarrow>
     continued_thread (rr_payload r) \<in> set continued)"

lemma save_one_keeps:
  assumes "one_per_thread st" "listed st continued"
    "save_one inst pid payloads (st, continued, saved) c = (st', continued', saved')"
  shows "one_per_thread st' \<and> listed st' continued'"
proof (cases "sc_isQueued c")
  case True
  consider "st' = st \<and> continued' = continued"
    | row where "st' = map_set st (sc_id c) row" "rr_payload row = c" "continued' = continued"
    using assms(3) True by (auto simp: save_one_def new_row_def split: if_split_asm option.split_asm)
  then show ?thesis
  proof cases
    case 2
    have "one_per_thread st'"
      using assms(1) True unfolding one_per_thread_def 2(1) map_get_set by (metis 2(2) option.inject)
    moreover have "listed st' continued'"
      using assms(2) True unfolding listed_def 2(1,3) map_get_set by (metis 2(2) option.inject)
    ultimately show ?thesis by blast
  qed (use assms in simp)
next
  case False
  show ?thesis
  proof (cases "continued_thread c \<in> set continued \<or> map_has st (sc_id c)")
    case True
    then have "st' = st" "set continued \<subseteq> set continued'"
      using assms(3) False by (auto simp: save_one_def split: if_split_asm)
    then show ?thesis using assms(1,2) unfolding listed_def by blast
  next
    case F: False
    then have st': "st' = map_set st (sc_id c) (new_row inst pid c)" "continued' = continued @ [continued_thread c]"
      using assms(3) False by (auto simp: save_one_def)
    have new: "continued_thread (rr_payload r) \<noteq> continued_thread c"
      if "map_get st i = Some r" "\<not> sc_isQueued (rr_payload r)" for i r
      using that assms(2) F unfolding listed_def by metis
    have p: "rr_payload (new_row inst pid c) = c" by (simp add: new_row_def)
    have "one_per_thread st'"
      unfolding one_per_thread_def st'(1) map_get_set
    proof (intro allI impI)
      fix i j r r'
      assume "(if i = sc_id c then Some (new_row inst pid c) else map_get st i) = Some r"
        "(if j = sc_id c then Some (new_row inst pid c) else map_get st j) = Some r'"
        "\<not> sc_isQueued (rr_payload r)" "\<not> sc_isQueued (rr_payload r')"
        "continued_thread (rr_payload r) = continued_thread (rr_payload r')"
      then show "i = j"
        using new p assms(1) unfolding one_per_thread_def by (metis option.inject)
    qed
    moreover have "listed st' continued'"
      using assms(2) p unfolding listed_def st' map_get_set by (metis Un_iff option.inject list.set_intros(1) set_append)
    ultimately show ?thesis by blast
  qed
qed

lemma saveAll_keeps: "one_per_thread st \<Longrightarrow> one_per_thread (fst (saveAll inst pid st cs))"
proof -
  assume one: "one_per_thread st"
  have "listed st (continued_threads st)"
    unfolding listed_def continued_threads_def by (force dest: map_of_SomeD)
  moreover have "one_per_thread (fst (foldl (save_one inst pid payloads) (st, k, s) cs))"
    if "one_per_thread st" "listed st k" for payloads st k s
    using that
  proof (induction cs arbitrary: st k s)
    case (Cons c cs)
    obtain st' k' s' where r: "save_one inst pid payloads (st, k, s) c = (st', k', s')" by (metis prod_cases3)
    then show ?case using Cons.IH save_one_keeps [OF Cons.prems r] by simp
  qed simp
  ultimately show ?thesis using one by (simp add: saveAll_def split: prod.split) (metis fst_conv)
qed

lemma claim_keeps:
  assumes wf: "wf_map st" and one: "one_per_thread st"
  shows "one_per_thread (fst (claimOrphaned inst pid live alive st))"
proof -
  have del: "one_per_thread (map_del st i)" if "one_per_thread st" for st i
    using that unfolding one_per_thread_def map_get_del by (metis option.distinct(1))
  have same: "one_per_thread (fst (claim_one inst pid (st, cl) (i, r)))"
    if "one_per_thread st" "map_get st i = Some r" for st cl i r
  proof -
    have "one_per_thread (map_set st i (r\<lparr>rr_owner := inst, rr_pid := pid\<rparr>))"
      using that unfolding one_per_thread_def map_get_set
      by (metis (no_types, lifting) option.inject restart_row.select_convs(4) restart_row.surjective
          restart_row.update_convs(1,2))
    then show ?thesis using del that(1) by (simp add: claim_one_def)
  qed
  have fold: "one_per_thread (fst (foldl (claim_one inst pid) (st, cl) ps))"
    if "one_per_thread st" "distinct (map fst ps)" "\<And>i r. (i, r) \<in> set ps \<Longrightarrow> map_get st i = Some r" for st cl ps
    using that
  proof (induction ps arbitrary: st cl)
    case (Cons p ps)
    obtain i r where p: "p = (i, r)" by (cases p)
    obtain st' cl' where c: "claim_one inst pid (st, cl) (i, r) = (st', cl')" by fastforce
    have "one_per_thread st'" using same [of st i r cl] Cons.prems(1,3) c p by simp
    moreover have "map_get st' j = Some r'" if "(j, r') \<in> set ps" for j r'
    proof -
      have "j \<noteq> i" using Cons.prems(2) that p by force
      then have "map_get st' j = map_get st j" using c by (auto simp: claim_one_def split: if_split_asm)
      then show ?thesis using Cons.prems(3) that by simp
    qed
    ultimately show ?case using Cons.IH [of st' cl'] Cons.prems(2) c p by simp
  qed simp
  have "distinct (map fst (claim_candidates inst live alive st))"
    using wf unfolding claim_candidates_def by (intro distinct_map_filter) (simp add: distinct_map)
  moreover have "map_get st i = Some r" if "(i, r) \<in> set (claim_candidates inst live alive st)" for i r
    using that wf by (auto simp: claim_candidates_def intro: map_of_is_SomeI)
  ultimately show ?thesis unfolding claimOrphaned_def using fold one by blast
qed

lemma table_wf:
  "wf_map st \<Longrightarrow> wf_map (fst (saveAll inst pid st cs))"
  "wf_map st \<Longrightarrow> wf_map (fst (claimOrphaned inst pid live alive st))"
proof -
  have s: "wf_map (fst (save_one inst pid payloads acc c))" if "wf_map (fst acc)" for payloads acc c
    using that by (cases acc) (auto simp: save_one_def)
  have "wf_map (fst (foldl (save_one inst pid payloads) acc cs))" if "wf_map (fst acc)" for payloads acc
    using that by (induction cs arbitrary: acc) (simp_all add: s)
  then show "wf_map st \<Longrightarrow> wf_map (fst (saveAll inst pid st cs))"
    by (simp add: saveAll_def split: prod.split) (metis fst_conv)
  have c: "wf_map (fst (claim_one inst pid acc p))" if "wf_map (fst acc)" for acc p
    using that by (cases acc, cases p) (auto simp: claim_one_def)
  have "wf_map (fst (foldl (claim_one inst pid) acc ps))" if "wf_map (fst acc)" for acc ps
    using that by (induction ps arbitrary: acc) (simp_all add: c)
  then show "wf_map st \<Longrightarrow> wf_map (fst (claimOrphaned inst pid live alive st))"
    by (simp add: claimOrphaned_def)
qed

datatype store_call =
    CallSave string nat "stored_continuation list"
  | CallRemove string
  | CallClaim string nat "string set" "nat \<Rightarrow> bool"

fun store_do :: "restart_table \<Rightarrow> store_call \<Rightarrow> restart_table" where
  "store_do st (CallSave inst pid cs) = fst (saveAll inst pid st cs)"
| "store_do st (CallRemove i) = removeContinuation st i"
| "store_do st (CallClaim inst pid live alive) = fst (claimOrphaned inst pid live alive st)"

text \<open>
  C24: A thread is continued once. Whatever instances save, remove and claim, and however often a
  quiet restart is repeated before the continuations start, the store never holds two continuations
  of one thread, so the next launch does not resume a thread twice.
\<close>

theorem one_continuation_per_thread:
  "one_per_thread (foldl store_do [] calls)"
proof -
  have "wf_map (foldl store_do st calls) \<and> one_per_thread (foldl store_do st calls)"
    if "wf_map st" "one_per_thread st" for st
    using that
  proof (induction calls arbitrary: st)
    case (Cons call calls)
    have "one_per_thread (map_del st i)" for i
      using Cons.prems(2) unfolding one_per_thread_def map_get_del by (metis option.distinct(1))
    then have "wf_map (store_do st call) \<and> one_per_thread (store_do st call)"
      using Cons.prems by (cases call) (simp_all add: table_wf saveAll_keeps claim_keeps removeContinuation_def)
    then show ?case using Cons.IH by simp
  qed simp
  moreover have "one_per_thread []" by (simp add: one_per_thread_def)
  ultimately show ?thesis by simp
qed

end
