(* ===== verification/RestartWiringProps.thy ===== *)
theory RestartWiringProps
  imports RestartWiring RestartStoreProps TurnQueueProps
begin

text \<open>
  The queue, the gate and the store together: while the gate is shut only a due continuation
  reaches the backend, the gate never waits for a continuation that is gone, and an opening gate
  forgets no queue.
\<close>

subsection \<open>What an action of the queue may start\<close>

definition may_start :: "queue_env \<Rightarrow> entry \<Rightarrow> bool" where
  "may_start env e \<longleftrightarrow> \<not> entry_dispatch_held env e \<or> \<not> isDispatchHeld env (en_backend e) (en_threadId e) None False"

definition in_flight :: "flight \<Rightarrow> entry \<times> nat" where
  "in_flight f = (fl_entry f, fl_attempt f)"

text \<open>Each backend call of the result was in flight before, or its entry was let through now.\<close>

definition starts_allowed :: "queue_env \<Rightarrow> world \<Rightarrow> world \<Rightarrow> bool" where
  "starts_allowed env w w' \<longleftrightarrow>
     (\<forall>f\<in>set (w_flights w'). in_flight f \<in> in_flight ` set (w_flights w) \<or> may_start env (fl_entry f))"

lemma starts_refl [simp]: "starts_allowed env w w"
  by (simp add: starts_allowed_def)

lemma starts_trans: "starts_allowed env w v \<Longrightarrow> starts_allowed env v u \<Longrightarrow> starts_allowed env w u"
  unfolding starts_allowed_def in_flight_def by (force simp: image_iff)

lemma starts_simps [simp]:
  "starts_allowed env w (with_queue v s) \<longleftrightarrow> starts_allowed env w v"
  "starts_allowed env w (accept v es) \<longleftrightarrow> starts_allowed env w v"
  "starts_allowed env w (add_flight v f) \<longleftrightarrow>
     starts_allowed env w v \<and> (in_flight f \<in> in_flight ` set (w_flights w) \<or> may_start env (fl_entry f))"
  by (auto simp: starts_allowed_def with_queue_def accept_def add_flight_def)













subsection \<open>Steps of the registry\<close>

text \<open>\<open>drained\<close>: the worlds differ in drain timers only.\<close>

definition drained :: "world \<Rightarrow> world \<Rightarrow> bool" where
  "drained w w' \<longleftrightarrow> w_flights w' = w_flights w \<and> w_accepted w' = w_accepted w
     \<and> untouched (w_queue w) (w_queue w') \<and> (queue_reachable w \<longrightarrow> queue_reachable w')"

lemma drained_refl [simp]: "drained w w"
  by (simp add: drained_def)

lemma drained_trans: "drained w v \<Longrightarrow> drained v u \<Longrightarrow> drained w u"
  unfolding drained_def using untouched_trans by fastforce

lemma untouched_drainAll: "untouched s (drainAll s)"
proof -
  have "untouched t (foldl scheduleDrain t ks)" for ks t
  proof (induction ks arbitrary: t)
    case (Cons k ks)
    have "untouched t (foldl scheduleDrain (scheduleDrain t k) ks)"
      by (rule untouched_trans [OF untouched_prims(2) Cons.IH])
    then show ?case by simp
  qed simp
  then show ?thesis by (simp add: drainAll_def)
qed

lemma drained_drainAll: "drained w (with_queue w (drainAll (w_queue w)))"
proof -
  have "queue_reachable w \<Longrightarrow> queue_reachable (queue_do env w ADrainAll)" for env by (rule reach_step) simp_all
  then show ?thesis by (simp add: drained_def with_queue_def untouched_drainAll)
qed

lemma apply_drained: "drained (rg_world r) (rg_world (applyRestartGate r ev))"
  by (simp add: applyRestartGate_def Let_def drained_drainAll)

lemma forget_fields [simp]:
  "rg_world (forgetRestartContinuation r i) = rg_world r" "rg_gate (forgetRestartContinuation r i) = rg_gate r"
  by (simp_all add: forgetRestartContinuation_def)

lemma track_drained: "drained (rg_world r) (rg_world (trackRestartContinuation r ev))"
  using apply_drained [of "forgetRestartContinuation r (en_id (event_entry ev))"] apply_drained [of r]
  by (simp add: trackRestartContinuation_def Let_def)

lemma tracks_drained: "drained (rg_world r) (rg_world (foldl trackRestartContinuation r evs))"
proof (induction evs arbitrary: r)
  case (Cons ev evs)
  have "drained (rg_world r) (rg_world (foldl trackRestartContinuation (trackRestartContinuation r ev) evs))"
    by (rule drained_trans [OF track_drained Cons.IH])
  then show ?case by simp
qed simp

lemma begin_world [simp]: "rg_world (beginRestartContinuationDispatch random opts r) = rg_world r"
  by (simp add: beginRestartContinuationDispatch_def Let_def split: restart_gate.split prod.split)


text \<open>A registry one continuation of which is due.\<close>

definition demo_item :: continuation_schedule where
  "demo_item = \<lparr>rc_entryId = ''r'', rc_threadKey = ''codex:t1'', rc_dispatchAt = 20100\<rparr>"

definition demo_gate :: restart_gate where
  "demo_gate = GateResuming [(''r'', demo_item)] [(''r'', demo_item)] 200100"

definition demo_due :: registry where
  "demo_due = \<lparr>rg_world = foldl (queue_do demo_env) world_new
       [ARestoreContinuations [(demo_entry ''r'')\<lparr>en_restartContinuation := True\<rparr>], AThreadDrain ''codex'' ''t1''],
     rg_gate = demo_gate, rg_dispatchStarted = True, rg_timers = [], rg_store = [], rg_durable = []\<rparr>"

lemma demo_due_gate: "rg_gate demo_due = demo_gate" "isRestartGateClosed demo_gate"
  by (simp_all add: demo_due_def demo_gate_def isRestartGateClosed_def)


subsection \<open>What the gate waits for\<close>

definition pending_at :: "restart_gate \<Rightarrow> string \<Rightarrow> continuation_schedule option" where
  "pending_at g i = (case g of GateResuming pending _ _ \<Rightarrow> map_get pending i | _ \<Rightarrow> None)"

definition scheduled_at :: "restart_gate \<Rightarrow> string \<Rightarrow> continuation_schedule option" where
  "scheduled_at g i = (case g of GateResuming _ scheduled _ \<Rightarrow> map_get scheduled i | _ \<Rightarrow> None)"

definition settles :: "lifecycle_event \<Rightarrow> string \<Rightarrow> bool" where
  "settles ev i \<longleftrightarrow> en_restartContinuation (event_entry ev) \<and> restartContinuationSettles (event_type ev)
     \<and> en_id (event_entry ev) = i"

lemma apply_gate [simp]: "rg_gate (applyRestartGate r ev) = transitionRestartGate (rg_gate r) ev"
  by (simp add: applyRestartGate_def Let_def)

lemma pending_settled:
  "pending_at (transitionRestartGate g (GateSettled j)) i = Some item \<Longrightarrow> i \<noteq> j \<and> pending_at g i = Some item"
  by (cases g) (auto simp: pending_at_def map_has_def split: if_split_asm)

lemma scheduled_settled:
  "pending_at (transitionRestartGate g (GateSettled j)) i = Some item \<Longrightarrow>
   scheduled_at (transitionRestartGate g (GateSettled j)) k = scheduled_at g k"
  by (cases g) (auto simp: pending_at_def scheduled_at_def split: if_split_asm)

lemma track_gate:
  "rg_gate (trackRestartContinuation r ev) = (if settles ev (en_id (event_entry ev))
     then transitionRestartGate (rg_gate r) (GateSettled (en_id (event_entry ev))) else rg_gate r)"
  by (simp add: trackRestartContinuation_def Let_def settles_def)

lemma track_pending:
  assumes "pending_at (rg_gate (trackRestartContinuation r ev)) i = Some item"
  shows "\<not> settles ev i" "pending_at (rg_gate r) i = Some item"
    "scheduled_at (rg_gate (trackRestartContinuation r ev)) k = scheduled_at (rg_gate r) k"
proof -
  let ?j = "en_id (event_entry ev)"
  have "\<not> settles ev i \<and> pending_at (rg_gate r) i = Some item
    \<and> scheduled_at (rg_gate (trackRestartContinuation r ev)) k = scheduled_at (rg_gate r) k"
  proof (cases "settles ev ?j")
    case True
    then have p: "pending_at (transitionRestartGate (rg_gate r) (GateSettled ?j)) i = Some item"
      using assms by (simp add: track_gate)
    have "\<not> settles ev i" using pending_settled [OF p] by (auto simp: settles_def)
    then show ?thesis using pending_settled [OF p] scheduled_settled [OF p] True by (simp add: track_gate)
  next
    case False
    then have "\<not> settles ev i" by (auto simp: settles_def)
    then show ?thesis using False assms by (simp add: track_gate)
  qed
  then show "\<not> settles ev i" "pending_at (rg_gate r) i = Some item"
    "scheduled_at (rg_gate (trackRestartContinuation r ev)) k = scheduled_at (rg_gate r) k" by blast+
qed

lemma tracks_pending:
  "pending_at (rg_gate (foldl trackRestartContinuation r evs)) i = Some item \<Longrightarrow>
   (\<forall>ev\<in>set evs. \<not> settles ev i) \<and> pending_at (rg_gate r) i = Some item
   \<and> scheduled_at (rg_gate (foldl trackRestartContinuation r evs)) k = scheduled_at (rg_gate r) k"
proof (induction evs arbitrary: r)
  case (Cons ev evs)
  have p: "pending_at (rg_gate (foldl trackRestartContinuation (trackRestartContinuation r ev) evs)) i = Some item"
    using Cons.prems by simp
  note ih = Cons.IH [OF p]
  have t: "pending_at (rg_gate (trackRestartContinuation r ev)) i = Some item" using ih by blast
  show ?case using ih track_pending [OF t] by simp
qed simp

lemma resolved_settles: "resolved_entry ev = Some e \<Longrightarrow> event_entry ev = e \<and> restartContinuationSettles (event_type ev)"
  by (cases ev) (auto simp: restartContinuationSettles_def)

lemma unsettled_count:
  assumes "\<forall>ev\<in>set evs. \<not> settles ev i"
  shows "count (resolved_of evs k) (i, True) = 0"
proof -
  have "(i, True) \<notin># resolved_of evs k"
  proof
    assume "(i, True) \<in># resolved_of evs k"
    then obtain e where "e \<in> set (List.map_filter resolved_entry evs)" "en_tag e = (i, True)"
      by (auto simp: resolved_of_def ids_at_def)
    then obtain ev where "ev \<in> set evs" "resolved_entry ev = Some e" "en_tag e = (i, True)"
      by (auto simp: List.map_filter_def)
    then show False using assms resolved_settles [of ev e] by (auto simp: settles_def)
  qed
  then show ?thesis by (simp add: not_in_iff)
qed

text \<open>The tags of a thread's entries that wait or are being started.\<close>

definition live_tags :: "world \<Rightarrow> string \<Rightarrow> entry_tag multiset" where
  "live_tags w k = ids_at k (queue_of (w_queue w) k) + ids_at k (out_entries (w_flights w))"

lemma drained_live: "drained w w' \<Longrightarrow> live_tags w' k = live_tags w k"
  using untouchedD(1) [of "w_queue w" "w_queue w'" k] by (simp add: live_tags_def drained_def)

text \<open>A tag that is live stays live in a step of the queue whose events do not settle it.\<close>

lemma live_step:
  assumes "queue_reachable w" "fresh_input a" "w' = queue_do env w a" "(i, True) \<in># live_tags w k"
    and "\<forall>ev\<in>set (drop (length (eventLog (w_queue w))) (eventLog (w_queue w'))). \<not> settles ev i"
  shows "(i, True) \<in># live_tags w' k"
proof -
  let ?t = "(i, True)" and ?new = "drop (length (eventLog (w_queue w))) (eventLog (w_queue w'))"
  have "queue_reachable w'" using assms(1-3) reach_step by simp
  then have acc: "count (ids_at k (w_accepted v)) ?t
      = count (live_tags v k) ?t + count (resolved_of (eventLog (w_queue v)) k) ?t" if "v = w \<or> v = w'" for v
    using that reachable_world_ok [OF assms(1)] reachable_world_ok [of w']
    by (auto simp: world_ok_def balance_def live_tags_def)
  have g: "prefix (eventLog (w_queue w)) (eventLog (w_queue w'))" "prefix (w_accepted w) (w_accepted w')"
    using queue_do_grows [of w env a] assms(3) by (simp_all add: wgrows_def grows_def)
  have "eventLog (w_queue w') = eventLog (w_queue w) @ ?new" using g(1) by (auto simp: prefix_def)
  then have "resolved_of (eventLog (w_queue w')) k = resolved_of (eventLog (w_queue w)) k + resolved_of ?new k"
    by (metis resolved_of_simps(3))
  then have res: "count (resolved_of (eventLog (w_queue w')) k) ?t = count (resolved_of (eventLog (w_queue w)) k) ?t"
    using unsettled_count [OF assms(5), of k] by simp
  obtain more where "w_accepted w' = w_accepted w @ more" using g(2) by (auto simp: prefix_def)
  then have "count (ids_at k (w_accepted w)) ?t \<le> count (ids_at k (w_accepted w')) ?t" by simp
  then have "count (live_tags w k) ?t \<le> count (live_tags w' k) ?t" using acc [of w] acc [of w'] res by simp
  then show ?thesis using assms(4) by (metis count_greater_zero_iff less_le_trans)
qed

definition gate_live :: "registry \<Rightarrow> bool" where
  "gate_live r \<longleftrightarrow> (\<forall>i item. pending_at (rg_gate r) i = Some item \<longrightarrow>
     (i, True) \<in># live_tags (rg_world r) (rc_threadKey item)
     \<and> (\<exists>item'. scheduled_at (rg_gate r) i = Some item' \<and> rc_threadKey item' = rc_threadKey item)
     \<and> (\<forall>j item'. scheduled_at (rg_gate r) j = Some item' \<longrightarrow> rc_entryId item' = j))"

definition gate_wf :: "restart_gate \<Rightarrow> bool" where
  "gate_wf g \<longleftrightarrow> (\<forall>pending scheduled releaseBy. g = GateResuming pending scheduled releaseBy \<longrightarrow> wf_map scheduled)"

lemma wf_gate_file: "wf_map m \<Longrightarrow> wf_map (gate_file m xs)"
  unfolding gate_file_def by (induction xs arbitrary: m) simp_all

lemma gate_wf_step: "gate_wf g \<Longrightarrow> gate_wf (transitionRestartGate g ev)"
  by (induction g ev rule: transitionRestartGate.induct) (simp_all add: gate_wf_def wf_gate_file)

definition registry_ok :: "registry \<Rightarrow> bool" where
  "registry_ok r \<longleftrightarrow> queue_reachable (rg_world r) \<and> gate_ok (rg_gate r) \<and> gate_wf (rg_gate r) \<and> gate_live r"

lemma gate_live_drained:
  assumes "gate_live r" "drained (rg_world r) (rg_world r')"
    and "\<And>i item. pending_at (rg_gate r') i = Some item \<Longrightarrow>
      pending_at (rg_gate r) i = Some item \<and> (\<forall>k. scheduled_at (rg_gate r') k = scheduled_at (rg_gate r) k)"
  shows "gate_live r'"
  using assms(1,3) drained_live [OF assms(2)] unfolding gate_live_def by metis

subsection \<open>The gate's invariant\<close>

lemma gate_ok_pending: "gate_ok g \<Longrightarrow> pending_at g i = Some item \<Longrightarrow> scheduled_at g i \<noteq> None"
  by (cases g) (auto simp: pending_at_def scheduled_at_def map_has_def)

lemma queue_step_ok:
  assumes "registry_ok r" "fresh_input a"
  shows "registry_ok (queue_step r base a now)"
proof -
  let ?env = "wired_env base (rg_gate r) now"
  define w where "w = queue_do ?env (rg_world r) a"
  define evs where "evs = drop (length (eventLog (w_queue (rg_world r)))) (eventLog (w_queue w))"
  define r1 where "r1 = r\<lparr>rg_world := w\<rparr>"
  have step: "queue_step r base a now = foldl trackRestartContinuation r1 evs"
    by (simp add: queue_step_def Let_def w_def evs_def r1_def)
  have reach: "queue_reachable (rg_world r)" and live: "gate_live r" and ok: "gate_ok (rg_gate r)"
    using assms(1) by (simp_all add: registry_ok_def)
  have d: "drained w (rg_world (foldl trackRestartContinuation r1 evs))"
    using tracks_drained [of r1 evs] by (simp add: r1_def)
  have "queue_reachable w" unfolding w_def by (rule reach_step [OF reach assms(2)])
  then have 1: "queue_reachable (rg_world (foldl trackRestartContinuation r1 evs))" using d by (simp add: drained_def)
  have 2: "gate_ok (rg_gate (foldl trackRestartContinuation r1 evs)) \<and> gate_wf (rg_gate (foldl trackRestartContinuation r1 evs))"
  proof -
    have "gate_ok (rg_gate q) \<and> gate_wf (rg_gate q) \<Longrightarrow>
      gate_ok (rg_gate (foldl trackRestartContinuation q evs)) \<and> gate_wf (rg_gate (foldl trackRestartContinuation q evs))" for q evs
    proof (induction evs arbitrary: q)
      case (Cons ev evs)
      have "gate_ok (rg_gate (trackRestartContinuation q ev)) \<and> gate_wf (rg_gate (trackRestartContinuation q ev))"
        using Cons.prems gate_ok_step gate_wf_step by (simp add: track_gate)
      then show ?case using Cons.IH by simp
    qed simp
    then show ?thesis using ok assms(1) by (simp add: r1_def registry_ok_def)
  qed
  have 3: "gate_live (foldl trackRestartContinuation r1 evs)"
    unfolding gate_live_def
  proof (intro allI impI)
    fix i item
    assume p: "pending_at (rg_gate (foldl trackRestartContinuation r1 evs)) i = Some item"
    note t = tracks_pending [OF p]
    have was: "pending_at (rg_gate r) i = Some item" using t by (simp add: r1_def)
    have un: "\<forall>ev\<in>set evs. \<not> settles ev i" using t by blast
    have "(i, True) \<in># live_tags (rg_world r) (rc_threadKey item)" using live was by (simp add: gate_live_def)
    then have "(i, True) \<in># live_tags w (rc_threadKey item)"
      using live_step [OF reach assms(2) w_def] un by (simp add: evs_def)
    then have "(i, True) \<in># live_tags (rg_world (foldl trackRestartContinuation r1 evs)) (rc_threadKey item)"
      using drained_live [OF d] by simp
    moreover have "scheduled_at (rg_gate (foldl trackRestartContinuation r1 evs)) k = scheduled_at (rg_gate r) k" for k
      using t by (simp add: r1_def)
    ultimately show "(i, True) \<in># live_tags (rg_world (foldl trackRestartContinuation r1 evs)) (rc_threadKey item)
      \<and> (\<exists>item'. scheduled_at (rg_gate (foldl trackRestartContinuation r1 evs)) i = Some item'
            \<and> rc_threadKey item' = rc_threadKey item)
      \<and> (\<forall>j item'. scheduled_at (rg_gate (foldl trackRestartContinuation r1 evs)) j = Some item' \<longrightarrow> rc_entryId item' = j)"
      using live was unfolding gate_live_def by simp
  qed
  show ?thesis unfolding step registry_ok_def using 1 2 3 by blast
qed

lemma apply_ok:
  assumes "registry_ok r" "ev = GateRelease \<or> (\<exists>now. ev = GateQuiet now) \<or> (\<exists>now. ev = GateDeadline now)"
  shows "registry_ok (applyRestartGate r ev)"
proof -
  have p: "pending_at (transitionRestartGate g ev) i = Some item \<Longrightarrow> transitionRestartGate g ev = g" for g i item
    using assms(2) by (cases g) (auto simp: pending_at_def split: if_split_asm)
  have "gate_live (applyRestartGate r ev)"
  proof (rule gate_live_drained [OF _ apply_drained])
    fix i item
    assume a: "pending_at (rg_gate (applyRestartGate r ev)) i = Some item"
    then have "transitionRestartGate (rg_gate r) ev = rg_gate r" using p by simp
    then show "pending_at (rg_gate r) i = Some item
      \<and> (\<forall>k. scheduled_at (rg_gate (applyRestartGate r ev)) k = scheduled_at (rg_gate r) k)" using a by simp
  qed (use assms(1) in \<open>simp add: registry_ok_def\<close>)
  then show ?thesis
    using assms(1) apply_drained [of r ev] gate_ok_step gate_wf_step by (simp add: registry_ok_def drained_def)
qed

lemma registry_ok_same:
  "registry_ok r \<Longrightarrow> rg_world r' = rg_world r \<Longrightarrow> rg_gate r' = rg_gate r \<Longrightarrow> registry_ok r'"
  by (simp add: registry_ok_def gate_live_def)

lemma gate_file_get: "map_get (gate_file m xs) i = Some it \<Longrightarrow> it \<in> set xs \<and> rc_entryId it = i \<or> map_get m i = Some it"
proof (induction xs arbitrary: m)
  case (Cons x xs)
  have "map_get (gate_file (map_set m (rc_entryId x) x) xs) i = Some it" using Cons.prems by (simp add: gate_file_def)
  from Cons.IH [OF this] show ?case by (auto split: if_split_asm)
qed (simp add: gate_file_def)

lemma plan_items:
  assumes "(schedule, by_time) = planRestartDispatch random entries opts"
  shows "map (\<lambda>it. (rc_entryId it, rc_threadKey it)) schedule = entries"
proof -
  have "map (\<lambda>it. (rc_entryId it, rc_threadKey it)) (map (\<lambda>(index, entryId, threadKey).
      \<lparr>rc_entryId = entryId, rc_threadKey = threadKey, rc_dispatchAt = f index\<rparr>) (enumerate n es)) = es"
    for f n and es :: "(string \<times> string) list"
    by (induction es arbitrary: n) auto
  then show ?thesis using assms by (simp add: planRestartDispatch_def Let_def)
qed

lemma begin_ok:
  assumes ok: "registry_ok r"
  shows "registry_ok (beginRestartContinuationDispatch random opts r)"
proof (cases "\<exists>pending scheduled releaseBy. rg_gate r = GateResuming pending scheduled releaseBy \<and> \<not> rg_dispatchStarted r")
  case False
  then have "beginRestartContinuationDispatch random opts r = r"
    by (auto simp: beginRestartContinuationDispatch_def split: restart_gate.split)
  then show ?thesis using ok by simp
next
  case True
  then obtain pending scheduled releaseBy where g: "rg_gate r = GateResuming pending scheduled releaseBy"
    and ns: "\<not> rg_dispatchStarted r" by blast
  define keep where "keep = (\<lambda>item :: continuation_schedule. map_has pending (rc_entryId item)
    \<or> rc_entryId item \<in> set (map en_id (getAllQueuedEntries (w_queue (rg_world r)))))"
  obtain schedule by_time where plan: "(schedule, by_time) = planRestartDispatch random
    (map (\<lambda>item. (rc_entryId item, rc_threadKey item)) (filter keep (map_vals scheduled))) opts"
    by (metis prod.exhaust)
  let ?p = "gate_file [] (filter (\<lambda>item. map_has pending (rc_entryId item)) schedule)" and ?s = "gate_file [] schedule"
  let ?r = "beginRestartContinuationDispatch random opts r"
  have new: "rg_gate ?r = GateResuming ?p ?s by_time"
    using g ns plan [symmetric] by (simp add: beginRestartContinuationDispatch_def keep_def Let_def)
  note items = plan_items [OF plan]
  have live: "(i, True) \<in># live_tags (rg_world r) (rc_threadKey item)"
    "\<exists>item'. map_get scheduled i = Some item' \<and> rc_threadKey item' = rc_threadKey item"
    if "map_get pending i = Some item" for i item
    using that ok by (auto simp: registry_ok_def gate_live_def g pending_at_def scheduled_at_def)
  have "pending \<noteq> []" using ok by (simp add: registry_ok_def g)
  then obtain i0 item0 where i0: "map_get pending i0 = Some item0"
    by (metis list.exhaust map_of.simps(2) surj_pair fun_upd_same)
  have keyed: "rc_entryId item = j" if "map_get scheduled j = Some item" for j item
    using that i0 ok by (auto simp: registry_ok_def gate_live_def g pending_at_def scheduled_at_def)
  have wf: "wf_map scheduled" using ok by (simp add: registry_ok_def gate_wf_def g)
  have from_plan: "\<exists>item. map_get scheduled (rc_entryId it) = Some item \<and> rc_threadKey item = rc_threadKey it"
    if "it \<in> set schedule" for it
  proof -
    have "(rc_entryId it, rc_threadKey it) \<in> set (map (\<lambda>it. (rc_entryId it, rc_threadKey it)) schedule)" using that by auto
    then obtain j item where item: "(j, item) \<in> set scheduled" "rc_entryId item = rc_entryId it"
      "rc_threadKey item = rc_threadKey it" unfolding items by auto
    then have "map_get scheduled j = Some item" using wf item(1) by (intro map_of_is_SomeI)
    then show ?thesis using keyed item(2,3) by metis
  qed
  have in_plan: "\<exists>it\<in>set schedule. rc_entryId it = i" if i: "map_get pending i = Some item" for i item
  proof -
    obtain item' where s: "map_get scheduled i = Some item'" using live(2) [OF i] by blast
    have "item' \<in> set (map_vals scheduled)" using map_of_SomeD [OF s] by force
    moreover have "keep item'" using keyed [OF s] i by (simp add: keep_def map_has_def)
    ultimately have "(i, rc_threadKey item') \<in> set (map (\<lambda>it. (rc_entryId it, rc_threadKey it)) schedule)"
      unfolding items using keyed [OF s] by auto
    then show ?thesis by auto
  qed
  have has: "map_has ?p i \<longleftrightarrow> map_has pending i" for i
  proof -
    have "map_has ?p i \<longleftrightarrow> (\<exists>it\<in>set schedule. map_has pending (rc_entryId it) \<and> rc_entryId it = i)"
      by (auto simp: gate_file_has)
    then show ?thesis using in_plan unfolding map_has_def by fastforce
  qed
  have 1: "gate_ok (rg_gate ?r)"
  proof -
    have "map_has ?p i0" using has [of i0] i0 by (simp add: map_has_def)
    then have "?p \<noteq> []" by (metis map_has_Nil)
    moreover have "map_has ?p i \<longrightarrow> map_has ?s i" for i by (auto simp: gate_file_has)
    ultimately show ?thesis by (simp add: new)
  qed
  have 2: "gate_wf (rg_gate ?r)" by (simp add: new gate_wf_def wf_gate_file)
  have 3: "gate_live ?r"
    unfolding gate_live_def
  proof (intro allI impI)
    fix i it
    assume "pending_at (rg_gate ?r) i = Some it"
    then have it: "map_get ?p i = Some it" by (simp add: new pending_at_def)
    then have it': "it \<in> set schedule" "rc_entryId it = i" using gate_file_get [OF it] by auto
    have "map_has pending i" using has it by (auto simp: map_has_def)
    then obtain item where item: "map_get pending i = Some item" by (auto simp: map_has_def)
    have key: "rc_threadKey x = rc_threadKey item" if "x \<in> set schedule" "rc_entryId x = i" for x
      using from_plan [OF that(1)] that(2) live(2) [OF item] by auto
    have "map_has ?s i" using it' by (auto simp: gate_file_has)
    then obtain it2 where it2: "map_get ?s i = Some it2" by (auto simp: map_has_def)
    then have "it2 \<in> set schedule" "rc_entryId it2 = i" using gate_file_get [OF it2] by auto
    then have "rc_threadKey it2 = rc_threadKey it" using key it' by simp
    moreover have "(i, True) \<in># live_tags (rg_world r) (rc_threadKey it)" using live(1) [OF item] key [OF it'] by simp
    moreover have "rc_entryId item' = j" if "map_get ?s j = Some item'" for j item'
      using gate_file_get [OF that] by auto
    ultimately show "(i, True) \<in># live_tags (rg_world ?r) (rc_threadKey it)
      \<and> (\<exists>item'. scheduled_at (rg_gate ?r) i = Some item' \<and> rc_threadKey item' = rc_threadKey it)
      \<and> (\<forall>j item'. scheduled_at (rg_gate ?r) j = Some item' \<longrightarrow> rc_entryId item' = j)"
      using it2 by (simp add: new scheduled_at_def)
  qed
  show ?thesis using ok 1 2 3 by (simp add: registry_ok_def)
qed

lemma restored_present:
  "(\<forall>e\<in>set rs. P e \<and> e \<in> set (queue_of s (keyFor e))) \<Longrightarrow> (\<forall>e\<in>set es. P e) \<Longrightarrow>
   \<forall>e\<in>set (snd (foldl (restore_one front) (s, rs) es)).
     P e \<and> e \<in> set (queue_of (fst (foldl (restore_one front) (s, rs) es)) (keyFor e))"
proof (induction es arbitrary: s rs)
  case (Cons e es)
  obtain s1 rs1 where one: "restore_one front (s, rs) e = (s1, rs1)" by fastforce
  have "\<forall>x\<in>set rs1. P x \<and> x \<in> set (queue_of s1 (keyFor x))"
    using Cons.prems one by (auto simp: restore_one_def Let_def tq_view split: if_split_asm) (metis+)
  then show ?case using Cons.IH [of rs1 s1] Cons.prems(2) one by simp
qed simp

lemma plain_not_held [simp]: "\<not> en_held (restartQueuedEntry c)" "\<not> en_held (restartContinuationEntry c)"
  by (simp_all add: restartQueuedEntry_def restartContinuationEntry_def plain_entry_def split: option.split)

lemma live_in_queue: "e \<in> set (queue_of (w_queue w) (keyFor e)) \<Longrightarrow> en_restartContinuation e \<Longrightarrow>
    (en_id e, True) \<in># live_tags w (keyFor e)"
  by (force simp: live_tags_def ids_at_def)

lemma start_ok:
  assumes "list_all (\<lambda>e. \<not> en_held e) wakeups"
  shows "registry_ok (registry_start never inst pid live alive st wakeups)"
proof -
  obtain st' claimed where c: "claimOrphaned inst pid live alive st = (st', claimed)" by fastforce
  define es where "es = map restartQueuedEntry
    (sort_key (\<lambda>c. (saved_position c, sc_createdAt c)) (filter sc_isQueued claimed))"
  define cs where "cs = map restartContinuationEntry (filter (\<lambda>c. \<not> sc_isQueued c) claimed)"
  define w0 where "w0 = restored world_new (restoreProjectHeld turn_queue_new wakeups)"
  define w1 where "w1 = restored w0 (restoreQueued (w_queue w0) es)"
  define brought where "brought = restoreRestartContinuations (w_queue w1) cs"
  define w2 where "w2 = restored w1 brought"
  define items where "items = map (continuation_item never) (snd brought)"
  define r where "r = \<lparr>rg_world = w2, rg_gate = GateOpen, rg_dispatchStarted = False, rg_timers = [],
      rg_store = st', rg_durable = foldl (\<lambda>m c. map_set m (sc_id c) c) [] claimed\<rparr>"
  have start: "registry_start never inst pid live alive st wakeups = (if snd brought = [] then r
      else (applyRestartGate r (GateRestore items (of_int never)))\<lparr>rg_timers := [FallbackTimer]\<rparr>)"
    by (simp add: registry_start_def Let_def c es_def cs_def w0_def w1_def w2_def brought_def items_def r_def)
  have "queue_reachable w0"
    using reach_step [OF reach_new, of "ARestoreProjectHeld wakeups" demo_env] assms
    by (simp add: w0_def world_new_def)
  then have "queue_reachable w1"
    using reach_step [of w0 "ARestoreQueued es" demo_env] by (simp add: w1_def es_def list_all_iff)
  then have reach: "queue_reachable w2"
    using reach_step [of w1 "ARestoreContinuations cs" demo_env]
    by (simp add: w2_def brought_def cs_def list_all_iff)
  have present: "\<forall>e\<in>set (snd brought). en_restartContinuation e \<and> e \<in> set (queue_of (fst brought) (keyFor e))"
    unfolding brought_def restoreRestartContinuations_def
    by (rule restored_present) (simp_all add: cs_def)
  show ?thesis
  proof (cases "snd brought = []")
    case True
    then show ?thesis using reach by (simp add: start registry_ok_def r_def gate_wf_def gate_live_def pending_at_def)
  next
    case False
    let ?g = "gate_file [] items"
    have ne: "?g \<noteq> []"
    proof -
      obtain e where "e \<in> set (snd brought)" using False by (metis list.set_intros(1) neq_Nil_conv)
      then have "map_has ?g (en_id e)" by (force simp: gate_file_has items_def continuation_item_def)
      then show ?thesis by (metis map_has_Nil)
    qed
    have gate: "transitionRestartGate GateOpen (GateRestore items (of_int never)) = GateResuming ?g ?g (of_int never)"
      using ne by simp
    let ?r = "applyRestartGate r (GateRestore items (of_int never))"
    have fields: "rg_gate ?r = GateResuming ?g ?g (of_int never)" "rg_world ?r = w2"
      using gate by (simp_all add: applyRestartGate_def Let_def r_def isRestartGateClosed_def)
    have "gate_live ?r"
      unfolding gate_live_def
    proof (intro allI impI)
      fix i item
      assume "pending_at (rg_gate ?r) i = Some item"
      then have it: "map_get ?g i = Some item" unfolding fields by (simp add: pending_at_def)
      then obtain e where e: "e \<in> set (snd brought)" "item = continuation_item never e" "en_id e = i"
        using gate_file_get [OF it] by (auto simp: items_def continuation_item_def)
      have "w_queue w2 = fst brought" by (simp add: w2_def restored_def with_queue_def accept_def)
      then have "(i, True) \<in># live_tags w2 (rc_threadKey item)"
        using present e live_in_queue [of e w2] by (simp add: continuation_item_def)
      moreover have "rc_entryId it = j" if "map_get ?g j = Some it" for j it
        using gate_file_get [OF that] by auto
      ultimately show "(i, True) \<in># live_tags (rg_world ?r) (rc_threadKey item)
        \<and> (\<exists>item'. scheduled_at (rg_gate ?r) i = Some item' \<and> rc_threadKey item' = rc_threadKey item)
        \<and> (\<forall>j item'. scheduled_at (rg_gate ?r) j = Some item' \<longrightarrow> rc_entryId item' = j)"
        using it unfolding fields by (simp add: scheduled_at_def)
    qed
    then have "registry_ok ?r"
      using reach ne wf_gate_file [of "[]" items] unfolding registry_ok_def fields by (simp add: gate_wf_def)
    then show ?thesis using False registry_ok_same [of ?r] by (simp add: start)
  qed
qed

lemma reachable_registry_ok: "registry_reachable never r \<Longrightarrow> registry_ok r"
proof (induction rule: registry_reachable.induct)
  case (rg_start wakeups inst pid live alive st)
  then show ?case by (rule start_ok)
next
  case (rg_step r ev)
  note ok = rg_step.IH
  show ?case
  proof (cases ev)
    case (RgQueue base a now)
    then show ?thesis using queue_step_ok [OF ok rg_step.hyps(2) [OF RgQueue]] by simp
  next
    case (RgBegin random opts)
    then show ?thesis using begin_ok [OF ok] by simp
  next
    case (RgTimer random opts n now)
    let ?r = "r\<lparr>rg_timers := remove_at n (rg_timers r)\<rparr>"
    have ok': "registry_ok ?r" using ok registry_ok_same [of r ?r] by simp
    have "registry_ok (?r\<lparr>rg_world := with_queue (rg_world ?r) (scheduleThreadDrain (w_queue (rg_world ?r)) b t)\<rparr>)" for b t
    proof -
      have "queue_reachable (queue_do demo_env (rg_world r) (AThreadDrain b t))"
        using ok by (intro reach_step) (simp_all add: registry_ok_def)
      moreover have "live_tags (with_queue (rg_world r) (scheduleThreadDrain (w_queue (rg_world r)) b t)) k
          = live_tags (rg_world r) k" for k
        by (simp add: live_tags_def with_queue_def scheduleThreadDrain_def tq_view)
      ultimately show ?thesis using ok by (simp add: registry_ok_def gate_live_def)
    qed
    then have "registry_ok (fire_timer random opts ?r x now)" for x
      using begin_ok [OF ok'] apply_ok [OF ok'] by (cases x) auto
    then show ?thesis using RgTimer ok by simp
  next
    case (RgSave inst pid uuid body stoppedAt targets)
    then show ?thesis using ok registry_ok_same [of r]
      by (simp add: saveRestartContinuations_def Let_def split: prod.split)
  next
    case (RgRefresh inst pid)
    then show ?thesis using ok registry_ok_same [of r] by (simp add: refreshRestartQueuedEntries_def Let_def)
  qed (use apply_ok [OF ok] in auto)
qed

text \<open>
  The gate never waits for a continuation that is gone. Whatever the queue, the backend, the
  operator and the timers do after a launch, while the gate is resuming it waits for at least one
  continuation, and each one it waits for is still in its thread's queue or in a backend call, so
  its settling will be seen.
\<close>

theorem gate_waits_for_live_continuations:
  assumes "registry_reachable never r" "rg_gate r = GateResuming pending scheduled releaseBy"
  shows "pending \<noteq> [] \<and> (\<forall>i item. map_get pending i = Some item \<longrightarrow>
    (\<exists>e. en_id e = i \<and> en_restartContinuation e \<and> keyFor e = rc_threadKey item
       \<and> e \<in> set (queue_of (w_queue (rg_world r)) (rc_threadKey item)) \<union> set (out_entries (w_flights (rg_world r)))))"
proof -
  have ok: "registry_ok r" by (rule reachable_registry_ok [OF assms(1)])
  have "pending \<noteq> []" using ok assms(2) by (simp add: registry_ok_def)
  moreover have "\<exists>e. en_id e = i \<and> en_restartContinuation e \<and> keyFor e = rc_threadKey item
       \<and> e \<in> set (queue_of (w_queue (rg_world r)) (rc_threadKey item)) \<union> set (out_entries (w_flights (rg_world r)))"
    if "map_get pending i = Some item" for i item
  proof -
    have "(i, True) \<in># live_tags (rg_world r) (rc_threadKey item)"
      using ok that assms(2) by (simp add: registry_ok_def gate_live_def pending_at_def)
    then show ?thesis unfolding live_tags_def ids_at_def by auto
  qed
  ultimately show ?thesis by blast
qed

definition demo_started :: registry where
  "demo_started = registry_start 1000000 ''new'' 8 {} (\<lambda>_. False) [(''r'', \<lparr>rr_owner = ''old'', rr_pid = 7,
     rr_createdAt = 1, rr_payload = \<lparr>sc_id = ''r'', sc_backend = ''codex'', sc_threadId = ''t1'',
       sc_messageOrigin = None, sc_input = [], sc_createdAt = 1, sc_isQueued = False, sc_queued = None\<rparr>\<rparr>)] []"

theorem gate_waits_for_live_continuations_witness:
  "\<exists>pending scheduled releaseBy. rg_gate demo_started = GateResuming pending scheduled releaseBy \<and> pending \<noteq> []"
proof -
  have reach: "registry_reachable 1000000 demo_started" unfolding demo_started_def by (rule rg_start) simp
  have "case rg_gate demo_started of GateResuming p s t \<Rightarrow> True | _ \<Rightarrow> False" by code_simp
  then obtain pending scheduled releaseBy where g: "rg_gate demo_started = GateResuming pending scheduled releaseBy"
    by (auto split: restart_gate.split_asm)
  from gate_waits_for_live_continuations [OF reach g] g show ?thesis by blast
qed

subsection \<open>An opening gate\<close>

lemma drain_timers_mono: "k \<in> drainTimers s \<Longrightarrow> k \<in> drainTimers (foldl scheduleDrain s ks)"
  by (induction ks arbitrary: s) (simp_all add: scheduleDrain_def)

lemma scheduled_drains: "\<not> turn_queue.closed s \<Longrightarrow> k \<in> set ks \<Longrightarrow> k \<in> drainTimers (foldl scheduleDrain s ks)"
proof (induction ks arbitrary: s)
  case (Cons j ks)
  have "\<not> turn_queue.closed (scheduleDrain s j)" using Cons.prems(1) by (simp add: scheduleDrain_def)
  moreover have "j \<in> drainTimers (scheduleDrain s j)" using Cons.prems(1) by (simp add: scheduleDrain_def)
  ultimately show ?case using Cons drain_timers_mono by auto
qed simp

definition every_queue_due :: "turn_queue \<Rightarrow> bool" where
  "every_queue_due s \<longleftrightarrow> turn_queue.closed s \<or> (\<forall>k. queue_of s k \<noteq> [] \<longrightarrow> k \<in> drainTimers s)"

lemma drainAll_due: "every_queue_due (drainAll s)"
proof (cases "turn_queue.closed s")
  case True
  then have "turn_queue.closed (foldl scheduleDrain s ks)" for ks
    by (induction ks) (simp_all add: scheduleDrain_def)
  then show ?thesis by (simp add: every_queue_due_def drainAll_def)
next
  case False
  have "k \<in> drainTimers (drainAll s)" if "queue_of (drainAll s) k \<noteq> []" for k
  proof -
    have "queue_of s k \<noteq> []" using that untouchedD(1) [OF untouched_drainAll] by simp
    then have "k \<in> set (map_keys (queuedEntries s))"
      by (force simp: queue_of_def or_else_def split: option.split_asm dest: map_of_SomeD)
    then show ?thesis using scheduled_drains [OF False] by (simp add: drainAll_def)
  qed
  then show ?thesis by (simp add: every_queue_due_def)
qed

lemma apply_opens:
  "isRestartGateClosed (rg_gate r) \<Longrightarrow> \<not> isRestartGateClosed (rg_gate (applyRestartGate r ev)) \<Longrightarrow>
   every_queue_due (w_queue (rg_world (applyRestartGate r ev)))"
  by (simp add: applyRestartGate_def Let_def with_queue_def drainAll_due split: if_split_asm)

lemma track_when_open:
  "rg_gate r = GateOpen \<Longrightarrow> rg_gate (trackRestartContinuation r ev) = GateOpen
     \<and> rg_world (trackRestartContinuation r ev) = rg_world r"
  by (simp add: trackRestartContinuation_def applyRestartGate_def Let_def isRestartGateClosed_def)

lemma tracks_when_open:
  "rg_gate r = GateOpen \<Longrightarrow> rg_world (foldl trackRestartContinuation r evs) = rg_world r"
  by (induction evs arbitrary: r) (simp_all add: track_when_open)

lemma track_opens:
  assumes "isRestartGateClosed (rg_gate r)" "\<not> isRestartGateClosed (rg_gate (trackRestartContinuation r ev))"
  shows "every_queue_due (w_queue (rg_world (trackRestartContinuation r ev)))"
proof -
  have "isRestartGateClosed (rg_gate (forgetRestartContinuation r i))" for i using assms(1) by simp
  then show ?thesis
    using assms unfolding trackRestartContinuation_def Let_def by (auto intro: apply_opens split: if_split_asm)
qed

lemma tracks_open:
  assumes "isRestartGateClosed (rg_gate r)" "\<not> isRestartGateClosed (rg_gate (foldl trackRestartContinuation r evs))"
  shows "every_queue_due (w_queue (rg_world (foldl trackRestartContinuation r evs)))"
  using assms
proof (induction evs arbitrary: r)
  case (Cons ev evs)
  let ?r = "trackRestartContinuation r ev"
  show ?case
  proof (cases "isRestartGateClosed (rg_gate ?r)")
    case True
    then show ?thesis using Cons by simp
  next
    case False
    then have "rg_world (foldl trackRestartContinuation ?r evs) = rg_world ?r"
      by (intro tracks_when_open) (simp add: isRestartGateClosed_def)
    then show ?thesis using track_opens [OF Cons.prems(1) False] by simp
  qed
qed simp

lemma begin_closed:
  "isRestartGateClosed (rg_gate r) \<Longrightarrow> isRestartGateClosed (rg_gate (beginRestartContinuationDispatch random opts r))"
  by (simp add: beginRestartContinuationDispatch_def isRestartGateClosed_def Let_def split: restart_gate.split prod.split)

text \<open>
  C26: An opening gate forgets no queue. Whatever opens it - the last continuation settling, the
  release deadline, a cancelled quit - every thread whose queue holds an entry has a drain scheduled
  at that moment, unless the queue has been closed, so nothing stays behind a gate that is gone.
\<close>

theorem opening_gate_drains_every_queue:
  assumes "isRestartGateClosed (rg_gate r)" "\<not> isRestartGateClosed (rg_gate (registry_step r ev))"
    and "\<not> turn_queue.closed (w_queue (rg_world (registry_step r ev)))"
    and "queue_of (w_queue (rg_world (registry_step r ev))) k \<noteq> []"
  shows "k \<in> drainTimers (w_queue (rg_world (registry_step r ev)))"
proof -
  have "every_queue_due (w_queue (rg_world (registry_step r ev)))"
  proof (cases ev)
    case (RgQueue base a now)
    then show ?thesis using assms(1,2) tracks_open [of "r\<lparr>rg_world := queue_do (wired_env base (rg_gate r) now) (rg_world r) a\<rparr>"]
      by (simp add: queue_step_def Let_def)
  next
    case (RgBegin random opts)
    then show ?thesis using begin_closed [OF assms(1)] assms(2) by simp
  next
    case (RgTimer random opts n now)
    let ?r = "r\<lparr>rg_timers := remove_at n (rg_timers r)\<rparr>"
    have c: "isRestartGateClosed (rg_gate ?r)" using assms(1) by simp
    have "rg_gate r \<noteq> GateOpen" using assms(1) by (simp add: isRestartGateClosed_def)
    then show ?thesis using RgTimer assms(2) apply_opens [OF c, of "GateDeadline (of_int now)"]
        begin_closed [OF c, of random opts]
      by (cases "rg_timers r ! n") (auto simp: isRestartGateClosed_def split: if_split_asm)
  next
    case RgRelease
    then show ?thesis using apply_opens [OF assms(1)] assms(2) by simp
  next
    case (RgQuiet now)
    then show ?thesis using apply_opens [OF assms(1)] assms(2) by simp
  qed (use assms(1,2) in \<open>auto simp: saveRestartContinuations_def refreshRestartQueuedEntries_def Let_def
        split: prod.split_asm if_split_asm\<close>)
  then show ?thesis using assms(3,4) by (simp add: every_queue_due_def)
qed

theorem opening_gate_drains_every_queue_witness:
  "''codex:t1'' \<in> drainTimers (w_queue (rg_world (registry_step demo_due RgRelease)))"
proof -
  have step: "rg_gate (registry_step demo_due RgRelease) = GateOpen"
    "w_queue (rg_world (registry_step demo_due RgRelease)) = drainAll (w_queue (rg_world demo_due))"
    using demo_due_gate by (simp_all add: demo_gate_def applyRestartGate_def Let_def with_queue_def isRestartGateClosed_def)
  have c: "\<not> turn_queue.closed (drainAll (w_queue (rg_world demo_due)))" by code_simp
  have ids: "map en_id (queue_of (drainAll (w_queue (rg_world demo_due))) ''codex:t1'') = [''r'']" by code_simp
  show ?thesis
    by (rule opening_gate_drains_every_queue)
      (use step c ids demo_due_gate in \<open>auto simp: isRestartGateClosed_def simp del: registry_step.simps\<close>)
qed

end
