(* ===== verification/BlobReceiver.thy ===== *)
theory BlobReceiver
  imports Prelude "HOL-Library.Word"
begin

text \<open>
  The receiver of resumable file transfers between two instances
  (federation/src/federation-resumable-blob.ts). The receiver's calls are queued by its owner, so each
  is one step; the disk is a map from transfer folders to their \<open>data.part\<close>, of which a prefix has
  reached the disk, and \<open>offset.json\<close>, which a rename replaces at once. Published files keep their own
  copy of the bytes: a link shares them with \<open>data.part\<close>, which is not written any more. SHA-256, the
  folder name derived from peer, digest and size, and fresh transfer ids are parameters. A fault says
  where the file system fails a call.
\<close>

subsection \<open>Data\<close>

type_synonym byte = "8 word"

definition BLOB_CHUNK_BYTES :: nat where "BLOB_CHUNK_BYTES = 256 * 1024"
definition BLOB_WINDOW_CHUNKS :: nat where "BLOB_WINDOW_CHUNKS = 4"
definition BLOB_COMMIT_BYTES :: nat where "BLOB_COMMIT_BYTES = BLOB_CHUNK_BYTES * BLOB_WINDOW_CHUNKS"
definition BLOB_RETENTION_MS :: int where "BLOB_RETENTION_MS = 24 * 60 * 60 * 1000"
definition BLOB_MAX_BYTES :: int where "BLOB_MAX_BYTES = 512 * 1024 * 1024"

record file_push_result =
  fp_path :: string
  fp_sizeBytes :: nat
  fp_sha256 :: string

record sidecar =
  sd_peerId :: string
  sd_senderToken :: "string option"
  sd_sha256 :: string
  sd_sizeBytes :: nat
  sd_name :: string
  sd_committedOffset :: nat
  sd_updatedAt :: int
  sd_result :: "file_push_result option"

datatype blob_error =
    InvalidIdentity | InvalidOwner | FolderNotAbsolute | TransferLimit | InvalidSidecar | OtherSend
  | BytesMissing | NotThisPeer | InvalidChunk | AppendFailed | SyncFailed | PersistFailed
  | IncompleteBlob | ShaMismatch | LinkFailed | DestinationDiffers

datatype fs_fault = NoFault | WriteFault nat | SyncFault | PersistFault bool | LinkFault

record transfer =
  tr_state :: sidecar
  tr_folder :: string
  tr_receivedOffset :: nat
  tr_failure :: "blob_error option"

record blob_folder =
  bf_sidecar :: "sidecar option"
  bf_data :: "byte list option"
  bf_synced :: nat
  bf_mtime :: int

record blob_receiver =
  br_transfers :: "(string, transfer) jsmap"
  br_disk :: "(string, blob_folder) jsmap"
  br_files :: "(string, byte list) jsmap"

record blob_identity =
  bi_sha256 :: string
  bi_sizeBytes :: int
  bi_senderToken :: "string option"

record blob_chunk_envelope =
  ce_filePush :: bool
  ce_transferId :: string
  ce_chunkIndex :: int
  ce_chunkCount :: int
  ce_totalSize :: int
  ce_sha256 :: string
  ce_data :: "byte list"

record blob_params =
  bp_hash :: "byte list \<Rightarrow> string"
  bp_key :: "string \<Rightarrow> string \<Rightarrow> nat \<Rightarrow> string"
  bp_directory :: string

subsection \<open>The folder of a transfer\<close>

definition lower_hex :: "char \<Rightarrow> bool" where
  "lower_hex c \<longleftrightarrow> c \<in> set ''0123456789abcdef''"

definition MAX_SAFE :: int where "MAX_SAFE = 9007199254740991"

definition contentKey :: "blob_params \<Rightarrow> string \<Rightarrow> blob_identity \<Rightarrow> blob_error + string" where
  "contentKey p peer i =
     (if length (bi_sha256 i) \<noteq> 64 \<or> \<not> list_all lower_hex (bi_sha256 i)
         \<or> bi_sizeBytes i < 0 \<or> bi_sizeBytes i > BLOB_MAX_BYTES then Inl InvalidIdentity
      else Inr (bp_key p peer (bi_sha256 i) (nat (bi_sizeBytes i))))"

definition valid_owner :: "string option \<Rightarrow> bool" where
  "valid_owner tok = (case tok of None \<Rightarrow> True
     | Some x \<Rightarrow> length x = 36 \<and> list_all (\<lambda>c. lower_hex c \<or> c = CHR ''-'') x)"

definition absolute_path :: "string \<Rightarrow> bool" where
  "absolute_path d \<longleftrightarrow> take 1 d = ''/''"

subsection \<open>Writes\<close>

definition put_transfer :: "blob_receiver \<Rightarrow> string \<Rightarrow> transfer \<Rightarrow> blob_receiver" where
  "put_transfer s i t = s\<lparr>br_transfers := map_set (br_transfers s) i t\<rparr>"

definition put_folder :: "blob_receiver \<Rightarrow> string \<Rightarrow> blob_folder \<Rightarrow> blob_receiver" where
  "put_folder s f fo = s\<lparr>br_disk := map_set (br_disk s) f fo\<rparr>"

definition no_folder :: "int \<Rightarrow> blob_folder" where
  "no_folder now = \<lparr>bf_sidecar = None, bf_data = None, bf_synced = 0, bf_mtime = now\<rparr>"

definition folder_at :: "blob_receiver \<Rightarrow> int \<Rightarrow> string \<Rightarrow> blob_folder" where
  "folder_at s now f = or_else (map_get (br_disk s) f) (no_folder now)"

definition data_of :: "blob_folder \<Rightarrow> byte list" where
  "data_of fo = or_else (bf_data fo) []"

text \<open>The sidecar is written beside, synced and renamed: it changes at once or, on a fault, not at all.\<close>

definition persist :: "fs_fault \<Rightarrow> int \<Rightarrow> blob_receiver \<Rightarrow> string \<Rightarrow> sidecar \<Rightarrow> blob_receiver \<times> bool" where
  "persist fl now s f st =
     (let fo = folder_at s now f;
          put = put_folder s f (fo\<lparr>bf_sidecar := Some (st\<lparr>sd_updatedAt := now\<rparr>), bf_mtime := now\<rparr>)
      in case fl of PersistFault renamed \<Rightarrow> (if renamed then put else s, False) | _ \<Rightarrow> (put, True))"

definition write_data :: "blob_receiver \<Rightarrow> int \<Rightarrow> string \<Rightarrow> nat \<Rightarrow> byte list \<Rightarrow> blob_receiver" where
  "write_data s now f off bs =
     (let fo = folder_at s now f; d = data_of fo; padded = d @ replicate (off - length d) 0
      in put_folder s f (fo\<lparr>bf_data := Some (take off padded @ bs @ drop (off + length bs) d)\<rparr>))"

definition sync_data :: "blob_receiver \<Rightarrow> int \<Rightarrow> string \<Rightarrow> blob_receiver" where
  "sync_data s now f = (let fo = folder_at s now f in put_folder s f (fo\<lparr>bf_synced := length (data_of fo)\<rparr>))"

definition commit :: "fs_fault \<Rightarrow> int \<Rightarrow> blob_receiver \<Rightarrow> string \<Rightarrow> transfer \<Rightarrow> blob_receiver \<times> transfer \<times> blob_error option" where
  "commit fl now s i t =
     (if fl = SyncFault then (s, t, Some SyncFailed)
      else let s1 = sync_data s now (tr_folder t);
               t1 = t\<lparr>tr_state := (tr_state t)\<lparr>sd_committedOffset := tr_receivedOffset t, sd_updatedAt := now\<rparr>\<rparr>;
               (s2, ok) = persist fl now (put_transfer s1 i t1) (tr_folder t) (tr_state t1)
           in (s2, t1, if ok then None else Some PersistFailed))"

subsection \<open>Calls\<close>

definition close_folder :: "(string, transfer) jsmap \<Rightarrow> string \<Rightarrow> (string, transfer) jsmap" where
  "close_folder ts f = filter (\<lambda>(_, t). tr_folder t \<noteq> f) ts"

text \<open>Folders untouched for a day go, with their transfers.\<close>

definition expired :: "int \<Rightarrow> blob_receiver \<Rightarrow> string \<times> blob_folder \<Rightarrow> bool" where
  "expired now s = (\<lambda>(f, fo).
     (\<forall>(_, t)\<in>set (br_transfers s). tr_folder t = f \<longrightarrow> sd_updatedAt (tr_state t) < now - BLOB_RETENTION_MS)
     \<and> (case bf_sidecar fo of Some sc \<Rightarrow> sd_updatedAt sc | None \<Rightarrow> bf_mtime fo) < now - BLOB_RETENTION_MS)"

definition drop_folder :: "blob_receiver \<Rightarrow> string \<Rightarrow> blob_receiver" where
  "drop_folder s f = s\<lparr>br_transfers := close_folder (br_transfers s) f, br_disk := map_del (br_disk s) f\<rparr>"

definition expire :: "int \<Rightarrow> blob_receiver \<Rightarrow> blob_receiver" where
  "expire now s = foldl (\<lambda>s' p. if expired now s' p then drop_folder s' (fst p) else s') s (br_disk s)"

definition sidecar_valid :: "string \<Rightarrow> blob_identity \<Rightarrow> sidecar \<Rightarrow> bool" where
  "sidecar_valid peer i sc \<longleftrightarrow> sd_peerId sc = peer \<and> sd_sha256 sc = bi_sha256 i
     \<and> int (sd_sizeBytes sc) = bi_sizeBytes i \<and> int (sd_committedOffset sc) \<le> bi_sizeBytes i
     \<and> (int (sd_committedOffset sc) = bi_sizeBytes i \<or> sd_committedOffset sc mod BLOB_COMMIT_BYTES = 0)"

definition begin_sidecar :: "int \<Rightarrow> string \<Rightarrow> blob_identity \<Rightarrow> string \<Rightarrow> sidecar option \<Rightarrow> blob_error + sidecar" where
  "begin_sidecar now peer i name stored = (case stored of
     None \<Rightarrow> Inr \<lparr>sd_peerId = peer, sd_senderToken = bi_senderToken i, sd_sha256 = bi_sha256 i,
       sd_sizeBytes = nat (bi_sizeBytes i), sd_name = name, sd_committedOffset = 0, sd_updatedAt = now, sd_result = None\<rparr>
   | Some sc \<Rightarrow>
      (if \<not> sidecar_valid peer i sc then Inl InvalidSidecar
       else if sd_senderToken sc \<noteq> bi_senderToken i \<and> sd_result sc = None then Inl OtherSend
       else Inr (sc\<lparr>sd_senderToken := bi_senderToken i\<rparr>)))"

definition open_transfer ::
  "fs_fault \<Rightarrow> int \<Rightarrow> string \<Rightarrow> blob_receiver \<Rightarrow> string \<Rightarrow> sidecar \<Rightarrow> blob_receiver \<times> (blob_error + string \<times> nat)" where
  "open_transfer fl now fresh s f st =
     (let fo = folder_at s now f;
          d = data_of fo;
          s1 = put_folder (s\<lparr>br_transfers := close_folder (br_transfers s) f\<rparr>) f
                 (fo\<lparr>bf_data := Some d, bf_mtime := (if bf_data fo = None then now else bf_mtime fo)\<rparr>)
      in if length d < sd_committedOffset st then (s1, Inl BytesMissing)
         else let s2 = put_folder s1 f ((folder_at s1 now f)\<lparr>bf_data := Some (take (sd_committedOffset st) d),
                         bf_synced := min (bf_synced fo) (sd_committedOffset st)\<rparr>);
                  (s3, ok) = persist fl now s2 f st
              in if \<not> ok then (s3, Inl PersistFailed)
                 else (put_transfer s3 (''blob:'' @ fresh) \<lparr>tr_state = st\<lparr>sd_updatedAt := now\<rparr>, tr_folder = f,
                         tr_receivedOffset = sd_committedOffset st, tr_failure = None\<rparr>,
                       Inr (''blob:'' @ fresh, sd_committedOffset st)))"

definition blob_begin ::
  "blob_params \<Rightarrow> fs_fault \<Rightarrow> int \<Rightarrow> string \<Rightarrow> blob_receiver \<Rightarrow> string \<Rightarrow> blob_identity \<Rightarrow> string \<Rightarrow>
   blob_receiver \<times> (blob_error + string \<times> nat)" where
  "blob_begin p fl now fresh s peer i name = (case contentKey p peer i of
     Inl e \<Rightarrow> (s, Inl e)
   | Inr f \<Rightarrow>
      (if \<not> valid_owner (bi_senderToken i) then (s, Inl InvalidOwner)
       else if \<not> absolute_path (bp_directory p) then (s, Inl FolderNotAbsolute)
       else let s1 = expire now s
            in if 4 \<le> length (br_transfers s1) \<and> list_all (\<lambda>(_, t). tr_folder t \<noteq> f) (br_transfers s1)
               then (s1, Inl TransferLimit)
               else let s2 = put_folder s1 f (folder_at s1 now f)
                    in case begin_sidecar now peer i name (bf_sidecar (folder_at s1 now f)) of
                         Inl e \<Rightarrow> (s2, Inl e)
                       | Inr st \<Rightarrow> open_transfer fl now fresh s2 f st))"

definition blob_get :: "blob_receiver \<Rightarrow> string \<Rightarrow> string \<Rightarrow> blob_error + transfer" where
  "blob_get s peer i = (case map_get (br_transfers s) i of
     None \<Rightarrow> Inl NotThisPeer
   | Some t \<Rightarrow> (if sd_peerId (tr_state t) \<noteq> peer then Inl NotThisPeer
      else case tr_failure t of Some e \<Rightarrow> Inl e | None \<Rightarrow> Inr t))"

definition chunk_ok :: "transfer \<Rightarrow> blob_chunk_envelope \<Rightarrow> bool" where
  "chunk_ok t env \<longleftrightarrow>
     (let st = tr_state t;
          offset = ce_chunkIndex env * int BLOB_CHUNK_BYTES;
          expected = min (int BLOB_CHUNK_BYTES) (int (sd_sizeBytes st) - offset)
      in sd_result st = None \<and> ce_filePush env \<and> \<bar>ce_chunkIndex env\<bar> \<le> MAX_SAFE
         \<and> offset = int (tr_receivedOffset t) \<and> expected > 0 \<and> int (length (ce_data env)) = expected
         \<and> ce_totalSize env = int (sd_sizeBytes st) \<and> ce_sha256 env = sd_sha256 st
         \<and> ce_chunkCount env = int ((sd_sizeBytes st + BLOB_CHUNK_BYTES - 1) div BLOB_CHUNK_BYTES))"

definition fail_transfer :: "blob_receiver \<Rightarrow> string \<Rightarrow> transfer \<Rightarrow> blob_error \<Rightarrow> blob_receiver \<times> (blob_error + unit)" where
  "fail_transfer s i t e = (put_transfer s i (t\<lparr>tr_failure := Some e\<rparr>), Inl e)"

definition blob_chunk ::
  "fs_fault \<Rightarrow> int \<Rightarrow> blob_receiver \<Rightarrow> string \<Rightarrow> blob_chunk_envelope \<Rightarrow> blob_receiver \<times> (blob_error + unit)" where
  "blob_chunk fl now s peer env = (case blob_get s peer (ce_transferId env) of
     Inl e \<Rightarrow> (s, Inl e)
   | Inr t \<Rightarrow>
      (let i = ce_transferId env; off = tr_receivedOffset t; f = tr_folder t
       in if \<not> chunk_ok t env then fail_transfer s i t InvalidChunk
          else case fl of
            WriteFault k \<Rightarrow> fail_transfer (write_data s now f off (take k (ce_data env))) i t AppendFailed
          | _ \<Rightarrow>
            (let s1 = write_data s now f off (ce_data env);
                 t1 = t\<lparr>tr_receivedOffset := off + length (ce_data env), tr_state := (tr_state t)\<lparr>sd_updatedAt := now\<rparr>\<rparr>;
                 s2 = put_transfer s1 i t1
             in if BLOB_COMMIT_BYTES \<le> tr_receivedOffset t1 - sd_committedOffset (tr_state t)
                   \<or> tr_receivedOffset t1 = sd_sizeBytes (tr_state t)
                then (case commit fl now s2 i t1 of
                        (s3, t2, Some e) \<Rightarrow> fail_transfer s3 i t2 e
                      | (s3, t2, None) \<Rightarrow> (s3, Inr ()))
                else (s2, Inr ()))))"

definition blob_checkpoint :: "blob_receiver \<Rightarrow> string \<Rightarrow> string \<Rightarrow> blob_error + nat \<times> nat" where
  "blob_checkpoint s peer i = (case blob_get s peer i of
     Inl e \<Rightarrow> Inl e
   | Inr t \<Rightarrow> Inr (tr_receivedOffset t, sd_committedOffset (tr_state t)))"

text \<open>\<open>path.extname\<close> of a plain file name: from its last dot, unless that begins the name.\<close>

definition extname :: "string \<Rightarrow> string" where
  "extname n =
     (let ext = rev (takeWhile (\<lambda>c. c \<noteq> CHR ''.'') (rev n))
      in if length n - length ext \<le> 1 \<or> n = ''..'' then [] else CHR ''.'' # ext)"

definition destination :: "blob_params \<Rightarrow> string \<Rightarrow> string \<Rightarrow> string" where
  "destination p f name =
     (let ext = extname name
      in bp_directory p @ ''/'' @ take (length name - length ext) name @ '' ('' @ take 16 f @ '')'' @ ext)"

definition publish :: "blob_params \<Rightarrow> fs_fault \<Rightarrow> int \<Rightarrow> blob_receiver \<Rightarrow> transfer \<Rightarrow> blob_receiver \<times> (blob_error + string)" where
  "publish p fl now s t =
     (let st = tr_state t; d = data_of (folder_at s now (tr_folder t)); dest = destination p (tr_folder t) (sd_name st)
      in if bp_hash p d \<noteq> sd_sha256 st then (s, Inl ShaMismatch)
         else if fl = LinkFault then (s, Inl LinkFailed)
         else case map_get (br_files s) dest of
             None \<Rightarrow> (s\<lparr>br_files := map_set (br_files s) dest d\<rparr>, Inr dest)
           | Some b \<Rightarrow> (if length b \<noteq> sd_sizeBytes st \<or> bp_hash p b \<noteq> sd_sha256 st
                        then (s, Inl DestinationDiffers) else (s, Inr dest)))"

definition close_transfer :: "blob_receiver \<Rightarrow> string \<Rightarrow> blob_receiver" where
  "close_transfer s i = s\<lparr>br_transfers := map_del (br_transfers s) i\<rparr>"

definition blob_finish ::
  "blob_params \<Rightarrow> fs_fault \<Rightarrow> int \<Rightarrow> blob_receiver \<Rightarrow> string \<Rightarrow> string \<Rightarrow> blob_receiver \<times> (blob_error + file_push_result)" where
  "blob_finish p fl now s peer i = (case blob_get s peer i of
     Inl e \<Rightarrow> (s, Inl e)
   | Inr t0 \<Rightarrow>
      (let kept = Option.bind (sd_result (tr_state t0)) (\<lambda>r. if map_has (br_files s) (fp_path r) then Some r else None);
           t = t0\<lparr>tr_state := (tr_state t0)\<lparr>sd_result := kept\<rparr>\<rparr>;
           s0 = put_transfer s i t
       in case kept of
            Some r \<Rightarrow> (close_transfer s0 i, Inr r)
          | None \<Rightarrow>
             (if tr_receivedOffset t \<noteq> sd_sizeBytes (tr_state t) then (s0, Inl IncompleteBlob)
              else case commit fl now s0 i t of
                (s1, t1, Some e) \<Rightarrow> (s1, Inl e)
              | (s1, t1, None) \<Rightarrow>
                 (case publish p fl now s1 t1 of
                    (s2, Inl e) \<Rightarrow> (s2, Inl e)
                  | (s2, Inr dest) \<Rightarrow>
                     (let r = \<lparr>fp_path = dest, fp_sizeBytes = sd_sizeBytes (tr_state t1), fp_sha256 = sd_sha256 (tr_state t1)\<rparr>;
                          t2 = t1\<lparr>tr_state := (tr_state t1)\<lparr>sd_result := Some r\<rparr>\<rparr>;
                          (s3, ok) = persist fl now (put_transfer s2 i t2) (tr_folder t2) (tr_state t2)
                      in if ok then (close_transfer s3 i, Inr r) else (s3, Inl PersistFailed))))))"

definition blob_cancel :: "blob_params \<Rightarrow> blob_receiver \<Rightarrow> string \<Rightarrow> blob_identity \<Rightarrow> blob_receiver \<times> (blob_error + unit)" where
  "blob_cancel p s peer i = (case contentKey p peer i of
     Inl e \<Rightarrow> (s, Inl e)
   | Inr f \<Rightarrow>
      (case Option.bind (map_get (br_disk s) f) bf_sidecar of
         Some sc \<Rightarrow> if sd_senderToken sc \<noteq> bi_senderToken i then (s, Inr ()) else (drop_folder s f, Inr ())
       | None \<Rightarrow> (drop_folder s f, Inr ())))"

text \<open>A closing connection keeps what its transfers have committed; \<open>faults\<close> says whose write fails.\<close>

definition suspend_one :: "(string \<Rightarrow> fs_fault) \<Rightarrow> int \<Rightarrow> blob_receiver \<Rightarrow> string \<times> transfer \<Rightarrow> blob_receiver" where
  "suspend_one faults now s = (\<lambda>(i, t). close_transfer (fst (persist (faults i) now s (tr_folder t) (tr_state t))) i)"

definition blob_disconnect :: "(string \<Rightarrow> fs_fault) \<Rightarrow> int \<Rightarrow> blob_receiver \<Rightarrow> string \<Rightarrow> blob_receiver" where
  "blob_disconnect faults now s peer =
     foldl (suspend_one faults now) s (filter (\<lambda>(_, t). sd_peerId (tr_state t) = peer) (br_transfers s))"

definition blob_dispose :: "(string \<Rightarrow> fs_fault) \<Rightarrow> int \<Rightarrow> blob_receiver \<Rightarrow> blob_receiver" where
  "blob_dispose faults now s = foldl (suspend_one faults now) s (br_transfers s)"

subsection \<open>Histories\<close>

text \<open>
  A crash loses the transfers, and of every \<open>data.part\<close> keeps what was synced, followed by any bytes.
  The operator may move a published file away.
\<close>

definition crash_folder :: "(string \<Rightarrow> byte list) \<Rightarrow> string \<times> blob_folder \<Rightarrow> string \<times> blob_folder" where
  "crash_folder junk = (\<lambda>(f, fo). (f, fo\<lparr>bf_data := map_option (\<lambda>d. take (bf_synced fo) d @ junk f) (bf_data fo)\<rparr>))"

definition blob_crash :: "(string \<Rightarrow> byte list) \<Rightarrow> blob_receiver \<Rightarrow> blob_receiver" where
  "blob_crash junk s = s\<lparr>br_transfers := [], br_disk := map (crash_folder junk) (br_disk s)\<rparr>"

datatype blob_call =
    BlBegin string string blob_identity string
  | BlChunk string blob_chunk_envelope
  | BlFinish string string
  | BlCancel string blob_identity
  | BlDisconnect string "string \<Rightarrow> fs_fault"
  | BlExpire
  | BlCrash "string \<Rightarrow> byte list"
  | BlMoved string

fun blob_do :: "blob_params \<Rightarrow> blob_receiver \<Rightarrow> fs_fault \<times> int \<times> blob_call \<Rightarrow> blob_receiver" where
  "blob_do p s (fl, now, BlBegin fresh peer i name) = fst (blob_begin p fl now fresh s peer i name)"
| "blob_do p s (fl, now, BlChunk peer env) = fst (blob_chunk fl now s peer env)"
| "blob_do p s (fl, now, BlFinish peer i) = fst (blob_finish p fl now s peer i)"
| "blob_do p s (fl, now, BlCancel peer i) = fst (blob_cancel p s peer i)"
| "blob_do p s (fl, now, BlDisconnect peer faults) = blob_disconnect faults now s peer"
| "blob_do p s (fl, now, BlExpire) = expire now s"
| "blob_do p s (fl, now, BlCrash junk) = blob_crash junk s"
| "blob_do p s (fl, now, BlMoved path) = s\<lparr>br_files := map_del (br_files s) path\<rparr>"

definition blob_new :: blob_receiver where
  "blob_new = \<lparr>br_transfers = [], br_disk = [], br_files = []\<rparr>"

text \<open>The equations that run the receiver on a concrete input.\<close>

lemmas blob_eval = blob_begin_def contentKey_def BLOB_MAX_BYTES_def list_all_iff lower_hex_def valid_owner_def
  absolute_path_def expire_def blob_new_def Let_def folder_at_def or_else_def no_folder_def begin_sidecar_def
  open_transfer_def data_of_def persist_def put_folder_def put_transfer_def close_folder_def blob_chunk_def
  blob_get_def chunk_ok_def BLOB_CHUNK_BYTES_def BLOB_WINDOW_CHUNKS_def BLOB_COMMIT_BYTES_def MAX_SAFE_def
  write_data_def commit_def sync_data_def fail_transfer_def blob_finish_def publish_def close_transfer_def
  destination_def extname_def map_has_def expired_def BLOB_RETENTION_MS_def sidecar_valid_def blob_crash_def
  crash_folder_def blob_checkpoint_def

end
