(* ===== verification/BlobReceiverProps.thy ===== *)
theory BlobReceiverProps
  imports BlobReceiver
begin

text \<open>
  What the receiver of resumable files keeps through any calls, faults and crashes: a committed byte
  is a synced byte, transfers never share a folder, a sidecar's offset is one the sender may resume
  from, and a published file has the announced digest and size.
\<close>

declare map_of_eq_Some_iff [simp del]

subsection \<open>The invariant\<close>

definition ident :: "sidecar \<Rightarrow> string \<times> string \<times> nat" where
  "ident st = (sd_peerId st, sd_sha256 st, sd_sizeBytes st)"

definition boundary :: "nat \<Rightarrow> nat \<Rightarrow> bool" where
  "boundary n off \<longleftrightarrow> off \<le> n \<and> (off = n \<or> off mod BLOB_COMMIT_BYTES = 0)"

text \<open>\<open>C\<close> is the content honest senders send under the identities \<open>I\<close>.\<close>

definition folder_ok :: "byte list \<Rightarrow> (string \<times> string \<times> nat) set \<Rightarrow> blob_folder \<Rightarrow> bool" where
  "folder_ok C I fo \<longleftrightarrow> bf_synced fo \<le> length (data_of fo) \<and>
     (\<forall>sc. bf_sidecar fo = Some sc \<longrightarrow> sd_committedOffset sc \<le> bf_synced fo
        \<and> boundary (sd_sizeBytes sc) (sd_committedOffset sc)
        \<and> (sd_result sc \<noteq> None \<longrightarrow> sd_committedOffset sc = sd_sizeBytes sc)
        \<and> (ident sc \<in> I \<longrightarrow> take (sd_committedOffset sc) (data_of fo) = take (sd_committedOffset sc) C))"

definition transfer_ok :: "byte list \<Rightarrow> (string \<times> string \<times> nat) set \<Rightarrow> blob_folder \<Rightarrow> transfer \<Rightarrow> bool" where
  "transfer_ok C I fo t \<longleftrightarrow>
     (\<exists>sc. bf_sidecar fo = Some sc \<and> ident sc = ident (tr_state t) \<and> sd_committedOffset sc \<le> sd_committedOffset (tr_state t))
     \<and> sd_committedOffset (tr_state t) \<le> bf_synced fo
     \<and> sd_committedOffset (tr_state t) \<le> tr_receivedOffset t
     \<and> boundary (sd_sizeBytes (tr_state t)) (sd_committedOffset (tr_state t))
     \<and> (sd_result (tr_state t) \<noteq> None \<longrightarrow> sd_committedOffset (tr_state t) = sd_sizeBytes (tr_state t))
     \<and> tr_receivedOffset t \<le> sd_sizeBytes (tr_state t)
     \<and> tr_receivedOffset t \<le> length (data_of fo)
     \<and> (tr_receivedOffset t = sd_sizeBytes (tr_state t) \<or> tr_receivedOffset t mod BLOB_CHUNK_BYTES = 0)
     \<and> (tr_failure t = None \<longrightarrow> length (data_of fo) = tr_receivedOffset t
          \<and> tr_receivedOffset t - sd_committedOffset (tr_state t) < BLOB_COMMIT_BYTES)
     \<and> (ident (tr_state t) \<in> I \<longrightarrow> take (tr_receivedOffset t) (data_of fo) = take (tr_receivedOffset t) C)"

definition receiver_ok :: "byte list \<Rightarrow> (string \<times> string \<times> nat) set \<Rightarrow> blob_receiver \<Rightarrow> bool" where
  "receiver_ok C I s \<longleftrightarrow> wf_map (br_transfers s) \<and> wf_map (br_disk s)
     \<and> (\<forall>f fo. map_get (br_disk s) f = Some fo \<longrightarrow> folder_ok C I fo)
     \<and> (\<forall>i t. map_get (br_transfers s) i = Some t \<longrightarrow>
          (\<exists>fo. map_get (br_disk s) (tr_folder t) = Some fo \<and> transfer_ok C I fo t))
     \<and> (\<forall>i j t u. map_get (br_transfers s) i = Some t \<longrightarrow> map_get (br_transfers s) j = Some u \<longrightarrow>
          tr_folder t = tr_folder u \<longrightarrow> i = j)"

text \<open>A chunk the receiver takes for an identity of \<open>I\<close> carries the content's bytes.\<close>

definition slice :: "byte list \<Rightarrow> nat \<Rightarrow> byte list" where
  "slice C off = take BLOB_CHUNK_BYTES (drop off C)"

definition honest_call :: "byte list \<Rightarrow> (string \<times> string \<times> nat) set \<Rightarrow> blob_call \<Rightarrow> bool" where
  "honest_call C I c = (case c of BlChunk peer env \<Rightarrow>
     (peer, ce_sha256 env, nat (ce_totalSize env)) \<in> I \<longrightarrow> ce_data env = slice C (nat (ce_chunkIndex env) * BLOB_CHUNK_BYTES)
   | _ \<Rightarrow> True)"

lemma ident_update [simp]:
  "ident (st\<lparr>sd_updatedAt := a\<rparr>) = ident st" "ident (st\<lparr>sd_committedOffset := n\<rparr>) = ident st"
  "ident (st\<lparr>sd_result := r\<rparr>) = ident st" "ident (st\<lparr>sd_senderToken := k\<rparr>) = ident st"
  by (simp_all add: ident_def)

lemma put_simps [simp]:
  "br_disk (put_transfer s i t) = br_disk s" "br_files (put_transfer s i t) = br_files s"
  "br_transfers (put_transfer s i t) = map_set (br_transfers s) i t"
  "br_transfers (put_folder s f fo) = br_transfers s" "br_files (put_folder s f fo) = br_files s"
  "br_disk (put_folder s f fo) = map_set (br_disk s) f fo"
  "br_disk (close_transfer s i) = br_disk s" "br_files (close_transfer s i) = br_files s"
  "br_transfers (close_transfer s i) = map_del (br_transfers s) i"
  by (simp_all add: put_transfer_def put_folder_def close_transfer_def)

lemma folder_at_get [simp]:
  "map_get (br_disk s) f = Some fo \<Longrightarrow> folder_at s now f = fo"
  by (simp add: folder_at_def or_else_def)

lemma get_close_folder:
  "map_get (close_folder ts f) i = Some t \<Longrightarrow> wf_map ts \<Longrightarrow> map_get ts i = Some t \<and> tr_folder t \<noteq> f"
  unfolding close_folder_def by (auto dest!: map_of_SomeD intro: map_of_is_SomeI)

lemma wf_close_folder: "wf_map ts \<Longrightarrow> wf_map (close_folder ts f)"
  unfolding close_folder_def by (rule distinct_map_filter)

text \<open>Changing the folder of one transfer leaves the others alone.\<close>

lemma receiver_ok_put:
  assumes ok: "receiver_ok C I s" and t: "map_get (br_transfers s) i = Some t"
    and f: "tr_folder t' = tr_folder t" and fo: "folder_ok C I fo" "transfer_ok C I fo t'"
  shows "receiver_ok C I (put_transfer (put_folder s (tr_folder t) fo) i t')"
proof -
  have uniq: "i = j" if "map_get (br_transfers s) j = Some u" "tr_folder u = tr_folder t" for j u
    using ok t that unfolding receiver_ok_def by metis
  have 1: "wf_map (br_transfers s)" "wf_map (br_disk s)" using ok by (simp_all add: receiver_ok_def)
  have 2: "folder_ok C I fo'" if "map_get (map_set (br_disk s) (tr_folder t) fo) f' = Some fo'" for f' fo'
    using that fo(1) ok by (auto simp: receiver_ok_def split: if_split_asm)
  have 3: "\<exists>fo'. map_get (map_set (br_disk s) (tr_folder t) fo) (tr_folder u) = Some fo' \<and> transfer_ok C I fo' u"
    if "map_get (map_set (br_transfers s) i t') j = Some u" for j u
  proof (cases "j = i")
    case True
    then show ?thesis using that f fo(2) by simp
  next
    case False
    then have u: "map_get (br_transfers s) j = Some u" using that by simp
    then have "tr_folder u \<noteq> tr_folder t" using uniq False by blast
    then show ?thesis using u ok by (auto simp: receiver_ok_def)
  qed
  have 4: "j = k" if "map_get (map_set (br_transfers s) i t') j = Some u"
    "map_get (map_set (br_transfers s) i t') k = Some v" "tr_folder u = tr_folder v" for j k u v
  proof -
    have all: "j = k" if "map_get (br_transfers s) j = Some u" "map_get (br_transfers s) k = Some v"
      using ok that \<open>tr_folder u = tr_folder v\<close> unfolding receiver_ok_def by blast
    consider "j = i" "k = i" | "j = i" "k \<noteq> i" | "j \<noteq> i" "k = i" | "j \<noteq> i" "k \<noteq> i" by blast
    then show ?thesis
    proof cases
      case 2
      then have "map_get (br_transfers s) k = Some v" "tr_folder v = tr_folder t" using that f by simp_all
      then show ?thesis using uniq 2 by blast
    next
      case 3
      then have "map_get (br_transfers s) j = Some u" "tr_folder u = tr_folder t" using that f by simp_all
      then show ?thesis using uniq 3 by blast
    next
      case 4
      then show ?thesis using that all by simp
    qed simp
  qed
  have "wf_map (map_set (br_transfers s) i t')" "wf_map (map_set (br_disk s) (tr_folder t) fo)"
    using 1 by simp_all
  then show ?thesis unfolding receiver_ok_def put_simps using 2 3 4 by blast
qed

subsection \<open>Chunks\<close>

lemma chunk_pos [simp]: "0 < BLOB_CHUNK_BYTES"
  by (simp add: BLOB_CHUNK_BYTES_def)

lemma commit_bytes: "BLOB_COMMIT_BYTES = 4 * BLOB_CHUNK_BYTES"
  by (simp add: BLOB_COMMIT_BYTES_def BLOB_WINDOW_CHUNKS_def)

lemma ident_peer: "ident st = (sd_peerId st, sd_sha256 st, sd_sizeBytes st)"
  by (simp add: ident_def)

lemma chunk_step:
  fixes B :: nat
  assumes "0 < B" "c mod (4 * B) = 0" "off mod B = 0" "c \<le> off" "off - c < 4 * B" "n \<le> off + B" "off \<le> n"
  shows "n - c \<le> 4 * B" "4 * B \<le> n - c \<Longrightarrow> n mod (4 * B) = 0"
proof -
  obtain a b where ab: "c = 4 * B * a" "off = B * b"
    using assms(2,3) by (auto elim!: dvdE simp: mod_eq_0_iff_dvd)
  have "B * b - B * (4 * a) < B * 4" using assms(5) ab by (simp add: mult.commute mult.left_commute)
  then have "B * (b - 4 * a) < B * 4" by (simp add: diff_mult_distrib2)
  then have "b - 4 * a < 4" using assms(1) by simp
  moreover have "4 * a \<le> b"
  proof -
    have "B * (4 * a) \<le> B * b" using assms(4) ab by (simp add: mult.commute mult.left_commute)
    then show ?thesis using assms(1) by simp
  qed
  ultimately have "b + 1 \<le> 4 * a + 4" by linarith
  then have "B * (b + 1) \<le> B * (4 * a + 4)" by (rule mult_le_mono2)
  then have le: "off + B \<le> c + 4 * B" using ab by (simp add: algebra_simps)
  then show "n - c \<le> 4 * B" using assms(6) by linarith
  show "n mod (4 * B) = 0" if "4 * B \<le> n - c"
  proof -
    have "n = 4 * B + c" using that le assms(4,6,7) by linarith
    then show ?thesis using assms(2) by simp
  qed
qed

text \<open>The facts a taken chunk gives.\<close>

lemma taken_chunk:
  assumes ok: "folder_ok C I fo" "transfer_ok C I fo t" "tr_failure t = None"
    and take_chunk: "chunk_ok t env" "honest_call C I (BlChunk (sd_peerId (tr_state t)) env)"
    and n: "n = tr_receivedOffset t + length (ce_data env)"
  shows "n \<le> sd_sizeBytes (tr_state t)" "n = sd_sizeBytes (tr_state t) \<or> n mod BLOB_CHUNK_BYTES = 0"
    "n - sd_committedOffset (tr_state t) \<le> BLOB_COMMIT_BYTES"
    "BLOB_COMMIT_BYTES \<le> n - sd_committedOffset (tr_state t) \<or> n = sd_sizeBytes (tr_state t) \<Longrightarrow>
      boundary (sd_sizeBytes (tr_state t)) n"
    "length (data_of fo @ ce_data env) = n"
    "ident (tr_state t) \<in> I \<Longrightarrow> data_of fo @ ce_data env = take n C"
proof -
  let ?off = "tr_receivedOffset t" and ?st = "tr_state t" and ?B = BLOB_CHUNK_BYTES
  have env: "ce_chunkIndex env * int ?B = int ?off" "int (length (ce_data env)) = min (int ?B) (int (sd_sizeBytes ?st) - int ?off)"
    "min (int ?B) (int (sd_sizeBytes ?st) - int ?off) > 0" "ce_totalSize env = int (sd_sizeBytes ?st)"
    "ce_sha256 env = sd_sha256 ?st"
    using take_chunk(1) unfolding chunk_ok_def Let_def by simp_all
  have k: "?off = nat (ce_chunkIndex env) * ?B"
  proof -
    have "0 \<le> ce_chunkIndex env" using env(1) chunk_pos by (smt (verit) mult_neg_pos of_nat_0_less_iff of_nat_less_0_iff)
    then have "int (nat (ce_chunkIndex env) * ?B) = int ?off" using env(1) by simp
    then show ?thesis by linarith
  qed
  have len: "length (ce_data env) = min ?B (sd_sizeBytes ?st - ?off)" "?off < sd_sizeBytes ?st"
    using env(2,3) by linarith+
  show 1: "n \<le> sd_sizeBytes ?st" using len n by linarith
  show 2: "n = sd_sizeBytes ?st \<or> n mod ?B = 0" using len n k by (auto simp: min_def)
  have t: "sd_committedOffset ?st \<le> ?off" "?off - sd_committedOffset ?st < BLOB_COMMIT_BYTES"
    "boundary (sd_sizeBytes ?st) (sd_committedOffset ?st)" "length (data_of fo) = ?off"
    using ok(2,3) unfolding transfer_ok_def by blast+
  have c: "sd_committedOffset ?st mod (4 * ?B) = 0" using t(1,3) len(2) by (simp add: boundary_def commit_bytes)
  have off: "?off mod ?B = 0" using k by simp
  have step: "n - sd_committedOffset ?st \<le> 4 * ?B" "4 * ?B \<le> n - sd_committedOffset ?st \<Longrightarrow> n mod (4 * ?B) = 0"
    using chunk_step [OF chunk_pos c off t(1), of n] t(2) n len(1) by (simp_all add: commit_bytes)
  show 3: "n - sd_committedOffset ?st \<le> BLOB_COMMIT_BYTES" using step(1) by (simp add: commit_bytes)
  show "boundary (sd_sizeBytes ?st) n"
    if "BLOB_COMMIT_BYTES \<le> n - sd_committedOffset ?st \<or> n = sd_sizeBytes ?st"
    using that step(2) 1 by (auto simp: boundary_def commit_bytes)
  show "length (data_of fo @ ce_data env) = n" using t(4) n by simp
  show "data_of fo @ ce_data env = take n C" if i: "ident ?st \<in> I"
  proof -
    have "take ?off (data_of fo) = take ?off C" using ok(2) i unfolding transfer_ok_def by blast
    then have d: "data_of fo = take ?off C" using t(4) by simp
    have "(sd_peerId ?st, ce_sha256 env, nat (ce_totalSize env)) \<in> I" using i env by (simp add: ident_def)
    then have bs: "ce_data env = take ?B (drop ?off C)" using take_chunk(2) k by (simp add: honest_call_def slice_def)
    have "ce_data env = take (length (ce_data env)) (ce_data env)" by simp
    also have "\<dots> = take (length (ce_data env)) (drop ?off C)" using len(1) by (subst (2) bs) (simp add: min_def)
    finally have "ce_data env = take (length (ce_data env)) (drop ?off C)" .
    then show ?thesis using d by (simp add: n take_add)
  qed
qed

subsection \<open>Folders after a write\<close>

lemma data_of_set [simp]: "data_of (fo\<lparr>bf_data := Some d\<rparr>) = d"
  "data_of (fo\<lparr>bf_sidecar := x\<rparr>) = data_of fo" "data_of (fo\<lparr>bf_synced := n\<rparr>) = data_of fo"
  "data_of (fo\<lparr>bf_mtime := a\<rparr>) = data_of fo"
  by (simp_all add: data_of_def or_else_def)

text \<open>The folder after \<open>commit\<close>: all synced, and the sidecar renamed unless that failed.\<close>

definition committed_folder :: "fs_fault \<Rightarrow> int \<Rightarrow> blob_folder \<Rightarrow> sidecar \<Rightarrow> blob_folder" where
  "committed_folder fl now fo st =
     (let fo1 = fo\<lparr>bf_synced := length (data_of fo)\<rparr>
      in if fl = PersistFault False then fo1 else fo1\<lparr>bf_sidecar := Some (st\<lparr>sd_updatedAt := now\<rparr>), bf_mtime := now\<rparr>)"

definition committed_transfer :: "int \<Rightarrow> transfer \<Rightarrow> transfer" where
  "committed_transfer now t =
     t\<lparr>tr_state := (tr_state t)\<lparr>sd_committedOffset := tr_receivedOffset t, sd_updatedAt := now\<rparr>\<rparr>"

lemma put_swap: "put_folder (put_transfer s i t) f fo = put_transfer (put_folder s f fo) i t"
  by (simp add: put_folder_def put_transfer_def)

lemma put_again [simp]:
  "put_transfer (put_transfer s i t) i u = put_transfer s i u"
  "put_folder (put_folder s f fo) f fo' = put_folder s f fo'"
  by (simp_all add: put_folder_def put_transfer_def update_last)

lemma put_folder_same: "map_get (br_disk s) f = Some fo \<Longrightarrow> put_folder s f fo = s"
  by (simp add: put_folder_def update_triv)

lemma commit_form:
  assumes "map_get (br_disk s) (tr_folder t) = Some fo" "fl \<noteq> SyncFault"
  shows "commit fl now s i t =
    (put_transfer (put_folder s (tr_folder t) (committed_folder fl now fo (tr_state (committed_transfer now t)))) i
       (committed_transfer now t), committed_transfer now t,
     case fl of PersistFault _ \<Rightarrow> Some PersistFailed | _ \<Rightarrow> None)"
  using assms by (cases fl)
    (simp_all add: commit_def persist_def sync_data_def committed_folder_def committed_transfer_def Let_def put_swap
      folder_at_def or_else_def)

lemma committed_ok:
  assumes "folder_ok C I fo" "length (data_of fo) = tr_receivedOffset t"
    and "bf_sidecar fo = Some sc" "ident sc = ident (tr_state t)" "sd_committedOffset sc \<le> tr_receivedOffset t"
    and "boundary (sd_sizeBytes (tr_state t)) (tr_receivedOffset t)"
    and "tr_receivedOffset t = sd_sizeBytes (tr_state t) \<or> tr_receivedOffset t mod BLOB_CHUNK_BYTES = 0"
    and "ident (tr_state t) \<in> I \<Longrightarrow> data_of fo = take (tr_receivedOffset t) C"
    and "sd_result (tr_state t) = None"
  shows "folder_ok C I (committed_folder fl now fo (tr_state (committed_transfer now t)))"
    "transfer_ok C I (committed_folder fl now fo (tr_state (committed_transfer now t))) ((committed_transfer now t)\<lparr>tr_failure := x\<rparr>)"
proof -
  let ?n = "tr_receivedOffset t"
  have le: "?n \<le> sd_sizeBytes (tr_state t)" using assms(6) by (simp add: boundary_def)
  have pos: "0 < BLOB_COMMIT_BYTES" by (simp add: commit_bytes)
  show "folder_ok C I (committed_folder fl now fo (tr_state (committed_transfer now t)))"
    using assms(1-6,8,9) by (auto simp: folder_ok_def committed_folder_def committed_transfer_def Let_def ident_def)
  show "transfer_ok C I (committed_folder fl now fo (tr_state (committed_transfer now t))) ((committed_transfer now t)\<lparr>tr_failure := x\<rparr>)"
    using assms(2-9) le pos by (auto simp: transfer_ok_def committed_folder_def committed_transfer_def Let_def ident_def)
qed

lemma grown_ok:
  assumes "folder_ok C I fo" "transfer_ok C I fo t" "tr_failure t = None"
    and "ident (tr_state t) \<in> I \<Longrightarrow> take (tr_receivedOffset t) (data_of fo @ bs) = take (tr_receivedOffset t) C"
  shows "folder_ok C I (fo\<lparr>bf_data := Some (data_of fo @ bs)\<rparr>)"
    "transfer_ok C I (fo\<lparr>bf_data := Some (data_of fo @ bs)\<rparr>) (t\<lparr>tr_failure := Some e\<rparr>)"
proof -
  obtain sc where sc: "bf_sidecar fo = Some sc" "ident sc = ident (tr_state t)"
    "sd_committedOffset sc \<le> sd_committedOffset (tr_state t)" using assms(2) by (auto simp: transfer_ok_def)
  have le: "sd_committedOffset sc \<le> length (data_of fo)" using assms(1) sc by (auto simp: folder_ok_def)
  then show "folder_ok C I (fo\<lparr>bf_data := Some (data_of fo @ bs)\<rparr>)" using assms(1) sc by (auto simp: folder_ok_def)
  show "transfer_ok C I (fo\<lparr>bf_data := Some (data_of fo @ bs)\<rparr>) (t\<lparr>tr_failure := Some e\<rparr>)"
    using assms(2-4) by (auto simp: transfer_ok_def)
qed

lemma write_form:
  assumes "map_get (br_disk s) f = Some fo" "length (data_of fo) = off"
  shows "write_data s now f off bs = put_folder s f (fo\<lparr>bf_data := Some (data_of fo @ bs)\<rparr>)"
  using assms by (simp add: write_data_def Let_def folder_at_def or_else_def)

lemma blob_get_Inr:
  "blob_get s peer i = Inr t \<longleftrightarrow>
   map_get (br_transfers s) i = Some t \<and> sd_peerId (tr_state t) = peer \<and> tr_failure t = None"
  by (auto simp: blob_get_def split: option.split)

lemma receiver_ok_at:
  assumes "receiver_ok C I s" "map_get (br_transfers s) i = Some t"
  obtains fo where "map_get (br_disk s) (tr_folder t) = Some fo" "folder_ok C I fo" "transfer_ok C I fo t"
  using assms unfolding receiver_ok_def by blast

lemma transfer_ok_fail: "transfer_ok C I fo t \<Longrightarrow> transfer_ok C I fo (t\<lparr>tr_failure := Some e\<rparr>)"
  by (simp add: transfer_ok_def)

text \<open>The transfer after its next chunk has been written, before any commit.\<close>

definition advanced :: "int \<Rightarrow> transfer \<Rightarrow> byte list \<Rightarrow> transfer" where
  "advanced now t bs =
     t\<lparr>tr_receivedOffset := tr_receivedOffset t + length bs, tr_state := (tr_state t)\<lparr>sd_updatedAt := now\<rparr>\<rparr>"

lemma advanced_simps [simp]:
  "tr_folder (advanced now t bs) = tr_folder t" "tr_failure (advanced now t bs) = tr_failure t"
  "tr_receivedOffset (advanced now t bs) = tr_receivedOffset t + length bs"
  "ident (tr_state (advanced now t bs)) = ident (tr_state t)"
  "sd_sizeBytes (tr_state (advanced now t bs)) = sd_sizeBytes (tr_state t)"
  "sd_committedOffset (tr_state (advanced now t bs)) = sd_committedOffset (tr_state t)"
  "sd_result (tr_state (advanced now t bs)) = sd_result (tr_state t)"
  by (simp_all add: advanced_def)

lemma committed_transfer_simps [simp]:
  "tr_folder (committed_transfer now t) = tr_folder t" "tr_failure (committed_transfer now t) = tr_failure t"
  "tr_receivedOffset (committed_transfer now t) = tr_receivedOffset t"
  "ident (tr_state (committed_transfer now t)) = ident (tr_state t)"
  "sd_committedOffset (tr_state (committed_transfer now t)) = tr_receivedOffset t"
  "sd_result (tr_state (committed_transfer now t)) = sd_result (tr_state t)"
  "sd_name (tr_state (committed_transfer now t)) = sd_name (tr_state t)"
  by (simp_all add: committed_transfer_def)

lemma chunk_form:
  assumes get: "blob_get s peer (ce_transferId env) = Inr t" and fo: "map_get (br_disk s) (tr_folder t) = Some fo"
    and len: "length (data_of fo) = tr_receivedOffset t" and good: "chunk_ok t env"
    and fo': "fo' = fo\<lparr>bf_data := Some (data_of fo @ ce_data env)\<rparr>" and t': "t' = advanced now t (ce_data env)"
  shows "fst (blob_chunk fl now s peer env) \<in>
    {put_transfer (put_folder s (tr_folder t) (fo\<lparr>bf_data := Some (data_of fo @ take k (ce_data env))\<rparr>))
       (ce_transferId env) (t\<lparr>tr_failure := Some AppendFailed\<rparr>) | k. fl = WriteFault k} \<union>
    (if BLOB_COMMIT_BYTES \<le> tr_receivedOffset t' - sd_committedOffset (tr_state t) \<or> tr_receivedOffset t' = sd_sizeBytes (tr_state t)
     then {put_transfer (put_folder s (tr_folder t) fo') (ce_transferId env) (t'\<lparr>tr_failure := Some SyncFailed\<rparr>)} \<union>
       {put_transfer (put_folder s (tr_folder t) (committed_folder fl now fo' (tr_state (committed_transfer now t'))))
          (ce_transferId env) ((committed_transfer now t')\<lparr>tr_failure := x\<rparr>)
        | x. x = (case fl of PersistFault _ \<Rightarrow> Some PersistFailed | _ \<Rightarrow> None)}
     else {put_transfer (put_folder s (tr_folder t) fo') (ce_transferId env) t'})"
proof (cases "\<exists>k. fl = WriteFault k")
  case True
  then show ?thesis using assms by (auto simp: blob_chunk_def Let_def fail_transfer_def write_form [OF fo len])
next
  case False
  let ?i = "ce_transferId env"
  let ?s2 = "put_transfer (put_folder s (tr_folder t) fo') ?i t'"
  define due where "due \<longleftrightarrow> BLOB_COMMIT_BYTES \<le> tr_receivedOffset t' - sd_committedOffset (tr_state t)
    \<or> tr_receivedOffset t' = sd_sizeBytes (tr_state t)"
  have step: "blob_chunk fl now s peer env =
      (if due then (case commit fl now ?s2 ?i t' of (s3, t2, Some e) \<Rightarrow> fail_transfer s3 ?i t2 e | (s3, t2, None) \<Rightarrow> (s3, Inr ()))
       else (?s2, Inr ()))"
    using get good False fo' t' by (cases fl)
      (simp_all add: blob_chunk_def Let_def write_form [OF fo len] due_def advanced_def)
  have disk: "map_get (br_disk ?s2) (tr_folder t') = Some fo'" by (simp add: t')
  show ?thesis
  proof (cases "due \<and> fl \<noteq> SyncFault")
    case True
    then have "commit fl now ?s2 ?i t' = (put_transfer (put_folder s (tr_folder t)
        (committed_folder fl now fo' (tr_state (committed_transfer now t')))) ?i (committed_transfer now t'),
        committed_transfer now t', case fl of PersistFault _ \<Rightarrow> Some PersistFailed | _ \<Rightarrow> None)"
      using commit_form [OF disk, of fl now ?i] by (simp add: t' put_swap)
    moreover have "tr_failure (committed_transfer now t') = None" using get by (simp add: t' blob_get_Inr)
    then have "(committed_transfer now t')\<lparr>tr_failure := None\<rparr> = committed_transfer now t'" by simp
    ultimately show ?thesis using True step unfolding due_def [symmetric]
      by (cases fl) (auto simp: fail_transfer_def intro: exI [where x = None])
  next
    case False
    then show ?thesis using step unfolding due_def [symmetric]
      by (cases due) (auto simp: fail_transfer_def commit_def)
  qed
qed

lemma blob_chunk_ok:
  assumes ok: "receiver_ok C I s" and honest: "honest_call C I (BlChunk peer env)"
  shows "receiver_ok C I (fst (blob_chunk fl now s peer env))"
proof (cases "blob_get s peer (ce_transferId env)")
  case (Inl e)
  then show ?thesis using ok by (simp add: blob_chunk_def)
next
  case (Inr t)
  let ?i = "ce_transferId env"
  have t: "map_get (br_transfers s) ?i = Some t" "sd_peerId (tr_state t) = peer" "tr_failure t = None"
    using Inr by (simp_all add: blob_get_Inr)
  obtain fo where fo: "map_get (br_disk s) (tr_folder t) = Some fo" "folder_ok C I fo" "transfer_ok C I fo t"
    by (rule receiver_ok_at [OF ok t(1)])
  note put = receiver_ok_put [OF ok t(1)]
  show ?thesis
  proof (cases "chunk_ok t env")
    case False
    have "receiver_ok C I (put_transfer (put_folder s (tr_folder t) fo) ?i (t\<lparr>tr_failure := Some InvalidChunk\<rparr>))"
      by (rule put) (simp_all add: fo(2,3) transfer_ok_fail)
    then show ?thesis using Inr False fo(1) by (simp add: blob_chunk_def Let_def fail_transfer_def put_folder_same)
  next
    case True
    define fo' where "fo' = fo\<lparr>bf_data := Some (data_of fo @ ce_data env)\<rparr>"
    define t' where "t' = advanced now t (ce_data env)"
    define n where "n = tr_receivedOffset t + length (ce_data env)"
    have len: "length (data_of fo) = tr_receivedOffset t" using fo(3) t(3) by (simp add: transfer_ok_def)
    note taken = taken_chunk [OF fo(2,3) t(3) True _ n_def, unfolded t(2), OF honest]
    have prefix: "ident (tr_state t) \<in> I \<Longrightarrow> take (tr_receivedOffset t) (data_of fo @ bs) = take (tr_receivedOffset t) C" for bs
      using fo(3) len by (simp add: transfer_ok_def)
    have 1: "receiver_ok C I (put_transfer (put_folder s (tr_folder t)
        (fo\<lparr>bf_data := Some (data_of fo @ bs)\<rparr>)) ?i (t\<lparr>tr_failure := Some e\<rparr>))" for bs e
      by (rule put) (simp_all add: grown_ok [OF fo(2,3) t(3) prefix])
    have f': "folder_ok C I fo'" unfolding fo'_def by (rule grown_ok [OF fo(2,3) t(3) prefix])
    obtain sc where sc: "bf_sidecar fo = Some sc" "ident sc = ident (tr_state t)"
      "sd_committedOffset sc \<le> sd_committedOffset (tr_state t)" using fo(3) by (auto simp: transfer_ok_def)
    have part: "take n (data_of fo @ ce_data env) = take n C" if "ident (tr_state t) \<in> I"
      using taken(6) [OF that] by simp
    have plain: "transfer_ok C I fo' (t'\<lparr>tr_failure := x\<rparr>)"
      if "x = None \<Longrightarrow> n - sd_committedOffset (tr_state t) < BLOB_COMMIT_BYTES" for x
      using fo(3) sc taken(1,2,5) part that unfolding transfer_ok_def t'_def fo'_def
      by (auto simp: n_def [symmetric])
    have sync: "receiver_ok C I (put_transfer (put_folder s (tr_folder t) fo') ?i (t'\<lparr>tr_failure := Some SyncFailed\<rparr>))"
    proof (rule put)
      show "transfer_ok C I fo' (t'\<lparr>tr_failure := Some SyncFailed\<rparr>)" by (rule plain) simp
    qed (simp_all add: f' t'_def)
    have tt: "t'\<lparr>tr_failure := None\<rparr> = t'" using t(3) by (simp add: t'_def advanced_def)
    have open_end: "receiver_ok C I (put_transfer (put_folder s (tr_folder t) fo') ?i t')"
      if "\<not> (BLOB_COMMIT_BYTES \<le> n - sd_committedOffset (tr_state t))"
    proof (rule put)
      show "transfer_ok C I fo' t'" using plain [of None] that unfolding tt by simp
    qed (simp_all add: f' t'_def)
    have com: "receiver_ok C I (put_transfer (put_folder s (tr_folder t)
        (committed_folder fl now fo' (tr_state (committed_transfer now t')))) ?i ((committed_transfer now t')\<lparr>tr_failure := x\<rparr>))"
      if "BLOB_COMMIT_BYTES \<le> n - sd_committedOffset (tr_state t) \<or> n = sd_sizeBytes (tr_state t)" for x
    proof (rule put)
      have n': "tr_receivedOffset t' = n" by (simp add: t'_def n_def)
      have c1: "length (data_of fo') = tr_receivedOffset t'" using taken(5) by (simp add: fo'_def n')
      have c2: "bf_sidecar fo' = Some sc" by (simp add: fo'_def sc)
      have c3: "ident sc = ident (tr_state t')" by (simp add: t'_def sc)
      have c4: "sd_committedOffset sc \<le> tr_receivedOffset t'"
        using sc(3) fo(3) by (auto simp: transfer_ok_def t'_def)
      have c5: "boundary (sd_sizeBytes (tr_state t')) (tr_receivedOffset t')"
        using taken(4) [OF that] n' by (simp add: t'_def)
      have c6: "tr_receivedOffset t' = sd_sizeBytes (tr_state t') \<or> tr_receivedOffset t' mod BLOB_CHUNK_BYTES = 0"
        using taken(2) n' by (simp add: t'_def)
      have c7: "ident (tr_state t') \<in> I \<Longrightarrow> data_of fo' = take (tr_receivedOffset t') C"
        using taken(6) n' by (simp add: fo'_def t'_def)
      have c8: "sd_result (tr_state t') = None" using True by (simp add: chunk_ok_def Let_def t'_def advanced_def)
      note c = committed_ok [OF f' c1 c2 c3 c4 c5 c6 c7 c8]
      show "folder_ok C I (committed_folder fl now fo' (tr_state (committed_transfer now t')))" by (rule c(1))
      show "transfer_ok C I (committed_folder fl now fo' (tr_state (committed_transfer now t'))) ((committed_transfer now t')\<lparr>tr_failure := x\<rparr>)"
        by (rule c(2))
    qed (simp_all add: t'_def)
    show ?thesis
      using chunk_form [OF Inr fo(1) len True fo'_def t'_def, of fl] 1 sync open_end com
      by (auto simp: t'_def n_def split: if_split_asm)
  qed
qed

subsection \<open>The other calls\<close>

lemma receiver_ok_files [simp]: "receiver_ok C I (s\<lparr>br_files := x\<rparr>) \<longleftrightarrow> receiver_ok C I s"
  by (simp add: receiver_ok_def)

lemma receiver_ok_fewer:
  assumes "receiver_ok C I s" "wf_map ts" "\<And>i t. map_get ts i = Some t \<Longrightarrow> map_get (br_transfers s) i = Some t"
  shows "receiver_ok C I (s\<lparr>br_transfers := ts\<rparr>)"
  using assms unfolding receiver_ok_def by simp metis

lemma receiver_ok_close: "receiver_ok C I s \<Longrightarrow> receiver_ok C I (close_transfer s i)"
  unfolding close_transfer_def by (rule receiver_ok_fewer) (auto simp: receiver_ok_def split: if_split_asm)

lemma receiver_ok_close_folder:
  "receiver_ok C I s \<Longrightarrow> receiver_ok C I (s\<lparr>br_transfers := close_folder (br_transfers s) f\<rparr>)"
  by (rule receiver_ok_fewer) (auto simp: receiver_ok_def wf_close_folder dest: get_close_folder)

lemma receiver_ok_drop: "receiver_ok C I s \<Longrightarrow> receiver_ok C I (drop_folder s f)"
proof -
  assume "receiver_ok C I s"
  then have ok: "receiver_ok C I (s\<lparr>br_transfers := close_folder (br_transfers s) f\<rparr>)" by (rule receiver_ok_close_folder)
  have wf: "wf_map (br_transfers s)" using \<open>receiver_ok C I s\<close> by (simp add: receiver_ok_def)
  show ?thesis using ok get_close_folder [OF _ wf] unfolding receiver_ok_def drop_folder_def
    by (auto split: if_split_asm)
qed

lemma receiver_ok_expire: "receiver_ok C I s \<Longrightarrow> receiver_ok C I (expire now s)"
proof -
  have "receiver_ok C I (foldl (\<lambda>s' p. if expired now s' p then drop_folder s' (fst p) else s') s ps)"
    if "receiver_ok C I s" for ps s
    using that by (induction ps arbitrary: s) (simp_all add: receiver_ok_drop)
  then show "receiver_ok C I s \<Longrightarrow> receiver_ok C I (expire now s)" by (simp add: expire_def)
qed

lemma receiver_ok_folder:
  assumes "receiver_ok C I s" "\<And>i t. map_get (br_transfers s) i = Some t \<Longrightarrow> tr_folder t \<noteq> f" "folder_ok C I fo"
  shows "receiver_ok C I (put_folder s f fo)"
  using assms unfolding receiver_ok_def put_simps by (auto split: if_split_asm)

lemma receiver_ok_add:
  assumes "receiver_ok C I s" "\<And>i t. map_get (br_transfers s) i = Some t \<Longrightarrow> tr_folder t \<noteq> tr_folder u"
    and "map_get (br_disk s) (tr_folder u) = Some fo" "transfer_ok C I fo u"
  shows "receiver_ok C I (put_transfer s i u)"
  using assms unfolding receiver_ok_def put_simps by (auto split: if_split_asm) metis

lemma persist_form:
  assumes "map_get (br_disk s) f = Some fo"
  shows "persist fl now s f st = (if fl = PersistFault False then s
      else put_folder s f (fo\<lparr>bf_sidecar := Some (st\<lparr>sd_updatedAt := now\<rparr>), bf_mtime := now\<rparr>),
      case fl of PersistFault _ \<Rightarrow> False | _ \<Rightarrow> True)"
  using assms by (cases fl) (simp_all add: persist_def Let_def folder_at_def or_else_def)

text \<open>What is persisted of a transfer is a boundary of its folder.\<close>

lemma persisted_ok:
  assumes "folder_ok C I fo" "transfer_ok C I fo t"
  shows "folder_ok C I (fo\<lparr>bf_sidecar := Some ((tr_state t)\<lparr>sd_updatedAt := now\<rparr>), bf_mtime := now\<rparr>)"
    "transfer_ok C I (fo\<lparr>bf_sidecar := Some ((tr_state t)\<lparr>sd_updatedAt := now\<rparr>), bf_mtime := now\<rparr>) t"
proof -
  let ?c = "sd_committedOffset (tr_state t)"
  have c: "?c \<le> bf_synced fo" "?c \<le> tr_receivedOffset t" "boundary (sd_sizeBytes (tr_state t)) ?c"
    "ident (tr_state t) \<in> I \<Longrightarrow> take (tr_receivedOffset t) (data_of fo) = take (tr_receivedOffset t) C"
    "sd_result (tr_state t) \<noteq> None \<longrightarrow> ?c = sd_sizeBytes (tr_state t)"
    using assms(2) by (auto simp: transfer_ok_def)
  have "take ?c (data_of fo) = take ?c C" if "ident (tr_state t) \<in> I"
    using arg_cong [OF c(4) [OF that], of "take ?c"] c(2) by (simp add: min_absorb1)
  then show "folder_ok C I (fo\<lparr>bf_sidecar := Some ((tr_state t)\<lparr>sd_updatedAt := now\<rparr>), bf_mtime := now\<rparr>)"
    using assms(1) c(1,3,5) by (auto simp: folder_ok_def ident_def)
  show "transfer_ok C I (fo\<lparr>bf_sidecar := Some ((tr_state t)\<lparr>sd_updatedAt := now\<rparr>), bf_mtime := now\<rparr>) t"
    using assms(2) by (auto simp: transfer_ok_def)
qed

lemma persist_transfer_ok:
  assumes "receiver_ok C I s" "map_get (br_transfers s) i = Some t"
  shows "receiver_ok C I (fst (persist fl now s (tr_folder t) (tr_state t)))"
proof -
  obtain fo where fo: "map_get (br_disk s) (tr_folder t) = Some fo" "folder_ok C I fo" "transfer_ok C I fo t"
    by (rule receiver_ok_at [OF assms])
  have "receiver_ok C I (put_transfer (put_folder s (tr_folder t)
      (fo\<lparr>bf_sidecar := Some ((tr_state t)\<lparr>sd_updatedAt := now\<rparr>), bf_mtime := now\<rparr>)) i t)"
    by (rule receiver_ok_put [OF assms]) (simp_all add: persisted_ok [OF fo(2,3)])
  moreover have "put_transfer (put_folder s f x) i t = put_folder s f x" for f x
    using assms(2) by (simp add: put_transfer_def put_folder_def update_triv)
  ultimately show ?thesis using assms(1) by (simp add: persist_form [OF fo(1)])
qed

lemma persist_transfers [simp]: "br_transfers (fst (persist fl now s f st)) = br_transfers s"
  "br_files (fst (persist fl now s f st)) = br_files s"
  by (simp_all add: persist_def Let_def split: fs_fault.split)

lemma suspend_ok:
  assumes "receiver_ok C I s" "wf_map es" "\<forall>(i, t)\<in>set es. map_get (br_transfers s) i = Some t"
  shows "receiver_ok C I (foldl (suspend_one faults now) s es)"
  using assms
proof (induction es arbitrary: s)
  case (Cons e es)
  obtain i t where e: "e = (i, t)" by fastforce
  have "receiver_ok C I (suspend_one faults now s (i, t))"
    using Cons.prems(1,3) e by (auto simp: suspend_one_def intro!: receiver_ok_close persist_transfer_ok)
  moreover have "\<forall>(j, u)\<in>set es. map_get (br_transfers (suspend_one faults now s (i, t))) j = Some u"
    using Cons.prems(2,3) e by (force simp: suspend_one_def)
  ultimately show ?case using Cons.IH Cons.prems(2) e by simp
qed simp

lemma disconnect_ok:
  "receiver_ok C I s \<Longrightarrow> receiver_ok C I (blob_disconnect faults now s peer)"
  "receiver_ok C I s \<Longrightarrow> receiver_ok C I (blob_dispose faults now s)"
proof -
  have get: "\<forall>(i, t)\<in>set (br_transfers s). map_get (br_transfers s) i = Some t" if "receiver_ok C I s"
    using that by (auto simp: receiver_ok_def)
  show "receiver_ok C I s \<Longrightarrow> receiver_ok C I (blob_disconnect faults now s peer)"
    unfolding blob_disconnect_def
    by (rule suspend_ok) (use get in \<open>auto simp: receiver_ok_def intro: distinct_map_filter\<close>)
  show "receiver_ok C I s \<Longrightarrow> receiver_ok C I (blob_dispose faults now s)"
    unfolding blob_dispose_def by (rule suspend_ok) (use get in \<open>auto simp: receiver_ok_def\<close>)
qed

lemma crash_ok: "receiver_ok C I s \<Longrightarrow> receiver_ok C I (blob_crash junk s)"
proof -
  assume ok: "receiver_ok C I s"
  have get: "map_get (map (crash_folder junk) m) f = map_option (\<lambda>fo. snd (crash_folder junk (f, fo))) (map_get m f)" for m f
    by (induction m) (auto simp: crash_folder_def)
  have keys: "map (fst \<circ> crash_folder junk) m = map fst m" for m
    by (induction m) (auto simp: crash_folder_def)
  have "folder_ok C I (snd (crash_folder junk (f, fo)))" if "folder_ok C I fo" for f fo
  proof -
    have d: "data_of (snd (crash_folder junk (f, fo))) =
        (if bf_data fo = None then [] else take (bf_synced fo) (data_of fo) @ junk f)"
      by (simp add: crash_folder_def data_of_def or_else_def split: option.split)
    have "take c (take (bf_synced fo) (data_of fo) @ junk f) = take c (data_of fo)"
      if "c \<le> bf_synced fo" "bf_synced fo \<le> length (data_of fo)" for c
      using that by (simp add: min_absorb1)
    moreover have "bf_synced fo = 0" if "bf_data fo = None"
      using \<open>folder_ok C I fo\<close> that by (simp add: folder_ok_def data_of_def or_else_def)
    ultimately show ?thesis using that unfolding folder_ok_def d
      by (auto simp: crash_folder_def ident_def)
  qed
  then show ?thesis using ok unfolding receiver_ok_def blob_crash_def by (auto simp: get keys)
qed

lemma transfer_ok_result:
  "transfer_ok C I fo t \<Longrightarrow> r = None \<or> sd_committedOffset (tr_state t) = sd_sizeBytes (tr_state t) \<Longrightarrow>
   transfer_ok C I fo (t\<lparr>tr_state := (tr_state t)\<lparr>sd_result := r\<rparr>\<rparr>)"
  by (auto simp: transfer_ok_def)

lemma put_result_ok:
  assumes "receiver_ok C I s" "map_get (br_transfers s) i = Some t"
    and r: "r = None \<or> sd_committedOffset (tr_state t) = sd_sizeBytes (tr_state t)"
  shows "receiver_ok C I (put_transfer s i (t\<lparr>tr_state := (tr_state t)\<lparr>sd_result := r\<rparr>\<rparr>))"
proof -
  obtain fo where fo: "map_get (br_disk s) (tr_folder t) = Some fo" "folder_ok C I fo" "transfer_ok C I fo t"
    by (rule receiver_ok_at [OF assms(1,2)])
  have "receiver_ok C I (put_transfer (put_folder s (tr_folder t) fo) i (t\<lparr>tr_state := (tr_state t)\<lparr>sd_result := r\<rparr>\<rparr>))"
    by (rule receiver_ok_put [OF assms(1,2)]) (simp_all add: fo(2) transfer_ok_result [OF fo(3) r])
  then show ?thesis by (simp add: put_folder_same [OF fo(1)])
qed

text \<open>\<open>commit\<close> of a transfer whose data ends where it has received.\<close>

lemma commit_ok:
  assumes ok: "receiver_ok C I s" "map_get (br_transfers s) i = Some t" and "tr_failure t = None"
    and "tr_receivedOffset t = sd_sizeBytes (tr_state t)" and none: "sd_result (tr_state t) = None"
  shows "receiver_ok C I (fst (commit fl now s i t))"
    "snd (snd (commit fl now s i t)) = None \<Longrightarrow> fst (snd (commit fl now s i t)) = committed_transfer now t
       \<and> map_get (br_transfers (fst (commit fl now s i t))) i = Some (committed_transfer now t)
       \<and> data_of (folder_at (fst (commit fl now s i t)) now (tr_folder t)) = data_of (folder_at s now (tr_folder t))"
    "br_files (fst (commit fl now s i t)) = br_files s"
proof -
  obtain fo where fo: "map_get (br_disk s) (tr_folder t) = Some fo" "folder_ok C I fo" "transfer_ok C I fo t"
    by (rule receiver_ok_at [OF ok])
  obtain sc where sc: "bf_sidecar fo = Some sc" "ident sc = ident (tr_state t)"
    "sd_committedOffset sc \<le> sd_committedOffset (tr_state t)" using fo(3) by (auto simp: transfer_ok_def)
  have len: "length (data_of fo) = tr_receivedOffset t" using fo(3) assms(3) by (simp add: transfer_ok_def)
  have le: "sd_committedOffset sc \<le> tr_receivedOffset t" using sc(3) fo(3) by (auto simp: transfer_ok_def)
  have all: "data_of fo = take (tr_receivedOffset t) C" if "ident (tr_state t) \<in> I"
    using fo(3) that len by (auto simp: transfer_ok_def)
  have sf: "commit SyncFault now s i t = (s, t, Some SyncFailed)" by (simp add: commit_def)
  have b: "boundary (sd_sizeBytes (tr_state t)) (tr_receivedOffset t)"
    "tr_receivedOffset t = sd_sizeBytes (tr_state t) \<or> tr_receivedOffset t mod BLOB_CHUNK_BYTES = 0"
    using assms(4) by (simp_all add: boundary_def)
  note c = committed_ok [OF fo(2) len sc(1,2) le b all none]
  have s: "fl \<noteq> SyncFault \<Longrightarrow> receiver_ok C I (put_transfer (put_folder s (tr_folder t)
      (committed_folder fl now fo (tr_state (committed_transfer now t)))) i ((committed_transfer now t)\<lparr>tr_failure := None\<rparr>))"
    by (rule receiver_ok_put [OF ok]) (simp_all add: c)
  have "(committed_transfer now t)\<lparr>tr_failure := None\<rparr> = committed_transfer now t" using assms(3) by simp
  then show "receiver_ok C I (fst (commit fl now s i t))"
    using s ok(1) by (cases "fl = SyncFault") (simp_all add: commit_form [OF fo(1)] sf)
  show "br_files (fst (commit fl now s i t)) = br_files s"
    by (cases "fl = SyncFault") (simp_all add: commit_form [OF fo(1)] sf)
  show "fst (snd (commit fl now s i t)) = committed_transfer now t
       \<and> map_get (br_transfers (fst (commit fl now s i t))) i = Some (committed_transfer now t)
       \<and> data_of (folder_at (fst (commit fl now s i t)) now (tr_folder t)) = data_of (folder_at s now (tr_folder t))"
    if "snd (snd (commit fl now s i t)) = None"
    using that by (cases "fl = SyncFault")
      (simp_all add: commit_form [OF fo(1)] sf folder_at_def or_else_def fo(1) committed_folder_def Let_def)
qed

lemma publish_fields [simp]:
  "br_disk (fst (publish p fl now s t)) = br_disk s" "br_transfers (fst (publish p fl now s t)) = br_transfers s"
  by (simp_all add: publish_def Let_def split: option.split)

lemma publish_ok: "receiver_ok C I (fst (publish p fl now s t)) \<longleftrightarrow> receiver_ok C I s"
  by (simp add: receiver_ok_def)

lemma blob_finish_cases:
  obtains e where "blob_finish p fl now s peer i = (s, Inl e)"
  | t r where "blob_get s peer i = Inr t" "sd_result (tr_state t) = Some r" "map_has (br_files s) (fp_path r)"
      "blob_finish p fl now s peer i = (close_transfer (put_transfer s i t) i, Inr r)"
  | t0 t e where "blob_get s peer i = Inr t0" "t = t0\<lparr>tr_state := (tr_state t0)\<lparr>sd_result := None\<rparr>\<rparr>"
      "blob_finish p fl now s peer i = (put_transfer s i t, Inl e)
       \<or> tr_receivedOffset t = sd_sizeBytes (tr_state t)
         \<and> blob_finish p fl now s peer i = (fst (commit fl now (put_transfer s i t) i t), Inl e)"
  | t0 t s1 t1 s2 res where "blob_get s peer i = Inr t0" "t = t0\<lparr>tr_state := (tr_state t0)\<lparr>sd_result := None\<rparr>\<rparr>"
      "tr_receivedOffset t = sd_sizeBytes (tr_state t)" "commit fl now (put_transfer s i t) i t = (s1, t1, None)"
      "publish p fl now s1 t1 = (s2, res)"
      "blob_finish p fl now s peer i = (case res of Inl e \<Rightarrow> (s2, Inl e)
        | Inr dest \<Rightarrow> (let x = \<lparr>fp_path = dest, fp_sizeBytes = sd_sizeBytes (tr_state t1), fp_sha256 = sd_sha256 (tr_state t1)\<rparr>;
                          t2 = t1\<lparr>tr_state := (tr_state t1)\<lparr>sd_result := Some x\<rparr>\<rparr>;
                          (s3, ok) = persist fl now (put_transfer s2 i t2) (tr_folder t2) (tr_state t2)
                      in if ok then (close_transfer s3 i, Inr x) else (s3, Inl PersistFailed)))"
proof (cases "blob_get s peer i")
  case (Inl e)
  then show ?thesis using that(1) by (simp add: blob_finish_def)
next
  case (Inr t0)
  define kept where "kept = Option.bind (sd_result (tr_state t0)) (\<lambda>r. if map_has (br_files s) (fp_path r) then Some r else None)"
  define t where "t = t0\<lparr>tr_state := (tr_state t0)\<lparr>sd_result := kept\<rparr>\<rparr>"
  obtain s1 t1 e where com: "commit fl now (put_transfer s i t) i t = (s1, t1, e)" by (metis prod.exhaust)
  obtain s2 res where pub: "publish p fl now s1 t1 = (s2, res)" by fastforce
  have fin: "blob_finish p fl now s peer i = (case kept of Some r \<Rightarrow> (close_transfer (put_transfer s i t) i, Inr r)
      | None \<Rightarrow> if tr_receivedOffset t \<noteq> sd_sizeBytes (tr_state t) then (put_transfer s i t, Inl IncompleteBlob)
      else case e of Some e \<Rightarrow> (s1, Inl e) | None \<Rightarrow> (case res of Inl e \<Rightarrow> (s2, Inl e)
        | Inr dest \<Rightarrow> (let x = \<lparr>fp_path = dest, fp_sizeBytes = sd_sizeBytes (tr_state t1), fp_sha256 = sd_sha256 (tr_state t1)\<rparr>;
                          t2 = t1\<lparr>tr_state := (tr_state t1)\<lparr>sd_result := Some x\<rparr>\<rparr>;
                          (s3, ok) = persist fl now (put_transfer s2 i t2) (tr_folder t2) (tr_state t2)
                      in if ok then (close_transfer s3 i, Inr x) else (s3, Inl PersistFailed))))"
    unfolding blob_finish_def Inr sum.case Let_def kept_def [symmetric] t_def [symmetric]
    by (simp add: com pub split: option.split sum.split)
  show ?thesis
  proof (cases kept)
    case (Some r)
    then have r: "sd_result (tr_state t0) = Some r" "map_has (br_files s) (fp_path r)"
      by (auto simp: kept_def Option.bind_eq_Some_conv split: if_split_asm)
    then have "(tr_state t0)\<lparr>sd_result := Some r\<rparr> = tr_state t0" by simp
    then have "t = t0" using Some unfolding t_def by simp
    then show ?thesis using that(2) [OF Inr r] fin Some by simp
  next
    case None
    then have t: "t = t0\<lparr>tr_state := (tr_state t0)\<lparr>sd_result := None\<rparr>\<rparr>" by (simp add: t_def)
    show ?thesis
    proof (cases "tr_receivedOffset t = sd_sizeBytes (tr_state t) \<and> e = None")
      case True
      then show ?thesis using that(4) [OF Inr t _ _ pub] com fin None by simp
    next
      case False
      show ?thesis
      proof (cases "tr_receivedOffset t = sd_sizeBytes (tr_state t)")
        case True
        then obtain e' where "e = Some e'" using False by auto
        then have "blob_finish p fl now s peer i = (s1, Inl e')" using fin None True by simp
        then show ?thesis by (intro that(3) [OF Inr t, of e']) (simp add: com True)
      next
        case False
        then have "blob_finish p fl now s peer i = (put_transfer s i t, Inl IncompleteBlob)" using fin None by simp
        then show ?thesis using that(3) [OF Inr t] by blast
      qed
    qed
  qed
qed

lemma blob_finish_ok:
  assumes ok: "receiver_ok C I s"
  shows "receiver_ok C I (fst (blob_finish p fl now s peer i))"
proof (cases rule: blob_finish_cases [of p fl now s peer i])
  case (2 t r)
  then have "put_transfer s i t = s" by (simp add: blob_get_Inr put_transfer_def update_triv)
  then show ?thesis using 2(4) ok by (simp add: receiver_ok_close)
next
  case (3 t0 t e)
  then have t0: "map_get (br_transfers s) i = Some t0" "tr_failure t0 = None" by (simp_all add: blob_get_Inr)
  have s0: "receiver_ok C I (put_transfer s i t)" unfolding 3(2) by (rule put_result_ok [OF ok t0(1)]) simp
  have t: "map_get (br_transfers (put_transfer s i t)) i = Some t" "tr_failure t = None" by (simp_all add: 3(2) t0)
  show ?thesis
  proof (cases "blob_finish p fl now s peer i = (put_transfer s i t, Inl e)")
    case False
    then show ?thesis using 3(3) commit_ok(1) [OF s0 t] by (simp add: 3(2))
  qed (simp add: s0)
next
  case (4 t0 t s1 t1 s2 res)
  then have t0: "map_get (br_transfers s) i = Some t0" "tr_failure t0 = None" by (simp_all add: blob_get_Inr)
  have s0: "receiver_ok C I (put_transfer s i t)" unfolding 4(2) by (rule put_result_ok [OF ok t0(1)]) simp
  have t: "map_get (br_transfers (put_transfer s i t)) i = Some t" "tr_failure t = None" by (simp_all add: 4(2) t0)
  have none: "sd_result (tr_state t) = None" by (simp add: 4(2))
  note c = commit_ok [OF s0 t 4(3) none, of fl now]
  have s1: "receiver_ok C I s1" "map_get (br_transfers s1) i = Some t1" "t1 = committed_transfer now t"
    using c(1,2) 4(4) by simp_all
  have full: "sd_committedOffset (tr_state t1) = sd_sizeBytes (tr_state t1)"
    using 4(3) by (simp add: s1(3) committed_transfer_def)
  have s2: "receiver_ok C I s2" "map_get (br_transfers s2) i = Some t1"
    using publish_ok [of C I p fl now s1 t1] publish_fields(2) [of p fl now s1 t1] s1(1,2) unfolding 4(5) fst_conv
    by (simp_all del: publish_fields)
  have s3: "receiver_ok C I (fst (persist fl now (put_transfer s2 i (t1\<lparr>tr_state := (tr_state t1)\<lparr>sd_result := x\<rparr>\<rparr>))
      (tr_folder t1) ((tr_state t1)\<lparr>sd_result := x\<rparr>)))" for x
    using persist_transfer_ok [OF put_result_ok [OF s2 disjI2 [OF full], of x], of i "t1\<lparr>tr_state := (tr_state t1)\<lparr>sd_result := x\<rparr>\<rparr>"] by simp
  show ?thesis unfolding 4(6) using s2 s3 receiver_ok_close
    by (cases res) (simp_all add: Let_def case_prod_beta)
qed (simp add: ok)

lemma blob_cancel_ok: "receiver_ok C I s \<Longrightarrow> receiver_ok C I (fst (blob_cancel p s peer i))"
  by (simp add: blob_cancel_def receiver_ok_drop split: sum.split option.split)

lemma begin_sidecar_Inr:
  assumes "begin_sidecar now peer i name stored = Inr st" "0 \<le> bi_sizeBytes i"
  shows "ident st = (peer, bi_sha256 i, nat (bi_sizeBytes i)) \<and> boundary (sd_sizeBytes st) (sd_committedOffset st)
    \<and> (stored = None \<and> sd_committedOffset st = 0 \<and> sd_result st = None
       \<or> (\<exists>sc. stored = Some sc \<and> ident sc = ident st \<and> sd_committedOffset sc = sd_committedOffset st \<and> sd_result sc = sd_result st))"
proof (cases stored)
  case None
  then have "st = \<lparr>sd_peerId = peer, sd_senderToken = bi_senderToken i, sd_sha256 = bi_sha256 i,
       sd_sizeBytes = nat (bi_sizeBytes i), sd_name = name, sd_committedOffset = 0, sd_updatedAt = now, sd_result = None\<rparr>"
    using assms(1) by (simp add: begin_sidecar_def)
  then show ?thesis using None by (simp add: ident_def boundary_def)
next
  case (Some sc)
  then have v: "sidecar_valid peer i sc" and st: "st = sc\<lparr>sd_senderToken := bi_senderToken i\<rparr>"
    using assms(1) by (auto simp: begin_sidecar_def split: if_split_asm)
  have "sd_sizeBytes sc = nat (bi_sizeBytes i)" using v unfolding sidecar_valid_def by (metis nat_int)
  then have "ident sc = (peer, bi_sha256 i, nat (bi_sizeBytes i))" using v by (simp add: ident_def sidecar_valid_def)
  moreover have "boundary (sd_sizeBytes sc) (sd_committedOffset sc)"
  proof -
    have "int (sd_committedOffset sc) \<le> int (sd_sizeBytes sc)
        \<and> (int (sd_committedOffset sc) = int (sd_sizeBytes sc) \<or> sd_committedOffset sc mod BLOB_COMMIT_BYTES = 0)"
      using v unfolding sidecar_valid_def by metis
    then show ?thesis unfolding boundary_def by simp
  qed
  ultimately show ?thesis using Some st by simp
qed

text \<open>The state in which \<open>begin\<close> has closed the old transfer of the folder and cut its data.\<close>

definition cut_folder :: "int \<Rightarrow> blob_folder \<Rightarrow> nat \<Rightarrow> blob_folder" where
  "cut_folder now fo c = fo\<lparr>bf_data := Some (take c (data_of fo)),
     bf_mtime := (if bf_data fo = None then now else bf_mtime fo), bf_synced := min (bf_synced fo) c\<rparr>"

definition begun_folder :: "int \<Rightarrow> blob_folder \<Rightarrow> sidecar \<Rightarrow> blob_folder" where
  "begun_folder now fo st = (cut_folder now fo (sd_committedOffset st))\<lparr>bf_sidecar := Some (st\<lparr>sd_updatedAt := now\<rparr>), bf_mtime := now\<rparr>"

definition begun_transfer :: "int \<Rightarrow> string \<Rightarrow> sidecar \<Rightarrow> transfer" where
  "begun_transfer now f st = \<lparr>tr_state = st\<lparr>sd_updatedAt := now\<rparr>, tr_folder = f,
     tr_receivedOffset = sd_committedOffset st, tr_failure = None\<rparr>"

lemma open_transfer_form:
  assumes fo: "map_get (br_disk s) f = Some fo" and c: "sd_committedOffset st \<le> length (data_of fo)"
    and s0: "s0 = s\<lparr>br_transfers := close_folder (br_transfers s) f\<rparr>"
  shows "open_transfer fl now fresh s f st = (case fl of
      PersistFault renamed \<Rightarrow> (put_folder s0 f (if renamed then begun_folder now fo st
         else cut_folder now fo (sd_committedOffset st)), Inl PersistFailed)
    | _ \<Rightarrow> (put_transfer (put_folder s0 f (begun_folder now fo st)) (''blob:'' @ fresh) (begun_transfer now f st),
            Inr (''blob:'' @ fresh, sd_committedOffset st)))"
  using assms by (cases fl; cases fo)
    (simp_all add: open_transfer_def Let_def persist_def folder_at_def or_else_def begun_folder_def begun_transfer_def cut_folder_def)

lemma begun_ok:
  assumes "folder_ok C I fo" "boundary (sd_sizeBytes st) (sd_committedOffset st)"
    and "bf_sidecar fo = None \<and> sd_committedOffset st = 0 \<and> sd_result st = None
       \<or> (\<exists>sc. bf_sidecar fo = Some sc \<and> ident sc = ident st \<and> sd_committedOffset sc = sd_committedOffset st \<and> sd_result sc = sd_result st)"
  shows "sd_committedOffset st \<le> length (data_of fo)"
    "folder_ok C I (cut_folder now fo (sd_committedOffset st))" "folder_ok C I (begun_folder now fo st)"
    "transfer_ok C I (begun_folder now fo st) (begun_transfer now f st)"
proof -
  let ?c = "sd_committedOffset st"
  have s: "?c \<le> bf_synced fo" "bf_synced fo \<le> length (data_of fo)"
    "ident st \<in> I \<Longrightarrow> take ?c (data_of fo) = take ?c C" "sd_result st \<noteq> None \<longrightarrow> ?c = sd_sizeBytes st"
    using assms(1,3) unfolding folder_ok_def by (auto simp: ident_def)
  show c: "?c \<le> length (data_of fo)" using s by simp
  have d: "data_of (cut_folder now fo ?c) = take ?c (data_of fo)" "bf_synced (cut_folder now fo ?c) = ?c"
    "bf_sidecar (cut_folder now fo ?c) = bf_sidecar fo" "data_of (begun_folder now fo st) = take ?c (data_of fo)"
    "bf_synced (begun_folder now fo st) = ?c" "bf_sidecar (begun_folder now fo st) = Some (st\<lparr>sd_updatedAt := now\<rparr>)"
    using s(1) by (simp_all add: cut_folder_def begun_folder_def data_of_def or_else_def min_absorb2)
  have sc: "sd_committedOffset sc = ?c \<and> boundary (sd_sizeBytes sc) ?c \<and> (sd_result sc \<noteq> None \<longrightarrow> ?c = sd_sizeBytes sc) \<and> (ident sc \<in> I \<longrightarrow> take ?c (data_of fo) = take ?c C)"
    if "bf_sidecar fo = Some sc" for sc
  proof -
    have "ident sc = ident st" "sd_committedOffset sc = ?c" "sd_result sc = sd_result st" using that assms(3) by auto
    then show ?thesis using assms(2) s(3,4) by (simp add: ident_def)
  qed
  have "?c \<le> length (take ?c (data_of fo))" "take ?c (take ?c (data_of fo)) = take ?c (data_of fo)" using c by simp_all
  then show "folder_ok C I (cut_folder now fo ?c)" unfolding folder_ok_def d using sc by (metis order_refl)
  show "folder_ok C I (begun_folder now fo st)" unfolding folder_ok_def d using c assms(2) s(3,4) by simp
  have pos: "0 < BLOB_COMMIT_BYTES" by (simp add: commit_bytes)
  have "?c = sd_sizeBytes st \<or> ?c mod BLOB_CHUNK_BYTES = 0"
    using assms(2) by (auto simp: boundary_def commit_bytes elim!: dvdE simp: mod_eq_0_iff_dvd)
  then show "transfer_ok C I (begun_folder now fo st) (begun_transfer now f st)"
    unfolding transfer_ok_def d using c assms(2) s(3,4) pos by (simp add: begun_transfer_def boundary_def)
qed

lemma open_transfer_ok:
  assumes ok: "receiver_ok C I s" and fo: "map_get (br_disk s) f = Some fo"
    and st: "boundary (sd_sizeBytes st) (sd_committedOffset st)"
      "bf_sidecar fo = None \<and> sd_committedOffset st = 0 \<and> sd_result st = None
       \<or> (\<exists>sc. bf_sidecar fo = Some sc \<and> ident sc = ident st \<and> sd_committedOffset sc = sd_committedOffset st \<and> sd_result sc = sd_result st)"
  shows "receiver_ok C I (fst (open_transfer fl now fresh s f st))"
proof -
  have f: "folder_ok C I fo" using ok fo unfolding receiver_ok_def by blast
  define s0 where "s0 = s\<lparr>br_transfers := close_folder (br_transfers s) f\<rparr>"
  have s0: "receiver_ok C I s0" unfolding s0_def by (rule receiver_ok_close_folder [OF ok])
  have gone: "tr_folder t \<noteq> f" if "map_get (br_transfers s0) i = Some t" for i t
  proof -
    have "wf_map (br_transfers s)" using ok by (simp add: receiver_ok_def)
    then show ?thesis using that get_close_folder [of "br_transfers s" f i t] by (simp add: s0_def)
  qed
  note b = begun_ok [OF f st]
  have p: "receiver_ok C I (put_folder s0 f fo')" if "folder_ok C I fo'" for fo'
    by (rule receiver_ok_folder [OF s0 gone that])
  have add: "receiver_ok C I (put_transfer (put_folder s0 f (begun_folder now fo st)) (''blob:'' @ fresh) (begun_transfer now f st))"
  proof (rule receiver_ok_add [OF p [OF b(3)]])
    show "map_get (br_disk (put_folder s0 f (begun_folder now fo st))) (tr_folder (begun_transfer now f st)) = Some (begun_folder now fo st)"
      by (simp add: begun_transfer_def)
    show "tr_folder t \<noteq> tr_folder (begun_transfer now f st)"
      if "map_get (br_transfers (put_folder s0 f (begun_folder now fo st))) i = Some t" for i t
      using that gone by (simp add: begun_transfer_def)
  qed (rule b(4))
  show ?thesis unfolding open_transfer_form [OF fo b(1) s0_def]
    using add by (cases fl) (auto intro: p [OF b(2)] p [OF b(3)])
qed

lemma contentKey_Inr: "contentKey p peer i = Inr f \<Longrightarrow> 0 \<le> bi_sizeBytes i \<and> f = bp_key p peer (bi_sha256 i) (nat (bi_sizeBytes i))"
  by (simp add: contentKey_def split: if_split_asm)

text \<open>\<open>begin\<close> first makes the folder, which changes nothing where it exists.\<close>

definition made_folder :: "int \<Rightarrow> blob_receiver \<Rightarrow> string \<Rightarrow> blob_receiver" where
  "made_folder now s f = put_folder (expire now s) f (folder_at (expire now s) now f)"

lemma made_folder_ok:
  assumes "receiver_ok C I s"
  shows "receiver_ok C I (made_folder now s f)"
    "map_get (br_disk (made_folder now s f)) f = Some (folder_at (made_folder now s f) now f)"
    "br_transfers (made_folder now s f) = br_transfers (expire now s)"
    "folder_at (made_folder now s f) now f = folder_at (expire now s) now f"
proof -
  have ok: "receiver_ok C I (expire now s)" by (rule receiver_ok_expire [OF assms])
  show "receiver_ok C I (made_folder now s f)"
  proof (cases "map_get (br_disk (expire now s)) f")
    case None
    have "tr_folder t \<noteq> f" if "map_get (br_transfers (expire now s)) i = Some t" for i t
      using receiver_ok_at [OF ok that] None by fastforce
    moreover have "folder_ok C I (no_folder now)" by (simp add: folder_ok_def no_folder_def)
    ultimately show ?thesis unfolding made_folder_def
      using None by (intro receiver_ok_folder [OF ok]) (auto simp: folder_at_def or_else_def)
  next
    case (Some fo)
    then show ?thesis using ok by (simp add: made_folder_def put_folder_same)
  qed
  show "map_get (br_disk (made_folder now s f)) f = Some (folder_at (made_folder now s f) now f)"
    "folder_at (made_folder now s f) now f = folder_at (expire now s) now f"
    by (simp_all add: made_folder_def folder_at_def or_else_def)
  show "br_transfers (made_folder now s f) = br_transfers (expire now s)" by (simp add: made_folder_def)
qed

lemma blob_begin_cases:
  obtains e where "blob_begin p fl now fresh s peer i name = (s, Inl e)"
      "e \<in> {InvalidIdentity, InvalidOwner, FolderNotAbsolute}"
  | "blob_begin p fl now fresh s peer i name = (expire now s, Inl TransferLimit)"
  | f e where "contentKey p peer i = Inr f" "blob_begin p fl now fresh s peer i name = (made_folder now s f, Inl e)"
    "e = InvalidSidecar \<or> e = OtherSend"
  | f st where "contentKey p peer i = Inr f"
    "begin_sidecar now peer i name (bf_sidecar (folder_at (made_folder now s f) now f)) = Inr st"
    "blob_begin p fl now fresh s peer i name = open_transfer fl now fresh (made_folder now s f) f st"
    "length (br_transfers (expire now s)) < 4 \<or> (\<exists>(j, t)\<in>set (br_transfers (expire now s)). tr_folder t = f)"
proof (cases "contentKey p peer i")
  case (Inl e)
  then have "e = InvalidIdentity" by (simp add: contentKey_def split: if_split_asm)
  then show ?thesis using that(1) Inl by (simp add: blob_begin_def)
next
  case (Inr f)
  define stored where "stored = bf_sidecar (folder_at (made_folder now s f) now f)"
  have at: "folder_at (made_folder now s f) now f = folder_at (expire now s) now f"
    by (simp add: made_folder_def folder_at_def or_else_def)
  have b: "blob_begin p fl now fresh s peer i name =
      (if \<not> valid_owner (bi_senderToken i) then (s, Inl InvalidOwner)
       else if \<not> absolute_path (bp_directory p) then (s, Inl FolderNotAbsolute)
       else if 4 \<le> length (br_transfers (expire now s)) \<and> list_all (\<lambda>(_, t). tr_folder t \<noteq> f) (br_transfers (expire now s))
         then (expire now s, Inl TransferLimit)
       else case begin_sidecar now peer i name stored of Inl e \<Rightarrow> (made_folder now s f, Inl e)
         | Inr st \<Rightarrow> open_transfer fl now fresh (made_folder now s f) f st)"
    by (simp add: blob_begin_def Inr Let_def stored_def at made_folder_def [symmetric])
  let ?full = "4 \<le> length (br_transfers (expire now s)) \<and> list_all (\<lambda>(_, t). tr_folder t \<noteq> f) (br_transfers (expire now s))"
  consider "\<not> valid_owner (bi_senderToken i) \<or> \<not> absolute_path (bp_directory p)"
    | "valid_owner (bi_senderToken i)" "absolute_path (bp_directory p)" ?full
    | "valid_owner (bi_senderToken i)" "absolute_path (bp_directory p)" "\<not> ?full" by blast
  then show ?thesis
  proof cases
    case 1
    then have "blob_begin p fl now fresh s peer i name =
        (s, Inl (if valid_owner (bi_senderToken i) then FolderNotAbsolute else InvalidOwner))" using b by simp
    then show ?thesis by (rule that(1)) simp
  next
    case 2
    then show ?thesis using that(2) b by simp
  next
    case 3
    then have b3: "blob_begin p fl now fresh s peer i name = (case begin_sidecar now peer i name stored of
        Inl e \<Rightarrow> (made_folder now s f, Inl e) | Inr st \<Rightarrow> open_transfer fl now fresh (made_folder now s f) f st)"
      using b by argo
    have slot: "length (br_transfers (expire now s)) < 4 \<or> (\<exists>(j, t)\<in>set (br_transfers (expire now s)). tr_folder t = f)"
      using 3(3) unfolding list_all_iff by fastforce
    show ?thesis
    proof (cases "begin_sidecar now peer i name stored")
      case (Inl e)
      then have "e = InvalidSidecar \<or> e = OtherSend" by (auto simp: begin_sidecar_def split: option.split_asm if_split_asm)
      then show ?thesis using that(3) [OF Inr] b3 Inl by simp
    next
      case (Inr st)
      show ?thesis
        by (rule that(4) [OF \<open>contentKey p peer i = Inr f\<close> _ _ slot]) (use Inr b3 in \<open>simp_all add: stored_def\<close>)
    qed
  qed
qed

lemma blob_begin_ok:
  assumes ok: "receiver_ok C I s"
  shows "receiver_ok C I (fst (blob_begin p fl now fresh s peer i name))"
proof (cases rule: blob_begin_cases [of p fl now fresh s peer i name])
  case (4 f st)
  note made = made_folder_ok [OF ok, of now f]
  have "0 \<le> bi_sizeBytes i" using contentKey_Inr [OF 4(1)] by simp
  then have st: "ident st = (peer, bi_sha256 i, nat (bi_sizeBytes i)) \<and> boundary (sd_sizeBytes st) (sd_committedOffset st)
    \<and> (bf_sidecar (folder_at (made_folder now s f) now f) = None \<and> sd_committedOffset st = 0 \<and> sd_result st = None
       \<or> (\<exists>sc. bf_sidecar (folder_at (made_folder now s f) now f) = Some sc \<and> ident sc = ident st
            \<and> sd_committedOffset sc = sd_committedOffset st \<and> sd_result sc = sd_result st))"
    by (rule begin_sidecar_Inr [OF 4(2)])
  show ?thesis unfolding 4(3) by (rule open_transfer_ok [OF made(1,2)]) (use st in blast)+
qed (simp_all add: ok receiver_ok_expire made_folder_ok)

lemma blob_do_ok:
  assumes "receiver_ok C I s" "honest_call C I (snd (snd step))"
  shows "receiver_ok C I (blob_do p s step)"
proof -
  obtain fl now c where step: "step = (fl, now, c)" by (cases step) auto
  show ?thesis using assms unfolding step
    by (cases c) (simp_all add: blob_begin_ok blob_chunk_ok blob_finish_ok blob_cancel_ok disconnect_ok(1)
      receiver_ok_expire crash_ok)
qed

lemma blob_run_ok:
  "\<forall>step\<in>set steps. honest_call C I (snd (snd step)) \<Longrightarrow> receiver_ok C I s \<Longrightarrow> receiver_ok C I (foldl (blob_do p) s steps)"
  by (induction steps arbitrary: s) (simp_all add: blob_do_ok)

lemma receiver_ok_new: "receiver_ok C I blob_new"
  by (simp add: receiver_ok_def blob_new_def)

subsection \<open>Published files\<close>

text \<open>What a sidecar or a transfer says of its result.\<close>

definition core :: "sidecar \<Rightarrow> file_push_result option \<times> string \<times> nat" where
  "core sc = (sd_result sc, sd_sha256 sc, sd_sizeBytes sc)"

definition cores :: "blob_receiver \<Rightarrow> (file_push_result option \<times> string \<times> nat) set" where
  "cores s = {core sc | f fo sc. (f, fo) \<in> set (br_disk s) \<and> bf_sidecar fo = Some sc}
     \<union> {core (tr_state t) | i t. (i, t) \<in> set (br_transfers s)}"

lemma core_update [simp]:
  "core (st\<lparr>sd_updatedAt := a\<rparr>) = core st" "core (st\<lparr>sd_committedOffset := n\<rparr>) = core st"
  "core (st\<lparr>sd_senderToken := k\<rparr>) = core st"
  by (simp_all add: core_def)

lemma cores_put_transfer: "cores (put_transfer s i t) \<subseteq> insert (core (tr_state t)) (cores s)"
  using set_map_set_subset [where m = "br_transfers s" and k = i and v = t] unfolding cores_def put_simps by fastforce

lemma cores_put_folder:
  "cores (put_folder s f fo) \<subseteq> (case bf_sidecar fo of Some sc \<Rightarrow> {core sc} | None \<Rightarrow> {}) \<union> cores s"
  using set_map_set_subset [where m = "br_disk s" and k = f and v = fo] unfolding cores_def put_simps by (fastforce split: option.split)

lemma cores_at: "bf_sidecar (folder_at s now f) = Some sc \<Longrightarrow> core sc \<in> cores s"
  by (auto simp: cores_def folder_at_def or_else_def no_folder_def split: option.split_asm dest: map_of_SomeD)

lemma cores_transfer: "map_get (br_transfers s) i = Some t \<Longrightarrow> core (tr_state t) \<in> cores s"
  by (auto simp: cores_def dest: map_of_SomeD)

lemma cores_same_sidecar:
  "bf_sidecar fo = bf_sidecar (folder_at s now f) \<Longrightarrow> cores (put_folder s f fo) \<subseteq> cores s"
  using cores_put_folder [of s f fo] cores_at [of s now f] by (auto split: option.split_asm)

lemma cores_fewer:
  "set ts \<subseteq> set (br_transfers s) \<Longrightarrow> cores (s\<lparr>br_transfers := ts\<rparr>) \<subseteq> cores s"
  "set ts \<subseteq> set (br_transfers s) \<Longrightarrow> set d \<subseteq> set (br_disk s) \<Longrightarrow> cores (s\<lparr>br_transfers := ts, br_disk := d\<rparr>) \<subseteq> cores s"
  by (fastforce simp: cores_def)+

lemma cores_files [simp]: "cores (s\<lparr>br_files := x\<rparr>) = cores s"
  by (simp add: cores_def)

lemma cores_write: "cores (write_data s now f off bs) \<subseteq> cores s" "cores (sync_data s now f) \<subseteq> cores s"
  unfolding write_data_def sync_data_def Let_def by (rule cores_same_sidecar; simp)+

lemma cores_persist: "cores (fst (persist fl now s f st)) \<subseteq> insert (core st) (cores s)"
  using cores_put_folder [of s f "(folder_at s now f)\<lparr>bf_sidecar := Some (st\<lparr>sd_updatedAt := now\<rparr>), bf_mtime := now\<rparr>"]
  by (auto simp: persist_def Let_def split: fs_fault.split)

lemma cores_commit: "cores (fst (commit fl now s i t)) \<subseteq> insert (core (tr_state t)) (cores s)"
    "core (tr_state (fst (snd (commit fl now s i t)))) = core (tr_state t)"
    "br_files (fst (commit fl now s i t)) = br_files s"
proof -
  let ?t1 = "t\<lparr>tr_state := (tr_state t)\<lparr>sd_committedOffset := tr_receivedOffset t, sd_updatedAt := now\<rparr>\<rparr>"
  let ?s1 = "put_transfer (sync_data s now (tr_folder t)) i ?t1"
  have "cores ?s1 \<subseteq> insert (core (tr_state t)) (cores s)"
    using cores_put_transfer [of "sync_data s now (tr_folder t)" i ?t1] cores_write(2) [of s now "tr_folder t"] by auto
  then show "cores (fst (commit fl now s i t)) \<subseteq> insert (core (tr_state t)) (cores s)"
    using cores_persist [of fl now ?s1 "tr_folder t" "tr_state ?t1"]
    by (auto simp: commit_def Let_def split: prod.split)
  show "core (tr_state (fst (snd (commit fl now s i t)))) = core (tr_state t)"
    by (simp add: commit_def Let_def split: prod.split)
  show "br_files (fst (commit fl now s i t)) = br_files s"
    using persist_transfers(2) [of fl now ?s1 "tr_folder t" "tr_state ?t1"]
    by (simp add: commit_def Let_def sync_data_def case_prod_beta)
qed

lemma cores_chunk: "cores (fst (blob_chunk fl now s peer env)) \<subseteq> cores s"
  "br_files (fst (blob_chunk fl now s peer env)) = br_files s"
proof -
  have "cores (fst (blob_chunk fl now s peer env)) \<subseteq> cores s \<and> br_files (fst (blob_chunk fl now s peer env)) = br_files s"
  proof (cases "blob_get s peer (ce_transferId env)")
    case (Inr t)
    then have t: "core (tr_state t) \<in> cores s" using cores_transfer by (auto simp: blob_get_Inr)
    let ?i = "ce_transferId env" and ?w = "write_data s now (tr_folder t) (tr_receivedOffset t)"
    have fail: "cores (fst (fail_transfer v i u e)) \<subseteq> insert (core (tr_state u)) (cores v)"
      "br_files (fst (fail_transfer v i u e)) = br_files v" for v i u e
      using cores_put_transfer [of v i "u\<lparr>tr_failure := Some e\<rparr>"] by (simp_all add: fail_transfer_def)
    have w: "cores (?w bs) \<subseteq> cores s" "br_files (?w bs) = br_files s" for bs
      using cores_write(1) by (auto simp: write_data_def Let_def)
    define t1 where "t1 = advanced now t (ce_data env)"
    have t1: "core (tr_state t1) = core (tr_state t)" by (simp add: t1_def advanced_def)
    define s2 where "s2 = put_transfer (?w (ce_data env)) ?i t1"
    have "cores s2 \<subseteq> insert (core (tr_state t1)) (cores (?w (ce_data env)))" unfolding s2_def by (rule cores_put_transfer)
    also have "\<dots> \<subseteq> cores s" using w(1) t t1 by simp
    finally have s2: "cores s2 \<subseteq> cores s" "br_files s2 = br_files s" using w(2) by (simp_all add: s2_def)
    obtain s3 t2 e where com: "commit fl now s2 ?i t1 = (s3, t2, e)" by (metis prod.exhaust)
    have s3: "cores s3 \<subseteq> cores s" "core (tr_state t2) \<in> cores s" "br_files s3 = br_files s"
      using cores_commit [of fl now s2 ?i t1] com s2 t t1 by auto
    have form: "fst (blob_chunk fl now s peer env) = (if \<not> chunk_ok t env then fst (fail_transfer s ?i t InvalidChunk)
        else case fl of WriteFault k \<Rightarrow> fst (fail_transfer (?w (take k (ce_data env))) ?i t AppendFailed)
        | _ \<Rightarrow> (if BLOB_COMMIT_BYTES \<le> tr_receivedOffset t1 - sd_committedOffset (tr_state t)
                   \<or> tr_receivedOffset t1 = sd_sizeBytes (tr_state t)
                then case e of Some err \<Rightarrow> fst (fail_transfer s3 ?i t2 err) | None \<Rightarrow> s3 else s2))"
    proof -
      have "blob_chunk fl now s peer env = (if \<not> chunk_ok t env then fail_transfer s ?i t InvalidChunk
        else case fl of WriteFault k \<Rightarrow> fail_transfer (?w (take k (ce_data env))) ?i t AppendFailed
        | _ \<Rightarrow> (if BLOB_COMMIT_BYTES \<le> tr_receivedOffset t1 - sd_committedOffset (tr_state t)
                   \<or> tr_receivedOffset t1 = sd_sizeBytes (tr_state t)
                then (case commit fl now s2 ?i t1 of (s3, t2, Some err) \<Rightarrow> fail_transfer s3 ?i t2 err
                        | (s3, t2, None) \<Rightarrow> (s3, Inr ()))
                else (s2, Inr ())))"
        unfolding blob_chunk_def Inr sum.case Let_def s2_def t1_def advanced_def by (rule refl)
      then show ?thesis unfolding com prod.case by (simp split: fs_fault.split option.split)
    qed
    have f1: "cores (fst (fail_transfer v i u x)) \<subseteq> cores s \<and> br_files (fst (fail_transfer v i u x)) = br_files s"
      if "cores v \<subseteq> cores s" "core (tr_state u) \<in> cores s" "br_files v = br_files s" for v i u x
      proof -
      have "insert (core (tr_state u)) (cores v) \<subseteq> cores s" using that(1,2) by simp
      then show ?thesis using fail [of v i u x] that(3) order_trans by metis
    qed
    define kept where "kept v \<longleftrightarrow> cores v \<subseteq> cores s \<and> br_files v = br_files s" for v
    have "kept (fst (fail_transfer s ?i t x))" "kept (fst (fail_transfer (?w bs) ?i t x))"
      "kept (fst (fail_transfer s3 ?i t2 x))" "kept s2" "kept s3" for x bs
      unfolding kept_def using f1 [OF order_refl t refl] f1 [OF w(1) t w(2)] f1 [OF s3] s2 s3 by blast+
    then have "kept (fst (blob_chunk fl now s peer env))" unfolding form by (simp split: fs_fault.split option.split)
    then show ?thesis by (simp add: kept_def)
  qed (simp add: blob_chunk_def)
  then show "cores (fst (blob_chunk fl now s peer env)) \<subseteq> cores s"
    "br_files (fst (blob_chunk fl now s peer env)) = br_files s" by simp_all
qed

definition unfinished :: "(file_push_result option \<times> string \<times> nat) set" where
  "unfinished = {c. fst c = None}"

lemma cores_drop: "cores (drop_folder s f) \<subseteq> cores s" "br_files (drop_folder s f) = br_files s"
  unfolding drop_folder_def
  by (rule cores_fewer(2)) (auto simp: close_folder_def dest: subsetD [OF set_map_del_subset])

lemma cores_expire: "cores (expire now s) \<subseteq> cores s" "br_files (expire now s) = br_files s"
proof -
  have "cores (foldl (\<lambda>s' p. if expired now s' p then drop_folder s' (fst p) else s') v ps) \<subseteq> cores v
      \<and> br_files (foldl (\<lambda>s' p. if expired now s' p then drop_folder s' (fst p) else s') v ps) = br_files v" for v ps
  proof (induction ps arbitrary: v)
    case (Cons q ps)
    define v' where "v' = (if expired now v q then drop_folder v (fst q) else v)"
    have "cores v' \<subseteq> cores v" "br_files v' = br_files v" using cores_drop by (simp_all add: v'_def)
    moreover have "cores (foldl (\<lambda>s' p. if expired now s' p then drop_folder s' (fst p) else s') v' ps) \<subseteq> cores v'"
      "br_files (foldl (\<lambda>s' p. if expired now s' p then drop_folder s' (fst p) else s') v' ps) = br_files v'"
      using Cons.IH [of v'] by simp_all
    ultimately show ?case unfolding foldl.simps v'_def [symmetric] by (intro conjI) (erule (1) subset_trans, simp)
  qed simp
  then show "cores (expire now s) \<subseteq> cores s" "br_files (expire now s) = br_files s" by (simp_all add: expire_def)
qed

lemma cores_made: "cores (made_folder now s f) \<subseteq> cores s" "br_files (made_folder now s f) = br_files s"
proof -
  have "cores (made_folder now s f) \<subseteq> cores (expire now s)"
    unfolding made_folder_def by (rule cores_same_sidecar) simp
  then show "cores (made_folder now s f) \<subseteq> cores s" using cores_expire(1) order_trans by blast
  show "br_files (made_folder now s f) = br_files s" by (simp add: made_folder_def cores_expire)
qed

lemma cores_suspend:
  assumes "\<forall>(i, t)\<in>set es. core (tr_state t) \<in> cores s"
  shows "cores (foldl (suspend_one faults now) v es) \<subseteq> cores v \<union> cores s"
    "br_files (foldl (suspend_one faults now) v es) = br_files v"
proof -
  have "cores (foldl (suspend_one faults now) v es) \<subseteq> cores v \<union> cores s
      \<and> br_files (foldl (suspend_one faults now) v es) = br_files v"
    using assms
  proof (induction es arbitrary: v)
    case (Cons e es)
    obtain i t where e: "e = (i, t)" by fastforce
    define v' where "v' = suspend_one faults now v e"
    have "cores v' \<subseteq> cores (fst (persist (faults i) now v (tr_folder t) (tr_state t)))"
      unfolding v'_def e suspend_one_def prod.case close_transfer_def
      by (rule cores_fewer(1)) (rule set_map_del_subset)
    also have "\<dots> \<subseteq> cores v \<union> cores s"
      using cores_persist [of "faults i" now v "tr_folder t" "tr_state t"] Cons.prems e by auto
    finally have "cores v' \<subseteq> cores v \<union> cores s" .
    moreover have "br_files v' = br_files v" by (simp add: v'_def e suspend_one_def)
    moreover have "cores (foldl (suspend_one faults now) v' es) \<subseteq> cores v' \<union> cores s"
        "br_files (foldl (suspend_one faults now) v' es) = br_files v'"
      using Cons.IH [of v'] Cons.prems by simp_all
    ultimately have "cores (foldl (suspend_one faults now) v' es) \<subseteq> cores v \<union> cores s"
        "br_files (foldl (suspend_one faults now) v' es) = br_files v" by (blast, simp)
    then show ?case unfolding foldl.simps v'_def [symmetric] by blast
  qed simp
  then show "cores (foldl (suspend_one faults now) v es) \<subseteq> cores v \<union> cores s"
    "br_files (foldl (suspend_one faults now) v es) = br_files v" by simp_all
qed

lemma cores_disconnect: "cores (blob_disconnect faults now s peer) \<subseteq> cores s" "br_files (blob_disconnect faults now s peer) = br_files s"
proof -
  have "\<forall>(i, t)\<in>set (filter (\<lambda>(_, t). sd_peerId (tr_state t) = peer) (br_transfers s)). core (tr_state t) \<in> cores s"
    by (auto simp: cores_def)
  from cores_suspend [OF this, of faults now s]
  show "cores (blob_disconnect faults now s peer) \<subseteq> cores s" "br_files (blob_disconnect faults now s peer) = br_files s"
    by (simp_all add: blob_disconnect_def)
qed

lemma cores_crash: "cores (blob_crash junk s) \<subseteq> cores s" "br_files (blob_crash junk s) = br_files s"
  by (auto simp: cores_def blob_crash_def crash_folder_def)

lemma begin_sidecar_core:
  "begin_sidecar now peer i name stored = Inr st \<Longrightarrow>
   core st \<in> unfinished \<or> (\<exists>sc. stored = Some sc \<and> core st = core sc)"
  by (auto simp: begin_sidecar_def core_def unfinished_def split: option.split_asm if_split_asm)

lemma cores_open:
  assumes "core st \<in> cores s \<union> unfinished"
  shows "cores (fst (open_transfer fl now fresh s f st)) \<subseteq> cores s \<union> unfinished"
    "br_files (fst (open_transfer fl now fresh s f st)) = br_files s"
proof -
  let ?fo = "folder_at s now f"
  let ?s0 = "s\<lparr>br_transfers := close_folder (br_transfers s) f\<rparr>"
  define s1 where "s1 = put_folder ?s0 f (?fo\<lparr>bf_data := Some (data_of ?fo), bf_mtime := (if bf_data ?fo = None then now else bf_mtime ?fo)\<rparr>)"
  define s2 where "s2 = put_folder s1 f ((folder_at s1 now f)\<lparr>bf_data := Some (take (sd_committedOffset st) (data_of ?fo)),
                         bf_synced := min (bf_synced ?fo) (sd_committedOffset st)\<rparr>)"
  have 0: "cores ?s0 \<subseteq> cores s" by (rule cores_fewer(1)) (auto simp: close_folder_def)
  have "folder_at ?s0 now f = ?fo" by (simp add: folder_at_def)
  then have "cores s1 \<subseteq> cores ?s0" unfolding s1_def by (intro cores_same_sidecar [where now = now]) simp
  then have 1: "cores s1 \<subseteq> cores s" using 0 by blast
  have "cores s2 \<subseteq> cores s1" unfolding s2_def by (rule cores_same_sidecar [where now = now]) simp
  then have 2: "cores s2 \<subseteq> cores s" using 1 by blast
  obtain s3 ok where p: "persist fl now s2 f st = (s3, ok)" by fastforce
  have "cores s3 \<subseteq> insert (core st) (cores s2)" using cores_persist [of fl now s2 f st] p by simp
  then have 3: "cores s3 \<subseteq> cores s \<union> unfinished" using 2 assms by auto
  define u where "u = \<lparr>tr_state = st\<lparr>sd_updatedAt := now\<rparr>, tr_folder = f, tr_receivedOffset = sd_committedOffset st, tr_failure = None\<rparr>"
  have "cores (put_transfer s3 (''blob:'' @ fresh) u) \<subseteq> insert (core (tr_state u)) (cores s3)" by (rule cores_put_transfer)
  then have 4: "cores (put_transfer s3 (''blob:'' @ fresh) u) \<subseteq> cores s \<union> unfinished" using 3 assms by (auto simp: u_def)
  have form: "fst (open_transfer fl now fresh s f st) = (if length (data_of ?fo) < sd_committedOffset st then s1
      else if \<not> ok then s3 else put_transfer s3 (''blob:'' @ fresh) u)"
    unfolding open_transfer_def Let_def s1_def [symmetric] s2_def [symmetric] p prod.case u_def by simp
  show "cores (fst (open_transfer fl now fresh s f st)) \<subseteq> cores s \<union> unfinished"
    unfolding form using 1 3 4 by (simp add: le_supI1)
  have "br_files s2 = br_files s" by (simp add: s2_def s1_def)
  then have "br_files s3 = br_files s" using persist_transfers(2) [of fl now s2 f st] unfolding p by simp
  then show "br_files (fst (open_transfer fl now fresh s f st)) = br_files s" unfolding form by (simp add: s1_def)
qed

lemma cores_begin:
  "cores (fst (blob_begin p fl now fresh s peer i name)) \<subseteq> cores s \<union> unfinished"
  "br_files (fst (blob_begin p fl now fresh s peer i name)) = br_files s"
proof -
  have "cores (fst (blob_begin p fl now fresh s peer i name)) \<subseteq> cores s \<union> unfinished
    \<and> br_files (fst (blob_begin p fl now fresh s peer i name)) = br_files s"
  proof (cases rule: blob_begin_cases [of p fl now fresh s peer i name])
    case (4 f st)
    have "core st \<in> cores (made_folder now s f) \<union> unfinished"
      using begin_sidecar_core [OF 4(2)] cores_at by fastforce
    note o = cores_open [OF this, of fl now fresh f]
    have "cores (fst (open_transfer fl now fresh (made_folder now s f) f st)) \<subseteq> cores s \<union> unfinished"
      using o(1) cores_made(1) [of now s f] by blast
    then show ?thesis unfolding 4(3) using o(2) cores_made(2) [of now s f] by simp
  next
    case 2
    then show ?thesis using cores_expire [of now s] by (simp add: le_supI1)
  next
    case (3 f e)
    then show ?thesis using cores_made [of now s f] by (simp add: le_supI1)
  qed simp
  then show "cores (fst (blob_begin p fl now fresh s peer i name)) \<subseteq> cores s \<union> unfinished"
    "br_files (fst (blob_begin p fl now fresh s peer i name)) = br_files s" by simp_all
qed

text \<open>A result at the path \<open>P\<close> stands for a file with its digest and size.\<close>

definition verified :: "blob_params \<Rightarrow> (string, byte list) jsmap \<Rightarrow> file_push_result \<Rightarrow> bool" where
  "verified p files r \<longleftrightarrow> (\<exists>b. map_get files (fp_path r) = Some b \<and> bp_hash p b = fp_sha256 r \<and> length b = fp_sizeBytes r)"

definition sound_core ::
  "blob_params \<Rightarrow> string \<Rightarrow> (string, byte list) jsmap \<Rightarrow> file_push_result option \<times> string \<times> nat \<Rightarrow> bool" where
  "sound_core p P files c \<longleftrightarrow> (\<forall>r. fst c = Some r \<longrightarrow> snd c = (fp_sha256 r, fp_sizeBytes r)
     \<and> (fp_path r = P \<longrightarrow> verified p files r))"

lemma sound_unfinished [simp]: "c \<in> unfinished \<Longrightarrow> sound_core p P files c"
  by (simp add: unfinished_def sound_core_def)

lemma sound_mono:
  assumes "sound_core p P files c" "map_get files P = None \<or> map_get files' P = map_get files P"
  shows "sound_core p P files' c"
  using assms by (auto simp: sound_core_def verified_def)

lemma publish_Inr:
  assumes "publish p fl now s t = (s', Inr dest)" "length (data_of (folder_at s now (tr_folder t))) = sd_sizeBytes (tr_state t)"
  shows "\<exists>b. map_get (br_files s') dest = Some b \<and> bp_hash p b = sd_sha256 (tr_state t) \<and> length b = sd_sizeBytes (tr_state t)"
  using assms by (auto simp: publish_def Let_def split: if_split_asm option.split_asm)

lemma publish_keeps:
  "publish p fl now s t = (s', res) \<Longrightarrow> map_get (br_files s) P = None \<or> map_get (br_files s') P = map_get (br_files s) P"
  by (auto simp: publish_def Let_def split: if_split_asm option.split_asm)

lemma persist_cores_into:
  assumes "cores s \<subseteq> A" "core st \<in> A"
  shows "cores (fst (persist fl now s f st)) \<subseteq> A"
  using cores_persist [of fl now s f st] assms by blast

lemma publishing_sound:
  assumes ok: "receiver_ok C I s" and sound: "\<forall>c\<in>cores s. sound_core p P (br_files s) c"
    and fin: "blob_finish p fl now s peer i = (s', res)"
    and 4: "blob_get s peer i = Inr t0" "t = t0\<lparr>tr_state := (tr_state t0)\<lparr>sd_result := None\<rparr>\<rparr>"
      "tr_receivedOffset t = sd_sizeBytes (tr_state t)" "commit fl now (put_transfer s i t) i t = (s1, t1, None)"
      "publish p fl now s1 t1 = (s2, res')"
      "blob_finish p fl now s peer i = (case res' of Inl e \<Rightarrow> (s2, Inl e)
        | Inr dest \<Rightarrow> (let x = \<lparr>fp_path = dest, fp_sizeBytes = sd_sizeBytes (tr_state t1), fp_sha256 = sd_sha256 (tr_state t1)\<rparr>;
                          t2 = t1\<lparr>tr_state := (tr_state t1)\<lparr>sd_result := Some x\<rparr>\<rparr>;
                          (s3, ok) = persist fl now (put_transfer s2 i t2) (tr_folder t2) (tr_state t2)
                      in if ok then (close_transfer s3 i, Inr x) else (s3, Inl PersistFailed)))"
  shows "(\<forall>c\<in>cores s'. sound_core p P (br_files s') c) \<and> (\<forall>r. res = Inr r \<longrightarrow> (fp_path r = P \<longrightarrow> verified p (br_files s') r)
      \<and> (\<exists>t. blob_get s peer i = Inr t \<and> fp_sha256 r = sd_sha256 (tr_state t) \<and> fp_sizeBytes r = sd_sizeBytes (tr_state t)))"
proof -
  have t0: "map_get (br_transfers s) i = Some t0" "tr_failure t0 = None" using 4(1) by (simp_all add: blob_get_Inr)
  have s0: "receiver_ok C I (put_transfer s i t)" unfolding 4(2) by (rule put_result_ok [OF ok t0(1)]) simp
  have t: "map_get (br_transfers (put_transfer s i t)) i = Some t" "tr_failure t = None" by (simp_all add: 4(2) t0)
  have none: "sd_result (tr_state t) = None" by (simp add: 4(2))
  note com = commit_ok [OF s0 t 4(3) none, of fl now, unfolded 4(4), simplified]
  obtain fo where fo: "map_get (br_disk (put_transfer s i t)) (tr_folder t) = Some fo" "transfer_ok C I fo t"
    by (rule receiver_ok_at [OF s0 t(1)])
  have "length (data_of fo) = sd_sizeBytes (tr_state t)" using fo(2) t(2) 4(3) by (simp add: transfer_ok_def)
  then have len: "length (data_of (folder_at s1 now (tr_folder t1))) = sd_sizeBytes (tr_state t1)"
    using com fo(1) by (simp add: committed_transfer_def folder_at_def or_else_def)
  have c: "core (tr_state t) \<in> unfinished" by (simp add: 4(2) core_def unfinished_def)
  have "cores (put_transfer s i t) \<subseteq> cores s \<union> unfinished" using cores_put_transfer [of s i t] c by blast
  then have s1: "cores s1 \<subseteq> cores s \<union> unfinished" "br_files s1 = br_files s"
    using cores_commit [of fl now "put_transfer s i t" i t] c unfolding 4(4) by auto
  have "cores s2 = cores s1" using 4(5) by (auto simp: publish_def Let_def split: if_split_asm option.split_asm)
  then have s2: "cores s2 \<subseteq> cores s \<union> unfinished" using s1 by simp
  have "sound_core p P (br_files s2) x" if "x \<in> cores s" for x
    using sound_mono [of p P "br_files s" x "br_files s2"] sound that publish_keeps [OF 4(5), of P] s1(2) by auto
  then have old: "\<forall>x\<in>cores s2. sound_core p P (br_files s2) x" using s2 sound_unfinished by blast
  show ?thesis
  proof (cases res')
    case (Inl e)
    then show ?thesis using old fin 4(6) by auto
  next
    case (Inr dest)
    define x where "x = \<lparr>fp_path = dest, fp_sizeBytes = sd_sizeBytes (tr_state t1), fp_sha256 = sd_sha256 (tr_state t1)\<rparr>"
    define t2 where "t2 = t1\<lparr>tr_state := (tr_state t1)\<lparr>sd_result := Some x\<rparr>\<rparr>"
    obtain s3 okk where per: "persist fl now (put_transfer s2 i t2) (tr_folder t2) (tr_state t2) = (s3, okk)" by fastforce
    have v: "verified p (br_files s2) x"
      using publish_Inr [OF 4(5) [unfolded Inr] len] by (simp add: verified_def x_def)
    have new: "sound_core p P (br_files s2) (core (tr_state t2))" using v by (auto simp: sound_core_def core_def t2_def x_def)
    have f3: "br_files s3 = br_files s2" using persist_transfers(2) [of fl now "put_transfer s2 i t2"] per by (metis fst_conv put_simps(2))
    have "cores (put_transfer s2 i t2) \<subseteq> insert (core (tr_state t2)) (cores s2)" by (rule cores_put_transfer)
    then have "cores s3 \<subseteq> insert (core (tr_state t2)) (cores s2)"
      using persist_cores_into [of "put_transfer s2 i t2" "insert (core (tr_state t2)) (cores s2)" "tr_state t2" fl now "tr_folder t2"]
      by (simp add: per)
    then have 3: "\<forall>y\<in>cores s3. sound_core p P (br_files s3) y" using old new f3 by auto
    have sub: "cores (close_transfer s3 i) \<subseteq> cores s3"
      unfolding close_transfer_def by (rule cores_fewer(1)) (rule set_map_del_subset)
    have res: "(s', res) = (if okk then (close_transfer s3 i, Inr x) else (s3, Inl PersistFailed))"
      using fin 4(6) per unfolding Inr by (cases okk) (simp_all add: Let_def x_def t2_def)
    have t1: "sd_sha256 (tr_state t1) = sd_sha256 (tr_state t0)" "sd_sizeBytes (tr_state t1) = sd_sizeBytes (tr_state t0)"
      using com by (simp_all add: committed_transfer_def 4(2))
    have "\<forall>y\<in>cores (close_transfer s3 i). sound_core p P (br_files (close_transfer s3 i)) y" using 3 sub by auto
    then show ?thesis using res 3 v f3 4(1) t1 by (cases okk) (auto simp: x_def)
  qed
qed

lemma finish_sound:
  assumes ok: "receiver_ok C I s" and sound: "\<forall>c\<in>cores s. sound_core p P (br_files s) c"
    and fin: "blob_finish p fl now s peer i = (s', res)"
  shows "\<forall>c\<in>cores s'. sound_core p P (br_files s') c"
    "\<forall>r. res = Inr r \<longrightarrow> fp_path r = P \<longrightarrow> verified p (br_files s') r"
    "\<forall>r. res = Inr r \<longrightarrow> (\<exists>t. blob_get s peer i = Inr t \<and> fp_sha256 r = sd_sha256 (tr_state t) \<and> fp_sizeBytes r = sd_sizeBytes (tr_state t))"
proof -
  have same: "\<forall>c\<in>cores v. sound_core p P (br_files v) c" if "cores v \<subseteq> cores s \<union> unfinished" "br_files v = br_files s" for v
    using that sound sound_unfinished by auto
  have "(\<forall>c\<in>cores s'. sound_core p P (br_files s') c) \<and> (\<forall>r. res = Inr r \<longrightarrow> (fp_path r = P \<longrightarrow> verified p (br_files s') r)
      \<and> (\<exists>t. blob_get s peer i = Inr t \<and> fp_sha256 r = sd_sha256 (tr_state t) \<and> fp_sizeBytes r = sd_sizeBytes (tr_state t)))"
  proof (cases rule: blob_finish_cases [of p fl now s peer i])
    case (1 e)
    then show ?thesis using fin sound by simp
  next
    case (2 t r)
    then have m: "map_get (br_transfers s) i = Some t" by (simp add: blob_get_Inr)
    then have "put_transfer s i t = s" by (simp add: put_transfer_def update_triv)
    then have s': "s' = close_transfer s i" "res = Inr r" using 2(4) fin by simp_all
    have "sound_core p P (br_files s) (core (tr_state t))" using sound cores_transfer [OF m] by blast
    then have "snd (core (tr_state t)) = (fp_sha256 r, fp_sizeBytes r) \<and> (fp_path r = P \<longrightarrow> verified p (br_files s) r)"
      using 2(2) by (simp add: sound_core_def core_def)
    moreover have "cores (close_transfer s i) \<subseteq> cores s"
      unfolding close_transfer_def by (rule cores_fewer(1)) (rule set_map_del_subset)
    ultimately show ?thesis using same [of s'] 2(1) by (auto simp: s' core_def)
  next
    case (3 t0 t e)
    have c: "core (tr_state t) \<in> unfinished" by (simp add: 3(2) core_def unfinished_def)
    have p: "cores (put_transfer s i t) \<subseteq> cores s \<union> unfinished" using cores_put_transfer [of s i t] c by blast
    then have "cores (fst (commit fl now (put_transfer s i t) i t)) \<subseteq> cores s \<union> unfinished"
      using cores_commit(1) [of fl now "put_transfer s i t" i t] c by blast
    then show ?thesis using 3(3) fin same [of s'] p cores_commit(3) [of fl now "put_transfer s i t" i t] by auto
  next
    case (4 t0 t s1 t1 s2 res')
    show ?thesis by (rule publishing_sound [OF ok sound fin 4])
  qed
  then show "\<forall>c\<in>cores s'. sound_core p P (br_files s') c"
    "\<forall>r. res = Inr r \<longrightarrow> fp_path r = P \<longrightarrow> verified p (br_files s') r"
    "\<forall>r. res = Inr r \<longrightarrow> (\<exists>t. blob_get s peer i = Inr t \<and> fp_sha256 r = sd_sha256 (tr_state t) \<and> fp_sizeBytes r = sd_sizeBytes (tr_state t))"
    by blast+
qed

lemma blob_do_sound:
  assumes "receiver_ok C I s" "\<forall>c\<in>cores s. sound_core p P (br_files s) c" "snd (snd step) \<noteq> BlMoved P"
  shows "\<forall>c\<in>cores (blob_do p s step). sound_core p P (br_files (blob_do p s step)) c"
proof -
  obtain fl now c where step: "step = (fl, now, c)" by (cases step) auto
  have same: "\<forall>c\<in>cores v. sound_core p P (br_files v) c" if "cores v \<subseteq> cores s \<union> unfinished" "br_files v = br_files s" for v
    using that assms(2) sound_unfinished by auto
  show ?thesis
  proof (cases c)
    case (BlBegin fresh peer i name)
    then show ?thesis unfolding step using same [OF cores_begin] by simp
  next
    case (BlChunk peer env)
    then show ?thesis unfolding step using same [OF le_supI1 [OF cores_chunk(1)] cores_chunk(2)] by simp
  next
    case (BlFinish peer i)
    obtain s' res where fin: "blob_finish p fl now s peer i = (s', res)" by fastforce
    then show ?thesis unfolding step BlFinish using finish_sound(1) [OF assms(1,2) fin] by simp
  next
    case (BlCancel peer i)
    have sub: "cores (fst (blob_cancel p s peer i)) \<subseteq> cores s \<and> br_files (fst (blob_cancel p s peer i)) = br_files s"
      using cores_drop by (simp add: blob_cancel_def split: sum.split option.split)
    show ?thesis unfolding step BlCancel blob_do.simps
      by (rule same) (use sub in blast)+
  next
    case (BlMoved path)
    then have "path \<noteq> P" using assms(3) step by simp
    then have "map_get (br_files (blob_do p s step)) P = map_get (br_files s) P" by (simp add: step BlMoved)
    moreover have "cores (blob_do p s step) = cores s" by (simp add: step BlMoved)
    ultimately show ?thesis using assms(2) sound_mono by metis
  next
    case (BlDisconnect peer faults)
    show ?thesis unfolding step BlDisconnect blob_do.simps
      by (rule same [OF le_supI1 [OF cores_disconnect(1)] cores_disconnect(2)])
  next
    case BlExpire
    show ?thesis unfolding step BlExpire blob_do.simps by (rule same [OF le_supI1 [OF cores_expire(1)] cores_expire(2)])
  next
    case (BlCrash junk)
    show ?thesis unfolding step BlCrash blob_do.simps by (rule same [OF le_supI1 [OF cores_crash(1)] cores_crash(2)])
  qed
qed

lemma blob_run_sound:
  "receiver_ok C {} s \<Longrightarrow> \<forall>c\<in>cores s. sound_core p P (br_files s) c \<Longrightarrow> \<forall>step\<in>set steps. snd (snd step) \<noteq> BlMoved P \<Longrightarrow>
   receiver_ok C {} (foldl (blob_do p) s steps)
   \<and> (\<forall>c\<in>cores (foldl (blob_do p) s steps). sound_core p P (br_files (foldl (blob_do p) s steps)) c)"
proof (induction steps arbitrary: s)
  case (Cons step steps)
  have "honest_call C {} (snd (snd step))" by (simp add: honest_call_def split: blob_call.split)
  then have "receiver_ok C {} (blob_do p s step)" by (rule blob_do_ok [OF Cons.prems(1)])
  moreover have "\<forall>c\<in>cores (blob_do p s step). sound_core p P (br_files (blob_do p s step)) c"
    by (rule blob_do_sound [OF Cons.prems(1,2)]) (use Cons.prems(3) in simp)
  ultimately show ?case using Cons.IH Cons.prems(3) by simp
qed simp

text \<open>
  C27: A finished transfer is the announced file. Whatever peers send, in whatever order, through
  any disk faults, crashes, cancellations and resumptions, when the receiver reports a transfer as
  published, a file stands at the reported path whose SHA-256 and length are the ones this peer
  announced for the transfer, unless the operator has moved that file away.
\<close>

theorem published_blob_verified:
  assumes "s = foldl (blob_do p) blob_new steps" "blob_finish p fl now s peer i = (s', Inr r)"
    and "\<forall>step\<in>set steps. snd (snd step) \<noteq> BlMoved (fp_path r)"
  shows "\<exists>t b. map_get (br_transfers s) i = Some t \<and> sd_peerId (tr_state t) = peer
    \<and> map_get (br_files s') (fp_path r) = Some b \<and> bp_hash p b = sd_sha256 (tr_state t)
    \<and> length b = sd_sizeBytes (tr_state t) \<and> fp_sha256 r = sd_sha256 (tr_state t)"
proof -
  have "cores blob_new = {}" by (simp add: cores_def blob_new_def)
  then have "receiver_ok [] {} s" "\<forall>c\<in>cores s. sound_core p (fp_path r) (br_files s) c"
    using blob_run_sound [OF receiver_ok_new _ assms(3), where C = "[]" and p = p] unfolding assms(1) by simp_all
  note fin = finish_sound(2,3) [OF this assms(2)]
  obtain t where "blob_get s peer i = Inr t" "fp_sha256 r = sd_sha256 (tr_state t)" "fp_sizeBytes r = sd_sizeBytes (tr_state t)"
    using fin(2) by blast
  moreover have "verified p (br_files s') r" using fin(1) by blast
  ultimately show ?thesis by (auto simp: verified_def blob_get_Inr)
qed

text \<open>A short file in one chunk.\<close>

definition demo_params :: blob_params where
  "demo_params = \<lparr>bp_hash = (\<lambda>b. replicate 64 (if b = [1, 2, 3] then CHR ''a'' else CHR ''b'')),
     bp_key = (\<lambda>peer sha n. ''0123456789abcdef''), bp_directory = ''/in''\<rparr>"

definition demo_sent :: "(fs_fault \<times> int \<times> blob_call) list" where
  "demo_sent = [(NoFault, 10, BlBegin ''one'' ''peer'' \<lparr>bi_sha256 = replicate 64 (CHR ''a''), bi_sizeBytes = 3,
       bi_senderToken = None\<rparr> ''a.txt''),
     (NoFault, 11, BlChunk ''peer'' \<lparr>ce_filePush = True, ce_transferId = ''blob:one'', ce_chunkIndex = 0, ce_chunkCount = 1,
       ce_totalSize = 3, ce_sha256 = replicate 64 (CHR ''a''), ce_data = [1, 2, 3]\<rparr>)]"

theorem published_blob_verified_witness:
  "\<exists>s' r b. blob_finish demo_params NoFault 12 (foldl (blob_do demo_params) blob_new demo_sent) ''peer'' ''blob:one'' = (s', Inr r)
     \<and> map_get (br_files s') (fp_path r) = Some b \<and> bp_hash demo_params b = replicate 64 (CHR ''a'')"
proof -
  let ?s = "foldl (blob_do demo_params) blob_new demo_sent"
  have "case blob_finish demo_params NoFault 12 ?s ''peer'' ''blob:one'' of
      (_, Inl _) \<Rightarrow> False | (_, Inr r) \<Rightarrow> fp_sha256 r = replicate 64 (CHR ''a'')"
    by (simp add: demo_sent_def demo_params_def blob_eval)
  then obtain s' r where fin: "blob_finish demo_params NoFault 12 ?s ''peer'' ''blob:one'' = (s', Inr r)"
    "fp_sha256 r = replicate 64 (CHR ''a'')"
    by (auto split: prod.split_asm sum.split_asm)
  have "\<forall>step\<in>set demo_sent. snd (snd step) \<noteq> BlMoved (fp_path r)" by (simp add: demo_sent_def)
  from published_blob_verified [OF refl fin(1) this] fin show ?thesis by metis
qed

end
