(* ===== verification/BlobResume.thy ===== *)
theory BlobResume
  imports BlobReceiverProps
begin

text \<open>
  What a resumed transfer relies on (federation/src/federation-resumable-blob.ts): the offsets that the
  receiver answers are the ones its sidecars hold, and for a day after a sidecar was written no call,
  fault or crash takes its offset back, but for a cancellation.
\<close>

subsection \<open>The sidecar of a folder\<close>

definition side :: "blob_receiver \<Rightarrow> string \<Rightarrow> sidecar option" where
  "side s f = Option.bind (map_get (br_disk s) f) bf_sidecar"

text \<open>At least \<open>c\<close> bytes are on record for the folder \<open>f\<close>, since the time \<open>u\<close> or later.\<close>

definition kept_at :: "string \<Rightarrow> nat \<Rightarrow> int \<Rightarrow> blob_receiver \<Rightarrow> bool" where
  "kept_at f c u s \<longleftrightarrow> (\<exists>sc. side s f = Some sc \<and> c \<le> sd_committedOffset sc \<and> u \<le> sd_updatedAt sc)"

lemma side_simps [simp]:
  "side (put_transfer s i t) f = side s f" "side (close_transfer s i) f = side s f"
  "side (s\<lparr>br_transfers := ts\<rparr>) f = side s f" "side (s\<lparr>br_files := x\<rparr>) f = side s f"
  "side (put_folder s g fo) f = (if g = f then bf_sidecar fo else side s f)"
  by (simp_all add: side_def)

lemma kept_simps [simp]:
  "kept_at f c u (put_transfer s i t) = kept_at f c u s" "kept_at f c u (close_transfer s i) = kept_at f c u s"
  "kept_at f c u (s\<lparr>br_transfers := ts\<rparr>) = kept_at f c u s" "kept_at f c u (s\<lparr>br_files := x\<rparr>) = kept_at f c u s"
  by (simp_all add: kept_at_def)

lemma side_at: "map_get (br_disk s) f = Some fo \<Longrightarrow> side s f = bf_sidecar fo"
  by (simp add: side_def)

lemma side_folder_at: "bf_sidecar (folder_at s now f) = side s f"
  by (simp add: side_def folder_at_def or_else_def no_folder_def split: option.split)

lemma side_of_disk: "br_disk s' = br_disk s \<Longrightarrow> side s' f = side s f"
  by (simp add: side_def)

lemma side_persist: "side (fst (persist fl now s g st)) f =
    (if g = f \<and> fl \<noteq> PersistFault False then Some (st\<lparr>sd_updatedAt := now\<rparr>) else side s f)"
  by (auto simp: persist_def Let_def split: fs_fault.split)

lemma kept_persist:
  "kept_at f c u s \<Longrightarrow> u \<le> now \<Longrightarrow> (g = f \<Longrightarrow> c \<le> sd_committedOffset st) \<Longrightarrow> kept_at f c u (fst (persist fl now s g st))"
  by (auto simp: kept_at_def side_persist)

lemma side_drop: "side (drop_folder s g) f = (if g = f then None else side s f)"
  by (simp add: side_def drop_folder_def)

lemma transfer_side:
  assumes "receiver_ok C I s" "map_get (br_transfers s) i = Some t"
  obtains sc where "side s (tr_folder t) = Some sc" "sd_committedOffset sc \<le> sd_committedOffset (tr_state t)"
    "sd_committedOffset (tr_state t) \<le> tr_receivedOffset t"
proof -
  obtain fo where "map_get (br_disk s) (tr_folder t) = Some fo" "transfer_ok C I fo t" by (rule receiver_ok_at [OF assms])
  then show ?thesis using that by (auto simp: transfer_ok_def side_at)
qed

lemma kept_transfer:
  assumes "receiver_ok C I s" "kept_at f c u s" "map_get (br_transfers s) i = Some t" "tr_folder t = f"
  shows "c \<le> sd_committedOffset (tr_state t)" "c \<le> tr_receivedOffset t"
  using transfer_side [OF assms(1,3)] assms(2,4) unfolding kept_at_def by (metis option.inject order_trans)+

subsection \<open>No call takes an offset back\<close>

lemma kept_put_committed:
  assumes "kept_at f c u s" "map_get (br_disk s) g = Some fo" "u \<le> now" "g = f \<Longrightarrow> c \<le> sd_committedOffset st"
  shows "kept_at f c u (put_folder s g (committed_folder fl now fo st))"
  using assms by (auto simp: kept_at_def committed_folder_def Let_def side_at)

lemma kept_commit:
  assumes "receiver_ok C I s" "kept_at f c u s" "map_get (br_transfers s) i = Some t" "u \<le> now"
  shows "kept_at f c u (fst (commit fl now s i t))"
proof (cases "fl = SyncFault")
  case True
  then show ?thesis using assms(2) by (simp add: commit_def)
next
  case False
  obtain fo where fo: "map_get (br_disk s) (tr_folder t) = Some fo" by (rule receiver_ok_at [OF assms(1,3)])
  have "tr_folder t = f \<Longrightarrow> c \<le> tr_receivedOffset t" by (rule kept_transfer(2) [OF assms(1-3)])
  then show ?thesis using kept_put_committed [OF assms(2) fo assms(4)] by (simp add: commit_form [OF fo False])
qed

lemma kept_chunk:
  assumes ok: "receiver_ok C I s" and kept: "kept_at f c u s" and now: "u \<le> now"
  shows "kept_at f c u (fst (blob_chunk fl now s peer env))"
proof (cases "blob_get s peer (ce_transferId env)")
  case (Inl e)
  then show ?thesis using kept by (simp add: blob_chunk_def)
next
  case (Inr t)
  then have t: "map_get (br_transfers s) (ce_transferId env) = Some t" "tr_failure t = None" by (simp_all add: blob_get_Inr)
  obtain fo where fo: "map_get (br_disk s) (tr_folder t) = Some fo" "transfer_ok C I fo t" by (rule receiver_ok_at [OF ok t(1)])
  have le: "tr_folder t = f \<Longrightarrow> c \<le> tr_receivedOffset t" by (rule kept_transfer(2) [OF ok kept t(1)])
  show ?thesis
  proof (cases "chunk_ok t env")
    case False
    then show ?thesis using Inr kept by (simp add: blob_chunk_def Let_def fail_transfer_def)
  next
    case True
    define fo' where "fo' = fo\<lparr>bf_data := Some (data_of fo @ ce_data env)\<rparr>"
    define t' where "t' = advanced now t (ce_data env)"
    have len: "length (data_of fo) = tr_receivedOffset t" using fo(2) t(2) by (simp add: transfer_ok_def)
    have same: "kept_at f c u (put_folder s (tr_folder t) (fo\<lparr>bf_data := Some d\<rparr>))" for d
      using kept fo(1) by (auto simp: kept_at_def side_at)
    have "kept_at f c u (put_folder (put_folder s (tr_folder t) fo') (tr_folder t)
        (committed_folder fl now fo' (tr_state (committed_transfer now t'))))"
      by (rule kept_put_committed) (use same now le in \<open>auto simp: fo'_def t'_def\<close>)
    then show ?thesis using chunk_form [OF Inr fo(1) len True fo'_def t'_def, of fl] same
      by (auto simp: fo'_def split: if_split_asm)
  qed
qed

lemma put_result:
  assumes "receiver_ok C I s" "blob_get s peer i = Inr t0" "t = t0\<lparr>tr_state := (tr_state t0)\<lparr>sd_result := None\<rparr>\<rparr>"
  shows "receiver_ok C I (put_transfer s i t)" "map_get (br_transfers (put_transfer s i t)) i = Some t" "tr_failure t = None"
    "sd_result (tr_state t) = None"
proof -
  have t0: "map_get (br_transfers s) i = Some t0" "tr_failure t0 = None" using assms(2) by (simp_all add: blob_get_Inr)
  show "receiver_ok C I (put_transfer s i t)" unfolding assms(3) by (rule put_result_ok [OF assms(1) t0(1)]) simp
qed (use assms in \<open>simp_all add: blob_get_Inr\<close>)

lemma kept_finish:
  assumes ok: "receiver_ok C I s" and kept: "kept_at f c u s" and now: "u \<le> now"
  shows "kept_at f c u (fst (blob_finish p fl now s peer i))"
proof (cases rule: blob_finish_cases [of p fl now s peer i])
  case (3 t0 t e)
  note s0 = put_result [OF ok 3(1,2)]
  have "kept_at f c u (fst (commit fl now (put_transfer s i t) i t))"
    by (rule kept_commit [OF s0(1) _ s0(2) now]) (simp add: kept)
  then show ?thesis using 3(3) kept by auto
next
  case (4 t0 t s1 t1 s2 res)
  note s0 = put_result [OF ok 4(1,2)]
  have s1: "kept_at f c u s1"
    using kept_commit [OF s0(1) _ s0(2) now, of f c fl] kept by (simp add: 4(4))
  have t1: "t1 = committed_transfer now t"
    using commit_ok(2) [OF s0(1-3) 4(3) s0(4), of fl now] by (simp add: 4(4))
  have le: "c \<le> tr_receivedOffset t" if "tr_folder t = f"
    using kept_transfer(2) [OF s0(1) _ s0(2) that, of c u] kept by simp
  have s2: "side s2 f = side s1 f"
    using publish_fields(1) [of p fl now s1 t1] unfolding 4(5) fst_conv by (rule side_of_disk)
  have p2: "kept_at f c u (fst (persist fl now (put_transfer s2 i (t1\<lparr>tr_state := (tr_state t1)\<lparr>sd_result := x\<rparr>\<rparr>))
      (tr_folder t1) ((tr_state t1)\<lparr>sd_result := x\<rparr>)))" for x
    by (rule kept_persist) (use s1 s2 now le in \<open>simp_all add: kept_at_def t1\<close>)
  show ?thesis unfolding 4(6) using s1 s2 p2 by (cases res) (simp_all add: Let_def case_prod_beta kept_at_def)
qed (use kept in simp_all)

lemma kept_expire:
  assumes "receiver_ok C I s" "kept_at f c u s" "now \<le> u + BLOB_RETENTION_MS"
  shows "kept_at f c u (expire now s)"
proof -
  obtain sc where sc: "side s f = Some sc" "c \<le> sd_committedOffset sc" "u \<le> sd_updatedAt sc"
    using assms(2) by (auto simp: kept_at_def)
  have young: "\<not> expired now v (g, fo)" if "(g, fo) \<in> set (br_disk s)" "g = f" for v g fo
  proof -
    have "map_get (br_disk s) f = Some fo" using assms(1) that by (simp add: receiver_ok_def)
    then have "bf_sidecar fo = Some sc" using sc(1) by (simp add: side_at)
    then show ?thesis using sc(3) assms(3) by (simp add: expired_def)
  qed
  have "kept_at f c u (foldl (\<lambda>s' p. if expired now s' p then drop_folder s' (fst p) else s') v ps)"
    if "kept_at f c u v" "\<forall>q\<in>set ps. fst q = f \<longrightarrow> (\<forall>v. \<not> expired now v q)" for v ps
    using that
  proof (induction ps arbitrary: v)
    case (Cons q ps)
    have "kept_at f c u (if expired now v q then drop_folder v (fst q) else v)"
      using Cons.prems by (auto simp: kept_at_def side_drop)
    then show ?case using Cons.IH Cons.prems(2) by simp
  qed simp
  moreover have "\<forall>q\<in>set (br_disk s). fst q = f \<longrightarrow> (\<forall>v. \<not> expired now v q)"
  proof (intro ballI impI allI)
    fix q v
    assume q: "q \<in> set (br_disk s)" "fst q = f"
    show "\<not> expired now v q" using young [of "fst q" "snd q" v] q by (cases q) simp
  qed
  ultimately show ?thesis using assms(2) unfolding expire_def by blast
qed

lemma kept_made:
  assumes "kept_at f c u (expire now s)"
  shows "kept_at f c u (made_folder now s g)"
  using assms by (auto simp: kept_at_def made_folder_def side_folder_at)

lemma kept_begin:
  assumes ok: "receiver_ok C I s" and kept: "kept_at f c u s" and now: "u \<le> now" "now \<le> u + BLOB_RETENTION_MS"
  shows "kept_at f c u (fst (blob_begin p fl now fresh s peer i name))"
proof (cases rule: blob_begin_cases [of p fl now fresh s peer i name])
  case (3 g e)
  then show ?thesis using kept_made [OF kept_expire [OF ok kept now(2)]] by simp
next
  case (4 g st)
  note m = kept_made [OF kept_expire [OF ok kept now(2)], of g]
  note made = made_folder_ok [OF ok, of now g]
  let ?fo = "folder_at (made_folder now s g) now g"
  have i: "0 \<le> bi_sizeBytes i" using contentKey_Inr [OF 4(1)] by simp
  have st: "boundary (sd_sizeBytes st) (sd_committedOffset st)"
    "bf_sidecar ?fo = None \<and> sd_committedOffset st = 0 \<and> sd_result st = None
       \<or> (\<exists>sc. bf_sidecar ?fo = Some sc \<and> ident sc = ident st \<and> sd_committedOffset sc = sd_committedOffset st \<and> sd_result sc = sd_result st)"
    using begin_sidecar_Inr [OF 4(2) i] by blast+
  have fo: "folder_ok C I ?fo" using made(1,2) unfolding receiver_ok_def by blast
  have le: "c \<le> sd_committedOffset st" if "g = f"
    using m st(2) that by (auto simp: kept_at_def side_folder_at)
  have "kept_at f c u (put_folder s0 g (begun_folder now ?fo st))"
    "kept_at f c u (put_folder s0 g (cut_folder now ?fo k))" if "br_disk s0 = br_disk (made_folder now s g)" for s0 k
    using m le now(1) side_of_disk [OF that]
    by (auto simp: kept_at_def begun_folder_def cut_folder_def side_folder_at)
  then show ?thesis unfolding 4(3) open_transfer_form [OF made(2) begun_ok(1) [OF fo st] refl]
    by (cases fl) auto
qed (simp_all add: kept kept_expire [OF ok kept now(2)])

lemma kept_disconnect:
  assumes ok: "receiver_ok C I s" and kept: "kept_at f c u s" and now: "u \<le> now"
  shows "kept_at f c u (blob_disconnect faults now s peer)"
proof -
  have all: "c \<le> sd_committedOffset (tr_state t)" if "(i, t) \<in> set (br_transfers s)" "tr_folder t = f" for i t
    using kept_transfer(1) [OF ok kept _ that(2), of i] that(1) ok by (simp add: receiver_ok_def)
  have "kept_at f c u (foldl (suspend_one faults now) v es)"
    if "kept_at f c u v" "\<forall>(i, t)\<in>set es. tr_folder t = f \<longrightarrow> c \<le> sd_committedOffset (tr_state t)" for v es
    using that
  proof (induction es arbitrary: v)
    case (Cons e es)
    obtain i t where e: "e = (i, t)" by fastforce
    have "kept_at f c u (suspend_one faults now v (i, t))"
      using Cons.prems e now by (auto simp: suspend_one_def intro: kept_persist)
    then show ?case using Cons.IH Cons.prems(2) e by simp
  qed simp
  moreover have "\<forall>(i, t)\<in>set (filter (\<lambda>(_, t). sd_peerId (tr_state t) = peer) (br_transfers s)).
      tr_folder t = f \<longrightarrow> c \<le> sd_committedOffset (tr_state t)"
    using all by auto
  ultimately show ?thesis unfolding blob_disconnect_def using kept by blast
qed

lemma kept_crash: "kept_at f c u (blob_crash junk s) = kept_at f c u s"
proof -
  have "Option.bind (map_get (map (crash_folder junk) m) f) bf_sidecar = Option.bind (map_get m f) bf_sidecar" for m
    by (induction m) (auto simp: crash_folder_def)
  then have "side (blob_crash junk s) f = side s f" by (simp add: side_def blob_crash_def)
  then show ?thesis by (simp add: kept_at_def)
qed

text \<open>The cancellation of a transfer by its own sender is the one call that gives its folder up.\<close>

fun cancels :: "blob_params \<Rightarrow> string \<Rightarrow> blob_call \<Rightarrow> bool" where
  "cancels p f (BlCancel peer i) = (contentKey p peer i = Inr f)"
| "cancels p f _ = False"

lemma kept_step:
  assumes "receiver_ok C I s" "kept_at f c u s" "u \<le> now" "now \<le> u + BLOB_RETENTION_MS" "\<not> cancels p f call"
  shows "kept_at f c u (blob_do p s (fl, now, call))"
proof (cases call)
  case (BlCancel peer i)
  then show ?thesis using assms(2,5)
    by (auto simp: blob_cancel_def kept_at_def side_drop split: sum.split option.split)
qed (use assms in \<open>simp_all add: kept_begin kept_chunk kept_finish kept_disconnect kept_expire kept_crash\<close>)

lemma kept_run:
  assumes "receiver_ok C I s" "kept_at f c u s" "\<forall>step\<in>set steps. honest_call C I (snd (snd step))"
    and "\<forall>(fl, now, call)\<in>set steps. u \<le> now \<and> now \<le> u + BLOB_RETENTION_MS \<and> \<not> cancels p f call"
  shows "kept_at f c u (foldl (blob_do p) s steps)"
  using assms
proof (induction steps arbitrary: s)
  case (Cons step steps)
  obtain fl now call where step: "step = (fl, now, call)" by (cases step) auto
  have "receiver_ok C I (blob_do p s step)" by (rule blob_do_ok [OF Cons.prems(1)]) (use Cons.prems(3) in simp)
  moreover have "kept_at f c u (blob_do p s step)"
    unfolding step by (rule kept_step [OF Cons.prems(1,2)]) (use Cons.prems(4) step in auto)
  ultimately show ?case using Cons.IH Cons.prems(3,4) by simp
qed simp

subsection \<open>An answered offset is on record\<close>

text \<open>A transfer's folder is its content's; while it has not failed, its offset is the sidecar's.\<close>

definition filed :: "blob_params \<Rightarrow> blob_receiver \<Rightarrow> transfer \<Rightarrow> bool" where
  "filed p s t \<longleftrightarrow> tr_folder t = bp_key p (sd_peerId (tr_state t)) (sd_sha256 (tr_state t)) (sd_sizeBytes (tr_state t))
     \<and> (tr_failure t = None \<longrightarrow> (\<exists>sc. side s (tr_folder t) = Some sc \<and> sd_committedOffset sc = sd_committedOffset (tr_state t))
          \<and> (tr_receivedOffset t = sd_sizeBytes (tr_state t) \<longrightarrow> sd_committedOffset (tr_state t) = sd_sizeBytes (tr_state t)))"

definition all_filed :: "blob_params \<Rightarrow> blob_receiver \<Rightarrow> bool" where
  "all_filed p s \<longleftrightarrow> (\<forall>i t. map_get (br_transfers s) i = Some t \<longrightarrow> filed p s t)"

lemma filed_side: "side s' (tr_folder t) = side s (tr_folder t) \<Longrightarrow> filed p s' t = filed p s t"
  by (simp add: filed_def)

lemma filed_simps [simp]:
  "filed p (put_transfer s i u) t = filed p s t" "filed p (close_transfer s i) t = filed p s t"
  "filed p (s\<lparr>br_files := x\<rparr>) t = filed p s t"
  by (simp_all add: filed_def)

lemma filed_result: "filed p s (t\<lparr>tr_state := (tr_state t)\<lparr>sd_result := x\<rparr>\<rparr>) = filed p s t"
  by (simp add: filed_def)

lemma filed_same_ident:
  assumes "filed p s t" "ident (tr_state t') = ident (tr_state t)" "tr_folder t' = tr_folder t"
    and "tr_failure t' = None \<Longrightarrow> (\<exists>sc. side s' (tr_folder t) = Some sc \<and> sd_committedOffset sc = sd_committedOffset (tr_state t'))
        \<and> (tr_receivedOffset t' = sd_sizeBytes (tr_state t) \<longrightarrow> sd_committedOffset (tr_state t') = sd_sizeBytes (tr_state t))"
  shows "filed p s' t'"
  using assms by (auto simp: filed_def ident_def)

text \<open>A change of one transfer and its folder.\<close>

lemma all_filed_put:
  assumes ok: "receiver_ok C I s" and all: "all_filed p s" and t: "map_get (br_transfers s) i = Some t"
    and same: "br_transfers s' = map_set (br_transfers s) i t'" "\<And>f. f \<noteq> tr_folder t \<Longrightarrow> side s' f = side s f"
    and new: "filed p s' t'"
  shows "all_filed p s'"
  unfolding all_filed_def
proof (intro allI impI)
  fix j u
  assume u: "map_get (br_transfers s') j = Some u"
  have uniq: "tr_folder u = tr_folder t \<Longrightarrow> map_get (br_transfers s) j = Some u \<Longrightarrow> j = i"
    using ok t unfolding receiver_ok_def by metis
  show "filed p s' u"
  proof (cases "j = i")
    case True
    then show ?thesis using u new by (simp add: same(1))
  next
    case False
    then have m: "map_get (br_transfers s) j = Some u" using u by (simp add: same(1))
    then have "tr_folder u \<noteq> tr_folder t" using uniq False by blast
    then have "side s' (tr_folder u) = side s (tr_folder u)" by (rule same(2))
    moreover have "filed p s u" using all m unfolding all_filed_def by blast
    ultimately show ?thesis using filed_side by blast
  qed
qed

lemma all_filed_state:
  assumes "receiver_ok C I s" "all_filed p s" "map_get (br_transfers s) i = Some t" "filed p s t'"
  shows "all_filed p (put_transfer s i t')"
  by (rule all_filed_put [OF assms(1-3)]) (use assms(4) in simp_all)

lemma all_filed_fewer:
  assumes "all_filed p s" "\<And>i t. map_get (br_transfers s') i = Some t \<Longrightarrow>
    map_get (br_transfers s) i = Some t \<and> side s' (tr_folder t) = side s (tr_folder t)"
  shows "all_filed p s'"
  using assms by (metis all_filed_def filed_side)

lemma filed_full:
  assumes "filed p s t" "tr_failure t = None" "tr_receivedOffset t = sd_sizeBytes (tr_state t)"
  obtains sc where "side s (tr_folder t) = Some sc" "sd_committedOffset sc = tr_receivedOffset t"
    "sd_committedOffset (tr_state t) = tr_receivedOffset t"
proof -
  obtain sc where "side s (tr_folder t) = Some sc" "sd_committedOffset sc = sd_committedOffset (tr_state t)"
    "sd_committedOffset (tr_state t) = sd_sizeBytes (tr_state t)" using assms unfolding filed_def by blast
  then show ?thesis using that assms(3) by simp
qed

lemma filed_commit_full:
  assumes ok: "receiver_ok C I s" and all: "all_filed p s" and t: "map_get (br_transfers s) i = Some t" "tr_failure t = None"
    and full: "tr_receivedOffset t = sd_sizeBytes (tr_state t)"
  shows "all_filed p (fst (commit fl now s i t))"
proof (cases "fl = SyncFault")
  case True
  then show ?thesis using all by (simp add: commit_def)
next
  case False
  obtain fo where fo: "map_get (br_disk s) (tr_folder t) = Some fo" by (rule receiver_ok_at [OF ok t(1)])
  have f: "filed p s t" using all t(1) by (simp add: all_filed_def)
  obtain sc where sc: "side s (tr_folder t) = Some sc" "sd_committedOffset sc = tr_receivedOffset t"
    by (rule filed_full [OF f t(2) full])
  let ?s = "put_transfer (put_folder s (tr_folder t) (committed_folder fl now fo (tr_state (committed_transfer now t)))) i (committed_transfer now t)"
  have "filed p ?s (committed_transfer now t)"
    by (rule filed_same_ident [OF f]) (use sc fo full in \<open>auto simp: committed_folder_def Let_def side_at\<close>)
  then have "all_filed p ?s" by (intro all_filed_put [OF ok all t(1)]) simp_all
  then show ?thesis by (simp add: commit_form [OF fo False])
qed

lemma filed_chunk:
  assumes ok: "receiver_ok C I s" and all: "all_filed p s"
  shows "all_filed p (fst (blob_chunk fl now s peer env))"
proof (cases "blob_get s peer (ce_transferId env)")
  case (Inl e)
  then show ?thesis using all by (simp add: blob_chunk_def)
next
  case (Inr t)
  let ?i = "ce_transferId env"
  have t: "map_get (br_transfers s) ?i = Some t" "tr_failure t = None" using Inr by (simp_all add: blob_get_Inr)
  obtain fo where fo: "map_get (br_disk s) (tr_folder t) = Some fo" "transfer_ok C I fo t" by (rule receiver_ok_at [OF ok t(1)])
  have f: "filed p s t" using all t(1) by (simp add: all_filed_def)
  then obtain sc where sc: "bf_sidecar fo = Some sc" "sd_committedOffset sc = sd_committedOffset (tr_state t)"
    using t(2) fo(1) by (auto simp: filed_def side_at)
  note put = all_filed_put [OF ok all t(1)]
  show ?thesis
  proof (cases "chunk_ok t env")
    case False
    have "filed p s (t\<lparr>tr_failure := Some InvalidChunk\<rparr>)" by (rule filed_same_ident [OF f]) simp_all
    then have "all_filed p (put_transfer s ?i (t\<lparr>tr_failure := Some InvalidChunk\<rparr>))" by (rule all_filed_state [OF ok all t(1)])
    then show ?thesis using Inr False by (simp add: blob_chunk_def Let_def fail_transfer_def)
  next
    case True
    define fo' where "fo' = fo\<lparr>bf_data := Some (data_of fo @ ce_data env)\<rparr>"
    define t' where "t' = advanced now t (ce_data env)"
    have len: "length (data_of fo) = tr_receivedOffset t" using fo(2) t(2) by (simp add: transfer_ok_def)
    have fin: "all_filed p (put_transfer (put_folder s (tr_folder t) x) ?i u)"
      if "ident (tr_state u) = ident (tr_state t)" "tr_folder u = tr_folder t"
        "tr_failure u = None \<Longrightarrow> (\<exists>sc. bf_sidecar x = Some sc \<and> sd_committedOffset sc = sd_committedOffset (tr_state u))
          \<and> (tr_receivedOffset u = sd_sizeBytes (tr_state t) \<longrightarrow> sd_committedOffset (tr_state u) = sd_sizeBytes (tr_state t))" for x u
    proof (rule put)
      show "filed p (put_transfer (put_folder s (tr_folder t) x) ?i u) u"
        by (rule filed_same_ident [OF f]) (use that in simp_all)
    qed simp_all
    have plain: "all_filed p (put_transfer (put_folder s (tr_folder t) fo') ?i t')"
      if "tr_receivedOffset t' \<noteq> sd_sizeBytes (tr_state t)"
      by (rule fin) (use sc that in \<open>simp_all add: t'_def fo'_def\<close>)
    have failed: "all_filed p (put_transfer (put_folder s (tr_folder t) x) ?i (u\<lparr>tr_failure := Some e\<rparr>))"
      if "ident (tr_state u) = ident (tr_state t)" "tr_folder u = tr_folder t" for x u e
      by (rule fin) (use that in simp_all)
    have com: "all_filed p (put_transfer (put_folder s (tr_folder t)
        (committed_folder fl now fo' (tr_state (committed_transfer now t')))) ?i ((committed_transfer now t')\<lparr>tr_failure := None\<rparr>))"
      if "fl \<noteq> PersistFault False"
      by (rule fin) (use that in \<open>auto simp: t'_def committed_folder_def Let_def\<close>)
    show ?thesis using chunk_form [OF Inr fo(1) len True fo'_def t'_def, of fl] plain failed [of t'] failed [of t]
        failed [of "committed_transfer now t'"] com
      by (auto simp: t'_def split: if_split_asm fs_fault.split_asm)
  qed
qed

lemma filed_persist:
  assumes ok: "receiver_ok C I s" and all: "all_filed p s" and t: "map_get (br_transfers s) i = Some t"
  shows "all_filed p (fst (persist fl now s (tr_folder t) (tr_state t)))"
proof -
  have f: "filed p s t" using all t by (simp add: all_filed_def)
  let ?s = "fst (persist fl now s (tr_folder t) (tr_state t))"
  have "filed p ?s t" by (rule filed_same_ident [OF f]) (use f in \<open>auto simp: side_persist filed_def\<close>)
  moreover have "map_set (br_transfers s) i t = br_transfers s" using t by (simp add: update_triv)
  ultimately show ?thesis by (intro all_filed_put [OF ok all t]) (simp_all add: side_persist)
qed

lemma all_filed_close: "all_filed p s \<Longrightarrow> all_filed p (close_transfer s i)"
  by (erule all_filed_fewer) (simp split: if_split_asm)

lemma filed_finish:
  assumes ok: "receiver_ok C I s" and all: "all_filed p s"
  shows "all_filed p (fst (blob_finish p fl now s peer i))"
proof (cases rule: blob_finish_cases [of p fl now s peer i])
  case (2 t r)
  then have "put_transfer s i t = s" by (simp add: blob_get_Inr put_transfer_def update_triv)
  then show ?thesis using 2(4) all by (simp add: all_filed_close)
next
  case (3 t0 t e)
  note s0 = put_result [OF ok 3(1,2)]
  have t0: "map_get (br_transfers s) i = Some t0" using 3(1) by (simp add: blob_get_Inr)
  have "filed p s t0" using all t0 by (simp add: all_filed_def)
  then have "all_filed p (put_transfer s i t)"
    unfolding 3(2) by (intro all_filed_state [OF ok all t0]) (simp add: filed_result)
  then show ?thesis using 3(3) filed_commit_full [OF s0(1) _ s0(2,3)] by auto
next
  case (4 t0 t s1 t1 s2 res)
  note s0 = put_result [OF ok 4(1,2)]
  have t0: "map_get (br_transfers s) i = Some t0" using 4(1) by (simp add: blob_get_Inr)
  have "filed p s t0" using all t0 by (simp add: all_filed_def)
  then have p0: "all_filed p (put_transfer s i t)"
    unfolding 4(2) by (intro all_filed_state [OF ok all t0]) (simp add: filed_result)
  note com = commit_ok(1,2) [OF s0(1-3) 4(3) s0(4), of fl now]
  have s1: "all_filed p s1" "receiver_ok C I s1" "map_get (br_transfers s1) i = Some t1" "t1 = committed_transfer now t"
    using filed_commit_full [OF s0(1) p0 s0(2,3) 4(3), of fl now] com by (simp_all add: 4(4))
  have eq: "br_disk s2 = br_disk s1" "br_transfers s2 = br_transfers s1"
    using publish_fields [of p fl now s1 t1] unfolding 4(5) fst_conv by blast+
  have s2: "all_filed p s2" by (rule all_filed_fewer [OF s1(1)]) (simp add: eq side_of_disk [OF eq(1)])
  have ok2: "receiver_ok C I s2" using s1(2) eq by (simp add: receiver_ok_def)
  have m2: "map_get (br_transfers s2) i = Some t1" using s1(3) eq by simp
  have "all_filed p (fst (persist fl now (put_transfer s2 i (t1\<lparr>tr_state := (tr_state t1)\<lparr>sd_result := x\<rparr>\<rparr>))
      (tr_folder t1) ((tr_state t1)\<lparr>sd_result := x\<rparr>)))" for x
  proof -
    let ?t = "t1\<lparr>tr_state := (tr_state t1)\<lparr>sd_result := x\<rparr>\<rparr>"
    have "filed p s2 t1" using s2 m2 by (simp add: all_filed_def)
    then have a: "all_filed p (put_transfer s2 i ?t)"
      by (intro all_filed_state [OF ok2 s2 m2]) (simp add: filed_result)
    have full: "sd_committedOffset (tr_state t1) = sd_sizeBytes (tr_state t1)"
      using 4(3) by (simp add: s1(4) committed_transfer_def)
    have o: "receiver_ok C I (put_transfer s2 i ?t)" by (rule put_result_ok [OF ok2 m2]) (simp add: full)
    show ?thesis using filed_persist [OF o a, of i ?t fl now] by simp
  qed
  then show ?thesis unfolding 4(6) using s2 all_filed_close by (cases res) (simp_all add: Let_def case_prod_beta)
qed (simp add: all)

lemma all_filed_drop: "wf_map (br_transfers s) \<Longrightarrow> all_filed p s \<Longrightarrow> all_filed p (drop_folder s f)"
  by (erule all_filed_fewer) (auto simp: drop_folder_def side_drop [unfolded drop_folder_def] dest: get_close_folder)

lemma filed_expire:
  assumes "receiver_ok C I s" "all_filed p s"
  shows "all_filed p (expire now s)"
proof -
  have "all_filed p (foldl (\<lambda>s' q. if expired now s' q then drop_folder s' (fst q) else s') v qs)"
    if "receiver_ok C I v" "all_filed p v" for v qs
    using that
  proof (induction qs arbitrary: v)
    case (Cons q qs)
    have "wf_map (br_transfers v)" using Cons.prems(1) by (simp add: receiver_ok_def)
    then show ?case using Cons.IH Cons.prems by (simp add: receiver_ok_drop all_filed_drop)
  qed simp
  then show ?thesis using assms by (simp add: expire_def)
qed

lemma filed_begin:
  assumes ok: "receiver_ok C I s" and all: "all_filed p s"
  shows "all_filed p (fst (blob_begin p fl now fresh s peer i name))"
proof -
  have e: "all_filed p (expire now s)" by (rule filed_expire [OF assms])
  have m: "all_filed p (made_folder now s f)" for f
    by (rule all_filed_fewer [OF e]) (simp add: made_folder_def side_folder_at)
  show ?thesis
  proof (cases rule: blob_begin_cases [of p fl now fresh s peer i name])
    case (4 f st)
    note made = made_folder_ok [OF ok, of now f]
    let ?fo = "folder_at (made_folder now s f) now f"
    have i: "0 \<le> bi_sizeBytes i" "f = bp_key p peer (bi_sha256 i) (nat (bi_sizeBytes i))"
      using contentKey_Inr [OF 4(1)] by simp_all
    have st: "ident st = (peer, bi_sha256 i, nat (bi_sizeBytes i))" "boundary (sd_sizeBytes st) (sd_committedOffset st)"
      "bf_sidecar ?fo = None \<and> sd_committedOffset st = 0 \<and> sd_result st = None
       \<or> (\<exists>sc. bf_sidecar ?fo = Some sc \<and> ident sc = ident st \<and> sd_committedOffset sc = sd_committedOffset st \<and> sd_result sc = sd_result st)"
      using begin_sidecar_Inr [OF 4(2) i(1)] by blast+
    have fo: "folder_ok C I ?fo" using made(1,2) unfolding receiver_ok_def by blast
    define s0 where "s0 = (made_folder now s f)\<lparr>br_transfers := close_folder (br_transfers (made_folder now s f)) f\<rparr>"
    have wf: "wf_map (br_transfers (made_folder now s f))" using made(1) by (simp add: receiver_ok_def)
    have rest: "map_get (br_transfers (made_folder now s f)) j = Some t \<and> tr_folder t \<noteq> f"
      if "map_get (br_transfers s0) j = Some t" for j t
      using that get_close_folder [OF _ wf] by (simp add: s0_def)
    have put: "all_filed p (put_folder s0 f x)" for x
      by (rule all_filed_fewer [OF m [of f]]) (use rest in \<open>auto simp: s0_def\<close>)
    have add: "all_filed p (put_transfer (put_folder s0 f (begun_folder now ?fo st)) (''blob:'' @ fresh) (begun_transfer now f st))"
      unfolding all_filed_def
    proof (intro allI impI)
      fix j u
      assume u: "map_get (br_transfers (put_transfer (put_folder s0 f (begun_folder now ?fo st)) (''blob:'' @ fresh) (begun_transfer now f st))) j = Some u"
      show "filed p (put_transfer (put_folder s0 f (begun_folder now ?fo st)) (''blob:'' @ fresh) (begun_transfer now f st)) u"
      proof (cases "j = ''blob:'' @ fresh")
        case True
        then show ?thesis using u st(1) i(2) by (auto simp: filed_def begun_transfer_def begun_folder_def ident_def)
      next
        case False
        then show ?thesis using u put [of "begun_folder now ?fo st"] by (simp add: all_filed_def)
      qed
    qed
    show ?thesis unfolding 4(3) open_transfer_form [OF made(2) begun_ok(1) [OF fo st(2,3)] s0_def]
      using put add by (cases fl) auto
  qed (simp_all add: all e m)
qed

lemma filed_disconnect:
  assumes "receiver_ok C I s" "all_filed p s"
  shows "all_filed p (blob_disconnect faults now s peer)"
proof -
  have "all_filed p (foldl (suspend_one faults now) v es)"
    if "receiver_ok C I v" "all_filed p v" "wf_map es" "\<forall>(i, t)\<in>set es. map_get (br_transfers v) i = Some t" for v es
    using that
  proof (induction es arbitrary: v)
    case (Cons e es)
    obtain i t where e: "e = (i, t)" by fastforce
    have t: "map_get (br_transfers v) i = Some t" using Cons.prems(4) e by simp
    have "all_filed p (suspend_one faults now v e)"
      unfolding e suspend_one_def prod.case by (rule all_filed_close, rule filed_persist [OF Cons.prems(1,2) t])
    moreover have "receiver_ok C I (suspend_one faults now v e)"
      unfolding e suspend_one_def prod.case by (rule receiver_ok_close, rule persist_transfer_ok [OF Cons.prems(1) t])
    moreover have "\<forall>(j, u)\<in>set es. map_get (br_transfers (suspend_one faults now v e)) j = Some u"
      using Cons.prems(3,4) e by (force simp: suspend_one_def)
    ultimately show ?case using Cons.IH Cons.prems(3) e by simp
  qed simp
  moreover have "\<forall>(i, t)\<in>set (br_transfers s). map_get (br_transfers s) i = Some t"
    using assms(1) by (auto simp: receiver_ok_def)
  ultimately show ?thesis unfolding blob_disconnect_def using assms
    by (simp add: distinct_map_filter receiver_ok_def)
qed

lemma filed_step:
  assumes "receiver_ok C I s" "all_filed p s"
  shows "all_filed p (blob_do p s step)"
proof -
  obtain fl now call where step: "step = (fl, now, call)" by (cases step) auto
  have wf: "wf_map (br_transfers s)" using assms(1) by (simp add: receiver_ok_def)
  show ?thesis
  proof (cases call)
    case (BlCancel peer i)
    then show ?thesis using assms(2) all_filed_drop [OF wf assms(2)]
      by (simp add: step blob_cancel_def split: sum.split option.split)
  next
    case (BlCrash junk)
    then show ?thesis by (simp add: step blob_crash_def all_filed_def)
  next
    case (BlMoved path)
    then show ?thesis using assms(2) by (simp add: step all_filed_def)
  qed (use assms in \<open>simp_all add: step filed_begin filed_chunk filed_finish filed_disconnect filed_expire\<close>)
qed

lemma filed_run:
  "receiver_ok C I s \<Longrightarrow> all_filed p s \<Longrightarrow> \<forall>step\<in>set steps. honest_call C I (snd (snd step)) \<Longrightarrow>
   all_filed p (foldl (blob_do p) s steps)"
  by (induction steps arbitrary: s) (simp_all add: blob_do_ok filed_step)

lemma all_filed_new: "all_filed p blob_new"
  by (simp add: all_filed_def blob_new_def)

end
