(* ===== verification/BlobSender.thy ===== *)
theory BlobSender
  imports BlobResume
begin

text \<open>
  The sender of a resumable file (federation/src/federation-blob-sender.ts) against the receiver: one
  connected attempt of \<open>pushResumableBlob\<close>, from its \<open>begin\<close> over windows of four chunks, each closed
  by a checkpoint, to the receipt. The file's bytes do not change while it is sent; a lost connection
  is the end of an attempt, and the next attempt begins again at the receiver's committed offset, which
  must not be less than the offset \<open>committed\<close> that the receiver answered last.
\<close>

subsection \<open>One attempt\<close>

datatype push_error = PeerError blob_error | InvalidCommitted | InvalidAck | InvalidReceipt

definition push_envelope :: "blob_params \<Rightarrow> byte list \<Rightarrow> string \<Rightarrow> nat \<Rightarrow> blob_chunk_envelope" where
  "push_envelope p C tid offset = \<lparr>ce_filePush = True, ce_transferId = tid,
     ce_chunkIndex = int (offset div BLOB_CHUNK_BYTES),
     ce_chunkCount = int ((length C + BLOB_CHUNK_BYTES - 1) div BLOB_CHUNK_BYTES),
     ce_totalSize = int (length C), ce_sha256 = bp_hash p C,
     ce_data = take (min BLOB_CHUNK_BYTES (length C - offset)) (drop offset C)\<rparr>"

text \<open>A window: chunks have no reply of their own.\<close>

fun push_window :: "blob_params \<Rightarrow> int \<Rightarrow> string \<Rightarrow> byte list \<Rightarrow> string \<Rightarrow> nat \<Rightarrow> blob_receiver \<times> nat \<Rightarrow> blob_receiver \<times> nat" where
  "push_window p now peer C tid 0 (s, offset) = (s, offset)"
| "push_window p now peer C tid (Suc k) (s, offset) =
     (if offset < length C
      then let env = push_envelope p C tid offset
           in push_window p now peer C tid k (fst (blob_chunk NoFault now s peer env), offset + length (ce_data env))
      else (s, offset))"

definition valid_ack :: "nat \<Rightarrow> nat \<Rightarrow> nat \<Rightarrow> nat \<times> nat \<Rightarrow> bool" where
  "valid_ack n committed offset ack = (case ack of (received, acked) \<Rightarrow>
     received = offset \<and> committed \<le> acked \<and> acked \<le> offset \<and> (acked = n \<or> acked mod BLOB_COMMIT_BYTES = 0))"

lemma push_window_mono: "offset \<le> snd (push_window p now peer C tid k (s, offset))"
  by (induction p now peer C tid k "(s, offset)" arbitrary: s offset rule: push_window.induct)
    (auto simp: Let_def intro: order_trans)

lemma push_window_progress:
  assumes "offset < length C"
  shows "offset < snd (push_window p now peer C tid BLOB_WINDOW_CHUNKS (s, offset))"
proof -
  have "0 < length (ce_data (push_envelope p C tid offset))" using assms by (simp add: push_envelope_def)
  then have "offset < offset + length (ce_data (push_envelope p C tid offset))" by simp
  also have "\<dots> \<le> snd (push_window p now peer C tid 3 (fst (blob_chunk NoFault now s peer (push_envelope p C tid offset)),
      offset + length (ce_data (push_envelope p C tid offset))))" by (rule push_window_mono)
  finally show ?thesis using assms by (simp add: BLOB_WINDOW_CHUNKS_def eval_nat_numeral Let_def)
qed

function push_rounds ::
  "blob_params \<Rightarrow> int \<Rightarrow> string \<Rightarrow> byte list \<Rightarrow> string \<Rightarrow> nat \<Rightarrow> blob_receiver \<Rightarrow> nat \<Rightarrow> blob_receiver \<times> push_error option" where
  "push_rounds p now peer C tid committed s offset =
     (if offset < length C
      then let (s1, offset1) = push_window p now peer C tid BLOB_WINDOW_CHUNKS (s, offset)
           in case blob_checkpoint s1 peer tid of
                Inl e \<Rightarrow> (s1, Some (PeerError e))
              | Inr ack \<Rightarrow> (if valid_ack (length C) committed offset1 ack
                            then push_rounds p now peer C tid (snd ack) s1 offset1 else (s1, Some InvalidAck))
      else (s, None))"
  by pat_completeness auto
termination
proof (relation "measure (\<lambda>(p, now, peer, C, tid, committed, s, offset). length C - offset)")
  fix p now peer C tid committed s offset w s1 offset1 ack
  assume "offset < length C" "w = push_window p now peer C tid BLOB_WINDOW_CHUNKS (s, offset)" "(s1, offset1) = w"
  then have "offset < offset1" using push_window_progress [of offset C p now peer tid s] by (metis snd_conv)
  then show "((p, now, peer, C, tid, snd ack, s1, offset1), p, now, peer, C, tid, committed, s, offset)
      \<in> measure (\<lambda>(p, now, peer, C, tid, committed, s, offset). length C - offset)"
    using \<open>offset < length C\<close> by simp
qed simp

declare push_rounds.simps [simp del]

definition push_identity :: "blob_params \<Rightarrow> byte list \<Rightarrow> string option \<Rightarrow> blob_identity" where
  "push_identity p C tok = \<lparr>bi_sha256 = bp_hash p C, bi_sizeBytes = int (length C), bi_senderToken = tok\<rparr>"

definition push_attempt ::
  "blob_params \<Rightarrow> int \<Rightarrow> string \<Rightarrow> blob_receiver \<Rightarrow> string \<Rightarrow> byte list \<Rightarrow> string option \<Rightarrow> string \<Rightarrow> nat \<Rightarrow>
   blob_receiver \<times> (push_error + file_push_result)" where
  "push_attempt p now fresh s peer C tok name committed =
     (case blob_begin p NoFault now fresh s peer (push_identity p C tok) name of
        (s1, Inl e) \<Rightarrow> (s1, Inl (PeerError e))
      | (s1, Inr (tid, begun)) \<Rightarrow>
         (if take 5 tid \<noteq> ''blob:'' \<or> begun < committed \<or> begun > length C
             \<or> (begun \<noteq> length C \<and> begun mod BLOB_COMMIT_BYTES \<noteq> 0) then (s1, Inl InvalidCommitted)
          else case push_rounds p now peer C tid begun s1 begun of
            (s2, Some e) \<Rightarrow> (s2, Inl e)
          | (s2, None) \<Rightarrow>
             (case blob_finish p NoFault now s2 peer tid of
                (s3, Inl e) \<Rightarrow> (s3, Inl (PeerError e))
              | (s3, Inr r) \<Rightarrow> (if fp_sha256 r \<noteq> bp_hash p C \<or> fp_sizeBytes r \<noteq> length C
                               then (s3, Inl InvalidReceipt) else (s3, Inr r)))))"

subsection \<open>An attempt that is not cut off\<close>

text \<open>The receiver is in the middle of this sender's transfer.\<close>

definition sending :: "blob_params \<Rightarrow> byte list \<Rightarrow> string \<Rightarrow> string \<Rightarrow> nat \<Rightarrow> blob_receiver \<Rightarrow> nat \<Rightarrow> bool" where
  "sending p C peer tid committed s off \<longleftrightarrow> receiver_ok C {(peer, bp_hash p C, length C)} s \<and> off \<le> length C
     \<and> (\<exists>t. blob_get s peer tid = Inr t \<and> ident (tr_state t) = (peer, bp_hash p C, length C)
          \<and> sd_result (tr_state t) = None \<and> tr_receivedOffset t = off \<and> committed \<le> sd_committedOffset (tr_state t))"

lemma envelope_simps [simp]:
  "ce_transferId (push_envelope p C tid off) = tid"
  "off \<le> length C \<Longrightarrow> length (ce_data (push_envelope p C tid off)) = min BLOB_CHUNK_BYTES (length C - off)"
  by (simp_all add: push_envelope_def)

lemma sending_chunk:
  assumes send: "sending p C peer tid committed s off" and more: "off < length C" and small: "length C \<le> nat BLOB_MAX_BYTES"
  shows "sending p C peer tid committed (fst (blob_chunk NoFault now s peer (push_envelope p C tid off)))
     (off + length (ce_data (push_envelope p C tid off)))"
proof -
  let ?I = "{(peer, bp_hash p C, length C)}" and ?env = "push_envelope p C tid off"
  obtain t where t: "blob_get s peer tid = Inr t" "ident (tr_state t) = (peer, bp_hash p C, length C)"
    "sd_result (tr_state t) = None" "tr_receivedOffset t = off" "committed \<le> sd_committedOffset (tr_state t)"
    and ok: "receiver_ok C ?I s" using send by (auto simp: sending_def)
  have m: "map_get (br_transfers s) tid = Some t" "tr_failure t = None" "sd_peerId (tr_state t) = peer"
    using t(1) by (simp_all add: blob_get_Inr)
  obtain fo where fo: "map_get (br_disk s) (tr_folder t) = Some fo" "transfer_ok C ?I fo t"
    by (rule receiver_ok_at [OF ok m(1)])
  have n: "sd_sizeBytes (tr_state t) = length C" "sd_sha256 (tr_state t) = bp_hash p C" using t(2) by (simp_all add: ident_def)
  have al: "off mod BLOB_CHUNK_BYTES = 0" using fo(2) t(4) n(1) more by (auto simp: transfer_ok_def)
  then have off: "off div BLOB_CHUNK_BYTES * BLOB_CHUNK_BYTES = off" by (metis add.right_neutral div_mult_mod_eq)
  have idx: "int (off div BLOB_CHUNK_BYTES) * int BLOB_CHUNK_BYTES = int off" using off by (metis of_nat_mult)
  have "off div BLOB_CHUNK_BYTES \<le> length C" using more div_le_dividend [of off BLOB_CHUNK_BYTES] by linarith
  then have "int (off div BLOB_CHUNK_BYTES) \<le> MAX_SAFE" using small unfolding BLOB_MAX_BYTES_def MAX_SAFE_def by linarith
  then have good: "chunk_ok t ?env"
  proof -
    have "int (length (ce_data ?env)) = min (int BLOB_CHUNK_BYTES) (int (length C) - int off)"
      using more by (simp add: of_nat_diff)
    moreover have "0 < min (int BLOB_CHUNK_BYTES) (int (length C) - int off)" using more by simp
    moreover have "ce_chunkIndex ?env = int (off div BLOB_CHUNK_BYTES)" "ce_filePush ?env" "ce_totalSize ?env = int (length C)"
      "ce_sha256 ?env = bp_hash p C" "ce_chunkCount ?env = int ((length C + BLOB_CHUNK_BYTES - 1) div BLOB_CHUNK_BYTES)"
      by (simp_all add: push_envelope_def)
    ultimately show ?thesis using \<open>_ \<le> MAX_SAFE\<close> t(3,4) n idx unfolding chunk_ok_def Let_def by simp
  qed
  have honest: "honest_call C ?I (BlChunk peer ?env)"
    using off by (simp add: honest_call_def push_envelope_def slice_def min_def)
  have ok': "receiver_ok C ?I (fst (blob_chunk NoFault now s peer ?env))" by (rule blob_chunk_ok [OF ok honest])
  define t' where "t' = advanced now t (ce_data ?env)"
  define fo' where "fo' = fo\<lparr>bf_data := Some (data_of fo @ ce_data ?env)\<rparr>"
  have len: "length (data_of fo) = tr_receivedOffset t" using fo(2) m(2) by (simp add: transfer_ok_def)
  have get: "blob_get s peer (ce_transferId ?env) = Inr t" using t(1) by simp
  have due: "commit NoFault now s' tid u = (s3, t2, e) \<Longrightarrow> e = None" for s' u s3 t2 e
    by (auto simp: commit_def persist_def Let_def)
  have step: "map_get (br_transfers (fst (blob_chunk NoFault now s peer ?env))) tid \<in> {Some t', Some (committed_transfer now t')}"
  proof -
    let ?s2 = "put_transfer (write_data s now (tr_folder t) (tr_receivedOffset t) (ce_data ?env)) tid t'"
    obtain s3 t2 e where com: "commit NoFault now ?s2 tid t' = (s3, t2, e)" by (metis prod.exhaust)
    then have "e = None" by (rule due)
    moreover have "map_get (br_disk ?s2) (tr_folder t') = Some fo'"
      by (simp add: write_form [OF fo(1) len] t'_def fo'_def)
    then have "map_get (br_transfers s3) tid = Some (committed_transfer now t')"
      using com commit_form [of ?s2 t' fo' NoFault now tid] by auto
    ultimately show ?thesis using get good com
      by (auto simp: blob_chunk_def Let_def t'_def advanced_def [symmetric])
  qed
  have t': "ident (tr_state t') = ident (tr_state t)" "sd_result (tr_state t') = None" "tr_failure t' = None"
    "tr_receivedOffset t' = off + length (ce_data ?env)" "committed \<le> sd_committedOffset (tr_state t')"
    using t m by (simp_all add: t'_def)
  have "committed \<le> tr_receivedOffset t'" using t(5) fo(2) t(4) t'(4) by (auto simp: transfer_ok_def)
  moreover obtain u where u: "map_get (br_transfers (fst (blob_chunk NoFault now s peer ?env))) tid = Some u"
    "u = t' \<or> u = committed_transfer now t'" using step by auto
  ultimately have "ident (tr_state u) = (peer, bp_hash p C, length C)" "sd_result (tr_state u) = None" "tr_failure u = None"
    "tr_receivedOffset u = off + length (ce_data ?env)" "committed \<le> sd_committedOffset (tr_state u)"
    using t' t(2) by auto
  moreover from this(1) have "sd_peerId (tr_state u) = peer" by (simp add: ident_def)
  moreover have "off + length (ce_data ?env) \<le> length C" using more by simp
  ultimately show ?thesis using ok' u(1) by (auto simp: sending_def blob_get_Inr)
qed

lemma sending_window:
  "sending p C peer tid committed s off \<Longrightarrow> length C \<le> nat BLOB_MAX_BYTES \<Longrightarrow>
   sending p C peer tid committed (fst (push_window p now peer C tid k (s, off))) (snd (push_window p now peer C tid k (s, off)))"
proof (induction k arbitrary: s off)
  case (Suc k)
  then show ?case using sending_chunk [OF Suc.prems(1) _ Suc.prems(2)] by (simp add: Let_def)
qed simp

lemma sending_ack:
  assumes "sending p C peer tid committed s off"
  obtains acked where "blob_checkpoint s peer tid = Inr (off, acked)" "valid_ack (length C) committed off (off, acked)"
    "sending p C peer tid acked s off"
proof -
  let ?I = "{(peer, bp_hash p C, length C)}"
  obtain t where t: "blob_get s peer tid = Inr t" "ident (tr_state t) = (peer, bp_hash p C, length C)"
    "sd_result (tr_state t) = None" "tr_receivedOffset t = off" "committed \<le> sd_committedOffset (tr_state t)"
    and ok: "receiver_ok C ?I s" "off \<le> length C" using assms by (auto simp: sending_def)
  have m: "map_get (br_transfers s) tid = Some t" using t(1) by (simp add: blob_get_Inr)
  obtain fo where fo: "transfer_ok C ?I fo t" by (rule receiver_ok_at [OF ok(1) m])
  have n: "sd_sizeBytes (tr_state t) = length C" using t(2) by (simp add: ident_def)
  have "valid_ack (length C) committed off (off, sd_committedOffset (tr_state t))"
    using fo t(4,5) n by (auto simp: valid_ack_def transfer_ok_def boundary_def)
  moreover have "sending p C peer tid (sd_committedOffset (tr_state t)) s off"
    unfolding sending_def using ok t by blast
  ultimately show ?thesis using that t(1,4) by (simp add: blob_checkpoint_def)
qed

lemma sending_rounds:
  "sending p C peer tid committed s off \<Longrightarrow> length C \<le> nat BLOB_MAX_BYTES \<Longrightarrow>
   \<exists>s' c. push_rounds p now peer C tid committed s off = (s', None) \<and> sending p C peer tid c s' (length C)"
proof (induction p now peer C tid committed s off rule: push_rounds.induct)
  case (1 p now peer C tid committed s off)
  show ?case
  proof (cases "off < length C")
    case False
    then have "off = length C" using "1.prems"(1) by (simp add: sending_def)
    then show ?thesis using "1.prems"(1) by (auto simp: push_rounds.simps)
  next
    case True
    obtain s1 off1 where w: "push_window p now peer C tid BLOB_WINDOW_CHUNKS (s, off) = (s1, off1)" by fastforce
    have s1: "sending p C peer tid committed s1 off1"
      using sending_window [OF "1.prems", of now BLOB_WINDOW_CHUNKS] by (simp add: w)
    obtain acked where a: "blob_checkpoint s1 peer tid = Inr (off1, acked)"
      "valid_ack (length C) committed off1 (off1, acked)" "sending p C peer tid acked s1 off1"
      by (rule sending_ack [OF s1])
    have "\<exists>s' c. push_rounds p now peer C tid acked s1 off1 = (s', None) \<and> sending p C peer tid c s' (length C)"
      using "1.IH" [OF True w [symmetric] refl a(1,2)] a(3) "1.prems"(2) by simp
    then show ?thesis using True w a(1,2) by (subst push_rounds.simps) simp
  qed
qed

lemma window_files: "br_files (fst (push_window p now peer C tid k x)) = br_files (fst x)"
  by (induction p now peer C tid k x rule: push_window.induct) (simp_all add: Let_def cores_chunk)

lemma rounds_files: "br_files (fst (push_rounds p now peer C tid committed s off)) = br_files s"
proof (induction p now peer C tid committed s off rule: push_rounds.induct)
  case (1 p now peer C tid committed s off)
  obtain s1 off1 where w: "push_window p now peer C tid BLOB_WINDOW_CHUNKS (s, off) = (s1, off1)" by fastforce
  have "br_files s1 = br_files s" using window_files [of p now peer C tid BLOB_WINDOW_CHUNKS "(s, off)"] by (simp add: w)
  then show ?case using "1.IH" [OF _ w [symmetric] refl] by (subst push_rounds.simps) (auto simp: w split: sum.split)
qed

text \<open>What stands at the reported path when a transfer ends well.\<close>

definition delivered :: "blob_params \<Rightarrow> byte list \<Rightarrow> blob_receiver \<Rightarrow> blob_receiver \<Rightarrow> file_push_result \<Rightarrow> bool" where
  "delivered p C s s' r \<longleftrightarrow> fp_sha256 r = bp_hash p C \<and> fp_sizeBytes r = length C
     \<and> (\<exists>b. map_get (br_files s') (fp_path r) = Some b \<and> bp_hash p b = bp_hash p C \<and> length b = length C
          \<and> (map_get (br_files s) (fp_path r) = None \<longrightarrow> b = C))"

lemma sending_finish:
  assumes "sending p C peer tid c s (length C)"
  shows "snd (blob_finish p NoFault now s peer tid) = Inl DestinationDiffers
    \<or> (\<exists>s' r. blob_finish p NoFault now s peer tid = (s', Inr r) \<and> delivered p C s s' r)"
proof -
  let ?I = "{(peer, bp_hash p C, length C)}"
  obtain t where t: "blob_get s peer tid = Inr t" "ident (tr_state t) = (peer, bp_hash p C, length C)"
    "sd_result (tr_state t) = None" "tr_receivedOffset t = length C" and ok: "receiver_ok C ?I s"
    using assms by (auto simp: sending_def)
  have m: "map_get (br_transfers s) tid = Some t" "tr_failure t = None" using t(1) by (simp_all add: blob_get_Inr)
  have n: "sd_sizeBytes (tr_state t) = length C" "sd_sha256 (tr_state t) = bp_hash p C" using t(2) by (simp_all add: ident_def)
  obtain fo where fo: "map_get (br_disk s) (tr_folder t) = Some fo" "transfer_ok C ?I fo t"
    by (rule receiver_ok_at [OF ok m(1)])
  have d: "data_of fo = C" using fo(2) t(2,4) m(2) by (auto simp: transfer_ok_def)
  obtain s1 t1 e where com: "commit NoFault now s tid t = (s1, t1, e)" by (metis prod.exhaust)
  have e: "e = None" using com by (auto simp: commit_def persist_def Let_def)
  have c: "t1 = committed_transfer now t" "data_of (folder_at s1 now (tr_folder t)) = C" "br_files s1 = br_files s"
    using commit_ok(2,3) [OF ok m, of NoFault now] t(3,4) n(1) com e d fo(1) by simp_all
  have t1: "tr_folder t1 = tr_folder t" "sd_sha256 (tr_state t1) = bp_hash p C" "sd_sizeBytes (tr_state t1) = length C"
    using c(1) n by (simp_all add: committed_transfer_def)
  let ?dest = "destination p (tr_folder t) (sd_name (tr_state t1))"
  let ?r = "\<lparr>fp_path = ?dest, fp_sizeBytes = length C, fp_sha256 = bp_hash p C\<rparr>"
  have tt: "t\<lparr>tr_state := (tr_state t)\<lparr>sd_result := None\<rparr>\<rparr> = t" using t(3) by (simp flip: t(3))
  have same: "put_transfer s tid t = s" using m(1) by (simp add: put_transfer_def update_triv)
  have per: "persist NoFault now v f st
      = (put_folder v f ((folder_at v now f)\<lparr>bf_sidecar := Some (st\<lparr>sd_updatedAt := now\<rparr>), bf_mtime := now\<rparr>), True)" for v f st
    by (simp add: persist_def Let_def)
  obtain s2 res where pub: "publish p NoFault now s1 t1 = (s2, res)" by fastforce
  have fin: "\<exists>s'. blob_finish p NoFault now s peer tid = (s', case res of Inl e \<Rightarrow> Inl e | Inr dest \<Rightarrow> Inr (?r\<lparr>fp_path := dest\<rparr>))
      \<and> br_files s' = br_files s2"
    using t n t1 com [unfolded e] pub by (simp add: blob_finish_def Let_def same tt per split: sum.split)
  show ?thesis
  proof (cases "map_get (br_files s) ?dest")
    case None
    then have "res = Inr ?dest" "map_get (br_files s2) ?dest = Some C"
      using pub c t1 by (auto simp: publish_def Let_def)
    then show ?thesis using fin None by (auto simp: delivered_def)
  next
    case (Some b)
    then have "res = (if length b \<noteq> length C \<or> bp_hash p b \<noteq> bp_hash p C then Inl DestinationDiffers else Inr ?dest)"
      "s2 = s1" using pub c t1 by (auto simp: publish_def Let_def split: if_split_asm)
    then show ?thesis using fin Some c(3) by (auto simp: delivered_def split: if_split_asm)
  qed
qed

text \<open>What a \<open>begin\<close> without faults leaves.\<close>

lemma begun_cases:
  assumes ok: "receiver_ok C {(peer, bp_hash p C, length C)} s"
  obtains e s1 where "blob_begin p NoFault now fresh s peer (push_identity p C tok) name = (s1, Inl e)"
      "e \<in> {InvalidIdentity, InvalidOwner, FolderNotAbsolute, TransferLimit, InvalidSidecar, OtherSend}"
  | s1 st f where "blob_begin p NoFault now fresh s peer (push_identity p C tok) name = (s1, Inr (''blob:'' @ fresh, sd_committedOffset st))"
      "map_get (br_transfers s1) (''blob:'' @ fresh) = Some (begun_transfer now f st)" "br_files s1 = br_files s"
      "ident st = (peer, bp_hash p C, length C)" "boundary (length C) (sd_committedOffset st)"
      "sd_result st \<noteq> None \<longrightarrow> sd_committedOffset st = length C \<and> core st \<in> cores s" "length C \<le> nat BLOB_MAX_BYTES"
proof (cases rule: blob_begin_cases [of p NoFault now fresh s peer "push_identity p C tok" name])
  case (1 e)
  then show ?thesis using that(1) by blast
next
  case 2
  then show ?thesis using that(1) by blast
next
  case (3 f e)
  then show ?thesis using that(1) by blast
next
  case (4 f st)
  note made = made_folder_ok [OF ok, of now f]
  let ?fo = "folder_at (made_folder now s f) now f"
  have st: "ident st = (peer, bp_hash p C, length C)" "boundary (sd_sizeBytes st) (sd_committedOffset st)"
    "bf_sidecar ?fo = None \<and> sd_committedOffset st = 0 \<and> sd_result st = None
       \<or> (\<exists>sc. bf_sidecar ?fo = Some sc \<and> ident sc = ident st \<and> sd_committedOffset sc = sd_committedOffset st \<and> sd_result sc = sd_result st)"
    using begin_sidecar_Inr [OF 4(2)] contentKey_Inr [OF 4(1)] by (auto simp: push_identity_def)
  have n: "sd_sizeBytes st = length C" using st(1) by (simp add: ident_def)
  have fo: "folder_ok C {(peer, bp_hash p C, length C)} ?fo" using made(1,2) unfolding receiver_ok_def by blast
  have len: "sd_committedOffset st \<le> length (data_of ?fo)" by (rule begun_ok(1) [OF fo st(2,3)])
  define s0 where "s0 = (made_folder now s f)\<lparr>br_transfers := close_folder (br_transfers (made_folder now s f)) f\<rparr>"
  define s1 where "s1 = put_transfer (put_folder s0 f (begun_folder now ?fo st)) (''blob:'' @ fresh) (begun_transfer now f st)"
  have form: "blob_begin p NoFault now fresh s peer (push_identity p C tok) name = (s1, Inr (''blob:'' @ fresh, sd_committedOffset st))"
    unfolding 4(3) open_transfer_form [OF made(2) len s0_def] s1_def by simp
  have res: "sd_committedOffset st = length C \<and> core st \<in> cores s" if "sd_result st \<noteq> None"
  proof -
    obtain sc where sc: "bf_sidecar ?fo = Some sc" "ident sc = ident st" "sd_committedOffset sc = sd_committedOffset st"
      "sd_result sc = sd_result st" using st(3) \<open>sd_result st \<noteq> None\<close> by auto
    have "core sc \<in> cores s" using cores_at [OF sc(1)] cores_made(1) by blast
    moreover have "core sc = core st" using sc(2,4) by (simp add: core_def ident_def)
    moreover have "sd_committedOffset sc = sd_sizeBytes sc" using fo sc(1,4) that by (auto simp: folder_ok_def)
    ultimately show ?thesis using sc(2,3) n by (simp add: ident_def)
  qed
  have "int (length C) \<le> BLOB_MAX_BYTES" using 4(1) by (simp add: contentKey_def push_identity_def split: if_split_asm)
  then have "length C \<le> nat BLOB_MAX_BYTES" by linarith
  moreover have "br_files s1 = br_files s" using cores_made(2) by (simp add: s1_def s0_def)
  ultimately show ?thesis using that(2) [OF form, of f] st(1,2) n res by (simp add: s1_def)
qed

text \<open>From the begin to the receipt.\<close>

lemma attempt_ends:
  assumes begun: "blob_begin p NoFault now fresh s peer (push_identity p C tok) name = (s1, Inr (''blob:'' @ fresh, off))"
    and off: "committed \<le> off" "boundary (length C) off"
    and rounds: "push_rounds p now peer C (''blob:'' @ fresh) off s1 off = (s2, None)" "br_files s2 = br_files s"
    and fin: "snd (blob_finish p NoFault now s2 peer (''blob:'' @ fresh)) = Inl DestinationDiffers
      \<or> (\<exists>s' r. blob_finish p NoFault now s2 peer (''blob:'' @ fresh) = (s', Inr r) \<and> delivered p C s2 s' r)"
  shows "(\<exists>s' r. push_attempt p now fresh s peer C tok name committed = (s', Inr r) \<and> delivered p C s s' r)
    \<or> snd (push_attempt p now fresh s peer C tok name committed) = Inl (PeerError DestinationDiffers)"
proof -
  have valid: "take 5 (''blob:'' @ fresh) = ''blob:''" "\<not> off < committed" "\<not> length C < off"
    "off = length C \<or> off mod BLOB_COMMIT_BYTES = 0" using off by (auto simp: boundary_def)
  have form: "push_attempt p now fresh s peer C tok name committed =
      (case blob_finish p NoFault now s2 peer (''blob:'' @ fresh) of
         (s3, Inl e) \<Rightarrow> (s3, Inl (PeerError e))
       | (s3, Inr r) \<Rightarrow> if fp_sha256 r \<noteq> bp_hash p C \<or> fp_sizeBytes r \<noteq> length C then (s3, Inl InvalidReceipt) else (s3, Inr r))"
    using valid begun rounds(1) by (auto simp: push_attempt_def)
  show ?thesis using fin
  proof
    assume "snd (blob_finish p NoFault now s2 peer (''blob:'' @ fresh)) = Inl DestinationDiffers"
    then show ?thesis by (cases "blob_finish p NoFault now s2 peer (''blob:'' @ fresh)") (simp add: form)
  next
    assume "\<exists>s' r. blob_finish p NoFault now s2 peer (''blob:'' @ fresh) = (s', Inr r) \<and> delivered p C s2 s' r"
    then show ?thesis using rounds(2) by (auto simp: form delivered_def)
  qed
qed

text \<open>The receipt of a file that is gone is forgotten, and the file published again.\<close>

lemma finish_gone:
  assumes "blob_get s peer i = Inr t" "sd_result (tr_state t) = Some x" "\<not> map_has (br_files s) (fp_path x)"
  shows "blob_finish p fl now s peer i = blob_finish p fl now (put_transfer s i (t\<lparr>tr_state := (tr_state t)\<lparr>sd_result := None\<rparr>\<rparr>)) peer i"
proof -
  let ?t = "t\<lparr>tr_state := (tr_state t)\<lparr>sd_result := None\<rparr>\<rparr>"
  have "blob_get (put_transfer s i ?t) peer i = Inr ?t" using assms(1) by (simp add: blob_get_Inr)
  then show ?thesis using assms by (simp add: blob_finish_def Let_def)
qed

text \<open>A transfer that the receiver had published before.\<close>

lemma published_again:
  assumes ok: "receiver_ok C {(peer, bp_hash p C, length C)} s1"
    and t: "blob_get s1 peer tid = Inr t" "ident (tr_state t) = (peer, bp_hash p C, length C)"
      "tr_receivedOffset t = length C" "sd_committedOffset (tr_state t) = length C" "sd_result (tr_state t) = Some x"
    and there: "map_has (br_files s1) (fp_path x) \<Longrightarrow> sound_core p (fp_path x) (br_files s1) (core (tr_state t))"
  shows "snd (blob_finish p NoFault now s1 peer tid) = Inl DestinationDiffers
    \<or> (\<exists>s' r. blob_finish p NoFault now s1 peer tid = (s', Inr r) \<and> delivered p C s1 s' r)"
proof (cases "map_has (br_files s1) (fp_path x)")
  case True
  then have v: "verified p (br_files s1) x" "fp_sha256 x = bp_hash p C" "fp_sizeBytes x = length C"
    using there t(2,5) by (auto simp: sound_core_def core_def ident_def)
  obtain s' where "blob_finish p NoFault now s1 peer tid = (s', Inr x)" "br_files s' = br_files s1"
    using t(1,5) True by (simp add: blob_finish_def Let_def)
  then show ?thesis using v by (auto simp: delivered_def verified_def)
next
  case False
  let ?t = "t\<lparr>tr_state := (tr_state t)\<lparr>sd_result := None\<rparr>\<rparr>"
  let ?s = "put_transfer s1 tid ?t"
  note put = put_result [OF ok t(1) refl]
  have "sd_peerId (tr_state t) = peer" using t(2) by (simp add: ident_def)
  then have "blob_get ?s peer tid = Inr ?t" using put by (simp add: blob_get_Inr)
  then have "sending p C peer tid (length C) ?s (length C)" using put(1) t(2-4) by (auto simp: sending_def)
  from sending_finish [OF this, of now] show ?thesis
    unfolding finish_gone [OF t(1,5) False] by (simp add: delivered_def)
qed

text \<open>
  What the sender has heard of a transfer: the receiver answered a checkpoint with the offset
  \<open>committed\<close>, which its sidecar holds since \<open>since\<close>. (A begin answers what a checkpoint right after it
  would.)
\<close>

definition acknowledged :: "blob_params \<Rightarrow> byte list \<Rightarrow> string \<Rightarrow> nat \<Rightarrow> int \<Rightarrow> blob_receiver \<Rightarrow> bool" where
  "acknowledged p C peer committed since s \<longleftrightarrow> (\<exists>tid t received sc. blob_checkpoint s peer tid = Inr (received, committed)
     \<and> blob_get s peer tid = Inr t \<and> sd_sha256 (tr_state t) = bp_hash p C \<and> sd_sizeBytes (tr_state t) = length C
     \<and> side s (tr_folder t) = Some sc \<and> sd_updatedAt sc = since)"

lemma acknowledged_kept:
  assumes "all_filed p s" "acknowledged p C peer committed since s"
  shows "kept_at (bp_key p peer (bp_hash p C) (length C)) committed since s"
proof -
  obtain tid t received sc where a: "blob_checkpoint s peer tid = Inr (received, committed)" "blob_get s peer tid = Inr t"
    "sd_sha256 (tr_state t) = bp_hash p C" "sd_sizeBytes (tr_state t) = length C"
    "side s (tr_folder t) = Some sc" "sd_updatedAt sc = since" using assms(2) unfolding acknowledged_def by blast
  have t: "map_get (br_transfers s) tid = Some t" "sd_peerId (tr_state t) = peer" "tr_failure t = None"
    using a(2) by (simp_all add: blob_get_Inr)
  have f: "filed p s t" using assms(1) t(1) unfolding all_filed_def by blast
  then have "tr_folder t = bp_key p peer (bp_hash p C) (length C)" unfolding filed_def t(2) a(3,4) by blast
  moreover have "sd_committedOffset sc = committed"
    using f t(3) a(1,2,5) unfolding filed_def by (auto simp: blob_checkpoint_def)
  ultimately show ?thesis using a(5,6) by (auto simp: kept_at_def)
qed

text \<open>A begin answers no less than what is on record.\<close>

lemma begun_enough:
  assumes ok: "receiver_ok C I s" "all_filed p s"
    and begun: "blob_begin p fl now fresh s peer (push_identity p C tok) name = (s1, r)"
    and t: "map_get (br_transfers s1) tid = Some t" "ident (tr_state t) = (peer, bp_hash p C, length C)"
    and kept: "kept_at (bp_key p peer (bp_hash p C) (length C)) c u s" "u \<le> now" "now \<le> u + BLOB_RETENTION_MS"
  shows "c \<le> sd_committedOffset (tr_state t)"
proof -
  have s1: "receiver_ok C I s1" "all_filed p s1" "kept_at (bp_key p peer (bp_hash p C) (length C)) c u s1"
    using blob_begin_ok [OF ok(1), of p fl now fresh peer "push_identity p C tok" name]
      filed_begin [OF ok, of fl now fresh peer "push_identity p C tok" name]
      kept_begin [OF ok(1) kept, of p fl fresh peer "push_identity p C tok" name] unfolding begun by simp_all
  have "tr_folder t = bp_key p peer (bp_hash p C) (length C)"
    using s1(2) t unfolding all_filed_def filed_def ident_def by fastforce
  then show ?thesis by (rule kept_transfer(1) [OF s1(1,3) t(1)])
qed

text \<open>Any attempt from a state the receiver can be in.\<close>

lemma attempt_outcome:
  assumes ok: "receiver_ok C {(peer, bp_hash p C, length C)} s" "all_filed p s"
    and sound: "\<And>P c. map_has (br_files s) P \<Longrightarrow> c \<in> cores s \<Longrightarrow> sound_core p P (br_files s) c"
    and kept: "committed = 0 \<or> kept_at (bp_key p peer (bp_hash p C) (length C)) committed u s \<and> u \<le> now
      \<and> now \<le> u + BLOB_RETENTION_MS"
  shows "(\<exists>s' r. push_attempt p now fresh s peer C tok name committed = (s', Inr r) \<and> delivered p C s s' r)
    \<or> snd (push_attempt p now fresh s peer C tok name committed) \<in> (Inl \<circ> PeerError) `
        {InvalidIdentity, InvalidOwner, FolderNotAbsolute, TransferLimit, InvalidSidecar, OtherSend, DestinationDiffers}"
proof (cases rule: begun_cases [OF ok(1), of now fresh tok name])
  case (1 e s1)
  then show ?thesis by (auto simp: push_attempt_def)
next
  case (2 s1 st f)
  let ?tid = "''blob:'' @ fresh" and ?off = "sd_committedOffset st" and ?t = "begun_transfer now f st"
  have ok1: "receiver_ok C {(peer, bp_hash p C, length C)} s1"
    using blob_begin_ok [OF ok(1), of p NoFault now fresh peer "push_identity p C tok" name] by (simp add: 2(1))
  have t: "ident (tr_state ?t) = (peer, bp_hash p C, length C)" "tr_receivedOffset ?t = ?off"
    "sd_committedOffset (tr_state ?t) = ?off" "sd_result (tr_state ?t) = sd_result st" "core (tr_state ?t) = core st"
    using 2(4) by (simp_all add: begun_transfer_def)
  then have get: "blob_get s1 peer ?tid = Inr ?t" using 2(2,4) by (simp add: blob_get_Inr begun_transfer_def ident_def)
  have enough: "committed \<le> ?off"
    using kept begun_enough [OF ok 2(1,2) t(1)] t(3) by auto
  note fin = attempt_ends [OF 2(1) enough 2(5)]
  show ?thesis
  proof (cases "sd_result st")
    case None
    have "sending p C peer ?tid ?off s1 ?off"
      unfolding sending_def using ok1 2(5) get t None by (auto simp: boundary_def)
    then obtain s2 c where r: "push_rounds p now peer C ?tid ?off s1 ?off = (s2, None)" "sending p C peer ?tid c s2 (length C)"
      using sending_rounds [OF _ 2(7)] by blast
    have "br_files s2 = br_files s" using rounds_files [of p now peer C ?tid ?off s1 ?off] 2(3) unfolding r(1) by simp
    from fin [OF r(1) this sending_finish [OF r(2)]] show ?thesis by auto
  next
    case (Some x)
    then have full: "?off = length C" and core: "core st \<in> cores s" using 2(6) by simp_all
    have r: "push_rounds p now peer C ?tid ?off s1 ?off = (s1, None)" by (simp add: push_rounds.simps full)
    have "snd (blob_finish p NoFault now s1 peer ?tid) = Inl DestinationDiffers
      \<or> (\<exists>s' r. blob_finish p NoFault now s1 peer ?tid = (s', Inr r) \<and> delivered p C s1 s' r)"
      by (rule published_again [OF ok1 get t(1), of x]) (use t full Some sound [OF _ core] 2(3) in simp_all)
    from fin [OF r 2(3) this] show ?thesis by auto
  qed
qed

text \<open>
  C28: An interrupted transfer completes. Take any history of the receiver - disk faults, crashes
  that leave garbage behind the synced bytes, dropped connections, other transfers - in which this
  sender's chunks carried the file's bytes and no file that was moved away has been replaced. An
  attempt at its end that is not cut off again, a first one or one that has heard \<open>committed\<close> from an
  attempt before it, ends with the file delivered: the receipt names a file with the announced digest
  and length, and a newly published one holds exactly the bytes sent. It fails only as the receiver
  refuses the transfer at its begin, or where a different file stands at the destination; no
  acknowledgement or receipt is ever rejected, and neither is the resumed offset, for a first attempt
  without condition, for a later one while the sidecar that held \<open>committed\<close> is at most a day old and
  the transfer was not cancelled since. (After that the receiver may have given the folder up, begins
  at zero, and the sender refuses.)
\<close>

theorem interrupted_transfer_completes:
  assumes "s = foldl (blob_do p) (foldl (blob_do p) blob_new before) after"
    and "\<forall>step\<in>set (before @ after). honest_call C {(peer, bp_hash p C, length C)} (snd (snd step))"
    and "\<forall>path\<in>{path. map_has (br_files s) path}. \<forall>step\<in>set (before @ after). snd (snd step) \<noteq> BlMoved path"
    and "committed = 0 \<or> acknowledged p C peer committed since (foldl (blob_do p) blob_new before)
      \<and> since \<le> now \<and> now \<le> since + BLOB_RETENTION_MS
      \<and> (\<forall>(fl, at, call)\<in>set after. since \<le> at \<and> at \<le> since + BLOB_RETENTION_MS
           \<and> \<not> cancels p (bp_key p peer (bp_hash p C) (length C)) call)"
  shows "(\<exists>s' r. push_attempt p now fresh s peer C tok name committed = (s', Inr r) \<and> delivered p C s s' r)
    \<or> snd (push_attempt p now fresh s peer C tok name committed) \<in> (Inl \<circ> PeerError) `
        {InvalidIdentity, InvalidOwner, FolderNotAbsolute, TransferLimit, InvalidSidecar, OtherSend, DestinationDiffers}"
proof -
  let ?I = "{(peer, bp_hash p C, length C)}" and ?heard = "foldl (blob_do p) blob_new before"
  have h: "\<forall>step\<in>set before. honest_call C ?I (snd (snd step))" "\<forall>step\<in>set after. honest_call C ?I (snd (snd step))"
    using assms(2) by auto
  have ok0: "receiver_ok C ?I ?heard" "all_filed p ?heard"
    by (rule blob_run_ok [OF h(1) receiver_ok_new]) (rule filed_run [OF receiver_ok_new all_filed_new h(1)])
  have ok: "receiver_ok C ?I s" "all_filed p s" unfolding assms(1)
    by (rule blob_run_ok [OF h(2) ok0(1)]) (rule filed_run [OF ok0 h(2)])
  have run: "s = foldl (blob_do p) blob_new (before @ after)" by (simp add: assms(1))
  show ?thesis
  proof (rule attempt_outcome [OF ok])
    show "sound_core p P (br_files s) c" if "map_has (br_files s) P" "c \<in> cores s" for P c
    proof -
      have "\<forall>step\<in>set (before @ after). snd (snd step) \<noteq> BlMoved P" using assms(3) that(1) by blast
      then have "\<forall>c\<in>cores s. sound_core p P (br_files s) c"
        using blob_run_sound [OF receiver_ok_new, where C = C and p = p and steps = "before @ after" and P = P]
        unfolding run by (simp add: cores_def blob_new_def)
      then show ?thesis using that(2) by blast
    qed
    show "committed = 0 \<or> kept_at (bp_key p peer (bp_hash p C) (length C)) committed since s \<and> since \<le> now
        \<and> now \<le> since + BLOB_RETENTION_MS"
      using assms(4) kept_run [OF ok0(1) acknowledged_kept [OF ok0(2)] h(2)]
      unfolding assms(1) by blast
  qed
qed

text \<open>
  A short file: the first attempt's chunk is written, synced and acknowledged, the connection drops, and
  a crash leaves garbage; the next attempt resumes at the acknowledged offset.
\<close>

definition demo_before :: "(fs_fault \<times> int \<times> blob_call) list" where
  "demo_before = [(NoFault, 10, BlBegin ''one'' ''peer'' (push_identity demo_params [1, 2, 3] None) ''a.txt''),
     (NoFault, 11, BlChunk ''peer'' (push_envelope demo_params [1, 2, 3] ''blob:one'' 0))]"

definition demo_after :: "(fs_fault \<times> int \<times> blob_call) list" where
  "demo_after = [(NoFault, 12, BlDisconnect ''peer'' (\<lambda>_. PersistFault False)), (NoFault, 13, BlCrash (\<lambda>_. [9, 9, 9, 9]))]"

lemma window_four: "push_window p now peer C tid 4 x = push_window p now peer C tid (Suc (Suc (Suc (Suc 0)))) x"
  by (simp add: eval_nat_numeral)

lemma demo_before_state:
  "foldl (blob_do demo_params) blob_new demo_before = \<lparr>br_transfers = [(''blob:one'', \<lparr>tr_state = \<lparr>sd_peerId = ''peer'',
       sd_senderToken = None, sd_sha256 = replicate 64 (CHR ''a''), sd_sizeBytes = 3, sd_name = ''a.txt'', sd_committedOffset = 3,
       sd_updatedAt = 11, sd_result = None\<rparr>, tr_folder = ''0123456789abcdef'', tr_receivedOffset = 3, tr_failure = None\<rparr>)],
     br_disk = [(''0123456789abcdef'', \<lparr>bf_sidecar = Some \<lparr>sd_peerId = ''peer'', sd_senderToken = None,
       sd_sha256 = replicate 64 (CHR ''a''), sd_sizeBytes = 3, sd_name = ''a.txt'', sd_committedOffset = 3, sd_updatedAt = 11,
       sd_result = None\<rparr>, bf_data = Some [1, 2, 3], bf_synced = 3, bf_mtime = 11\<rparr>)], br_files = []\<rparr>"
  by (simp add: demo_before_def demo_params_def push_identity_def push_envelope_def blob_eval)

theorem interrupted_transfer_completes_witness:
  "\<exists>s' r. push_attempt demo_params 20 ''two'' (foldl (blob_do demo_params) blob_new (demo_before @ demo_after)) ''peer'' [1, 2, 3]
       None ''a.txt'' 3 = (s', Inr r)
     \<and> delivered demo_params [1, 2, 3] (foldl (blob_do demo_params) blob_new (demo_before @ demo_after)) s' r"
proof -
  let ?heard = "foldl (blob_do demo_params) blob_new demo_before"
  let ?s = "foldl (blob_do demo_params) ?heard demo_after"
  let ?a = "push_attempt demo_params 20 ''two'' ?s ''peer'' [1, 2, 3] None ''a.txt'' 3"
  have fine: "case snd ?a of Inl _ \<Rightarrow> False | Inr _ \<Rightarrow> True"
    unfolding demo_before_state
    by (simp add: demo_after_def blob_disconnect_def suspend_one_def demo_params_def push_attempt_def push_identity_def
        push_envelope_def blob_eval push_rounds.simps valid_ack_def window_four)
  have "ce_data (push_envelope demo_params [1, 2, 3] ''blob:one'' 0)
      = slice [1, 2, 3] (nat (ce_chunkIndex (push_envelope demo_params [1, 2, 3] ''blob:one'' 0)) * BLOB_CHUNK_BYTES)"
    by (simp add: push_envelope_def slice_def BLOB_CHUNK_BYTES_def)
  then have h: "\<forall>step\<in>set (demo_before @ demo_after). honest_call [1, 2, 3]
      {(''peer'', bp_hash demo_params [1, 2, 3], length ([1, 2, 3] :: byte list))} (snd (snd step))"
    by (simp add: demo_before_def demo_after_def honest_call_def)
  have m: "\<forall>path\<in>{path. map_has (br_files ?s) path}. \<forall>step\<in>set (demo_before @ demo_after). snd (snd step) \<noteq> BlMoved path"
    by (simp add: demo_before_def demo_after_def)
  have "acknowledged demo_params [1, 2, 3] ''peer'' 3 11 ?heard"
    unfolding demo_before_state acknowledged_def
    by (intro exI [where x = "''blob:one''"]) (simp add: blob_checkpoint_def blob_get_def side_def demo_params_def)
  then have k: "(3 :: nat) = 0 \<or> acknowledged demo_params [1, 2, 3] ''peer'' 3 11 ?heard \<and> 11 \<le> (20 :: int)
      \<and> (20 :: int) \<le> 11 + BLOB_RETENTION_MS
      \<and> (\<forall>(fl, at, call)\<in>set demo_after. 11 \<le> at \<and> at \<le> 11 + BLOB_RETENTION_MS
           \<and> \<not> cancels demo_params (bp_key demo_params ''peer'' (bp_hash demo_params [1, 2, 3]) (length ([1, 2, 3] :: byte list))) call)"
    by (simp add: demo_after_def BLOB_RETENTION_MS_def)
  from interrupted_transfer_completes [OF refl h m k, of "''two''" None "''a.txt''"] fine
  have "\<exists>s' r. ?a = (s', Inr r) \<and> delivered demo_params [1, 2, 3] ?s s' r" by (auto split: sum.split_asm)
  then show ?thesis by simp
qed

end
