(* ===== verification/RuntimeLeases.thy ===== *)
theory RuntimeLeases
  imports Prelude
begin

text \<open>
  App instances that share a profile also share its SQLite file; a lease there decides which of
  them runs messaging, federation or the MCP connections. This theory models
  \<open>state/app-runtime-instance-store.ts\<close> (the tables and the transactions on them), the runtime
  markers of \<open>profile.ts\<close> that say which instance is alive, and \<open>runtime-lease-manager.ts\<close>, one per
  process. A table is a map of rows and a transaction is one function. Times are milliseconds of a
  clock that may jump; paths and their hash are opaque.
\<close>

datatype lease_kind = MessagingLease | FederationLease | McpConnectionsLease

definition RUNTIME_LEASE_DEAD_OWNER_GRACE_MS :: int where
  "RUNTIME_LEASE_DEAD_OWNER_GRACE_MS = 60000"

definition PID_OWNED_LEASE_EXPIRES_AT :: int where
  "PID_OWNED_LEASE_EXPIRES_AT = 9007199254740991"

definition RUNTIME_BOOT_TIME_TOLERANCE_MS :: int where
  "RUNTIME_BOOT_TIME_TOLERANCE_MS = 5000"

definition PROFILE_RUNTIME_HEARTBEAT_TTL_MS :: int where
  "PROFILE_RUNTIME_HEARTBEAT_TTL_MS = 45000"

definition PROFILE_RUNTIME_IDENTITY_PREFIX :: string where
  "PROFILE_RUNTIME_IDENTITY_PREFIX = ''runtime-v2-''"

datatype disabled_reason = ExplicitOverride | LeaseHeld | NoRunnableAdapters | RuntimeStopped | StartupError

record instance_row =
  ai_profile :: string
  ai_pid :: int
  ai_cwdHint :: "string option"
  ai_cwdHash :: "string option"
  ai_startedAt :: int
  ai_heartbeatAt :: int
  ai_exitedAt :: "int option"
  ai_desired :: bool
  ai_effective :: bool
  ai_reason :: "string option"

datatype lease_status = LeaseActive | LeaseReleased | LeaseExpired

record lease_row =
  le_owner :: string
  le_acquiredAt :: int
  le_heartbeatAt :: int
  le_expiresAt :: int
  le_releasedAt :: "int option"
  le_status :: lease_status

record lease_store =
  ls_instances :: "(string, instance_row) jsmap"
  ls_leases :: "(lease_kind, lease_row) jsmap"

subsection \<open>The tables\<close>

fun reason_text :: "disabled_reason \<Rightarrow> string" where
  "reason_text ExplicitOverride = ''explicit_override''"
| "reason_text LeaseHeld = ''lease_held''"
| "reason_text NoRunnableAdapters = ''no_runnable_adapters''"
| "reason_text RuntimeStopped = ''runtime_stopped''"
| "reason_text StartupError = ''startup_error''"

definition normalizeDisabledReason :: "string option \<Rightarrow> disabled_reason option" where
  "normalizeDisabledReason v = (case v of
     None \<Rightarrow> None
   | Some t \<Rightarrow>
      (case find (\<lambda>r. reason_text r = t) [ExplicitOverride, LeaseHeld, NoRunnableAdapters, RuntimeStopped, StartupError] of
         Some r \<Rightarrow> Some r | None \<Rightarrow> if t = [] then None else Some ExplicitOverride))"

definition getInstance :: "lease_store \<Rightarrow> string \<Rightarrow> instance_row option" where
  "getInstance s i = map_get (ls_instances s) i"

definition disabledReason_of :: "instance_row \<Rightarrow> disabled_reason option" where
  "disabledReason_of r = (case ai_reason r of
     None \<Rightarrow> None
   | Some t \<Rightarrow> if t = [] then None else Some (or_else (normalizeDisabledReason (Some t)) RuntimeStopped))"

definition recordInstanceStart ::
  "lease_store \<Rightarrow> string \<Rightarrow> string \<Rightarrow> int \<Rightarrow> string option \<Rightarrow> string option \<Rightarrow> int \<Rightarrow> bool \<Rightarrow> bool option \<Rightarrow>
   string option \<Rightarrow> lease_store" where
  "recordInstanceStart s i profile pid hint hash startedAt desired effective reason =
     s\<lparr>ls_instances := map_set (ls_instances s) i
         \<lparr>ai_profile = profile, ai_pid = pid, ai_cwdHint = hint, ai_cwdHash = hash, ai_startedAt = startedAt,
          ai_heartbeatAt = startedAt, ai_exitedAt = None, ai_desired = desired,
          ai_effective = or_else effective False,
          ai_reason = map_option reason_text (normalizeDisabledReason reason)\<rparr>\<rparr>"

definition update_instance :: "lease_store \<Rightarrow> string \<Rightarrow> (instance_row \<Rightarrow> instance_row) \<Rightarrow> lease_store" where
  "update_instance s i f = (case map_get (ls_instances s) i of
     None \<Rightarrow> s | Some r \<Rightarrow> s\<lparr>ls_instances := map_set (ls_instances s) i (f r)\<rparr>)"

definition markDesiredMessaging ::
  "lease_store \<Rightarrow> string \<Rightarrow> bool \<Rightarrow> bool \<Rightarrow> disabled_reason option \<Rightarrow> int \<Rightarrow> lease_store" where
  "markDesiredMessaging s i desired effective reason now =
     update_instance s i (\<lambda>r. r\<lparr>ai_desired := desired, ai_effective := effective,
       ai_reason := map_option reason_text reason, ai_heartbeatAt := now\<rparr>)"

definition markInstanceExited :: "lease_store \<Rightarrow> string \<Rightarrow> int \<Rightarrow> lease_store" where
  "markInstanceExited s i now = update_instance s i (\<lambda>r. r\<lparr>ai_exitedAt := Some now, ai_heartbeatAt := now\<rparr>)"

definition readLease :: "lease_store \<Rightarrow> lease_kind \<Rightarrow> lease_row option" where
  "readLease s k = map_get (ls_leases s) k"

definition setLeaseExpiry :: "lease_store \<Rightarrow> lease_kind \<Rightarrow> string \<Rightarrow> int \<Rightarrow> lease_store" where
  "setLeaseExpiry s k owner expires = (case readLease s k of
     None \<Rightarrow> s
   | Some l \<Rightarrow> if le_owner l = owner \<and> le_status l = LeaseActive
               then s\<lparr>ls_leases := map_set (ls_leases s) k (l\<lparr>le_expiresAt := expires\<rparr>)\<rparr> else s)"

definition upsertActiveLease :: "lease_store \<Rightarrow> lease_kind \<Rightarrow> string \<Rightarrow> int \<Rightarrow> int \<Rightarrow> lease_store" where
  "upsertActiveLease s k i acquiredAt now =
     s\<lparr>ls_leases := map_set (ls_leases s) k
         \<lparr>le_owner = i, le_acquiredAt = acquiredAt, le_heartbeatAt = now,
          le_expiresAt = PID_OWNED_LEASE_EXPIRES_AT, le_releasedAt = None, le_status = LeaseActive\<rparr>\<rparr>"

subsection \<open>Transactions\<close>

definition held_active :: "lease_row option \<Rightarrow> (lease_row \<Rightarrow> bool) \<Rightarrow> bool" where
  "held_active l P = (case l of None \<Rightarrow> False | Some r \<Rightarrow> le_status r = LeaseActive \<and> P r)"

text \<open>
  The guard of \<open>acquireLease\<close> against another owner's active lease: what it writes, and whether the
  caller is refused. \<open>alive\<close> and \<open>reclaim\<close> are the callbacks of the caller.
\<close>

definition challenge ::
  "(instance_row \<Rightarrow> string \<Rightarrow> bool) \<Rightarrow> (instance_row \<Rightarrow> bool) \<Rightarrow> int \<Rightarrow> lease_store \<Rightarrow> lease_kind \<Rightarrow> lease_row \<Rightarrow>
   lease_store \<times> bool" where
  "challenge alive reclaim now s k ex =
     (case getInstance s (le_owner ex) of
        Some owner \<Rightarrow>
         (case ai_exitedAt owner of
            Some exitedAt \<Rightarrow>
             (let reclaimAt = (if reclaim owner then exitedAt else exitedAt + RUNTIME_LEASE_DEAD_OWNER_GRACE_MS)
              in (if le_expiresAt ex \<noteq> reclaimAt then setLeaseExpiry s k (le_owner ex) reclaimAt else s,
                  now < reclaimAt))
          | None \<Rightarrow>
             (if alive owner (le_owner ex) then (s, True)
              else if reclaim owner then (markInstanceExited s (le_owner ex) now, False)
              else (setLeaseExpiry (markInstanceExited s (le_owner ex) now) k (le_owner ex)
                      (now + RUNTIME_LEASE_DEAD_OWNER_GRACE_MS), True)))
      | None \<Rightarrow>
         (if le_expiresAt ex \<noteq> PID_OWNED_LEASE_EXPIRES_AT then (s, now < le_expiresAt ex)
          else (setLeaseExpiry s k (le_owner ex) (now + RUNTIME_LEASE_DEAD_OWNER_GRACE_MS), True)))"

definition on_held :: "lease_kind \<Rightarrow> string \<Rightarrow> int \<Rightarrow> lease_store \<Rightarrow> lease_store" where
  "on_held k i now s =
     (if k = MessagingLease then markDesiredMessaging s i True False (Some LeaseHeld) now else s)"

definition on_acquired :: "lease_kind \<Rightarrow> string \<Rightarrow> int \<Rightarrow> lease_store \<Rightarrow> lease_store" where
  "on_acquired k i now s = (if k = MessagingLease then markDesiredMessaging s i True True None now else s)"

definition acquireLease ::
  "(instance_row \<Rightarrow> string \<Rightarrow> bool) \<Rightarrow> (instance_row \<Rightarrow> bool) \<Rightarrow> int \<Rightarrow> lease_store \<Rightarrow> lease_kind \<Rightarrow> string \<Rightarrow>
   lease_store \<times> lease_row option" where
  "acquireLease alive reclaim now s k i =
     (let existing = readLease s k;
          (s1, refused) = (if held_active existing (\<lambda>r. le_owner r \<noteq> i)
             then challenge alive reclaim now s k (the existing) else (s, False))
      in if refused then (on_held k i now s1, readLease s1 k)
         else if held_active existing (\<lambda>r. le_owner r = i) then (on_acquired k i now s1, None)
         else (on_acquired k i now (upsertActiveLease s1 k i now now), None))"

definition releaseLease :: "int \<Rightarrow> lease_store \<Rightarrow> lease_kind \<Rightarrow> string \<Rightarrow> lease_store \<times> bool" where
  "releaseLease now s k i = (case readLease s k of
     None \<Rightarrow> (s, False)
   | Some l \<Rightarrow>
      (if le_status l \<noteq> LeaseActive \<or> le_owner l \<noteq> i then (s, False)
       else let s1 = s\<lparr>ls_leases := map_set (ls_leases s) k (l\<lparr>le_releasedAt := Some now, le_status := LeaseReleased\<rparr>)\<rparr>
            in (if k = MessagingLease then markDesiredMessaging s1 i True False (Some RuntimeStopped) now else s1, True)))"

subsection \<open>Runtime markers\<close>

text \<open>
  Every process refreshes one file in the profile's marker directory. \<open>runs\<close> answers for
  \<open>process.kill(pid, 0)\<close>; looking for live markers removes the files that are not.
\<close>

record runtime_marker =
  rm_instanceId :: string
  rm_pid :: int
  rm_profile :: string
  rm_startedAt :: int
  rm_heartbeatAt :: int

type_synonym marker_files = "(int \<times> string, runtime_marker) jsmap"

definition marker_live :: "(int \<Rightarrow> bool) \<Rightarrow> int \<Rightarrow> runtime_marker \<Rightarrow> bool" where
  "marker_live runs now m \<longleftrightarrow>
     now - rm_heartbeatAt m \<le> PROFILE_RUNTIME_HEARTBEAT_TTL_MS \<and> rm_pid m > 0 \<and> runs (rm_pid m)"

definition findLiveProfileRuntimeMarkers ::
  "(int \<Rightarrow> bool) \<Rightarrow> int \<Rightarrow> string \<Rightarrow> marker_files \<Rightarrow> marker_files \<times> runtime_marker list" where
  "findLiveProfileRuntimeMarkers runs now profile files =
     (filter (\<lambda>(_, m). rm_profile m = profile \<longrightarrow> marker_live runs now m) files,
      filter (\<lambda>m. rm_profile m = profile \<and> marker_live runs now m) (map_vals files))"

definition starts_with :: "string \<Rightarrow> string \<Rightarrow> bool" where
  "starts_with p t \<longleftrightarrow> take (length p) t = p"

definition isProfileRuntimeIdentityLive ::
  "(int \<Rightarrow> bool) \<Rightarrow> int \<Rightarrow> marker_files \<Rightarrow> instance_row \<Rightarrow> string \<Rightarrow> bool" where
  "isProfileRuntimeIdentityLive runs now files owner i =
     (let markers = snd (findLiveProfileRuntimeMarkers runs now (ai_profile owner) files)
      in if \<not> starts_with PROFILE_RUNTIME_IDENTITY_PREFIX i then list_ex (\<lambda>m. rm_pid m = ai_pid owner) markers
         else list_ex (\<lambda>m. rm_instanceId m = i \<and> rm_pid m = ai_pid owner \<and> rm_startedAt m = ai_startedAt owner) markers)"

text \<open>A heartbeat writes the file anew, so one that was removed comes back.\<close>

definition write_marker :: "marker_files \<Rightarrow> string \<Rightarrow> int \<Rightarrow> string \<Rightarrow> int \<Rightarrow> int \<Rightarrow> marker_files" where
  "write_marker files i pid profile startedAt now = map_set files (pid, i)
     \<lparr>rm_instanceId = i, rm_pid = pid, rm_profile = profile, rm_startedAt = startedAt, rm_heartbeatAt = now\<rparr>"

subsection \<open>The lease manager of a process\<close>

record lease_manager =
  lm_instanceId :: string
  lm_profile :: string
  lm_pid :: int
  lm_startedAt :: int
  lm_cwdHint :: "string option"
  lm_cwdHash :: "string option"
  lm_systemBootedAt :: int
  lm_held :: "lease_kind set"
  lm_recorded :: bool
  lm_exited :: bool

definition manager_new :: "string \<Rightarrow> string \<Rightarrow> int \<Rightarrow> int \<Rightarrow> string option \<Rightarrow> string option \<Rightarrow> int \<Rightarrow> lease_manager" where
  "manager_new i profile pid startedAt hint hash bootedAt =
     \<lparr>lm_instanceId = i, lm_profile = profile, lm_pid = pid, lm_startedAt = startedAt, lm_cwdHint = hint,
      lm_cwdHash = hash, lm_systemBootedAt = bootedAt, lm_held = {}, lm_recorded = False, lm_exited = False\<rparr>"

definition recordMessagingState ::
  "int \<Rightarrow> lease_store \<Rightarrow> lease_manager \<Rightarrow> bool \<Rightarrow> bool \<Rightarrow> disabled_reason option \<Rightarrow> lease_store \<times> lease_manager" where
  "recordMessagingState now s m desired effective reason =
     (if \<not> lm_recorded m
      then (recordInstanceStart s (lm_instanceId m) (lm_profile m) (lm_pid m) (lm_cwdHint m) (lm_cwdHash m)
              (lm_startedAt m) desired (Some effective) (map_option reason_text reason),
            m\<lparr>lm_recorded := True\<rparr>)
      else (markDesiredMessaging s (lm_instanceId m) desired effective reason now, m))"

definition ensureInstanceRecorded :: "int \<Rightarrow> lease_store \<Rightarrow> lease_manager \<Rightarrow> lease_store \<times> lease_manager" where
  "ensureInstanceRecorded now s m =
     (if lm_recorded m then (s, m) else recordMessagingState now s m False False None)"

text \<open>\<open>identity\<close> is \<open>runtimeIdentityIsAlive\<close>: by default the marker check above.\<close>

definition isOwnerAlive ::
  "(instance_row \<Rightarrow> string \<Rightarrow> bool) \<Rightarrow> lease_manager \<Rightarrow> instance_row \<Rightarrow> string \<Rightarrow> bool" where
  "isOwnerAlive identity m owner i =
     (if ai_exitedAt owner \<noteq> None then False
      else if ai_pid owner = lm_pid m then i = lm_instanceId m
      else identity owner i)"

definition ownerPredatesCurrentBoot :: "lease_manager \<Rightarrow> instance_row \<Rightarrow> bool" where
  "ownerPredatesCurrentBoot m owner \<longleftrightarrow> ai_startedAt owner < lm_systemBootedAt m - RUNTIME_BOOT_TIME_TOLERANCE_MS"

record lease_holder =
  lh_instanceId :: string
  lh_pid :: "int option"
  lh_cwdHint :: "string option"
  lh_startedAt :: "int option"

definition describeLeaseHolder :: "lease_store \<Rightarrow> lease_row \<Rightarrow> lease_holder" where
  "describeLeaseHolder s l =
     (let h = getInstance s (le_owner l); some = (\<lambda>v. if v = 0 then None else Some v)
      in \<lparr>lh_instanceId = le_owner l, lh_pid = Option.bind h (\<lambda>r. some (ai_pid r)),
          lh_cwdHint = Option.bind h (\<lambda>r. case ai_cwdHint r of Some [] \<Rightarrow> None | c \<Rightarrow> c),
          lh_startedAt = Option.bind h (\<lambda>r. some (ai_startedAt r))\<rparr>)"

definition manager_acquire ::
  "(instance_row \<Rightarrow> string \<Rightarrow> bool) \<Rightarrow> int \<Rightarrow> lease_store \<Rightarrow> lease_manager \<Rightarrow> lease_kind \<Rightarrow>
   lease_store \<times> lease_manager \<times> lease_holder option" where
  "manager_acquire identity now s m k =
     (let (s1, m1) = ensureInstanceRecorded now s m;
          (s2, denied) = acquireLease (isOwnerAlive identity m1) (ownerPredatesCurrentBoot m1) now s1 k (lm_instanceId m1)
      in case denied of
           None \<Rightarrow> (s2, m1\<lparr>lm_held := insert k (lm_held m1)\<rparr>, None)
         | Some holder \<Rightarrow> (s2, m1\<lparr>lm_held := lm_held m1 - {k}\<rparr>, Some (describeLeaseHolder s2 holder)))"

definition manager_release :: "int \<Rightarrow> lease_store \<Rightarrow> lease_manager \<Rightarrow> lease_kind \<Rightarrow> lease_store \<times> lease_manager \<times> bool" where
  "manager_release now s m k =
     (let (s1, released) = releaseLease now s k (lm_instanceId m)
      in (s1, m\<lparr>lm_held := lm_held m - {k}\<rparr>, released))"

definition holderIsAlive :: "(instance_row \<Rightarrow> string \<Rightarrow> bool) \<Rightarrow> lease_store \<Rightarrow> lease_manager \<Rightarrow> lease_row \<Rightarrow> bool" where
  "holderIsAlive identity s m l = (case getInstance s (le_owner l) of
     None \<Rightarrow> False | Some owner \<Rightarrow> isOwnerAlive identity m owner (le_owner l))"

definition manager_snapshot ::
  "(instance_row \<Rightarrow> string \<Rightarrow> bool) \<Rightarrow> lease_store \<Rightarrow> lease_manager \<Rightarrow> lease_kind \<Rightarrow>
   lease_manager \<times> bool \<times> lease_holder option" where
  "manager_snapshot identity s m k =
     (let lease = readLease s k;
          leaseHeld = (held_active lease (\<lambda>r. le_owner r = lm_instanceId m) \<and> k \<in> lm_held m)
      in (if leaseHeld then m else m\<lparr>lm_held := lm_held m - {k}\<rparr>, leaseHeld,
          if held_active lease (\<lambda>r. le_owner r \<noteq> lm_instanceId m \<and> holderIsAlive identity s m r)
          then map_option (describeLeaseHolder s) lease else None))"

definition shouldRetryAcquisition ::
  "(instance_row \<Rightarrow> string \<Rightarrow> bool) \<Rightarrow> int \<Rightarrow> lease_store \<Rightarrow> lease_manager \<Rightarrow> lease_kind \<Rightarrow> bool" where
  "shouldRetryAcquisition identity now s m k =
     (if lm_exited m then False
      else case readLease s k of
        None \<Rightarrow> True
      | Some l \<Rightarrow>
         (if le_status l \<noteq> LeaseActive then True
          else case getInstance s (le_owner l) of
            None \<Rightarrow> le_expiresAt l = PID_OWNED_LEASE_EXPIRES_AT \<or> le_expiresAt l \<le> now
          | Some owner \<Rightarrow>
             (if isOwnerAlive identity m owner (le_owner l) then False
              else case ai_exitedAt owner of
                None \<Rightarrow> True
              | Some exitedAt \<Rightarrow> ownerPredatesCurrentBoot m owner
                  \<or> exitedAt + RUNTIME_LEASE_DEAD_OWNER_GRACE_MS \<le> now)))"

definition markExited :: "int \<Rightarrow> lease_store \<Rightarrow> lease_manager \<Rightarrow> lease_store \<times> lease_manager" where
  "markExited now s m =
     (if \<not> lm_recorded m \<or> lm_exited m then (s, m)
      else (markInstanceExited s (lm_instanceId m) now, m\<lparr>lm_exited := True\<rparr>))"

end
