(* ===== verification/LeaseCoordinators.thy ===== *)
theory LeaseCoordinators
  imports RuntimeLeases
begin

text \<open>
  \<open>runtime-lease-retry.ts\<close>, \<open>runtime-federation-lease.ts\<close> and \<open>runtime-messaging-lease.ts\<close>: the
  coordinators that start and stop a runtime by its lease, and poll for a lease another instance
  holds. A coordinator's call is one function; what the awaited runtime or configuration answers is
  an argument. The retry timer runs every five seconds; \<open>retry_fire\<close> is its callback.
\<close>

subsection \<open>The retry timer\<close>

definition RUNTIME_LEASE_RETRY_MS :: int where "RUNTIME_LEASE_RETRY_MS = 5000"

record lease_retry =
  lr_timer :: "(lease_kind \<times> nat) option"
  lr_generation :: nat

definition retry_cancel :: "lease_retry \<Rightarrow> lease_retry" where
  "retry_cancel r = r\<lparr>lr_timer := None, lr_generation := Suc (lr_generation r)\<rparr>"

definition retry_isCurrent :: "lease_retry \<Rightarrow> nat \<Rightarrow> bool" where
  "retry_isCurrent r g \<longleftrightarrow> g = lr_generation r"

definition retry_schedule :: "lease_retry \<Rightarrow> lease_kind \<Rightarrow> nat \<Rightarrow> lease_retry" where
  "retry_schedule r k g = (if g \<noteq> lr_generation r then r else r\<lparr>lr_timer := Some (k, g)\<rparr>)"

text \<open>\<open>check\<close> is \<open>shouldRetryAcquisition\<close>, \<open>None\<close> where it throws; the second result asks for a retry.\<close>

definition retry_fire :: "(lease_kind \<Rightarrow> bool option) \<Rightarrow> lease_retry \<Rightarrow> lease_retry \<times> bool" where
  "retry_fire check r = (case lr_timer r of
     None \<Rightarrow> (r, False)
   | Some (k, g) \<Rightarrow>
      (let r1 = r\<lparr>lr_timer := None\<rparr>
       in if g \<noteq> lr_generation r then (r1, False)
          else if check k = Some True then (r1, True) else (retry_schedule r1 k g, False)))"

subsection \<open>Federation\<close>

datatype federation_mode = FederationDisabled | FederationGateway | FederationClient | FederationDual

datatype federation_reason = FedSavedDisabled | FedLeaseHeld | FedRuntimeStopped | FedStartupError

record federation_lease =
  fl_manager :: lease_manager
  fl_reason :: "federation_reason option"
  fl_retry :: lease_retry
  fl_shuttingDown :: bool

record federation_result =
  fr_enabled :: bool
  fr_reason :: "federation_reason option"
  fr_holder :: "lease_holder option"

definition fed_applyMode ::
  "(instance_row \<Rightarrow> string \<Rightarrow> bool) \<Rightarrow> int \<Rightarrow> lease_store \<Rightarrow> federation_lease \<Rightarrow> federation_mode \<Rightarrow> bool \<Rightarrow>
   lease_store \<times> federation_lease \<times> federation_result" where
  "fed_applyMode identity now s c mode disabledForSession =
     (let retry = retry_cancel (fl_retry c); c1 = c\<lparr>fl_retry := retry\<rparr>
      in if fl_shuttingDown c
         then (s, c1, \<lparr>fr_enabled = False, fr_reason = Some FedRuntimeStopped, fr_holder = None\<rparr>)
         else if mode = FederationDisabled
         then (let (s1, m, _) = manager_release now s (fl_manager c) FederationLease;
                   reason = (if disabledForSession then FedRuntimeStopped else FedSavedDisabled)
               in (s1, c1\<lparr>fl_manager := m, fl_reason := Some reason\<rparr>,
                   \<lparr>fr_enabled = False, fr_reason = Some reason, fr_holder = None\<rparr>))
         else (case manager_acquire identity now s (fl_manager c) FederationLease of
             (s1, m, Some holder) \<Rightarrow>
               (s1, c1\<lparr>fl_manager := m, fl_reason := Some FedLeaseHeld,
                      fl_retry := retry_schedule retry FederationLease (lr_generation retry)\<rparr>,
                \<lparr>fr_enabled = False, fr_reason = Some FedLeaseHeld, fr_holder = Some holder\<rparr>)
           | (s1, m, None) \<Rightarrow>
               (s1, c1\<lparr>fl_manager := m, fl_reason := None\<rparr>,
                \<lparr>fr_enabled = True, fr_reason = None, fr_holder = None\<rparr>)))"

text \<open>\<open>runtime.stop()\<close> runs first; an error of it is only logged.\<close>

definition fed_releaseAfterStartupFailure ::
  "int \<Rightarrow> lease_store \<Rightarrow> federation_lease \<Rightarrow> lease_store \<times> federation_lease" where
  "fed_releaseAfterStartupFailure now s c =
     (let (s1, m, _) = manager_release now s (fl_manager c) FederationLease
      in (s1, c\<lparr>fl_retry := retry_cancel (fl_retry c), fl_manager := m, fl_reason := Some FedStartupError\<rparr>))"

definition fed_stopRecovery :: "federation_lease \<Rightarrow> federation_lease" where
  "fed_stopRecovery c = c\<lparr>fl_shuttingDown := True, fl_retry := retry_cancel (fl_retry c)\<rparr>"

definition fed_shutdownSync :: "int \<Rightarrow> lease_store \<Rightarrow> federation_lease \<Rightarrow> lease_store \<times> federation_lease" where
  "fed_shutdownSync now s c =
     (let c1 = fed_stopRecovery c; (s1, m, _) = manager_release now s (fl_manager c1) FederationLease
      in (s1, c1\<lparr>fl_manager := m\<rparr>))"

fun federationDisabledReasonMessage :: "federation_reason \<Rightarrow> string" where
  "federationDisabledReasonMessage FedSavedDisabled = ''Federation is disabled in saved settings.''"
| "federationDisabledReasonMessage FedLeaseHeld =
     ''Federation is already active in another PwrAgent instance for this profile.''"
| "federationDisabledReasonMessage FedRuntimeStopped = ''Federation is stopped for this app instance.''"
| "federationDisabledReasonMessage FedStartupError = ''Federation failed during startup for this app instance.''"

record federation_snapshot =
  fs_instanceId :: string
  fs_leaseHeld :: bool
  fs_reason :: "(federation_reason \<times> string) option"
  fs_holder :: "lease_holder option"

definition fed_snapshot ::
  "(instance_row \<Rightarrow> string \<Rightarrow> bool) \<Rightarrow> lease_store \<Rightarrow> federation_lease \<Rightarrow> federation_lease \<times> federation_snapshot" where
  "fed_snapshot identity s c =
     (let (m, leaseHeld, holder) = manager_snapshot identity s (fl_manager c) FederationLease
      in (c\<lparr>fl_manager := m\<rparr>,
          \<lparr>fs_instanceId = lm_instanceId m, fs_leaseHeld = leaseHeld,
           fs_reason = map_option (\<lambda>r. (r, if r = FedLeaseHeld \<and> holder = None
               then ''Waiting to retry Federation after the previous owner stopped.''
               else federationDisabledReasonMessage r)) (fl_reason c),
           fs_holder = holder\<rparr>))"

text \<open>
  The timer's tick: the check, and where it asks for a retry, \<open>runtime.restart()\<close>, which tears the
  runtime down and comes back to \<open>applyMode\<close>.
\<close>

definition fed_tick ::
  "(instance_row \<Rightarrow> string \<Rightarrow> bool) \<Rightarrow> federation_mode \<Rightarrow> bool \<Rightarrow> lease_store \<times> federation_lease \<Rightarrow> int \<Rightarrow>
   lease_store \<times> federation_lease" where
  "fed_tick identity mode disabledForSession = (\<lambda>(s, c) now.
     (let (r, retry) = retry_fire (\<lambda>k. Some (shouldRetryAcquisition identity now s (fl_manager c) k)) (fl_retry c);
          c1 = c\<lparr>fl_retry := r\<rparr>
      in if retry then (case fed_applyMode identity now s c1 mode disabledForSession of (s2, c2, _) \<Rightarrow> (s2, c2))
         else (s, c1)))"

subsection \<open>Messaging\<close>

record messaging_lease =
  ml_manager :: lease_manager
  ml_retry :: lease_retry
  ml_shuttingDown :: bool
  ml_runtimeOn :: bool

datatype messaging_reason = SavedDisabled | MessagingReason disabled_reason

record messaging_result =
  mr_enabled :: bool
  mr_reason :: "messaging_reason option"
  mr_holder :: "lease_holder option"

definition stopped_result :: "messaging_reason \<Rightarrow> messaging_result" where
  "stopped_result r = \<lparr>mr_enabled = False, mr_reason = Some r, mr_holder = None\<rparr>"

definition msg_recordStart ::
  "int \<Rightarrow> lease_store \<Rightarrow> messaging_lease \<Rightarrow> bool \<Rightarrow> bool \<Rightarrow> disabled_reason option \<Rightarrow> lease_store \<times> messaging_lease" where
  "msg_recordStart now s c desired effective reason =
     (let (s1, m) = recordMessagingState now s (ml_manager c) desired effective reason in (s1, c\<lparr>ml_manager := m\<rparr>))"

definition msg_release :: "int \<Rightarrow> lease_store \<Rightarrow> messaging_lease \<Rightarrow> lease_store \<times> messaging_lease" where
  "msg_release now s c =
     (let (s1, m, _) = manager_release now s (ml_manager c) MessagingLease in (s1, c\<lparr>ml_manager := m\<rparr>))"

definition stopRuntimeAndRelease ::
  "int \<Rightarrow> lease_store \<Rightarrow> messaging_lease \<Rightarrow> disabled_reason \<Rightarrow> lease_store \<times> messaging_lease" where
  "stopRuntimeAndRelease now s c reason =
     (let (s1, c1) = msg_release now s (c\<lparr>ml_retry := retry_cancel (ml_retry c), ml_runtimeOn := False\<rparr>)
      in msg_recordStart now s1 c1 (reason \<noteq> RuntimeStopped) False (Some reason))"

definition msg_releaseAfterStartupFailure :: "int \<Rightarrow> lease_store \<Rightarrow> messaging_lease \<Rightarrow> lease_store \<times> messaging_lease" where
  "msg_releaseAfterStartupFailure now s c =
     (let (s1, c1) = msg_release now s (c\<lparr>ml_runtimeOn := False\<rparr>)
      in msg_recordStart now s1 c1 True False (Some StartupError))"

text \<open>
  A configuration: \<open>enabled\<close> if it says so, and whether it has a runnable adapter. \<open>started\<close> is
  what \<open>runtime.applyConfig\<close> leaves: enabled or not, \<open>None\<close> where it throws; then the call throws.
\<close>

record messaging_config =
  cf_enabled :: "bool option"
  cf_runnable :: bool

definition applyResolvedConfig ::
  "(instance_row \<Rightarrow> string \<Rightarrow> bool) \<Rightarrow> int \<Rightarrow> lease_store \<Rightarrow> messaging_lease \<Rightarrow> messaging_config \<Rightarrow> bool \<Rightarrow> bool \<Rightarrow>
   bool option \<Rightarrow> lease_store \<times> messaging_lease \<times> messaging_result option" where
  "applyResolvedConfig identity now s c config allowStart recover started =
     (let retry = retry_cancel (ml_retry c); c0 = c\<lparr>ml_retry := retry\<rparr>
      in if ml_shuttingDown c then (s, c0, Some (stopped_result (MessagingReason RuntimeStopped)))
         else
         (let desired = (cf_enabled config \<noteq> Some False);
              (s1, c1) = msg_recordStart now s c0 desired False (if desired then None else Some RuntimeStopped)
          in if \<not> desired
             then (case stopRuntimeAndRelease now s1 c1 RuntimeStopped of (s2, c2) \<Rightarrow>
                     (s2, c2, Some (stopped_result SavedDisabled)))
             else if \<not> cf_runnable config
             then (case stopRuntimeAndRelease now s1 c1 NoRunnableAdapters of (s2, c2) \<Rightarrow>
                     (s2, c2, Some (stopped_result (MessagingReason NoRunnableAdapters))))
             else
             (let (m2, leaseHeld, _) = manager_snapshot identity s1 (ml_manager c1) MessagingLease;
                  c2 = (if allowStart then c1 else c1\<lparr>ml_manager := m2\<rparr>)
              in if \<not> allowStart \<and> \<not> leaseHeld \<and> \<not> ml_runtimeOn c2
                 then (case msg_recordStart now s1 c2 True False (Some RuntimeStopped) of (s3, c3) \<Rightarrow>
                         (s3, c3, Some (stopped_result (MessagingReason RuntimeStopped))))
                 else (case manager_acquire identity now s1 (ml_manager c2) MessagingLease of
                     (s3, m3, Some holder) \<Rightarrow>
                       (s3, c2\<lparr>ml_manager := m3, ml_runtimeOn := False,
                              ml_retry := (if recover then retry_schedule retry MessagingLease (lr_generation retry) else retry)\<rparr>,
                        Some \<lparr>mr_enabled = False, mr_reason = Some (MessagingReason LeaseHeld), mr_holder = Some holder\<rparr>)
                   | (s3, m3, None) \<Rightarrow>
                       (let c3 = c2\<lparr>ml_manager := m3\<rparr>
                        in case started of
                             None \<Rightarrow> (case msg_releaseAfterStartupFailure now s3 c3 of (s4, c4) \<Rightarrow> (s4, c4, None))
                           | Some on \<Rightarrow> (s3, c3\<lparr>ml_runtimeOn := on\<rparr>,
                               Some \<lparr>mr_enabled = on, mr_reason = None, mr_holder = None\<rparr>))))))"

text \<open>
  \<open>applyLatestConfig\<close> reads the configuration, an await, between its two halves; \<open>loaded\<close> is
  \<open>None\<close> where the read throws. Its retry asks for the same again.
\<close>

definition applyLatestConfig_begin :: "messaging_lease \<Rightarrow> messaging_lease \<times> nat" where
  "applyLatestConfig_begin c =
     (let retry = retry_cancel (ml_retry c) in (c\<lparr>ml_retry := retry\<rparr>, lr_generation retry))"

definition applyLatestConfig_loaded ::
  "(instance_row \<Rightarrow> string \<Rightarrow> bool) \<Rightarrow> int \<Rightarrow> lease_store \<Rightarrow> messaging_lease \<Rightarrow> nat \<Rightarrow> messaging_config option \<Rightarrow>
   bool \<Rightarrow> bool option \<Rightarrow> lease_store \<times> messaging_lease \<times> messaging_result option" where
  "applyLatestConfig_loaded identity now s c generation loaded allowStart started = (case loaded of
     None \<Rightarrow> (s, c, None)
   | Some config \<Rightarrow>
      (if \<not> retry_isCurrent (ml_retry c) generation
       then (s, c, Some (stopped_result (MessagingReason RuntimeStopped)))
       else applyResolvedConfig identity now s c config allowStart True started))"

definition msg_start_disabled :: "int \<Rightarrow> lease_store \<Rightarrow> messaging_lease \<Rightarrow> lease_store \<times> messaging_lease \<times> messaging_result" where
  "msg_start_disabled now s c =
     (let (s1, c1) = msg_recordStart now s (c\<lparr>ml_retry := retry_cancel (ml_retry c)\<rparr>) False False (Some ExplicitOverride)
      in (s1, c1, stopped_result (MessagingReason ExplicitOverride)))"

definition disableForSession :: "int \<Rightarrow> lease_store \<Rightarrow> messaging_lease \<Rightarrow> lease_store \<times> messaging_lease \<times> messaging_result" where
  "disableForSession now s c =
     (let (s1, c1) = stopRuntimeAndRelease now s c RuntimeStopped
      in (s1, c1, stopped_result (MessagingReason RuntimeStopped)))"

definition msg_stopRecovery :: "messaging_lease \<Rightarrow> messaging_lease" where
  "msg_stopRecovery c = c\<lparr>ml_shuttingDown := True, ml_retry := retry_cancel (ml_retry c)\<rparr>"

definition msg_shutdown :: "int \<Rightarrow> lease_store \<Rightarrow> messaging_lease \<Rightarrow> lease_store \<times> messaging_lease" where
  "msg_shutdown now s c = stopRuntimeAndRelease now s (msg_stopRecovery c) RuntimeStopped"

definition msg_shutdownSync :: "int \<Rightarrow> lease_store \<Rightarrow> messaging_lease \<Rightarrow> lease_store \<times> messaging_lease" where
  "msg_shutdownSync now s c = msg_release now s (msg_stopRecovery c)"

end
