(* ===== verification/RuntimeLeasesProps.thy ===== *)
theory RuntimeLeasesProps
  imports LeaseCoordinators
begin

text \<open>
  The processes of a profile: any number of them start, beat, call their lease manager in any order,
  exit or die, on a clock that may jump. A run counts the attempts that missed a running owner,
  because its marker was gone or more than 45 seconds old; while there are none, at most one process
  believes it holds a lease. Whatever the markers say, an owner is not replaced within a minute of
  the first attempt that missed it; a dead owner is replaced, and so is a live one that was missed.
\<close>

subsection \<open>The processes of a profile\<close>

record lease_world =
  lw_store :: lease_store
  lw_markers :: marker_files
  lw_processes :: "(int, lease_manager) jsmap"

text \<open>
  An attempt of process \<open>pid\<close> on lease \<open>k\<close> sees its owner if that is not another running process, or
  one whose marker is there and at most 45 seconds old and for which the operating system answers.
\<close>

definition owner_seen :: "(int \<Rightarrow> bool) \<Rightarrow> int \<Rightarrow> lease_world \<Rightarrow> int \<Rightarrow> lease_kind \<Rightarrow> bool" where
  "owner_seen runs now w pid k \<longleftrightarrow> list_all (\<lambda>(q, m).
     q = pid \<or> lm_exited m \<or> \<not> held_active (readLease (lw_store w) k) (\<lambda>l. le_owner l = lm_instanceId m)
     \<or> (case map_get (lw_markers w) (q, lm_instanceId m) of
          None \<Rightarrow> False | Some mk \<Rightarrow> marker_live runs now mk)) (lw_processes w)"

definition identity_of :: "(int \<Rightarrow> bool) \<Rightarrow> int \<Rightarrow> lease_world \<Rightarrow> instance_row \<Rightarrow> string \<Rightarrow> bool" where
  "identity_of runs now w owner i = isProfileRuntimeIdentityLive runs now (lw_markers w) owner i"

definition set_process :: "lease_world \<Rightarrow> lease_store \<times> lease_manager \<Rightarrow> lease_world" where
  "set_process w r = w\<lparr>lw_store := fst r, lw_processes := map_set (lw_processes w) (lm_pid (snd r)) (snd r)\<rparr>"

definition beat :: "int \<Rightarrow> lease_world \<Rightarrow> lease_manager \<Rightarrow> lease_world" where
  "beat now w m = w\<lparr>lw_markers := write_marker (lw_markers w) (lm_instanceId m) (lm_pid m) (lm_profile m) (lm_startedAt m) now\<rparr>"

definition process_started :: "lease_manager \<Rightarrow> bool" where
  "process_started m \<longleftrightarrow> lm_held m = {} \<and> \<not> lm_recorded m \<and> \<not> lm_exited m"

definition world_acquire :: "(int \<Rightarrow> bool) \<Rightarrow> int \<Rightarrow> lease_world \<Rightarrow> lease_manager \<Rightarrow> lease_kind \<Rightarrow> lease_world" where
  "world_acquire runs now w m k =
     (let (s, m', _) = manager_acquire (identity_of runs now w) now (lw_store w) m k in set_process w (s, m'))"

definition world_release :: "int \<Rightarrow> lease_world \<Rightarrow> lease_manager \<Rightarrow> lease_kind \<Rightarrow> lease_world" where
  "world_release now w m k = (let (s, m', _) = manager_release now (lw_store w) m k in set_process w (s, m'))"

definition world_snapshot :: "(int \<Rightarrow> bool) \<Rightarrow> int \<Rightarrow> lease_world \<Rightarrow> lease_manager \<Rightarrow> lease_kind \<Rightarrow> lease_world" where
  "world_snapshot runs now w m k =
     set_process w (lw_store w, fst (manager_snapshot (identity_of runs now w) (lw_store w) m k))"

text \<open>
  The flag of a step says that it is an attempt that missed a running owner. A process ends without
  a word; its marker may stay or go. Anyone may sweep the markers.
\<close>

inductive lease_step :: "lease_world \<Rightarrow> bool \<Rightarrow> lease_world \<Rightarrow> bool" where
  start: "\<lbrakk>process_started m; \<not> map_has (lw_processes w) (lm_pid m);
     list_all (\<lambda>(_, q). lm_instanceId q \<noteq> lm_instanceId m) (lw_processes w)\<rbrakk>
     \<Longrightarrow> lease_step w False (beat now (set_process w (lw_store w, m)) m)"
| heartbeat: "map_get (lw_processes w) pid = Some m \<Longrightarrow> lease_step w False (beat now w m)"
| acquire: "map_get (lw_processes w) pid = Some m \<Longrightarrow>
     lease_step w (\<not> owner_seen runs now w pid k) (world_acquire runs now w m k)"
| release: "map_get (lw_processes w) pid = Some m \<Longrightarrow> lease_step w False (world_release now w m k)"
| report: "map_get (lw_processes w) pid = Some m \<Longrightarrow>
     lease_step w False (set_process w (recordMessagingState now (lw_store w) m desired effective reason))"
| look: "map_get (lw_processes w) pid = Some m \<Longrightarrow> lease_step w False (world_snapshot runs now w m k)"
| exited: "map_get (lw_processes w) pid = Some m \<Longrightarrow> lease_step w False (set_process w (markExited now (lw_store w) m))"
| died: "lease_step w False (w\<lparr>lw_processes := map_del (lw_processes w) pid,
     lw_markers := (if tidy then map_del (lw_markers w) (pid, i) else lw_markers w)\<rparr>)"
| sweep: "lease_step w False (w\<lparr>lw_markers := fst (findLiveProfileRuntimeMarkers runs now profile (lw_markers w))\<rparr>)"

text \<open>
  A run from the profile's database as earlier instances left it, with no process of it running; it
  counts the attempts that missed a running owner.
\<close>

inductive lease_run :: "nat \<Rightarrow> lease_world \<Rightarrow> bool" where
  lw_start: "wf_map files \<Longrightarrow> lease_run 0 \<lparr>lw_store = s, lw_markers = files, lw_processes = []\<rparr>"
| lw_step: "\<lbrakk>lease_run n w; lease_step w missed w'\<rbrakk> \<Longrightarrow> lease_run (if missed then Suc n else n) w'"

declare map_of_eq_Some_iff [simp del]

subsection \<open>What an operation leaves to another instance\<close>

definition unharmed :: "string \<Rightarrow> lease_store \<Rightarrow> lease_store \<Rightarrow> bool" where
  "unharmed i s s' \<longleftrightarrow> getInstance s' i = getInstance s i
     \<and> (\<forall>k. held_active (readLease s k) (\<lambda>r. le_owner r = i) \<longrightarrow> readLease s' k = readLease s k)"

named_theorems lease_ops \<open>equations of the lease tables\<close>

lemma unharmed_refl [simp]: "unharmed i s s"
  by (simp add: unharmed_def)

lemma unharmed_trans [trans]: "unharmed i s s1 \<Longrightarrow> unharmed i s1 s2 \<Longrightarrow> unharmed i s s2"
  by (simp add: unharmed_def)

lemma getInstance_update [lease_ops]:
  "getInstance (update_instance s j f) i = (if i = j then map_option f (getInstance s j) else getInstance s i)"
  by (simp add: update_instance_def getInstance_def split: option.splits)

lemma readLease_update [lease_ops]: "readLease (update_instance s j f) k = readLease s k"
  by (simp add: update_instance_def readLease_def split: option.splits)

lemma getInstance_expiry [lease_ops]: "getInstance (setLeaseExpiry s k owner e) i = getInstance s i"
  by (simp add: setLeaseExpiry_def getInstance_def split: option.splits)

lemma readLease_expiry [lease_ops]:
  "readLease (setLeaseExpiry s k owner e) k' =
     (if k' = k \<and> held_active (readLease s k) (\<lambda>r. le_owner r = owner)
      then map_option (\<lambda>l. l\<lparr>le_expiresAt := e\<rparr>) (readLease s k) else readLease s k')"
  by (auto simp: setLeaseExpiry_def readLease_def held_active_def split: option.splits)

lemma getInstance_upsert [lease_ops]: "getInstance (upsertActiveLease s k i a now) j = getInstance s j"
  by (simp add: upsertActiveLease_def getInstance_def)

lemma readLease_upsert [lease_ops]:
  "readLease (upsertActiveLease s k i a now) k' =
     (if k' = k then Some \<lparr>le_owner = i, le_acquiredAt = a, le_heartbeatAt = now,
        le_expiresAt = PID_OWNED_LEASE_EXPIRES_AT, le_releasedAt = None, le_status = LeaseActive\<rparr> else readLease s k')"
  by (simp add: upsertActiveLease_def readLease_def)

lemma getInstance_record [lease_ops]:
  "getInstance (recordInstanceStart s j profile pid hint hash st d e r) i =
     (if i = j then Some \<lparr>ai_profile = profile, ai_pid = pid, ai_cwdHint = hint, ai_cwdHash = hash, ai_startedAt = st,
          ai_heartbeatAt = st, ai_exitedAt = None, ai_desired = d, ai_effective = or_else e False,
          ai_reason = map_option reason_text (normalizeDisabledReason r)\<rparr> else getInstance s i)"
  by (simp add: recordInstanceStart_def getInstance_def)

lemma readLease_record [lease_ops]: "readLease (recordInstanceStart s j profile pid hint hash st d e r) k = readLease s k"
  by (simp add: recordInstanceStart_def readLease_def)

lemmas lease_marks = markDesiredMessaging_def markInstanceExited_def on_held_def on_acquired_def

lemma held_active_iff: "held_active l P \<longleftrightarrow> (\<exists>r. l = Some r \<and> le_status r = LeaseActive \<and> P r)"
  by (simp add: held_active_def split: option.splits)

lemma unharmed_mark: "i \<noteq> j \<Longrightarrow> unharmed i s (update_instance s j f)"
  by (simp add: unharmed_def lease_ops)

lemma unharmed_on_held: "i \<noteq> j \<Longrightarrow> unharmed i s (on_held k j now s)"
  by (simp add: lease_marks unharmed_mark)

lemma unharmed_on_acquired: "i \<noteq> j \<Longrightarrow> unharmed i s (on_acquired k j now s)"
  by (simp add: lease_marks unharmed_mark)

lemma unharmed_expiry: "i \<noteq> j \<Longrightarrow> unharmed i s (setLeaseExpiry s k j e)"
  by (auto simp: unharmed_def lease_ops held_active_iff)

lemma unharmed_upsert:
  "\<not> held_active (readLease s k) (\<lambda>r. le_owner r = i) \<Longrightarrow> unharmed i s (upsertActiveLease s k j a now)"
  by (auto simp: unharmed_def lease_ops)

lemma unharmed_release: "i \<noteq> j \<Longrightarrow> unharmed i s (fst (releaseLease now s k j))"
  by (auto simp: releaseLease_def unharmed_def lease_marks held_active_iff getInstance_def readLease_def
      update_instance_def Let_def split: option.splits)

lemma unharmed_report: "i \<noteq> lm_instanceId m \<Longrightarrow> unharmed i s (fst (recordMessagingState now s m d e r))"
  by (simp add: recordMessagingState_def lease_marks unharmed_mark unharmed_def lease_ops)

lemma unharmed_ensure: "i \<noteq> lm_instanceId m \<Longrightarrow> unharmed i s (fst (ensureInstanceRecorded now s m))"
  by (simp add: ensureInstanceRecorded_def unharmed_report)

text \<open>A live owner's lease is refused and nothing of it written.\<close>

definition seen_alive :: "(instance_row \<Rightarrow> string \<Rightarrow> bool) \<Rightarrow> lease_store \<Rightarrow> string \<Rightarrow> bool" where
  "seen_alive alive s i \<longleftrightarrow> (\<exists>r. getInstance s i = Some r \<and> ai_exitedAt r = None \<and> alive r i)"

lemma challenge_alive:
  "seen_alive alive s (le_owner ex) \<Longrightarrow> challenge alive reclaim now s k ex = (s, True)"
  by (auto simp: challenge_def seen_alive_def)

lemma challenge_other:
  "i \<noteq> le_owner ex \<Longrightarrow> unharmed i s (fst (challenge alive reclaim now s k ex))"
  by (auto simp: challenge_def Let_def markInstanceExited_def unharmed_mark unharmed_expiry
      intro: unharmed_trans [OF unharmed_mark unharmed_expiry] split: option.splits)

lemma acquireLease_unharmed:
  assumes "i \<noteq> j" "held_active (readLease s k) (\<lambda>r. le_owner r = i) \<Longrightarrow> seen_alive alive s i"
  shows "unharmed i s (fst (acquireLease alive reclaim now s k j))"
proof -
  let ?mine = "held_active (readLease s k) (\<lambda>r. le_owner r = i)"
  obtain s1 refused where c: "(if held_active (readLease s k) (\<lambda>r. le_owner r \<noteq> j)
      then challenge alive reclaim now s k (the (readLease s k)) else (s, False)) = (s1, refused)" by fastforce
  have u: "unharmed i s s1 \<and> (?mine \<longrightarrow> refused \<and> s1 = s)"
  proof (cases ?mine)
    case True
    then have "held_active (readLease s k) (\<lambda>r. le_owner r \<noteq> j)" "le_owner (the (readLease s k)) = i"
      using assms(1) by (auto simp: held_active_iff)
    then show ?thesis using c assms(2) [OF True] challenge_alive [of alive s "the (readLease s k)"] by auto
  next
    case False
    then show ?thesis
      using c challenge_other [of i "the (readLease s k)" s alive reclaim now k]
      by (auto simp: held_active_iff split: if_splits)
  qed
  have up: "\<not> refused \<Longrightarrow> unharmed i s (upsertActiveLease s1 k j now now)"
    using u by (auto simp: unharmed_def lease_ops)
  show ?thesis
    unfolding acquireLease_def Let_def c
    using u up assms(1)
    by (auto intro: unharmed_trans [OF _ unharmed_on_held] unharmed_trans [OF _ unharmed_on_acquired])
qed

subsection \<open>What holds of every running process\<close>

definition own_row :: "lease_store \<Rightarrow> lease_manager \<Rightarrow> bool" where
  "own_row s m \<longleftrightarrow> (\<exists>r. getInstance s (lm_instanceId m) = Some r \<and> ai_exitedAt r = None \<and> ai_pid r = lm_pid m
     \<and> ai_startedAt r = lm_startedAt m \<and> ai_profile r = lm_profile m)"

definition process_ok :: "lease_store \<Rightarrow> lease_manager \<Rightarrow> bool" where
  "process_ok s m \<longleftrightarrow> (lm_exited m \<longrightarrow> lm_recorded m) \<and> (\<not> lm_recorded m \<longrightarrow> lm_held m = {})
     \<and> (lm_recorded m \<and> \<not> lm_exited m \<longrightarrow> own_row s m)
     \<and> (\<not> lm_exited m \<longrightarrow> (\<forall>k\<in>lm_held m. held_active (readLease s k) (\<lambda>r. le_owner r = lm_instanceId m)))"

definition marker_of :: "lease_manager \<Rightarrow> runtime_marker \<Rightarrow> bool" where
  "marker_of m mk \<longleftrightarrow> rm_instanceId mk = lm_instanceId m \<and> rm_pid mk = lm_pid m \<and> rm_profile mk = lm_profile m
     \<and> rm_startedAt mk = lm_startedAt m"

definition same_identity :: "lease_manager \<Rightarrow> lease_manager \<Rightarrow> bool" where
  "same_identity m n \<longleftrightarrow> lm_instanceId n = lm_instanceId m \<and> lm_pid n = lm_pid m \<and> lm_profile n = lm_profile m
     \<and> lm_startedAt n = lm_startedAt m"

definition lease_inv :: "lease_world \<Rightarrow> bool" where
  "lease_inv w \<longleftrightarrow> wf_map (lw_markers w) \<and> (\<forall>pid m. map_get (lw_processes w) pid = Some m \<longrightarrow> lm_pid m = pid \<and> process_ok (lw_store w) m
       \<and> (\<forall>mk. map_get (lw_markers w) (pid, lm_instanceId m) = Some mk \<longrightarrow> marker_of m mk))
     \<and> (\<forall>p q m n. map_get (lw_processes w) p = Some m \<and> map_get (lw_processes w) q = Some n
       \<and> lm_instanceId m = lm_instanceId n \<longrightarrow> p = q)"

lemma process_ok_unharmed: "process_ok s m \<Longrightarrow> unharmed (lm_instanceId m) s s' \<Longrightarrow> process_ok s' m"
  by (simp add: process_ok_def own_row_def unharmed_def)

text \<open>The row of an instance survives its own calls, but for \<open>markExited\<close>.\<close>

lemma own_row_mark:
  "own_row s m \<Longrightarrow> (\<And>r. ai_exitedAt (f r) = ai_exitedAt r \<and> ai_pid (f r) = ai_pid r \<and> ai_startedAt (f r) = ai_startedAt r
     \<and> ai_profile (f r) = ai_profile r) \<Longrightarrow> own_row (update_instance s j f) m"
  by (auto simp: own_row_def lease_ops)

lemma own_row_desired: "own_row s m \<Longrightarrow> own_row (markDesiredMessaging s j d e r now) m"
  by (simp add: markDesiredMessaging_def own_row_mark)

lemma readLease_desired [lease_ops]: "readLease (markDesiredMessaging s j d e r now) k = readLease s k"
  by (simp add: markDesiredMessaging_def lease_ops)

lemma readLease_on [lease_ops]:
  "readLease (on_held k j now s) k' = readLease s k'" "readLease (on_acquired k j now s) k' = readLease s k'"
  by (simp_all add: on_held_def on_acquired_def lease_ops)

lemma own_row_on: "own_row s m \<Longrightarrow> own_row (on_held k j now s) m" "own_row s m \<Longrightarrow> own_row (on_acquired k j now s) m"
  by (simp_all add: on_held_def on_acquired_def own_row_desired)

lemma report_own:
  assumes "process_ok s m" "recordMessagingState now s m d e r = (s', m')"
  shows "process_ok s' m' \<and> same_identity m m' \<and> lm_recorded m' \<and> lm_held m' = lm_held m \<and> lm_exited m' = lm_exited m
    \<and> (\<forall>k. readLease s' k = readLease s k)"
  using assms
  by (auto simp: recordMessagingState_def process_ok_def same_identity_def lease_ops markDesiredMessaging_def own_row_def
      split: if_splits)

lemma ensure_own:
  assumes "process_ok s m" "ensureInstanceRecorded now s m = (s', m')"
  shows "process_ok s' m' \<and> same_identity m m' \<and> lm_recorded m' \<and> lm_held m' = lm_held m \<and> lm_exited m' = lm_exited m"
  using assms report_own [of s m now False False None s' m']
  by (auto simp: ensureInstanceRecorded_def same_identity_def split: if_splits)

lemma challenge_own_row:
  "own_row s m \<Longrightarrow> lm_instanceId m \<noteq> le_owner ex \<Longrightarrow> own_row (fst (challenge alive reclaim now s k ex)) m"
  using challenge_other [of "lm_instanceId m" ex s alive reclaim now k] by (simp add: own_row_def unharmed_def)

lemma acquireLease_own:
  assumes "\<not> lm_exited m \<longrightarrow> own_row s m" "j = lm_instanceId m"
    and "\<forall>k\<in>held. held_active (readLease s k) (\<lambda>r. le_owner r = j)"
    and "acquireLease alive reclaim now s k j = (s', denied)"
  shows "(\<not> lm_exited m \<longrightarrow> own_row s' m)
    \<and> (\<forall>k'\<in>held - {k}. held_active (readLease s' k') (\<lambda>r. le_owner r = j))
    \<and> (denied = None \<longrightarrow> held_active (readLease s' k) (\<lambda>r. le_owner r = j))"
proof -
  let ?other = "held_active (readLease s k) (\<lambda>r. le_owner r \<noteq> j)"
  obtain s1 refused where c: "(if ?other then challenge alive reclaim now s k (the (readLease s k)) else (s, False))
      = (s1, refused)" by fastforce
  have u: "(?other \<longrightarrow> unharmed j s s1) \<and> (\<not> ?other \<longrightarrow> s1 = s \<and> \<not> refused)"
    using c challenge_other [of j "the (readLease s k)" s alive reclaim now k]
    by (auto simp: held_active_iff split: if_splits)
  then have u': "unharmed j s s1" by (cases ?other) auto
  have row: "\<not> lm_exited m \<longrightarrow> own_row s1 m" using u' assms(1,2) by (simp add: own_row_def unharmed_def)
  have row': "own_row (upsertActiveLease s1 k j now now) m = own_row s1 m" by (simp add: own_row_def lease_ops)
  have keep: "\<forall>k'\<in>held. held_active (readLease s1 k') (\<lambda>r. le_owner r = j)"
    using u' assms(3) by (simp add: unharmed_def)
  have some: "refused \<Longrightarrow> readLease s1 k \<noteq> None"
    using c by (auto simp: challenge_def Let_def lease_ops held_active_iff markInstanceExited_def
        split: if_splits option.splits)
  have eq: "(s', denied) = (if refused then (on_held k j now s1, readLease s1 k)
      else if held_active (readLease s k) (\<lambda>r. le_owner r = j) then (on_acquired k j now s1, None)
      else (on_acquired k j now (upsertActiveLease s1 k j now now), None))"
    using assms(4) unfolding acquireLease_def Let_def c by simp
  have own: "held_active (readLease s k) (\<lambda>r. le_owner r = j) \<Longrightarrow> held_active (readLease s1 k) (\<lambda>r. le_owner r = j)"
    using u' by (simp add: unharmed_def)
  show ?thesis
  proof (cases refused)
    case True
    then show ?thesis using eq row keep some by (auto simp: own_row_on lease_ops)
  next
    case False
    then show ?thesis using eq row row' keep own
      by (cases "held_active (readLease s k) (\<lambda>r. le_owner r = j)")
        (auto simp: own_row_on lease_ops held_active_def [of "Some _"])
  qed
qed

lemma manager_acquire_own:
  assumes "process_ok s m" "manager_acquire identity now s m k = (s', m', denied)"
  shows "process_ok s' m' \<and> same_identity m m'"
proof -
  obtain s1 m1 where e: "ensureInstanceRecorded now s m = (s1, m1)" by fastforce
  obtain s2 d where a: "acquireLease (isOwnerAlive identity m1) (ownerPredatesCurrentBoot m1) now s1 k (lm_instanceId m1)
      = (s2, d)" by fastforce
  note o = ensure_own [OF assms(1) e]
  have "\<not> lm_exited m1 \<Longrightarrow> \<forall>k\<in>lm_held m1. held_active (readLease s1 k) (\<lambda>r. le_owner r = lm_instanceId m1)"
    using o by (simp add: process_ok_def)
  then show ?thesis
    using assms(2) o acquireLease_own [OF _ refl _ a, of "if lm_exited m1 then {} else lm_held m1"]
    by (auto simp: manager_acquire_def e a process_ok_def same_identity_def own_row_def split: option.splits if_splits)
qed

lemma manager_release_own:
  assumes "process_ok s m" "manager_release now s m k = (s', m', b)"
  shows "process_ok s' m' \<and> same_identity m m'"
proof -
  have r: "releaseLease now s k (lm_instanceId m) = (s', b)" and m': "m' = m\<lparr>lm_held := lm_held m - {k}\<rparr>"
    using assms(2) by (auto simp: manager_release_def split: prod.splits)
  have "own_row s m \<Longrightarrow> own_row s' m" "k' \<noteq> k \<Longrightarrow> readLease s' k' = readLease s k'" for k'
    using r own_row_desired
    by (auto simp: releaseLease_def own_row_def lease_marks update_instance_def getInstance_def readLease_def Let_def
        split: option.splits if_splits)
  then show ?thesis using assms(1) m' by (auto simp: process_ok_def same_identity_def own_row_def)
qed

lemma markExited_own:
  assumes "process_ok s m" "markExited now s m = (s', m')"
  shows "process_ok s' m' \<and> same_identity m m'"
  using assms by (auto simp: markExited_def process_ok_def same_identity_def split: if_splits)

lemma snapshot_own:
  assumes "process_ok s m" "fst (manager_snapshot identity s m k) = m'"
  shows "process_ok s m' \<and> same_identity m m'"
  using assms by (auto simp: manager_snapshot_def Let_def process_ok_def same_identity_def own_row_def split: if_splits)

subsection \<open>One holder\<close>

text \<open>A step of one process: its own state stays sound, the others' is unharmed.\<close>

lemma lease_inv_set:
  assumes inv: "lease_inv w" and m: "map_get (lw_processes w) pid = Some m"
    and own: "process_ok s' m' \<and> same_identity m m'"
    and other: "\<And>q n. map_get (lw_processes w) q = Some n \<Longrightarrow> q \<noteq> pid \<Longrightarrow> lm_instanceId n \<noteq> lm_instanceId m \<Longrightarrow>
      process_ok s' n"
  shows "lease_inv (set_process w (s', m'))"
proof -
  have pid: "lm_pid m' = pid" using inv m own by (auto simp: lease_inv_def same_identity_def)
  have id: "lm_instanceId m' = lm_instanceId m" using own by (simp add: same_identity_def)
  note i = inv [unfolded lease_inv_def]
  show ?thesis
    unfolding lease_inv_def
  proof (intro conjI allI impI)
    show "wf_map (lw_markers (set_process w (s', m')))" using i by (simp add: set_process_def)
  next
    fix q n
    assume n: "map_get (lw_processes (set_process w (s', m'))) q = Some n"
    show "lm_pid n = q" using n i pid by (auto simp: set_process_def split: if_splits)
    show "process_ok (lw_store (set_process w (s', m'))) n"
      using n i pid own other [of q n] m by (fastforce simp: set_process_def split: if_splits)
    fix mk
    assume "map_get (lw_markers (set_process w (s', m'))) (q, lm_instanceId n) = Some mk"
    then show "marker_of n mk"
      using n i pid id m own by (auto simp: set_process_def marker_of_def same_identity_def split: if_splits)
  next
    fix p q a b
    assume "map_get (lw_processes (set_process w (s', m'))) p = Some a \<and>
      map_get (lw_processes (set_process w (s', m'))) q = Some b \<and> lm_instanceId a = lm_instanceId b"
    then show "p = q" using i m pid id by (auto simp: set_process_def split: if_splits)
  qed
qed

lemma fresh_seen_alive:
  assumes inv: "lease_inv w" and q: "map_get (lw_processes w) q = Some n"
    and fresh: "owner_seen runs now w pid k" and owner: "held_active (readLease (lw_store w) k) (\<lambda>l. le_owner l = lm_instanceId n)"
    and rec: "lm_recorded n" "\<not> lm_exited n" "q \<noteq> pid" and m: "lm_pid m \<noteq> q"
    and s: "unharmed (lm_instanceId n) (lw_store w) s"
  shows "seen_alive (isOwnerAlive (identity_of runs now w) m) s (lm_instanceId n)"
proof -
  have "own_row s n" using inv q rec s process_ok_unharmed [of "lw_store w" n s]
    by (auto simp: lease_inv_def process_ok_def)
  then obtain r where r: "getInstance s (lm_instanceId n) = Some r" "ai_exitedAt r = None" "ai_pid r = lm_pid n"
      "ai_startedAt r = lm_startedAt n" "ai_profile r = lm_profile n"
    by (auto simp: own_row_def)
  obtain mk where mk: "map_get (lw_markers w) (q, lm_instanceId n) = Some mk" "marker_live runs now mk"
    using fresh map_of_SomeD [OF q] rec(2,3) owner by (auto simp: owner_seen_def list_all_iff split: option.splits)
  have n: "lm_pid n = q" "marker_of n mk" using inv q mk(1) by (auto simp: lease_inv_def)
  have "mk \<in> set (map_vals (lw_markers w))" using map_of_SomeD [OF mk(1)] by force
  then have "identity_of runs now w r (lm_instanceId n)"
    using mk(2) n r
    by (auto simp: identity_of_def isProfileRuntimeIdentityLive_def findLiveProfileRuntimeMarkers_def list_ex_iff
        Let_def marker_of_def)
  then show ?thesis using r n m by (auto simp: seen_alive_def isOwnerAlive_def)
qed

lemma process_ok_idle: "process_ok s n \<Longrightarrow> lm_exited n \<or> \<not> lm_recorded n \<Longrightarrow> process_ok s' n"
  by (auto simp: process_ok_def)

lemma manager_acquire_others:
  assumes inv: "lease_inv w" and m: "map_get (lw_processes w) pid = Some m" and fresh: "owner_seen runs now w pid k"
    and a: "manager_acquire (identity_of runs now w) now (lw_store w) m k = (s', m', d)"
    and n: "map_get (lw_processes w) q = Some n" "q \<noteq> pid" "lm_instanceId n \<noteq> lm_instanceId m"
  shows "process_ok s' n"
proof (cases "lm_recorded n \<and> \<not> lm_exited n")
  case False
  then show ?thesis using inv n(1) process_ok_idle [of "lw_store w" n s'] by (auto simp: lease_inv_def)
next
  case True
  obtain s1 m1 where e: "ensureInstanceRecorded now (lw_store w) m = (s1, m1)" by fastforce
  have ok: "process_ok (lw_store w) m" "lm_pid m = pid" "process_ok (lw_store w) n"
    using inv m n(1) by (auto simp: lease_inv_def)
  have m1: "lm_instanceId m1 = lm_instanceId m" "lm_pid m1 = pid"
    using ensure_own [OF ok(1) e] ok(2) by (auto simp: same_identity_def)
  have u1: "unharmed (lm_instanceId n) (lw_store w) s1"
    using unharmed_ensure [OF n(3), of "lw_store w" now] e by simp
  have l: "readLease s1 k = readLease (lw_store w) k"
    using e by (auto simp: ensureInstanceRecorded_def recordMessagingState_def lease_marks lease_ops split: if_splits)
  have "seen_alive (isOwnerAlive (identity_of runs now w) m1) s1 (lm_instanceId n)"
    if "held_active (readLease s1 k) (\<lambda>r. le_owner r = lm_instanceId n)"
    by (rule fresh_seen_alive [OF inv n(1) fresh _ _ _ _ _ u1]) (use True m1 n(2) that l in auto)
  then have "unharmed (lm_instanceId n) s1 (fst (acquireLease (isOwnerAlive (identity_of runs now w) m1)
      (ownerPredatesCurrentBoot m1) now s1 k (lm_instanceId m1)))"
    using acquireLease_unharmed [OF n(3)] m1(1) by simp
  then have "unharmed (lm_instanceId n) (lw_store w) s'"
    using a u1 by (auto simp: manager_acquire_def e unharmed_def split: prod.splits option.splits)
  then show ?thesis by (rule process_ok_unharmed [OF ok(3)])
qed

lemma lease_inv_step:
  assumes inv: "lease_inv w" and st: "lease_step w False w'"
  shows "lease_inv w'"
  using st
proof (cases rule: lease_step.cases)
  case (start m now)
  have "lm_instanceId n \<noteq> lm_instanceId m" if "map_get (lw_processes w) q = Some n" for q n
    using map_of_SomeD [OF that] start(4) by (auto simp: list_all_iff)
  then have o: "\<And>q n. map_get (lw_processes w) q = Some n \<Longrightarrow> lm_instanceId n \<noteq> lm_instanceId m" by blast
  have p: "lw_processes w' = map_set (lw_processes w) (lm_pid m) m" "lw_store w' = lw_store w"
    "lw_markers w' = write_marker (lw_markers w) (lm_instanceId m) (lm_pid m) (lm_profile m) (lm_startedAt m) now"
    using start(1) by (auto simp: beat_def set_process_def)
  note i = inv [unfolded lease_inv_def]
  show ?thesis
    unfolding lease_inv_def
  proof (intro conjI allI impI)
    show "wf_map (lw_markers w')" using i by (simp add: p write_marker_def)
  next
    fix q n
    assume n: "map_get (lw_processes w') q = Some n"
    show "lm_pid n = q" using n i by (auto simp: p split: if_splits)
    show "process_ok (lw_store w') n"
      using n i start(2) by (auto simp: p process_ok_def process_started_def split: if_splits)
    fix mk
    assume "map_get (lw_markers w') (q, lm_instanceId n) = Some mk"
    then show "marker_of n mk" using n i by (auto simp: p write_marker_def marker_of_def split: if_splits)
  next
    fix p q a b
    assume "map_get (lw_processes w') p = Some a \<and> map_get (lw_processes w') q = Some b
      \<and> lm_instanceId a = lm_instanceId b"
    then show "p = q" using i o by (auto simp: p split: if_splits)
  qed
next
  case (heartbeat pid m now)
  note i = inv [unfolded lease_inv_def]
  have p: "lw_processes w' = lw_processes w" "lw_store w' = lw_store w"
    "lw_markers w' = write_marker (lw_markers w) (lm_instanceId m) (lm_pid m) (lm_profile m) (lm_startedAt m) now"
    using heartbeat(1) by (auto simp: beat_def)
  have "marker_of n mk" if "map_get (lw_processes w) q = Some n"
    "map_get (lw_markers w') (q, lm_instanceId n) = Some mk" for q n mk
  proof (cases "q = lm_pid m \<and> lm_instanceId n = lm_instanceId m")
    case True
    moreover have "lm_pid m = pid" using i heartbeat(2) by blast
    ultimately have "n = m" using that(1) heartbeat(2) by simp
    then show ?thesis using that True by (auto simp: p write_marker_def marker_of_def)
  next
    case False
    then show ?thesis using i that by (auto simp: p write_marker_def)
  qed
  moreover have "wf_map (lw_markers w')" using i by (simp add: p write_marker_def)
  ultimately show ?thesis using i by (simp add: lease_inv_def p(1,2))
next
  case (acquire pid m runs now k)
  then have seen: "owner_seen runs now w pid k" by simp
  obtain s' m' d where a: "manager_acquire (identity_of runs now w) now (lw_store w) m k = (s', m', d)"
    by (metis prod_cases3)
  have "process_ok (lw_store w) m" using inv acquire(3) by (auto simp: lease_inv_def)
  then show ?thesis
    using lease_inv_set [OF inv acquire(3) manager_acquire_own [OF _ a]] manager_acquire_others [OF inv acquire(3) seen a]
    by (simp add: acquire(2) world_acquire_def a)
next
  case (release pid m now k)
  obtain s' m' d where a: "manager_release now (lw_store w) m k = (s', m', d)" by (metis prod_cases3)
  have s': "s' = fst (releaseLease now (lw_store w) k (lm_instanceId m))"
    using a by (auto simp: manager_release_def split: prod.splits)
  have "process_ok (lw_store w) m" using inv release(2) by (auto simp: lease_inv_def)
  moreover have "process_ok s' n" if "map_get (lw_processes w) q = Some n" "lm_instanceId n \<noteq> lm_instanceId m" for q n
    using that inv process_ok_unharmed unharmed_release s' by (fastforce simp: lease_inv_def)
  ultimately show ?thesis
    using lease_inv_set [OF inv release(2) manager_release_own [OF _ a]] by (simp add: release(1) world_release_def a)
next
  case (report pid m now d e r)
  obtain s' m' where a: "recordMessagingState now (lw_store w) m d e r = (s', m')" by fastforce
  have "process_ok (lw_store w) m" using inv report(2) by (auto simp: lease_inv_def)
  moreover have "process_ok s' n" if "map_get (lw_processes w) q = Some n" "lm_instanceId n \<noteq> lm_instanceId m" for q n
    using that inv process_ok_unharmed unharmed_report [of "lm_instanceId n" m "lw_store w" now d e r] a
    by (fastforce simp: lease_inv_def)
  ultimately show ?thesis
    using lease_inv_set [OF inv report(2), of s' m'] report_own [OF _ a] by (simp add: report(1) a)
next
  case (look pid m runs now k)
  have ok: "process_ok (lw_store w) n" if "map_get (lw_processes w) q = Some n" for q n
    using that inv by (auto simp: lease_inv_def)
  show ?thesis unfolding look(1) world_snapshot_def
    by (rule lease_inv_set [OF inv look(2) snapshot_own [OF ok [OF look(2)] refl] ok])
next
  case (exited pid m now)
  obtain s' m' where a: "markExited now (lw_store w) m = (s', m')" by fastforce
  have "process_ok (lw_store w) m" using inv exited(2) by (auto simp: lease_inv_def)
  moreover have "process_ok s' n" if "map_get (lw_processes w) q = Some n" "lm_instanceId n \<noteq> lm_instanceId m" for q n
    using that inv a process_ok_unharmed unharmed_mark [of "lm_instanceId n" "lm_instanceId m"]
    by (fastforce simp: lease_inv_def markExited_def markInstanceExited_def split: if_splits)
  ultimately show ?thesis
    using lease_inv_set [OF inv exited(2), of s' m'] markExited_own [OF _ a] by (simp add: exited(1) a)
next
  case (died tidy i pid)
  then show ?thesis using inv by (auto simp: lease_inv_def split: if_splits)
next
  case (sweep runs now profile)
  have wf: "wf_map (lw_markers w)" using inv by (simp add: lease_inv_def)
  have wff: "wf_map (filter P (lw_markers w))" for P by (rule distinct_map_filter [OF wf])
  have "map_get (filter P (lw_markers w)) key = Some mk \<Longrightarrow> map_get (lw_markers w) key = Some mk" for P key mk
    using wf_map_get_in [OF wff [of P], of key mk] wf_map_get_in [OF wf, of key mk] by simp
  then show ?thesis using sweep inv wff by (auto simp: lease_inv_def findLiveProfileRuntimeMarkers_def)
qed

lemma lease_run_inv: "lease_run n w \<Longrightarrow> n = 0 \<Longrightarrow> lease_inv w"
proof (induction rule: lease_run.induct)
  case (lw_step n w missed w')
  then show ?case using lease_inv_step [of w w'] by (cases missed) simp_all
qed (simp add: lease_inv_def)

subsection \<open>The grace of an owner that was missed\<close>

type_synonym lease_attempt = "(instance_row \<Rightarrow> string \<Rightarrow> bool) \<times> int \<times> lease_manager \<times> lease_kind"

definition attempt :: "lease_store \<Rightarrow> lease_attempt \<Rightarrow> lease_store" where
  "attempt s a = (case a of (identity, now, m, k) \<Rightarrow> fst (manager_acquire identity now s m k))"

text \<open>The lease is the owner's, and if its row says it exited, then not before \<open>t0\<close>.\<close>

definition still_owned :: "int \<Rightarrow> int \<Rightarrow> string \<Rightarrow> lease_kind \<Rightarrow> lease_store \<Rightarrow> bool" where
  "still_owned t0 st i k s \<longleftrightarrow> held_active (readLease s k) (\<lambda>l. le_owner l = i)
     \<and> (\<exists>r. getInstance s i = Some r \<and> ai_startedAt r = st \<and> (\<forall>e. ai_exitedAt r = Some e \<longrightarrow> t0 \<le> e))"

lemma still_owned_unharmed: "still_owned t0 st i k s \<Longrightarrow> unharmed i s s' \<Longrightarrow> still_owned t0 st i k s'"
  by (auto simp: still_owned_def unharmed_def)

lemma still_owned_exit: "still_owned t0 st i k s \<Longrightarrow> t0 \<le> now \<Longrightarrow> still_owned t0 st i k (markInstanceExited s i now)"
  by (auto simp: still_owned_def markInstanceExited_def lease_ops)

lemma still_owned_expiry: "still_owned t0 st i k s \<Longrightarrow> still_owned t0 st i k (setLeaseExpiry s k' j e)"
  by (auto simp: still_owned_def lease_ops held_active_iff)

lemma still_owned_challenge:
  assumes "still_owned t0 st i k s" "t0 \<le> now" "now < t0 + RUNTIME_LEASE_DEAD_OWNER_GRACE_MS"
    and "\<And>r. ai_startedAt r = st \<Longrightarrow> \<not> reclaim r" "readLease s k' = Some ex"
    and "challenge alive reclaim now s k' ex = (s', refused)"
  shows "still_owned t0 st i k s' \<and> (le_owner ex = i \<longrightarrow> refused)"
proof (cases "le_owner ex = i")
  case False
  then show ?thesis
    using assms(1,6) challenge_other [of i ex s alive reclaim now k'] still_owned_unharmed by auto
next
  case True
  obtain r where r: "getInstance s i = Some r" "ai_startedAt r = st" "\<forall>e. ai_exitedAt r = Some e \<longrightarrow> t0 \<le> e"
    using assms(1) by (auto simp: still_owned_def)
  show ?thesis
    using assms True r still_owned_expiry still_owned_exit
    by (cases "ai_exitedAt r") (auto simp: challenge_def Let_def split: if_splits)
qed

lemma still_owned_attempt:
  assumes o: "still_owned t0 st i k s" and t: "t0 \<le> now" "now < t0 + RUNTIME_LEASE_DEAD_OWNER_GRACE_MS"
    and m: "lm_instanceId m \<noteq> i" "lm_systemBootedAt m - RUNTIME_BOOT_TIME_TOLERANCE_MS \<le> st"
  shows "still_owned t0 st i k (attempt s (identity, now, m, k'))"
proof -
  obtain s1 m1 where e: "ensureInstanceRecorded now s m = (s1, m1)" by fastforce
  have m1: "lm_instanceId m1 = lm_instanceId m" "lm_systemBootedAt m1 = lm_systemBootedAt m"
    using e by (auto simp: ensureInstanceRecorded_def recordMessagingState_def split: if_splits)
  have o1: "still_owned t0 st i k s1"
    using still_owned_unharmed [OF o] unharmed_ensure [of i m s now] m(1) e by auto
  let ?j = "lm_instanceId m" and ?al = "isOwnerAlive identity m1" and ?re = "ownerPredatesCurrentBoot m1"
  let ?other = "held_active (readLease s1 k') (\<lambda>r. le_owner r \<noteq> ?j)"
  have re: "\<And>r. ai_startedAt r = st \<Longrightarrow> \<not> ?re r" using m(2) m1 by (simp add: ownerPredatesCurrentBoot_def)
  obtain s2 refused where c: "(if ?other then challenge ?al ?re now s1 k' (the (readLease s1 k')) else (s1, False))
      = (s2, refused)" by fastforce
  have o2: "still_owned t0 st i k s2 \<and> (k' = k \<longrightarrow> refused)"
  proof (cases ?other)
    case True
    then obtain ex where ex: "readLease s1 k' = Some ex" by (auto simp: held_active_iff)
    have "k' = k \<Longrightarrow> le_owner ex = i" using o1 ex by (auto simp: still_owned_def held_active_iff)
    then show ?thesis using still_owned_challenge [OF o1 t, of ?re k' ex ?al s2 refused] re c True ex by auto
  next
    case False
    moreover have "s2 = s1" using c False by (simp only: if_False prod.inject)
    moreover have "k' \<noteq> k" using o1 False m(1) by (auto simp: still_owned_def held_active_iff)
    ultimately show ?thesis using o1 by simp
  qed
  have up: "\<not> refused \<Longrightarrow> still_owned t0 st i k (upsertActiveLease s2 k' ?j now now)"
    using o2 unfolding still_owned_def lease_ops by auto
  have "still_owned t0 st i k (fst (acquireLease ?al ?re now s1 k' ?j))"
    unfolding acquireLease_def Let_def c
    using o2 up m(1) by (auto intro: still_owned_unharmed [OF _ unharmed_on_held] still_owned_unharmed [OF _ unharmed_on_acquired])
  then show ?thesis by (auto simp: attempt_def manager_acquire_def e m1 split: prod.splits option.splits)
qed

subsection \<open>Properties\<close>

text \<open>
  C29: Of all running app instances of a profile at most one holds a lease, as long as no attempt
  missed a running owner: in a run in which the owner of a lease, whenever another instance tried to
  take that lease while the owner ran, had a marker at most 45 seconds old, no two instances that
  have not exited believe they hold messaging, federation or the MCP connections at once, in
  whatever order the processes start, beat, acquire, release, exit and die, whatever was left in the
  database and however the clock jumps otherwise. Without that the claim is false: an owner that was
  missed once is replaced a minute later though it runs (\<open>missed_owner_replaced\<close> below).
\<close>

theorem one_live_lease_holder:
  assumes "lease_run 0 w" "map_get (lw_processes w) p = Some m" "map_get (lw_processes w) q = Some n"
    and "p \<noteq> q" "\<not> lm_exited m" "\<not> lm_exited n" "k \<in> lm_held m"
  shows "k \<notin> lm_held n"
proof
  assume k: "k \<in> lm_held n"
  have inv: "lease_inv w" using lease_run_inv assms(1) by simp
  then have ok: "process_ok (lw_store w) m" "process_ok (lw_store w) n"
    using assms(2,3) by (auto simp: lease_inv_def)
  have "lm_instanceId m = lm_instanceId n"
    using ok assms(5-7) k by (fastforce simp: process_ok_def held_active_iff)
  moreover have "\<forall>p q a b. map_get (lw_processes w) p = Some a \<and> map_get (lw_processes w) q = Some b
      \<and> lm_instanceId a = lm_instanceId b \<longrightarrow> p = q" using inv unfolding lease_inv_def by blast
  ultimately show False using assms(2-4) by blast
qed

lemmas lease_eval = manager_new_def manager_acquire_def ensureInstanceRecorded_def recordMessagingState_def
  recordInstanceStart_def normalizeDisabledReason_def or_else_def acquireLease_def challenge_def held_active_def
  readLease_def getInstance_def on_held_def on_acquired_def markDesiredMessaging_def markInstanceExited_def
  update_instance_def setLeaseExpiry_def upsertActiveLease_def RUNTIME_LEASE_DEAD_OWNER_GRACE_MS_def
  PID_OWNED_LEASE_EXPIRES_AT_def isOwnerAlive_def ownerPredatesCurrentBoot_def RUNTIME_BOOT_TIME_TOLERANCE_MS_def
  describeLeaseHolder_def identity_of_def isProfileRuntimeIdentityLive_def findLiveProfileRuntimeMarkers_def
  starts_with_def PROFILE_RUNTIME_IDENTITY_PREFIX_def marker_live_def PROFILE_RUNTIME_HEARTBEAT_TTL_MS_def
  write_marker_def beat_def set_process_def world_acquire_def owner_seen_def process_started_def map_has_def
  Let_def

lemma lw_unmissed: "\<lbrakk>lease_run 0 w; lease_step w False w'\<rbrakk> \<Longrightarrow> lease_run 0 w'"
  using lw_step [of 0 w False w'] by simp

lemma acquire_seen:
  "\<lbrakk>map_get (lw_processes w) pid = Some m; owner_seen runs now w pid k\<rbrakk> \<Longrightarrow>
     lease_step w False (world_acquire runs now w m k)"
  using lease_step.acquire [of w pid m runs now k] by simp

text \<open>Two instances start; the first takes federation, the second is refused and still runs.\<close>

lemma one_live_lease_holder_witness:
  "\<exists>(w::lease_world) m n. map_get (lw_processes w) 11 = Some m \<and> map_get (lw_processes w) 12 = Some n \<and> \<not> lm_exited n
     \<and> FederationLease \<in> lm_held m \<and> FederationLease \<notin> lm_held n"
proof -
  let ?a = "manager_new ''runtime-v2-a'' ''work'' 11 1000 None None 0"
  let ?b = "manager_new ''runtime-v2-b'' ''work'' 12 2000 None None 0"
  let ?r = "\<lambda>pid. pid = 11 \<or> pid = (12::int)"
  let ?w0 = "\<lparr>lw_store = \<lparr>ls_instances = [], ls_leases = []\<rparr>, lw_markers = [], lw_processes = []\<rparr>"
  let ?w1 = "beat 1000 (set_process ?w0 (lw_store ?w0, ?a)) ?a"
  let ?w2 = "world_acquire ?r 1500 ?w1 ?a FederationLease"
  let ?w3 = "beat 2000 (set_process ?w2 (lw_store ?w2, ?b)) ?b"
  let ?w4 = "world_acquire ?r 2500 ?w3 ?b FederationLease"
  have r0: "lease_run 0 ?w0" by (simp add: lw_start)
  have r1: "lease_run 0 ?w1" by (rule lw_unmissed [OF r0], rule lease_step.start) (simp_all add: lease_eval)
  have r2: "lease_run 0 ?w2" by (rule lw_unmissed [OF r1], rule acquire_seen [of _ 11]) (simp_all add: lease_eval)
  have r3: "lease_run 0 ?w3" by (rule lw_unmissed [OF r2], rule lease_step.start) (simp_all add: lease_eval)
  have r4: "lease_run 0 ?w4" by (rule lw_unmissed [OF r3], rule acquire_seen [of _ 12]) (simp_all add: lease_eval)
  let ?m = "the (map_get (lw_processes ?w4) 11)" and ?n = "the (map_get (lw_processes ?w4) 12)"
  have m: "map_get (lw_processes ?w4) 11 = Some ?m \<and> \<not> lm_exited ?m \<and> FederationLease \<in> lm_held ?m"
    by (simp add: lease_eval)
  have n: "map_get (lw_processes ?w4) 12 = Some ?n \<and> \<not> lm_exited ?n" by (simp add: lease_eval)
  have f: "FederationLease \<notin> lm_held ?n"
    by (rule one_live_lease_holder [OF r4, of 11 ?m 12 ?n]) (use m n in simp_all)
  show ?thesis
    by (rule exI [of _ ?w4], rule exI [of _ ?m], rule exI [of _ ?n]) (intro conjI, (rule f m [THEN conjunct1]
      m [THEN conjunct2, THEN conjunct2] n [THEN conjunct1] n [THEN conjunct2])+)
qed

text \<open>
  C30: Whatever liveness checks answer, an owner that has not exited and that started after the last
  boot keeps its lease through any attempts of other instances within one minute: the first attempt
  that misses it starts the grace.
\<close>

theorem no_takeover_within_grace:
  assumes "readLease s k = Some l" "le_status l = LeaseActive" "le_owner l = i"
    and "getInstance s i = Some r" "ai_exitedAt r = None"
    and "\<forall>(_, now, m, _)\<in>set attempts. since \<le> now \<and> now < since + RUNTIME_LEASE_DEAD_OWNER_GRACE_MS
      \<and> lm_instanceId m \<noteq> i \<and> \<not> ownerPredatesCurrentBoot m r"
  shows "held_active (readLease (foldl attempt s attempts) k) (\<lambda>l. le_owner l = i)"
proof -
  have "still_owned since (ai_startedAt r) i k s" using assms(1-5) by (simp add: still_owned_def held_active_def)
  then have "still_owned since (ai_startedAt r) i k (foldl attempt s attempts)"
    using assms(6)
  proof (induction attempts arbitrary: s)
    case (Cons a as)
    obtain identity now m k' where a: "a = (identity, now, m, k')" by (cases a)
    have "still_owned since (ai_startedAt r) i k (attempt s a)"
      unfolding a using Cons.prems by (intro still_owned_attempt) (auto simp: a ownerPredatesCurrentBoot_def)
    then show ?case using Cons by simp
  qed simp
  then show ?thesis by (simp add: still_owned_def)
qed

text \<open>A crashed owner and two challengers at 0 and 59,999 ms, who see no marker.\<close>

definition crashed_store :: lease_store where
  "crashed_store = \<lparr>ls_instances = [(''runtime-v2-a'', \<lparr>ai_profile = ''work'', ai_pid = 11, ai_cwdHint = None,
     ai_cwdHash = None, ai_startedAt = 1000, ai_heartbeatAt = 1000, ai_exitedAt = None, ai_desired = True,
     ai_effective = True, ai_reason = None\<rparr>)],
     ls_leases = [(MessagingLease, \<lparr>le_owner = ''runtime-v2-a'', le_acquiredAt = 1000, le_heartbeatAt = 1000,
       le_expiresAt = PID_OWNED_LEASE_EXPIRES_AT, le_releasedAt = None, le_status = LeaseActive\<rparr>)]\<rparr>"

lemma no_takeover_within_grace_witness:
  "held_active (readLease (foldl attempt crashed_store
     [(\<lambda>_ _. False, 5000, manager_new ''runtime-v2-b'' ''work'' 12 2000 None None 0, MessagingLease),
      (\<lambda>_ _. False, 64999, manager_new ''runtime-v2-c'' ''work'' 13 3000 None None 0, MessagingLease)])
     MessagingLease) (\<lambda>l. le_owner l = ''runtime-v2-a'')"
  by (rule no_takeover_within_grace [where since = 5000
      and l = "the (readLease crashed_store MessagingLease)" and r = "the (getInstance crashed_store ''runtime-v2-a'')"])
    (simp_all add: crashed_store_def readLease_def getInstance_def RUNTIME_LEASE_DEAD_OWNER_GRACE_MS_def
      manager_new_def ownerPredatesCurrentBoot_def RUNTIME_BOOT_TIME_TOLERANCE_MS_def)

subsection \<open>The end of the grace\<close>

text \<open>
  The owner's identity is gone for this process; \<open>marked t\<close> says its row carries an exit time no
  later than \<open>t\<close>, or, without a row, the lease an expiry no later than the end of the grace from \<open>t\<close>.
\<close>

definition gone :: "(instance_row \<Rightarrow> string \<Rightarrow> bool) \<Rightarrow> lease_manager \<Rightarrow> string \<Rightarrow> bool" where
  "gone identity m i \<longleftrightarrow> (\<forall>r. \<not> isOwnerAlive identity m r i)"

definition marked :: "int \<Rightarrow> lease_store \<Rightarrow> lease_row \<Rightarrow> bool" where
  "marked t s l \<longleftrightarrow> (case getInstance s (le_owner l) of
     Some r \<Rightarrow> (\<exists>e. ai_exitedAt r = Some e \<and> e \<le> t)
   | None \<Rightarrow> le_expiresAt l \<noteq> PID_OWNED_LEASE_EXPIRES_AT \<and> le_expiresAt l \<le> t + RUNTIME_LEASE_DEAD_OWNER_GRACE_MS)"

definition times_past :: "int \<Rightarrow> lease_store \<Rightarrow> lease_row \<Rightarrow> bool" where
  "times_past t s l \<longleftrightarrow> t < 8640000000000000 \<and> (case getInstance s (le_owner l) of
     Some r \<Rightarrow> (\<forall>e. ai_exitedAt r = Some e \<longrightarrow> e \<le> t)
   | None \<Rightarrow> le_expiresAt l = PID_OWNED_LEASE_EXPIRES_AT \<or> le_expiresAt l \<le> t + RUNTIME_LEASE_DEAD_OWNER_GRACE_MS)"

text \<open>A lease of another owner that is marked dead since \<open>t\<close>, and not yet replaced.\<close>

definition waiting :: "int \<Rightarrow> string \<Rightarrow> lease_store \<Rightarrow> lease_kind \<Rightarrow> bool" where
  "waiting t i s k \<longleftrightarrow> held_active (readLease s k) (\<lambda>l. le_owner l = i \<and> marked t s l)"

lemma gone_other: "gone identity m i \<Longrightarrow> i \<noteq> lm_instanceId m"
proof
  assume g: "gone identity m i" and "i = lm_instanceId m"
  moreover define r :: instance_row where
    "r = \<lparr>ai_profile = [], ai_pid = lm_pid m, ai_cwdHint = None, ai_cwdHash = None, ai_startedAt = 0,
      ai_heartbeatAt = 0, ai_exitedAt = None, ai_desired = False, ai_effective = False, ai_reason = None\<rparr>"
  ultimately have "isOwnerAlive identity m r i" by (simp add: isOwnerAlive_def)
  then show False using g by (simp add: gone_def)
qed

lemma gone_ensure: "ensureInstanceRecorded now s m = (s1, m1) \<Longrightarrow> gone identity m1 i = gone identity m i"
proof -
  assume "ensureInstanceRecorded now s m = (s1, m1)"
  then have "lm_instanceId m1 = lm_instanceId m" "lm_pid m1 = lm_pid m"
    by (auto simp: ensureInstanceRecorded_def recordMessagingState_def split: if_splits)
  then show ?thesis by (simp add: gone_def isOwnerAlive_def)
qed

lemma challenge_gone:
  assumes "\<And>r. \<not> alive r (le_owner ex)" "readLease s k = Some ex" "le_status ex = LeaseActive"
    and "times_past t s ex" "challenge alive reclaim t s k ex = (s', refused)" "refused"
  shows "waiting t (le_owner ex) s' k"
  using assms
  by (auto simp: challenge_def Let_def waiting_def marked_def times_past_def lease_ops held_active_def
      markInstanceExited_def PID_OWNED_LEASE_EXPIRES_AT_def RUNTIME_LEASE_DEAD_OWNER_GRACE_MS_def
      split: option.splits if_splits)

lemma challenge_waiting:
  assumes "waiting t i s k" "readLease s k = Some ex" "challenge alive reclaim now s k ex = (s', refused)" "t \<le> now"
  shows "(refused \<longrightarrow> waiting t i s' k) \<and> (t + RUNTIME_LEASE_DEAD_OWNER_GRACE_MS \<le> now \<longrightarrow> \<not> refused)"
  using assms
  by (auto simp: challenge_def Let_def waiting_def marked_def lease_ops held_active_def
      RUNTIME_LEASE_DEAD_OWNER_GRACE_MS_def split: option.splits if_splits)

lemma acquire_split:
  assumes "i \<noteq> lm_instanceId m" "readLease s k = Some ex" "le_status ex = LeaseActive" "le_owner ex = i"
    and "manager_acquire identity now s m k = (s', m', denied)"
  obtains s1 m1 s2 refused where "ensureInstanceRecorded now s m = (s1, m1)"
    "challenge (isOwnerAlive identity m1) (ownerPredatesCurrentBoot m1) now s1 k ex = (s2, refused)"
    "denied = None \<longleftrightarrow> \<not> refused" "refused \<Longrightarrow> s' = on_held k (lm_instanceId m1) now s2"
    "unharmed i s s1" "i \<noteq> lm_instanceId m1"
proof -
  obtain s1 m1 where e: "ensureInstanceRecorded now s m = (s1, m1)" by fastforce
  have m1: "lm_instanceId m1 = lm_instanceId m"
    using e by (auto simp: ensureInstanceRecorded_def recordMessagingState_def split: if_splits)
  obtain s2 refused where c: "challenge (isOwnerAlive identity m1) (ownerPredatesCurrentBoot m1) now s1 k ex = (s2, refused)"
    by fastforce
  have u: "unharmed i s s1" using unharmed_ensure [OF assms(1), of s now] e by simp
  then have l: "readLease s1 k = Some ex" using assms(2-4) by (auto simp: unharmed_def held_active_def)
  have some: "refused \<Longrightarrow> readLease s2 k \<noteq> None"
    using c l by (auto simp: challenge_def Let_def lease_ops markInstanceExited_def split: if_splits option.splits)
  have "(denied = None \<longleftrightarrow> \<not> refused) \<and> (refused \<longrightarrow> s' = on_held k (lm_instanceId m1) now s2)"
    using assms(1,3-5) some
    by (auto simp: manager_acquire_def e acquireLease_def l c m1 held_active_def Let_def split: if_splits option.splits)
  then show thesis using that [OF e c] u m1 assms(1) by simp
qed

lemma waiting_unharmed: "waiting t i s k \<Longrightarrow> unharmed i s s' \<Longrightarrow> waiting t i s' k"
  by (fastforce simp: waiting_def unharmed_def marked_def held_active_iff)

lemma acquire_gone:
  assumes "gone identity m i" "readLease s k = Some l" "le_status l = LeaseActive" "le_owner l = i" "times_past t s l"
    and "manager_acquire identity t s m k = (s', m', denied)"
  shows "denied = None \<or> waiting t i s' k"
proof -
  obtain s1 m1 s2 refused where a: "ensureInstanceRecorded t s m = (s1, m1)"
    "challenge (isOwnerAlive identity m1) (ownerPredatesCurrentBoot m1) t s1 k l = (s2, refused)"
    "denied = None \<longleftrightarrow> \<not> refused" "refused \<Longrightarrow> s' = on_held k (lm_instanceId m1) t s2"
    "unharmed i s s1" "i \<noteq> lm_instanceId m1"
    using acquire_split [OF gone_other [OF assms(1)] assms(2-4,6)] by blast
  have "times_past t s1 l" "readLease s1 k = Some l" "gone identity m1 i"
    using assms a(5) gone_ensure [OF a(1)] by (auto simp: times_past_def unharmed_def held_active_def)
  then have "refused \<Longrightarrow> waiting t i s2 k"
    using challenge_gone [OF _ _ assms(3) _ a(2)] assms(4) by (auto simp: gone_def)
  then show ?thesis using a(3,4,6) waiting_unharmed [OF _ unharmed_on_held [OF a(6)]] by auto
qed

lemma acquire_waiting:
  assumes "waiting t i s k" "i \<noteq> lm_instanceId m" "t \<le> now" "manager_acquire identity now s m k = (s', m', denied)"
  shows "(denied = None \<or> waiting t i s' k) \<and> (t + RUNTIME_LEASE_DEAD_OWNER_GRACE_MS \<le> now \<longrightarrow> denied = None)"
proof -
  obtain l where l: "readLease s k = Some l" "le_status l = LeaseActive" "le_owner l = i"
    using assms(1) by (auto simp: waiting_def held_active_iff)
  obtain s1 m1 s2 refused where a: "ensureInstanceRecorded now s m = (s1, m1)"
    "challenge (isOwnerAlive identity m1) (ownerPredatesCurrentBoot m1) now s1 k l = (s2, refused)"
    "denied = None \<longleftrightarrow> \<not> refused" "refused \<Longrightarrow> s' = on_held k (lm_instanceId m1) now s2"
    "unharmed i s s1" "i \<noteq> lm_instanceId m1"
    using acquire_split [OF assms(2) l assms(4)] by blast
  have "waiting t i s1 k" "readLease s1 k = Some l"
    using waiting_unharmed [OF assms(1) a(5)] l a(5) by (auto simp: unharmed_def held_active_def)
  then have "(refused \<longrightarrow> waiting t i s2 k) \<and> (t + RUNTIME_LEASE_DEAD_OWNER_GRACE_MS \<le> now \<longrightarrow> \<not> refused)"
    using challenge_waiting [OF _ _ a(2) assms(3)] by blast
  then show ?thesis using a(3,4,6) waiting_unharmed [OF _ unharmed_on_held [OF a(6)]] by auto
qed

text \<open>
  An owner that one attempt missed is replaced by an attempt a minute later even if its marker is
  fresh again by then: the exit time the first attempt wrote into its row is never taken back.
\<close>

lemma missed_owner_replaced:
  assumes "gone identity1 m1 i" "readLease s k = Some l" "le_status l = LeaseActive" "le_owner l = i" "times_past t s l"
    and "manager_acquire identity1 t s m1 k = (s1, m1', denied1)" "manager_acquire identity2 now s1 m2 k = (s2, m2', denied2)"
    and "lm_instanceId m2 \<noteq> i" "t + RUNTIME_LEASE_DEAD_OWNER_GRACE_MS \<le> now"
  shows "denied1 = None \<or> denied2 = None"
  using acquire_gone [OF assms(1-6)] acquire_waiting [OF _ assms(8) [symmetric] _ assms(7), of t] assms(9)
  by (auto simp: RUNTIME_LEASE_DEAD_OWNER_GRACE_MS_def)

text \<open>
  The lease of an owner whose marker is gone is replaced: if one instance tries to take it, and
  another (or the same) tries a minute later, one of the two attempts succeeds, whether the owner
  said it exited, left its row, or left a lease without a row.
\<close>

theorem dead_owner_replaced:
  assumes "readLease s k = Some l" "le_status l = LeaseActive" "le_owner l = i" "times_past t s l"
    and "gone identity1 m1 i" "gone identity2 m2 i" "t + RUNTIME_LEASE_DEAD_OWNER_GRACE_MS \<le> now"
  shows "snd (snd (manager_acquire identity1 t s m1 k)) = None
    \<or> snd (snd (manager_acquire identity2 now (fst (manager_acquire identity1 t s m1 k)) m2 k)) = None"
proof -
  obtain s1 m1' d1 where a: "manager_acquire identity1 t s m1 k = (s1, m1', d1)" by (metis prod_cases3)
  obtain s2 m2' d2 where b: "manager_acquire identity2 now s1 m2 k = (s2, m2', d2)" by (metis prod_cases3)
  show ?thesis
    using missed_owner_replaced [OF assms(5,1-4) a b gone_other [OF assms(6), symmetric] assms(7)] by (simp add: a b)
qed

lemma crashed_gone:
  "j \<noteq> i \<Longrightarrow> gone (\<lambda>_ _. False) (manager_new j profile pid st hint hash boot) i"
  by (simp add: gone_def isOwnerAlive_def manager_new_def)

lemma dead_owner_replaced_witness:
  "let a = manager_acquire (\<lambda>_ _. False) 5000 crashed_store (manager_new ''runtime-v2-b'' ''work'' 12 2000 None None 0) MessagingLease;
       b = manager_acquire (\<lambda>_ _. False) 65000 (fst a) (manager_new ''runtime-v2-c'' ''work'' 13 3000 None None 0) MessagingLease
   in snd (snd a) = None \<or> snd (snd b) = None"
  unfolding Let_def
  by (rule dead_owner_replaced [where l = "the (readLease crashed_store MessagingLease)" and i = "''runtime-v2-a''"
        and t = 5000, OF _ _ _ _ crashed_gone crashed_gone])
    (simp_all add: crashed_store_def readLease_def getInstance_def times_past_def RUNTIME_LEASE_DEAD_OWNER_GRACE_MS_def)

subsection \<open>A blocked instance\<close>

lemma manager_acquire_fields:
  "manager_acquire identity now s m k = (s', m', denied) \<Longrightarrow>
     lm_instanceId m' = lm_instanceId m \<and> lm_pid m' = lm_pid m \<and> lm_exited m' = lm_exited m
     \<and> (denied = None \<longrightarrow> k \<in> lm_held m')"
  by (auto simp: manager_acquire_def ensureInstanceRecorded_def recordMessagingState_def split: prod.splits option.splits if_splits)

definition fed_blocked :: "federation_lease \<Rightarrow> bool" where
  "fed_blocked c \<longleftrightarrow> lr_timer (fl_retry c) = Some (FederationLease, lr_generation (fl_retry c))
     \<and> \<not> fl_shuttingDown c \<and> \<not> lm_exited (fl_manager c)"

definition fed_settled :: "federation_lease \<Rightarrow> bool" where
  "fed_settled c \<longleftrightarrow> lr_timer (fl_retry c) = None \<and> FederationLease \<in> lm_held (fl_manager c)"

lemma fed_tick_settled: "fed_settled c \<Longrightarrow> fed_tick identity mode d (s, c) now = (s, c)"
  by (simp add: fed_settled_def fed_tick_def retry_fire_def)

lemma fed_tick_skip:
  "fed_blocked c \<Longrightarrow> \<not> shouldRetryAcquisition identity now s (fl_manager c) FederationLease \<Longrightarrow>
     fed_tick identity mode d (s, c) now = (s, c)"
  by (simp add: fed_blocked_def fed_tick_def retry_fire_def retry_schedule_def)

lemma fed_tick_retry:
  assumes "fed_blocked c" "shouldRetryAcquisition identity now s (fl_manager c) FederationLease"
    and "mode \<noteq> FederationDisabled" "fed_tick identity mode d (s, c) now = (s', c')"
  obtains m' denied where "manager_acquire identity now s (fl_manager c) FederationLease = (s', m', denied)"
    "fl_manager c' = m'" "denied = None \<Longrightarrow> fed_settled c'" "denied \<noteq> None \<Longrightarrow> fed_blocked c'"
proof -
  obtain s1 m1 dn where a: "manager_acquire identity now s (fl_manager c) FederationLease = (s1, m1, dn)"
    by (metis prod_cases3)
  show thesis
    using that [of m1 dn] assms a manager_acquire_fields [OF a]
    by (cases dn) (auto simp: fed_blocked_def fed_settled_def fed_tick_def retry_fire_def fed_applyMode_def Let_def
        retry_cancel_def retry_schedule_def)
qed

lemma retry_when_unmarked:
  assumes "gone identity m i" "readLease s k = Some l" "le_status l = LeaseActive" "le_owner l = i"
    and "times_past t s l" "\<not> marked t s l" "\<not> lm_exited m"
  shows "shouldRetryAcquisition identity t s m k"
  using assms by (auto simp: shouldRetryAcquisition_def gone_def times_past_def marked_def split: option.splits)

lemma retry_after_grace:
  assumes "gone identity m i" "waiting t i s k" "\<not> lm_exited m" "t + RUNTIME_LEASE_DEAD_OWNER_GRACE_MS \<le> now"
  shows "shouldRetryAcquisition identity now s m k"
  using assms by (auto simp: shouldRetryAcquisition_def gone_def waiting_def held_active_iff marked_def split: option.splits)

definition fed_progress :: "(instance_row \<Rightarrow> string \<Rightarrow> bool) \<Rightarrow> int \<Rightarrow> string \<Rightarrow> lease_store \<times> federation_lease \<Rightarrow> bool" where
  "fed_progress identity t i = (\<lambda>(s, c). fed_settled c
     \<or> fed_blocked c \<and> gone identity (fl_manager c) i \<and> waiting t i s FederationLease)"

lemma gone_fields: "gone identity m i \<Longrightarrow> lm_instanceId m' = lm_instanceId m \<Longrightarrow> lm_pid m' = lm_pid m \<Longrightarrow> gone identity m' i"
proof -
  assume "lm_instanceId m' = lm_instanceId m" "lm_pid m' = lm_pid m"
  then have "isOwnerAlive identity m' = isOwnerAlive identity m" by (intro ext) (simp add: isOwnerAlive_def)
  then show "gone identity m i \<Longrightarrow> ?thesis" by (simp add: gone_def)
qed

lemma fed_progress_tick:
  assumes "fed_progress identity t i x" "t \<le> now" "mode \<noteq> FederationDisabled"
  shows "fed_progress identity t i (fed_tick identity mode d x now)
    \<and> (t + RUNTIME_LEASE_DEAD_OWNER_GRACE_MS \<le> now \<longrightarrow> fed_settled (snd (fed_tick identity mode d x now)))"
proof -
  obtain s c where x: "x = (s, c)" by fastforce
  obtain s' c' where t: "fed_tick identity mode d (s, c) now = (s', c')" by fastforce
  show ?thesis
  proof (cases "fed_settled c")
    case True
    then show ?thesis using t fed_tick_settled [OF True] by (simp add: x fed_progress_def)
  next
    case False
    then have b: "fed_blocked c" "gone identity (fl_manager c) i" "waiting t i s FederationLease" "\<not> lm_exited (fl_manager c)"
      using assms(1) by (auto simp: x fed_progress_def fed_blocked_def)
    show ?thesis
    proof (cases "shouldRetryAcquisition identity now s (fl_manager c) FederationLease")
      case True
      then obtain m' denied where a: "manager_acquire identity now s (fl_manager c) FederationLease = (s', m', denied)"
        "fl_manager c' = m'" "denied = None \<Longrightarrow> fed_settled c'" "denied \<noteq> None \<Longrightarrow> fed_blocked c'"
        using fed_tick_retry [OF b(1) _ assms(3) t] by blast
      then show ?thesis
        using t acquire_waiting [OF b(3) gone_other [OF b(2)] assms(2) a(1)]
          gone_fields [OF b(2)] manager_acquire_fields [OF a(1)]
        by (cases denied) (auto simp: x fed_progress_def)
    next
      case False
      then show ?thesis using t fed_tick_skip [OF b(1) False] retry_after_grace [OF b(2-4)] b
        by (auto simp: x fed_progress_def)
    qed
  qed
qed

lemma fed_first_tick:
  assumes "fed_blocked c" "gone identity (fl_manager c) i" "mode \<noteq> FederationDisabled" "times_past t s l"
    and "readLease s FederationLease = Some l" "le_status l = LeaseActive" "le_owner l = i"
  shows "fed_progress identity t i (fed_tick identity mode d (s, c) t)"
proof (cases "marked t s l")
  case True
  then have "fed_progress identity t i (s, c)"
    using assms by (simp add: fed_progress_def waiting_def held_active_def)
  then show ?thesis using fed_progress_tick [OF _ order_refl assms(3)] by blast
next
  case False
  have r: "shouldRetryAcquisition identity t s (fl_manager c) FederationLease"
    by (rule retry_when_unmarked [OF assms(2,5-7,4) False]) (use assms(1) in \<open>simp add: fed_blocked_def\<close>)
  obtain s' c' where t: "fed_tick identity mode d (s, c) t = (s', c')" by fastforce
  obtain m' denied where a: "manager_acquire identity t s (fl_manager c) FederationLease = (s', m', denied)"
    "fl_manager c' = m'" "denied = None \<Longrightarrow> fed_settled c'" "denied \<noteq> None \<Longrightarrow> fed_blocked c'"
    using fed_tick_retry [OF assms(1) r assms(3) t] by blast
  then show ?thesis
    using t acquire_gone [OF assms(2,5-7,4) a(1)] gone_fields [OF assms(2)] manager_acquire_fields [OF a(1)]
    by (cases denied) (auto simp: fed_progress_def)
qed

text \<open>
  C31: An instance whose federation is blocked by another's lease takes over without help: once the
  owner's marker is gone, the polls that follow, at whatever times, end with this instance holding
  the lease as soon as one comes a minute after the first.
\<close>

theorem blocked_federation_takes_over:
  assumes "fed_blocked c" "gone identity (fl_manager c) i" "mode \<noteq> FederationDisabled"
    and "readLease s FederationLease = Some l" "le_status l = LeaseActive" "le_owner l = i" "times_past t s l"
    and "\<forall>now\<in>set ts. t \<le> now" "\<exists>now\<in>set ts. t + RUNTIME_LEASE_DEAD_OWNER_GRACE_MS \<le> now"
  shows "FederationLease \<in> lm_held (fl_manager (snd (foldl (fed_tick identity mode d) (s, c) (t # ts))))"
proof -
  have settled: "fed_settled (snd x) \<Longrightarrow> fed_settled (snd (foldl (fed_tick identity mode d) x us))" for x us
    by (induction us arbitrary: x) (auto simp: fed_tick_settled split_beta)
  have "fed_progress identity t i x \<Longrightarrow> \<forall>now\<in>set us. t \<le> now \<Longrightarrow> \<exists>now\<in>set us. t + RUNTIME_LEASE_DEAD_OWNER_GRACE_MS \<le> now
      \<Longrightarrow> fed_settled (snd (foldl (fed_tick identity mode d) x us))" for x us
  proof (induction us arbitrary: x)
    case (Cons u us)
    let ?y = "fed_tick identity mode d x u"
    have y: "fed_progress identity t i ?y" "t + RUNTIME_LEASE_DEAD_OWNER_GRACE_MS \<le> u \<Longrightarrow> fed_settled (snd ?y)"
      using fed_progress_tick [OF Cons.prems(1) _ assms(3), of u d] Cons.prems(2) by simp_all
    show ?case
      using settled [OF y(2), of us] Cons.IH [OF y(1)] Cons.prems(2,3)
      by (cases "t + RUNTIME_LEASE_DEAD_OWNER_GRACE_MS \<le> u") simp_all
  qed simp
  then show ?thesis
    using fed_first_tick [OF assms(1-3,7,4-6)] assms(8,9) by (simp add: fed_settled_def)
qed

lemma blocked_federation_takes_over_witness:
  "FederationLease \<in> lm_held (fl_manager (snd (foldl (fed_tick (\<lambda>_ _. False) FederationClient False)
     (\<lparr>ls_instances = [], ls_leases = [(FederationLease, \<lparr>le_owner = ''runtime-v2-a'', le_acquiredAt = 1000,
         le_heartbeatAt = 1000, le_expiresAt = PID_OWNED_LEASE_EXPIRES_AT, le_releasedAt = None, le_status = LeaseActive\<rparr>)]\<rparr>,
      \<lparr>fl_manager = manager_new ''runtime-v2-b'' ''work'' 12 2000 None None 0, fl_reason = Some FedLeaseHeld,
       fl_retry = \<lparr>lr_timer = Some (FederationLease, 3), lr_generation = 3\<rparr>, fl_shuttingDown = False\<rparr>)
     (5000 # [10000, 65000]))))"
  by (rule blocked_federation_takes_over [where i = "''runtime-v2-a''" and l = "\<lparr>le_owner = ''runtime-v2-a'',
        le_acquiredAt = 1000, le_heartbeatAt = 1000, le_expiresAt = PID_OWNED_LEASE_EXPIRES_AT, le_releasedAt = None,
        le_status = LeaseActive\<rparr>"])
    (simp_all add: fed_blocked_def gone_def isOwnerAlive_def manager_new_def readLease_def getInstance_def
      times_past_def RUNTIME_LEASE_DEAD_OWNER_GRACE_MS_def)

end
