(* ===== verification/AccessControl.thy ===== *)
theory AccessControl
  imports Prelude
begin

text \<open>
  Access control of messaging actors, \<open>packages/shared/src/contracts/rbac.ts\<close>: the permission catalog,
  the built-in roles, the resolution of an actor's permissions from roles and attachments, and the
  tables that say which permission an action, a command or an agent's tool call needs. A permission
  is a string, as a stored role may hold any. A JavaScript \<open>Set\<close> is a list without repetition. Labels
  and descriptions of the catalog are left out.
\<close>

subsection \<open>The catalog\<close>

type_synonym permission = string

datatype permission_group = ConversationGroup | SessionGroup | SettingsGroup | ControlGroup | InteractiveGroup
  | ToolsGroup | DangerGroup

datatype permission_danger = DangerMed | DangerHigh

definition MESSAGING_PERMISSION_CATALOG :: "(permission \<times> permission_group \<times> permission_danger option) list" where
  "MESSAGING_PERMISSION_CATALOG = [
   (''message.reply'', ConversationGroup, None),
   (''elicitation.answer'', ConversationGroup, None),
   (''thread.status.view'', SessionGroup, None),
   (''thread.resume'', SessionGroup, None),
   (''thread.new'', SessionGroup, None),
   (''thread.detach'', SessionGroup, None),
   (''thread.monitor'', SessionGroup, None),
   (''thread.settings.model'', SettingsGroup, None),
   (''thread.settings.reasoning'', SettingsGroup, None),
   (''thread.settings.fast_mode'', SettingsGroup, None),
   (''thread.settings.tool_updates'', SettingsGroup, None),
   (''thread.settings.streaming'', SettingsGroup, None),
   (''thread.settings.response_mode'', SettingsGroup, None),
   (''thread.settings.permissions_mode'', SettingsGroup, None),
   (''thread.settings.execution_mode'', SettingsGroup, None),
   (''thread.settings.name'', SettingsGroup, None),
   (''thread.settings.skills'', SettingsGroup, None),
   (''thread.control.stop'', ControlGroup, None),
   (''thread.control.compact'', ControlGroup, None),
   (''thread.control.handoff'', ControlGroup, None),
   (''thread.control.archive'', ControlGroup, Some DangerMed),
   (''thread.control.organize'', ControlGroup, None),
   (''thread.control.schedule'', ControlGroup, None),
   (''approval.respond.default'', InteractiveGroup, None),
   (''approval.respond.escalation'', InteractiveGroup, Some DangerMed),
   (''tools.thread_inspection'', ToolsGroup, Some DangerMed),
   (''tools.thread_orchestration'', ToolsGroup, Some DangerMed),
   (''tools.instance_management'', ToolsGroup, Some DangerMed),
   (''tools.forge_write'', ToolsGroup, Some DangerMed),
   (''thread.execution.full_access'', DangerGroup, Some DangerHigh),
   (''federation.remote_control'', DangerGroup, Some DangerHigh)]"

definition ALL_MESSAGING_PERMISSIONS :: "permission list" where
  "ALL_MESSAGING_PERMISSIONS = map fst MESSAGING_PERMISSION_CATALOG"

definition FULL_ACCESS :: permission where "FULL_ACCESS = ''thread.execution.full_access''"

definition REMOTE_CONTROL :: permission where "REMOTE_CONTROL = ''federation.remote_control''"

subsection \<open>Roles\<close>

record rbac_role =
  ro_id :: string
  ro_name :: string
  ro_description :: "string option"
  ro_builtIn :: bool
  ro_danger :: bool
  ro_permissions :: "permission list"

definition RBAC_BUILT_IN_ROLE_IDS :: "string list" where
  "RBAC_BUILT_IN_ROLE_IDS = [''admin'', ''power_user'', ''power_user_tools'', ''chat_user'', ''limited_chat_user'']"

definition roleIsDangerous :: "permission list \<Rightarrow> bool" where
  "roleIsDangerous ps \<longleftrightarrow> FULL_ACCESS \<in> set ps"

definition isBuiltInRbacRoleId :: "string \<Rightarrow> bool" where
  "isBuiltInRbacRoleId i \<longleftrightarrow> i \<in> set RBAC_BUILT_IN_ROLE_IDS"

definition POWER_USER_PERMISSIONS :: "permission list" where
  "POWER_USER_PERMISSIONS = [
  ''message.reply'', ''elicitation.answer'', ''thread.status.view'', ''thread.resume'', ''thread.new'',
   ''thread.detach'', ''thread.monitor'', ''thread.settings.model'', ''thread.settings.reasoning'',
   ''thread.settings.fast_mode'', ''thread.settings.tool_updates'', ''thread.settings.streaming'',
   ''thread.settings.response_mode'', ''thread.settings.permissions_mode'',
   ''thread.settings.execution_mode'', ''thread.settings.name'', ''thread.settings.skills'',
   ''thread.control.stop'', ''thread.control.compact'', ''thread.control.handoff'',
   ''thread.control.organize'', ''thread.control.schedule'', ''approval.respond.default'']"

definition POWER_USER_TOOLS_PERMISSIONS :: "permission list" where
  "POWER_USER_TOOLS_PERMISSIONS = POWER_USER_PERMISSIONS @
    [''tools.thread_inspection'', ''tools.thread_orchestration'', ''tools.instance_management'', ''tools.forge_write'']"

definition CHAT_USER_PERMISSIONS :: "permission list" where
  "CHAT_USER_PERMISSIONS = [''message.reply'', ''elicitation.answer'', ''thread.status.view'']"

definition LIMITED_CHAT_USER_PERMISSIONS :: "permission list" where
  "LIMITED_CHAT_USER_PERMISSIONS = [''message.reply'', ''elicitation.answer'']"

definition built_in :: "string \<Rightarrow> string \<Rightarrow> string \<Rightarrow> bool \<Rightarrow> permission list \<Rightarrow> rbac_role" where
  "built_in i name description danger ps = \<lparr>ro_id = i, ro_name = name, ro_description = Some description,
     ro_builtIn = True, ro_danger = danger, ro_permissions = ps\<rparr>"

definition BUILT_IN_ROLES :: "rbac_role list" where
  "BUILT_IN_ROLES =
    [built_in ''admin'' ''Admin'' ''Full capability, including Codex Full Access.'' True ALL_MESSAGING_PERMISSIONS,
     built_in ''power_user'' ''Power User''
       ''Start, resume, and control threads and their settings. No full access, no escalation approvals.''
       False POWER_USER_PERMISSIONS,
     built_in ''power_user_tools'' ''Power User + Tools''
       ''Power User, plus letting the agent search/read/orchestrate other threads and manage the instance.''
       False POWER_USER_TOOLS_PERMISSIONS,
     built_in ''chat_user'' ''Chat User''
       ''Chat with mounted threads and answer questions. Read-only otherwise.'' False CHAT_USER_PERMISSIONS,
     built_in ''limited_chat_user'' ''Limited Chat User''
       ''Reply and answer questions only. No control buttons.'' False LIMITED_CHAT_USER_PERMISSIONS]"

subsection \<open>Subjects and attachments\<close>

datatype bucket_kind = ChannelAnyUser | DmAnyWorkspaceUser

datatype rbac_subject =
    ActorSubject (su_platform: string) string
  | BucketSubject (su_platform: string) bucket_kind "string option"

record rbac_attachment =
  at_subject :: rbac_subject
  at_roleIds :: "string list"
  at_displayName :: "string option"

record rbac_input =
  in_platform :: string
  in_actorId :: string
  in_conversationId :: "string option"
  in_channelBucket :: bool
  in_dmBucket :: bool

record rbac_resolution =
  re_permissions :: "permission list"
  re_roleIds :: "string list"
  re_matchedSubjects :: "rbac_subject list"
  re_rejected :: bool

fun subjectMatches :: "rbac_subject \<Rightarrow> rbac_input \<Rightarrow> bool" where
  "subjectMatches (ActorSubject p a) i \<longleftrightarrow> p = in_platform i \<and> a = in_actorId i"
| "subjectMatches (BucketSubject p ChannelAnyUser scope) i \<longleftrightarrow> p = in_platform i \<and> in_channelBucket i
     \<and> (case scope of None \<Rightarrow> True | Some c \<Rightarrow> in_conversationId i = Some c)"
| "subjectMatches (BucketSubject p DmAnyWorkspaceUser scope) i \<longleftrightarrow> p = in_platform i \<and> in_dmBucket i"

subsection \<open>Resolution\<close>

definition set_add :: "'a list \<Rightarrow> 'a \<Rightarrow> 'a list" where
  "set_add xs x = (if x \<in> set xs then xs else xs @ [x])"

definition role_map :: "rbac_role list \<Rightarrow> (string, rbac_role) jsmap" where
  "role_map roles = foldl (\<lambda>m r. map_set m (ro_id r) r) [] roles"

definition add_role ::
  "(string, rbac_role) jsmap \<Rightarrow> permission list \<times> string list \<Rightarrow> string \<Rightarrow> permission list \<times> string list" where
  "add_role m acc i = (case map_get m i of
     None \<Rightarrow> acc | Some r \<Rightarrow> (foldl set_add (fst acc) (ro_permissions r), set_add (snd acc) (ro_id r)))"

definition add_attachment ::
  "(string, rbac_role) jsmap \<Rightarrow> rbac_input \<Rightarrow> (permission list \<times> string list) \<times> rbac_subject list \<Rightarrow> rbac_attachment \<Rightarrow>
   (permission list \<times> string list) \<times> rbac_subject list" where
  "add_attachment m i acc a =
     (if subjectMatches (at_subject a) i then (foldl (add_role m) (fst acc) (at_roleIds a), snd acc @ [at_subject a])
      else acc)"

definition resolveEffectivePermissions ::
  "rbac_input \<Rightarrow> rbac_role list \<Rightarrow> rbac_attachment list \<Rightarrow> rbac_resolution" where
  "resolveEffectivePermissions i roles attachments =
     (let ((ps, ids), subjects) = foldl (add_attachment (role_map roles) i) (([], []), []) attachments
      in \<lparr>re_permissions = ps, re_roleIds = ids, re_matchedSubjects = subjects, re_rejected = (ps = [])\<rparr>)"

subsection \<open>What an action needs\<close>

text \<open>Lookups in object literals; the keys every JavaScript object inherits are not looked up.\<close>

definition starts :: "string \<Rightarrow> string \<Rightarrow> bool" where
  "starts t p \<longleftrightarrow> take (length p) t = p"

definition COMMAND_VERB_PERMISSIONS :: "(string \<times> permission) list" where
  "COMMAND_VERB_PERMISSIONS = [(''resume'', ''thread.resume''),
     (''agent'', ''thread.resume''), (''new'', ''thread.new''), (''schedule'', ''thread.control.schedule''),
     (''scheduled'', ''thread.control.schedule''), (''status'', ''thread.status.view''), (''continue'', ''message.reply''),
     (''detach'', ''thread.detach''), (''monitor'', ''thread.monitor'')]"

definition permissionForCommandVerb :: "string \<Rightarrow> permission option" where
  "permissionForCommandVerb v = map_of COMMAND_VERB_PERMISSIONS v"

definition STATUS_ACTION_PERMISSIONS :: "(string \<times> permission) list" where
  "STATUS_ACTION_PERMISSIONS = [
   (''status:refresh'', ''thread.status.view''),
   (''status:model'', ''thread.settings.model''),
   (''status:set-model'', ''thread.settings.model''),
   (''status:reasoning'', ''thread.settings.reasoning''),
   (''status:set-reasoning'', ''thread.settings.reasoning''),
   (''status:fast'', ''thread.settings.fast_mode''),
   (''status:tool-updates'', ''thread.settings.tool_updates''),
   (''status:set-tool-updates'', ''thread.settings.tool_updates''),
   (''status:streaming'', ''thread.settings.streaming''),
   (''status:response-mode'', ''thread.settings.response_mode''),
   (''status:set-response-mode'', ''thread.settings.response_mode''),
   (''status:permissions'', ''thread.settings.permissions_mode''),
   (''status:set-permissions'', ''thread.settings.permissions_mode''),
   (''status:runtime-mode'', ''thread.settings.execution_mode''),
   (''status:set-runtime-mode'', ''thread.settings.execution_mode''),
   (''status:sync-name'', ''thread.settings.name''),
   (''status:skills'', ''thread.settings.skills''),
   (''status:detach'', ''thread.detach''),
   (''status:compact'', ''thread.control.compact''),
   (''status:stop'', ''thread.control.stop''),
   (''status:handoff'', ''thread.control.handoff''),
   (''status:lock'', ''thread.control.handoff'')]"

definition permissionForActionId :: "string \<Rightarrow> permission option" where
  "permissionForActionId a =
     (if starts a ''command:'' then permissionForCommandVerb (drop (length ''command:'') a)
      else if a = ''claude:continue-session'' then Some ''message.reply''
      else if starts a ''handoff:'' then Some ''thread.control.handoff''
      else if starts a ''questionnaire:'' then Some ''elicitation.answer''
      else if starts a ''status:model:'' then Some ''thread.settings.model''
      else if starts a ''skills:'' then Some ''thread.settings.skills''
      else map_of STATUS_ACTION_PERMISSIONS a)"

datatype tool_category = AutomationInspection | ThreadInspection | Forge | AppManagement | ThreadOrchestration
  | MessagingContext | McpConnections | StarMap

definition FORGE_AGENT_WRITE_TOOLS :: "string list" where
  "FORGE_AGENT_WRITE_TOOLS = [''create_pull_request'', ''update_pull_request'', ''add_issue_comment'',
     ''reply_to_review_comment'', ''submit_pull_request_review'', ''resolve_review_thread'', ''create_issue'',
     ''update_issue'', ''rerun_failed_ci_jobs'', ''merge_pull_request'']"

definition isForgeWriteToolName :: "string \<Rightarrow> bool" where
  "isForgeWriteToolName t \<longleftrightarrow> t \<in> set FORGE_AGENT_WRITE_TOOLS"

fun permissionForDynamicTool :: "tool_category \<Rightarrow> string \<Rightarrow> permission option" where
  "permissionForDynamicTool ThreadInspection t =
     (if t = ''rename_current_thread'' then Some ''thread.settings.name''
      else if t = ''mark_project_read'' then Some ''thread.control.organize''
      else if t = ''apply_thread_maintenance'' then Some ''thread.control.archive''
      else if t = ''mutate_thread'' then None
      else if t = ''attach_thread_pull_request'' then Some ''tools.thread_orchestration''
      else Some ''tools.thread_inspection'')"
| "permissionForDynamicTool Forge t =
     Some (if isForgeWriteToolName t then ''tools.forge_write'' else ''tools.thread_inspection'')"
| "permissionForDynamicTool ThreadOrchestration t = Some ''tools.thread_orchestration''"
| "permissionForDynamicTool AutomationInspection t = Some ''tools.instance_management''"
| "permissionForDynamicTool AppManagement t = Some ''tools.instance_management''"
| "permissionForDynamicTool McpConnections t = Some ''tools.instance_management''"
| "permissionForDynamicTool MessagingContext t =
     (if t = ''rename_current_messaging_conversation'' then Some ''thread.settings.name''
      else if t = ''attach_thread_here'' \<or> t = ''attach_thread_to_surface'' then Some ''thread.resume''
      else if t = ''list_messaging_surfaces'' then Some ''tools.thread_inspection''
      else if t = ''send_messaging_file'' then Some ''message.reply''
      else None)"
| "permissionForDynamicTool StarMap t = Some ''tools.thread_inspection''"

text \<open>The arguments of a tool call; a value that is neither a string nor a boolean is opaque.\<close>

datatype arg_value = ArgString string | ArgBool bool | ArgOther

type_synonym tool_args = "(string, arg_value) jsmap"

definition MUTATION_FIELDS :: "string list" where
  "MUTATION_FIELDS = [''title'', ''model'', ''serviceTier'', ''reasoningEffort'', ''fastMode'', ''executionMode'',
     ''projectPath'', ''archive'', ''pinned'', ''unread'', ''locked'', ''lockNote'', ''parentThreadId'',
     ''parentBackend'', ''detachFromParent'']"

definition mutation_field_permissions :: "string \<Rightarrow> arg_value \<Rightarrow> permission list" where
  "mutation_field_permissions f v =
     (if f = ''title'' then [''thread.settings.name'']
      else if f \<in> {''model'', ''serviceTier''} then [''thread.settings.model'']
      else if f = ''reasoningEffort'' then [''thread.settings.reasoning'']
      else if f = ''fastMode'' then [''thread.settings.fast_mode'']
      else if f = ''executionMode'' then
        (if v = ArgString ''full-access'' then [''thread.settings.execution_mode'', FULL_ACCESS]
         else [''thread.settings.execution_mode''])
      else if f \<in> {''projectPath'', ''locked'', ''lockNote''} then [''thread.control.handoff'']
      else if f = ''archive'' then [''thread.control.archive'']
      else [''thread.control.organize''])"

definition permissionsForThreadMutation :: "tool_args option \<Rightarrow> permission list" where
  "permissionsForThreadMutation args = (case args of
     None \<Rightarrow> []
   | Some m \<Rightarrow> foldl (\<lambda>required f. case map_get m f of
        None \<Rightarrow> required | Some v \<Rightarrow> foldl set_add required (mutation_field_permissions f v)) [] MUTATION_FIELDS)"

definition toolArgsTargetRemoteInstance :: "tool_args option \<Rightarrow> bool" where
  "toolArgsTargetRemoteInstance args = (case args of
     None \<Rightarrow> False
   | Some m \<Rightarrow>
      (case map_get m ''instanceId'' of Some (ArgString i) \<Rightarrow> list_ex (\<lambda>c. \<not> js_space c) i | _ \<Rightarrow> False)
      \<or> map_get m ''includeRemote'' = Some (ArgBool True))"

end
