(* ===== verification/AccessPolicy.thy ===== *)
theory AccessPolicy
  imports AccessControl
begin

text \<open>
  Where the policy lives and who asks it: \<open>settings/rbac-policy-store.ts\<close> (the section of
  \<open>config.toml\<close> and the older JSON file), \<open>messaging/rbac-policy-service.ts\<close> (the cache and the edits),
  \<open>ipc/messaging-rbac.ts\<close> (the requests of the settings pane) and the gates of
  \<open>messaging/core/messaging-controller.ts\<close>. A file is what its parser makes of it; the effect of the
  TOML editor on it is a parameter. Audit rows are left out.
\<close>

subsection \<open>Files\<close>

datatype config_value =
    CStr string
  | CNum int
  | CBool bool
  | CList "config_value list"
  | CTable "(string \<times> config_value) list"
  | CNull

type_synonym config_row = "(string \<times> config_value) list"

text \<open>
  \<open>config.toml\<close>: not there, there but \<open>readFileSync\<close> throws, malformed with or without a header of the
  section, or parsed, with the section if it has one. The legacy file: not there (or \<open>existsSync\<close> says
  so), one that cannot be read or is no JSON or no object, or an object.
\<close>

datatype config_file = ConfigMissing | ConfigUnread | ConfigMalformed bool | ConfigParsed "config_row option"

datatype legacy_file = LegacyMissing | LegacyMalformed | LegacyObject config_row

record policy_disk =
  pd_config :: config_file
  pd_legacy :: legacy_file
  pd_fingerprint :: nat

record rbac_policy =
  po_version :: int
  po_enforced :: bool
  po_roles :: "rbac_role list"
  po_attachments :: "rbac_attachment list"

definition RBAC_POLICY_VERSION :: int where "RBAC_POLICY_VERSION = 1"

definition emptyRbacPolicy :: rbac_policy where
  "emptyRbacPolicy = \<lparr>po_version = RBAC_POLICY_VERSION, po_enforced = False, po_roles = [], po_attachments = []\<rparr>"

definition failClosedRbacPolicy :: rbac_policy where
  "failClosedRbacPolicy = \<lparr>po_version = RBAC_POLICY_VERSION, po_enforced = True, po_roles = [], po_attachments = []\<rparr>"

record policy_state =
  ps_policy :: rbac_policy
  ps_failClosed :: bool
  ps_ignored :: "string list"

subsection \<open>Rows\<close>

definition str_cell :: "config_row \<Rightarrow> string \<Rightarrow> string option" where
  "str_cell row k = (case map_of row k of Some (CStr t) \<Rightarrow> Some t | _ \<Rightarrow> None)"

definition some_str :: "config_row \<Rightarrow> string \<Rightarrow> string option" where
  "some_str row k = (case str_cell row k of Some t \<Rightarrow> if t = [] then None else Some t | None \<Rightarrow> None)"

definition readStringArrayCell :: "config_value option \<Rightarrow> string list" where
  "readStringArrayCell v = (case v of
     Some (CList vs) \<Rightarrow> List.map_filter (\<lambda>c. case c of CStr t \<Rightarrow> Some t | _ \<Rightarrow> None) vs | _ \<Rightarrow> [])"

definition rowsOf :: "config_value option \<Rightarrow> config_row list" where
  "rowsOf v = (case v of
     Some (CList vs) \<Rightarrow> List.map_filter (\<lambda>c. case c of CTable r \<Rightarrow> Some r | _ \<Rightarrow> None) vs | _ \<Rightarrow> [])"

definition roleFromRow :: "config_row \<Rightarrow> rbac_role option" where
  "roleFromRow row = (case (some_str row ''id'', str_cell row ''name'') of
     (Some i, Some n) \<Rightarrow> Some \<lparr>ro_id = i, ro_name = n, ro_description = some_str row ''description'',
       ro_builtIn = False, ro_danger = (map_of row ''danger'' = Some (CBool True)),
       ro_permissions = readStringArrayCell (map_of row ''permissions'')\<rparr>
   | _ \<Rightarrow> None)"

fun bucket_text :: "bucket_kind \<Rightarrow> string" where
  "bucket_text ChannelAnyUser = ''channel_any_user''"
| "bucket_text DmAnyWorkspaceUser = ''dm_any_workspace_user''"

definition bucket_of :: "string option \<Rightarrow> bucket_kind option" where
  "bucket_of t = find (\<lambda>b. Some (bucket_text b) = t) [ChannelAnyUser, DmAnyWorkspaceUser]"

definition subjectFromRow :: "config_row \<Rightarrow> rbac_subject option" where
  "subjectFromRow row = (case some_str row ''platform'' of
     None \<Rightarrow> None
   | Some p \<Rightarrow>
      (if str_cell row ''subject_kind'' = Some ''actor''
       then map_option (ActorSubject p) (some_str row ''actor_id'')
       else if str_cell row ''subject_kind'' = Some ''bucket''
       then map_option (\<lambda>b. BucketSubject p b (some_str row ''scope_id'')) (bucket_of (str_cell row ''bucket''))
       else None))"

definition attachmentFromRow :: "config_row \<Rightarrow> rbac_attachment option" where
  "attachmentFromRow row = map_option (\<lambda>s. \<lparr>at_subject = s, at_roleIds = readStringArrayCell (map_of row ''role_ids''),
     at_displayName = some_str row ''display_name''\<rparr>) (subjectFromRow row)"

definition reserved :: "rbac_role \<Rightarrow> bool" where
  "reserved r \<longleftrightarrow> isBuiltInRbacRoleId (ro_id r)"

definition policyFromSection :: "config_row \<Rightarrow> policy_state" where
  "policyFromSection section =
     (let parsedRoles = List.map_filter roleFromRow (rowsOf (map_of section ''roles''))
      in \<lparr>ps_policy = \<lparr>po_version = (case map_of section ''policy_version'' of Some (CNum n) \<Rightarrow> n | _ \<Rightarrow> RBAC_POLICY_VERSION),
            po_enforced = (map_of section ''enforced'' \<noteq> Some (CBool False)),
            po_roles = filter (\<lambda>r. \<not> reserved r) parsedRoles,
            po_attachments = List.map_filter attachmentFromRow (rowsOf (map_of section ''attachments''))\<rparr>,
          ps_failClosed = False, ps_ignored = map ro_id (filter reserved parsedRoles)\<rparr>)"

text \<open>The legacy JSON: other names and slightly other rules.\<close>

definition sanitizeRole :: "config_value \<Rightarrow> rbac_role option" where
  "sanitizeRole v = (case v of
     CTable r \<Rightarrow> (case (some_str r ''id'', str_cell r ''name'') of
        (Some i, Some n) \<Rightarrow> Some \<lparr>ro_id = i, ro_name = n, ro_description = str_cell r ''description'',
          ro_builtIn = False, ro_danger = (map_of r ''danger'' = Some (CBool True)),
          ro_permissions = readStringArrayCell (map_of r ''permissions'')\<rparr>
      | _ \<Rightarrow> None)
   | _ \<Rightarrow> None)"

definition sanitizeSubject :: "config_value option \<Rightarrow> rbac_subject option" where
  "sanitizeSubject v = (case v of
     Some (CTable r) \<Rightarrow>
      (case str_cell r ''platform'' of
         None \<Rightarrow> None
       | Some p \<Rightarrow>
          (if str_cell r ''kind'' = Some ''actor'' then map_option (ActorSubject p) (some_str r ''actorId'')
           else if str_cell r ''kind'' = Some ''bucket''
           then map_option (\<lambda>b. BucketSubject p b (some_str r ''scopeId'')) (bucket_of (str_cell r ''bucket''))
           else None))
   | _ \<Rightarrow> None)"

definition sanitizeAttachment :: "config_value \<Rightarrow> rbac_attachment option" where
  "sanitizeAttachment v = (case v of
     CTable r \<Rightarrow> map_option (\<lambda>s. \<lparr>at_subject = s, at_roleIds = readStringArrayCell (map_of r ''roleIds''),
       at_displayName = str_cell r ''displayName''\<rparr>) (sanitizeSubject (map_of r ''subject''))
   | _ \<Rightarrow> None)"

definition list_cell :: "config_row \<Rightarrow> string \<Rightarrow> config_value list" where
  "list_cell r k = (case map_of r k of Some (CList vs) \<Rightarrow> vs | _ \<Rightarrow> [])"

definition sanitizeRbacPolicy :: "config_row \<Rightarrow> rbac_policy" where
  "sanitizeRbacPolicy r =
     \<lparr>po_version = (case map_of r ''policyVersion'' of Some (CNum n) \<Rightarrow> n | _ \<Rightarrow> RBAC_POLICY_VERSION),
      po_enforced = (map_of r ''enforced'' = Some (CBool True)),
      po_roles = List.map_filter sanitizeRole (list_cell r ''roles''),
      po_attachments = List.map_filter sanitizeAttachment (list_cell r ''attachments'')\<rparr>"

definition readLegacyJsonPolicyState :: "legacy_file \<Rightarrow> policy_state" where
  "readLegacyJsonPolicyState f = (case f of
     LegacyMissing \<Rightarrow> \<lparr>ps_policy = emptyRbacPolicy, ps_failClosed = False, ps_ignored = []\<rparr>
   | LegacyMalformed \<Rightarrow> \<lparr>ps_policy = failClosedRbacPolicy, ps_failClosed = True, ps_ignored = []\<rparr>
   | LegacyObject r \<Rightarrow>
      (let p = sanitizeRbacPolicy r
       in \<lparr>ps_policy = p\<lparr>po_roles := filter (\<lambda>r. \<not> reserved r) (po_roles p)\<rparr>,
           ps_failClosed = False, ps_ignored = map ro_id (filter reserved (po_roles p))\<rparr>))"

definition readRbacPolicyState :: "policy_disk \<Rightarrow> policy_state" where
  "readRbacPolicyState d = (case pd_config d of
     ConfigMalformed header \<Rightarrow>
      (if header then \<lparr>ps_policy = failClosedRbacPolicy, ps_failClosed = True, ps_ignored = []\<rparr>
       else readLegacyJsonPolicyState (pd_legacy d))
   | ConfigParsed (Some section) \<Rightarrow> policyFromSection section
   | _ \<Rightarrow> readLegacyJsonPolicyState (pd_legacy d))"

subsection \<open>Writing\<close>

definition opt_cell :: "string \<Rightarrow> string option \<Rightarrow> config_row" where
  "opt_cell k v = (case v of None \<Rightarrow> [] | Some t \<Rightarrow> if t = [] then [] else [(k, CStr t)])"

definition roleToRow :: "rbac_role \<Rightarrow> config_row" where
  "roleToRow r = [(''id'', CStr (ro_id r)), (''name'', CStr (ro_name r))] @ opt_cell ''description'' (ro_description r)
     @ (if ro_danger r then [(''danger'', CBool True)] else [])
     @ [(''permissions'', CList (map CStr (ro_permissions r)))]"

fun subject_cells :: "rbac_subject \<Rightarrow> config_row" where
  "subject_cells (ActorSubject p a) = [(''subject_kind'', CStr ''actor''), (''actor_id'', CStr a)]"
| "subject_cells (BucketSubject p b scope) =
     [(''subject_kind'', CStr ''bucket''), (''bucket'', CStr (bucket_text b))] @ opt_cell ''scope_id'' scope"

definition attachmentToRow :: "rbac_attachment \<Rightarrow> config_row" where
  "attachmentToRow a = [(''platform'', CStr (su_platform (at_subject a)))] @ subject_cells (at_subject a)
     @ [(''role_ids'', CList (map CStr (at_roleIds a)))] @ opt_cell ''display_name'' (at_displayName a)"

definition truthy_text :: "string option \<Rightarrow> string option" where
  "truthy_text t = (if t = Some [] then None else t)"

definition normalizeRole :: "rbac_role \<Rightarrow> rbac_role" where
  "normalizeRole r = r\<lparr>ro_description := truthy_text (ro_description r), ro_builtIn := False\<rparr>"

definition normalizeAttachment :: "rbac_attachment \<Rightarrow> rbac_attachment" where
  "normalizeAttachment a = a\<lparr>at_displayName := truthy_text (at_displayName a)\<rparr>"

text \<open>The cells of the section; an empty table array is not written.\<close>

definition policy_section :: "rbac_policy \<Rightarrow> config_row" where
  "policy_section p =
     (let roles = map normalizeRole (po_roles p); attachments = map normalizeAttachment (po_attachments p)
      in [(''enforced'', CBool (po_enforced p)), (''policy_version'', CNum RBAC_POLICY_VERSION)]
         @ (if roles = [] then [] else [(''roles'', CList (map (\<lambda>r. CTable (roleToRow r)) roles))])
         @ (if attachments = [] then [] else [(''attachments'', CList (map (\<lambda>a. CTable (attachmentToRow a)) attachments))]))"

text \<open>
  \<open>edit\<close> is \<open>applyTomlEdits\<close> with the write, and \<open>stamp\<close> the fingerprint afterwards; an edit that
  throws is \<open>None\<close>, and so is a write to a file that is there and cannot be read. \<open>retired\<close> says whether the legacy file could be renamed away.
\<close>

record write_outcome =
  wo_edit :: "config_file \<Rightarrow> config_row \<Rightarrow> config_file option"
  wo_stamp :: nat
  wo_retired :: bool

definition writeRbacPolicy :: "write_outcome \<Rightarrow> policy_disk \<Rightarrow> rbac_policy \<Rightarrow> policy_disk option" where
  "writeRbacPolicy wo d p = (if pd_config d = ConfigUnread then None
   else case wo_edit wo (pd_config d) (policy_section p) of
     None \<Rightarrow> None
   | Some c \<Rightarrow> Some \<lparr>pd_config = c, pd_legacy = (if wo_retired wo then LegacyMissing else pd_legacy d),
       pd_fingerprint = wo_stamp wo\<rparr>)"

subsection \<open>The service\<close>

record policy_service =
  sv_cache :: "(policy_state \<times> nat) option"

definition service_reload :: "policy_service \<Rightarrow> policy_service" where
  "service_reload sv = sv\<lparr>sv_cache := None\<rparr>"

definition service_state :: "policy_disk \<Rightarrow> policy_service \<Rightarrow> policy_service \<times> policy_state" where
  "service_state d sv = (case sv_cache sv of
     Some (st, f) \<Rightarrow> (if f = pd_fingerprint d then (sv, st)
        else (sv\<lparr>sv_cache := Some (readRbacPolicyState d, pd_fingerprint d)\<rparr>, readRbacPolicyState d))
   | None \<Rightarrow> (sv\<lparr>sv_cache := Some (readRbacPolicyState d, pd_fingerprint d)\<rparr>, readRbacPolicyState d))"

definition service_policy :: "policy_disk \<Rightarrow> policy_service \<Rightarrow> rbac_policy" where
  "service_policy d sv = ps_policy (snd (service_state d sv))"

definition allRoles :: "rbac_policy \<Rightarrow> rbac_role list" where
  "allRoles p = BUILT_IN_ROLES @ po_roles p"

definition resolveIfEnforcing :: "policy_disk \<Rightarrow> policy_service \<Rightarrow> rbac_input \<Rightarrow> rbac_resolution option" where
  "resolveIfEnforcing d sv i =
     (let p = service_policy d sv
      in if po_enforced p then Some (resolveEffectivePermissions i (allRoles p) (po_attachments p)) else None)"

definition structuredClonePolicy :: "rbac_policy \<Rightarrow> rbac_policy" where
  "structuredClonePolicy p = p\<lparr>po_attachments := map normalizeAttachment (po_attachments p)\<rparr>"

definition mutate ::
  "write_outcome \<Rightarrow> (rbac_policy \<Rightarrow> rbac_policy) \<Rightarrow> policy_disk \<times> policy_service \<Rightarrow> policy_disk \<times> policy_service" where
  "mutate wo change = (\<lambda>(d, sv).
     (let sv1 = fst (service_state d sv); updated = change (structuredClonePolicy (service_policy d sv))
      in case writeRbacPolicy wo d updated of
           None \<Rightarrow> (d, sv1)
         | Some d' \<Rightarrow> (d', sv1\<lparr>sv_cache := Some (\<lparr>ps_policy = updated, ps_failClosed = False, ps_ignored = []\<rparr>,
             pd_fingerprint d')\<rparr>)))"

definition upsert_role :: "rbac_role \<Rightarrow> rbac_policy \<Rightarrow> rbac_policy" where
  "upsert_role r p = p\<lparr>po_roles := filter (\<lambda>x. ro_id x \<noteq> ro_id r) (po_roles p) @
     [\<lparr>ro_id = ro_id r, ro_name = ro_name r, ro_description = truthy_text (ro_description r), ro_builtIn = False,
       ro_danger = roleIsDangerous (ro_permissions r), ro_permissions = ro_permissions r\<rparr>]\<rparr>"

definition delete_role :: "string \<Rightarrow> rbac_policy \<Rightarrow> rbac_policy" where
  "delete_role i p = p\<lparr>po_roles := filter (\<lambda>x. ro_id x \<noteq> i) (po_roles p),
     po_attachments := filter (\<lambda>a. at_roleIds a \<noteq> [])
       (map (\<lambda>a. a\<lparr>at_roleIds := filter (\<lambda>r. r \<noteq> i) (at_roleIds a)\<rparr>) (po_attachments p))\<rparr>"

definition sameSubject :: "rbac_subject \<Rightarrow> rbac_subject \<Rightarrow> bool" where
  "sameSubject a b \<longleftrightarrow> a = b"

definition upsert_attachment :: "rbac_attachment \<Rightarrow> rbac_policy \<Rightarrow> rbac_policy" where
  "upsert_attachment a p = p\<lparr>po_attachments := filter (\<lambda>x. \<not> sameSubject (at_subject x) (at_subject a)) (po_attachments p)
     @ (if at_roleIds a = [] then [] else [normalizeAttachment a])\<rparr>"

definition delete_attachment :: "rbac_subject \<Rightarrow> rbac_policy \<Rightarrow> rbac_policy" where
  "delete_attachment s p = p\<lparr>po_attachments := filter (\<lambda>x. \<not> sameSubject (at_subject x) s) (po_attachments p)\<rparr>"

definition set_enforced :: "bool \<Rightarrow> rbac_attachment list option \<Rightarrow> rbac_policy \<Rightarrow> rbac_policy" where
  "set_enforced on seed p = p\<lparr>po_enforced := on, po_attachments := (case seed of
     Some s \<Rightarrow> if po_attachments p = [] then map normalizeAttachment s else po_attachments p
   | None \<Rightarrow> po_attachments p)\<rparr>"

subsection \<open>Requests of the settings pane\<close>

definition RBAC_FULL_ACCESS_ACKNOWLEDGMENT_PHRASE :: string where
  "RBAC_FULL_ACCESS_ACKNOWLEDGMENT_PHRASE =
     ''I understand this gives the actor near-complete control of this machine''"

datatype policy_request =
    WriteRole rbac_role "string option"
  | DeleteRole string
  | WriteAttachment rbac_attachment
  | DeleteAttachment rbac_subject
  | SetEnforced bool "rbac_attachment list option"

text \<open>\<open>known\<close>: the subjects the messaging settings name, as \<open>readKnownSubjects\<close> lists them.\<close>

definition synthesizeAdminAttachments :: "(rbac_subject \<times> string option) list \<Rightarrow> rbac_attachment list" where
  "synthesizeAdminAttachments known =
     map (\<lambda>(s, n). \<lparr>at_subject = s, at_roleIds = [''admin''], at_displayName = truthy_text n\<rparr>) known"

fun request_change ::
  "(rbac_subject \<times> string option) list \<Rightarrow> policy_request \<Rightarrow> (rbac_policy \<Rightarrow> rbac_policy) option" where
  "request_change known (WriteRole r ack) =
     (if roleIsDangerous (ro_permissions r) \<and> map_option js_trim ack \<noteq> Some RBAC_FULL_ACCESS_ACKNOWLEDGMENT_PHRASE
      then None else if isBuiltInRbacRoleId (ro_id r) then None else Some (upsert_role r))"
| "request_change known (DeleteRole i) = (if isBuiltInRbacRoleId i then None else Some (delete_role i))"
| "request_change known (WriteAttachment a) = Some (upsert_attachment a)"
| "request_change known (DeleteAttachment s) = Some (delete_attachment s)"
| "request_change known (SetEnforced on seed) = Some (set_enforced on
     (if on \<and> seed = None then Some (synthesizeAdminAttachments known) else seed))"

definition handle_request ::
  "(rbac_subject \<times> string option) list \<Rightarrow> write_outcome \<Rightarrow> policy_request \<Rightarrow> policy_disk \<times> policy_service \<Rightarrow>
   (policy_disk \<times> policy_service) \<times> bool" where
  "handle_request known wo r w = (case request_change known r of
     None \<Rightarrow> (w, False) | Some change \<Rightarrow> (mutate wo change w, True))"

subsection \<open>The gates of the controller\<close>

record inbound_event =
  ie_platform :: string
  ie_actorId :: string
  ie_conversationId :: string
  ie_isDm :: bool

text \<open>\<open>provider\<close>: the service's answer for an input, or no provider at all.\<close>

definition actor_input :: "string set \<Rightarrow> inbound_event \<Rightarrow> rbac_input" where
  "actor_input authorized e = \<lparr>in_platform = ie_platform e, in_actorId = ie_actorId e,
     in_conversationId = Some (ie_conversationId e),
     in_channelBucket = (ie_actorId e \<notin> authorized \<and> \<not> ie_isDm e),
     in_dmBucket = (ie_actorId e \<notin> authorized \<and> ie_isDm e)\<rparr>"

definition resolveActorPermissions ::
  "(rbac_input \<Rightarrow> rbac_resolution option) option \<Rightarrow> string set \<Rightarrow> inbound_event \<Rightarrow> rbac_resolution option" where
  "resolveActorPermissions provider authorized e = (case provider of
     None \<Rightarrow> None | Some resolve \<Rightarrow> resolve (actor_input authorized e))"

definition authorizeInboundAdmission ::
  "(rbac_input \<Rightarrow> rbac_resolution option) option \<Rightarrow> string set \<Rightarrow> inbound_event \<Rightarrow> bool" where
  "authorizeInboundAdmission provider authorized e = (case resolveActorPermissions provider authorized e of
     None \<Rightarrow> ie_actorId e \<in> authorized | Some r \<Rightarrow> \<not> re_rejected r)"

definition requirePermission ::
  "(rbac_input \<Rightarrow> rbac_resolution option) option \<Rightarrow> string set \<Rightarrow> inbound_event \<Rightarrow> permission \<Rightarrow> bool" where
  "requirePermission provider authorized e p = (case resolveActorPermissions provider authorized e of
     None \<Rightarrow> True | Some r \<Rightarrow> p \<in> set (re_permissions r))"

definition requireRemoteScope ::
  "(rbac_input \<Rightarrow> rbac_resolution option) option \<Rightarrow> string set \<Rightarrow> inbound_event \<Rightarrow> bool \<Rightarrow> bool" where
  "requireRemoteScope provider authorized e remote =
     (if \<not> remote then True else requirePermission provider authorized e REMOTE_CONTROL)"

text \<open>\<open>origin\<close>: the message whose turn calls the tool, if this controller has one on record.\<close>

definition required_permissions :: "tool_category \<Rightarrow> string \<Rightarrow> tool_args option \<Rightarrow> permission list" where
  "required_permissions c t args =
     (if c = ThreadInspection \<and> t = ''mutate_thread'' then permissionsForThreadMutation args
      else case permissionForDynamicTool c t of None \<Rightarrow> [] | Some p \<Rightarrow> [p])
     @ (if toolArgsTargetRemoteInstance args then [REMOTE_CONTROL] else [])"

record tool_decision =
  td_owns :: bool
  td_allowed :: bool
  td_permission :: "permission option"

definition checkDynamicToolPermission ::
  "(rbac_input \<Rightarrow> rbac_resolution option) option \<Rightarrow> string set \<Rightarrow> inbound_event option \<Rightarrow> tool_category \<Rightarrow> string \<Rightarrow>
   tool_args option \<Rightarrow> tool_decision" where
  "checkDynamicToolPermission provider authorized origin c t args = (case origin of
     None \<Rightarrow> \<lparr>td_owns = False, td_allowed = True, td_permission = None\<rparr>
   | Some e \<Rightarrow>
      (case resolveActorPermissions provider authorized e of
         None \<Rightarrow> \<lparr>td_owns = True, td_allowed = True, td_permission = None\<rparr>
       | Some r \<Rightarrow>
          (case find (\<lambda>p. p \<notin> set (re_permissions r)) (required_permissions c t args) of
             None \<Rightarrow> \<lparr>td_owns = True, td_allowed = True, td_permission = None\<rparr>
           | Some missing \<Rightarrow> \<lparr>td_owns = True, td_allowed = False, td_permission = Some missing\<rparr>)))"

end
