(* ===== verification/AccessControlProps.thy ===== *)
theory AccessControlProps
  imports AccessPolicy
begin

text \<open>
  What access control guarantees: an actor may do exactly what the attachments that match it grant,
  built-in roles mean what the code says whatever is on disk, an unreadable policy denies everyone,
  and an edit is in force in every instance that reads the file.
\<close>

declare map_of_eq_Some_iff [simp del]

subsection \<open>Resolution as a set of grants\<close>

lemma set_add_set [simp]: "set (set_add xs x) = insert x (set xs)"
  by (auto simp: set_add_def)

lemma foldl_set_add [simp]: "set (foldl set_add xs ys) = set xs \<union> set ys"
  by (induction ys arbitrary: xs) auto

lemma role_map_snoc: "role_map (roles @ [r]) = map_set (role_map roles) (ro_id r) r"
  by (simp add: role_map_def)

text \<open>The last role of an id stands for it.\<close>

lemma role_map_get: "map_get (role_map roles) i = find (\<lambda>r. ro_id r = i) (rev roles)"
  by (induction roles rule: rev_induct) (auto simp: role_map_snoc, simp add: role_map_def)

definition grants :: "rbac_role list \<Rightarrow> rbac_attachment \<Rightarrow> permission \<Rightarrow> bool" where
  "grants roles a p \<longleftrightarrow> (\<exists>i\<in>set (at_roleIds a). \<exists>r. find (\<lambda>r. ro_id r = i) (rev roles) = Some r \<and> p \<in> set (ro_permissions r))"

lemma add_role_perms:
  "set (fst (foldl (add_role m) acc ids)) =
     set (fst acc) \<union> {p. \<exists>i\<in>set ids. \<exists>r. map_get m i = Some r \<and> p \<in> set (ro_permissions r)}"
  by (induction ids arbitrary: acc) (auto simp: add_role_def split: option.splits)

lemma add_attachment_perms:
  "set (fst (fst (foldl (add_attachment (role_map roles) i) acc atts))) =
     set (fst (fst acc)) \<union> {p. \<exists>a\<in>set atts. subjectMatches (at_subject a) i \<and> grants roles a p}"
  by (induction atts arbitrary: acc) (auto simp: add_attachment_def add_role_perms grants_def role_map_get)

lemma resolved_permissions:
  "p \<in> set (re_permissions (resolveEffectivePermissions i roles atts)) \<longleftrightarrow>
     (\<exists>a\<in>set atts. subjectMatches (at_subject a) i \<and> grants roles a p)"
  using add_attachment_perms [of roles i "(([], []), [])" atts]
  by (auto simp: resolveEffectivePermissions_def split: prod.splits)

lemma resolved_rejected:
  "re_rejected (resolveEffectivePermissions i roles atts) \<longleftrightarrow> re_permissions (resolveEffectivePermissions i roles atts) = []"
  by (simp add: resolveEffectivePermissions_def split: prod.splits)

text \<open>
  C37: Access control grants exactly what is attached: while the policy is enforced, an actor's message
  passes the gate of a permission if and only if some attachment of the policy in force matches the
  actor, or the bucket it was admitted through, and names a role, a built-in one or the policy's own,
  that has the permission.
\<close>

theorem permission_iff_attached:
  assumes "service_policy d sv = p" "po_enforced p"
  shows "requirePermission (Some (resolveIfEnforcing d sv)) authorized e perm \<longleftrightarrow>
    (\<exists>a\<in>set (po_attachments p). subjectMatches (at_subject a) (actor_input authorized e) \<and> grants (allRoles p) a perm)"
  using assms by (simp add: requirePermission_def resolveActorPermissions_def resolveIfEnforcing_def resolved_permissions)

definition open_disk :: policy_disk where
  "open_disk = \<lparr>pd_config = ConfigParsed (Some [(''enforced'', CBool True),
     (''roles'', CList [CTable [(''id'', CStr ''role_oncall''), (''name'', CStr ''On-call''),
        (''permissions'', CList [CStr ''thread.control.stop''])]]),
     (''attachments'', CList [CTable [(''platform'', CStr ''slack''), (''subject_kind'', CStr ''actor''),
        (''actor_id'', CStr ''U1''), (''role_ids'', CList [CStr ''role_oncall'', CStr ''gone''])]])]),
     pd_legacy = LegacyMissing, pd_fingerprint = 7\<rparr>"

lemmas policy_eval = service_policy_def service_state_def readRbacPolicyState_def policyFromSection_def open_disk_def
  rowsOf_def roleFromRow_def some_str_def str_cell_def readStringArrayCell_def attachmentFromRow_def subjectFromRow_def
  reserved_def isBuiltInRbacRoleId_def RBAC_BUILT_IN_ROLE_IDS_def List.map_filter_simps Let_def

lemma permission_iff_attached_witness:
  "po_enforced (service_policy open_disk \<lparr>sv_cache = None\<rparr>)
    \<and> requirePermission (Some (resolveIfEnforcing open_disk \<lparr>sv_cache = None\<rparr>)) {''U1''}
        \<lparr>ie_platform = ''slack'', ie_actorId = ''U1'', ie_conversationId = ''C'', ie_isDm = False\<rparr> ''thread.control.stop''"
proof -
  let ?e = "\<lparr>ie_platform = ''slack'', ie_actorId = ''U1'', ie_conversationId = ''C'', ie_isDm = False\<rparr>"
  have e: "po_enforced (service_policy open_disk \<lparr>sv_cache = None\<rparr>)" by (simp add: policy_eval)
  have "\<exists>a\<in>set (po_attachments (service_policy open_disk \<lparr>sv_cache = None\<rparr>)).
    subjectMatches (at_subject a) (actor_input {''U1''} ?e)
    \<and> grants (allRoles (service_policy open_disk \<lparr>sv_cache = None\<rparr>)) a ''thread.control.stop''"
    by (simp add: policy_eval actor_input_def grants_def allRoles_def)
  then show ?thesis using permission_iff_attached [OF refl e, of "{''U1''}" ?e "''thread.control.stop''"] e by simp
qed

subsection \<open>Histories of a profile's policy\<close>

text \<open>
  What happens to the files and to one instance's service: an edit of the files from outside, a
  request of its settings pane, a question, a dropped cache.
\<close>

datatype policy_event =
    PolicyEdited policy_disk
  | PolicyRequest "(rbac_subject \<times> string option) list" write_outcome policy_request
  | PolicyAsked
  | PolicyReload

fun policy_do :: "policy_disk \<times> policy_service \<Rightarrow> policy_event \<Rightarrow> policy_disk \<times> policy_service" where
  "policy_do (d, sv) (PolicyEdited d') = (d', sv)"
| "policy_do (d, sv) (PolicyRequest known wo r) = fst (handle_request known wo r (d, sv))"
| "policy_do (d, sv) PolicyAsked = (d, fst (service_state d sv))"
| "policy_do (d, sv) PolicyReload = (d, service_reload sv)"

definition policy_run :: "policy_event list \<Rightarrow> policy_disk \<Rightarrow> policy_disk \<times> policy_service" where
  "policy_run evs d = foldl policy_do (d, \<lparr>sv_cache = None\<rparr>) evs"

lemma policy_run_snoc: "policy_run (evs @ [e]) d = policy_do (policy_run evs d) e"
  by (simp add: policy_run_def)

text \<open>A property of policies that reading and every edit keep holds of what the service answers.\<close>

lemma service_policy_cases:
  "service_policy d sv = ps_policy (readRbacPolicyState d)
   \<or> (\<exists>st. sv_cache sv = Some (st, pd_fingerprint d) \<and> service_policy d sv = ps_policy st)"
  by (auto simp: service_policy_def service_state_def split: option.splits)

lemma service_state_cache:
  "sv_cache (fst (service_state d sv)) = Some (snd (service_state d sv), pd_fingerprint d)"
  by (auto simp: service_state_def split: option.splits)

definition cached_holds :: "(rbac_policy \<Rightarrow> bool) \<Rightarrow> policy_service \<Rightarrow> bool" where
  "cached_holds P sv \<longleftrightarrow> (\<forall>st f. sv_cache sv = Some (st, f) \<longrightarrow> P (ps_policy st))"

lemma cached_holds_policy:
  "cached_holds P sv \<Longrightarrow> P (ps_policy (readRbacPolicyState d)) \<Longrightarrow> P (service_policy d sv)"
  using service_policy_cases [of d sv] by (auto simp: cached_holds_def)

lemma cached_holds_state:
  "cached_holds P sv \<Longrightarrow> P (ps_policy (readRbacPolicyState d)) \<Longrightarrow> cached_holds P (fst (service_state d sv))"
  using cached_holds_policy [of P sv d] by (simp add: cached_holds_def service_state_cache service_policy_def)

lemma cached_holds_mutate:
  assumes "cached_holds P sv" "P (ps_policy (readRbacPolicyState d))"
    and "P (change (structuredClonePolicy (service_policy d sv)))"
  shows "cached_holds P (snd (mutate wo change (d, sv)))"
  using assms cached_holds_state [OF assms(1,2)]
  by (auto simp: mutate_def Let_def cached_holds_def split: option.splits)

subsection \<open>Built-in roles\<close>

definition no_reserved :: "rbac_policy \<Rightarrow> bool" where
  "no_reserved p \<longleftrightarrow> (\<forall>r\<in>set (po_roles p). \<not> reserved r)"

lemma read_no_reserved: "no_reserved (ps_policy (readRbacPolicyState d))"
  by (auto simp: readRbacPolicyState_def readLegacyJsonPolicyState_def policyFromSection_def no_reserved_def Let_def
      emptyRbacPolicy_def failClosedRbacPolicy_def split: config_file.splits legacy_file.splits option.splits)

lemma change_no_reserved: "request_change known r = Some change \<Longrightarrow> no_reserved p \<Longrightarrow> no_reserved (change p)"
  by (cases r) (auto simp: no_reserved_def upsert_role_def delete_role_def upsert_attachment_def delete_attachment_def
      set_enforced_def reserved_def split: if_splits option.splits)

lemma clone_no_reserved: "no_reserved (structuredClonePolicy p) = no_reserved p"
  by (simp add: no_reserved_def structuredClonePolicy_def)

lemma run_no_reserved: "cached_holds no_reserved (snd (policy_run evs d))"
proof (induction evs rule: rev_induct)
  case Nil
  then show ?case by (simp add: policy_run_def cached_holds_def)
next
  case (snoc e evs)
  obtain d1 sv where w: "policy_run evs d = (d1, sv)" by fastforce
  have c: "cached_holds no_reserved sv" using snoc w by simp
  show ?case
  proof (cases e)
    case (PolicyRequest known wo r)
    show ?thesis
    proof (cases "request_change known r")
      case None
      then show ?thesis using c by (simp add: policy_run_snoc w PolicyRequest handle_request_def)
    next
      case (Some change)
      have "no_reserved (change (structuredClonePolicy (service_policy d1 sv)))"
        using change_no_reserved [OF Some] cached_holds_policy [OF c read_no_reserved] by (simp add: clone_no_reserved)
      then show ?thesis
        using cached_holds_mutate [OF c read_no_reserved] by (simp add: policy_run_snoc w PolicyRequest handle_request_def Some)
    qed
  next
    case PolicyAsked
    then show ?thesis using cached_holds_state [OF c read_no_reserved] by (simp add: policy_run_snoc w)
  qed (use c in \<open>simp_all add: policy_run_snoc w service_reload_def cached_holds_def\<close>)
qed

lemma find_after: "find P (xs @ ys) = (case find P xs of None \<Rightarrow> find P ys | Some x \<Rightarrow> Some x)"
  by (induction xs) auto

lemma find_by_id: "distinct (map f xs) \<Longrightarrow> x \<in> set xs \<Longrightarrow> find (\<lambda>y. f y = f x) xs = Some x"
  by (induction xs) (auto simp: image_iff)

lemma find_built_in:
  assumes "no_reserved p" "isBuiltInRbacRoleId i"
  shows "find (\<lambda>r. ro_id r = i) (rev (allRoles p)) = find (\<lambda>r. ro_id r = i) (rev BUILT_IN_ROLES)"
proof -
  have "find (\<lambda>r. ro_id r = i) (rev (po_roles p)) = None"
    using assms by (auto simp: find_None_iff no_reserved_def reserved_def)
  then show ?thesis by (simp add: allRoles_def find_after)
qed

lemma built_in_ids: "r \<in> set BUILT_IN_ROLES \<Longrightarrow> isBuiltInRbacRoleId (ro_id r)"
  by (auto simp: BUILT_IN_ROLES_def built_in_def isBuiltInRbacRoleId_def RBAC_BUILT_IN_ROLE_IDS_def)

lemma find_built_in_self: "r \<in> set BUILT_IN_ROLES \<Longrightarrow> find (\<lambda>x. ro_id x = ro_id r) (rev BUILT_IN_ROLES) = Some r"
  by (rule find_by_id) (auto simp: BUILT_IN_ROLES_def built_in_def)

text \<open>
  A built-in role always means what the code says: after any edits of the files from outside, any
  requests and any reads, a reserved id resolves to the built-in role, even if the files define a role
  of that id.
\<close>

theorem built_in_roles_never_redefined:
  assumes "r \<in> set BUILT_IN_ROLES" "policy_run evs d0 = (d, sv)"
  shows "map_get (role_map (allRoles (service_policy d sv))) (ro_id r) = Some r"
proof -
  have "no_reserved (service_policy d sv)"
    by (rule cached_holds_policy [of no_reserved, OF _ read_no_reserved]) (use run_no_reserved [of evs d0] assms(2) in simp)
  then show ?thesis
    using find_built_in [OF _ built_in_ids [OF assms(1)]] find_built_in_self [OF assms(1)] by (simp add: role_map_get)
qed

text \<open>A hand-edited file that makes the chat role an administrator is read as if it did not.\<close>

definition shadow_disk :: policy_disk where
  "shadow_disk = \<lparr>pd_config = ConfigParsed (Some [(''roles'', CList [CTable [(''id'', CStr ''chat_user''),
     (''name'', CStr ''Chat''), (''permissions'', CList [CStr ''thread.execution.full_access''])]])]),
     pd_legacy = LegacyMissing, pd_fingerprint = 3\<rparr>"

lemma built_in_roles_never_redefined_witness:
  "map_get (role_map (allRoles (service_policy shadow_disk \<lparr>sv_cache = None\<rparr>))) ''chat_user'' = Some (BUILT_IN_ROLES ! 3)"
  using built_in_roles_never_redefined [of "BUILT_IN_ROLES ! 3" "[PolicyEdited shadow_disk]" open_disk shadow_disk "\<lparr>sv_cache = None\<rparr>"]
  by (simp add: policy_run_def BUILT_IN_ROLES_def built_in_def)

subsection \<open>Policies that cannot be read\<close>

text \<open>The bytes were read and mean nothing: a malformed section, or no section and a bad legacy file.\<close>

definition malformed :: "policy_disk \<Rightarrow> bool" where
  "malformed d \<longleftrightarrow> pd_config d = ConfigMalformed True
     \<or> pd_config d \<in> {ConfigMissing, ConfigUnread, ConfigMalformed False, ConfigParsed None} \<and> pd_legacy d = LegacyMalformed"

text \<open>
  Every case in which the policy is not enforced: a section that says so, or no section that could be
  read, \<open>config.toml\<close> failing to open among the reasons, with no legacy file or one not marked enforced.
\<close>

definition policy_off :: "policy_disk \<Rightarrow> bool" where
  "policy_off d \<longleftrightarrow> (case pd_config d of
     ConfigParsed (Some section) \<Rightarrow> map_of section ''enforced'' = Some (CBool False)
   | ConfigMalformed True \<Rightarrow> False
   | _ \<Rightarrow> (case pd_legacy d of LegacyMissing \<Rightarrow> True | LegacyMalformed \<Rightarrow> False
          | LegacyObject r \<Rightarrow> map_of r ''enforced'' \<noteq> Some (CBool True)))"

definition unseen :: "policy_disk \<Rightarrow> policy_service \<Rightarrow> bool" where
  "unseen d sv \<longleftrightarrow> (case sv_cache sv of None \<Rightarrow> True | Some (_, f) \<Rightarrow> f \<noteq> pd_fingerprint d)"

lemma unseen_policy: "unseen d sv \<Longrightarrow> service_policy d sv = ps_policy (readRbacPolicyState d)"
  by (auto simp: unseen_def service_policy_def service_state_def split: option.splits)

lemma enforced_unless_off: "po_enforced (ps_policy (readRbacPolicyState d)) \<longleftrightarrow> \<not> policy_off d"
  by (auto simp: readRbacPolicyState_def policy_off_def readLegacyJsonPolicyState_def policyFromSection_def Let_def
      emptyRbacPolicy_def failClosedRbacPolicy_def sanitizeRbacPolicy_def
      split: config_file.splits option.splits bool.splits legacy_file.splits)

lemma malformed_fails_closed: "malformed d \<Longrightarrow> ps_policy (readRbacPolicyState d) = failClosedRbacPolicy"
  by (auto simp: malformed_def readRbacPolicyState_def readLegacyJsonPolicyState_def)

text \<open>
  C38: A malformed policy denies everyone. For an instance that has not cached the files as they are
  now, the policy is out of force exactly in the cases of \<open>policy_off\<close>; and with a malformed
  \<open>config.toml\<close> that has the section's header, or with no section and a legacy file that cannot be read,
  no message of any actor is admitted and no permission of any actor holds, not even for an actor whom
  the messaging settings authorize. A \<open>config.toml\<close> that is there but fails to open is not among the
  malformed files: it counts as one without a section.
\<close>

theorem malformed_policy_denies_all:
  assumes "unseen d sv"
  shows "(resolveIfEnforcing d sv i = None \<longleftrightarrow> policy_off d)
    \<and> (malformed d \<longrightarrow> \<not> authorizeInboundAdmission (Some (resolveIfEnforcing d sv)) authorized e
         \<and> \<not> requirePermission (Some (resolveIfEnforcing d sv)) authorized e perm)"
proof (intro conjI impI)
  show "resolveIfEnforcing d sv i = None \<longleftrightarrow> policy_off d"
    using assms enforced_unless_off [of d] by (simp add: resolveIfEnforcing_def Let_def unseen_policy)
  assume "malformed d"
  then have p: "service_policy d sv = failClosedRbacPolicy"
    using assms by (simp add: unseen_policy malformed_fails_closed)
  show "\<not> authorizeInboundAdmission (Some (resolveIfEnforcing d sv)) authorized e"
    "\<not> requirePermission (Some (resolveIfEnforcing d sv)) authorized e perm"
    by (simp_all add: authorizeInboundAdmission_def requirePermission_def resolveActorPermissions_def resolveIfEnforcing_def p
        failClosedRbacPolicy_def resolveEffectivePermissions_def)
qed

lemma malformed_policy_denies_all_witness:
  "\<not> authorizeInboundAdmission (Some (resolveIfEnforcing
      \<lparr>pd_config = ConfigMalformed True, pd_legacy = LegacyMissing, pd_fingerprint = 9\<rparr>
      \<lparr>sv_cache = Some (readRbacPolicyState open_disk, 7)\<rparr>)) {''U1''}
    \<lparr>ie_platform = ''slack'', ie_actorId = ''U1'', ie_conversationId = ''C'', ie_isDm = False\<rparr>"
proof -
  let ?d = "\<lparr>pd_config = ConfigMalformed True, pd_legacy = LegacyMissing, pd_fingerprint = 9\<rparr>"
  have "unseen ?d \<lparr>sv_cache = Some (readRbacPolicyState open_disk, 7)\<rparr>" "malformed ?d"
    by (simp_all add: unseen_def malformed_def)
  then show ?thesis using malformed_policy_denies_all by blast
qed

text \<open>
  The case that is not caught: a configured policy whose file fails to open admits whom the messaging
  settings authorize, with every permission.
\<close>

lemma unread_config_is_unenforced:
  assumes "pd_config d = ConfigUnread" "pd_legacy d = LegacyMissing" "unseen d sv" "ie_actorId e \<in> authorized"
  shows "authorizeInboundAdmission (Some (resolveIfEnforcing d sv)) authorized e
    \<and> requirePermission (Some (resolveIfEnforcing d sv)) authorized e perm"
proof -
  have "policy_off d" using assms(1,2) by (simp add: policy_off_def)
  then have "resolveIfEnforcing d sv i = None" for i
    using assms(3) enforced_unless_off [of d] by (simp add: resolveIfEnforcing_def Let_def unseen_policy)
  then show ?thesis using assms(4)
    by (simp add: authorizeInboundAdmission_def requirePermission_def resolveActorPermissions_def)
qed

subsection \<open>Writing and reading back\<close>

lemma opt_cell_get [simp]: "map_of (opt_cell k v) k' = (if k' = k then map_option CStr (truthy_text v) else None)"
  by (auto simp: opt_cell_def truthy_text_def split: option.splits)

lemma map_filter_strings [simp]: "readStringArrayCell (Some (CList (map CStr ts))) = ts"
  by (induction ts) (auto simp: readStringArrayCell_def List.map_filter_simps)

lemma map_filter_tables [simp]: "rowsOf (Some (CList (map (\<lambda>x. CTable (f x)) xs))) = map f xs"
  by (induction xs) (auto simp: rowsOf_def List.map_filter_simps)

lemma rowsOf_None [simp]: "rowsOf None = []"
  by (simp add: rowsOf_def)

lemma roleFromRow_back: "roleFromRow (roleToRow (normalizeRole r)) = (if ro_id r = [] then None else Some (normalizeRole r))"
  by (auto simp: roleFromRow_def roleToRow_def normalizeRole_def some_str_def str_cell_def truthy_text_def map_add_def
      split: option.splits)

text \<open>Bucket scopes are written when they are not empty.\<close>

fun storable_subject :: "rbac_subject \<Rightarrow> bool" where
  "storable_subject (ActorSubject p a) \<longleftrightarrow> p \<noteq> [] \<and> a \<noteq> []"
| "storable_subject (BucketSubject p b scope) \<longleftrightarrow> p \<noteq> [] \<and> scope \<noteq> Some []"

lemma bucket_of_text [simp]: "bucket_of (Some (bucket_text b)) = Some b"
  by (cases b) (auto simp: bucket_of_def)

lemma attachmentFromRow_back:
  "storable_subject (at_subject a) \<Longrightarrow> attachmentFromRow (attachmentToRow (normalizeAttachment a)) = Some (normalizeAttachment a)"
  by (cases "at_subject a") (auto simp: attachmentFromRow_def attachmentToRow_def normalizeAttachment_def subjectFromRow_def
      some_str_def str_cell_def truthy_text_def map_add_def split: option.splits)

definition storable :: "rbac_policy \<Rightarrow> bool" where
  "storable p \<longleftrightarrow> (\<forall>r\<in>set (po_roles p). ro_id r \<noteq> [] \<and> \<not> reserved r)
     \<and> (\<forall>a\<in>set (po_attachments p). storable_subject (at_subject a))"

lemma section_cells:
  "map_of (policy_section p) ''enforced'' = Some (CBool (po_enforced p))"
  "map_of (policy_section p) ''policy_version'' = Some (CNum RBAC_POLICY_VERSION)"
  "rowsOf (map_of (policy_section p) ''roles'') = map (\<lambda>r. roleToRow (normalizeRole r)) (po_roles p)"
  "rowsOf (map_of (policy_section p) ''attachments'') = map (\<lambda>a. attachmentToRow (normalizeAttachment a)) (po_attachments p)"
  using map_filter_tables [of "\<lambda>r. roleToRow (normalizeRole r)" "po_roles p"]
    map_filter_tables [of "\<lambda>a. attachmentToRow (normalizeAttachment a)" "po_attachments p"]
  by (auto simp: policy_section_def Let_def comp_def)

lemma map_filter_of_map: "List.map_filter f (map g xs) = List.map_filter (\<lambda>x. f (g x)) xs"
  by (induction xs) (auto simp: List.map_filter_simps split: option.splits)

lemma map_filter_all: "(\<And>x. x \<in> set xs \<Longrightarrow> f x = Some (g x)) \<Longrightarrow> List.map_filter f xs = map g xs"
  by (induction xs) (auto simp: List.map_filter_simps)

lemma policy_section_back:
  assumes "storable p"
  shows "policyFromSection (policy_section p) = \<lparr>ps_policy = \<lparr>po_version = RBAC_POLICY_VERSION, po_enforced = po_enforced p,
      po_roles = map normalizeRole (po_roles p), po_attachments = map normalizeAttachment (po_attachments p)\<rparr>,
    ps_failClosed = False, ps_ignored = []\<rparr>"
proof -
  have r: "List.map_filter roleFromRow (map (\<lambda>r. roleToRow (normalizeRole r)) (po_roles p)) = map normalizeRole (po_roles p)"
    using assms by (simp add: map_filter_of_map roleFromRow_back storable_def map_filter_all)
  have a: "List.map_filter attachmentFromRow (map (\<lambda>a. attachmentToRow (normalizeAttachment a)) (po_attachments p)) =
      map normalizeAttachment (po_attachments p)"
    using assms by (simp add: map_filter_of_map attachmentFromRow_back storable_def map_filter_all)
  have n: "filter (\<lambda>r. \<not> reserved r) (map normalizeRole (po_roles p)) = map normalizeRole (po_roles p)"
    "filter reserved (map normalizeRole (po_roles p)) = []"
    using assms by (auto simp: storable_def reserved_def normalizeRole_def filter_id_conv filter_empty_conv)
  show ?thesis by (simp add: policyFromSection_def Let_def section_cells r a n)
qed

text \<open>
  C39: What is written is what is read: the section written for a policy reads back as the policy, with
  empty descriptions and names left out, enforced or not as it was, and no role discarded, if its roles
  have ids of their own and its subjects are not empty.
\<close>

theorem policy_roundtrip:
  assumes "storable p"
  shows "policyFromSection (policy_section p) = \<lparr>ps_policy = \<lparr>po_version = RBAC_POLICY_VERSION, po_enforced = po_enforced p,
      po_roles = map normalizeRole (po_roles p), po_attachments = map normalizeAttachment (po_attachments p)\<rparr>,
    ps_failClosed = False, ps_ignored = []\<rparr>"
  by (rule policy_section_back [OF assms])

lemma policy_roundtrip_witness:
  "ps_ignored (policyFromSection (policy_section \<lparr>po_version = 2, po_enforced = True,
     po_roles = [\<lparr>ro_id = ''role_x'', ro_name = ''X'', ro_description = Some [], ro_builtIn = False, ro_danger = True,
       ro_permissions = [FULL_ACCESS]\<rparr>],
     po_attachments = [\<lparr>at_subject = BucketSubject ''slack'' ChannelAnyUser (Some ''C9''), at_roleIds = [''role_x''],
       at_displayName = None\<rparr>]\<rparr>)) = []"
  by (subst policy_roundtrip) (simp_all add: storable_def reserved_def isBuiltInRbacRoleId_def RBAC_BUILT_IN_ROLE_IDS_def)

text \<open>An empty scope id: the instance that wrote it matches it with no conversation, a reader with every one.\<close>

lemma empty_scope_widens:
  "subjectFromRow (attachmentToRow \<lparr>at_subject = BucketSubject ''slack'' ChannelAnyUser (Some []), at_roleIds = r, at_displayName = n\<rparr>)
     = Some (BucketSubject ''slack'' ChannelAnyUser None)
   \<and> \<not> subjectMatches (BucketSubject ''slack'' ChannelAnyUser (Some [])) (actor_input {} e)
     = (ie_conversationId e \<noteq> [] \<or> ie_platform e \<noteq> ''slack'' \<or> ie_isDm e)"
  by (auto simp: subjectFromRow_def attachmentToRow_def some_str_def str_cell_def truthy_text_def actor_input_def bucket_of_def
      map_add_def)

lemma cached_policy: "sv_cache sv = Some (st, pd_fingerprint d) \<Longrightarrow> service_policy d sv = ps_policy st"
  by (simp add: service_policy_def service_state_def)

subsection \<open>Revocation\<close>

definition edit_works :: "write_outcome \<Rightarrow> policy_disk \<Rightarrow> bool" where
  "edit_works wo d \<longleftrightarrow> pd_config d \<noteq> ConfigUnread \<and> (\<forall>section. wo_edit wo (pd_config d) section = Some (ConfigParsed (Some section)))"

lemma grants_normalized: "grants roles (normalizeAttachment a) p = grants roles a p"
  by (simp add: grants_def normalizeAttachment_def)

lemma find_map: "find P (map f xs) = map_option f (find (P \<circ> f) xs)"
  by (induction xs) auto

lemma grants_normalized_roles:
  "grants (BUILT_IN_ROLES @ map normalizeRole rs) a p = grants (BUILT_IN_ROLES @ rs) a p"
proof -
  have "find (\<lambda>r. ro_id r = i) (rev (BUILT_IN_ROLES @ map normalizeRole rs)) =
      (case find (\<lambda>r. ro_id r = i) (rev rs) of None \<Rightarrow> find (\<lambda>r. ro_id r = i) (rev BUILT_IN_ROLES)
       | Some r \<Rightarrow> Some (normalizeRole r))" for i
    by (simp add: find_after rev_map find_map comp_def normalizeRole_def split: option.splits)
  then show ?thesis by (simp add: grants_def find_after normalizeRole_def split: option.splits)
qed

lemma storable_changes:
  "storable p \<Longrightarrow> storable (structuredClonePolicy p)" "storable p \<Longrightarrow> storable (delete_attachment s p)"
  by (auto simp: storable_def structuredClonePolicy_def delete_attachment_def normalizeAttachment_def)

text \<open>
  A revoked attachment is gone everywhere: after a request of the settings pane deletes the
  attachment of a subject, in this instance and in every instance that has not yet seen the new file,
  whatever it has cached, each permission an actor still has comes from another subject's attachment.
\<close>

theorem revoked_attachment_grants_nothing:
  assumes "storable (service_policy d sv)" "po_enforced (service_policy d sv)" "edit_works wo d"
    and "handle_request known wo (DeleteAttachment s) (d, sv) = ((d', sv'), ok)"
    and "other = sv' \<or> unseen d' other"
    and "requirePermission (Some (resolveIfEnforcing d' other)) authorized e perm"
  shows "\<exists>a\<in>set (po_attachments (service_policy d sv)). at_subject a \<noteq> s
    \<and> subjectMatches (at_subject a) (actor_input authorized e) \<and> grants (allRoles (service_policy d sv)) a perm"
proof -
  let ?p = "service_policy d sv"
  let ?q = "delete_attachment s (structuredClonePolicy ?p)"
  have st: "storable ?q" using storable_changes assms(1) by simp
  have d': "d' = \<lparr>pd_config = ConfigParsed (Some (policy_section ?q)),
      pd_legacy = (if wo_retired wo then LegacyMissing else pd_legacy d), pd_fingerprint = wo_stamp wo\<rparr>"
    and c': "sv_cache sv' = Some (\<lparr>ps_policy = ?q, ps_failClosed = False, ps_ignored = []\<rparr>, pd_fingerprint d')"
    using assms(3,4) by (auto simp: handle_request_def mutate_def Let_def writeRbacPolicy_def edit_works_def)
  define fresh where "fresh = ps_policy (policyFromSection (policy_section ?q))"
  have fresh: "fresh = \<lparr>po_version = RBAC_POLICY_VERSION, po_enforced = po_enforced ?p,
      po_roles = map normalizeRole (po_roles ?p), po_attachments = map normalizeAttachment (po_attachments ?q)\<rparr>"
    unfolding fresh_def policyFromSection_def
    using policy_section_back [OF st] by (simp add: policyFromSection_def delete_attachment_def structuredClonePolicy_def)
  have q: "service_policy d' other = ?q \<or> service_policy d' other = fresh"
    using assms(5) cached_policy [OF c'] unseen_policy [of d' other]
    by (auto simp: fresh_def d' readRbacPolicyState_def)
  have enf: "po_enforced (service_policy d' other)"
    using q assms(2) fresh by (auto simp: delete_attachment_def structuredClonePolicy_def)
  obtain b where b: "b \<in> set (po_attachments (service_policy d' other))"
      "subjectMatches (at_subject b) (actor_input authorized e)" "grants (allRoles (service_policy d' other)) b perm"
    using assms(6) enf
    by (auto simp: requirePermission_def resolveActorPermissions_def resolveIfEnforcing_def resolved_permissions Let_def)
  have "\<exists>a\<in>set (po_attachments ?p). at_subject a \<noteq> s \<and> at_subject b = at_subject a \<and> at_roleIds b = at_roleIds a"
    using q b(1) fresh
    by (force simp: delete_attachment_def structuredClonePolicy_def sameSubject_def normalizeAttachment_def)
  moreover have "grants (allRoles (service_policy d' other)) b perm = grants (allRoles ?p) b perm"
    using q fresh grants_normalized_roles [of "po_roles ?p" b perm]
    by (auto simp: allRoles_def delete_attachment_def structuredClonePolicy_def)
  ultimately show ?thesis using b(2,3) by (force simp: grants_def)
qed

text \<open>Two instances; the second has the old file in its cache.\<close>

lemma revoked_attachment_grants_nothing_witness:
  "let wo = \<lparr>wo_edit = (\<lambda>_ section. Some (ConfigParsed (Some section))), wo_stamp = 8, wo_retired = True\<rparr>;
       d' = fst (fst (handle_request [] wo (DeleteAttachment (ActorSubject ''slack'' ''U1'')) (open_disk, \<lparr>sv_cache = None\<rparr>)))
   in \<not> requirePermission (Some (resolveIfEnforcing d' \<lparr>sv_cache = Some (readRbacPolicyState open_disk, 7)\<rparr>)) {''U1''}
        \<lparr>ie_platform = ''slack'', ie_actorId = ''U1'', ie_conversationId = ''C'', ie_isDm = False\<rparr> ''thread.control.stop''"
proof -
  let ?wo = "\<lparr>wo_edit = (\<lambda>_ section. Some (ConfigParsed (Some section))), wo_stamp = 8, wo_retired = True\<rparr>"
  let ?sv = "\<lparr>sv_cache = None\<rparr>"
  let ?del = "handle_request [] ?wo (DeleteAttachment (ActorSubject ''slack'' ''U1'')) (open_disk, ?sv)"
  let ?other = "\<lparr>sv_cache = Some (readRbacPolicyState open_disk, 7)\<rparr>"
  let ?e = "\<lparr>ie_platform = ''slack'', ie_actorId = ''U1'', ie_conversationId = ''C'', ie_isDm = False\<rparr>"
  have st: "storable (service_policy open_disk ?sv)" by (simp add: storable_def policy_eval)
  have en: "po_enforced (service_policy open_disk ?sv)" by (simp add: policy_eval)
  have wo: "edit_works ?wo open_disk" by (simp add: edit_works_def open_disk_def)
  have un: "unseen (fst (fst ?del)) ?other"
    by (simp add: unseen_def handle_request_def mutate_def writeRbacPolicy_def Let_def open_disk_def)
  have "\<nexists>a. a \<in> set (po_attachments (service_policy open_disk ?sv)) \<and> at_subject a \<noteq> ActorSubject ''slack'' ''U1''"
    by (simp add: policy_eval)
  then show ?thesis
    unfolding Let_def
    using revoked_attachment_grants_nothing [OF st en wo, of "[]" "ActorSubject ''slack'' ''U1''" "fst (fst ?del)"
        "snd (fst ?del)" "snd ?del" ?other "{''U1''}" ?e "''thread.control.stop''"] un by auto
qed

subsection \<open>Full access\<close>

text \<open>A request of the pane that gives a role full access and carries the phrase.\<close>

definition acknowledged :: "policy_event list \<Rightarrow> string \<Rightarrow> permission list \<Rightarrow> bool" where
  "acknowledged evs i ps \<longleftrightarrow> (\<exists>known wo r ack. PolicyRequest known wo (WriteRole r (Some ack)) \<in> set evs
     \<and> ro_id r = i \<and> ro_permissions r = ps \<and> js_trim ack = RBAC_FULL_ACCESS_ACKNOWLEDGMENT_PHRASE)"

definition acked_policy :: "policy_event list \<Rightarrow> rbac_policy \<Rightarrow> bool" where
  "acked_policy evs p \<longleftrightarrow> (\<forall>r\<in>set (po_roles p). roleIsDangerous (ro_permissions r) \<longrightarrow> acknowledged evs (ro_id r) (ro_permissions r))"

text \<open>Only the pane writes, and the editor writes what it is given.\<close>

fun by_pane :: "policy_event \<Rightarrow> bool" where
  "by_pane (PolicyEdited d) = False"
| "by_pane (PolicyRequest known wo r) = (\<forall>c section x. wo_edit wo c section = Some x \<longrightarrow> x = ConfigParsed (Some section))"
| "by_pane _ = True"

lemma acknowledged_mono: "acknowledged evs i ps \<Longrightarrow> set evs \<subseteq> set evs' \<Longrightarrow> acknowledged evs' i ps"
  unfolding acknowledged_def by blast

lemma acked_mono: "acked_policy evs p \<Longrightarrow> acked_policy (evs @ [e]) p"
  unfolding acked_policy_def using acknowledged_mono [of evs _ _ "evs @ [e]"] by auto

lemma acked_change:
  "request_change known r = Some change \<Longrightarrow> acked_policy evs p \<Longrightarrow> acked_policy (evs @ [PolicyRequest known wo r]) (change p)"
proof (cases r)
  case (WriteRole x ack)
  assume c: "request_change known r = Some change" and p: "acked_policy evs p"
  have "roleIsDangerous (ro_permissions x) \<Longrightarrow> acknowledged (evs @ [PolicyRequest known wo r]) (ro_id x) (ro_permissions x)"
    using c by (auto simp: WriteRole acknowledged_def split: if_splits)
  then show ?thesis
    using c acked_mono [OF p, of "PolicyRequest known wo r"]
    by (auto simp: WriteRole acked_policy_def upsert_role_def split: if_splits)
qed (use acked_mono [of evs p "PolicyRequest known wo r"] in
  \<open>auto simp: acked_policy_def delete_role_def upsert_attachment_def delete_attachment_def set_enforced_def split: if_splits\<close>)

lemma acked_clone: "acked_policy evs (structuredClonePolicy p) = acked_policy evs p"
  by (simp add: acked_policy_def structuredClonePolicy_def)

lemma acked_reread:
  assumes "acked_policy evs p" "pd_config d = ConfigParsed (Some (policy_section p))"
  shows "acked_policy evs (ps_policy (readRbacPolicyState d))"
proof -
  have "r \<in> set (List.map_filter roleFromRow (map (\<lambda>r. roleToRow (normalizeRole r)) rs)) \<Longrightarrow> \<exists>x\<in>set rs. r = normalizeRole x" for r rs
    by (induction rs) (auto simp: roleFromRow_back List.map_filter_simps split: if_splits)
  then show ?thesis
    using assms by (fastforce simp: readRbacPolicyState_def policyFromSection_def Let_def acked_policy_def section_cells normalizeRole_def)
qed

definition blank_disk :: "nat \<Rightarrow> policy_disk" where
  "blank_disk n = \<lparr>pd_config = ConfigMissing, pd_legacy = LegacyMissing, pd_fingerprint = n\<rparr>"

lemma run_acked:
  "list_all by_pane evs \<Longrightarrow> cached_holds (acked_policy evs) (snd (policy_run evs (blank_disk n)))
    \<and> acked_policy evs (ps_policy (readRbacPolicyState (fst (policy_run evs (blank_disk n)))))"
proof (induction evs rule: rev_induct)
  case Nil
  show ?case by (simp add: policy_run_def cached_holds_def acked_policy_def blank_disk_def readRbacPolicyState_def
        readLegacyJsonPolicyState_def emptyRbacPolicy_def)
next
  case (snoc e evs)
  obtain d sv where w: "policy_run evs (blank_disk n) = (d, sv)" by fastforce
  have c: "cached_holds (acked_policy (evs @ [e])) sv" "acked_policy (evs @ [e]) (ps_policy (readRbacPolicyState d))"
    using snoc w acked_mono by (auto simp: cached_holds_def)
  show ?case
  proof (cases e)
    case (PolicyRequest known wo r)
    show ?thesis
    proof (cases "request_change known r")
      case None
      then show ?thesis using c by (simp add: policy_run_snoc w PolicyRequest handle_request_def)
    next
      case (Some change)
      let ?q = "change (structuredClonePolicy (service_policy d sv))"
      have "acked_policy evs (service_policy d sv)"
        by (rule cached_holds_policy) (use snoc w in simp_all)
      then have q: "acked_policy (evs @ [e]) ?q"
        using acked_change [OF Some] by (simp add: PolicyRequest acked_clone)
      have e: "wo_edit wo c section = Some x \<Longrightarrow> x = ConfigParsed (Some section)" for c "section" x
        using snoc.prems by (simp add: PolicyRequest)
      have "acked_policy (evs @ [e]) (ps_policy (readRbacPolicyState (fst (mutate wo change (d, sv)))))"
        using c(2) acked_reread [OF q] e by (auto simp: mutate_def Let_def writeRbacPolicy_def split: option.splits)
      then show ?thesis
        using cached_holds_mutate [of "acked_policy (evs @ [e])" sv d change, OF c q] by (simp add: policy_run_snoc w PolicyRequest handle_request_def Some)
    qed
  next
    case PolicyAsked
    then show ?thesis using cached_holds_state [of "acked_policy (evs @ [e])", OF c] c by (simp add: policy_run_snoc w)
  qed (use c snoc.prems in \<open>simp_all add: policy_run_snoc w service_reload_def cached_holds_def\<close>)
qed

lemma built_in_full_access_check:
  "list_all (\<lambda>r. FULL_ACCESS \<in> set (ro_permissions r) \<longrightarrow> ro_id r = ''admin'') BUILT_IN_ROLES"
  by code_simp

lemma built_in_full_access:
  "r \<in> set BUILT_IN_ROLES \<Longrightarrow> FULL_ACCESS \<in> set (ro_permissions r) \<Longrightarrow> ro_id r = ''admin''"
  using built_in_full_access_check by (auto simp: list_all_iff)

lemma mutation_permissions:
  "p \<in> set (permissionsForThreadMutation (Some m)) \<longleftrightarrow>
     (\<exists>f\<in>set MUTATION_FIELDS. \<exists>v. map_get m f = Some v \<and> p \<in> set (mutation_field_permissions f v))"
proof -
  have "set (foldl (\<lambda>required f. case map_get m f of None \<Rightarrow> required
      | Some v \<Rightarrow> foldl set_add required (mutation_field_permissions f v)) acc fs) =
    set acc \<union> {p. \<exists>f\<in>set fs. \<exists>v. map_get m f = Some v \<and> p \<in> set (mutation_field_permissions f v)}" for acc fs
    by (induction fs arbitrary: acc) (auto split: option.splits)
  then show ?thesis by (simp add: permissionsForThreadMutation_def)
qed

lemma full_access_source:
  assumes "grants (allRoles p) a FULL_ACCESS" "acked_policy evs p"
  shows "\<exists>i\<in>set (at_roleIds a). i = ''admin'' \<or> (\<exists>ps. FULL_ACCESS \<in> set ps \<and> acknowledged evs i ps)"
proof -
  obtain i r where i: "i \<in> set (at_roleIds a)" "find (\<lambda>r. ro_id r = i) (rev (allRoles p)) = Some r"
    "FULL_ACCESS \<in> set (ro_permissions r)" using assms(1) by (auto simp: grants_def)
  have r: "ro_id r = i" "r \<in> set BUILT_IN_ROLES \<union> set (po_roles p)"
    using find_in [OF i(2)] by (auto simp: allRoles_def)
  show ?thesis
  proof (cases "r \<in> set BUILT_IN_ROLES")
    case True
    then show ?thesis using built_in_full_access i r by blast
  next
    case False
    then have "acknowledged evs i (ro_permissions r)"
      using r i(3) assms(2) by (auto simp: acked_policy_def roleIsDangerous_def)
    then show ?thesis using i by blast
  qed
qed

text \<open>
  C40: What \<open>mutate_thread\<close> may raise to full access is what the operator granted. On a profile that
  starts without policy files and whose policy only the settings pane writes since, a \<open>mutate_thread\<close>
  call that sets the execution mode to full access, in a turn of an actor of an enforced policy, is
  allowed only if an attachment that matches the actor names the administrator role or a role that a
  request gave full access with the confirmation phrase typed. This is the gate of that one tool: the
  gate of the orchestration tools does not look at the execution mode they pass on.
\<close>

theorem full_access_was_granted:
  assumes "list_all by_pane evs" "policy_run evs (blank_disk n) = (d, sv)" "po_enforced (service_policy d sv)"
    and "map_get args ''executionMode'' = Some (ArgString ''full-access'')"
    and "td_allowed (checkDynamicToolPermission (Some (resolveIfEnforcing d sv)) authorized (Some e) ThreadInspection
      ''mutate_thread'' (Some args))"
  shows "\<exists>a\<in>set (po_attachments (service_policy d sv)). subjectMatches (at_subject a) (actor_input authorized e)
    \<and> (\<exists>i\<in>set (at_roleIds a). i = ''admin'' \<or> (\<exists>ps. FULL_ACCESS \<in> set ps \<and> acknowledged evs i ps))"
proof -
  let ?p = "service_policy d sv"
  let ?r = "resolveEffectivePermissions (actor_input authorized e) (allRoles ?p) (po_attachments ?p)"
  have "FULL_ACCESS \<in> set (required_permissions ThreadInspection ''mutate_thread'' (Some args))"
    using assms(4) by (auto simp: required_permissions_def mutation_permissions MUTATION_FIELDS_def
        mutation_field_permissions_def)
  then have "FULL_ACCESS \<in> set (re_permissions ?r)"
    using assms(3,5) by (auto simp: checkDynamicToolPermission_def resolveActorPermissions_def resolveIfEnforcing_def Let_def
        find_None_iff split: option.splits)
  then obtain a where a: "a \<in> set (po_attachments ?p)" "subjectMatches (at_subject a) (actor_input authorized e)"
      "grants (allRoles ?p) a FULL_ACCESS"
    by (auto simp: resolved_permissions)
  have "cached_holds (acked_policy evs) sv" "acked_policy evs (ps_policy (readRbacPolicyState d))"
    using run_acked [OF assms(1), of n] by (simp_all only: assms(2) fst_conv snd_conv)
  then have "acked_policy evs ?p" by (rule cached_holds_policy [of "acked_policy evs"])
  then show ?thesis using full_access_source [OF a(3)] a(1,2) by blast
qed

text \<open>The pane enforces the policy for the first time, which makes the known actor an administrator.\<close>

definition first_enforcement :: "policy_event list" where
  "first_enforcement = [PolicyRequest [(ActorSubject ''slack'' ''U1'', None)]
     \<lparr>wo_edit = (\<lambda>_ section. Some (ConfigParsed (Some section))), wo_stamp = 1, wo_retired = True\<rparr> (SetEnforced True None)]"

lemma first_enforcement_policy:
  "service_policy (fst (policy_run first_enforcement (blank_disk 0))) (snd (policy_run first_enforcement (blank_disk 0))) =
     \<lparr>po_version = 1, po_enforced = True, po_roles = [],
      po_attachments = [\<lparr>at_subject = ActorSubject ''slack'' ''U1'', at_roleIds = [''admin''], at_displayName = None\<rparr>]\<rparr>"
  by (simp add: first_enforcement_def policy_run_def handle_request_def mutate_def blank_disk_def service_policy_def
      service_state_def readRbacPolicyState_def readLegacyJsonPolicyState_def emptyRbacPolicy_def structuredClonePolicy_def
      set_enforced_def synthesizeAdminAttachments_def normalizeAttachment_def truthy_text_def writeRbacPolicy_def
      RBAC_POLICY_VERSION_def Let_def)

lemma full_access_was_granted_witness:
  "\<exists>d sv. policy_run first_enforcement (blank_disk 0) = (d, sv)
     \<and> td_allowed (checkDynamicToolPermission (Some (resolveIfEnforcing d sv)) {}
         (Some \<lparr>ie_platform = ''slack'', ie_actorId = ''U1'', ie_conversationId = ''C'', ie_isDm = False\<rparr>) ThreadInspection
         ''mutate_thread'' (Some [(''executionMode'', ArgString ''full-access'')]))
     \<and> (\<exists>a\<in>set (po_attachments (service_policy d sv)). ''admin'' \<in> set (at_roleIds a))"
proof -
  let ?w = "policy_run first_enforcement (blank_disk 0)"
  let ?e = "\<lparr>ie_platform = ''slack'', ie_actorId = ''U1'', ie_conversationId = ''C'', ie_isDm = False\<rparr>"
  let ?args = "[(''executionMode'', ArgString ''full-access'')]"
  obtain d sv where w: "?w = (d, sv)" by fastforce
  have p: "service_policy d sv = \<lparr>po_version = 1, po_enforced = True, po_roles = [],
      po_attachments = [\<lparr>at_subject = ActorSubject ''slack'' ''U1'', at_roleIds = [''admin''], at_displayName = None\<rparr>]\<rparr>"
    using first_enforcement_policy by (simp add: w)
  have r: "re_permissions (resolveEffectivePermissions (actor_input {} ?e) BUILT_IN_ROLES
      [\<lparr>at_subject = ActorSubject ''slack'' ''U1'', at_roleIds = [''admin''], at_displayName = None\<rparr>]) = ALL_MESSAGING_PERMISSIONS"
    by code_simp
  have q: "required_permissions ThreadInspection ''mutate_thread'' (Some ?args) = [''thread.settings.execution_mode'', FULL_ACCESS]"
    by code_simp
  have m: "''thread.settings.execution_mode'' \<in> set ALL_MESSAGING_PERMISSIONS \<and> FULL_ACCESS \<in> set ALL_MESSAGING_PERMISSIONS"
    by code_simp
  have t: "td_allowed (checkDynamicToolPermission (Some (resolveIfEnforcing d sv)) {} (Some ?e) ThreadInspection
      ''mutate_thread'' (Some ?args))"
    using m by (simp add: checkDynamicToolPermission_def resolveActorPermissions_def resolveIfEnforcing_def p q allRoles_def r)
  have b: "list_all by_pane first_enforcement" by (simp add: first_enforcement_def)
  have "\<exists>a\<in>set (po_attachments (service_policy d sv)). subjectMatches (at_subject a) (actor_input {} ?e)
      \<and> (\<exists>i\<in>set (at_roleIds a). i = ''admin'' \<or> (\<exists>ps. FULL_ACCESS \<in> set ps \<and> acknowledged first_enforcement i ps))"
    by (rule full_access_was_granted [OF b w _ _ t]) (simp_all add: p)
  then show ?thesis using w t by (auto simp: p)
qed

text \<open>
  The orchestration tools \<open>handoff_task\<close> and \<open>send_message_to_thread\<close> take an execution mode as well, which
  the registry hands to the turn they start; their gate asks for the orchestration permission alone,
  which the built-in role \<open>power_user_tools\<close> has without full access.
\<close>

lemma orchestration_needs_no_full_access:
  assumes "tool \<in> {''handoff_task'', ''send_message_to_thread''}"
    and "service_policy d sv = \<lparr>po_version = 1, po_enforced = True, po_roles = [],
      po_attachments = [\<lparr>at_subject = ActorSubject (ie_platform e) (ie_actorId e), at_roleIds = [''power_user_tools''], at_displayName = None\<rparr>]\<rparr>"
  shows "td_allowed (checkDynamicToolPermission (Some (resolveIfEnforcing d sv)) authorized (Some e) ThreadOrchestration
      tool (Some [(''executionMode'', ArgString ''full-access'')]))
    \<and> \<not> requirePermission (Some (resolveIfEnforcing d sv)) authorized e FULL_ACCESS"
proof -
  let ?r = "find (\<lambda>r. ro_id r = ''power_user_tools'') (rev BUILT_IN_ROLES)"
  have req: "required_permissions ThreadOrchestration tool (Some [(''executionMode'', ArgString ''full-access'')]) =
      [''tools.thread_orchestration'']"
    using assms(1) by (auto simp: required_permissions_def toolArgsTargetRemoteInstance_def)
  have "case ?r of None \<Rightarrow> False | Some r \<Rightarrow>
      ''tools.thread_orchestration'' \<in> set (ro_permissions r) \<and> FULL_ACCESS \<notin> set (ro_permissions r)"
    by code_simp
  then have g: "grants BUILT_IN_ROLES a p \<longleftrightarrow> (case ?r of None \<Rightarrow> False | Some r \<Rightarrow> p \<in> set (ro_permissions r))"
    "grants BUILT_IN_ROLES a ''tools.thread_orchestration''" "\<not> grants BUILT_IN_ROLES a FULL_ACCESS"
    if "at_roleIds a = [''power_user_tools'']" for a p
    using that by (auto simp: grants_def split: option.splits)
  have m: "subjectMatches (ActorSubject (ie_platform e) (ie_actorId e)) (actor_input authorized e)"
    by (simp add: actor_input_def)
  show ?thesis
    using g(2,3) m by (simp add: checkDynamicToolPermission_def requirePermission_def resolveActorPermissions_def
        resolveIfEnforcing_def assms(2) Let_def req resolved_permissions allRoles_def find_None_iff)
qed

end
