(* ===== verification/JsonText.thy ===== *)
theory JsonText
  imports Prelude
begin

text \<open>
  The text \<open>JSON.stringify\<close> makes of strings, integers, arrays and objects, for signed messages and
  stored payloads. Characters are the Latin-1 ones of the type \<open>char\<close>; numbers are integers that
  JavaScript prints without an exponent. The text determines the value: no two values have the same
  text, even with more text after them.
\<close>

datatype json = JStr string | JNum int | JArr "json list" | JObj "(string \<times> json) list"

subsection \<open>Numbers\<close>

fun nat_text :: "nat \<Rightarrow> string" where
  "nat_text n = (if n < 10 then [char_of (48 + n)] else nat_text (n div 10) @ [char_of (48 + n mod 10)])"

declare nat_text.simps [simp del]

definition int_text :: "int \<Rightarrow> string" where
  "int_text i = (if i < 0 then CHR 0x2D # nat_text (nat (- i)) else nat_text (nat i))"

definition is_digit :: "char \<Rightarrow> bool" where
  "is_digit c \<longleftrightarrow> 48 \<le> (of_char c :: nat) \<and> (of_char c :: nat) < 58"

definition text_nat :: "string \<Rightarrow> nat" where
  "text_nat t = foldl (\<lambda>v c. 10 * v + (of_char c - 48)) 0 t"

lemma text_nat_back: "text_nat (nat_text n) = n"
proof (induction n rule: nat_text.induct)
  case (1 n)
  then show ?case by (subst nat_text.simps) (auto simp: text_nat_def)
qed

lemma nat_text_digits: "nat_text n \<noteq> [] \<and> list_all is_digit (nat_text n)"
proof (induction n rule: nat_text.induct)
  case (1 n)
  have d: "m < 10 \<Longrightarrow> is_digit (char_of (48 + m))" for m :: nat by (simp add: is_digit_def)
  show ?case
  proof (cases "n < 10")
    case True
    then show ?thesis using d by (simp add: nat_text.simps [of n])
  next
    case False
    then show ?thesis using 1 d [of "n mod 10"] by (simp add: nat_text.simps [of n])
  qed
qed

text \<open>What follows a value in a text does not start with a digit.\<close>

definition delimited :: "string \<Rightarrow> bool" where
  "delimited r \<longleftrightarrow> (case r of [] \<Rightarrow> True | c # _ \<Rightarrow> \<not> is_digit c)"

lemma digits_prefix:
  assumes "list_all is_digit a" "list_all is_digit b" "delimited r" "delimited s" "a @ r = b @ s"
  shows "a = b \<and> r = s"
proof -
  have "takeWhile is_digit (a @ r) = a" "takeWhile is_digit (b @ s) = b"
    using assms(1-4) by (auto simp: delimited_def takeWhile_append list_all_iff takeWhile_eq_Nil_iff split: list.splits)
  then show ?thesis using assms(5) by (metis same_append_eq)
qed

lemma int_text_prefix:
  assumes "int_text i @ r = int_text j @ s" "delimited r" "delimited s"
  shows "i = j \<and> r = s"
proof -
  have minus: "nat_text n @ u \<noteq> CHR 0x2D # t" for n t u
    using nat_text_digits [of n] by (cases "nat_text n") (auto simp: is_digit_def)
  have same: "nat_text m @ r = nat_text n @ s \<Longrightarrow> m = n \<and> r = s" for m n
    using digits_prefix [of "nat_text m" "nat_text n" r s] nat_text_digits assms(2,3) by (metis text_nat_back)
  show ?thesis
  proof (cases "i < 0")
    case True
    then have j: "j < 0" using assms(1) minus [of "nat j" s, symmetric] by (auto simp: int_text_def split: if_splits)
    then have "nat_text (nat (- i)) @ r = nat_text (nat (- j)) @ s" using True assms(1) by (simp add: int_text_def)
    then show ?thesis using same True j by (metis int_nat_eq neg_0_le_iff_le neg_equal_iff_equal less_imp_le)
  next
    case False
    then have j: "\<not> j < 0" using assms(1) minus [of "nat i" r] by (auto simp: int_text_def split: if_splits)
    then have "nat_text (nat i) @ r = nat_text (nat j) @ s" using False assms(1) by (simp add: int_text_def)
    then have "nat i = nat j \<and> r = s" by (rule same)
    then show ?thesis using False j by linarith
  qed
qed

subsection \<open>Strings\<close>

definition ESCAPES :: "(char \<times> char) list" where
  "ESCAPES = [(CHR 0x22, CHR 0x22), (CHR 0x5C, CHR 0x5C), (CHR 0x08, CHR ''b''), (CHR 0x0C, CHR ''f''), (CHR 0x0A, CHR ''n''),
     (CHR 0x0D, CHR ''r''), (CHR 0x09, CHR ''t'')]"

definition hex_lower :: "nat \<Rightarrow> char" where
  "hex_lower n = char_of (if n < 10 then 48 + n else 87 + n)"

definition json_char :: "char \<Rightarrow> string" where
  "json_char c = (case map_of ESCAPES c of
     Some e \<Rightarrow> [CHR 0x5C, e]
   | None \<Rightarrow> if (of_char c :: nat) < 32
             then [CHR 0x5C, CHR ''u'', CHR ''0'', CHR ''0'', hex_lower (of_char c div 16), hex_lower (of_char c mod 16)]
             else [c])"

definition json_quote :: "string \<Rightarrow> string" where
  "json_quote t = CHR 0x22 # concat (map json_char t) @ [CHR 0x22]"

fun json_uncode :: "string \<Rightarrow> char \<times> string" where
  "json_uncode (c # s) = (if c \<noteq> CHR 0x5C then (c, s)
     else case s of
       e # s' \<Rightarrow> (if e = CHR ''u'' then
           (char_of (16 * (of_char (s' ! 2) - 48) + (let d = of_char (s' ! 3) in if d < 58 then d - 48 else d - 87 :: nat)), drop 4 s')
         else (the (map_of (map prod.swap ESCAPES) e), s'))
     | [] \<Rightarrow> (c, []))"
| "json_uncode [] = (CHR 0x00, [])"

lemma json_uncode_char: "json_uncode (json_char c @ r) = (c, r)"
proof (cases "map_of ESCAPES c")
  case (Some e)
  then show ?thesis by (auto simp: json_char_def ESCAPES_def split: if_splits)
next
  case None
  note n = None
  show ?thesis
  proof (cases "(of_char c :: nat) < 32")
    case True
    define n where "n = (of_char c :: nat)"
    have c: "c = char_of n" by (simp add: n_def)
    have "n \<in> set [0..<32]" using True by (simp add: n_def)
    then have "char_of (16 * (of_char (hex_lower (n div 16)) - 48) + (let d = of_char (hex_lower (n mod 16)) in
        if d < 58 then d - 48 else d - 87 :: nat)) = (char_of n :: char)"
      by (simp add: upt_rec hex_lower_def) (elim disjE, simp_all)
    then show ?thesis using None True by (simp add: json_char_def n_def Let_def del: split_paired_All split: if_splits)
  next
    case False
    then show ?thesis using None by (auto simp: json_char_def ESCAPES_def split: if_splits)
  qed
qed

lemma json_char_start: "json_char c \<noteq> [] \<and> hd (json_char c @ r) \<noteq> CHR 0x22"
  by (auto simp: json_char_def ESCAPES_def split: option.splits if_splits)

lemma json_quote_prefix:
  assumes "json_quote a @ r = json_quote b @ s"
  shows "a = b \<and> r = s"
proof -
  have "concat (map json_char a) @ CHR 0x22 # r = concat (map json_char b) @ CHR 0x22 # s \<Longrightarrow> a = b \<and> r = s"
  proof (induction a arbitrary: b)
    case Nil
    then show ?case
      by (cases b) (use json_char_start [of "hd b" "concat (map json_char (tl b)) @ CHR 0x22 # s"] in \<open>auto simp: hd_append dest: sym\<close>,
        (metis append_is_Nil_conv hd_append2 list.sel(1))+)
  next
    case (Cons c a)
    show ?case
    proof (cases b)
      case Nil
      then show ?thesis using Cons.prems json_char_start [of c "concat (map json_char a) @ CHR 0x22 # r"]
        by (metis append.assoc append_Nil concat.simps list.sel(1) list.simps(8,9))
    next
      case (Cons d b')
      have "json_uncode (json_char c @ concat (map json_char a) @ CHR 0x22 # r)
        = json_uncode (json_char d @ concat (map json_char b') @ CHR 0x22 # s)"
        using Cons.prems Cons by simp
      then show ?thesis using Cons.IH Cons by (simp add: json_uncode_char)
    qed
  qed
  then show ?thesis using assms by (simp add: json_quote_def)
qed

subsection \<open>Values\<close>

fun sep_texts :: "string list \<Rightarrow> string" where
  "sep_texts [] = []"
| "sep_texts [t] = t"
| "sep_texts (t # u # ts) = t @ CHR '','' # sep_texts (u # ts)"

fun json_text :: "json \<Rightarrow> string" where
  "json_text (JStr t) = json_quote t"
| "json_text (JNum i) = int_text i"
| "json_text (JArr js) = CHR ''['' # sep_texts (map json_text js) @ '']''"
| "json_text (JObj fs) = CHR ''{'' # sep_texts (map (\<lambda>(k, j). json_quote k @ CHR '':'' # json_text j) fs) @ ''}''"

text \<open>How a text starts tells its kind.\<close>

lemma nat_text_hd: "is_digit (hd (nat_text n @ r))"
  using nat_text_digits [of n] by (cases "nat_text n") auto

lemma int_text_hd: "hd (int_text i @ r) = CHR ''-'' \<or> is_digit (hd (int_text i @ r))"
  using nat_text_hd by (auto simp: int_text_def)

lemma json_text_opens: "hd (json_text j) \<notin> {CHR '']'', CHR ''}'', CHR '',''} \<and> json_text j \<noteq> []"
proof (cases j)
  case (JNum i)
  then show ?thesis using int_text_hd [of i "[]"] nat_text_digits by (auto simp: is_digit_def int_text_def)
qed (simp_all add: json_quote_def)

lemma sep_texts_Cons: "ts \<noteq> [] \<Longrightarrow> sep_texts (t # ts) = t @ CHR '','' # sep_texts ts"
  by (cases ts) auto

text \<open>Separated items are read off one by one if each item can be.\<close>

lemma sep_texts_hd:
  assumes "\<And>x. hd (f x) \<noteq> c \<and> f x \<noteq> []" "xs \<noteq> []"
  shows "sep_texts (map f xs) @ u \<noteq> c # r"
proof -
  obtain x ys where x: "xs = x # ys" using assms(2) by (cases xs) auto
  obtain v where "sep_texts (map f xs) @ u = f x @ v"
    using x by (cases "ys = []") (auto simp: sep_texts_Cons)
  then show ?thesis using assms(1) [of x] by (metis hd_append2 list.sel(1))
qed

lemma sep_texts_split: "xs \<noteq> [] \<Longrightarrow> sep_texts (map f (x # xs)) @ r = f x @ CHR '','' # sep_texts (map f xs) @ r"
  by (simp add: sep_texts_Cons)

lemma sep_texts_prefix:
  assumes "sep_texts (map f xs) @ c # r = sep_texts (map f ys) @ c # s"
    and "\<And>x y u v. x \<in> set xs \<Longrightarrow> delimited u \<Longrightarrow> delimited v \<Longrightarrow> f x @ u = f y @ v \<Longrightarrow> x = y \<and> u = v"
    and first: "\<And>x. hd (f x) \<noteq> c \<and> f x \<noteq> []" and c: "c \<noteq> CHR '',''" "\<not> is_digit c"
  shows "xs = ys \<and> r = s"
  using assms(1,2)
proof (induction xs arbitrary: ys)
  case Nil
  have "ys = []" using Nil(1) sep_texts_hd [of f c ys "c # s" r, OF first] by fastforce
  then show ?case using Nil(1) by simp
next
  case (Cons x xs)
  have head: "delimited u \<Longrightarrow> delimited v \<Longrightarrow> f x @ u = f y @ v \<Longrightarrow> x = y \<and> u = v" for y u v
    using Cons.prems(2) [of x u v y] by simp
  have "ys \<noteq> []" using Cons.prems(1) sep_texts_hd [of f c "x # xs" "c # r" s, OF first] by fastforce
  then obtain y ys' where ys: "ys = y # ys'" by (cases ys) auto
  have d: "delimited (c # u)" "delimited (CHR '','' # u)" for u using c(2) by (simp_all add: delimited_def is_digit_def)
  consider "xs = []" "ys' = []" | "xs = []" "ys' \<noteq> []" | "xs \<noteq> []" "ys' = []" | "xs \<noteq> []" "ys' \<noteq> []" by blast
  then show ?case
  proof cases
    case 1
    then show ?thesis using Cons.prems(1) head [OF d(1) d(1), of r y s] ys by simp
  next
    case 2
    have "f x @ c # r = f y @ CHR '','' # sep_texts (map f ys') @ c # s"
      using Cons.prems(1) 2 ys sep_texts_split [OF 2(2)] by simp
    then show ?thesis using head [OF d(1) d(2)] c(1) by blast
  next
    case 3
    have "f x @ CHR '','' # sep_texts (map f xs) @ c # r = f y @ c # s"
      using Cons.prems(1) 3 ys sep_texts_split [OF 3(1)] by simp
    then show ?thesis using head [OF d(2) d(1)] c(1) by blast
  next
    case 4
    have "f x @ CHR '','' # sep_texts (map f xs) @ c # r = f y @ CHR '','' # sep_texts (map f ys') @ c # s"
      using Cons.prems(1) ys sep_texts_split [OF 4(1)] sep_texts_split [OF 4(2)] by simp
    then have e: "x = y" "sep_texts (map f xs) @ c # r = sep_texts (map f ys') @ c # s"
      using head [OF d(2) d(2)] by blast+
    have "xs = ys' \<and> r = s"
      by (rule Cons.IH [OF e(2)]) (use Cons.prems(2) in auto)
    then show ?thesis using e(1) ys by simp
  qed
qed

text \<open>The kinds by first character.\<close>

fun json_first :: "json \<Rightarrow> char \<Rightarrow> bool" where
  "json_first (JStr t) c \<longleftrightarrow> c = CHR 0x22"
| "json_first (JNum i) c \<longleftrightarrow> c = CHR ''-'' \<or> is_digit c"
| "json_first (JArr js) c \<longleftrightarrow> c = CHR ''[''"
| "json_first (JObj fs) c \<longleftrightarrow> c = CHR ''{''"

lemma json_first_hd: "json_first j (hd (json_text j @ r))"
  using int_text_hd by (cases j) (auto simp: json_quote_def)

lemma json_same_kind:
  assumes "json_text a @ r = json_text b @ s"
  shows "json_first b (hd (json_text a @ r)) \<and> json_first a (hd (json_text a @ r))"
  using json_first_hd [of a r] json_first_hd [of b s] assms by simp

definition field_text :: "string \<times> json \<Rightarrow> string" where
  "field_text f = json_quote (fst f) @ CHR '':'' # json_text (snd f)"

lemma json_text_obj: "json_text (JObj fs) = CHR ''{'' # sep_texts (map field_text fs) @ ''}''"
  by (simp add: field_text_def [abs_def] case_prod_unfold)

theorem json_text_prefix:
  assumes "json_text a @ r = json_text b @ s" "delimited r" "delimited s"
  shows "a = b \<and> r = s"
  using assms
proof (induction a arbitrary: b r s)
  case (JStr t)
  obtain u where "b = JStr u" using json_same_kind [OF JStr(1)] by (cases b) (auto simp: is_digit_def)
  then show ?case using JStr(1) json_quote_prefix [of t r] by simp
next
  case (JNum i)
  obtain j where "b = JNum j" using json_same_kind [OF JNum(1)] by (cases b) (auto simp: is_digit_def)
  then show ?case using JNum int_text_prefix [of i r] by simp
next
  case (JArr js)
  obtain ks where b: "b = JArr ks" using json_same_kind [OF JArr.prems(1)] by (cases b) (auto simp: is_digit_def)
  have "js = ks \<and> r = s"
    by (rule sep_texts_prefix [of json_text js "CHR '']''" r ks s])
      (use JArr b json_text_opens in \<open>auto simp: is_digit_def\<close>)
  then show ?case using b by simp
next
  case (JObj fs)
  obtain gs where b: "b = JObj gs" using json_same_kind [OF JObj.prems(1)] by (cases b) (auto simp: is_digit_def)
  have field: "f \<in> set fs \<Longrightarrow> delimited u \<Longrightarrow> delimited v \<Longrightarrow> field_text f @ u = field_text g @ v \<Longrightarrow> f = g \<and> u = v" for f g u v
    using json_quote_prefix [of "fst f" "CHR '':'' # json_text (snd f) @ u" "fst g" "CHR '':'' # json_text (snd g) @ v"]
      JObj.IH [of f "snd f" u "snd g" v]
    by (auto simp: field_text_def prod_eq_iff snds.simps)
  have "fs = gs \<and> r = s"
    by (rule sep_texts_prefix [of field_text fs "CHR ''}''" r gs s])
      (use JObj.prems b field in \<open>auto simp: json_text_obj field_text_def json_quote_def is_digit_def simp del: json_text.simps\<close>)
  then show ?case using b by simp
qed

corollary json_text_inj: "json_text a = json_text b \<longleftrightarrow> a = b"
  using json_text_prefix [of a "[]" b "[]"] by (auto simp: delimited_def)

end
