(* ===== verification/FederationEnrollment.thy ===== *)
theory FederationEnrollment
  imports JsonText FederationSessions "HOL-Library.Char_ord" "HOL-Library.List_Lexorder"
begin

text \<open>
  How an instance becomes a peer of a gateway and how it comes back: the peer and invite tables of
  \<open>storage/federation-store.ts\<close>, \<open>federation-enrollment.ts\<close>, the authentication phase of both ends of
  \<open>federation-transport.ts\<close>, and the invite and revocation operations of \<open>federation-runtime.ts\<close>. A
  table is a map of rows. The HMAC of a token under the store's secret, the signature scheme and the
  hash of the encrypted channel are parameters; a host description and receiver permissions are
  opaque texts. The audit rows are left out.
\<close>

subsection \<open>Names\<close>

definition isFederationInstanceId :: "string \<Rightarrow> bool" where
  "isFederationInstanceId v \<longleftrightarrow> 3 \<le> length v \<and> length v \<le> 120 \<and>
     list_all (\<lambda>ch. let code = (of_char ch :: nat) in
       48 \<le> code \<and> code \<le> 57 \<or> 65 \<le> code \<and> code \<le> 90 \<or> 97 \<le> code \<and> code \<le> 122 \<or> ch = CHR ''-'' \<or> ch = CHR ''_'') v"

definition FEDERATION_CAPABILITIES :: "string list" where
  "FEDERATION_CAPABILITIES = [''remote_window'', ''thread_navigation'', ''navigation_snapshot_deltas'',
     ''navigation_group_invalidations'', ''thread_grouping'', ''archive_subthread_promotion_v1'',
     ''thread_parent_mutation_v1'', ''thread_detail'', ''turn_control'', ''durable_turn_requests_v1'',
     ''durable_steer_requests_v1'', ''scheduled_actions'', ''pending_request_control'', ''environment_actions'',
     ''launchpad_metadata'', ''federated_search'', ''messaging_route'', ''messaging_destinations'', ''messaging_files'',
     ''pwrsnap_connection'', ''gateway_relay'', ''remote_pty'', ''service_forward_v1'', ''service_forward_v2'',
     ''file_push'', ''thread_handoff'', ''file_pull'', ''event_subscriptions'', ''turn_input_blobs'', ''resumable_blobs'',
     ''transport_brotli'', ''shutdown_notice'', ''navigation_directory_set_events'', ''turn_queue_reorder'',
     ''thread_mcp_connections'', ''thread_todos'', ''thread_todo_feed'', ''thread_todo_dispatch_target'',
     ''thread_todo_message'', ''thread_todo_plan'', ''operator_questions'', ''operator_requests'', ''turn_queue_pause'',
     ''thread_display_bulk_reads'', ''turn_assistant_reply'', ''thread_pr_watch_control_v1'', ''project_forge_automation'']"

definition FEDERATION_BROTLI_CAPABILITY :: string where
  "FEDERATION_BROTLI_CAPABILITY = ''transport_brotli''"

definition isFederationCapability :: "string \<Rightarrow> bool" where
  "isFederationCapability c \<longleftrightarrow> c \<in> set FEDERATION_CAPABILITIES"

definition filterKnownFederationCapabilities :: "string list \<Rightarrow> string list" where
  "filterKnownFederationCapabilities cs = filter isFederationCapability cs"

subsection \<open>Peers\<close>

record peer_payload =
  pl_capabilities :: "string list"
  pl_protocolVersion :: int
  pl_endpoint :: "string option"
  pl_profileName :: "string option"
  pl_notes :: "string option"
  pl_host :: "string option"
  pl_receiverPermissions :: "string option"
  pl_pinnedPublicKeyPem :: "string option"
  pl_lastConnectedAt :: "int option"
  pl_lastActivityAt :: "int option"
  pl_unavailableReason :: "string option"

text \<open>A peer as the code passes it: the fields the session policy reads, a label, a role and the payload.\<close>

record federation_peer = peer_summary +
  fp_label :: string
  fp_role :: string
  fp_payload :: peer_payload

record peer_row =
  pw_label :: string
  pw_role :: string
  pw_status :: string
  pw_createdAt :: int
  pw_updatedAt :: int
  pw_lastSeenAt :: "int option"
  pw_revokedAt :: "int option"
  pw_payload :: peer_payload

datatype enrollment_status = EnrollPending | EnrollUsed | EnrollExpired | EnrollRevoked

record enrollment_row =
  er_tokenHmac :: string
  er_status :: enrollment_status
  er_generatedAt :: int
  er_expiresAt :: int
  er_usedAt :: "int option"
  er_peerId :: "string option"
  er_label :: "string option"
  er_role :: "string option"
  er_endpoint :: "string option"
  er_gatewayInstanceId :: "string option"

record federation_store =
  fs_peers :: "(string, peer_row) jsmap"
  fs_enrollments :: "(string, enrollment_row) jsmap"

definition normalizeFederationInstanceRole :: "string \<Rightarrow> string option" where
  "normalizeFederationInstanceRole v = (if v = ''child'' then Some ''client''
     else if v \<in> {''gateway'', ''client'', ''dual''} then Some v else None)"

definition rowToPeer :: "string \<Rightarrow> peer_row \<Rightarrow> federation_peer" where
  "rowToPeer i r = \<lparr>pe_id = i, pe_status = pw_status r, pe_revokedAt = pw_revokedAt r, fp_label = pw_label r,
     fp_role = or_else (normalizeFederationInstanceRole (pw_role r)) ''client'', fp_payload = pw_payload r\<rparr>"

definition getPeer :: "federation_store \<Rightarrow> string \<Rightarrow> federation_peer option" where
  "getPeer s i = map_option (rowToPeer i) (map_get (fs_peers s) i)"

definition upsertPeer :: "federation_store \<Rightarrow> federation_peer \<Rightarrow> int \<Rightarrow> bool \<Rightarrow> federation_store" where
  "upsertPeer s p updatedAt clearRevocation =
     (let existing = map_get (fs_peers s) (pe_id p);
          createdAt = or_else (map_option pw_createdAt existing) updatedAt;
          revokedAt = (if clearRevocation then None
            else case pe_revokedAt p of Some t \<Rightarrow> Some t | None \<Rightarrow> Option.bind existing pw_revokedAt)
      in s\<lparr>fs_peers := map_set (fs_peers s) (pe_id p)
           \<lparr>pw_label = fp_label p, pw_role = fp_role p,
            pw_status = (if revokedAt = None then pe_status p else ''revoked''),
            pw_createdAt = createdAt, pw_updatedAt = updatedAt, pw_lastSeenAt = pl_lastActivityAt (fp_payload p),
            pw_revokedAt = revokedAt, pw_payload = fp_payload p\<rparr>\<rparr>)"

definition store_revokePeer :: "federation_store \<Rightarrow> string \<Rightarrow> int \<Rightarrow> federation_store" where
  "store_revokePeer s i revokedAt = (case map_get (fs_peers s) i of
     None \<Rightarrow> s
   | Some r \<Rightarrow> s\<lparr>fs_peers := map_set (fs_peers s) i
       (r\<lparr>pw_status := ''revoked'', pw_revokedAt := Some revokedAt, pw_updatedAt := revokedAt\<rparr>)\<rparr>)"

subsection \<open>Invites\<close>

text \<open>\<open>hmac\<close>: the hex digest of the text under the store's secret.\<close>

definition hmacToken :: "(string \<Rightarrow> string) \<Rightarrow> string \<Rightarrow> int \<Rightarrow> string" where
  "hmacToken hmac token generatedAt = hmac (token @ CHR 0x00 # int_text generatedAt)"

text \<open>An insert with an id that is already there throws.\<close>

definition createEnrollment ::
  "(string \<Rightarrow> string) \<Rightarrow> federation_store \<Rightarrow> string \<Rightarrow> string \<Rightarrow> int \<Rightarrow> int \<Rightarrow> string option \<Rightarrow> string option \<Rightarrow>
   string option \<Rightarrow> string option \<Rightarrow> federation_store" where
  "createEnrollment hmac s i token generatedAt expiresAt label role endpoint gatewayId =
     (if map_has (fs_enrollments s) i then s
      else s\<lparr>fs_enrollments := map_set (fs_enrollments s) i
        \<lparr>er_tokenHmac = hmacToken hmac token generatedAt, er_status = EnrollPending, er_generatedAt = generatedAt,
         er_expiresAt = expiresAt, er_usedAt = None, er_peerId = None, er_label = label, er_role = role,
         er_endpoint = endpoint, er_gatewayInstanceId = gatewayId\<rparr>\<rparr>)"

definition update_enrollment ::
  "federation_store \<Rightarrow> string \<Rightarrow> (enrollment_row \<Rightarrow> enrollment_row) \<Rightarrow> federation_store" where
  "update_enrollment s i f = (case map_get (fs_enrollments s) i of
     None \<Rightarrow> s | Some r \<Rightarrow> s\<lparr>fs_enrollments := map_set (fs_enrollments s) i (f r)\<rparr>)"

definition expireEnrollments :: "federation_store \<Rightarrow> int \<Rightarrow> federation_store" where
  "expireEnrollments s now = s\<lparr>fs_enrollments := map (\<lambda>(i, r).
     (i, if er_status r = EnrollPending \<and> er_expiresAt r \<le> now then r\<lparr>er_status := EnrollExpired\<rparr> else r)) (fs_enrollments s)\<rparr>"

definition findMatchingPendingEnrollment ::
  "(string \<Rightarrow> string) \<Rightarrow> federation_store \<Rightarrow> string \<Rightarrow> int \<Rightarrow> federation_store \<times> (string \<times> enrollment_row) option" where
  "findMatchingPendingEnrollment hmac s token now =
     (let s1 = expireEnrollments s now;
          rows = sort_key (\<lambda>(_, r). - er_generatedAt r)
            (filter (\<lambda>(_, r). er_status r = EnrollPending \<and> er_expiresAt r > now) (fs_enrollments s1))
      in (s1, find (\<lambda>(_, r). hmacToken hmac token (er_generatedAt r) = er_tokenHmac r) rows))"

definition markEnrollmentUsed :: "federation_store \<Rightarrow> string \<Rightarrow> string \<Rightarrow> int \<Rightarrow> federation_store" where
  "markEnrollmentUsed s i peer usedAt = update_enrollment s i (\<lambda>r. if er_status r = EnrollPending
     then r\<lparr>er_status := EnrollUsed, er_usedAt := Some usedAt, er_peerId := Some peer\<rparr> else r)"

definition revokePendingEnrollment :: "federation_store \<Rightarrow> string \<Rightarrow> federation_store" where
  "revokePendingEnrollment s i = update_enrollment s i
     (\<lambda>r. if er_status r = EnrollPending then r\<lparr>er_status := EnrollRevoked\<rparr> else r)"

subsection \<open>Signed messages\<close>

datatype proof_purpose = EnrollProof | ReconnectProof

fun purpose_text :: "proof_purpose \<Rightarrow> string" where
  "purpose_text EnrollProof = ''enroll''"
| "purpose_text ReconnectProof = ''reconnect''"

record federation_proof =
  pf_purpose :: proof_purpose
  pf_gatewayInstanceId :: string
  pf_peerInstanceId :: string
  pf_publicKeyPem :: string
  pf_protocolVersion :: int
  pf_nonce :: string
  pf_capabilities :: "string list"
  pf_channelBinding :: string

definition sorted_names :: "string list \<Rightarrow> json" where
  "sorted_names cs = JArr (map JStr (sort cs))"

definition buildFederationProofMessage :: "federation_proof \<Rightarrow> string" where
  "buildFederationProofMessage p = json_text (JObj [
     (''capabilities'', sorted_names (pf_capabilities p)),
     (''channelBinding'', JStr (pf_channelBinding p)),
     (''gatewayInstanceId'', JStr (pf_gatewayInstanceId p)),
     (''nonce'', JStr (pf_nonce p)),
     (''peerInstanceId'', JStr (pf_peerInstanceId p)),
     (''protocolVersion'', JNum (pf_protocolVersion p)),
     (''publicKeyPem'', JStr (pf_publicKeyPem p)),
     (''purpose'', JStr (purpose_text (pf_purpose p)))])"

definition buildFederationGatewayChallengeMessage :: "string \<Rightarrow> string \<Rightarrow> int \<Rightarrow> string \<Rightarrow> string" where
  "buildFederationGatewayChallengeMessage gatewayId key version nonce = json_text (JObj [
     (''gatewayInstanceId'', JStr gatewayId), (''gatewayPublicKeyPem'', JStr key), (''nonce'', JStr nonce),
     (''protocolVersion'', JNum version), (''purpose'', JStr ''gateway_challenge'')])"

record acceptance =
  ac_gatewayInstanceId :: string
  ac_peerInstanceId :: string
  ac_sessionId :: string
  ac_protocolVersion :: int
  ac_nonce :: string
  ac_capabilities :: "string list"

definition buildFederationGatewayAcceptedMessage :: "acceptance \<Rightarrow> string" where
  "buildFederationGatewayAcceptedMessage a = json_text (JObj [
     (''capabilities'', sorted_names (ac_capabilities a)), (''gatewayInstanceId'', JStr (ac_gatewayInstanceId a)),
     (''nonce'', JStr (ac_nonce a)), (''peerInstanceId'', JStr (ac_peerInstanceId a)),
     (''protocolVersion'', JNum (ac_protocolVersion a)), (''purpose'', JStr ''gateway_accepted''),
     (''sessionId'', JStr (ac_sessionId a))])"

subsection \<open>The gateway's decision\<close>

text \<open>
  \<open>verify\<close> is \<open>verifyFederationMessageSignature\<close>: a key, a message, a signature.
\<close>

record gateway_config =
  gc_instanceId :: string
  gc_publicKeyPem :: string
  gc_supportedCapabilities :: "string list option"
  gc_compressionEnabled :: "bool option"
  gc_verify :: "string \<Rightarrow> string \<Rightarrow> string \<Rightarrow> bool"
  gc_sign :: "string \<Rightarrow> string"
  gc_hmac :: "string \<Rightarrow> string"

datatype auth_mode = EnrollMode | ReconnectMode

record auth_message =
  am_mode :: auth_mode
  am_gatewayInstanceId :: string
  am_peerInstanceId :: string
  am_protocolVersion :: int
  am_nonce :: string
  am_capabilities :: "string list"
  am_signatureBase64 :: string
  am_inviteToken :: "string option"
  am_publicKeyPem :: "string option"
  am_label :: "string option"
  am_role :: "string option"
  am_endpoint :: "string option"
  am_profileName :: "string option"
  am_notes :: "string option"
  am_host :: "string option"
  am_receiverPermissions :: "string option"

type_synonym auth_decision = "redacted_failure + federation_peer \<times> string list"

definition grantable :: "gateway_config \<Rightarrow> string list \<Rightarrow> string list" where
  "grantable cfg cs = filter (\<lambda>c. case gc_supportedCapabilities cfg of None \<Rightarrow> True | Some supported \<Rightarrow> c \<in> set supported)
     (filterKnownFederationCapabilities cs)"

definition proof_of :: "gateway_config \<Rightarrow> proof_purpose \<Rightarrow> string \<Rightarrow> string \<Rightarrow> auth_message \<Rightarrow> federation_proof" where
  "proof_of cfg purpose key channel m = \<lparr>pf_purpose = purpose, pf_gatewayInstanceId = gc_instanceId cfg,
     pf_peerInstanceId = am_peerInstanceId m, pf_publicKeyPem = key, pf_protocolVersion = am_protocolVersion m,
     pf_nonce = am_nonce m, pf_capabilities = am_capabilities m, pf_channelBinding = channel\<rparr>"

definition completeFederationEnrollment ::
  "gateway_config \<Rightarrow> string \<Rightarrow> int \<Rightarrow> auth_message \<Rightarrow> string \<Rightarrow> string \<Rightarrow> string \<Rightarrow> federation_store \<Rightarrow>
   federation_store \<times> auth_decision" where
  "completeFederationEnrollment cfg channel now m token key role s =
     (if \<not> isFederationInstanceId (am_peerInstanceId m) then (s, Inl (federationFailure InvalidPeerId))
      else if am_protocolVersion m \<noteq> PROTOCOL_VERSION then (s, Inl (federationFailure InvalidProtocolVersion))
      else (case findMatchingPendingEnrollment (gc_hmac cfg) s token now of
          (s1, None) \<Rightarrow> (s1, Inl (federationFailure MissingInvite))
        | (s1, Some (i, r)) \<Rightarrow>
           (if truthy (er_gatewayInstanceId r) \<noteq> None \<and> er_gatewayInstanceId r \<noteq> Some (gc_instanceId cfg)
            then (s1, Inl (federationFailure WrongGateway))
            else if \<not> gc_verify cfg key (buildFederationProofMessage (proof_of cfg EnrollProof key channel m)) (am_signatureBase64 m)
            then (s1, Inl (federationFailure BadSignature))
            else let peer = \<lparr>pe_id = am_peerInstanceId m, pe_status = ''connected'', pe_revokedAt = None,
                   fp_label = or_else (am_label m) (am_peerInstanceId m), fp_role = role,
                   fp_payload = \<lparr>pl_capabilities = grantable cfg (am_capabilities m),
                     pl_protocolVersion = am_protocolVersion m,
                     pl_endpoint = (case am_endpoint m of Some e \<Rightarrow> Some e | None \<Rightarrow> er_endpoint r),
                     pl_profileName = am_profileName m, pl_notes = truthy (map_option js_trim (am_notes m)),
                     pl_host = am_host m, pl_receiverPermissions = am_receiverPermissions m,
                     pl_pinnedPublicKeyPem = Some key, pl_lastConnectedAt = Some now, pl_lastActivityAt = Some now,
                     pl_unavailableReason = None\<rparr>\<rparr>
              in (markEnrollmentUsed (upsertPeer s1 peer now True) i (am_peerInstanceId m) now,
                  Inr (peer, pl_capabilities (fp_payload peer))))))"

definition authenticateFederationReconnect ::
  "gateway_config \<Rightarrow> string \<Rightarrow> int \<Rightarrow> auth_message \<Rightarrow> federation_store \<Rightarrow> federation_store \<times> auth_decision" where
  "authenticateFederationReconnect cfg channel now m s =
     (if \<not> isFederationInstanceId (am_peerInstanceId m) then (s, Inl (federationFailure InvalidPeerId))
      else let stored = getPeer s (am_peerInstanceId m)
      in (case evaluateFederationSessionPolicy (map_option peer_summary.truncate stored) (am_protocolVersion m)
               (grantable cfg (am_capabilities m)) of
          Inl failure \<Rightarrow> (s, Inl failure)
        | Inr granted \<Rightarrow>
           (case (stored, Option.bind stored (\<lambda>p. truthy (pl_pinnedPublicKeyPem (fp_payload p)))) of
              (Some peer, Some key) \<Rightarrow>
               (if \<not> gc_verify cfg key (buildFederationProofMessage (proof_of cfg ReconnectProof key channel m)) (am_signatureBase64 m)
                then (s, Inl (federationFailure BadSignature))
                else let old = fp_payload peer;
                         connected = peer\<lparr>pe_status := ''connected'',
                           fp_label := or_else (truthy (map_option js_trim (am_label m))) (fp_label peer),
                           fp_payload := old\<lparr>pl_capabilities := granted, pl_protocolVersion := am_protocolVersion m,
                             pl_profileName := (case truthy (map_option js_trim (am_profileName m)) of
                                 Some t \<Rightarrow> Some t | None \<Rightarrow> pl_profileName old),
                             pl_notes := (case am_notes m of None \<Rightarrow> pl_notes old | Some t \<Rightarrow> truthy (Some (js_trim t))),
                             pl_host := (case am_host m of Some h \<Rightarrow> Some h | None \<Rightarrow> pl_host old),
                             pl_receiverPermissions := am_receiverPermissions m,
                             pl_lastConnectedAt := Some now, pl_lastActivityAt := Some now\<rparr>\<rparr>
                     in (upsertPeer s connected now False, Inr (connected, granted)))
            | _ \<Rightarrow> (s, Inl (federationFailure UnknownPeer)))))"

definition authenticate ::
  "gateway_config \<Rightarrow> string \<Rightarrow> int \<Rightarrow> auth_message \<Rightarrow> federation_store \<Rightarrow> federation_store \<times> auth_decision" where
  "authenticate cfg channel now m s =
     (if am_gatewayInstanceId m \<noteq> gc_instanceId cfg then (s, Inl (federationFailure WrongGateway))
      else if am_mode m = EnrollMode
      then (case (truthy (am_inviteToken m), truthy (am_publicKeyPem m), truthy (am_role m)) of
          (Some token, Some key, Some role) \<Rightarrow> completeFederationEnrollment cfg channel now m token key role s
        | _ \<Rightarrow> (s, Inl (federationFailure MissingInvite)))
      else authenticateFederationReconnect cfg channel now m s)"

subsection \<open>A connection at the gateway\<close>

record gateway =
  gw_store :: federation_store
  gw_sessions :: session_registry

datatype auth_reply = AuthRejected redacted_failure | AuthAccepted acceptance string | AuthClosed

text \<open>
  \<open>handleSocket\<close> from the reading of the answer to the challenge on. \<open>disabled\<close>: the route the socket
  came by has been switched off meanwhile; \<open>sid\<close>: the id drawn for the session.
\<close>

definition gateway_auth ::
  "gateway_config \<Rightarrow> string \<Rightarrow> string \<Rightarrow> int \<Rightarrow> string \<Rightarrow> bool \<Rightarrow> auth_message \<Rightarrow> gateway \<Rightarrow> gateway \<times> auth_reply" where
  "gateway_auth cfg challenge channel now sid disabled m g =
     (if am_nonce m \<noteq> challenge then (g, AuthRejected (federationFailure PolicyDenied))
      else (case authenticate cfg channel now m (gw_store g) of
          (s, Inl failure) \<Rightarrow> (g\<lparr>gw_store := s\<rparr>, AuthRejected failure)
        | (s, Inr (peer, granted)) \<Rightarrow>
           (let caps = (if gc_compressionEnabled cfg = Some False
                  then filter (\<lambda>c. c \<noteq> FEDERATION_BROTLI_CAPABILITY) granted else granted)
            in if disabled then (g\<lparr>gw_store := s\<rparr>, AuthClosed)
            else let a = \<lparr>ac_gatewayInstanceId = gc_instanceId cfg, ac_peerInstanceId = pe_id peer, ac_sessionId = sid,
                       ac_protocolVersion = PROTOCOL_VERSION, ac_nonce = challenge, ac_capabilities = caps\<rparr>
              in (\<lparr>gw_store = s, gw_sessions = fst (openSession (gw_sessions g) sid (pe_id peer) now caps)\<rparr>,
                  AuthAccepted a (gc_sign cfg (buildFederationGatewayAcceptedMessage a))))))"

definition invite_ttl :: "int option \<Rightarrow> int" where
  "invite_ttl ttl = max 60000 (min (or_else ttl 3600000) 86400000)"

definition generateInvite :: "gateway_config \<Rightarrow> string \<Rightarrow> string \<Rightarrow> int \<Rightarrow> int option \<Rightarrow> string option \<Rightarrow> string \<Rightarrow> gateway \<Rightarrow> gateway" where
  "generateInvite cfg i token now ttl label url g = g\<lparr>gw_store := createEnrollment (gc_hmac cfg) (gw_store g) i token now
     (now + invite_ttl ttl) label (Some ''client'') (Some url) (Some (gc_instanceId cfg))\<rparr>"

definition revokePeer :: "string \<Rightarrow> int \<Rightarrow> gateway \<Rightarrow> gateway" where
  "revokePeer p now g = (case getPeer (gw_store g) p of
     None \<Rightarrow> g
   | Some _ \<Rightarrow> \<lparr>gw_store = store_revokePeer (gw_store g) p now,
                gw_sessions = fst (closePeerSessions (gw_sessions g) p now CloseRevoked)\<rparr>)"

definition revokeEnrollment :: "string \<Rightarrow> int \<Rightarrow> gateway \<Rightarrow> gateway" where
  "revokeEnrollment i now g = (case map_get (fs_enrollments (gw_store g)) i of
     None \<Rightarrow> g
   | Some r \<Rightarrow> (if er_status r = EnrollPending then g\<lparr>gw_store := revokePendingEnrollment (gw_store g) i\<rparr>
       else (case truthy (er_peerId r) of
          None \<Rightarrow> g
        | Some p \<Rightarrow> (case getPeer (gw_store g) p of
            Some peer \<Rightarrow> (if pe_status peer \<noteq> ''revoked'' then revokePeer p now g else g)
          | None \<Rightarrow> g))))"

text \<open>What happens to a gateway.\<close>

datatype gateway_event =
    GwInvite string string int "int option" "string option" string
  | GwAuth string string int string bool auth_message
  | GwRevokePeer string int
  | GwRevokeEnrollment string int
  | GwSession session_event

fun gateway_step :: "gateway_config \<Rightarrow> gateway \<Rightarrow> gateway_event \<Rightarrow> gateway" where
  "gateway_step cfg g (GwInvite i token now ttl label url) = generateInvite cfg i token now ttl label url g"
| "gateway_step cfg g (GwAuth challenge channel now sid disabled m) = fst (gateway_auth cfg challenge channel now sid disabled m g)"
| "gateway_step cfg g (GwRevokePeer p now) = revokePeer p now g"
| "gateway_step cfg g (GwRevokeEnrollment i now) = revokeEnrollment i now g"
| "gateway_step cfg g (GwSession e) =
     (case e of SessOpen _ _ _ _ \<Rightarrow> g | _ \<Rightarrow> g\<lparr>gw_sessions := session_step (gw_sessions g) e\<rparr>)"

subsection \<open>A connection at the client\<close>

record client_params =
  cp_mode :: auth_mode
  cp_gatewayInstanceId :: string
  cp_gatewayPublicKeyPem :: string
  cp_publicKeyPem :: string
  cp_verify :: "string \<Rightarrow> string \<Rightarrow> string \<Rightarrow> bool"
  cp_sign :: "string \<Rightarrow> string"
  cp_message :: auth_message

record challenge_message =
  ch_gatewayInstanceId :: string
  ch_gatewayPublicKeyPem :: string
  ch_protocolVersion :: int
  ch_nonce :: string
  ch_signatureBase64 :: string

datatype client_error = InvalidChallenge | InvalidChallengeSignature | InvalidAcceptanceSignature

text \<open>
  \<open>cp_message\<close> holds what the client says about itself; the fields of the exchange are filled in by
  \<open>client_answer\<close>.
\<close>

definition gateway_challenge :: "gateway_config \<Rightarrow> string \<Rightarrow> challenge_message" where
  "gateway_challenge cfg nonce = \<lparr>ch_gatewayInstanceId = gc_instanceId cfg, ch_gatewayPublicKeyPem = gc_publicKeyPem cfg,
     ch_protocolVersion = PROTOCOL_VERSION, ch_nonce = nonce,
     ch_signatureBase64 = gc_sign cfg (buildFederationGatewayChallengeMessage (gc_instanceId cfg) (gc_publicKeyPem cfg)
       PROTOCOL_VERSION nonce)\<rparr>"

definition client_answer :: "client_params \<Rightarrow> string \<Rightarrow> challenge_message \<Rightarrow> client_error + auth_message" where
  "client_answer p channel c =
     (if ch_gatewayInstanceId c \<noteq> cp_gatewayInstanceId p \<or> ch_gatewayPublicKeyPem c \<noteq> cp_gatewayPublicKeyPem p
         \<or> ch_protocolVersion c \<noteq> PROTOCOL_VERSION then Inl InvalidChallenge
      else if \<not> cp_verify p (cp_gatewayPublicKeyPem p)
          (buildFederationGatewayChallengeMessage (ch_gatewayInstanceId c) (ch_gatewayPublicKeyPem c) (ch_protocolVersion c) (ch_nonce c))
          (ch_signatureBase64 c) then Inl InvalidChallengeSignature
      else let m = cp_message p in
        Inr (m\<lparr>am_mode := cp_mode p, am_gatewayInstanceId := cp_gatewayInstanceId p, am_protocolVersion := PROTOCOL_VERSION,
          am_nonce := ch_nonce c,
          am_signatureBase64 := cp_sign p (buildFederationProofMessage
            \<lparr>pf_purpose = (if cp_mode p = EnrollMode then EnrollProof else ReconnectProof),
             pf_gatewayInstanceId = cp_gatewayInstanceId p, pf_peerInstanceId = am_peerInstanceId m,
             pf_publicKeyPem = cp_publicKeyPem p, pf_protocolVersion = PROTOCOL_VERSION,
             pf_nonce = ch_nonce c, pf_capabilities = am_capabilities m, pf_channelBinding = channel\<rparr>),
          am_publicKeyPem := (if cp_mode p = EnrollMode then Some (cp_publicKeyPem p) else None)\<rparr>))"

definition client_accept :: "client_params \<Rightarrow> string \<Rightarrow> acceptance \<Rightarrow> string \<Rightarrow> client_error + string \<times> string list" where
  "client_accept p nonce a signature =
     (if ac_gatewayInstanceId a = cp_gatewayInstanceId p \<and> ac_nonce a = nonce \<and> ac_protocolVersion a = PROTOCOL_VERSION
         \<and> cp_verify p (cp_gatewayPublicKeyPem p)
             (buildFederationGatewayAcceptedMessage (a\<lparr>ac_peerInstanceId := am_peerInstanceId (cp_message p)\<rparr>)) signature
      then Inr (ac_sessionId a, filterKnownFederationCapabilities (ac_capabilities a))
      else Inl InvalidAcceptanceSignature)"

end
