(* ===== verification/OneTimeTokens.thy ===== *)
theory OneTimeTokens
  imports Main
begin

text \<open>
  What a table of one-time tokens promises whoever hands the tokens out: a token is redeemed at most
  once, in time, and never after it was spent, expired or withdrawn. The invites of a federation
  gateway and the pairing codes of the messaging runtime interpret the locale.
\<close>

text \<open>The redemptions of a run, in order: the token and the time at which it was redeemed.\<close>

fun redemptions :: "('s \<Rightarrow> 'e \<Rightarrow> 's) \<Rightarrow> ('s \<Rightarrow> 'e \<Rightarrow> ('i \<times> int) option) \<Rightarrow> 's \<Rightarrow> 'e list \<Rightarrow> ('i \<times> int) list" where
  "redemptions step redeems s [] = []"
| "redemptions step redeems s (e # es) =
     (case redeems s e of None \<Rightarrow> [] | Some x \<Rightarrow> [x]) @ redemptions step redeems (step s e) es"

lemma redemptions_snoc:
  "redemptions step redeems s (es @ [e]) = redemptions step redeems s es
     @ (case redeems (foldl step s es) e of None \<Rightarrow> [] | Some x \<Rightarrow> [x])"
  by (induction es arbitrary: s) (simp_all split: option.splits)

locale one_time_tokens =
  fixes step :: "'s \<Rightarrow> 'e \<Rightarrow> 's"
    and redeems :: "'s \<Rightarrow> 'e \<Rightarrow> ('i \<times> int) option"
    and issued :: "'s \<Rightarrow> 'i \<Rightarrow> bool"
    and pending :: "'s \<Rightarrow> 'i \<Rightarrow> bool"
    and deadline :: "'s \<Rightarrow> 'i \<Rightarrow> int"
    and ok :: "'s \<Rightarrow> bool"
  assumes ok_step: "ok s \<Longrightarrow> ok (step s e)"
    and pending_issued: "pending s i \<Longrightarrow> issued s i"
    and redeemed_pending: "ok s \<Longrightarrow> redeems s e = Some (i, now) \<Longrightarrow> pending s i \<and> now < deadline s i"
    and redeemed_spent: "ok s \<Longrightarrow> redeems s e = Some (i, now) \<Longrightarrow> \<not> pending (step s e) i"
    and issued_stays: "ok s \<Longrightarrow> issued s i \<Longrightarrow> issued (step s e) i \<and> deadline (step s e) i = deadline s i"
    and never_revived: "ok s \<Longrightarrow> issued s i \<Longrightarrow> \<not> pending s i \<Longrightarrow> \<not> pending (step s e) i"
begin

lemma run_ok: "ok s \<Longrightarrow> ok (foldl step s es)"
  by (induction es arbitrary: s) (simp_all add: ok_step)

lemma run_issued:
  "ok s \<Longrightarrow> issued s i \<Longrightarrow> issued (foldl step s es) i \<and> deadline (foldl step s es) i = deadline s i"
  by (induction es arbitrary: s) (simp_all add: ok_step issued_stays)

lemma spent_stays: "ok s \<Longrightarrow> issued s i \<Longrightarrow> \<not> pending s i \<Longrightarrow> \<not> pending (foldl step s es) i"
  by (induction es arbitrary: s) (simp_all add: ok_step issued_stays never_revived)

lemma spent_never_redeemed:
  "ok s \<Longrightarrow> issued s i \<Longrightarrow> \<not> pending s i \<Longrightarrow> i \<notin> fst ` set (redemptions step redeems s es)"
proof (induction es arbitrary: s)
  case (Cons e es)
  then have "i \<notin> fst ` set (redemptions step redeems (step s e) es)"
    by (simp add: ok_step issued_stays never_revived)
  moreover have "\<forall>now. redeems s e \<noteq> Some (i, now)" using Cons.prems redeemed_pending by blast
  ultimately show ?case by (cases "redeems s e") auto
qed simp

theorem redeemed_once: "ok s \<Longrightarrow> distinct (map fst (redemptions step redeems s es))"
proof (induction es arbitrary: s)
  case (Cons e es)
  show ?case
  proof (cases "redeems s e")
    case None
    then show ?thesis using Cons ok_step by simp
  next
    case (Some x)
    then have "issued (step s e) (fst x)" "\<not> pending (step s e) (fst x)"
      using Cons.prems redeemed_pending redeemed_spent pending_issued issued_stays by (metis prod.collapse)+
    then have "fst x \<notin> fst ` set (redemptions step redeems (step s e) es)"
      using Cons.prems ok_step spent_never_redeemed by blast
    then show ?thesis using Some Cons ok_step by simp
  qed
qed simp

theorem redeemed_in_time:
  "ok s \<Longrightarrow> (i, now) \<in> set (redemptions step redeems s es) \<Longrightarrow>
   issued (foldl step s es) i \<and> now < deadline (foldl step s es) i"
proof (induction es arbitrary: s)
  case (Cons e es)
  show ?case
  proof (cases "redeems s e = Some (i, now)")
    case True
    then have "issued s i" "now < deadline s i" using Cons.prems redeemed_pending pending_issued by blast+
    then show ?thesis using run_issued [OF Cons.prems(1), of i "e # es"] by simp
  next
    case False
    then have "(i, now) \<in> set (redemptions step redeems (step s e) es)"
      using Cons.prems(2) by (auto split: option.splits)
    then show ?thesis using Cons.IH Cons.prems(1) ok_step by simp
  qed
qed simp

end

end
