(* ===== verification/FederationEnrollmentProps.thy ===== *)
theory FederationEnrollmentProps
  imports FederationEnrollment OneTimeTokens
begin

text \<open>
  What holds of enrollment and reconnection: an invite enrolls at most one peer, in time; a revoked
  peer stays out until it is invited again; a session is only given for a proof signed for this very
  connection with the peer's pinned key; and both ends of an honest exchange agree on the session.
\<close>

declare map_of_eq_Some_iff [simp del]

subsection \<open>The tables\<close>

definition enrollment :: "gateway \<Rightarrow> string \<Rightarrow> enrollment_row option" where
  "enrollment g i = map_get (fs_enrollments (gw_store g)) i"

definition tables_ok :: "gateway \<Rightarrow> bool" where
  "tables_ok g \<longleftrightarrow> wf_map (fs_enrollments (gw_store g))
     \<and> registry_filed (gw_sessions g) \<and> one_active (gw_sessions g)"

definition gateway_new :: gateway where
  "gateway_new = \<lparr>gw_store = \<lparr>fs_peers = [], fs_enrollments = []\<rparr>, gw_sessions = []\<rparr>"

lemma upsertPeer_enrollments [simp]: "fs_enrollments (upsertPeer s p t c) = fs_enrollments s"
  by (simp add: upsertPeer_def Let_def)

lemma store_revokePeer_enrollments [simp]: "fs_enrollments (store_revokePeer s p t) = fs_enrollments s"
  by (simp add: store_revokePeer_def split: option.splits)

lemma enrollment_ops_peers [simp]:
  "fs_peers (expireEnrollments s now) = fs_peers s" "fs_peers (markEnrollmentUsed s i p t) = fs_peers s"
  "fs_peers (revokePendingEnrollment s i) = fs_peers s" "fs_peers (createEnrollment h s i tok g e l r ep gw) = fs_peers s"
  by (auto simp: expireEnrollments_def markEnrollmentUsed_def revokePendingEnrollment_def createEnrollment_def
      update_enrollment_def split: option.splits)

definition expire_row :: "int \<Rightarrow> enrollment_row \<Rightarrow> enrollment_row" where
  "expire_row now r = (if er_status r = EnrollPending \<and> er_expiresAt r \<le> now then r\<lparr>er_status := EnrollExpired\<rparr> else r)"

lemma expireEnrollments_get:
  "map_get (fs_enrollments (expireEnrollments s now)) i = map_option (expire_row now) (map_get (fs_enrollments s) i)"
  "map_keys (fs_enrollments (expireEnrollments s now)) = map_keys (fs_enrollments s)"
proof -
  have "fs_enrollments (expireEnrollments s now) = map (\<lambda>(i, r). (i, expire_row now r)) (fs_enrollments s)"
    by (simp add: expireEnrollments_def expire_row_def [abs_def])
  then show "map_get (fs_enrollments (expireEnrollments s now)) i = map_option (expire_row now) (map_get (fs_enrollments s) i)"
    "map_keys (fs_enrollments (expireEnrollments s now)) = map_keys (fs_enrollments s)"
    by (simp_all only: map_get_map) (simp add: case_prod_unfold comp_def)
qed

lemma update_enrollment_get:
  "map_get (fs_enrollments (update_enrollment s i f)) j =
     (if j = i then map_option f (map_get (fs_enrollments s) i) else map_get (fs_enrollments s) j)"
  "wf_map (fs_enrollments s) \<Longrightarrow> wf_map (fs_enrollments (update_enrollment s i f))"
  by (auto simp: update_enrollment_def split: option.splits)

text \<open>A matching invite is a row of the table, pending and in time.\<close>

lemma findMatching_store: "fst (findMatchingPendingEnrollment h s token now) = expireEnrollments s now"
  by (simp add: findMatchingPendingEnrollment_def Let_def)

lemma findMatching_row:
  assumes "wf_map (fs_enrollments s)" "snd (findMatchingPendingEnrollment h s token now) = Some (i, r)"
  shows "map_get (fs_enrollments s) i = Some r \<and> er_status r = EnrollPending \<and> now < er_expiresAt r
    \<and> hmacToken h token (er_generatedAt r) = er_tokenHmac r"
proof -
  have f: "(i, r) \<in> set (fs_enrollments (expireEnrollments s now))" "er_status r = EnrollPending" "now < er_expiresAt r"
    "hmacToken h token (er_generatedAt r) = er_tokenHmac r"
    using assms(2) by (auto simp: findMatchingPendingEnrollment_def Let_def dest!: find_in)
  have "wf_map (fs_enrollments (expireEnrollments s now))" using assms(1) by (simp only: expireEnrollments_get(2))
  then have "map_get (fs_enrollments (expireEnrollments s now)) i = Some r" using f(1) wf_map_get_in by fast
  then obtain r' where r': "map_get (fs_enrollments s) i = Some r'" "r = expire_row now r'"
    by (auto simp: expireEnrollments_get(1))
  then have "r = r'" using f(2) by (auto simp: expire_row_def split: if_splits)
  then show ?thesis using f(2-4) r' by simp
qed

subsection \<open>What an authentication does\<close>

lemma authenticate_cases:
  assumes "authenticate cfg channel now m s = (s', d)"
  obtains (refused) f where "d = Inl f" "s' = s \<or> s' = expireEnrollments s now"
  | (enrolled) token key i r peer where "am_mode m = EnrollMode" "truthy (am_inviteToken m) = Some token"
      "truthy (am_publicKeyPem m) = Some key"
      "snd (findMatchingPendingEnrollment (gc_hmac cfg) s token now) = Some (i, r)"
      "d = Inr (peer, pl_capabilities (fp_payload peer))" "pe_id peer = am_peerInstanceId m" "pe_status peer = ''connected''"
      "pl_pinnedPublicKeyPem (fp_payload peer) = Some key" "pl_capabilities (fp_payload peer) = grantable cfg (am_capabilities m)"
      "gc_verify cfg key (buildFederationProofMessage (proof_of cfg EnrollProof key channel m)) (am_signatureBase64 m)"
      "s' = markEnrollmentUsed (upsertPeer (expireEnrollments s now) peer now True) i (am_peerInstanceId m) now"
      "isFederationInstanceId (am_peerInstanceId m)"
  | (reconnected) key stored peer where "am_mode m = ReconnectMode" "getPeer s (am_peerInstanceId m) = Some stored"
      "truthy (pl_pinnedPublicKeyPem (fp_payload stored)) = Some key"
      "pe_status stored \<noteq> ''revoked''" "pe_revokedAt stored = None"
      "d = Inr (peer, grantable cfg (am_capabilities m))" "pe_id peer = am_peerInstanceId m"
      "pe_revokedAt peer = None" "pe_status peer = ''connected''"
      "pl_pinnedPublicKeyPem (fp_payload peer) = pl_pinnedPublicKeyPem (fp_payload stored)"
      "gc_verify cfg key (buildFederationProofMessage (proof_of cfg ReconnectProof key channel m)) (am_signatureBase64 m)"
      "s' = upsertPeer s peer now False" "am_protocolVersion m = PROTOCOL_VERSION"
proof (cases "am_gatewayInstanceId m \<noteq> gc_instanceId cfg")
  case True
  then show thesis using assms that(1) by (auto simp: authenticate_def)
next
  case False
  note gw = False
  show thesis
  proof (cases "am_mode m")
    case EnrollMode
    show thesis
    proof (cases "truthy (am_inviteToken m) = None \<or> truthy (am_publicKeyPem m) = None \<or> truthy (am_role m) = None")
      case True
      then show thesis using assms that(1) EnrollMode gw by (auto simp: authenticate_def split: option.splits)
    next
      case False
      then obtain token key role where t: "truthy (am_inviteToken m) = Some token" "truthy (am_publicKeyPem m) = Some key"
        "truthy (am_role m) = Some role" by auto
      have a: "completeFederationEnrollment cfg channel now m token key role s = (s', d)"
        using assms EnrollMode gw t by (simp add: authenticate_def)
      obtain found where f: "findMatchingPendingEnrollment (gc_hmac cfg) s token now = (expireEnrollments s now, found)"
        using findMatching_store by (metis prod.collapse)
      show thesis
      proof (cases "d")
        case (Inl x)
        then show thesis using a that(1) f
          by (auto simp: completeFederationEnrollment_def Let_def split: if_splits option.splits prod.splits)
      next
        case (Inr x)
        then show thesis
          using a f by (intro that(2) [of token key "fst (the found)" "snd (the found)" "fst x"])
            (auto simp: completeFederationEnrollment_def Let_def EnrollMode t split: if_splits option.splits prod.splits)
      qed
    qed
  next
    case ReconnectMode
    have a: "authenticateFederationReconnect cfg channel now m s = (s', d)"
      using assms ReconnectMode gw by (simp add: authenticate_def)
    show thesis
    proof (cases d)
      case (Inl x)
      then show thesis using a that(1)
        by (auto simp: authenticateFederationReconnect_def Let_def split: if_splits option.splits sum.splits)
    next
      case (Inr x)
      obtain stored where st: "getPeer s (am_peerInstanceId m) = Some stored" "isFederationInstanceId (am_peerInstanceId m)"
        using a Inr by (auto simp: authenticateFederationReconnect_def Let_def evaluateFederationSessionPolicy_def
            split: if_splits option.splits sum.splits)
      have ids: "pe_id stored = am_peerInstanceId m" using st by (auto simp: getPeer_def rowToPeer_def)
      show thesis
        using a Inr st ids
        by (intro that(3) [of stored "the (truthy (pl_pinnedPublicKeyPem (fp_payload stored)))" "fst x"])
          (auto simp: authenticateFederationReconnect_def Let_def evaluateFederationSessionPolicy_def ReconnectMode
            peer_summary.truncate_def split: if_splits option.splits sum.splits)
    qed
  qed
qed

subsection \<open>Invites are one-time tokens\<close>

text \<open>What may happen to the row of an invite: nothing once it is not pending.\<close>

definition row_evolves :: "enrollment_row \<Rightarrow> enrollment_row \<Rightarrow> bool" where
  "row_evolves r r' \<longleftrightarrow> er_expiresAt r' = er_expiresAt r \<and> er_generatedAt r' = er_generatedAt r
     \<and> er_tokenHmac r' = er_tokenHmac r \<and> er_gatewayInstanceId r' = er_gatewayInstanceId r
     \<and> (er_status r \<noteq> EnrollPending \<longrightarrow> r' = r)"

lemma row_evolves_intros:
  "row_evolves r r" "row_evolves r (expire_row now r)" "row_evolves r r' \<Longrightarrow> row_evolves r' r'' \<Longrightarrow> row_evolves r r''"
  by (auto simp: row_evolves_def expire_row_def)

lemma mark_evolves:
  "map_get (fs_enrollments s) i = Some r \<Longrightarrow>
   \<exists>r'. map_get (fs_enrollments (markEnrollmentUsed s j p now)) i = Some r' \<and> row_evolves r r'"
  "map_get (fs_enrollments s) i = Some r \<Longrightarrow>
   \<exists>r'. map_get (fs_enrollments (revokePendingEnrollment s j)) i = Some r' \<and> row_evolves r r'"
  "map_get (fs_enrollments s) i = Some r \<Longrightarrow>
   \<exists>r'. map_get (fs_enrollments (expireEnrollments s now)) i = Some r' \<and> row_evolves r r'"
proof -
  show "\<exists>r'. map_get (fs_enrollments (markEnrollmentUsed s j p now)) i = Some r' \<and> row_evolves r r'"
    if "map_get (fs_enrollments s) i = Some r"
    by (cases "j = i"; cases "er_status r = EnrollPending")
      (use that in \<open>simp_all add: markEnrollmentUsed_def update_enrollment_get row_evolves_def\<close>)
  show "\<exists>r'. map_get (fs_enrollments (revokePendingEnrollment s j)) i = Some r' \<and> row_evolves r r'"
    if "map_get (fs_enrollments s) i = Some r"
    by (cases "j = i"; cases "er_status r = EnrollPending")
      (use that in \<open>simp_all add: revokePendingEnrollment_def update_enrollment_get row_evolves_def\<close>)
  show "\<exists>r'. map_get (fs_enrollments (expireEnrollments s now)) i = Some r' \<and> row_evolves r r'"
    if "map_get (fs_enrollments s) i = Some r"
    using that row_evolves_intros(2) by (simp add: expireEnrollments_get)
qed

lemma gateway_auth_store:
  "gw_store (fst (gateway_auth cfg challenge channel now sid disabled m g)) =
     (if am_nonce m = challenge then fst (authenticate cfg channel now m (gw_store g)) else gw_store g)"
  by (auto simp: gateway_auth_def Let_def split: prod.splits sum.splits)

lemma authenticate_evolves:
  assumes "map_get (fs_enrollments s) i = Some r"
  shows "\<exists>r'. map_get (fs_enrollments (fst (authenticate cfg channel now m s))) i = Some r' \<and> row_evolves r r'"
proof -
  obtain s' d where a: "authenticate cfg channel now m s = (s', d)" by fastforce
  have e: "\<exists>r'. map_get (fs_enrollments (expireEnrollments s now)) i = Some r' \<and> row_evolves r r'"
    using mark_evolves(3) assms by blast
  from a show ?thesis
  proof (cases rule: authenticate_cases)
    case (refused f)
    then show ?thesis using a e assms row_evolves_intros(1) by auto
  next
    case (enrolled token key j r' peer)
    obtain r1 where r1: "map_get (fs_enrollments (expireEnrollments s now)) i = Some r1" "row_evolves r r1" using e by blast
    have "map_get (fs_enrollments (upsertPeer (expireEnrollments s now) peer now True)) i = Some r1" using r1 by simp
    then show ?thesis using a enrolled(11) mark_evolves(1) row_evolves_intros(3) [OF r1(2)] by (metis fst_conv)
  next
    case (reconnected key stored peer)
    then show ?thesis using a assms row_evolves_intros(1) by auto
  qed
qed

lemma revokePeer_enrollment [simp]: "enrollment (revokePeer p now g) i = enrollment g i"
  by (simp add: revokePeer_def enrollment_def split: option.splits)

lemma step_evolves:
  assumes "enrollment g i = Some r"
  shows "\<exists>r'. enrollment (gateway_step cfg g e) i = Some r' \<and> row_evolves r r'"
proof (cases e)
  case (GwInvite j token now ttl label url)
  then show ?thesis using assms row_evolves_intros(1)
    by (auto simp: enrollment_def generateInvite_def createEnrollment_def map_has_def)
next
  case (GwAuth challenge channel now sid disabled m)
  then show ?thesis using assms authenticate_evolves row_evolves_intros(1)
    by (auto simp: enrollment_def gateway_auth_store)
next
  case (GwRevokeEnrollment j now)
  then show ?thesis using assms mark_evolves(2) [of "gw_store g" i r] row_evolves_intros(1)
    by (auto simp: revokeEnrollment_def enrollment_def revokePeer_def split: option.splits)
next
  case (GwSession ev)
  then show ?thesis using assms row_evolves_intros(1) by (cases ev) (auto simp: enrollment_def)
qed (use assms row_evolves_intros(1) in auto)

text \<open>The invite an event redeems.\<close>

definition enrolls :: "gateway_config \<Rightarrow> gateway \<Rightarrow> gateway_event \<Rightarrow> (string \<times> int) option" where
  "enrolls cfg g e = (case e of
     GwAuth challenge channel now sid disabled m \<Rightarrow>
      (if am_nonce m = challenge \<and> am_mode m = EnrollMode then
        (case snd (authenticate cfg channel now m (gw_store g)) of
           Inl _ \<Rightarrow> None
         | Inr _ \<Rightarrow> map_option (\<lambda>(i, _). (i, now))
             (snd (findMatchingPendingEnrollment (gc_hmac cfg) (gw_store g) (or_else (am_inviteToken m) []) now)))
       else None)
   | _ \<Rightarrow> None)"

lemma truthy_text_Some: "truthy t = Some v \<Longrightarrow> t = Some v"
  by (simp add: truthy_def split: if_splits)

lemma enrolls_Some:
  assumes "tables_ok g" "enrolls cfg g e = Some (i, now)"
  obtains challenge channel sid disabled m key r peer where "e = GwAuth challenge channel now sid disabled m"
    "am_nonce m = challenge" "enrollment g i = Some r" "er_status r = EnrollPending" "now < er_expiresAt r"
    "pe_id peer = am_peerInstanceId m" "am_publicKeyPem m = Some key"
    "hmacToken (gc_hmac cfg) (or_else (am_inviteToken m) []) (er_generatedAt r) = er_tokenHmac r"
    "gw_store (gateway_step cfg g e) =
       markEnrollmentUsed (upsertPeer (expireEnrollments (gw_store g) now) peer now True) i (am_peerInstanceId m) now"
    "gc_verify cfg key (buildFederationProofMessage (proof_of cfg EnrollProof key channel m)) (am_signatureBase64 m)"
proof -
  obtain challenge channel now' sid disabled m where e: "e = GwAuth challenge channel now' sid disabled m"
    "am_nonce m = challenge" "am_mode m = EnrollMode"
    using assms(2) by (auto simp: enrolls_def split: gateway_event.splits if_splits)
  obtain s' d where a: "authenticate cfg channel now' m (gw_store g) = (s', d)" by fastforce
  from a show thesis
  proof (cases rule: authenticate_cases)
    case (enrolled token key j r peer)
    have tok: "or_else (am_inviteToken m) [] = token" using truthy_text_Some [OF enrolled(2)] by (simp add: or_else_def)
    have "enrolls cfg g e = Some (j, now')" using e enrolled(4,5) a tok by (simp add: enrolls_def)
    then have n: "now' = now" "j = i" using assms(2) by simp_all
    have row: "enrollment g i = Some r \<and> er_status r = EnrollPending \<and> now < er_expiresAt r
        \<and> hmacToken (gc_hmac cfg) token (er_generatedAt r) = er_tokenHmac r"
      using findMatching_row [of "gw_store g"] assms(1) enrolled(4) n by (simp add: tables_ok_def enrollment_def)
    have st: "gw_store (gateway_step cfg g e) = s'" using e a by (simp add: gateway_auth_store)
    show thesis
      by (rule that [of challenge channel sid disabled m r peer key])
        (use e(1,2) n row enrolled(6,10,11) st tok truthy_text_Some [OF enrolled(3)] in simp_all)
  next
    case (refused f)
    then show thesis using assms(2) e a by (simp add: enrolls_def)
  next
    case (reconnected key stored peer)
    then show thesis using e(3) by simp
  qed
qed

lemma enrollments_wf:
  "wf_map (fs_enrollments (expireEnrollments s now)) \<longleftrightarrow> wf_map (fs_enrollments s)"
  "wf_map (fs_enrollments s) \<Longrightarrow> wf_map (fs_enrollments (markEnrollmentUsed s i p now))"
  "wf_map (fs_enrollments s) \<Longrightarrow> wf_map (fs_enrollments (revokePendingEnrollment s i))"
  "wf_map (fs_enrollments s) \<Longrightarrow> wf_map (fs_enrollments (fst (authenticate cfg channel now m s)))"
proof -
  show e: "wf_map (fs_enrollments (expireEnrollments s now)) \<longleftrightarrow> wf_map (fs_enrollments s)" for s
    by (simp only: expireEnrollments_get(2))
  show u: "wf_map (fs_enrollments s) \<Longrightarrow> wf_map (fs_enrollments (markEnrollmentUsed s i p now))"
    "wf_map (fs_enrollments s) \<Longrightarrow> wf_map (fs_enrollments (revokePendingEnrollment s i))" for s i p
    by (simp_all add: markEnrollmentUsed_def revokePendingEnrollment_def update_enrollment_get(2))
  assume w: "wf_map (fs_enrollments s)"
  obtain s' d where a: "authenticate cfg channel now m s = (s', d)" by fastforce
  from a show "wf_map (fs_enrollments (fst (authenticate cfg channel now m s)))"
    by (cases rule: authenticate_cases) (use a w e u in auto)
qed

text \<open>The registry of sessions changes by one of its own steps.\<close>

definition admits :: "gateway_config \<Rightarrow> gateway \<Rightarrow> gateway_event \<Rightarrow> string option" where
  "admits cfg g e = (case e of
     GwAuth challenge channel now sid disabled m \<Rightarrow>
      (if am_nonce m = challenge \<and> (\<exists>x. snd (authenticate cfg channel now m (gw_store g)) = Inr x) then Some (am_peerInstanceId m) else None)
   | _ \<Rightarrow> None)"

lemma authenticate_peer: "authenticate cfg channel now m s = (s', Inr (peer, caps)) \<Longrightarrow> pe_id peer = am_peerInstanceId m"
  by (cases rule: authenticate_cases [of cfg channel now m s s' "Inr (peer, caps)"]) auto

lemma auth_sessions:
  assumes "e = GwAuth challenge channel now sid disabled m"
  shows "gw_sessions (gateway_step cfg g e) = gw_sessions g
    \<or> admits cfg g e = Some (am_peerInstanceId m)
      \<and> (\<exists>caps. gw_sessions (gateway_step cfg g e) = session_step (gw_sessions g) (SessOpen sid (am_peerInstanceId m) now caps))"
  using assms authenticate_peer
  by (auto simp: gateway_auth_def admits_def Let_def split: prod.splits sum.splits)

lemma sessions_step:
  obtains ev where "gw_sessions (gateway_step cfg g e) = session_step (gw_sessions g) ev"
      "\<And>sid p now caps. ev = SessOpen sid p now caps \<Longrightarrow> admits cfg g e = Some p"
  | "gw_sessions (gateway_step cfg g e) = gw_sessions g"
proof (cases e)
  case (GwAuth challenge channel now sid disabled m)
  then show thesis using auth_sessions [OF GwAuth, of cfg g] that by (metis session_event.inject(1))
next
  case (GwRevokePeer p now)
  then show thesis using that(1) [of "SessClosePeer p now CloseRevoked"] that(2)
    by (cases "getPeer (gw_store g) p") (auto simp: revokePeer_def)
next
  case (GwRevokeEnrollment i now)
  show thesis
  proof (cases "gw_sessions (gateway_step cfg g e) = gw_sessions g")
    case False
    then obtain p where "gw_sessions (gateway_step cfg g e) = session_step (gw_sessions g) (SessClosePeer p now CloseRevoked)"
      using GwRevokeEnrollment by (auto simp: revokeEnrollment_def revokePeer_def split: option.splits if_splits)
    then show thesis using that(1) by blast
  qed (rule that(2))
next
  case (GwSession ev)
  show thesis
  proof (cases "\<exists>sid p now caps. ev = SessOpen sid p now caps")
    case True
    then show thesis using that(2) GwSession by auto
  next
    case False
    then have "gw_sessions (gateway_step cfg g e) = session_step (gw_sessions g) ev" using GwSession by (cases ev) auto
    then show thesis using that(1) False by blast
  qed
qed (use that(2) in \<open>simp add: generateInvite_def\<close>)

lemma tables_ok_step:
  assumes "tables_ok g"
  shows "tables_ok (gateway_step cfg g e)"
proof -
  have s: "registry_filed (gw_sessions (gateway_step cfg g e)) \<and> one_active (gw_sessions (gateway_step cfg g e))"
    using assms by (cases rule: sessions_step [of cfg g e]) (auto simp: tables_ok_def session_step_ok)
  have "wf_map (fs_enrollments (gw_store g)) \<Longrightarrow> wf_map (fs_enrollments (gw_store (gateway_step cfg g e)))"
  proof (cases e)
    case (GwSession ev)
    then show "wf_map (fs_enrollments (gw_store g)) \<Longrightarrow> ?thesis" by (cases ev) auto
  qed (auto simp: generateInvite_def createEnrollment_def gateway_auth_store enrollments_wf revokePeer_def revokeEnrollment_def
      split: option.splits)
  then show ?thesis using assms s by (simp add: tables_ok_def)
qed

lemma tables_ok_new: "tables_ok gateway_new"
  by (simp add: tables_ok_def gateway_new_def registry_filed_def one_active_def)

definition pending_invite :: "gateway \<Rightarrow> string \<Rightarrow> bool" where
  "pending_invite g i \<longleftrightarrow> (case enrollment g i of None \<Rightarrow> False | Some r \<Rightarrow> er_status r = EnrollPending)"

lemma spent_row:
  assumes "tables_ok g" "enrolls cfg g e = Some (i, now)"
  shows "\<exists>r. enrollment (gateway_step cfg g e) i = Some r \<and> er_status r = EnrollUsed
    \<and> (\<exists>p. er_peerId r = Some p \<and> admits cfg g e = Some p)"
proof -
  obtain s' d challenge channel sid disabled m key r peer where e: "e = GwAuth challenge channel now sid disabled m"
    "am_nonce m = challenge" "enrollment g i = Some r" "er_status r = EnrollPending" "now < er_expiresAt r"
    "gw_store (gateway_step cfg g e) =
       markEnrollmentUsed (upsertPeer (expireEnrollments (gw_store g) now) peer now True) i (am_peerInstanceId m) now"
    using enrolls_Some [OF assms] by metis
  have "admits cfg g e = Some (am_peerInstanceId m)"
    using assms(2) e(1,2) by (auto simp: enrolls_def admits_def split: sum.splits)
  then show ?thesis using e by (simp add: enrollment_def markEnrollmentUsed_def update_enrollment_get expireEnrollments_get expire_row_def)
qed

interpretation invites: one_time_tokens "gateway_step cfg" "enrolls cfg" "\<lambda>g i. enrollment g i \<noteq> None" pending_invite
  "\<lambda>g i. er_expiresAt (the (enrollment g i))" tables_ok for cfg
proof unfold_locales
  fix g e i now
  show "tables_ok g \<Longrightarrow> tables_ok (gateway_step cfg g e)" by (rule tables_ok_step)
  show "pending_invite g i \<Longrightarrow> enrollment g i \<noteq> None" by (auto simp: pending_invite_def split: option.splits)
  show "pending_invite g i \<and> now < er_expiresAt (the (enrollment g i))"
    if t: "tables_ok g" "enrolls cfg g e = Some (i, now)"
  proof -
    obtain r where "enrollment g i = Some r" "er_status r = EnrollPending" "now < er_expiresAt r" using enrolls_Some [OF t] by metis
    then show ?thesis by (simp add: pending_invite_def)
  qed
  show "\<not> pending_invite (gateway_step cfg g e) i" if t: "tables_ok g" "enrolls cfg g e = Some (i, now)"
  proof -
    obtain r where "enrollment (gateway_step cfg g e) i = Some r" "er_status r = EnrollUsed" using spent_row [OF t] by blast
    then show ?thesis by (simp add: pending_invite_def)
  qed
  show "enrollment (gateway_step cfg g e) i \<noteq> None
      \<and> er_expiresAt (the (enrollment (gateway_step cfg g e) i)) = er_expiresAt (the (enrollment g i))" if i: "enrollment g i \<noteq> None"
  proof -
    obtain r where r: "enrollment g i = Some r" using i by blast
    obtain r' where "enrollment (gateway_step cfg g e) i = Some r'" "row_evolves r r'" using step_evolves [OF r] by blast
    then show ?thesis using r by (simp add: row_evolves_def)
  qed
  show "\<not> pending_invite (gateway_step cfg g e) i" if i: "enrollment g i \<noteq> None" and p: "\<not> pending_invite g i"
  proof -
    obtain r where r: "enrollment g i = Some r" using i by blast
    obtain r' where "enrollment (gateway_step cfg g e) i = Some r'" "row_evolves r r'" using step_evolves [OF r] by blast
    then show ?thesis using r p by (simp add: row_evolves_def pending_invite_def)
  qed
qed

subsection \<open>Where an invite comes from\<close>

definition issued_as :: "gateway_config \<Rightarrow> gateway_event list \<Rightarrow> string \<Rightarrow> enrollment_row \<Rightarrow> bool" where
  "issued_as cfg evs i r \<longleftrightarrow> (\<exists>token t ttl label url. GwInvite i token t ttl label url \<in> set evs
     \<and> er_generatedAt r = t \<and> er_expiresAt r = t + invite_ttl ttl \<and> er_tokenHmac r = hmacToken (gc_hmac cfg) token t
     \<and> er_gatewayInstanceId r = Some (gc_instanceId cfg))"

lemma issued_as_evolves: "issued_as cfg evs i r \<Longrightarrow> row_evolves r r' \<Longrightarrow> issued_as cfg (evs @ [e]) i r'"
  by (auto simp: issued_as_def row_evolves_def)

lemma step_new_row:
  assumes "enrollment g i = None" "enrollment (gateway_step cfg g e) i = Some r"
  shows "issued_as cfg (evs @ [e]) i r"
proof (cases e)
  case (GwInvite j token t ttl label url)
  then show ?thesis using assms
    by (fastforce simp: generateInvite_def createEnrollment_def enrollment_def issued_as_def split: if_splits)
next
  case (GwAuth challenge channel now sid disabled m)
  obtain s' d where a: "authenticate cfg channel now m (gw_store g) = (s', d)" by fastforce
  have none: "map_get (fs_enrollments (expireEnrollments (gw_store g) now)) i = None"
    "map_get (fs_enrollments (gw_store g)) i = None" using assms(1) by (simp_all add: enrollment_def expireEnrollments_get)
  from a have "map_get (fs_enrollments s') i = None"
    by (cases rule: authenticate_cases) (use none in \<open>auto simp: markEnrollmentUsed_def update_enrollment_get\<close>)
  then show ?thesis using assms a GwAuth none by (auto simp: enrollment_def gateway_auth_store split: if_splits)
next
  case (GwRevokeEnrollment j now)
  then show ?thesis using assms
    by (auto simp: revokeEnrollment_def enrollment_def revokePendingEnrollment_def update_enrollment_get revokePeer_def
        split: option.splits if_splits)
next
  case (GwSession ev)
  then show ?thesis using assms by (cases ev) (auto simp: enrollment_def)
qed (use assms in auto)

lemma run_issued_as: "enrollment (foldl (gateway_step cfg) gateway_new evs) i = Some r \<Longrightarrow> issued_as cfg evs i r"
proof (induction evs arbitrary: r rule: rev_induct)
  case Nil
  then show ?case by (simp add: enrollment_def gateway_new_def)
next
  case (snoc e evs)
  let ?g = "foldl (gateway_step cfg) gateway_new evs"
  show ?case
  proof (cases "enrollment ?g i")
    case None
    then show ?thesis using step_new_row snoc.prems by simp
  next
    case (Some r')
    then have "row_evolves r' r" using step_evolves [OF Some, of cfg e] snoc.prems by simp
    then show ?thesis using snoc.IH [OF Some] issued_as_evolves by blast
  qed
qed

lemma revoked_not_pending:
  assumes "enrollment g i \<noteq> None"
  shows "\<not> pending_invite (gateway_step cfg g (GwRevokeEnrollment i t)) i"
proof -
  obtain r where "enrollment g i = Some r" using assms by blast
  then show ?thesis
    by (cases "er_status r = EnrollPending")
      (auto simp: pending_invite_def revokeEnrollment_def enrollment_def revokePendingEnrollment_def update_enrollment_get
        revokePeer_def split: option.splits)
qed

subsection \<open>Properties\<close>

abbreviation run_gateway :: "gateway_config \<Rightarrow> gateway_event list \<Rightarrow> gateway" where
  "run_gateway cfg evs \<equiv> foldl (gateway_step cfg) gateway_new evs"

text \<open>The invites the events of a run redeem from a state on, with the times.\<close>

definition accepted_invites :: "gateway_config \<Rightarrow> gateway \<Rightarrow> gateway_event list \<Rightarrow> (string \<times> int) list" where
  "accepted_invites cfg g evs = redemptions (gateway_step cfg) (enrolls cfg) g evs"

text \<open>
  C11: An invite lets one peer in. Over everything a gateway goes through, each invite enrolls at most
  once; it does so before the deadline it was given when it was generated, at most a day later; and
  once the operator has revoked it, it enrolls no one, however the clock jumps.
\<close>

theorem invite_enrolls_once:
  "distinct (map fst (accepted_invites cfg gateway_new evs))
    \<and> (\<forall>(i, now)\<in>set (accepted_invites cfg gateway_new evs). \<exists>token t ttl label url.
         GwInvite i token t ttl label url \<in> set evs \<and> now < t + invite_ttl ttl \<and> invite_ttl ttl \<le> 86400000)
    \<and> (\<forall>pre i t post. evs = pre @ GwRevokeEnrollment i t # post \<longrightarrow> enrollment (run_gateway cfg pre) i \<noteq> None
         \<longrightarrow> i \<notin> fst ` set (accepted_invites cfg
               (run_gateway cfg (pre @ [GwRevokeEnrollment i t])) post))"
proof (intro conjI ballI allI impI)
  show "distinct (map fst (accepted_invites cfg gateway_new evs))" unfolding accepted_invites_def by (rule invites.redeemed_once [OF tables_ok_new])
next
  fix x assume x: "x \<in> set (accepted_invites cfg gateway_new evs)"
  obtain i now where [simp]: "x = (i, now)" by fastforce
  let ?g = "run_gateway cfg evs"
  have "enrollment ?g i \<noteq> None \<and> now < er_expiresAt (the (enrollment ?g i))"
    using invites.redeemed_in_time [OF tables_ok_new] x by (simp add: accepted_invites_def)
  then obtain r where r: "enrollment ?g i = Some r" "now < er_expiresAt r" by auto
  then show "case x of (i, now) \<Rightarrow> \<exists>token t ttl label url.
         GwInvite i token t ttl label url \<in> set evs \<and> now < t + invite_ttl ttl \<and> invite_ttl ttl \<le> 86400000"
    using run_issued_as [OF r(1)] by (auto simp: issued_as_def) (fastforce simp: invite_ttl_def)
next
  fix pre i t post
  let ?g = "run_gateway cfg pre"
  assume e: "enrollment ?g i \<noteq> None"
  have ok: "tables_ok ?g" by (rule invites.run_ok [OF tables_ok_new])
  show "i \<notin> fst ` set (accepted_invites cfg
               (run_gateway cfg (pre @ [GwRevokeEnrollment i t])) post)"
    using invites.spent_never_redeemed [OF tables_ok_step [OF ok]] invites.issued_stays [OF ok e]
      revoked_not_pending [OF e]
    by (simp add: accepted_invites_def del: gateway_step.simps)
qed

text \<open>A run: one invite, the peer that uses it, a second use, a revocation of the peer and a use of its key.\<close>

definition demo_gateway :: gateway_config where
  "demo_gateway = \<lparr>gc_instanceId = ''gw-1'', gc_publicKeyPem = ''GK'', gc_supportedCapabilities = None,
     gc_compressionEnabled = None, gc_verify = (\<lambda>k m s. s = k), gc_sign = (\<lambda>m. ''GK''), gc_hmac = (\<lambda>t. t)\<rparr>"

definition demo_message :: auth_message where
  "demo_message = \<lparr>am_mode = EnrollMode, am_gatewayInstanceId = ''gw-1'', am_peerInstanceId = ''peer-1'', am_protocolVersion = 1,
     am_nonce = ''n'', am_capabilities = [''remote_window''], am_signatureBase64 = ''PK'',
     am_inviteToken = Some ''tok'', am_publicKeyPem = Some ''PK'', am_label = None, am_role = Some ''client'',
     am_endpoint = None, am_profileName = None, am_notes = None, am_host = None, am_receiverPermissions = None\<rparr>"

definition demo_run :: "gateway_event list" where
  "demo_run = [GwInvite ''inv'' ''tok'' 1000 None None ''wss://gw'',
     GwAuth ''n'' ''ch'' 2000 ''s1'' False demo_message,
     GwAuth ''n'' ''ch'' 3000 ''s2'' False demo_message]"

definition demo_return :: "gateway_event list" where
  "demo_return = [GwInvite ''inv2'' ''tok'' 5000 None None ''wss://gw'',
     GwAuth ''n'' ''ch'' 6000 ''s4'' False (demo_message\<lparr>am_mode := ReconnectMode\<rparr>),
     GwAuth ''n'' ''ch'' 6000 ''s5'' False demo_message]"

lemma demo_facts:
  "isFederationInstanceId ''peer-1''" "gc_instanceId demo_gateway = ''gw-1''" "gc_verify demo_gateway k m s = (s = k)"
  "gc_compressionEnabled demo_gateway = None" "grantable demo_gateway [''remote_window''] = [''remote_window'']"
proof -
  show "isFederationInstanceId ''peer-1''" by code_simp
qed (simp_all add: demo_gateway_def grantable_def filterKnownFederationCapabilities_def isFederationCapability_def
  FEDERATION_CAPABILITIES_def)

lemmas demo_eval = gateway_auth_def authenticate_def completeFederationEnrollment_def authenticateFederationReconnect_def
  findMatchingPendingEnrollment_def expireEnrollments_def generateInvite_def createEnrollment_def gateway_new_def
  upsertPeer_def markEnrollmentUsed_def update_enrollment_def revokePeer_def store_revokePeer_def getPeer_def rowToPeer_def
  evaluateFederationSessionPolicy_def peer_summary.defs openSession_def closePeerSessions_def close_where_def
  closeSession_def close_session_def truthy_def demo_message_def demo_facts PROTOCOL_VERSION_def or_else_def invite_ttl_def
  map_has_def listActiveSessions_def Let_def demo_run_def demo_return_def

lemma demo_run_accepts: "accepted_invites demo_gateway gateway_new demo_run = [(''inv'', 2000)]"
  by (simp add: accepted_invites_def enrolls_def demo_eval)

theorem invite_enrolls_once_witness:
  "\<exists>token t ttl label url. GwInvite ''inv'' token t ttl label url \<in> set demo_run \<and> 2000 < t + invite_ttl ttl"
  using invite_enrolls_once [of demo_gateway demo_run] unfolding demo_run_accepts by fastforce

text \<open>What happens to a peer's row outside an accepted message of its own.\<close>

definition peer_revoked :: "federation_store \<Rightarrow> string \<Rightarrow> bool" where
  "peer_revoked s p \<longleftrightarrow> (case map_get (fs_peers s) p of None \<Rightarrow> False | Some r \<Rightarrow> pw_revokedAt r \<noteq> None)"

lemma peer_revoked_auth:
  assumes "peer_revoked s p" "authenticate cfg channel now m s = (s', d)"
  shows "peer_revoked s' p \<and> (\<forall>x. d = Inr x \<longrightarrow> am_peerInstanceId m \<noteq> p) \<or>
    am_mode m = EnrollMode \<and> am_peerInstanceId m = p \<and> (\<exists>x. d = Inr x)"
  using assms(2)
proof (cases rule: authenticate_cases)
  case (refused f)
  then show ?thesis using assms(1) by (auto simp: peer_revoked_def)
next
  case (enrolled token key i r peer)
  then show ?thesis using assms(1) by (auto simp: peer_revoked_def upsertPeer_def Let_def)
next
  case (reconnected key stored peer)
  have "am_peerInstanceId m \<noteq> p"
    using reconnected(2,5) assms(1) by (auto simp: peer_revoked_def getPeer_def rowToPeer_def split: option.splits)
  then show ?thesis using assms(1) reconnected(7,12) by (auto simp: peer_revoked_def upsertPeer_def Let_def)
qed

lemma admits_enrolls:
  assumes "e = GwAuth challenge channel now sid disabled m" "am_mode m = EnrollMode" "admits cfg g e = Some p"
  shows "\<exists>i t. enrolls cfg g e = Some (i, t)"
proof -
  obtain s' x where a: "authenticate cfg channel now m (gw_store g) = (s', Inr x)" "am_nonce m = challenge"
    using assms by (cases "authenticate cfg channel now m (gw_store g)") (auto simp: admits_def split: if_splits)
  from a(1) show ?thesis
  proof (cases rule: authenticate_cases)
    case (enrolled token key i r peer)
    have "or_else (am_inviteToken m) [] = token" using truthy_text_Some [OF enrolled(2)] by (simp add: or_else_def)
    then show ?thesis using a assms(1,2) enrolled(4) by (simp add: enrolls_def)
  qed (use assms(2) in auto)
qed

text \<open>A peer gets an active session only by opening one.\<close>

definition has_active :: "session_registry \<Rightarrow> string \<Rightarrow> bool" where
  "has_active m p \<longleftrightarrow> (\<exists>i s. map_get m i = Some s \<and> se_active s \<and> se_peerId s = p)"

lemma has_active_list:
  assumes "wf_map m"
  shows "has_active m p \<longleftrightarrow> p \<in> se_peerId ` set (listActiveSessions m)"
  using assms by (force simp: has_active_def listActiveSessions_def wf_map_get_in [OF assms, symmetric])

lemma close_where_has:
  "registry_filed m \<Longrightarrow> has_active (fst (close_where P now r m)) p
     \<longleftrightarrow> (\<exists>i s. map_get m i = Some s \<and> se_active s \<and> \<not> P s \<and> se_peerId s = p)"
  by (simp add: has_active_def close_where_get(2)) (metis closed_if_def closed_if_keeps(2,3))

lemma close_where_active: "registry_filed m \<Longrightarrow> has_active (fst (close_where P now r m)) p \<Longrightarrow> has_active m p"
  by (simp add: close_where_has) (auto simp: has_active_def)

lemma close_peer_active: "registry_filed m \<Longrightarrow> \<not> has_active (fst (closePeerSessions m p now r)) p"
  by (auto simp: closePeerSessions_def close_where_has)

lemma session_step_active:
  assumes "registry_filed m" "has_active (session_step m ev) p"
  shows "has_active m p \<or> (\<exists>sid now caps. ev = SessOpen sid p now caps)"
proof (cases ev)
  case (SessOpen sid q now caps)
  let ?m = "fst (close_where (\<lambda>s. se_peerId s = q) now CloseReplaced m)"
  have "has_active ?m p \<or> p = q"
    using assms(2) SessOpen by (auto simp: openSession_def Let_def has_active_def split: if_splits)
  then show ?thesis using close_where_active [OF assms(1)] SessOpen by blast
next
  case (SessHeartbeat i now)
  then show ?thesis using assms by (auto simp: session_heartbeat_def has_active_def split: option.splits if_splits)
next
  case (SessClose i now r)
  then show ?thesis using assms closeSession_get(2) [OF assms(1), of i now r]
    by (auto simp: has_active_def close_session_def split: if_splits)
qed (use assms close_where_active in \<open>auto simp: closePeerSessions_def expireStaleSessions_def\<close>)

lemma step_active:
  assumes "tables_ok g" "has_active (gw_sessions (gateway_step cfg g e)) p"
  shows "has_active (gw_sessions g) p \<or> admits cfg g e = Some p"
proof (cases rule: sessions_step [of cfg g e])
  case (1 ev)
  then show ?thesis using assms session_step_active [of "gw_sessions g" ev p] by (auto simp: tables_ok_def)
next
  case 2
  then show ?thesis using assms(2) by simp
qed

text \<open>An invite was used for the peer that was not yet spent in the earlier state.\<close>

definition invited_since :: "gateway \<Rightarrow> gateway \<Rightarrow> string \<Rightarrow> bool" where
  "invited_since g g' p \<longleftrightarrow> (\<exists>i r. enrollment g' i = Some r \<and> er_status r = EnrollUsed \<and> er_peerId r = Some p
     \<and> (enrollment g i = None \<or> pending_invite g i))"

lemma invited_since_step: "invited_since g g' p \<Longrightarrow> invited_since g (gateway_step cfg g' e) p"
  unfolding invited_since_def
proof (elim exE conjE)
  fix i r
  assume a: "enrollment g' i = Some r" "er_status r = EnrollUsed" "er_peerId r = Some p" "enrollment g i = None \<or> pending_invite g i"
  obtain r' where "enrollment (gateway_step cfg g' e) i = Some r'" "row_evolves r r'" using step_evolves [OF a(1)] by blast
  then show "\<exists>i r. enrollment (gateway_step cfg g' e) i = Some r \<and> er_status r = EnrollUsed \<and> er_peerId r = Some p
     \<and> (enrollment g i = None \<or> pending_invite g i)"
    using a by (auto simp: row_evolves_def)
qed

definition shut_out :: "gateway \<Rightarrow> string \<Rightarrow> bool" where
  "shut_out g p \<longleftrightarrow> peer_revoked (gw_store g) p \<and> \<not> has_active (gw_sessions g) p"

lemma peer_revoked_step:
  assumes "peer_revoked (gw_store g) p" "admits cfg g e \<noteq> Some p"
  shows "peer_revoked (gw_store (gateway_step cfg g e)) p"
proof (cases e)
  case (GwAuth challenge channel now sid disabled m)
  obtain s' d where a: "authenticate cfg channel now m (gw_store g) = (s', d)" by fastforce
  show ?thesis using peer_revoked_auth [OF assms(1) a] assms a GwAuth
    by (auto simp: gateway_auth_store admits_def split: if_splits)
next
  case (GwRevokePeer q now)
  then show ?thesis using assms(1) by (auto simp: revokePeer_def peer_revoked_def store_revokePeer_def split: option.splits)
next
  case (GwRevokeEnrollment i now)
  then show ?thesis using assms(1)
    by (auto simp: revokeEnrollment_def revokePeer_def peer_revoked_def store_revokePeer_def split: option.splits)
next
  case (GwSession ev)
  then show ?thesis using assms(1) by (cases ev) auto
qed (use assms(1) in \<open>auto simp: generateInvite_def peer_revoked_def\<close>)

lemma shut_out_step:
  assumes "tables_ok g" "shut_out (foldl (gateway_step cfg) g es) p"
  defines "g' \<equiv> foldl (gateway_step cfg) g es"
  shows "shut_out (gateway_step cfg g' e) p \<or> invited_since g (gateway_step cfg g' e) p"
proof (cases "admits cfg g' e = Some p")
  case False
  have "tables_ok g'" unfolding g'_def by (rule invites.run_ok [OF assms(1)])
  then show ?thesis using assms(2) peer_revoked_step [OF _ False] step_active [of g' cfg e p] False
    by (auto simp: shut_out_def g'_def)
next
  case True
  have ok: "tables_ok g'" unfolding g'_def by (rule invites.run_ok [OF assms(1)])
  obtain challenge channel now sid disabled m where e: "e = GwAuth challenge channel now sid disabled m"
    "am_peerInstanceId m = p" using True by (auto simp: admits_def split: gateway_event.splits if_splits)
  obtain s' d where a: "authenticate cfg channel now m (gw_store g') = (s', d)" by fastforce
  have "am_mode m = EnrollMode"
    using peer_revoked_auth [OF _ a, of p] assms(2) True a e by (auto simp: shut_out_def g'_def admits_def split: if_splits)
  then obtain i t where en: "enrolls cfg g' e = Some (i, t)" using admits_enrolls [OF e(1)] True by blast
  obtain r where r: "enrollment (gateway_step cfg g' e) i = Some r" "er_status r = EnrollUsed" "er_peerId r = Some p"
    using spent_row [OF ok en] True by auto
  have "pending_invite g' i" using invites.redeemed_pending [OF ok en] by blast
  then have "enrollment g i = None \<or> pending_invite g i"
    using invites.spent_stays [OF assms(1), of i cfg es] unfolding g'_def by blast
  then show ?thesis using r by (auto simp: invited_since_def)
qed

lemma shut_out_run:
  assumes "tables_ok g" "shut_out g p"
  shows "shut_out (foldl (gateway_step cfg) g es) p \<or> invited_since g (foldl (gateway_step cfg) g es) p"
proof (induction es rule: rev_induct)
  case (snoc e es)
  then show ?case using shut_out_step [OF assms(1), of cfg es p e] invited_since_step by auto
qed (use assms in simp)

lemma revoke_shuts_out:
  assumes "tables_ok g" "getPeer (gw_store g) p \<noteq> None"
  shows "shut_out (gateway_step cfg g (GwRevokePeer p t)) p"
  using assms close_peer_active [of "gw_sessions g" p t CloseRevoked]
  by (auto simp: shut_out_def revokePeer_def peer_revoked_def store_revokePeer_def getPeer_def tables_ok_def split: option.splits)

text \<open>
  C12: A revoked peer stays out. If a peer has an active session some time after the operator revoked it,
  then since the revocation an invite was used for it that had not been spent before: no reconnection,
  no session that was already open and no change of the clock gets it back in.
\<close>

theorem revoked_peer_stays_out:
  assumes "getPeer (gw_store (run_gateway cfg pre)) p \<noteq> None"
    and "s \<in> set (listActiveSessions (gw_sessions (run_gateway cfg (pre @ GwRevokePeer p t # post))))" "se_peerId s = p"
  shows "\<exists>i r. enrollment (run_gateway cfg (pre @ GwRevokePeer p t # post)) i = Some r \<and> er_status r = EnrollUsed
    \<and> er_peerId r = Some p \<and> (enrollment (run_gateway cfg pre) i = None \<or> pending_invite (run_gateway cfg pre) i)"
proof -
  let ?g = "gateway_step cfg (run_gateway cfg pre) (GwRevokePeer p t)"
  have ok: "tables_ok (run_gateway cfg pre)" by (rule invites.run_ok [OF tables_ok_new])
  have "tables_ok (run_gateway cfg (pre @ GwRevokePeer p t # post))" by (rule invites.run_ok [OF tables_ok_new])
  then have "has_active (gw_sessions (foldl (gateway_step cfg) ?g post)) p"
    using assms(2,3) has_active_list by (auto simp: tables_ok_def registry_filed_def)
  then have "invited_since ?g (foldl (gateway_step cfg) ?g post) p"
    using shut_out_run [OF tables_ok_step [OF ok] revoke_shuts_out [OF ok assms(1)], where cfg = cfg and es = post] by (auto simp: shut_out_def)
  then show ?thesis by (simp add: invited_since_def pending_invite_def)
qed

lemma demo_return_state:
  "getPeer (gw_store (run_gateway demo_gateway demo_run)) ''peer-1'' \<noteq> None"
  "map (\<lambda>s. (se_sessionId s, se_peerId s)) (listActiveSessions (gw_sessions
     (run_gateway demo_gateway (demo_run @ GwRevokePeer ''peer-1'' 4000 # demo_return)))) = [(''s5'', ''peer-1'')]"
  by (simp_all add: demo_eval)

theorem revoked_peer_stays_out_witness:
  "\<exists>i r. enrollment (run_gateway demo_gateway (demo_run @ GwRevokePeer ''peer-1'' 4000 # demo_return)) i = Some r
     \<and> er_peerId r = Some ''peer-1''"
proof -
  let ?L = "listActiveSessions (gw_sessions (run_gateway demo_gateway (demo_run @ GwRevokePeer ''peer-1'' 4000 # demo_return)))"
  have "(''s5'', ''peer-1'') \<in> set (map (\<lambda>s. (se_sessionId s, se_peerId s)) ?L)" unfolding demo_return_state(2) by simp
  then obtain s where s: "s \<in> set ?L" "se_peerId s = ''peer-1''" by (auto simp only: set_map image_iff prod.inject)
  show ?thesis using revoked_peer_stays_out [OF demo_return_state(1) s] by blast
qed

subsection \<open>What a key has signed\<close>

text \<open>The three messages instances sign with their identity keys.\<close>

datatype signed_message =
    SignedProof federation_proof
  | SignedChallenge string string int string
  | SignedAcceptance acceptance

fun signed_text :: "signed_message \<Rightarrow> string" where
  "signed_text (SignedProof p) = buildFederationProofMessage p"
| "signed_text (SignedChallenge gatewayId key version nonce) = buildFederationGatewayChallengeMessage gatewayId key version nonce"
| "signed_text (SignedAcceptance a) = buildFederationGatewayAcceptedMessage a"

text \<open>\<open>verify\<close> accepts for the key only signatures its holder made, of messages in \<open>signed\<close>.\<close>

definition signs_only :: "(string \<Rightarrow> string \<Rightarrow> string \<Rightarrow> bool) \<Rightarrow> string \<Rightarrow> signed_message set \<Rightarrow> bool" where
  "signs_only verify key signed \<longleftrightarrow> (\<forall>msg s. verify key msg s \<longrightarrow> msg \<in> signed_text ` signed)"

lemma sorted_names_eq: "sorted_names a = sorted_names b \<longleftrightarrow> mset a = mset b"
proof -
  have "inj JStr" by (simp add: inj_def)
  moreover have "sort a = sort b \<longleftrightarrow> mset a = mset b"
    by (metis mset_sort properties_for_sort sorted_sort)
  ultimately show ?thesis by (simp add: sorted_names_def inj_map_eq_map)
qed

lemma purpose_text_eq: "purpose_text a = purpose_text b \<longleftrightarrow> a = b"
  by (cases a; cases b) auto

lemma proof_text_eq:
  assumes "signed_text x = buildFederationProofMessage p"
  obtains q where "x = SignedProof q" "mset (pf_capabilities q) = mset (pf_capabilities p)"
    "pf_channelBinding q = pf_channelBinding p" "pf_gatewayInstanceId q = pf_gatewayInstanceId p" "pf_nonce q = pf_nonce p"
    "pf_peerInstanceId q = pf_peerInstanceId p" "pf_publicKeyPem q = pf_publicKeyPem p" "pf_purpose q = pf_purpose p"
  using assms that
  by (cases x) (auto simp: buildFederationProofMessage_def buildFederationGatewayChallengeMessage_def
      buildFederationGatewayAcceptedMessage_def json_text_inj sorted_names_eq purpose_text_eq simp del: json_text.simps)

lemma acceptance_text_eq:
  assumes "signed_text x = buildFederationGatewayAcceptedMessage a"
  obtains b where "x = SignedAcceptance b" "mset (ac_capabilities b) = mset (ac_capabilities a)"
    "ac_peerInstanceId b = ac_peerInstanceId a" "ac_sessionId b = ac_sessionId a" "ac_nonce b = ac_nonce a"
    "ac_gatewayInstanceId b = ac_gatewayInstanceId a"
  using assms that
  by (cases x) (auto simp: buildFederationProofMessage_def buildFederationGatewayChallengeMessage_def
      buildFederationGatewayAcceptedMessage_def json_text_inj sorted_names_eq simp del: json_text.simps)

lemma gateway_auth_accepted:
  assumes "gateway_auth cfg challenge channel now sid disabled m g = (g', AuthAccepted a signature)"
  obtains s' peer granted where "am_nonce m = challenge"
    "authenticate cfg channel now m (gw_store g) = (s', Inr (peer, granted))" "gw_store g' = s'"
    "ac_peerInstanceId a = am_peerInstanceId m" "set (ac_capabilities a) \<subseteq> set granted" "ac_nonce a = challenge"
    "gw_sessions g' = fst (openSession (gw_sessions g) sid (am_peerInstanceId m) now (ac_capabilities a))"
  using assms that authenticate_peer
  by (auto simp: gateway_auth_def Let_def split: if_splits prod.splits sum.splits)

lemma getPeer_upsert:
  "getPeer (upsertPeer s p now c) (pe_id p) = Some q \<Longrightarrow> fp_payload q = fp_payload p"
  by (auto simp: getPeer_def upsertPeer_def rowToPeer_def Let_def)

lemma getPeer_mark [simp]: "getPeer (markEnrollmentUsed s i q now) p = getPeer s p"
  by (simp add: getPeer_def)

text \<open>
  C10: A session is given only for a proof made for it. If the gateway accepts an answer to its
  challenge, then the holder of the key that is pinned to the peer from then on has signed a proof that
  names this gateway, this peer, this key, this challenge, this encrypted channel and the capabilities
  granted; a reconnection leaves the pinned key as it was, and any other key needs an invite. No proof
  or other message signed for another connection, purpose or gateway is taken for it.
\<close>

theorem accepted_peer_signed_this_exchange:
  assumes "gateway_auth cfg challenge channel now sid disabled m g = (g', AuthAccepted a signature)"
    and "getPeer (gw_store g') (ac_peerInstanceId a) = Some peer" "pl_pinnedPublicKeyPem (fp_payload peer) = Some key"
    and "signs_only (gc_verify cfg) key signed"
  shows "\<exists>p. SignedProof p \<in> signed \<and> pf_gatewayInstanceId p = gc_instanceId cfg \<and> pf_peerInstanceId p = ac_peerInstanceId a
    \<and> pf_publicKeyPem p = key \<and> pf_nonce p = challenge \<and> pf_channelBinding p = channel
    \<and> set (ac_capabilities a) \<subseteq> set (pf_capabilities p)
    \<and> (pf_purpose p = ReconnectProof \<longrightarrow>
        (\<exists>old. getPeer (gw_store g) (ac_peerInstanceId a) = Some old \<and> pl_pinnedPublicKeyPem (fp_payload old) = Some key))
    \<and> (pf_purpose p = EnrollProof \<longrightarrow> enrolls cfg g (GwAuth challenge channel now sid disabled m) \<noteq> None)"
proof -
  obtain s' peer' granted where a: "am_nonce m = challenge"
    "authenticate cfg channel now m (gw_store g) = (s', Inr (peer', granted))" "gw_store g' = s'"
    "ac_peerInstanceId a = am_peerInstanceId m" "set (ac_capabilities a) \<subseteq> set granted"
    using gateway_auth_accepted [OF assms(1)] by metis
  have sub: "set (grantable cfg cs) \<subseteq> set cs" for cs
    by (auto simp: grantable_def filterKnownFederationCapabilities_def)
  from a(2) show ?thesis
  proof (cases rule: authenticate_cases)
    case (refused f)
    then show ?thesis by simp
  next
    case (enrolled token k i r p)
    have "k = key" using assms(2,3) a(3,4) enrolled(6,8,11) getPeer_upsert [of "expireEnrollments (gw_store g) now" p now True] by auto
    then have "buildFederationProofMessage (proof_of cfg EnrollProof key channel m) \<in> signed_text ` signed"
      using assms(4) enrolled(10) by (auto simp: signs_only_def)
    then obtain x where x: "x \<in> signed" "signed_text x = buildFederationProofMessage (proof_of cfg EnrollProof key channel m)" by auto
    obtain q where q: "x = SignedProof q" "mset (pf_capabilities q) = mset (am_capabilities m)" "pf_channelBinding q = channel"
      "pf_gatewayInstanceId q = gc_instanceId cfg" "pf_nonce q = challenge" "pf_peerInstanceId q = am_peerInstanceId m"
      "pf_publicKeyPem q = key" "pf_purpose q = EnrollProof"
      using proof_text_eq [OF x(2)] a(1) by (metis (no_types, lifting) federation_proof.simps(1-8) proof_of_def)
    have "enrolls cfg g (GwAuth challenge channel now sid disabled m) \<noteq> None"
      using admits_enrolls [OF refl enrolled(1), of cfg g challenge channel now sid disabled] a(1,2) by (auto simp: admits_def)
    then show ?thesis using x q a(4,5) enrolled(5,9) sub [of "am_capabilities m"] mset_eq_setD [OF q(2)] by (intro exI [of _ q]) auto
  next
    case (reconnected k stored p)
    have pin: "pl_pinnedPublicKeyPem (fp_payload stored) = Some k" using truthy_text_Some [OF reconnected(3)] .
    then have "k = key" using assms(2,3) a(3,4) reconnected(7,10,12) getPeer_upsert [of "gw_store g" p now False] by auto
    then have "buildFederationProofMessage (proof_of cfg ReconnectProof key channel m) \<in> signed_text ` signed"
      using assms(4) reconnected(11) by (auto simp: signs_only_def)
    then obtain x where x: "x \<in> signed" "signed_text x = buildFederationProofMessage (proof_of cfg ReconnectProof key channel m)" by auto
    obtain q where q: "x = SignedProof q" "mset (pf_capabilities q) = mset (am_capabilities m)" "pf_channelBinding q = channel"
      "pf_gatewayInstanceId q = gc_instanceId cfg" "pf_nonce q = challenge" "pf_peerInstanceId q = am_peerInstanceId m"
      "pf_publicKeyPem q = key" "pf_purpose q = ReconnectProof"
      using proof_text_eq [OF x(2)] a(1) by (metis (no_types, lifting) federation_proof.simps(1-8) proof_of_def)
    show ?thesis using x q a(4,5) reconnected(2,6) pin \<open>k = key\<close> sub [of "am_capabilities m"] mset_eq_setD [OF q(2)]
      by (intro exI [of _ q]) auto
  qed
qed

text \<open>The accepted reconnection of a peer whose key signed exactly one proof.\<close>

definition strict_proof :: federation_proof where
  "strict_proof = proof_of demo_gateway ReconnectProof ''PK'' ''ch'' demo_message"

definition strict_gateway :: gateway_config where
  "strict_gateway = demo_gateway\<lparr>gc_verify := (\<lambda>k m s. m = buildFederationProofMessage strict_proof)\<rparr>"

lemma strict_accepts:
  defines "r \<equiv> gateway_auth strict_gateway ''n'' ''ch'' 4000 ''s3'' False (demo_message\<lparr>am_mode := ReconnectMode\<rparr>)
    (run_gateway demo_gateway demo_run)"
  shows "\<exists>a signature. snd r = AuthAccepted a signature \<and> ac_peerInstanceId a = ''peer-1''"
    "map_option (\<lambda>p. pl_pinnedPublicKeyPem (fp_payload p)) (getPeer (gw_store (fst r)) ''peer-1'') = Some (Some ''PK'')"
proof -
  have g: "grantable strict_gateway [''remote_window''] = [''remote_window'']" "gc_instanceId strict_gateway = ''gw-1''"
    "gc_verify strict_gateway k m s = (m = buildFederationProofMessage strict_proof)" "gc_compressionEnabled strict_gateway = None" for k m s
    using demo_facts by (simp_all add: strict_gateway_def grantable_def)
  show "\<exists>a signature. snd r = AuthAccepted a signature \<and> ac_peerInstanceId a = ''peer-1''"
    "map_option (\<lambda>p. pl_pinnedPublicKeyPem (fp_payload p)) (getPeer (gw_store (fst r)) ''peer-1'') = Some (Some ''PK'')"
    by (simp_all add: r_def demo_eval g strict_proof_def proof_of_def)
qed

theorem accepted_peer_signed_this_exchange_witness:
  "\<exists>p. SignedProof p \<in> {SignedProof strict_proof} \<and> pf_nonce p = ''n'' \<and> pf_channelBinding p = ''ch''"
proof -
  let ?r = "gateway_auth strict_gateway ''n'' ''ch'' 4000 ''s3'' False (demo_message\<lparr>am_mode := ReconnectMode\<rparr>)
    (run_gateway demo_gateway demo_run)"
  obtain a signature where a: "?r = (fst ?r, AuthAccepted a signature)" "ac_peerInstanceId a = ''peer-1''"
    using strict_accepts(1) by (metis prod.collapse)
  obtain peer where p: "getPeer (gw_store (fst ?r)) (ac_peerInstanceId a) = Some peer" "pl_pinnedPublicKeyPem (fp_payload peer) = Some ''PK''"
    using strict_accepts(2) a(2) by auto
  have "signs_only (gc_verify strict_gateway) ''PK'' {SignedProof strict_proof}" by (simp add: signs_only_def strict_gateway_def)
  then show ?thesis using accepted_peer_signed_this_exchange [OF a(1) p] by blast
qed

text \<open>A client and a gateway that know each other's keys, and a client that has a reason to be let in.\<close>

definition paired :: "gateway_config \<Rightarrow> client_params \<Rightarrow> bool" where
  "paired cfg p \<longleftrightarrow> cp_gatewayInstanceId p = gc_instanceId cfg \<and> cp_gatewayPublicKeyPem p = gc_publicKeyPem cfg
     \<and> (\<forall>m. cp_verify p (gc_publicKeyPem cfg) m (gc_sign cfg m)) \<and> (\<forall>m. gc_verify cfg (cp_publicKeyPem p) m (cp_sign p m))"

definition holds_invite :: "gateway_config \<Rightarrow> gateway \<Rightarrow> int \<Rightarrow> auth_message \<Rightarrow> bool" where
  "holds_invite cfg g now m \<longleftrightarrow> truthy (am_inviteToken m) \<noteq> None \<and> truthy (am_role m) \<noteq> None
     \<and> (\<exists>i r. enrollment g i = Some r \<and> er_status r = EnrollPending \<and> now < er_expiresAt r
         \<and> er_tokenHmac r = hmacToken (gc_hmac cfg) (or_else (am_inviteToken m) []) (er_generatedAt r))"

definition is_peer :: "gateway \<Rightarrow> string \<Rightarrow> string \<Rightarrow> bool" where
  "is_peer g p key \<longleftrightarrow> (\<exists>peer. getPeer (gw_store g) p = Some peer \<and> pl_pinnedPublicKeyPem (fp_payload peer) = Some key
     \<and> pe_revokedAt peer = None \<and> pe_status peer \<noteq> ''revoked'')"

definition expected_at :: "gateway_config \<Rightarrow> int \<Rightarrow> client_params \<Rightarrow> gateway \<Rightarrow> bool" where
  "expected_at cfg now p g \<longleftrightarrow> isFederationInstanceId (am_peerInstanceId (cp_message p)) \<and> cp_publicKeyPem p \<noteq> []
     \<and> grantable cfg (am_capabilities (cp_message p)) \<noteq> []
     \<and> (if cp_mode p = EnrollMode then holds_invite cfg g now (cp_message p)
        else is_peer g (am_peerInstanceId (cp_message p)) (cp_publicKeyPem p))"

lemma findMatching_finds:
  assumes "enrollment g i = Some r" "er_status r = EnrollPending" "now < er_expiresAt r"
    and "er_tokenHmac r = hmacToken h token (er_generatedAt r)"
  shows "snd (findMatchingPendingEnrollment h (gw_store g) token now) \<noteq> None"
proof -
  have "map_get (fs_enrollments (expireEnrollments (gw_store g) now)) i = Some r"
    using assms(1-3) by (auto simp: expireEnrollments_get enrollment_def expire_row_def)
  then have "(i, r) \<in> set (fs_enrollments (expireEnrollments (gw_store g) now))" by (rule map_of_SomeD)
  then have "(i, r) \<in> set (sort_key (\<lambda>(_, r). - er_generatedAt r) (filter (\<lambda>(_, r). er_status r = EnrollPending \<and> er_expiresAt r > now)
      (fs_enrollments (expireEnrollments (gw_store g) now))))" using assms(2,3) by simp
  then show ?thesis using assms(4) by (auto simp only: findMatchingPendingEnrollment_def Let_def find_None_iff snd_conv)
qed

lemma client_answers:
  assumes "paired cfg p"
  obtains m where "client_answer p channel (gateway_challenge cfg challenge) = Inr m" "am_mode m = cp_mode p"
    "am_gatewayInstanceId m = gc_instanceId cfg" "am_protocolVersion m = PROTOCOL_VERSION" "am_nonce m = challenge"
    "am_peerInstanceId m = am_peerInstanceId (cp_message p)" "am_capabilities m = am_capabilities (cp_message p)"
    "am_inviteToken m = am_inviteToken (cp_message p)" "am_role m = am_role (cp_message p)"
    "cp_mode p = EnrollMode \<Longrightarrow> am_publicKeyPem m = Some (cp_publicKeyPem p)"
    "gc_verify cfg (cp_publicKeyPem p) (buildFederationProofMessage (proof_of cfg
       (if cp_mode p = EnrollMode then EnrollProof else ReconnectProof) (cp_publicKeyPem p) channel m)) (am_signatureBase64 m)"
  using assms that
  by (auto simp: client_answer_def gateway_challenge_def paired_def proof_of_def Let_def)

lemma authenticate_expected:
  assumes "paired cfg p" "expected_at cfg now p (run_gateway cfg evs)"
    and "client_answer p channel (gateway_challenge cfg challenge) = Inr m"
  shows "\<exists>s' peer granted. authenticate cfg channel now m (gw_store (run_gateway cfg evs)) = (s', Inr (peer, granted))
    \<and> granted = grantable cfg (am_capabilities (cp_message p))"
proof -
  let ?g = "run_gateway cfg evs"
  obtain m' where a: "client_answer p channel (gateway_challenge cfg challenge) = Inr m'" "am_mode m' = cp_mode p"
    "am_gatewayInstanceId m' = gc_instanceId cfg" "am_protocolVersion m' = PROTOCOL_VERSION"
    "am_peerInstanceId m' = am_peerInstanceId (cp_message p)" "am_capabilities m' = am_capabilities (cp_message p)"
    "am_inviteToken m' = am_inviteToken (cp_message p)" "am_role m' = am_role (cp_message p)"
    "cp_mode p = EnrollMode \<Longrightarrow> am_publicKeyPem m' = Some (cp_publicKeyPem p)"
    "gc_verify cfg (cp_publicKeyPem p) (buildFederationProofMessage (proof_of cfg
       (if cp_mode p = EnrollMode then EnrollProof else ReconnectProof) (cp_publicKeyPem p) channel m')) (am_signatureBase64 m')"
    by (rule client_answers [OF assms(1), of channel challenge]) blast
  have m: "m' = m" using a(1) assms(3) by simp
  note e = assms(2) [unfolded expected_at_def]
  show ?thesis
  proof (cases "cp_mode p")
    case EnrollMode
    then have h: "holds_invite cfg ?g now (cp_message p)" using e by simp
    then obtain token role where t: "truthy (am_inviteToken m) = Some token" "truthy (am_role m) = Some role"
      using a(7,8) m by (auto simp: holds_invite_def)
    have "am_inviteToken (cp_message p) = Some token" using truthy_text_Some [OF t(1)] a(7) m by simp
    then have tok: "or_else (am_inviteToken (cp_message p)) [] = token" by (simp add: or_else_def)
    obtain i r where f: "snd (findMatchingPendingEnrollment (gc_hmac cfg) (gw_store ?g) token now) = Some (i, r)"
      using h findMatching_finds [of ?g _ _ now "gc_hmac cfg" token] tok unfolding holds_invite_def by fastforce
    have "tables_ok ?g" by (rule invites.run_ok [OF tables_ok_new])
    then have "enrollment ?g i = Some r" using findMatching_row [OF _ f] by (simp add: tables_ok_def enrollment_def)
    then have "er_gatewayInstanceId r = Some (gc_instanceId cfg)" using run_issued_as by (auto simp: issued_as_def)
    moreover have "truthy (am_publicKeyPem m) = Some (cp_publicKeyPem p)" using a(9) m e EnrollMode by (simp add: truthy_def)
    then have "authenticate cfg channel now m (gw_store ?g)
        = completeFederationEnrollment cfg channel now m token (cp_publicKeyPem p) role (gw_store ?g)"
      using t a(2,3) m EnrollMode by (simp add: authenticate_def)
    moreover have "findMatchingPendingEnrollment (gc_hmac cfg) (gw_store ?g) token now
        = (expireEnrollments (gw_store ?g) now, Some (i, r))"
      using f findMatching_store by (metis prod.collapse)
    ultimately show ?thesis using a(4,5,6,10) m e EnrollMode by (simp add: completeFederationEnrollment_def Let_def)
  next
    case ReconnectMode
    then obtain peer where p: "getPeer (gw_store ?g) (am_peerInstanceId m) = Some peer"
      "pl_pinnedPublicKeyPem (fp_payload peer) = Some (cp_publicKeyPem p)" "pe_revokedAt peer = None" "pe_status peer \<noteq> ''revoked''"
      using e a(5) m by (auto simp: is_peer_def)
    then show ?thesis using e a m ReconnectMode
      by (simp add: authenticate_def authenticateFederationReconnect_def evaluateFederationSessionPolicy_def
          peer_summary.truncate_def truthy_def Let_def)
  qed
qed

text \<open>
  C13: Two honest ends agree. A client that holds an invite, or whose key is pinned to a peer that is not
  revoked, answers the gateway's challenge, is accepted, and accepts the acceptance: both ends then have
  the same session with the same capabilities, and from then on the client may come back with its key
  alone, at any time, until it is revoked.
\<close>

theorem honest_exchange_agrees:
  assumes "paired cfg p" "expected_at cfg now p (run_gateway cfg evs)"
  shows "\<exists>m g' a signature s. client_answer p channel (gateway_challenge cfg challenge) = Inr m
    \<and> gateway_auth cfg challenge channel now sid False m (run_gateway cfg evs) = (g', AuthAccepted a signature)
    \<and> client_accept p challenge a signature = Inr (sid, ac_capabilities a)
    \<and> map_get (gw_sessions g') sid = Some s \<and> se_active s \<and> se_peerId s = am_peerInstanceId (cp_message p)
    \<and> se_capabilities s = ac_capabilities a
    \<and> (\<forall>later. expected_at cfg later (p\<lparr>cp_mode := ReconnectMode\<rparr>) g')"
proof -
  let ?g = "run_gateway cfg evs"
  obtain m where m: "client_answer p channel (gateway_challenge cfg challenge) = Inr m" "am_nonce m = challenge"
    "am_peerInstanceId m = am_peerInstanceId (cp_message p)" "cp_mode p = EnrollMode \<Longrightarrow> am_publicKeyPem m = Some (cp_publicKeyPem p)"
    "am_mode m = cp_mode p"
    by (rule client_answers [OF assms(1), of channel challenge]) blast
  obtain s' peer granted where a: "authenticate cfg channel now m (gw_store ?g) = (s', Inr (peer, granted))"
    "granted = grantable cfg (am_capabilities (cp_message p))"
    using authenticate_expected [OF assms m(1)] by blast
  have pid: "pe_id peer = am_peerInstanceId (cp_message p)" using authenticate_peer [OF a(1)] m(3) by simp
  define caps where "caps = (if gc_compressionEnabled cfg = Some False
     then filter (\<lambda>c. c \<noteq> FEDERATION_BROTLI_CAPABILITY) granted else granted)"
  define ac where "ac = \<lparr>ac_gatewayInstanceId = gc_instanceId cfg, ac_peerInstanceId = pe_id peer, ac_sessionId = sid,
     ac_protocolVersion = PROTOCOL_VERSION, ac_nonce = challenge, ac_capabilities = caps\<rparr>"
  define g' where "g' = \<lparr>gw_store = s', gw_sessions = fst (openSession (gw_sessions ?g) sid (pe_id peer) now caps)\<rparr>"
  have g: "gateway_auth cfg challenge channel now sid False m ?g
      = (g', AuthAccepted ac (gc_sign cfg (buildFederationGatewayAcceptedMessage ac)))"
    using m(2) a(1) by (simp add: gateway_auth_def Let_def caps_def ac_def g'_def)
  have known: "filterKnownFederationCapabilities caps = caps"
    by (auto simp: caps_def a(2) grantable_def filterKnownFederationCapabilities_def filter_id_conv)
  have acc: "client_accept p challenge ac (gc_sign cfg (buildFederationGatewayAcceptedMessage ac)) = Inr (sid, caps)"
    using assms(1) known pid by (simp add: client_accept_def paired_def ac_def)
  have peer: "is_peer g' (am_peerInstanceId (cp_message p)) (cp_publicKeyPem p)"
    using a(1)
  proof (cases rule: authenticate_cases)
    case (enrolled token k i r q)
    then show ?thesis using m(3,4,5) truthy_text_Some [OF enrolled(3)]
      by (auto simp: is_peer_def g'_def getPeer_def upsertPeer_def rowToPeer_def Let_def)
  next
    case (reconnected k stored q)
    have "is_peer ?g (am_peerInstanceId (cp_message p)) (cp_publicKeyPem p)"
      using assms(2) reconnected(1) m(5) by (simp add: expected_at_def)
    then have "pl_pinnedPublicKeyPem (fp_payload stored) = Some (cp_publicKeyPem p)"
      using reconnected(2) m(3) by (auto simp: is_peer_def)
    then show ?thesis using reconnected m(3)
      by (auto simp: is_peer_def g'_def getPeer_def upsertPeer_def rowToPeer_def Let_def)
  qed simp
  have "expected_at cfg later (p\<lparr>cp_mode := ReconnectMode\<rparr>) g'" for later
    using assms(2) peer by (simp add: expected_at_def)
  moreover obtain s where "map_get (gw_sessions g') sid = Some s" "se_active s" "se_peerId s = pe_id peer" "se_capabilities s = caps"
    by (simp add: g'_def openSession_def Let_def)
  ultimately show ?thesis using m(1) g acc pid by (intro exI [of _ m] exI [of _ g'] exI [of _ ac]) (auto simp: ac_def)
qed

definition demo_client :: client_params where
  "demo_client = \<lparr>cp_mode = EnrollMode, cp_gatewayInstanceId = ''gw-1'', cp_gatewayPublicKeyPem = ''GK'', cp_publicKeyPem = ''PK'',
     cp_verify = (\<lambda>k m s. s = k), cp_sign = (\<lambda>m. ''PK''), cp_message = demo_message\<rparr>"

theorem honest_exchange_agrees_witness:
  "\<exists>m g' a signature s. client_answer demo_client ''ch'' (gateway_challenge demo_gateway ''n'') = Inr m
    \<and> gateway_auth demo_gateway ''n'' ''ch'' 2000 ''s1'' False m
        (run_gateway demo_gateway [GwInvite ''inv'' ''tok'' 1000 None None ''wss://gw'']) = (g', AuthAccepted a signature)
    \<and> map_get (gw_sessions g') ''s1'' = Some s \<and> se_active s"
proof -
  let ?evs = "[GwInvite ''inv'' ''tok'' 1000 None None ''wss://gw'']"
  have p: "paired demo_gateway demo_client" by (simp add: paired_def demo_client_def demo_gateway_def)
  have "\<exists>r. enrollment (run_gateway demo_gateway ?evs) ''inv'' = Some r \<and> er_status r = EnrollPending \<and> 2000 < er_expiresAt r
      \<and> er_tokenHmac r = hmacToken (gc_hmac demo_gateway) ''tok'' (er_generatedAt r)"
    by (simp add: enrollment_def demo_eval)
  then have "holds_invite demo_gateway (run_gateway demo_gateway ?evs) 2000 demo_message"
    unfolding holds_invite_def by (intro conjI exI [of _ "''inv''"]) (simp_all add: demo_message_def truthy_def or_else_def)
  then have "expected_at demo_gateway 2000 demo_client (run_gateway demo_gateway ?evs)"
    by (simp add: expected_at_def demo_client_def demo_facts demo_message_def)
  from honest_exchange_agrees [OF p this, of "''ch''" "''n''" "''s1''"] show ?thesis by blast
qed

text \<open>The client knows whom it talks to: what it accepts, the holder of the gateway's key signed for it.\<close>

lemma accepted_gateway_signed:
  assumes "client_accept p nonce a signature = Inr (sid, caps)" "signs_only (cp_verify p) (cp_gatewayPublicKeyPem p) signed"
  shows "\<exists>b. SignedAcceptance b \<in> signed \<and> ac_sessionId b = sid \<and> ac_nonce b = nonce
    \<and> ac_gatewayInstanceId b = cp_gatewayInstanceId p \<and> ac_peerInstanceId b = am_peerInstanceId (cp_message p)
    \<and> set caps \<subseteq> set (ac_capabilities b)"
proof -
  let ?a = "a\<lparr>ac_peerInstanceId := am_peerInstanceId (cp_message p)\<rparr>"
  have c: "cp_verify p (cp_gatewayPublicKeyPem p) (buildFederationGatewayAcceptedMessage ?a) signature" "ac_nonce a = nonce"
    "sid = ac_sessionId a" "caps = filterKnownFederationCapabilities (ac_capabilities a)" "ac_gatewayInstanceId a = cp_gatewayInstanceId p"
    using assms(1) by (auto simp: client_accept_def split: if_splits)
  obtain x where x: "x \<in> signed" "signed_text x = buildFederationGatewayAcceptedMessage ?a"
    using assms(2) c(1) unfolding signs_only_def by (metis imageE)
  obtain b where "x = SignedAcceptance b" "mset (ac_capabilities b) = mset (ac_capabilities ?a)"
    "ac_peerInstanceId b = ac_peerInstanceId ?a" "ac_sessionId b = ac_sessionId ?a" "ac_nonce b = ac_nonce ?a"
    "ac_gatewayInstanceId b = ac_gatewayInstanceId ?a"
    by (rule acceptance_text_eq [OF x(2)])
  then show ?thesis using x(1) c(2-5) mset_eq_setD
    by (intro exI [of _ b]) (auto simp: filterKnownFederationCapabilities_def dest: mset_eq_setD)
qed

end
