(* ===== verification/MessagingPairing.thy ===== *)
theory MessagingPairing
  imports JsonText
begin

text \<open>
  Pairing codes: how the operator authorizes someone on a chat service by having them send a code.
  Models \<open>messaging-pairing-store.ts\<close>, the pairing half of \<open>messaging-runtime.ts\<close> (generation, the
  inbound message), the recognition of a code in a message (\<open>packages/messaging/interface/src/index.ts\<close>)
  and the approval and rejection of \<open>ipc/messaging-status.ts\<close>. The table is a map of rows; the HMAC
  under the store's secret is a parameter; the lists of authorized contacts of the settings are a map
  from platform and list to ids. The approval awaits twice, so it is three steps.
\<close>

subsection \<open>The code in a message\<close>

definition MESSAGING_PAIRING_SCAN_MAX_CHARS :: nat where "MESSAGING_PAIRING_SCAN_MAX_CHARS = 512"

text \<open>The white space of \<open>isAsciiWhitespace\<close> that is a Latin-1 character.\<close>

definition isAsciiWhitespace :: "char \<Rightarrow> bool" where
  "isAsciiWhitespace c \<longleftrightarrow> (of_char c :: nat) \<in> {32, 9, 10, 11, 12, 13, 160}"

text \<open>\<open>cur\<close>: the token under way, reversed.\<close>

fun scan_tokens :: "string \<Rightarrow> string option \<Rightarrow> string list" where
  "scan_tokens [] None = []"
| "scan_tokens [] (Some cur) = [rev cur]"
| "scan_tokens (c # cs) cur = (if isAsciiWhitespace c
     then (case cur of None \<Rightarrow> [] | Some t \<Rightarrow> [rev t]) @ scan_tokens cs None
     else scan_tokens cs (Some (c # or_else cur [])))"

definition pairingScanTokens :: "string \<Rightarrow> string list" where
  "pairingScanTokens text =
     (let n = MESSAGING_PAIRING_SCAN_MAX_CHARS; tokens = scan_tokens (take n text) None
      in if length text \<le> n \<or> (of_char (text ! n) :: nat) \<le> 32 \<or> isAsciiWhitespace (text ! (n - 1)) then tokens else butlast tokens)"

definition lower_char :: "char \<Rightarrow> char" where
  "lower_char c = (let n = of_char c :: nat in if 65 \<le> n \<and> n \<le> 90 then char_of (n + 32) else c)"

definition isMessagingPairingCommand :: "string \<Rightarrow> bool" where
  "isMessagingPairingCommand command \<longleftrightarrow> command \<noteq> [] \<and>
     map lower_char (case command of c # cs \<Rightarrow> if c = CHR ''/'' then cs else command | [] \<Rightarrow> []) \<in> {''pair'', ''pwragent_pair''}"

definition PAIRING_TOKEN_ALPHABET :: string where
  "PAIRING_TOKEN_ALPHABET = ''123456789ABCDEFGHJKLMNPQRSTUVWXYZabcdefghijkmnopqrstuvwxyz''"

text \<open>The code drawn from random bytes.\<close>

definition random_pairing_token :: "nat list \<Rightarrow> string" where
  "random_pairing_token bytes = map (\<lambda>k. PAIRING_TOKEN_ALPHABET ! ((bytes ! (k mod length bytes)) mod length PAIRING_TOKEN_ALPHABET)) [0..<32]"

text \<open>The pattern: 32 characters of the alphabet.\<close>

definition is_pairing_token :: "string \<Rightarrow> bool" where
  "is_pairing_token t \<longleftrightarrow> length t = 32 \<and> set t \<subseteq> set PAIRING_TOKEN_ALPHABET"

fun token_after :: "string list \<Rightarrow> string option" where
  "token_after (p # t # ts) = (if isMessagingPairingCommand p \<and> is_pairing_token t then Some t else token_after (t # ts))"
| "token_after _ = None"

definition extractMessagingPairingToken :: "string \<Rightarrow> string option" where
  "extractMessagingPairingToken text = token_after (pairingScanTokens text)"

fun looks_like :: "string list \<Rightarrow> string option \<Rightarrow> bool \<Rightarrow> bool" where
  "looks_like [] previous skipped = False"
| "looks_like (t # ts) previous skipped =
     (if \<not> skipped \<and> take 1 t = ''@'' then looks_like ts previous True
      else if (case previous of None \<Rightarrow> False | Some p \<Rightarrow> isMessagingPairingCommand p) then t \<noteq> []
      else looks_like ts (Some t) skipped)"

definition looksLikePairingAttempt :: "string \<Rightarrow> bool" where
  "looksLikePairingAttempt text = looks_like (pairingScanTokens text) None False"

datatype inbound_kind = InText string | InCommand string "string list" | InMedia "string option" | InOther

definition tokenFromInboundEvent :: "inbound_kind \<Rightarrow> string option" where
  "tokenFromInboundEvent k = (case k of
     InText t \<Rightarrow> extractMessagingPairingToken t
   | InCommand c args \<Rightarrow> (if isMessagingPairingCommand c then
       (case args of a # _ \<Rightarrow> if is_pairing_token a then Some a else None | [] \<Rightarrow> None) else None)
   | InMedia (Some t) \<Rightarrow> (if t = [] then None else extractMessagingPairingToken t)
   | _ \<Rightarrow> None)"

subsection \<open>Entries\<close>

datatype pairing_scope = ScopeUserDm | ScopeBucket | ScopeUserInGroup | ScopeObserved

fun scope_text :: "pairing_scope \<Rightarrow> string" where
  "scope_text ScopeUserDm = ''user_dm''"
| "scope_text ScopeBucket = ''bucket''"
| "scope_text ScopeUserInGroup = ''user_in_group''"
| "scope_text ScopeObserved = ''observed''"

datatype pairing_status = PairPending | PairObserved | PairApproved | PairRejected | PairExpired | PairConsumed

datatype approval_target = TargetUser | TargetConversation | TargetTeam

record observed_actor =
  oa_id :: string
  oa_displayName :: "string option"
  oa_phoneNumber :: "string option"
  oa_username :: "string option"

record observed_chat =
  oc_id :: string
  oc_kind :: string
  oc_title :: "string option"
  oc_parentId :: "string option"
  oc_parentTitle :: "string option"
  oc_ancestorTitle :: "string option"
  oc_bucketId :: "string option"

record pairing_row =
  pr_tokenHmac :: string
  pr_platform :: string
  pr_instanceId :: string
  pr_scope :: pairing_scope
  pr_status :: pairing_status
  pr_generatedAt :: int
  pr_expiresAt :: int
  pr_observedAt :: "int option"
  pr_actor :: "observed_actor option"
  pr_chat :: "observed_chat option"
  pr_failure :: "string option"
  pr_targets :: "approval_target list"

type_synonym pairing_table = "(string, pairing_row) jsmap"

definition pairing_hmac :: "(string \<Rightarrow> string) \<Rightarrow> string \<Rightarrow> string \<Rightarrow> string \<Rightarrow> pairing_scope \<Rightarrow> int \<Rightarrow> string" where
  "pairing_hmac hmac token platform instanceId scope generatedAt = hmac (token @ CHR 0x00 # platform @ CHR 0x00 # instanceId
     @ CHR 0x00 # scope_text scope @ CHR 0x00 # int_text generatedAt)"

definition pairing_create ::
  "(string \<Rightarrow> string) \<Rightarrow> pairing_table \<Rightarrow> string \<Rightarrow> string \<Rightarrow> string \<Rightarrow> string \<Rightarrow> pairing_scope \<Rightarrow> int \<Rightarrow> int \<Rightarrow> pairing_table" where
  "pairing_create hmac t i token platform instanceId scope generatedAt expiresAt =
     (if map_has t i then t else map_set t i
        \<lparr>pr_tokenHmac = pairing_hmac hmac token platform instanceId scope generatedAt, pr_platform = platform,
         pr_instanceId = instanceId, pr_scope = scope, pr_status = PairPending, pr_generatedAt = generatedAt,
         pr_expiresAt = expiresAt, pr_observedAt = None, pr_actor = None, pr_chat = None, pr_failure = None, pr_targets = []\<rparr>)"

definition expire_pairing :: "int \<Rightarrow> pairing_row \<Rightarrow> pairing_row" where
  "expire_pairing now r = (if pr_status r \<in> {PairPending, PairObserved} \<and> pr_expiresAt r \<le> now
     then r\<lparr>pr_status := PairExpired\<rparr> else r)"

definition expireBefore :: "pairing_table \<Rightarrow> int \<Rightarrow> pairing_table" where
  "expireBefore t now = map (\<lambda>(i, r). (i, expire_pairing now r)) t"

definition findMatchingPending ::
  "(string \<Rightarrow> string) \<Rightarrow> pairing_table \<Rightarrow> string \<Rightarrow> string \<Rightarrow> string \<Rightarrow> int \<Rightarrow> pairing_table \<times> (string \<times> pairing_row) option" where
  "findMatchingPending hmac t token platform instanceId now =
     (let t1 = expireBefore t now;
          rows = sort_key (\<lambda>(_, r). - pr_generatedAt r) (filter (\<lambda>(_, r). pr_platform r = platform \<and> pr_instanceId r = instanceId
            \<and> pr_status r = PairPending \<and> pr_expiresAt r > now) t1)
      in (t1, find (\<lambda>(_, r). pairing_hmac hmac token (pr_platform r) (pr_instanceId r) (pr_scope r) (pr_generatedAt r) = pr_tokenHmac r) rows))"

definition countOutstanding :: "pairing_table \<Rightarrow> string \<Rightarrow> string \<Rightarrow> int \<Rightarrow> pairing_table \<times> nat" where
  "countOutstanding t platform instanceId now =
     (let t1 = expireBefore t now
      in (t1, length (filter (\<lambda>(_, r). pr_platform r = platform \<and> pr_instanceId r = instanceId
            \<and> pr_status r \<in> {PairPending, PairObserved} \<and> pr_expiresAt r > now) t1)))"

definition update_pairing :: "pairing_table \<Rightarrow> string \<Rightarrow> (pairing_row \<Rightarrow> pairing_row) \<Rightarrow> pairing_table" where
  "update_pairing t i f = (case map_get t i of None \<Rightarrow> t | Some r \<Rightarrow> map_set t i (f r))"

definition markObserved :: "pairing_table \<Rightarrow> string \<Rightarrow> int \<Rightarrow> observed_actor \<Rightarrow> observed_chat \<Rightarrow> pairing_table" where
  "markObserved t i observedAt actor chat = update_pairing t i (\<lambda>r. if pr_status r \<noteq> PairPending then r
     else r\<lparr>pr_status := PairObserved, pr_observedAt := Some observedAt, pr_actor := Some actor, pr_chat := Some chat,
       pr_failure := None, pr_targets := []\<rparr>)"

text \<open>An empty reason counts as none.\<close>

definition markStatus :: "pairing_table \<Rightarrow> string \<Rightarrow> pairing_status \<Rightarrow> string option \<Rightarrow> pairing_table" where
  "markStatus t i status reason = update_pairing t i (\<lambda>r. r\<lparr>pr_status := status,
     pr_failure := (if reason = Some [] then None else reason)\<rparr>)"

definition recordApproval :: "pairing_table \<Rightarrow> string \<Rightarrow> approval_target \<Rightarrow> pairing_table" where
  "recordApproval t i target = update_pairing t i (\<lambda>r. if pr_status r \<noteq> PairObserved then r
     else r\<lparr>pr_targets := (if target \<in> set (pr_targets r) then pr_targets r else pr_targets r @ [target])\<rparr>)"

definition list_pairings :: "pairing_table \<Rightarrow> string option \<Rightarrow> bool \<Rightarrow> int \<Rightarrow> pairing_table \<times> pairing_table" where
  "list_pairings t platform includeResolved now =
     (let t1 = expireBefore t now
      in (t1, sort_key (\<lambda>(_, r). - pr_generatedAt r) (filter (\<lambda>(_, r). (case truthy platform of None \<Rightarrow> True | Some p \<Rightarrow> pr_platform r = p)
            \<and> (includeResolved \<or> pr_status r \<in> {PairPending, PairObserved})) t1)))"

subsection \<open>Generation and the inbound message\<close>

definition PAIRING_INSTANCE_ID :: string where "PAIRING_INSTANCE_ID = ''default''"
definition DEFAULT_PAIRING_TTL_MS :: int where "DEFAULT_PAIRING_TTL_MS = 300000"
definition MIN_PAIRING_TTL_MS :: int where "MIN_PAIRING_TTL_MS = 60000"
definition MAX_PAIRING_TTL_MS :: int where "MAX_PAIRING_TTL_MS = 1800000"
definition MAX_OUTSTANDING_PAIRING_TOKENS :: nat where "MAX_OUTSTANDING_PAIRING_TOKENS = 5"

text \<open>A time to live that is no finite number is \<open>None\<close>; a fraction is already cut off.\<close>

definition clampPairingTtlMs :: "int option \<Rightarrow> int" where
  "clampPairingTtlMs ttl = (case ttl of None \<Rightarrow> DEFAULT_PAIRING_TTL_MS
     | Some t \<Rightarrow> min (max t MIN_PAIRING_TTL_MS) MAX_PAIRING_TTL_MS)"

text \<open>\<open>settings\<close>: the ids authorized per platform and list.\<close>

type_synonym contact_lists = "(string \<times> string, string list) jsmap"

record approval_flight =
  af_id :: string
  af_row :: pairing_row
  af_target :: "approval_target option"
  af_consume :: "bool option"
  af_written :: bool

record pairing_world =
  pw_table :: pairing_table
  pw_settings :: contact_lists
  pw_flights :: "approval_flight list"

definition generatePairingToken ::
  "(string \<Rightarrow> string) \<Rightarrow> string \<Rightarrow> string \<Rightarrow> string \<Rightarrow> string option \<Rightarrow> pairing_scope \<Rightarrow> int option \<Rightarrow> int \<Rightarrow> pairing_world \<Rightarrow>
   pairing_world" where
  "generatePairingToken hmac i token platform instanceId scope ttl now w =
     (let inst = or_else instanceId PAIRING_INSTANCE_ID; (t, n) = countOutstanding (pw_table w) platform inst now
      in w\<lparr>pw_table := (if MAX_OUTSTANDING_PAIRING_TOKENS \<le> n then t
           else pairing_create hmac t i token platform inst scope now (now + clampPairingTtlMs ttl))\<rparr>)"

record pairing_message =
  pm_platform :: string
  pm_kind :: inbound_kind
  pm_actor :: observed_actor
  pm_chat :: observed_chat
  pm_guildId :: "string option"
  pm_chatId :: "string option"
  pm_teamId :: "string option"

definition bucketIdFromEvent :: "pairing_message \<Rightarrow> string" where
  "bucketIdFromEvent m = (case truthy (pm_guildId m) of Some g \<Rightarrow> g
     | None \<Rightarrow> (case pm_chatId m of Some c \<Rightarrow> c
       | None \<Rightarrow> (case truthy (pm_teamId m) of Some t \<Rightarrow> t
         | None \<Rightarrow> or_else (oc_parentId (pm_chat m)) (oc_id (pm_chat m)))))"

definition pairingScopeFailure :: "pairing_row \<Rightarrow> pairing_message \<Rightarrow> string option" where
  "pairingScopeFailure r m =
     (let isDm = (oc_kind (pm_chat m) = ''dm'')
      in case pr_scope r of
        ScopeObserved \<Rightarrow> None
      | ScopeUserDm \<Rightarrow> if \<not> isDm then Some ''token was generated for a DM but was pasted in a group/channel'' else None
      | ScopeUserInGroup \<Rightarrow> if isDm then Some ''token was generated for a user-in-group flow but was pasted in a DM'' else None
      | ScopeBucket \<Rightarrow> if isDm then Some ''token was generated for a group/workspace bucket but was pasted in a DM'' else None)"

definition observedChatFromEvent :: "pairing_message \<Rightarrow> observed_chat" where
  "observedChatFromEvent m = (pm_chat m)\<lparr>oc_bucketId := Some (bucketIdFromEvent m)\<rparr>"

text \<open>The second component says whether the message was taken as a pairing attempt.\<close>

definition handlePairingInbound :: "(string \<Rightarrow> string) \<Rightarrow> pairing_message \<Rightarrow> int \<Rightarrow> pairing_world \<Rightarrow> pairing_world \<times> bool" where
  "handlePairingInbound hmac m now w = (case tokenFromInboundEvent (pm_kind m) of
     None \<Rightarrow> (w, False)
   | Some token \<Rightarrow>
      (case findMatchingPending hmac (pw_table w) token (pm_platform m) PAIRING_INSTANCE_ID now of
         (t, None) \<Rightarrow> (w\<lparr>pw_table := t\<rparr>, True)
       | (t, Some (i, r)) \<Rightarrow>
          (case pairingScopeFailure r m of
             Some why \<Rightarrow> (w\<lparr>pw_table := markStatus t i PairRejected (Some why)\<rparr>, True)
           | None \<Rightarrow> (w\<lparr>pw_table := markObserved t i now (pm_actor m) (observedChatFromEvent m)\<rparr>, True))))"

subsection \<open>Approval\<close>

definition SLACK_MAX_ID_LENGTH :: nat where "SLACK_MAX_ID_LENGTH = 64"

definition validateSlackId :: "string \<Rightarrow> char list \<Rightarrow> bool" where
  "validateSlackId v prefixes \<longleftrightarrow> v \<noteq> [] \<and> length v \<le> SLACK_MAX_ID_LENGTH \<and> hd v \<in> set prefixes
     \<and> list_all (\<lambda>c. let n = of_char c :: nat in 48 \<le> n \<and> n \<le> 57 \<or> 65 \<le> n \<and> n \<le> 90) (tl v)"

text \<open>The id an approval authorizes; \<open>None\<close> where the code throws.\<close>

definition contactForPairing :: "pairing_row \<Rightarrow> approval_target option \<Rightarrow> string option" where
  "contactForPairing r target = (case (pr_actor r, pr_chat r) of
     (Some actor, Some chat) \<Rightarrow>
      (let slack = (pr_platform r = ''slack'')
       in if target = Some TargetTeam then
           (case truthy (oc_bucketId chat) of None \<Rightarrow> None
            | Some b \<Rightarrow> if slack \<and> \<not> validateSlackId b ''T'' then None else Some b)
          else if target = Some TargetConversation \<or> target = None \<and> pr_scope r = ScopeBucket then
            (if slack then if validateSlackId (oc_id chat) ''CGD'' then Some (oc_id chat) else None
             else Some (or_else (oc_bucketId chat) (or_else (oc_parentId chat) (oc_id chat))))
          else if slack \<and> \<not> validateSlackId (oa_id actor) ''UW'' then None
          else Some (oa_id actor))
   | _ \<Rightarrow> None)"

text \<open>The lists an approval adds to, with the ids; \<open>None\<close> where the code throws.\<close>

definition buildPairingApprovalPatch :: "pairing_row \<Rightarrow> approval_target option \<Rightarrow> (string \<times> string) list option" where
  "buildPairingApprovalPatch r target0 = (case (pr_status r, pr_actor r, pr_chat r) of
     (PairObserved, Some actor, Some chat) \<Rightarrow>
      (let p = pr_platform r; target = (if p = ''slack'' then target0 else None); bucket = (pr_scope r = ScopeBucket)
       in case contactForPairing r target of
            None \<Rightarrow> None
          | Some i \<Rightarrow>
             (if p = ''telegram'' then Some [(if bucket then ''authorizedSupergroups'' else ''authorizedUserIds'', i)]
              else if p = ''discord'' then Some [(if bucket then ''authorizedGuilds'' else ''authorizedUserIds'', i)]
              else if p = ''mattermost'' then if bucket then None else Some [(''authorizedUserIds'', i)]
              else if p = ''slack'' then
                (if target = Some TargetTeam then Some [(''authorizedWorkspaces'', i)]
                 else if target = Some TargetConversation \<or> target = None \<and> bucket
                 then if oc_kind chat = ''dm'' then None else Some [(''authorizedChannels'', i)]
                 else Some [(''authorizedUserIds'', i)])
              else if p = ''feishu'' then
                (if bucket then Some [(''authorizedChats'', oc_id chat)]
                 else if pr_scope r = ScopeUserInGroup \<and> oc_kind chat \<noteq> ''dm''
                 then Some [(''authorizedChats'', oc_id chat), (''authorizedUserIds'', i)]
                 else Some [(''authorizedUserIds'', i)])
              else if p = ''line'' then
                (if bucket then (case i of
                     c # _ \<Rightarrow> if c = CHR ''C'' then Some [(''authorizedGroups'', i)]
                       else if c = CHR ''R'' then Some [(''authorizedRooms'', i)] else None
                   | [] \<Rightarrow> None)
                 else Some [(''authorizedUserIds'', i)])
              else None))
   | _ \<Rightarrow> None)"

definition add_contact :: "string \<Rightarrow> contact_lists \<Rightarrow> string \<times> string \<Rightarrow> contact_lists" where
  "add_contact platform s x = (let cur = or_else (map_get s (platform, fst x)) []
     in map_set s (platform, fst x) (if snd x \<in> set cur then cur else cur @ [snd x]))"

text \<open>The read of the entry, before the lookup of the workspace name.\<close>

definition approve_begin :: "string \<Rightarrow> approval_target option \<Rightarrow> bool option \<Rightarrow> int \<Rightarrow> pairing_world \<Rightarrow> pairing_world" where
  "approve_begin i target consume now w =
     (let t = expireBefore (pw_table w) now
      in case map_get t i of
           None \<Rightarrow> w\<lparr>pw_table := t\<rparr>
         | Some r \<Rightarrow> w\<lparr>pw_table := t, pw_flights := pw_flights w @
             [\<lparr>af_id = i, af_row = r, af_target = target, af_consume = consume, af_written = False\<rparr>]\<rparr>)"

text \<open>The patch from the settings as they are, and its write, as one step; a throw, also of the write (\<open>saved\<close> is false), ends the approval.\<close>

definition approve_write :: "nat \<Rightarrow> bool \<Rightarrow> pairing_world \<Rightarrow> pairing_world" where
  "approve_write k saved w = (if k < length (pw_flights w) \<and> \<not> af_written (pw_flights w ! k) then
     (let f = pw_flights w ! k
      in case if saved then buildPairingApprovalPatch (af_row f) (af_target f) else None of
           None \<Rightarrow> w\<lparr>pw_flights := take k (pw_flights w) @ drop (Suc k) (pw_flights w)\<rparr>
         | Some added \<Rightarrow> w\<lparr>pw_settings := foldl (add_contact (pr_platform (af_row f))) (pw_settings w) added,
             pw_flights := (pw_flights w)[k := f\<lparr>af_written := True\<rparr>]\<rparr>)
     else w)"

definition approve_finish :: "nat \<Rightarrow> pairing_world \<Rightarrow> pairing_world" where
  "approve_finish k w = (if k < length (pw_flights w) \<and> af_written (pw_flights w ! k) then
     (let f = pw_flights w ! k;
          stay = (af_consume f = Some False \<and> pr_platform (af_row f) = ''slack'' \<and> pr_scope (af_row f) = ScopeObserved
            \<and> af_target f \<noteq> None)
      in w\<lparr>pw_table := (if stay then recordApproval (pw_table w) (af_id f) (the (af_target f))
             else markStatus (pw_table w) (af_id f) PairConsumed None),
           pw_flights := take k (pw_flights w) @ drop (Suc k) (pw_flights w)\<rparr>)
     else w)"

definition reject_pairing :: "string \<Rightarrow> int \<Rightarrow> pairing_world \<Rightarrow> pairing_world" where
  "reject_pairing i now w =
     (let t = expireBefore (pw_table w) now;
          partial = (case map_get t i of None \<Rightarrow> False | Some r \<Rightarrow> pr_targets r \<noteq> [])
      in w\<lparr>pw_table := markStatus t i (if partial then PairConsumed else PairRejected) None\<rparr>)"

datatype pairing_event =
    PairGenerate string string string "string option" pairing_scope "int option" int
  | PairMessage pairing_message int
  | PairList int
  | PairApprove string "approval_target option" "bool option" int
  | PairWrite nat bool
  | PairFinish nat
  | PairReject string int

fun pairing_step :: "(string \<Rightarrow> string) \<Rightarrow> pairing_world \<Rightarrow> pairing_event \<Rightarrow> pairing_world" where
  "pairing_step hmac w (PairGenerate i token platform instanceId scope ttl now) =
     generatePairingToken hmac i token platform instanceId scope ttl now w"
| "pairing_step hmac w (PairMessage m now) = fst (handlePairingInbound hmac m now w)"
| "pairing_step hmac w (PairList now) = w\<lparr>pw_table := fst (list_pairings (pw_table w) None True now)\<rparr>"
| "pairing_step hmac w (PairApprove i target consume now) = approve_begin i target consume now w"
| "pairing_step hmac w (PairWrite k saved) = approve_write k saved w"
| "pairing_step hmac w (PairFinish k) = approve_finish k w"
| "pairing_step hmac w (PairReject i now) = reject_pairing i now w"

definition pairing_new :: "contact_lists \<Rightarrow> pairing_world" where
  "pairing_new settings = \<lparr>pw_table = [], pw_settings = settings, pw_flights = []\<rparr>"

end
