(* ===== verification/MessagingPairingProps.thy ===== *)
theory MessagingPairingProps
  imports MessagingPairing OneTimeTokens
begin

text \<open>
  What pairing guarantees: every contact it authorizes sent a code the operator had generated, in a
  chat of the kind the code was for, before the code expired, and a code authorizes the sender of one
  message only.
\<close>

declare map_of_eq_Some_iff [simp del]

subsection \<open>The code in a message\<close>

lemma scan_tokens_nonempty: "cur \<noteq> Some [] \<Longrightarrow> [] \<notin> set (scan_tokens cs cur)"
  by (induction cs cur rule: scan_tokens.induct) (auto simp: or_else_def split: option.splits)

lemma token_starts:
  "isMessagingPairingCommand p \<Longrightarrow> take 1 p \<noteq> ''@''" "is_pairing_token t \<Longrightarrow> t \<noteq> [] \<and> take 1 t \<noteq> ''@''"
proof -
  show "isMessagingPairingCommand p \<Longrightarrow> take 1 p \<noteq> ''@''"
    by (cases p) (auto simp: isMessagingPairingCommand_def lower_char_def Let_def split: if_splits)
  show "is_pairing_token t \<Longrightarrow> t \<noteq> [] \<and> take 1 t \<noteq> ''@''"
    by (cases t) (auto simp: is_pairing_token_def PAIRING_TOKEN_ALPHABET_def)
qed

lemma token_looks_like: "token_after ts = Some t \<Longrightarrow> [] \<notin> set ts \<Longrightarrow> looks_like ts previous skipped"
proof (induction ts arbitrary: previous skipped rule: token_after.induct)
  case (1 p u ts)
  show ?case
  proof (cases "isMessagingPairingCommand p \<and> is_pairing_token u")
    case True
    then show ?thesis using token_starts 1(3) by (auto split: option.splits)
  next
    case False
    have "looks_like (u # ts) q s" for q s using 1(1) [OF False] 1(2,3) False by (auto split: if_splits)
    moreover have "p \<noteq> []" using 1(3) by auto
    ultimately show ?thesis unfolding looks_like.simps(2) [of p] by presburger
  qed
qed simp_all

text \<open>Any random bytes give a code that the pattern takes.\<close>

lemma random_token_valid: "is_pairing_token (random_pairing_token bytes)"
proof -
  have "length PAIRING_TOKEN_ALPHABET \<noteq> 0" by (simp add: PAIRING_TOKEN_ALPHABET_def)
  then show ?thesis by (auto simp: is_pairing_token_def random_pairing_token_def)
qed

text \<open>A message with a code passes the looser test of the provider adapters.\<close>

lemma code_looks_like_attempt: "extractMessagingPairingToken text = Some t \<Longrightarrow> looksLikePairingAttempt text"
proof -
  have "[] \<notin> set (pairingScanTokens text)"
    using scan_tokens_nonempty [of None] by (auto simp: pairingScanTokens_def Let_def dest: in_set_butlastD)
  then show "extractMessagingPairingToken text = Some t \<Longrightarrow> looksLikePairingAttempt text"
    unfolding extractMessagingPairingToken_def looksLikePairingAttempt_def by (rule token_looks_like [rotated])
qed

subsection \<open>The table\<close>

lemma expireBefore_get:
  "map_get (expireBefore t now) i = map_option (expire_pairing now) (map_get t i)"
  "map_keys (expireBefore t now) = map_keys t"
  by (simp_all add: expireBefore_def map_get_map) (simp add: case_prod_unfold comp_def)

lemma update_pairing_get:
  "map_get (update_pairing t i f) j = (if j = i then map_option f (map_get t i) else map_get t j)"
  "wf_map t \<Longrightarrow> wf_map (update_pairing t i f)"
  by (auto simp: update_pairing_def split: option.splits)

lemma matching_table: "fst (findMatchingPending hmac t token p inst now) = expireBefore t now"
  by (simp add: findMatchingPending_def Let_def)

lemma matching_row:
  assumes "wf_map t" "snd (findMatchingPending hmac t token p inst now) = Some (i, r)"
  shows "map_get t i = Some r \<and> pr_status r = PairPending \<and> now < pr_expiresAt r \<and> pr_platform r = p
    \<and> pr_instanceId r = inst \<and> pairing_hmac hmac token (pr_platform r) (pr_instanceId r) (pr_scope r) (pr_generatedAt r) = pr_tokenHmac r"
proof -
  have f: "(i, r) \<in> set (expireBefore t now)" "pr_status r = PairPending" "now < pr_expiresAt r" "pr_platform r = p" "pr_instanceId r = inst"
    "pairing_hmac hmac token (pr_platform r) (pr_instanceId r) (pr_scope r) (pr_generatedAt r) = pr_tokenHmac r"
    using assms(2) by (auto simp: findMatchingPending_def Let_def dest!: find_in)
  have "wf_map (expireBefore t now)" using assms(1) by (simp only: expireBefore_get(2))
  then have "map_get (expireBefore t now) i = Some r" using f(1) wf_map_get_in by fast
  then obtain r' where r': "map_get t i = Some r'" "r = expire_pairing now r'"
    by (auto simp: expireBefore_get(1))
  then have "r = r'" using f(2) by (auto simp: expire_pairing_def split: if_splits)
  then show ?thesis using f(2-6) r' by simp
qed

subsection \<open>Rows\<close>

text \<open>What may happen to a row: it keeps its origin, it never becomes pending again, and what was observed stays.\<close>

definition code_evolves :: "pairing_row \<Rightarrow> pairing_row \<Rightarrow> bool" where
  "code_evolves r r' \<longleftrightarrow> pr_expiresAt r' = pr_expiresAt r \<and> pr_generatedAt r' = pr_generatedAt r
     \<and> pr_tokenHmac r' = pr_tokenHmac r \<and> pr_platform r' = pr_platform r \<and> pr_scope r' = pr_scope r
     \<and> pr_instanceId r' = pr_instanceId r
     \<and> (pr_status r \<noteq> PairPending \<longrightarrow> pr_status r' \<noteq> PairPending)"

lemma code_evolves_trans: "code_evolves r r' \<Longrightarrow> code_evolves r' r'' \<Longrightarrow> code_evolves r r''"
  by (auto simp: code_evolves_def)

definition table_evolves :: "pairing_table \<Rightarrow> pairing_table \<Rightarrow> bool" where
  "table_evolves t t' \<longleftrightarrow> (wf_map t \<longrightarrow> wf_map t')
     \<and> (\<forall>i r. map_get t i = Some r \<longrightarrow> (\<exists>r'. map_get t' i = Some r' \<and> code_evolves r r'))"

lemma table_evolves_intros:
  "table_evolves t t"
  "table_evolves t t' \<Longrightarrow> table_evolves t' t'' \<Longrightarrow> table_evolves t t''"
  "(\<And>r. code_evolves r (f r)) \<Longrightarrow> table_evolves t (update_pairing t i f)"
  "table_evolves t (expireBefore t now)"
proof -
  show "table_evolves t t" for t by (simp add: table_evolves_def code_evolves_def)
  show "table_evolves t t' \<Longrightarrow> table_evolves t' t'' \<Longrightarrow> table_evolves t t''"
    unfolding table_evolves_def using code_evolves_trans by meson
  show "(\<And>r. code_evolves r (f r)) \<Longrightarrow> table_evolves t (update_pairing t i f)"
    unfolding table_evolves_def using update_pairing_get(2) by (auto simp: update_pairing_get(1) code_evolves_def)
  have "code_evolves r (expire_pairing now r)" for r by (auto simp: code_evolves_def expire_pairing_def)
  then show "table_evolves t (expireBefore t now)"
    unfolding table_evolves_def by (simp only: expireBefore_get) auto
qed

lemma marks_evolve:
  "table_evolves t (markObserved t i now a c)" "s \<noteq> PairPending \<Longrightarrow> table_evolves t (markStatus t i s why)"
  "table_evolves t (recordApproval t i target)"
  unfolding markObserved_def markStatus_def recordApproval_def
  by (rule table_evolves_intros(3), simp add: code_evolves_def)+

lemma create_evolves: "table_evolves t (pairing_create hmac t i token p inst scope g e)"
  by (auto simp: table_evolves_def pairing_create_def code_evolves_def map_has_def)

lemma pairing_step_evolves: "table_evolves (pw_table w) (pw_table (pairing_step hmac w e))"
proof (cases e)
  case (PairGenerate i token platform inst scope ttl now)
  have "table_evolves (pw_table w) (fst (countOutstanding (pw_table w) platform (or_else inst PAIRING_INSTANCE_ID) now))"
    by (simp add: countOutstanding_def Let_def table_evolves_intros(4))
  then show ?thesis using PairGenerate create_evolves table_evolves_intros(2)
    by (auto simp: generatePairingToken_def Let_def split: prod.splits)
next
  case (PairMessage m now)
  have f: "findMatchingPending hmac (pw_table w) token p inst now = (t, x) \<Longrightarrow> table_evolves (pw_table w) t" for token p inst t x
    using matching_table [of hmac "pw_table w" token p inst now] table_evolves_intros(4) by (metis fst_conv)
  then show ?thesis using PairMessage
    by (auto simp: handlePairingInbound_def split: option.splits prod.splits
        intro: f table_evolves_intros(1) table_evolves_intros(2) [OF f marks_evolve(1)] table_evolves_intros(2) [OF f marks_evolve(2)])
next
  case (PairApprove i target consume now)
  then show ?thesis by (auto simp: approve_begin_def Let_def table_evolves_intros(4) split: option.splits)
next
  case (PairWrite k saved)
  then show ?thesis by (auto simp: approve_write_def Let_def table_evolves_intros(1) split: option.splits)
next
  case (PairFinish k)
  then show ?thesis by (auto simp: approve_finish_def Let_def table_evolves_intros(1) marks_evolve)
next
  case (PairReject i now)
  then show ?thesis
    by (auto simp: reject_pairing_def Let_def intro: table_evolves_intros(2) [OF table_evolves_intros(4) marks_evolve(2)])
qed (simp add: list_pairings_def Let_def table_evolves_intros(4))

subsection \<open>Codes are one-time tokens\<close>

text \<open>The code a message redeems.\<close>

definition pairs :: "(string \<Rightarrow> string) \<Rightarrow> pairing_world \<Rightarrow> pairing_event \<Rightarrow> (string \<times> int) option" where
  "pairs hmac w e = (case e of
     PairMessage m now \<Rightarrow>
      (case tokenFromInboundEvent (pm_kind m) of
         None \<Rightarrow> None
       | Some token \<Rightarrow>
          (case snd (findMatchingPending hmac (pw_table w) token (pm_platform m) PAIRING_INSTANCE_ID now) of
             Some (i, r) \<Rightarrow> (if pairingScopeFailure r m = None then Some (i, now) else None)
           | None \<Rightarrow> None))
   | _ \<Rightarrow> None)"

lemma pairs_Some:
  assumes "wf_map (pw_table w)" "pairs hmac w e = Some (i, now)"
  obtains m token r where "e = PairMessage m now" "tokenFromInboundEvent (pm_kind m) = Some token"
    "map_get (pw_table w) i = Some r" "pr_status r = PairPending" "now < pr_expiresAt r" "pr_platform r = pm_platform m"
    "pr_instanceId r = PAIRING_INSTANCE_ID" "pairing_hmac hmac token (pr_platform r) (pr_instanceId r) (pr_scope r) (pr_generatedAt r) = pr_tokenHmac r"
    "pairingScopeFailure r m = None"
    "pairing_step hmac w e = w\<lparr>pw_table := markObserved (expireBefore (pw_table w) now) i now (pm_actor m) (observedChatFromEvent m)\<rparr>"
proof -
  obtain m token where e: "e = PairMessage m now" "tokenFromInboundEvent (pm_kind m) = Some token"
    using assms(2) by (auto simp: pairs_def split: pairing_event.splits option.splits if_splits)
  obtain r where r: "snd (findMatchingPending hmac (pw_table w) token (pm_platform m) PAIRING_INSTANCE_ID now) = Some (i, r)"
    "pairingScopeFailure r m = None"
    using assms(2) e by (auto simp: pairs_def split: option.splits if_splits)
  have st: "pairing_step hmac w e = w\<lparr>pw_table := markObserved (expireBefore (pw_table w) now) i now (pm_actor m) (observedChatFromEvent m)\<rparr>"
    using e r matching_table [of hmac "pw_table w" token "pm_platform m" PAIRING_INSTANCE_ID now]
    by (cases "findMatchingPending hmac (pw_table w) token (pm_platform m) PAIRING_INSTANCE_ID now")
      (simp add: handlePairingInbound_def)
  show thesis
    by (rule that [OF e]) (use matching_row [OF assms(1) r(1)] r(2) st in auto)
qed

definition pending_code :: "pairing_world \<Rightarrow> string \<Rightarrow> bool" where
  "pending_code w i \<longleftrightarrow> (case map_get (pw_table w) i of None \<Rightarrow> False | Some r \<Rightarrow> pr_status r = PairPending)"

interpretation codes: one_time_tokens "pairing_step hmac" "pairs hmac" "\<lambda>w i. map_get (pw_table w) i \<noteq> None" pending_code
  "\<lambda>w i. pr_expiresAt (the (map_get (pw_table w) i))" "\<lambda>w. wf_map (pw_table w)" for hmac
proof unfold_locales
  fix w :: pairing_world and e i now
  note ev = pairing_step_evolves [of w hmac e, unfolded table_evolves_def]
  show "wf_map (pw_table w) \<Longrightarrow> wf_map (pw_table (pairing_step hmac w e))" using ev by blast
  show "pending_code w i \<Longrightarrow> map_get (pw_table w) i \<noteq> None" by (auto simp: pending_code_def split: option.splits)
  show "pending_code w i \<and> now < pr_expiresAt (the (map_get (pw_table w) i))"
    if t: "wf_map (pw_table w)" "pairs hmac w e = Some (i, now)"
    by (rule pairs_Some [OF t]) (simp add: pending_code_def)
  show "\<not> pending_code (pairing_step hmac w e) i" if t: "wf_map (pw_table w)" "pairs hmac w e = Some (i, now)"
    by (rule pairs_Some [OF t]) (simp add: pending_code_def markObserved_def update_pairing_get(1) expireBefore_get(1) expire_pairing_def)
  show "map_get (pw_table (pairing_step hmac w e)) i \<noteq> None \<and>
      pr_expiresAt (the (map_get (pw_table (pairing_step hmac w e)) i)) = pr_expiresAt (the (map_get (pw_table w) i))"
    if "map_get (pw_table w) i \<noteq> None"
    using that ev by (fastforce simp: code_evolves_def)
  show "\<not> pending_code (pairing_step hmac w e) i" if "map_get (pw_table w) i \<noteq> None" "\<not> pending_code w i"
    using that ev by (fastforce simp: code_evolves_def pending_code_def)
qed

subsection \<open>Where a contact comes from\<close>

text \<open>The code \<open>i\<close> with the row \<open>r\<close> was generated during the run.\<close>

definition generated_as :: "(string \<Rightarrow> string) \<Rightarrow> pairing_event set \<Rightarrow> string \<Rightarrow> pairing_row \<Rightarrow> bool" where
  "generated_as hmac E i r \<longleftrightarrow> (\<exists>token inst ttl. PairGenerate i token (pr_platform r) inst (pr_scope r) ttl (pr_generatedAt r) \<in> E
     \<and> pr_tokenHmac r = pairing_hmac hmac token (pr_platform r) (pr_instanceId r) (pr_scope r) (pr_generatedAt r)
     \<and> pr_expiresAt r = pr_generatedAt r + clampPairingTtlMs ttl)"

text \<open>The message \<open>m\<close> redeemed the code \<open>i\<close> with the row \<open>r\<close> at \<open>now\<close>, and \<open>r\<close> shows its sender and chat.\<close>

definition observed_from :: "(string \<Rightarrow> string) \<Rightarrow> pairing_event set \<Rightarrow> (string \<times> int) set \<Rightarrow> string \<Rightarrow> pairing_row \<Rightarrow>
    pairing_message \<Rightarrow> int \<Rightarrow> bool" where
  "observed_from hmac E R i r m now \<longleftrightarrow> PairMessage m now \<in> E \<and> (i, now) \<in> R \<and> pm_platform m = pr_platform r
     \<and> pr_instanceId r = PAIRING_INSTANCE_ID
     \<and> now < pr_expiresAt r \<and> pairingScopeFailure r m = None
     \<and> (\<exists>token. tokenFromInboundEvent (pm_kind m) = Some token
          \<and> pairing_hmac hmac token (pr_platform r) (pr_instanceId r) (pr_scope r) (pr_generatedAt r) = pr_tokenHmac r)
     \<and> pr_actor r = Some (pm_actor m) \<and> pr_chat r = Some (observedChatFromEvent m)"

definition row_paired :: "(string \<Rightarrow> string) \<Rightarrow> pairing_event set \<Rightarrow> (string \<times> int) set \<Rightarrow> string \<Rightarrow> pairing_row \<Rightarrow> bool" where
  "row_paired hmac E R i r \<longleftrightarrow> generated_as hmac E i r
     \<and> (pr_actor r = None \<and> pr_chat r = None \<or> (\<exists>m now. observed_from hmac E R i r m now))"

text \<open>The ids an approval of a row redeemed by \<open>m\<close> may put into the list of that name.\<close>

definition approvable :: "pairing_scope \<Rightarrow> pairing_message \<Rightarrow> string \<Rightarrow> string \<Rightarrow> bool" where
  "approvable scope m lst c \<longleftrightarrow>
     (if lst = ''authorizedUserIds'' then c = oa_id (pm_actor m)
      else c \<in> {oc_id (pm_chat m), bucketIdFromEvent m} \<and> (scope = ScopeUserDm \<longrightarrow> pm_platform m = ''slack''))"

definition approved_in :: "pairing_event set \<Rightarrow> string \<Rightarrow> bool" where
  "approved_in E i \<longleftrightarrow> (\<exists>target consume now. PairApprove i target consume now \<in> E)"

definition contact_paired :: "(string \<Rightarrow> string) \<Rightarrow> pairing_event set \<Rightarrow> (string \<times> int) set \<Rightarrow> string \<Rightarrow> string \<Rightarrow> string \<Rightarrow> bool" where
  "contact_paired hmac E R platform lst c \<longleftrightarrow> (\<exists>i r m now. generated_as hmac E i r \<and> observed_from hmac E R i r m now
     \<and> pr_platform r = platform \<and> approvable (pr_scope r) m lst c \<and> approved_in E i)"

lemma paired_mono:
  assumes "E \<subseteq> E'" "R \<subseteq> R'"
  shows "generated_as hmac E i r \<Longrightarrow> generated_as hmac E' i r"
    "observed_from hmac E R i r m now \<Longrightarrow> observed_from hmac E' R' i r m now"
    "row_paired hmac E R i r \<Longrightarrow> row_paired hmac E' R' i r"
    "contact_paired hmac E R p l c \<Longrightarrow> contact_paired hmac E' R' p l c"
proof -
  show g: "generated_as hmac E i r \<Longrightarrow> generated_as hmac E' i r" for i r
    using assms(1) unfolding generated_as_def by blast
  show o: "observed_from hmac E R i r m now \<Longrightarrow> observed_from hmac E' R' i r m now" for i r m now
    using assms unfolding observed_from_def by blast
  show "row_paired hmac E R i r \<Longrightarrow> row_paired hmac E' R' i r"
    unfolding row_paired_def using g o by blast
  show "contact_paired hmac E R p l c \<Longrightarrow> contact_paired hmac E' R' p l c"
    unfolding contact_paired_def approved_in_def using g o assms(1) by blast
qed

text \<open>The contacts and rows of a world have their origin in the events \<open>E\<close> and redemptions \<open>R\<close>.\<close>

definition table_paired :: "(string \<Rightarrow> string) \<Rightarrow> pairing_event set \<Rightarrow> (string \<times> int) set \<Rightarrow> pairing_table \<Rightarrow> bool" where
  "table_paired hmac E R t \<longleftrightarrow> (\<forall>i r. map_get t i = Some r \<longrightarrow> row_paired hmac E R i r)"

definition flights_paired :: "(string \<Rightarrow> string) \<Rightarrow> pairing_event set \<Rightarrow> (string \<times> int) set \<Rightarrow> approval_flight list \<Rightarrow> bool" where
  "flights_paired hmac E R fs \<longleftrightarrow> (\<forall>f \<in> set fs. row_paired hmac E R (af_id f) (af_row f) \<and> approved_in E (af_id f))"

definition settings_paired :: "(string \<Rightarrow> string) \<Rightarrow> pairing_event set \<Rightarrow> (string \<times> int) set \<Rightarrow> contact_lists \<Rightarrow> contact_lists \<Rightarrow> bool" where
  "settings_paired hmac E R s0 s \<longleftrightarrow> (\<forall>p l c. c \<in> set (or_else (map_get s (p, l)) []) \<longrightarrow>
     c \<in> set (or_else (map_get s0 (p, l)) []) \<or> contact_paired hmac E R p l c)"

lemma same_code_paired:
  assumes "row_paired hmac E R i r" "pr_tokenHmac r' = pr_tokenHmac r" "pr_platform r' = pr_platform r"
    "pr_instanceId r' = pr_instanceId r" "pr_scope r' = pr_scope r" "pr_generatedAt r' = pr_generatedAt r"
    "pr_expiresAt r' = pr_expiresAt r" "pr_actor r' = pr_actor r" "pr_chat r' = pr_chat r"
  shows "row_paired hmac E R i r'"
proof -
  have "pairingScopeFailure r' m = pairingScopeFailure r m" for m using assms(5) by (simp add: pairingScopeFailure_def)
  then show ?thesis using assms unfolding row_paired_def generated_as_def observed_from_def by simp
qed

lemma update_paired:
  assumes "table_paired hmac E R t" "\<And>r. map_get t i = Some r \<Longrightarrow> row_paired hmac E R i r \<Longrightarrow> row_paired hmac E R i (f r)"
  shows "table_paired hmac E R (update_pairing t i f)"
  using assms by (auto simp: table_paired_def update_pairing_get(1))

lemma tables_paired:
  assumes "table_paired hmac E R t"
  shows "table_paired hmac E R (expireBefore t now)" "table_paired hmac E R (markStatus t i s why)"
    "table_paired hmac E R (recordApproval t i target)"
proof -
  have e: "row_paired hmac E R j r \<Longrightarrow> row_paired hmac E R j (expire_pairing now r)" for j r
    by (erule same_code_paired) (simp_all add: expire_pairing_def)
  show "table_paired hmac E R (expireBefore t now)"
    using assms e by (auto simp: table_paired_def expireBefore_get(1))
  show "table_paired hmac E R (markStatus t i s why)" "table_paired hmac E R (recordApproval t i target)"
    unfolding markStatus_def recordApproval_def
    by (rule update_paired [OF assms], erule same_code_paired, simp_all)+
qed

lemma create_paired:
  assumes "table_paired hmac E R t" "PairGenerate i token platform inst scope ttl now \<in> E"
  shows "table_paired hmac E R (pairing_create hmac t i token platform ins scope now (now + clampPairingTtlMs ttl))"
  using assms by (auto simp: table_paired_def pairing_create_def row_paired_def generated_as_def)

lemma observe_paired:
  assumes "table_paired hmac E R t" "map_get t i = Some r" "pr_status r = PairPending"
    "observed_from hmac E R i (r\<lparr>pr_actor := Some (pm_actor m), pr_chat := Some (observedChatFromEvent m)\<rparr>) m now"
  shows "table_paired hmac E R (markObserved t i now (pm_actor m) (observedChatFromEvent m))"
  unfolding markObserved_def
proof (rule update_paired [OF assms(1)])
  fix r' assume "map_get t i = Some r'" "row_paired hmac E R i r'"
  then have r: "r' = r" "generated_as hmac E i r" using assms(2) by (simp_all add: row_paired_def)
  have "row_paired hmac E R i (r\<lparr>pr_actor := Some (pm_actor m), pr_chat := Some (observedChatFromEvent m)\<rparr>)"
    using r(2) assms(4) unfolding row_paired_def generated_as_def by auto
  then show "row_paired hmac E R i (if pr_status r' \<noteq> PairPending then r'
     else r'\<lparr>pr_status := PairObserved, pr_observedAt := Some now, pr_actor := Some (pm_actor m),
       pr_chat := Some (observedChatFromEvent m), pr_failure := None, pr_targets := []\<rparr>)"
    unfolding r(1) using assms(3) by simp (erule same_code_paired, simp_all)
qed

text \<open>What an approval adds comes from the message that redeemed the row.\<close>

lemma patch_approvable:
  assumes "buildPairingApprovalPatch r target = Some added" "(lst, c) \<in> set added" "observed_from hmac E R i r m now"
  shows "approvable (pr_scope r) m lst c"
proof -
  have o: "pr_actor r = Some (pm_actor m)" "pr_chat r = Some (observedChatFromEvent m)" "pm_platform m = pr_platform r"
    using assms(3) by (simp_all add: observed_from_def)
  have b: "oc_id (observedChatFromEvent m) = oc_id (pm_chat m)" "oc_bucketId (observedChatFromEvent m) = Some (bucketIdFromEvent m)"
    by (simp_all add: observedChatFromEvent_def)
  show ?thesis using assms(1,2) o(3)
    by (auto simp: buildPairingApprovalPatch_def contactForPairing_def Let_def o(1,2) b approvable_def or_else_def truthy_def
        split: if_splits option.splits pairing_status.splits list.splits)
qed

lemma add_contacts_paired:
  assumes "settings_paired hmac E R s0 s" "\<And>l c. (l, c) \<in> set added \<Longrightarrow> contact_paired hmac E R p l c"
  shows "settings_paired hmac E R s0 (foldl (add_contact p) s added)"
  using assms
proof (induction added arbitrary: s)
  case (Cons x xs)
  have "settings_paired hmac E R s0 (add_contact p s x)"
    using Cons.prems(1) Cons.prems(2) [of "fst x" "snd x"]
    by (auto simp: settings_paired_def add_contact_def Let_def or_else_def split: if_splits option.splits)
  then show ?case using Cons by simp
qed simp

definition world_paired :: "(string \<Rightarrow> string) \<Rightarrow> pairing_event set \<Rightarrow> (string \<times> int) set \<Rightarrow> contact_lists \<Rightarrow> pairing_world \<Rightarrow> bool" where
  "world_paired hmac E R s0 w \<longleftrightarrow> table_paired hmac E R (pw_table w) \<and> flights_paired hmac E R (pw_flights w)
     \<and> settings_paired hmac E R s0 (pw_settings w)"

lemma world_paired_mono:
  "E \<subseteq> E' \<Longrightarrow> R \<subseteq> R' \<Longrightarrow> world_paired hmac E R s0 w \<Longrightarrow> world_paired hmac E' R' s0 w"
  unfolding world_paired_def table_paired_def flights_paired_def settings_paired_def approved_in_def
  by (meson paired_mono subsetD)

lemma message_paired:
  assumes w: "world_paired hmac E R s0 w" "wf_map (pw_table w)" and m: "PairMessage m now \<in> E"
    and R: "\<And>x. pairs hmac w (PairMessage m now) = Some x \<Longrightarrow> x \<in> R"
  shows "world_paired hmac E R s0 (pairing_step hmac w (PairMessage m now))"
proof (cases "pairs hmac w (PairMessage m now)")
  case (Some x)
  obtain i now' where x: "x = (i, now')" by (cases x)
  show ?thesis
  proof (rule pairs_Some [OF w(2) Some [unfolded x]])
    fix m' token r
    assume e: "PairMessage m now = PairMessage m' now'"
      and f: "tokenFromInboundEvent (pm_kind m') = Some token" "map_get (pw_table w) i = Some r" "pr_status r = PairPending"
        "now' < pr_expiresAt r" "pr_platform r = pm_platform m'" "pr_instanceId r = PAIRING_INSTANCE_ID"
        "pairing_hmac hmac token (pr_platform r) (pr_instanceId r) (pr_scope r) (pr_generatedAt r) = pr_tokenHmac r"
        "pairingScopeFailure r m' = None"
      and st: "pairing_step hmac w (PairMessage m now) =
        w\<lparr>pw_table := markObserved (expireBefore (pw_table w) now') i now' (pm_actor m') (observedChatFromEvent m')\<rparr>"
    have "pairingScopeFailure (r\<lparr>pr_actor := a, pr_chat := c\<rparr>) m' = None" for a c
      using f(8) by (simp add: pairingScopeFailure_def)
    then have o: "observed_from hmac E R i (r\<lparr>pr_actor := Some (pm_actor m'), pr_chat := Some (observedChatFromEvent m')\<rparr>) m' now'"
      using f m e R [OF Some] x by (auto simp: observed_from_def)
    have "map_get (expireBefore (pw_table w) now') i = Some r" using f(2,3,4) by (simp add: expireBefore_get(1) expire_pairing_def)
    then show ?thesis
      using w(1) st observe_paired [OF tables_paired(1) _ f(3) o, of "pw_table w" now'] by (simp add: world_paired_def)
  qed
next
  case None
  have "\<exists>t. pairing_step hmac w (PairMessage m now) = w\<lparr>pw_table := t\<rparr> \<and> table_paired hmac E R t"
  proof -
    have t: "table_paired hmac E R (expireBefore (pw_table w) now)" using w(1) by (simp add: world_paired_def tables_paired(1))
    show ?thesis
    proof (cases "tokenFromInboundEvent (pm_kind m)")
      case none: None
      then have "pairing_step hmac w (PairMessage m now) = w\<lparr>pw_table := pw_table w\<rparr>" by (simp add: handlePairingInbound_def)
      then show ?thesis using w(1) unfolding world_paired_def by blast
    next
      case (Some token)
      obtain q where q: "findMatchingPending hmac (pw_table w) token (pm_platform m) PAIRING_INSTANCE_ID now
          = (expireBefore (pw_table w) now, q)"
        using matching_table by (metis prod.collapse)
      then show ?thesis using Some None t tables_paired(2) [OF t]
        by (auto simp: handlePairingInbound_def pairs_def split: option.splits prod.splits if_splits)
    qed
  qed
  then show ?thesis using w(1) by (auto simp: world_paired_def)
qed

lemma approvals_paired:
  assumes w: "world_paired hmac E R s0 w"
  shows "PairApprove i target consume now \<in> E \<Longrightarrow> world_paired hmac E R s0 (approve_begin i target consume now w)"
    "world_paired hmac E R s0 (approve_write k saved w)"
    "world_paired hmac E R s0 (approve_finish k w)" "world_paired hmac E R s0 (reject_pairing i now w)"
proof -
  have t: "table_paired hmac E R (pw_table w)" and fs: "flights_paired hmac E R (pw_flights w)"
    and s: "settings_paired hmac E R s0 (pw_settings w)" using w by (simp_all add: world_paired_def)
  have drop: "flights_paired hmac E R (take k (pw_flights w) @ drop (Suc k) (pw_flights w))"
    using fs by (auto simp: flights_paired_def dest: in_set_takeD in_set_dropD)
  show "world_paired hmac E R s0 (approve_begin i target consume now w)" if a: "PairApprove i target consume now \<in> E"
  proof -
    have "approved_in E i" using a unfolding approved_in_def by blast
    then show ?thesis
    using tables_paired(1) [OF t] fs s
    by (auto simp: approve_begin_def Let_def world_paired_def flights_paired_def table_paired_def split: option.splits)
  qed
  show "world_paired hmac E R s0 (approve_finish k w)"
    using w drop tables_paired(2,3) [OF t] s by (auto simp: approve_finish_def Let_def world_paired_def)
  show "world_paired hmac E R s0 (reject_pairing i now w)"
    using tables_paired(2) [OF tables_paired(1) [OF t]] fs s by (auto simp: reject_pairing_def Let_def world_paired_def)
  show "world_paired hmac E R s0 (approve_write k saved w)"
  proof (cases "k < length (pw_flights w) \<and> \<not> af_written (pw_flights w ! k)")
    case True
    let ?f = "pw_flights w ! k"
    have r: "row_paired hmac E R (af_id ?f) (af_row ?f)" "approved_in E (af_id ?f)"
      using True fs by (auto simp: flights_paired_def)
    have upd: "flights_paired hmac E R ((pw_flights w)[k := ?f\<lparr>af_written := True\<rparr>])"
      using fs r by (auto simp: flights_paired_def dest: set_update_subset_insert [THEN subsetD])
    have "settings_paired hmac E R s0 (foldl (add_contact (pr_platform (af_row ?f))) (pw_settings w) added)"
      if b: "buildPairingApprovalPatch (af_row ?f) (af_target ?f) = Some added" for added
    proof (rule add_contacts_paired [OF s])
      fix l c assume c: "(l, c) \<in> set added"
      have "pr_actor (af_row ?f) \<noteq> None" using b by (auto simp: buildPairingApprovalPatch_def split: pairing_status.splits option.splits)
      then obtain m now where "observed_from hmac E R (af_id ?f) (af_row ?f) m now" using r by (auto simp: row_paired_def)
      then show "contact_paired hmac E R (pr_platform (af_row ?f)) l c"
        using r patch_approvable [OF b c] unfolding contact_paired_def row_paired_def by blast
    qed
    then show ?thesis using True t upd drop s by (auto simp: approve_write_def Let_def world_paired_def split: option.splits)
  qed (use w in \<open>auto simp: approve_write_def\<close>)
qed

lemma pairing_step_paired:
  assumes w: "world_paired hmac E R s0 w" "wf_map (pw_table w)" and e: "e \<in> E" and R: "\<And>x. pairs hmac w e = Some x \<Longrightarrow> x \<in> R"
  shows "world_paired hmac E R s0 (pairing_step hmac w e)"
proof (cases e)
  case (PairGenerate i token platform inst scope ttl now)
  then show ?thesis using w(1) e create_paired tables_paired(1)
    by (auto simp: generatePairingToken_def countOutstanding_def Let_def world_paired_def)
next
  case (PairMessage m now)
  then show ?thesis using message_paired [OF w] e R by simp
next
  case (PairList now)
  then show ?thesis using w(1) tables_paired(1) by (simp add: world_paired_def list_pairings_def Let_def)
next
  case (PairApprove i target consume now)
  then show ?thesis using approvals_paired(1) [OF w(1)] e by simp
qed (simp_all add: approvals_paired(2-4) [OF w(1)])

definition pairing_run :: "(string \<Rightarrow> string) \<Rightarrow> contact_lists \<Rightarrow> pairing_event list \<Rightarrow> pairing_world" where
  "pairing_run hmac s0 es = foldl (pairing_step hmac) (pairing_new s0) es"

definition redeemed_codes :: "(string \<Rightarrow> string) \<Rightarrow> contact_lists \<Rightarrow> pairing_event list \<Rightarrow> (string \<times> int) list" where
  "redeemed_codes hmac s0 es = redemptions (pairing_step hmac) (pairs hmac) (pairing_new s0) es"

lemma new_wf: "wf_map (pw_table (pairing_new s0))"
  by (simp add: pairing_new_def)

lemma pairing_run_paired:
  "world_paired hmac (set es) (set (redeemed_codes hmac s0 es)) s0 (pairing_run hmac s0 es)"
proof (induction es rule: rev_induct)
  case Nil
  show ?case by (simp add: world_paired_def pairing_run_def pairing_new_def table_paired_def flights_paired_def settings_paired_def)
next
  case (snoc e es)
  let ?R = "set (redeemed_codes hmac s0 (es @ [e]))" and ?w = "pairing_run hmac s0 es"
  have "world_paired hmac (set (es @ [e])) ?R s0 ?w"
    by (rule world_paired_mono [OF _ _ snoc]) (auto simp: redeemed_codes_def redemptions_snoc)
  moreover have "wf_map (pw_table ?w)" unfolding pairing_run_def by (rule codes.run_ok [OF new_wf])
  moreover have "pairs hmac ?w e = Some x \<Longrightarrow> x \<in> ?R" for x by (simp add: redeemed_codes_def redemptions_snoc pairing_run_def)
  ultimately show ?case using pairing_step_paired [of hmac "set (es @ [e])" ?R s0 ?w e] by (simp add: pairing_run_def)
qed

lemma clampPairingTtlMs_bounds: "MIN_PAIRING_TTL_MS \<le> clampPairingTtlMs ttl" "clampPairingTtlMs ttl \<le> MAX_PAIRING_TTL_MS"
  by (auto simp: clampPairingTtlMs_def DEFAULT_PAIRING_TTL_MS_def MIN_PAIRING_TTL_MS_def MAX_PAIRING_TTL_MS_def split: option.splits)

text \<open>
  C32: every contact that pairing adds to the settings, whatever the order of calls, sent in its own
  message a code that the operator had generated, before the code expired (at most 30 minutes) and in
  a chat of the kind the code was for; the operator approved that entry, and no code is redeemed twice.
\<close>

theorem authorized_contact_paired:
  assumes "c \<in> set (or_else (map_get (pw_settings (pairing_run hmac s0 es)) (platform, lst)) [])"
    and "c \<notin> set (or_else (map_get s0 (platform, lst)) [])"
  shows "\<exists>i token token' inst scope ttl t m now.
    PairGenerate i token platform inst scope ttl t \<in> set es \<and> PairMessage m now \<in> set es \<and> approved_in (set es) i
    \<and> (i, now) \<in> set (redeemed_codes hmac s0 es) \<and> distinct (map fst (redeemed_codes hmac s0 es))
    \<and> tokenFromInboundEvent (pm_kind m) = Some token' \<and> pm_platform m = platform
    \<and> pairing_hmac hmac token' platform PAIRING_INSTANCE_ID scope t = pairing_hmac hmac token platform PAIRING_INSTANCE_ID scope t
    \<and> now < t + clampPairingTtlMs ttl \<and> clampPairingTtlMs ttl \<le> MAX_PAIRING_TTL_MS
    \<and> (scope \<noteq> ScopeObserved \<longrightarrow> (oc_kind (pm_chat m) = ''dm'' \<longleftrightarrow> scope = ScopeUserDm)) \<and> approvable scope m lst c"
proof -
  have d: "distinct (map fst (redeemed_codes hmac s0 es))"
    unfolding redeemed_codes_def by (rule codes.redeemed_once [OF new_wf])
  have "contact_paired hmac (set es) (set (redeemed_codes hmac s0 es)) platform lst c"
    using pairing_run_paired [of hmac es s0] assms by (auto simp: world_paired_def settings_paired_def)
  then obtain i r m now where c: "generated_as hmac (set es) i r" "observed_from hmac (set es) (set (redeemed_codes hmac s0 es)) i r m now"
    "pr_platform r = platform" "approvable (pr_scope r) m lst c" "approved_in (set es) i"
    unfolding contact_paired_def by blast
  obtain token inst ttl where g: "PairGenerate i token platform inst (pr_scope r) ttl (pr_generatedAt r) \<in> set es"
    "pr_tokenHmac r = pairing_hmac hmac token platform PAIRING_INSTANCE_ID (pr_scope r) (pr_generatedAt r)"
    "now < pr_generatedAt r + clampPairingTtlMs ttl"
    using c(1,2,3) unfolding generated_as_def observed_from_def by auto
  obtain token' where o: "tokenFromInboundEvent (pm_kind m) = Some token'"
    "pairing_hmac hmac token' platform PAIRING_INSTANCE_ID (pr_scope r) (pr_generatedAt r) = pr_tokenHmac r"
    using c(2,3) unfolding observed_from_def by auto
  have "pr_scope r \<noteq> ScopeObserved \<longrightarrow> (oc_kind (pm_chat m) = ''dm'' \<longleftrightarrow> pr_scope r = ScopeUserDm)"
    using c(2) by (auto simp: observed_from_def pairingScopeFailure_def Let_def split: pairing_scope.splits if_splits)
  then show ?thesis using c(2-5) d g o clampPairingTtlMs_bounds(2) unfolding observed_from_def by metis
qed

subsection \<open>A run of pairing\<close>

definition demo_code :: string where
  "demo_code = replicate 32 (CHR ''k'')"

definition demo_pairing_message :: pairing_message where
  "demo_pairing_message = \<lparr>pm_platform = ''telegram'', pm_kind = InCommand ''pair'' [demo_code],
     pm_actor = \<lparr>oa_id = ''42'', oa_displayName = None, oa_phoneNumber = None, oa_username = None\<rparr>,
     pm_chat = \<lparr>oc_id = ''42'', oc_kind = ''dm'', oc_title = None, oc_parentId = None, oc_parentTitle = None,
       oc_ancestorTitle = None, oc_bucketId = None\<rparr>, pm_guildId = None, pm_chatId = None, pm_teamId = None\<rparr>"

definition demo_pairing :: "pairing_event list" where
  "demo_pairing = [PairGenerate ''e1'' demo_code ''telegram'' None ScopeUserDm None 1000,
     PairMessage demo_pairing_message 2000, PairApprove ''e1'' None None 3000, PairWrite 0 True, PairFinish 0]"

lemma demo_code_token: "is_pairing_token demo_code"
  by (simp add: is_pairing_token_def demo_code_def PAIRING_TOKEN_ALPHABET_def)

lemma demo_token: "tokenFromInboundEvent (pm_kind demo_pairing_message) = Some demo_code"
  using demo_code_token
  by (simp add: demo_pairing_message_def tokenFromInboundEvent_def isMessagingPairingCommand_def lower_char_def Let_def)

text \<open>The row of the demo as it is generated, and as it is observed.\<close>

definition demo_row :: pairing_row where
  "demo_row = \<lparr>pr_tokenHmac = pairing_hmac (\<lambda>x. x) demo_code ''telegram'' PAIRING_INSTANCE_ID ScopeUserDm 1000,
     pr_platform = ''telegram'', pr_instanceId = PAIRING_INSTANCE_ID, pr_scope = ScopeUserDm, pr_status = PairPending,
     pr_generatedAt = 1000, pr_expiresAt = 301000, pr_observedAt = None, pr_actor = None, pr_chat = None, pr_failure = None,
     pr_targets = []\<rparr>"

definition demo_seen :: pairing_row where
  "demo_seen = demo_row\<lparr>pr_status := PairObserved, pr_observedAt := Some 2000, pr_actor := Some (pm_actor demo_pairing_message),
     pr_chat := Some (observedChatFromEvent demo_pairing_message)\<rparr>"

lemma demo_generated:
  "pairing_step (\<lambda>x. x) (pairing_new []) (PairGenerate ''e1'' demo_code ''telegram'' None ScopeUserDm None 1000)
     = \<lparr>pw_table = [(''e1'', demo_row)], pw_settings = [], pw_flights = []\<rparr>"
  by (simp add: pairing_new_def generatePairingToken_def countOutstanding_def expireBefore_def Let_def or_else_def
      pairing_create_def map_has_def demo_row_def clampPairingTtlMs_def DEFAULT_PAIRING_TTL_MS_def
      MAX_OUTSTANDING_PAIRING_TOKENS_def)

lemma demo_expire: "now \<le> 300000 \<Longrightarrow> expireBefore [(''e1'', demo_row)] now = [(''e1'', demo_row)]"
  "now \<le> 300000 \<Longrightarrow> expireBefore [(''e1'', demo_seen)] now = [(''e1'', demo_seen)]"
  by (simp_all add: expireBefore_def expire_pairing_def demo_row_def demo_seen_def)

lemma demo_match:
  "findMatchingPending (\<lambda>x. x) [(''e1'', demo_row)] demo_code ''telegram'' PAIRING_INSTANCE_ID 2000
     = ([(''e1'', demo_row)], Some (''e1'', demo_row))"
  by (simp add: findMatchingPending_def demo_expire Let_def) (simp add: demo_row_def)

lemma demo_observed:
  "pairing_step (\<lambda>x. x) \<lparr>pw_table = [(''e1'', demo_row)], pw_settings = [], pw_flights = []\<rparr> (PairMessage demo_pairing_message 2000)
     = \<lparr>pw_table = [(''e1'', demo_seen)], pw_settings = [], pw_flights = []\<rparr>"
proof -
  have "pm_platform demo_pairing_message = ''telegram''" "pairingScopeFailure demo_row demo_pairing_message = None"
    by (simp_all add: demo_pairing_message_def pairingScopeFailure_def demo_row_def)
  then show ?thesis
    by (simp add: handlePairingInbound_def demo_token demo_match markObserved_def update_pairing_def)
      (simp add: demo_seen_def demo_row_def)
qed

lemma demo_patch: "buildPairingApprovalPatch demo_seen None = Some [(''authorizedUserIds'', ''42'')]"
  by (simp add: buildPairingApprovalPatch_def contactForPairing_def Let_def demo_seen_def demo_row_def)
    (simp add: demo_pairing_message_def)

lemma demo_pairing_authorizes:
  "map_get (pw_settings (pairing_run (\<lambda>x. x) [] demo_pairing)) (''telegram'', ''authorizedUserIds'') = Some [''42'']"
proof -
  have p: "pr_platform demo_seen = ''telegram''" by (simp add: demo_seen_def demo_row_def)
  show ?thesis
    by (simp only: pairing_run_def demo_pairing_def foldl.simps demo_generated demo_observed)
      (simp add: approve_begin_def approve_write_def approve_finish_def demo_expire demo_patch Let_def add_contact_def or_else_def p)
qed

theorem authorized_contact_paired_witness:
  "\<exists>i token inst scope ttl t. PairGenerate i token ''telegram'' inst scope ttl t \<in> set demo_pairing \<and> approved_in (set demo_pairing) i"
  using authorized_contact_paired [of "''42''" "\<lambda>x. x" "[]" demo_pairing "''telegram''" "''authorizedUserIds''"]
  by (simp add: demo_pairing_authorizes or_else_def) blast

subsection \<open>The shape of a row\<close>

text \<open>
  A pending row has seen nobody; an observed one shows its sender, its chat and when it was observed,
  in the life of the code; approved targets are distinct and only an observed or spent row has any.
\<close>

definition row_typed :: "pairing_row \<Rightarrow> bool" where
  "row_typed r \<longleftrightarrow>
     (if pr_status r = PairPending then pr_actor r = None \<and> pr_chat r = None \<and> pr_observedAt r = None else True)
     \<and> (if pr_status r = PairObserved then pr_actor r \<noteq> None \<and> pr_chat r \<noteq> None \<and> pr_observedAt r \<noteq> None else True)
     \<and> (case pr_observedAt r of None \<Rightarrow> pr_targets r = [] | Some at \<Rightarrow> at < pr_expiresAt r)
     \<and> (case pr_chat r of None \<Rightarrow> True | Some c \<Rightarrow> oc_bucketId c \<noteq> None) \<and> distinct (pr_targets r)"

definition table_typed :: "pairing_table \<Rightarrow> bool" where
  "table_typed t \<longleftrightarrow> wf_map t \<and> (\<forall>i r. map_get t i = Some r \<longrightarrow> row_typed r)"

lemma update_typed:
  "table_typed t \<Longrightarrow> (\<And>r. map_get t i = Some r \<Longrightarrow> row_typed r \<Longrightarrow> row_typed (f r)) \<Longrightarrow> table_typed (update_pairing t i f)"
  unfolding table_typed_def using update_pairing_get(2) by (auto simp: update_pairing_get(1))

lemma tables_typed:
  assumes "table_typed t"
  shows "table_typed (expireBefore t now)" "s \<notin> {PairPending, PairObserved} \<Longrightarrow> table_typed (markStatus t i s why)"
    "table_typed (recordApproval t i target)" "table_typed (pairing_create hmac t i token p inst scope g e)"
    "\<forall>r. map_get t i = Some r \<and> pr_status r = PairPending \<longrightarrow> now < pr_expiresAt r \<Longrightarrow> oc_bucketId c \<noteq> None \<Longrightarrow>
       table_typed (markObserved t i now a c)"
proof -
  have "row_typed r \<Longrightarrow> row_typed (expire_pairing now r)" for r by (auto simp: row_typed_def expire_pairing_def)
  then show "table_typed (expireBefore t now)"
    using assms unfolding table_typed_def by (auto simp: expireBefore_get(1)) (simp only: expireBefore_get(2))
  show "s \<notin> {PairPending, PairObserved} \<Longrightarrow> table_typed (markStatus t i s why)"
    unfolding markStatus_def by (rule update_typed [OF assms]) (auto simp: row_typed_def split: option.splits)
  show "table_typed (recordApproval t i target)"
    unfolding recordApproval_def by (rule update_typed [OF assms]) (auto simp: row_typed_def split: option.splits)
  show "table_typed (pairing_create hmac t i token p inst scope g e)"
    using assms by (auto simp: table_typed_def pairing_create_def row_typed_def)
  show "\<forall>r. map_get t i = Some r \<and> pr_status r = PairPending \<longrightarrow> now < pr_expiresAt r \<Longrightarrow> oc_bucketId c \<noteq> None \<Longrightarrow>
       table_typed (markObserved t i now a c)"
    unfolding markObserved_def by (rule update_typed [OF assms]) (auto simp: row_typed_def)
qed

lemma inbound_typed:
  assumes w: "table_typed (pw_table w)"
  shows "table_typed (pw_table (fst (handlePairingInbound hmac m now w)))"
proof (cases "tokenFromInboundEvent (pm_kind m)")
  case (Some token)
  let ?t = "expireBefore (pw_table w) now"
  obtain q where q: "findMatchingPending hmac (pw_table w) token (pm_platform m) PAIRING_INSTANCE_ID now = (?t, q)"
    using matching_table by (metis prod.collapse)
  have live: "map_get ?t i = Some r \<and> pr_status r = PairPending \<Longrightarrow> now < pr_expiresAt r" for i r
  proof -
    assume "map_get ?t i = Some r \<and> pr_status r = PairPending"
    then obtain r' where "r = expire_pairing now r'" "pr_status r = PairPending" by (auto simp: expireBefore_get(1))
    then show ?thesis by (cases "now < pr_expiresAt r'") (auto simp: expire_pairing_def split: if_splits)
  qed
  have b: "oc_bucketId (observedChatFromEvent m) \<noteq> None" by (simp add: observedChatFromEvent_def)
  note typed = tables_typed(1,2,5) [OF tables_typed(1) [OF w, of now]]
  have "table_typed (markObserved ?t i now a (observedChatFromEvent m))" for i a
    by (rule typed(3) [OF _ b]) (use live in blast)
  then show ?thesis using Some q tables_typed(1) [OF w] typed(2)
    by (auto simp: handlePairingInbound_def split: option.splits)
qed (use w in \<open>simp add: handlePairingInbound_def\<close>)

lemma pairing_step_typed: "table_typed (pw_table w) \<Longrightarrow> table_typed (pw_table (pairing_step hmac w e))"
  by (cases e) (auto simp: generatePairingToken_def countOutstanding_def inbound_typed approve_begin_def approve_write_def
      approve_finish_def reject_pairing_def list_pairings_def Let_def tables_typed split: option.splits)

lemma pairing_run_typed: "table_typed (pw_table (pairing_run hmac s0 es))"
  unfolding pairing_run_def
proof (induction es rule: rev_induct)
  case Nil
  show ?case by (simp add: pairing_new_def table_typed_def)
qed (simp add: pairing_step_typed)

text \<open>
  C33: every row of a reachable table is well formed: a pending one has seen nobody, an observed one
  shows its sender, its chat with a bucket and a time within its life, approved targets are distinct.
  So the settings patch of an approval can be built from every observed row of Telegram, Discord or
  Feishu. (The approval itself may still fail, for example when the configuration cannot be written.)
\<close>

theorem observed_row_complete:
  assumes "map_get (pw_table (pairing_run hmac s0 es)) i = Some r"
  shows "row_typed r \<and> (if pr_status r = PairObserved \<and> pr_platform r \<in> {''telegram'', ''discord'', ''feishu''}
     then buildPairingApprovalPatch r target \<noteq> None else True)"
proof -
  have "row_typed r" using pairing_run_typed [of hmac s0 es] assms unfolding table_typed_def by blast
  then show ?thesis
    by (auto simp: row_typed_def buildPairingApprovalPatch_def contactForPairing_def Let_def split: option.splits)
qed

theorem observed_row_complete_witness: "row_typed demo_seen \<and> buildPairingApprovalPatch demo_seen (Some TargetTeam) \<noteq> None"
proof -
  have "map_get (pw_table (pairing_run (\<lambda>x. x) [] (take 2 demo_pairing))) ''e1'' = Some demo_seen"
    by (simp add: pairing_run_def demo_pairing_def demo_generated demo_observed del: pairing_step.simps)
  from observed_row_complete [OF this, of "Some TargetTeam"] show ?thesis by (simp add: demo_seen_def demo_row_def)
qed

end
