(* ===== verification/TextSplitting.thy ===== *)
theory TextSplitting
  imports Prelude
begin

text \<open>
  Splitting a long message into chunks a chat service takes: \<open>text-splitting.ts\<close> of
  \<open>packages/messaging/interface/src\<close>. A text is a list of UTF-16 code units, as a JavaScript string
  is. The measure is an argument, as in the code; its two built-in ones are defined here. The regular
  expressions are matchers at a position, scanned from left to right as \<open>exec\<close> does.
\<close>

type_synonym utf16 = "nat list"

definition is_high :: "nat \<Rightarrow> bool" where "is_high c \<longleftrightarrow> 55296 \<le> c \<and> c \<le> 56319"
definition is_low :: "nat \<Rightarrow> bool" where "is_low c \<longleftrightarrow> 56320 \<le> c \<and> c \<le> 57343"

text \<open>\<open>Buffer.byteLength\<close>: a lone surrogate is written as the three bytes of U+FFFD.\<close>

fun utf8_length :: "utf16 \<Rightarrow> nat" where
  "utf8_length [] = 0"
| "utf8_length [c] = (if c < 128 then 1 else if c < 2048 then 2 else 3)"
| "utf8_length (c # d # cs) = (if is_high c \<and> is_low d then 4 + utf8_length cs
     else (if c < 128 then 1 else if c < 2048 then 2 else 3) + utf8_length (d # cs))"

datatype text_measure = MeasureChars | MeasureBytes

fun measureMessageText :: "text_measure \<Rightarrow> utf16 \<Rightarrow> nat" where
  "measureMessageText MeasureChars t = length t"
| "measureMessageText MeasureBytes t = utf8_length t"

subsection \<open>Boundaries\<close>

text \<open>\<open>\s\<close> of a regular expression.\<close>

definition regex_space :: "nat \<Rightarrow> bool" where
  "regex_space c \<longleftrightarrow> c \<in> {9, 10, 11, 12, 13, 32, 160, 5760, 8232, 8233, 8239, 8287, 12288, 65279} \<or> 8192 \<le> c \<and> c \<le> 8202"

text \<open>The length of the match of \<open>\n{2,}\<close> at the start of a text.\<close>

definition match_blank :: "utf16 \<Rightarrow> nat option" where
  "match_blank t = (let n = length (takeWhile (\<lambda>c. c = 10) t) in if 2 \<le> n then Some n else None)"

text \<open>The length of the match of a sentence end, an optional closing mark and white space.\<close>

definition match_sentence :: "utf16 \<Rightarrow> nat option" where
  "match_sentence t = (case t of
     [] \<Rightarrow> None
   | c # cs \<Rightarrow>
      if c \<in> {46, 33, 63, 8230}
      then (let closing = (if cs \<noteq> [] \<and> hd cs \<in> {34, 39, 41, 93} then 1 else 0);
                n = length (takeWhile regex_space (drop closing cs))
            in if n = 0 then None else Some (1 + closing + n))
      else None)"

text \<open>\<open>pos\<close>: where the rest begins; \<open>end\<close>: the last end so far.\<close>

function match_ends :: "(utf16 \<Rightarrow> nat option) \<Rightarrow> nat \<Rightarrow> utf16 \<Rightarrow> nat \<Rightarrow> nat option \<Rightarrow> nat option" where
  "match_ends match_at floor_at t pos last_end =
     (if t = [] then last_end
      else case match_at t of
        None \<Rightarrow> match_ends match_at floor_at (tl t) (pos + 1) last_end
      | Some n \<Rightarrow> match_ends match_at floor_at (drop (max 1 n) t) (pos + max 1 n)
          (if floor_at \<le> pos + n then Some (pos + n) else last_end))"
  by pat_completeness auto
termination by (relation "measure (\<lambda>(_, _, t, _, _). length t)") auto

definition lastMatchEnd :: "utf16 \<Rightarrow> (utf16 \<Rightarrow> nat option) \<Rightarrow> nat \<Rightarrow> nat option" where
  "lastMatchEnd t match_at floor_at = match_ends match_at floor_at t 0 None"

text \<open>\<open>lastIndexOf\<close> of one code unit.\<close>

fun last_index_of :: "nat \<Rightarrow> utf16 \<Rightarrow> nat option" where
  "last_index_of c [] = None"
| "last_index_of c (d # ds) = (case last_index_of c ds of Some k \<Rightarrow> Some (Suc k) | None \<Rightarrow> if d = c then Some 0 else None)"

subsection \<open>The cut\<close>

definition avoidSurrogateSplit :: "utf16 \<Rightarrow> int \<Rightarrow> int" where
  "avoidSurrogateSplit t index = (if index \<le> 0 \<or> int (length t) \<le> index then index
     else if is_low (t ! nat index) then index - 1 else index)"

function prefix_search :: "utf16 \<Rightarrow> nat \<Rightarrow> (utf16 \<Rightarrow> nat) \<Rightarrow> int \<Rightarrow> int \<Rightarrow> int \<Rightarrow> int" where
  "prefix_search t limit sz low high best =
     (if high < low then best
      else let mid = (low + high) div 2; idx = avoidSurrogateSplit t mid
        in if 1 \<le> idx \<and> sz (take (nat idx) t) \<le> limit then prefix_search t limit sz (mid + 1) high idx
           else prefix_search t limit sz low (mid - 1) best)"
  by pat_completeness auto
termination by (relation "measure (\<lambda>(_, _, _, low, high, _). nat (high + 1 - low))") auto

definition maxPrefixLength :: "utf16 \<Rightarrow> nat \<Rightarrow> (utf16 \<Rightarrow> nat) \<Rightarrow> nat" where
  "maxPrefixLength t limit sz = nat (prefix_search t limit sz 1 (int (length t)) 1)"

definition findCutIndex :: "utf16 \<Rightarrow> nat \<Rightarrow> (utf16 \<Rightarrow> nat) \<Rightarrow> nat" where
  "findCutIndex t limit sz =
     (let hardMax = maxPrefixLength t limit sz
      in if length t \<le> hardMax then length t
         else let floor_at = max 1 (hardMax div 2); window = take hardMax t;
                  at_least = (\<lambda>x. case x of Some k \<Rightarrow> if floor_at \<le> k then Some (k + 1) else None | None \<Rightarrow> None)
           in (case lastMatchEnd window match_blank floor_at of
                 Some k \<Rightarrow> k
               | None \<Rightarrow> (case at_least (last_index_of 10 window) of
                   Some k \<Rightarrow> k
                 | None \<Rightarrow> (case lastMatchEnd window match_sentence floor_at of
                     Some k \<Rightarrow> k
                   | None \<Rightarrow> (case at_least (last_index_of 32 window) of
                       Some k \<Rightarrow> k
                     | None \<Rightarrow> hardMax)))))"

subsection \<open>The loop\<close>

definition trim_end :: "utf16 \<Rightarrow> utf16" where
  "trim_end t = rev (dropWhile regex_space (rev t))"

lemma prefix_search_range:
  "1 \<le> best \<and> best \<le> int (length t) \<Longrightarrow> high \<le> int (length t) \<Longrightarrow> 1 \<le> low \<Longrightarrow>
   1 \<le> prefix_search t limit sz low high best \<and> prefix_search t limit sz low high best \<le> int (length t)"
proof (induction t limit sz low high best rule: prefix_search.induct)
  case (1 t limit sz low high best)
  let ?mid = "(low + high) div 2"
  show ?case
  proof (cases "high < low")
    case False
    then have "?mid \<le> int (length t)" using 1(4) by linarith
    then have "avoidSurrogateSplit t ?mid \<le> int (length t)" by (simp add: avoidSurrogateSplit_def)
    then show ?thesis using 1 False by (subst (1 2) prefix_search.simps) (simp add: Let_def del: prefix_search.simps)
  qed (use 1(3) in \<open>simp add: prefix_search.simps\<close>)
qed

lemma maxPrefixLength_range: "t \<noteq> [] \<Longrightarrow> 1 \<le> maxPrefixLength t limit sz \<and> maxPrefixLength t limit sz \<le> length t"
  using prefix_search_range [of 1 t "int (length t)" 1 limit sz] by (cases t) (auto simp: maxPrefixLength_def nat_le_iff)

lemma match_ends_range:
  assumes "\<And>u n. match_at u = Some n \<Longrightarrow> n \<le> length u"
  shows "match_ends match_at fl t pos last_end = Some k \<Longrightarrow> last_end = Some k \<or> fl \<le> k \<and> k \<le> pos + length t"
  using assms
proof (induction match_at fl t pos last_end rule: match_ends.induct)
  case (1 match_at fl t pos last_end)
  show ?case
  proof (cases "t = []")
    case False
    show ?thesis
    proof (cases "match_at t")
      case None
      then show ?thesis using 1 False by (cases t) (auto simp: match_ends.simps [of match_at fl t])
    next
      case (Some n)
      then have "n \<le> length t" using 1(4) by blast
      then show ?thesis using 1(2) [OF False Some _ 1(4)] 1(3) Some False
        by (auto simp: match_ends.simps [of match_at fl t] split: if_splits)
    qed
  qed (use 1 in simp)
qed

lemma matches_within: "match_blank t = Some n \<Longrightarrow> n \<le> length t" "match_sentence t = Some n \<Longrightarrow> n \<le> length t"
proof -
  show "match_blank t = Some n \<Longrightarrow> n \<le> length t"
    by (auto simp: match_blank_def Let_def length_takeWhile_le split: if_splits)
  show "match_sentence t = Some n \<Longrightarrow> n \<le> length t"
    using length_takeWhile_le [of regex_space "tl t"] length_takeWhile_le [of regex_space "drop 1 (tl t)"]
    by (cases t) (auto simp: match_sentence_def Let_def neq_Nil_conv split: if_splits)
qed

lemma lastMatchEnd_range:
  "lastMatchEnd t match_blank fl = Some k \<Longrightarrow> fl \<le> k \<and> k \<le> length t"
  "lastMatchEnd t match_sentence fl = Some k \<Longrightarrow> fl \<le> k \<and> k \<le> length t"
  unfolding lastMatchEnd_def using match_ends_range [of _ fl t 0 None k] matches_within by fastforce+

lemma last_index_of_Some: "last_index_of c t = Some k \<Longrightarrow> k < length t \<and> t ! k = c"
  by (induction t arbitrary: k) (auto split: option.splits if_splits)

text \<open>The cut makes progress and stays within the window.\<close>

lemma findCutIndex_range:
  assumes "t \<noteq> []"
  shows "1 \<le> findCutIndex t limit sz \<and> findCutIndex t limit sz \<le> maxPrefixLength t limit sz"
proof -
  have h: "1 \<le> maxPrefixLength t limit sz" "maxPrefixLength t limit sz \<le> length t" using maxPrefixLength_range [OF assms] by blast+
  show ?thesis unfolding findCutIndex_def Let_def using h
    by (auto dest!: lastMatchEnd_range last_index_of_Some split: option.splits if_splits)
qed

function split_loop :: "nat \<Rightarrow> (utf16 \<Rightarrow> nat) \<Rightarrow> utf16 \<Rightarrow> utf16 list" where
  "split_loop limit sz rest =
     (if rest \<noteq> [] \<and> limit < sz rest
      then let cut = findCutIndex rest limit sz; head = trim_end (take cut rest)
        in (if head = [] then [] else [head]) @ split_loop limit sz (dropWhile (\<lambda>c. c = 10) (drop cut rest))
      else let tail = trim_end rest in if tail = [] then [] else [tail])"
  by pat_completeness auto
termination
proof (relation "measure (\<lambda>(_, _, rest). length rest)")
  fix limit :: nat and sz :: "utf16 \<Rightarrow> nat" and rest :: utf16 and cut head
  assume "rest \<noteq> [] \<and> limit < sz rest" "cut = findCutIndex rest limit sz"
  then have "length (drop cut rest) < length rest" using findCutIndex_range [of rest limit sz] by (cases rest) auto
  then show "((limit, sz, dropWhile (\<lambda>c. c = 10) (drop cut rest)), limit, sz, rest) \<in> measure (\<lambda>(_, _, rest). length rest)"
    using length_dropWhile_le [of "\<lambda>c. c = 10" "drop cut rest"] by simp
qed simp

declare split_loop.simps [simp del] prefix_search.simps [simp del] match_ends.simps [simp del]

text \<open>\<open>limit\<close> is already cut off to an integer.\<close>

definition splitTextForDelivery :: "utf16 \<Rightarrow> int \<Rightarrow> text_measure \<Rightarrow> (utf16 \<Rightarrow> nat) option \<Rightarrow> utf16 list" where
  "splitTextForDelivery t limit measure_by measureText =
     (let lim = nat (max 1 limit); sz = or_else measureText (measureMessageText measure_by)
      in if t = [] then [] else if sz t \<le> lim then [t] else split_loop lim sz t)"

end
