(* ===== verification/TextSplittingProps.thy ===== *)
theory TextSplittingProps
  imports TextSplitting
begin

text \<open>
  What splitting promises: the chunks are the text without white space at the cuts, each within the
  limit and none empty, and no surrogate pair is cut. What the proofs need of a measure is a
  locale, interpreted by the two measures of the code.
\<close>

subsection \<open>Nothing is lost\<close>

text \<open>The text is the chunks in order, with nothing but white space around them.\<close>

inductive rejoins :: "utf16 list \<Rightarrow> utf16 \<Rightarrow> bool" where
  rejoins_nil: "list_all regex_space w \<Longrightarrow> rejoins [] w"
| rejoins_chunk: "list_all regex_space w \<Longrightarrow> rejoins cs u \<Longrightarrow> rejoins (c # cs) (w @ c @ u)"

lemma rejoins_space: "rejoins cs u \<Longrightarrow> list_all regex_space w \<Longrightarrow> rejoins cs (w @ u)"
proof (induction rule: rejoins.cases)
  case (rejoins_chunk v cs' u' c)
  then show ?thesis using rejoins.rejoins_chunk [of "w @ v" cs' u' c] by simp
qed (simp add: rejoins.rejoins_nil)

lemma rejoins_length: "rejoins cs t \<Longrightarrow> [] \<notin> set cs \<Longrightarrow> length cs \<le> length t"
proof (induction rule: rejoins.induct)
  case (rejoins_chunk w cs u c)
  then have "1 \<le> length c" by (cases c) auto
  then show ?case using rejoins_chunk by simp
qed simp

lemma trim_end_split:
  obtains w where "t = trim_end t @ w" "list_all regex_space w"
proof -
  have "rev t = takeWhile regex_space (rev t) @ dropWhile regex_space (rev t)" by simp
  then have "t = trim_end t @ rev (takeWhile regex_space (rev t))" by (metis rev_append rev_rev_ident trim_end_def)
  moreover have "list_all regex_space (rev (takeWhile regex_space (rev t)))" by (auto simp: list_all_iff dest: set_takeWhileD)
  ultimately show thesis by (rule that)
qed

lemma newlines_space: "list_all regex_space (takeWhile (\<lambda>c. c = 10) t)"
  by (auto simp: list_all_iff regex_space_def dest: set_takeWhileD)

text \<open>The two cases of the loop.\<close>

lemma split_loop_cut:
  assumes "rest \<noteq> [] \<and> limit < sz rest"
  shows "split_loop limit sz rest = (let head = trim_end (take (findCutIndex rest limit sz) rest) in if head = [] then [] else [head])
    @ split_loop limit sz (dropWhile (\<lambda>c. c = 10) (drop (findCutIndex rest limit sz) rest))"
  using assms by (subst split_loop.simps) (simp add: Let_def)

lemma split_loop_end:
  assumes "\<not> (rest \<noteq> [] \<and> limit < sz rest)"
  shows "split_loop limit sz rest = (if trim_end rest = [] then [] else [trim_end rest])"
  unfolding split_loop.simps [of limit sz rest] if_not_P [OF assms] Let_def by simp

lemma split_induct [case_names loop]:
  assumes "\<And>rest. (rest \<noteq> [] \<and> limit < sz rest \<Longrightarrow> P (dropWhile (\<lambda>c. c = 10) (drop (findCutIndex rest limit sz) rest))) \<Longrightarrow> P rest"
  shows "P rest"
proof (induction rest rule: length_induct)
  case (1 rest)
  have "length (dropWhile (\<lambda>c. c = 10) (drop (findCutIndex rest limit sz) rest)) < length rest" if "rest \<noteq> []"
  proof -
    have "length (drop (findCutIndex rest limit sz) rest) < length rest"
      using that findCutIndex_range [OF that, of limit sz] by (cases rest) auto
    then show ?thesis using length_dropWhile_le le_less_trans by blast
  qed
  then show ?case using assms 1 by blast
qed

lemma split_loop_rejoins: "rejoins (split_loop limit sz rest) rest \<and> [] \<notin> set (split_loop limit sz rest)"
proof (induction rest rule: split_induct [of limit sz])
  case (loop rest)
  show ?case
  proof (cases "rest \<noteq> [] \<and> limit < sz rest")
    case True
    let ?cut = "findCutIndex rest limit sz"
    let ?after = "drop ?cut rest"
    let ?next = "split_loop limit sz (dropWhile (\<lambda>c. c = 10) ?after)"
    obtain w where w: "take ?cut rest = trim_end (take ?cut rest) @ w" "list_all regex_space w" by (rule trim_end_split)
    have "rejoins ?next ?after"
      using rejoins_space [OF conjunct1 [OF loop [OF True]] newlines_space [of ?after]] by simp
    then have u: "rejoins ?next (w @ ?after)" using rejoins_space w(2) by blast
    have rest: "rest = trim_end (take ?cut rest) @ w @ ?after" using w(1) by (metis append.assoc append_take_drop_id)
    have "rejoins ((if trim_end (take ?cut rest) = [] then [] else [trim_end (take ?cut rest)]) @ ?next) rest"
      using rejoins_chunk [of "[]" ?next "w @ ?after" "trim_end (take ?cut rest)"] u rest by (cases "trim_end (take ?cut rest) = []") auto
    then show ?thesis using loop [OF True] unfolding split_loop_cut [of rest limit sz, OF True] Let_def by simp
  next
    case False
    obtain w where w: "rest = trim_end rest @ w" "list_all regex_space w" by (rule trim_end_split)
    then have "rejoins (if trim_end rest = [] then [] else [trim_end rest]) rest"
      using rejoins_chunk [of "[]" "[]" w "trim_end rest"] rejoins_nil [of w] by auto
    then show ?thesis unfolding split_loop_end [of rest limit sz, OF False] by simp
  qed
qed

subsection \<open>Measures\<close>

text \<open>A longer text does not measure less.\<close>

locale monotone_measure =
  fixes sz :: "utf16 \<Rightarrow> nat"
  assumes sz_append: "sz u \<le> sz (u @ v)"
begin

lemma search_fits:
  "best = 1 \<or> sz (take (nat best) t) \<le> limit \<Longrightarrow>
   prefix_search t limit sz low high best = 1 \<or> sz (take (nat (prefix_search t limit sz low high best)) t) \<le> limit"
  by (induction t limit sz low high best rule: prefix_search.induct) (subst (1 2) prefix_search.simps, simp add: Let_def)

lemma trim_end_fits: "sz t \<le> limit \<Longrightarrow> sz (trim_end t) \<le> limit"
  using sz_append by (metis trim_end_split le_trans)

lemma cut_fits:
  assumes "t \<noteq> []" "\<And>c. c \<in> set t \<Longrightarrow> sz [c] \<le> limit"
  shows "sz (take (findCutIndex t limit sz) t) \<le> limit"
proof -
  let ?m = "maxPrefixLength t limit sz"
  have "?m = 1 \<or> sz (take ?m t) \<le> limit"
    using search_fits [of 1 t limit 1 "int (length t)"] by (auto simp: maxPrefixLength_def)
  moreover have "sz (take 1 t) \<le> limit" using assms by (cases t) auto
  ultimately have "sz (take ?m t) \<le> limit" by auto
  moreover have "take (findCutIndex t limit sz) t @ drop (findCutIndex t limit sz) (take ?m t) = take ?m t"
    using findCutIndex_range [OF assms(1), of limit sz] by (metis append_take_drop_id min.absorb1 take_take)
  ultimately show ?thesis using sz_append by (metis le_trans)
qed

theorem split_loop_fits: "(\<And>c. c \<in> set rest \<Longrightarrow> sz [c] \<le> limit) \<Longrightarrow> c \<in> set (split_loop limit sz rest) \<Longrightarrow> sz c \<le> limit"
proof (induction rest rule: split_induct [of limit sz])
  case (loop rest)
  show ?case
  proof (cases "rest \<noteq> [] \<and> limit < sz rest")
    case True
    let ?rest = "dropWhile (\<lambda>c. c = 10) (drop (findCutIndex rest limit sz) rest)"
    have "set ?rest \<subseteq> set rest" by (meson dual_order.trans set_dropWhileD set_drop_subset subsetI)
    then have "c \<in> set (split_loop limit sz ?rest) \<Longrightarrow> sz c \<le> limit" using loop(1) [OF True] loop(2) by blast
    moreover have "sz (trim_end (take (findCutIndex rest limit sz) rest)) \<le> limit"
      by (rule trim_end_fits, rule cut_fits) (use True loop(2) in auto)
    ultimately show ?thesis using loop(3) unfolding split_loop_cut [of rest limit sz, OF True] Let_def by (auto split: if_splits)
  next
    case False
    show ?thesis
    proof (cases "rest = []")
      case True
      then show ?thesis using loop(3) unfolding split_loop_end [of rest limit sz, OF False] by (simp add: trim_end_def)
    next
      case nonempty: False
      then have "sz (trim_end rest) \<le> limit" using False trim_end_fits by simp
      then show ?thesis using loop(3) unfolding split_loop_end [of rest limit sz, OF False] by (simp split: if_splits)
    qed
  qed
qed

end

lemma utf8_length_mono: "utf8_length u \<le> utf8_length (u @ v)"
proof (induction u rule: utf8_length.induct)
  case (2 c)
  show ?case by (cases v) auto
qed auto

interpretation measured: monotone_measure "measureMessageText m" for m
  by unfold_locales (cases m; simp add: utf8_length_mono)

text \<open>
  C34: a split message keeps every visible character in its order. The text is the chunks with nothing
  but white space around them, and no chunk is empty.
\<close>

theorem split_loses_nothing:
  "rejoins (splitTextForDelivery t limit measure_by measureText) t
   \<and> [] \<notin> set (splitTextForDelivery t limit measure_by measureText)
   \<and> length (splitTextForDelivery t limit measure_by measureText) \<le> length t"
proof -
  have "rejoins [t] t" using rejoins_chunk [of "[]" "[]" "[]" t] rejoins_nil by auto
  moreover have "rejoins [] []" using rejoins_nil by auto
  ultimately have "rejoins (splitTextForDelivery t limit measure_by measureText) t
      \<and> [] \<notin> set (splitTextForDelivery t limit measure_by measureText)"
    using split_loop_rejoins by (auto simp: splitTextForDelivery_def Let_def)
  then show ?thesis using rejoins_length by blast
qed

text \<open>
  C35: every chunk is within the limit, as the doc says, in characters for any limit and in bytes for
  one of at least three bytes, which is what one code unit may take.
\<close>

theorem chunks_within_limit:
  assumes "c \<in> set (splitTextForDelivery t limit measure_by None)" "measure_by = MeasureBytes \<Longrightarrow> 3 \<le> limit"
  shows "measureMessageText measure_by c \<le> nat (max 1 limit)"
proof -
  have unit: "measureMessageText measure_by [x] \<le> nat (max 1 limit)" for x
    using assms(2) by (cases measure_by) (auto simp: nat_le_iff le_nat_iff)
  show ?thesis using assms(1) measured.split_loop_fits [OF unit, where rest = t and c = c]
    by (auto simp: splitTextForDelivery_def Let_def or_else_def split: if_splits)
qed

subsection \<open>No surrogate pair is cut\<close>

text \<open>Well-formed UTF-16: every surrogate is part of a pair.\<close>

fun wf16 :: "utf16 \<Rightarrow> bool" where
  "wf16 [] = True"
| "wf16 [c] = (\<not> is_high c \<and> \<not> is_low c)"
| "wf16 (c # d # cs) = (if is_high c then is_low d \<and> wf16 cs else \<not> is_low c \<and> wf16 (d # cs))"

lemma not_both: "is_high c \<Longrightarrow> \<not> is_low c"
  by (simp add: is_high_def is_low_def)

lemma space_not_surrogate: "regex_space c \<Longrightarrow> \<not> is_high c \<and> \<not> is_low c"
  by (auto simp: regex_space_def is_high_def is_low_def)

text \<open>A position that is not in front of a low surrogate.\<close>

definition aligned :: "utf16 \<Rightarrow> nat \<Rightarrow> bool" where
  "aligned t k \<longleftrightarrow> (if k < length t then \<not> is_low (t ! k) else True)"

lemma wf16_cut: "wf16 t \<Longrightarrow> aligned t k \<Longrightarrow> wf16 (take k t) \<and> wf16 (drop k t)"
proof (induction t arbitrary: k rule: wf16.induct)
  case (2 c)
  then show ?case by (cases k) auto
next
  case (3 c d cs)
  show ?case
  proof (cases k)
    case (Suc j)
    show ?thesis
    proof (cases "is_high c")
      case True
      then obtain i where "j = Suc i" using 3(3,4) Suc by (cases j) (auto simp: aligned_def)
      then show ?thesis using 3(1) [OF True, of i] 3(3,4) True Suc by (auto simp: aligned_def split: if_splits)
    next
      case False
      then have "wf16 (take j (d # cs)) \<and> wf16 (drop j (d # cs))"
        using 3(2) [OF False, of j] 3(3,4) Suc by (auto simp: aligned_def split: if_splits)
      moreover have "wf16 (c # u)" if "wf16 u" for u using that False 3(3) by (cases u) auto
      ultimately show ?thesis using Suc by simp
    qed
  qed (use 3 in simp)
qed simp

lemma wf16_after: "wf16 t \<Longrightarrow> k < length t \<Longrightarrow> \<not> is_high (t ! k) \<Longrightarrow> aligned t (Suc k)"
proof (induction t arbitrary: k rule: wf16.induct)
  case (3 c d cs)
  show ?case
  proof (cases "is_high c")
    case True
    then have d: "is_low d" "wf16 cs" using 3(3) by simp_all
    show ?thesis
    proof (cases k)
      case (Suc j)
      show ?thesis
      proof (cases j)
        case 0
        have "\<not> is_low (cs ! 0)" if "cs \<noteq> []" using d(2) that not_both by (cases cs rule: wf16.cases) (auto split: if_splits)
        then show ?thesis using Suc 0 by (auto simp: aligned_def)
      next
        case (Suc i)
        then show ?thesis using 3(1) [OF True d(2), of i] 3(4,5) \<open>k = Suc j\<close> by (auto simp: aligned_def split: if_splits)
      qed
    qed (use 3(5) True in simp)
  next
    case False
    then have w: "wf16 (d # cs)" using 3(3) by simp
    show ?thesis
    proof (cases k)
      case 0
      have "\<not> is_low d" using w not_both by (cases cs) (auto split: if_splits)
      then show ?thesis using 0 by (simp add: aligned_def)
    next
      case (Suc j)
      then show ?thesis using 3(2) [OF False w, of j] 3(4,5) by (auto simp: aligned_def split: if_splits)
    qed
  qed
qed (auto simp: aligned_def)

lemma wf16_pair: "wf16 t \<Longrightarrow> Suc k < length t \<Longrightarrow> is_low (t ! Suc k) \<Longrightarrow> is_high (t ! k)"
  using wf16_after [of t k] by (auto simp: aligned_def)

lemma wf16_low_start: "wf16 (c # cs) \<Longrightarrow> \<not> is_low c"
  using not_both by (cases cs) (auto split: if_splits)

lemma avoid_aligned:
  assumes "wf16 t" "1 \<le> mid" "mid \<le> int (length t)"
  shows "aligned t (nat (avoidSurrogateSplit t mid))"
proof (cases "mid < int (length t) \<and> is_low (t ! nat mid)")
  case True
  then have "is_high (t ! (nat mid - 1))" using wf16_pair [of t "nat mid - 1"] assms by auto
  then show ?thesis using True assms not_both by (auto simp: aligned_def avoidSurrogateSplit_def nat_diff_distrib)
qed (use assms in \<open>auto simp: aligned_def avoidSurrogateSplit_def\<close>)

text \<open>While the search has found nothing, its window still holds a prefix of three code units.\<close>

lemma search_aligned:
  assumes "wf16 t" "\<And>u. length u \<le> 3 \<Longrightarrow> sz u \<le> limit"
  shows "aligned t (nat best) \<or> low = 1 \<and> 3 \<le> high \<Longrightarrow> 1 \<le> low \<Longrightarrow> high \<le> int (length t) \<Longrightarrow>
    aligned t (nat (prefix_search t limit sz low high best))"
  using assms
proof (induction t limit sz low high best rule: prefix_search.induct)
  case (1 t limit sz low high best)
  let ?mid = "(low + high) div 2"
  let ?idx = "avoidSurrogateSplit t ?mid"
  show ?case
  proof (cases "high < low")
    case True
    then show ?thesis using 1(3) by (auto simp: prefix_search.simps)
  next
    case False
    have mid: "1 \<le> ?mid" "?mid \<le> int (length t)" "?mid \<le> high" using False 1(4,5) by linarith+
    have fail: "aligned t (nat best) \<or> low = 1 \<and> 3 \<le> ?mid - 1" if f: "\<not> (1 \<le> ?idx \<and> sz (take (nat ?idx) t) \<le> limit)"
    proof (cases "aligned t (nat best)")
      case no: False
      then have w: "low = 1" "3 \<le> high" using 1(3) by blast+
      then have "2 \<le> ?mid" by linarith
      then have i: "1 \<le> ?idx" "?idx \<le> ?mid" by (auto simp: avoidSurrogateSplit_def)
      then have "\<not> length (take (nat ?idx) t) \<le> 3" using f 1(7) by blast
      then show ?thesis using w i by auto
    qed simp
    show ?thesis
    proof (cases "1 \<le> ?idx \<and> sz (take (nat ?idx) t) \<le> limit")
      case True
      have "aligned t (nat ?idx)" by (rule avoid_aligned [OF 1(6) mid(1,2)])
      then have "aligned t (nat (prefix_search t limit sz (?mid + 1) high ?idx))"
        using 1(1) [OF False refl refl True] mid 1(5-7) by simp
      then show ?thesis using False True by (subst prefix_search.simps) (simp add: Let_def)
    next
      case no: False
      have "aligned t (nat (prefix_search t limit sz low (?mid - 1) best))"
        using 1(2) [OF False refl refl no] fail [OF no] mid 1(4-7) by simp
      then show ?thesis
        unfolding prefix_search.simps [of t limit sz low high best] Let_def if_not_P [OF False] if_not_P [OF no] .
    qed
  qed
qed

lemma maxPrefix_aligned:
  assumes "wf16 t" "\<And>u. length u \<le> 3 \<Longrightarrow> sz u \<le> limit" "limit < sz t"
  shows "aligned t (maxPrefixLength t limit sz)"
proof -
  have "3 < length t" using assms(2) [of t] assms(3) by (meson leD leI)
  then show ?thesis unfolding maxPrefixLength_def by (intro search_aligned [OF assms(1,2)]) auto
qed

text \<open>A match ends with white space.\<close>

lemma match_ends_space:
  assumes "\<And>u n. match_at u = Some n \<Longrightarrow> 1 \<le> n \<and> n \<le> length u \<and> regex_space (u ! (n - 1))"
  shows "match_ends match_at fl (drop pos t) pos last_end = Some k \<Longrightarrow> pos \<le> length t \<Longrightarrow>
    last_end = Some k \<or> 1 \<le> k \<and> k \<le> length t \<and> regex_space (t ! (k - 1))"
  using assms
proof (induction "length t - pos" arbitrary: pos last_end rule: less_induct)
  case less
  show ?case
  proof (cases "drop pos t = []")
    case True
    then show ?thesis using less(2) by (simp add: match_ends.simps)
  next
    case False
    then have pos: "pos < length t" by simp
    show ?thesis
    proof (cases "match_at (drop pos t)")
      case None
      then have "match_ends match_at fl (drop (Suc pos) t) (Suc pos) last_end = Some k"
        using less(2) False by (subst (asm) match_ends.simps) (simp add: drop_Suc tl_drop)
      then show ?thesis using less(1) [of "Suc pos" last_end] less(4) pos by auto
    next
      case (Some n)
      have n: "1 \<le> n" "n \<le> length t - pos" "regex_space (t ! (pos + n - 1))"
        using less(4) [OF Some] pos by (auto simp: nth_drop)
      let ?last = "if fl \<le> pos + n then Some (pos + n) else last_end"
      have "match_ends match_at fl (drop (pos + n) t) (pos + n) ?last = Some k"
        using less(2) False Some n(1) by (subst (asm) match_ends.simps) (simp add: max_def add.commute split: if_splits)
      then have "?last = Some k \<or> 1 \<le> k \<and> k \<le> length t \<and> regex_space (t ! (k - 1))"
        using less(1) [of "pos + n" ?last] less(4) pos n by auto
      then show ?thesis using n pos by (auto split: if_splits)
    qed
  qed
qed

lemma takeWhile_last: "takeWhile P u \<noteq> [] \<Longrightarrow> P (u ! (length (takeWhile P u) - 1))"
  by (metis diff_less length_greater_0_conv less_numeral_extra(1) nth_mem set_takeWhileD takeWhile_nth)

lemma matches_space:
  "match_blank u = Some n \<Longrightarrow> 1 \<le> n \<and> n \<le> length u \<and> regex_space (u ! (n - 1))"
  "match_sentence u = Some n \<Longrightarrow> 1 \<le> n \<and> n \<le> length u \<and> regex_space (u ! (n - 1))"
proof -
  show "match_blank u = Some n \<Longrightarrow> 1 \<le> n \<and> n \<le> length u \<and> regex_space (u ! (n - 1))"
  proof -
    assume m: "match_blank u = Some n"
    then have n: "n = length (takeWhile (\<lambda>c. c = 10) u)" "2 \<le> n" by (auto simp: match_blank_def Let_def split: if_splits)
    then have "takeWhile (\<lambda>c. c = 10) u \<noteq> []" by (cases "takeWhile (\<lambda>c. c = 10) u") auto
    then have "u ! (n - 1) = 10" using takeWhile_last [of "\<lambda>c. c = 10" u] n(1) by simp
    then show ?thesis using n m matches_within(1) by (auto simp: regex_space_def)
  qed
  show "match_sentence u = Some n \<Longrightarrow> 1 \<le> n \<and> n \<le> length u \<and> regex_space (u ! (n - 1))"
  proof -
    assume m: "match_sentence u = Some n"
    then obtain c cs where c: "u = c # cs" by (auto simp: match_sentence_def split: list.splits)
    define closing :: nat where "closing = (if cs \<noteq> [] \<and> hd cs \<in> {34, 39, 41, 93} then 1 else 0)"
    have "match_sentence u = (if c \<in> {46, 33, 63, 8230} then
        let k = length (takeWhile regex_space (drop closing cs)) in if k = 0 then None else Some (1 + closing + k) else None)"
      unfolding match_sentence_def c closing_def Let_def by simp
    then have u: "u = c # cs" "n = 1 + closing + length (takeWhile regex_space (drop closing cs))"
      "takeWhile regex_space (drop closing cs) \<noteq> []"
      using m c by (auto simp only: Let_def length_0_conv option.inject option.distinct split: if_splits)
    have "regex_space (drop closing cs ! (length (takeWhile regex_space (drop closing cs)) - 1))" using takeWhile_last u(3) by blast
    moreover have "0 < length (takeWhile regex_space (drop closing cs))" using u(3) by simp
    moreover have "closing \<le> length cs" using u(3) by (metis drop_all nle_le takeWhile.simps(1))
    ultimately show ?thesis using u(1,2) matches_within(2) [OF m] by (simp add: nth_drop)
  qed
qed

lemma lastMatchEnd_space:
  "lastMatchEnd t match_blank fl = Some k \<Longrightarrow> 1 \<le> k \<and> k \<le> length t \<and> regex_space (t ! (k - 1))"
  "lastMatchEnd t match_sentence fl = Some k \<Longrightarrow> 1 \<le> k \<and> k \<le> length t \<and> regex_space (t ! (k - 1))"
  unfolding lastMatchEnd_def
  using match_ends_space [of match_blank fl 0 t None k] match_ends_space [of match_sentence fl 0 t None k] matches_space by auto

lemma last_index_space:
  "last_index_of c t = Some k \<Longrightarrow> regex_space c \<Longrightarrow> 1 \<le> Suc k \<and> Suc k \<le> length t \<and> regex_space (t ! (Suc k - 1))"
  using last_index_of_Some [of c t k] by auto

lemma first_of_four:
  "k = (case a of Some j \<Rightarrow> j | None \<Rightarrow> (case b of Some j \<Rightarrow> j | None \<Rightarrow> (case c of Some j \<Rightarrow> j
     | None \<Rightarrow> (case d of Some j \<Rightarrow> j | None \<Rightarrow> h)))) \<Longrightarrow> a = Some k \<or> b = Some k \<or> c = Some k \<or> d = Some k \<or> k = h"
  by (cases a; cases b; cases c; cases d) simp_all

text \<open>A cut is at the end, at the longest prefix, or right after white space.\<close>

lemma findCutIndex_cases:
  fixes t limit sz
  defines "h \<equiv> maxPrefixLength t limit sz" and "k \<equiv> findCutIndex t limit sz"
  shows "k \<in> {length t, h} \<or> 1 \<le> k \<and> k \<le> length (take h t) \<and> regex_space (take h t ! (k - 1))"
proof -
  have s: "regex_space 10" "regex_space 32" by (simp_all add: regex_space_def)
  let ?w = "take h t" and ?fl = "max 1 (h div 2)"
  let ?ok = "\<lambda>j. 1 \<le> j \<and> j \<le> length ?w \<and> regex_space (?w ! (j - 1))"
  let ?at = "\<lambda>x. case x of Some k \<Rightarrow> if ?fl \<le> k then Some (k + 1) else None | None \<Rightarrow> None"
  have at: "?ok j" if "?at (last_index_of c ?w) = Some j" "regex_space c" for c j
    using that last_index_space [of c ?w "j - 1"] by (auto split: option.splits if_splits)
  show ?thesis
  proof (cases "length t \<le> h")
    case True
    then show ?thesis by (simp add: k_def h_def findCutIndex_def)
  next
    case False
    have "k = (case lastMatchEnd ?w match_blank ?fl of Some j \<Rightarrow> j
        | None \<Rightarrow> (case ?at (last_index_of 10 ?w) of Some j \<Rightarrow> j
          | None \<Rightarrow> (case lastMatchEnd ?w match_sentence ?fl of Some j \<Rightarrow> j
            | None \<Rightarrow> (case ?at (last_index_of 32 ?w) of Some j \<Rightarrow> j | None \<Rightarrow> h))))"
      unfolding k_def findCutIndex_def h_def [symmetric] Let_def if_not_P [OF False] by (rule refl)
    from first_of_four [OF this]
    consider "lastMatchEnd ?w match_blank ?fl = Some k" | "?at (last_index_of 10 ?w) = Some k"
      | "lastMatchEnd ?w match_sentence ?fl = Some k" | "?at (last_index_of 32 ?w) = Some k" | "k = h" by blast
    then show ?thesis
    proof cases
      case 1
      then show ?thesis using lastMatchEnd_space(1) by blast
    next
      case 2
      then show ?thesis using at s(1) by blast
    next
      case 3
      then show ?thesis using lastMatchEnd_space(2) by blast
    next
      case 4
      then show ?thesis using at s(2) by blast
    qed simp
  qed
qed

lemma cut_aligned:
  assumes "wf16 t" "\<And>u. length u \<le> 3 \<Longrightarrow> sz u \<le> limit" "limit < sz t"
  shows "aligned t (findCutIndex t limit sz)"
proof -
  let ?h = "maxPrefixLength t limit sz"
  have h: "aligned t ?h" by (rule maxPrefix_aligned) (use assms in auto)
  have sp: "aligned t k" if "1 \<le> k \<and> k \<le> length (take ?h t) \<and> regex_space (take ?h t ! (k - 1))" for k
    using wf16_after [OF assms(1), of "k - 1"] that space_not_surrogate by auto
  have "findCutIndex t limit sz \<in> {length t, ?h}
      \<or> 1 \<le> findCutIndex t limit sz \<and> findCutIndex t limit sz \<le> length (take ?h t)
        \<and> regex_space (take ?h t ! (findCutIndex t limit sz - 1))"
    by (rule findCutIndex_cases)
  then show ?thesis using h sp by (auto simp: aligned_def [of t "length t"])
qed

lemma wf16_trim_end: "wf16 t \<Longrightarrow> wf16 (trim_end t)"
proof -
  assume t: "wf16 t"
  obtain w where w: "t = trim_end t @ w" "list_all regex_space w" by (rule trim_end_split)
  have "aligned t (length (trim_end t))"
  proof (cases w)
    case (Cons c cs)
    then have "t ! length (trim_end t) = c" using w(1) by (metis nth_append_length)
    then show ?thesis using w(2) Cons space_not_surrogate by (simp add: aligned_def)
  qed (use w(1) in \<open>auto simp: aligned_def\<close>)
  then show "wf16 (trim_end t)" using wf16_cut [OF t] w(1) by (metis append_eq_conv_conj)
qed

lemma wf16_drop_newlines: "wf16 t \<Longrightarrow> wf16 (dropWhile (\<lambda>c. c = 10) t)"
  by (induction t rule: wf16.induct) (auto simp: is_high_def is_low_def)

lemma split_loop_wf16:
  assumes "\<And>u. length u \<le> 3 \<Longrightarrow> sz u \<le> limit"
  shows "wf16 rest \<Longrightarrow> c \<in> set (split_loop limit sz rest) \<Longrightarrow> wf16 c"
proof (induction rest rule: split_induct [of limit sz])
  case (loop rest)
  show ?case
  proof (cases "rest \<noteq> [] \<and> limit < sz rest")
    case True
    have a: "wf16 (take (findCutIndex rest limit sz) rest)" "wf16 (drop (findCutIndex rest limit sz) rest)"
      using wf16_cut [OF loop(2) cut_aligned [where sz = sz and limit = limit, OF loop(2) assms]] True by auto
    show ?thesis using loop(3) loop(1) [OF True wf16_drop_newlines [OF a(2)]] wf16_trim_end [OF a(1)]
      unfolding split_loop_cut [of rest limit sz, OF True] Let_def by (auto split: if_splits)
  next
    case False
    show ?thesis using loop(3) wf16_trim_end [OF loop(2)]
      unfolding split_loop_end [of rest limit sz, OF False] by (simp split: if_splits)
  qed
qed

text \<open>
  C36: no emoji is cut in half. A well-formed text is split into well-formed chunks, in characters for
  any limit from three on and in bytes for any limit from nine on.
\<close>

theorem surrogate_pairs_stay_whole:
  assumes "wf16 t" "c \<in> set (splitTextForDelivery t limit measure_by None)"
    and "(case measure_by of MeasureChars \<Rightarrow> 3 | MeasureBytes \<Rightarrow> 9) \<le> limit"
  shows "wf16 c"
proof -
  have u: "utf8_length u \<le> 3 * length u" for u by (induction u rule: utf8_length.induct) auto
  have "measureMessageText measure_by u \<le> nat (max 1 limit)" if "length u \<le> 3" for u
    using assms(3) u [of u] that by (cases measure_by) auto
  then show ?thesis using assms(1,2) split_loop_wf16 [of "measureMessageText measure_by" "nat (max 1 limit)" t c]
    by (auto simp: splitTextForDelivery_def Let_def or_else_def split: if_splits)
qed

text \<open>Below that limit one is: the search tries a prefix of one code unit and never one of two.\<close>

lemma small_limit_cuts_a_pair:
  "wf16 [55357, 56832, 97, 97, 97] \<and> [55357] \<in> set (splitTextForDelivery [55357, 56832, 97, 97, 97] 2 MeasureChars None) \<and> \<not> wf16 [55357]"
proof -
  let ?t = "[55357, 56832, 97, 97, 97]"
  have "prefix_search ?t 2 length 1 5 1 = 1"
    by (simp add: prefix_search.simps avoidSurrogateSplit_def is_low_def numeral_2_eq_2)
  then have "maxPrefixLength ?t 2 length = 1" by (simp add: maxPrefixLength_def)
  then have cut: "findCutIndex ?t 2 length = 1"
    using findCutIndex_range [of ?t 2 length] by simp
  have "trim_end (take 1 ?t) = [55357]" by (simp add: trim_end_def regex_space_def)
  then have "[55357] \<in> set (split_loop 2 length ?t)"
    using split_loop_cut [of ?t 2 length] cut by (simp add: Let_def)
  moreover have "measureMessageText MeasureChars = length" by (rule ext) simp
  ultimately show ?thesis by (simp add: splitTextForDelivery_def or_else_def Let_def is_high_def is_low_def)
qed

subsection \<open>A message in two chunks\<close>

definition demo_text :: utf16 where
  "demo_text = [104, 105, 32, 55357, 56832, 97]"

lemma demo_cut: "findCutIndex demo_text 3 length = 3"
proof -
  have n: "length demo_text = 6" by (simp add: demo_text_def)
  have idx: "avoidSurrogateSplit demo_text 3 = 3" "avoidSurrogateSplit demo_text 5 = 5" "avoidSurrogateSplit demo_text 4 = 3"
    by (simp_all add: avoidSurrogateSplit_def is_low_def demo_text_def)
  have "prefix_search demo_text 3 length 1 6 1 = prefix_search demo_text 3 length 4 6 3"
    by (subst prefix_search.simps) (simp add: Let_def idx n)
  also have "\<dots> = prefix_search demo_text 3 length 4 4 3"
    by (subst prefix_search.simps) (simp add: Let_def idx n)
  also have "\<dots> = prefix_search demo_text 3 length 5 4 3"
    by (subst prefix_search.simps) (simp add: Let_def idx n)
  finally have "prefix_search demo_text 3 length 1 6 1 = 3" by (simp add: prefix_search.simps)
  then have h: "maxPrefixLength demo_text 3 length = 3" by (simp add: maxPrefixLength_def n)
  have "lastMatchEnd (take 3 demo_text) match_blank 1 = None" "lastMatchEnd (take 3 demo_text) match_sentence 1 = None"
    by (simp_all add: lastMatchEnd_def match_ends.simps match_blank_def match_sentence_def demo_text_def)
  moreover have "last_index_of 10 (take 3 demo_text) = None" "last_index_of 32 (take 3 demo_text) = Some 2"
    by (simp_all add: demo_text_def)
  ultimately show ?thesis by (simp add: findCutIndex_def h Let_def n)
qed

lemma demo_split: "splitTextForDelivery demo_text 3 MeasureChars None = [[104, 105], [55357, 56832, 97]]"
proof -
  have c: "measureMessageText MeasureChars = length" by (rule ext) simp
  have "trim_end (take 3 demo_text) = [104, 105]" "trim_end [55357, 56832, 97] = [55357, 56832, 97]"
    by (simp_all add: trim_end_def regex_space_def demo_text_def)
  moreover have "dropWhile (\<lambda>c. c = 10) (drop 3 demo_text) = [55357, 56832, 97]" by (simp add: demo_text_def)
  moreover have "demo_text \<noteq> []" "length demo_text = 6" by (simp_all add: demo_text_def)
  moreover have "split_loop 3 length [55357, 56832, 97] = [trim_end [55357, 56832, 97]]"
    using split_loop_end [of "[55357, 56832, 97]" 3 length] calculation(2) by simp
  ultimately show ?thesis
    using split_loop_cut [of demo_text 3 length] demo_cut by (simp add: splitTextForDelivery_def or_else_def Let_def c)
qed

theorem chunks_within_limit_witness: "measureMessageText MeasureChars [55357, 56832, 97] \<le> nat (max 1 3)"
  by (rule chunks_within_limit [of _ demo_text]) (simp_all add: demo_split)

theorem surrogate_pairs_stay_whole_witness: "wf16 [55357, 56832, 97]"
proof (rule surrogate_pairs_stay_whole [of demo_text])
  show "wf16 demo_text" by (simp add: demo_text_def is_high_def is_low_def)
  show "[55357, 56832, 97] \<in> set (splitTextForDelivery demo_text 3 MeasureChars None)" by (simp add: demo_split)
qed simp

end
