(* ===== verification/Spec2Isabelle.thy ===== *)
theory Spec2Isabelle
  imports TurnQueueProps RestartGate CodexSupervision FederationRouterProps FederationSessions
    RateLimits TokenBuckets DependencyProps RestartWiringProps BlobSender RuntimeLeasesProps
    AccessControlProps FederationEnrollmentProps MessagingPairingProps
    TextSplittingProps
begin

text \<open>
  PwrAgent runs many coding-agent threads on one machine, lets chat services drive them, and joins
  instances on several machines into a federation. This development models the parts of it that
  decide what happens and when, and proves what makes them correct. Paths are relative to
  \<open>src/\<close>; \<open>main/\<close> is \<open>apps/desktop/src/main/\<close>, \<open>shared/\<close> is \<open>packages/shared/src/\<close> and
  \<open>federation/\<close> is \<open>packages/federation/src/\<close>.

  The parts, and how they meet.

  \<^item> The turn queue. Every message for a thread goes through \<open>ThreadTurnQueue\<close>
  (\<open>main/app-server/thread-turn-queue.ts\<close>): one FIFO and one hold per thread, at most one start in
  flight, and \<open>queue-admission.ts\<close> for outcomes that overtake the backend's acknowledgement.
  \<open>QueueAdmission\<close> and \<open>TurnQueueTypes\<close> hold the data, \<open>TurnQueue\<close> the state, \<open>TurnQueueOps\<close> and
  \<open>TurnQueueEdits\<close> the operations (an operation that awaits the backend is split at the await; one that
  awaits its own publications, but for that of a started turn, is one step),
  \<open>TurnQueueViews\<close>, \<open>TurnQueueLog\<close>, \<open>TurnQueueInv\<close>, \<open>TurnQueueSubmits\<close>, \<open>TurnQueueEditsInv\<close> and
  \<open>TurnQueueStarts\<close> what each one keeps, \<open>TurnQueueRuns\<close> and \<open>TurnQueueSafety\<close> the runs with
  any interleaving of calls and answers, \<open>TurnQueueProps\<close> the properties: no accepted message is lost
  or delivered twice, one flight per thread, dispatch only under its guards.

  \<^item> Quiet restart. \<open>RestartGate\<close> models \<open>restart-continuation-gate.ts\<close>, which the queue asks before
  each dispatch; \<open>RestartStore\<close> models \<open>main/state/restart-continuation-store.ts\<close> and the conversion
  of queue entries to rows and back; \<open>RestartWiring\<close> models the functions of \<open>backend-registry.ts\<close>
  that join queue, gate and store. \<open>RestartStoreProps\<close> and \<open>RestartWiringProps\<close> show that waiting
  messages come back as they were at the last save, also when they are saved again, that a closed gate
  lets only due continuations through, and that an opening gate drains every queue.

  \<^item> Thread dependencies. \<open>ThreadDependencies\<close> models the evaluation of prerequisites of
  \<open>thread-dependency-coordinator.ts\<close>, \<open>DependencyStore\<close> the store with its cycle search and
  compare-and-swap, \<open>DependencyRuns\<close> what any number of processes do to it; \<open>DependencyProps\<close> and
  \<open>DependencyRuns\<close> show that the graph stays acyclic, a registration is refused exactly for a cycle, a
  waking prompt is sent at most once and rests on fresh evidence.

  \<^item> Supervision and budgets. \<open>CodexSupervision\<close> models the restart and recycle policies of
  \<open>packages/owner-core/src/codex-app-server\<close>; \<open>TokenBuckets\<close> and \<open>RateLimits\<close> the request budgets,
  the provider rate gate and the delivery budget of messaging. Their theorems bound what is let through in
  any window, for any clock readings the statement allows.

  \<^item> Federation. \<open>FederationEnrollment\<close> models how an instance is let in: the peer and invite tables
  (\<open>main/storage/federation-store.ts\<close>), \<open>federation-enrollment.ts\<close> and the authentication phase of both
  ends of \<open>federation-transport.ts\<close>. \<open>FederationSessions\<close> models the session policy, the registry of
  sessions and the pending requests; \<open>FederationRouter\<close> the routing of envelopes between authenticated
  peers; \<open>BlobReceiver\<close> and \<open>BlobSender\<close> the resumable file transfer, \<open>BlobResume\<close> what a receiver
  keeps of a transfer for a sender that comes back. \<open>FederationEnrollmentProps\<close>
  shows that a session rests on a signature of the pinned key for this very connection, that an invite
  works once and a revoked peer stays out, and that honest ends agree; \<open>FederationRouterProps\<close> that no
  origin is spoofed, nothing runs without its capability, relays end and bulk order is kept;
  \<open>BlobReceiverProps\<close> and \<open>BlobSender\<close> that a published file is the announced one and that an
  interrupted transfer completes.

  \<^item> Several instances of one profile. \<open>RuntimeLeases\<close> and \<open>LeaseCoordinators\<close> model the leases of
  \<open>main/state/app-runtime-instance-store.ts\<close>, the markers of \<open>profile.ts\<close>, \<open>runtime-lease-manager.ts\<close>
  and the coordinators; \<open>RuntimeLeasesProps\<close> shows that at most one running instance holds a lease
  while no attempt misses a running
  owner, that an owner that is missed keeps its lease for a minute, and that a dead owner is replaced.

  \<^item> Who may do what. \<open>AccessControl\<close> models the permission catalogue and its resolution
  (\<open>shared/contracts/rbac.ts\<close>), \<open>AccessPolicy\<close> the policy file, the service, the requests of the settings
  pane and the gates of \<open>messaging-controller.ts\<close>. \<open>AccessControlProps\<close> shows that permissions are exactly what is
  attached, that built-in roles cannot be redefined, that a malformed policy denies everyone and
  when enforcement is off, and where the full access that \<open>mutate_thread\<close> sets can come from.
  \<open>MessagingPairing\<close> models how a chat user is authorized with a code
  (\<open>main/messaging/messaging-pairing-store.ts\<close>, the pairing part of \<open>messaging-runtime.ts\<close> and of
  \<open>main/ipc/messaging-status.ts\<close>); \<open>MessagingPairingProps\<close> shows that every contact it adds sent a live
  code the operator had generated for such a chat and approved, and what a row of the table always holds.

  \<^item> Long messages. \<open>TextSplitting\<close> models the splitter every chat provider shares
  (\<open>packages/messaging/interface/src/text-splitting.ts\<close>) on UTF-16 code units; \<open>TextSplittingProps\<close> shows
  that no visible character is lost, every chunk is within the limit and no surrogate pair is cut.

  Shared theories. \<open>Prelude\<close> has JavaScript's insertion-ordered \<open>Map\<close> as an association list
  with the locale \<open>ordered_map\<close>, array search and splice, and \<open>trim\<close>; \<open>JsonText\<close> the text
  of \<open>JSON.stringify\<close>, shown to determine the value; \<open>OneTimeTokens\<close> the contract of a table of
  one-time tokens as a locale; \<open>ThreadIdentity\<close> the keys of threads.

  How code becomes definitions. A class is a record and its methods are functions on it; a
  SQLite table is a map of rows and a transaction, which the code runs synchronously, is one step; a thrown
  error, a rejection or an early return is a value; a promise that the code awaits splits the method in
  two. JavaScript numbers that are times, counts or versions are integers (they stay below \<open>2^53\<close>),
  strings are lists of Latin-1 characters. Random ids, clock readings and the answers of the world are
  arguments, so a theorem over a run holds for every choice of them. Runs are folds of a step function
  over a list of events, or inductive relations; no theorem bounds their length. Loops are structural
  recursions or functions with a measure; no fuel is used where the code's loop has a bound of its own,
  and the fuel of the two searches that have none (cycle search, number of relay hops) is the number
  of nodes and the hop limit.

  What is assumed. Hypotheses that stand for the world are premises of the theorem that uses them: a
  clock that does not run backwards where a bound over time needs it, no attempt that misses a running owner for the
  leases, a TOML editor that writes the section it is given, a digest without collisions on the
  two contents at hand, a signature scheme under which a key verifies only what its holder signed. Each such
  theorem has a witness at which its premises hold.

  Not modelled. The renderer, the Electron shell, windows and IPC registration (views and wiring);
  the rest of the backend registry and of the controller, the Codex and ACP clients and the chat providers,
  which are calls to processes and services; the Noise handshake, WebSockets and compression (cryptography
  and I/O of libraries); SQL text and migrations; the audit trail and diagnostics; build scripts and tests.
\<close>

end
